(* ===== verification/Prelude.thy ===== *)
theory Prelude
  imports Main "HOL-Library.Word" "HOL-Library.Monad_Syntax"
begin

unbundle bit_operations_syntax

text \<open>
  Shared vocabulary of the development: the fixed-width integers of the C++ sources, the
  \<open>Status\<close> values that every fallible operation returns (\<^verbatim>\<open>include/cortrix/common/status.h\<close>), the
  little-endian byte codecs that all on-disk formats use, and the generic list and word lemmas
  the components share.  Sizes and offsets (\<open>size_t\<close>) are natural numbers: every offset the
  sources compute is bounded by a buffer that exists in memory plus at most \<open>2\<^sup>3\<^sup>5\<close>, so it cannot
  wrap at 64 bits.
\<close>

section \<open>Integers, bytes and strings\<close>

type_synonym u8 = "8 word"
type_synonym u16 = "16 word"
type_synonym u32 = "32 word"
type_synonym u64 = "64 word"
type_synonym bytes = "u8 list"

text \<open>
  \<open>codec\<close> collects the read-after-write laws and lengths of the byte codecs, \<open>status\<close> the facts
  that tell an \<open>Ok\<close> status from an error.
\<close>

named_theorems codec "lengths and read-after-write laws of the little-endian codecs"
named_theorems status "Ok and error statuses"

text \<open>
  \<open>std::string\<close> data is a byte list; messages are character strings.  \<open>chars\<close> views data as text and
  \<open>to_string\<close> is \<open>std::to_string\<close> on an unsigned integer.
\<close>

definition chars :: "bytes \<Rightarrow> string" where
  "chars bs = map (\<lambda>b. char_of (unat b)) bs"

fun to_string :: "nat \<Rightarrow> string" where
  "to_string n = (if n < 10 then [char_of (48 + n)] else to_string (n div 10) @ [char_of (48 + n mod 10)])"

declare to_string.simps [simp del]

section \<open>Status\<close>

datatype StatusCode =
    kOk | kInvalidArgument | kNotFound | kAlreadyExists | kPermissionDenied
  | kUnauthenticated | kInternal | kUnavailable

record Status =
  code :: StatusCode
  message :: string

definition Status_Ok :: Status where
  "Status_Ok = \<lparr>code = kOk, message = []\<rparr>"

definition ok :: "Status \<Rightarrow> bool" where
  "ok s \<longleftrightarrow> code s = kOk"

definition StatusOf :: "StatusCode \<Rightarrow> string \<Rightarrow> Status" where
  "StatusOf c m = \<lparr>code = c, message = m\<rparr>"

definition http_status :: "Status \<Rightarrow> nat" where
  "http_status s = (case code s of
     kOk \<Rightarrow> 200 | kNotFound \<Rightarrow> 404 | kInvalidArgument \<Rightarrow> 400 | kInternal \<Rightarrow> 500
   | kUnauthenticated \<Rightarrow> 401 | kPermissionDenied \<Rightarrow> 403 | kUnavailable \<Rightarrow> 503
   | kAlreadyExists \<Rightarrow> 409)"

text \<open>A coded status: the message carries the stable error code as a prefix.\<close>

definition CodedStatus :: "StatusCode \<Rightarrow> string \<Rightarrow> string \<Rightarrow> Status" where
  "CodedStatus sc c detail = StatusOf sc (c @ '': '' @ detail)"

lemma ok_Status_Ok [simp, status]: "ok Status_Ok"
  by (simp add: ok_def Status_Ok_def)

lemma ok_StatusOf [simp, status]: "ok (StatusOf c m) \<longleftrightarrow> c = kOk"
  by (simp add: ok_def StatusOf_def)

lemma ok_CodedStatus [simp, status]: "ok (CodedStatus sc c d) \<longleftrightarrow> sc = kOk"
  by (simp add: CodedStatus_def)

lemma Status_Ok_neq_StatusOf [simp, status]: "c \<noteq> kOk \<Longrightarrow> Status_Ok \<noteq> StatusOf c m"
  by (simp add: Status_Ok_def StatusOf_def)

section \<open>Little-endian codecs\<close>

text \<open>
  \<open>put_le n v\<close> appends \<open>n\<close> bytes, the \<open>i\<close>-th being \<open>(v >> (8 * i)) & 0xFF\<close>; \<open>get_le n p\<close> is the loop
  \<open>v |= p[i] << (8 * i)\<close>.  The sources write one instance per width.
\<close>

definition put_le :: "nat \<Rightarrow> 'a::len word \<Rightarrow> bytes" where
  "put_le n v = map (\<lambda>i. ucast (drop_bit (8 * i) v AND 0xFF)) [0..<n]"

definition get_le :: "nat \<Rightarrow> bytes \<Rightarrow> 'a::len word" where
  "get_le n p = fold (\<lambda>i v. v OR push_bit (8 * i) (ucast (p ! i))) [0..<n] 0"

lemma length_put_le [simp, codec]: "length (put_le n v) = n"
  by (simp add: put_le_def)

lemma nth_put_le: "i < n \<Longrightarrow> put_le n v ! i = ucast (drop_bit (8 * i) v AND 0xFF)"
  by (simp add: put_le_def)

lemma bit_byte_of_word:
  fixes v :: "'a::len word"
  shows "bit (ucast (drop_bit k v AND 0xFF) :: u8) j \<longleftrightarrow> j < 8 \<and> bit v (k + j)"
proof -
  have ff: "bit (0xFF :: 'a word) j \<longleftrightarrow> j < 8 \<and> j < LENGTH('a)"
  proof -
    have "(0xFF :: 'a word) = mask 8" by (simp add: mask_eq_exp_minus_1)
    then have "bit (0xFF :: 'a word) j \<longleftrightarrow> bit (mask 8 :: 'a word) j" by (rule arg_cong)
    then show ?thesis by (simp only: bit_mask_iff) auto
  qed
  show ?thesis
    unfolding bit_ucast_iff bit_and_iff bit_drop_bit_eq ff comp_def
    by (auto dest: bit_imp_le_length)
qed

lemma bit_fold_or:
  fixes f :: "nat \<Rightarrow> 'a::len word"
  shows "bit (fold (\<lambda>i v. v OR f i) xs a) k \<longleftrightarrow> bit a k \<or> (\<exists>i\<in>set xs. bit (f i) k)"
  by (induction xs arbitrary: a) (auto simp: bit_or_iff)

lemma bit_get_le:
  "bit (get_le n p :: 'a::len word) k \<longleftrightarrow> k < LENGTH('a) \<and> k < 8 * n \<and> bit (p ! (k div 8)) (k mod 8)"
proof -
  have one: "bit (push_bit (8 * i) (ucast (p ! i)) :: 'a word) k \<longleftrightarrow>
      k < LENGTH('a) \<and> i = k div 8 \<and> bit (p ! i) (k mod 8)" for i
  proof -
    have "bit (push_bit (8 * i) (ucast (p ! i)) :: 'a word) k \<longleftrightarrow>
        k < LENGTH('a) \<and> 8 * i \<le> k \<and> bit (p ! i) (k - 8 * i)"
      by (auto simp: bit_simps)
    moreover have "8 * i \<le> k \<and> bit (p ! i) (k - 8 * i) \<longleftrightarrow> i = k div 8 \<and> bit (p ! i) (k mod 8)"
    proof
      assume a: "8 * i \<le> k \<and> bit (p ! i) (k - 8 * i)"
      then have "k - 8 * i < 8" using bit_imp_le_length[of "p ! i"] by force
      then have "i = k div 8" using a by linarith
      moreover from this have "k mod 8 = k - 8 * i" by (simp add: minus_mult_div_eq_mod)
      ultimately show "i = k div 8 \<and> bit (p ! i) (k mod 8)" using a by simp
    next
      assume "i = k div 8 \<and> bit (p ! i) (k mod 8)"
      then show "8 * i \<le> k \<and> bit (p ! i) (k - 8 * i)"
        by (auto simp: minus_mult_div_eq_mod)
    qed
    ultimately show ?thesis by blast
  qed
  have "bit (get_le n p :: 'a word) k \<longleftrightarrow>
      (\<exists>i\<in>{0..<n}. bit (push_bit (8 * i) (ucast (p ! i)) :: 'a word) k)"
    unfolding get_le_def by (simp add: bit_fold_or)
  also have "\<dots> \<longleftrightarrow> k < LENGTH('a) \<and> k < 8 * n \<and> bit (p ! (k div 8)) (k mod 8)"
    unfolding one by (auto simp: less_mult_imp_div_less mult.commute)
  finally show ?thesis .
qed

text \<open>Read after write: a field that was put with enough bytes for its width reads back.\<close>

lemma get_put_le:
  fixes v :: "'a::len word"
  assumes "LENGTH('a) \<le> 8 * n"
  shows "get_le n (put_le n v @ rest) = v"
proof (rule bit_word_eqI)
  fix k assume k: "k < LENGTH('a)"
  then have "k div 8 < n" using assms by auto
  then have "(put_le n v @ rest) ! (k div 8) = ucast (drop_bit (8 * (k div 8)) v AND 0xFF)"
    by (simp add: nth_append nth_put_le)
  then show "bit (get_le n (put_le n v @ rest) :: 'a word) k \<longleftrightarrow> bit v k"
    using k assms by (simp add: bit_get_le bit_byte_of_word)
qed

text \<open>Write after read: the bytes of a value that was read are the bytes read.\<close>

lemma put_get_le:
  fixes p :: bytes
  assumes "8 * n \<le> LENGTH('a::len)" "n \<le> length p"
  shows "put_le n (get_le n p :: 'a word) = take n p"
proof (rule nth_equalityI)
  show "length (put_le n (get_le n p :: 'a word)) = length (take n p)" using assms by simp
next
  fix i assume "i < length (put_le n (get_le n p :: 'a word))"
  then have i: "i < n" by simp
  have "put_le n (get_le n p :: 'a word) ! i = p ! i"
  proof (rule bit_word_eqI)
    fix j assume j: "j < LENGTH(8)"
    have "8 * i + j < 8 * n" using i j by simp
    then show "bit (put_le n (get_le n p :: 'a word) ! i) j \<longleftrightarrow> bit (p ! i) j"
      using i j assms by (simp add: nth_put_le bit_byte_of_word bit_get_le)
  qed
  then show "put_le n (get_le n p :: 'a word) ! i = take n p ! i" using i by simp
qed

lemma get_le_take: "n \<le> m \<Longrightarrow> get_le n (take m p) = get_le n p"
  unfolding get_le_def by (rule fold_cong) auto

lemma get_le_append: "n \<le> length p \<Longrightarrow> get_le n (p @ q) = get_le n p"
  unfolding get_le_def by (rule fold_cong) (auto simp: nth_append)

subsection \<open>The widths the sources use\<close>

definition PutU8 :: "u8 \<Rightarrow> bytes" where "PutU8 v = [v]"
definition PutU16 :: "u16 \<Rightarrow> bytes" where "PutU16 v = put_le 2 v"
definition PutU32 :: "u32 \<Rightarrow> bytes" where "PutU32 v = put_le 4 v"
definition PutU64 :: "u64 \<Rightarrow> bytes" where "PutU64 v = put_le 8 v"
definition GetU16 :: "bytes \<Rightarrow> u16" where "GetU16 p = get_le 2 p"
definition GetU32 :: "bytes \<Rightarrow> u32" where "GetU32 p = get_le 4 p"
definition GetU64 :: "bytes \<Rightarrow> u64" where "GetU64 p = get_le 8 p"

lemmas Put_defs = PutU8_def PutU16_def PutU32_def PutU64_def
lemmas Get_defs = GetU16_def GetU32_def GetU64_def

lemma length_Put [simp, codec]:
  "length (PutU8 a) = 1" "length (PutU16 b) = 2" "length (PutU32 c) = 4" "length (PutU64 d) = 8"
  by (simp_all add: Put_defs)

lemma Get_Put [simp, codec]:
  "GetU16 (PutU16 b @ r) = b" "GetU32 (PutU32 c @ r) = c" "GetU64 (PutU64 d @ r) = d"
  by (simp_all add: Put_defs Get_defs get_put_le)

lemma Get_Put_only [simp, codec]:
  "GetU16 (PutU16 b) = b" "GetU32 (PutU32 c) = c" "GetU64 (PutU64 d) = d"
  using Get_Put[where r = "[]"] by simp_all

lemma Get_take [codec]:
  "2 \<le> n \<Longrightarrow> GetU16 (take n p) = GetU16 p"
  "4 \<le> n \<Longrightarrow> GetU32 (take n p) = GetU32 p"
  "8 \<le> n \<Longrightarrow> GetU64 (take n p) = GetU64 p"
  by (simp_all add: Get_defs get_le_take)

lemma Get_append [codec]:
  "2 \<le> length p \<Longrightarrow> GetU16 (p @ q) = GetU16 p"
  "4 \<le> length p \<Longrightarrow> GetU32 (p @ q) = GetU32 p"
  "8 \<le> length p \<Longrightarrow> GetU64 (p @ q) = GetU64 p"
  by (simp_all add: Get_defs get_le_append)

lemma PutU32_inject [simp]: "PutU32 a = PutU32 b \<longleftrightarrow> a = b"
  by (metis Get_Put_only(2))

lemma PutU64_inject [simp]: "PutU64 a = PutU64 b \<longleftrightarrow> a = b"
  by (metis Get_Put_only(3))

section \<open>Checked memory reads\<close>

text \<open>
  Reading \<open>n\<close> bytes at \<open>p + off\<close> of a buffer.  \<open>None\<close> is a read outside the buffer, which C++
  leaves undefined; the parsers are modelled in the option monad so that their memory safety is a
  theorem (they never reach \<open>None\<close>).
\<close>

definition read_u8 :: "bytes \<Rightarrow> nat \<Rightarrow> u8 option" where
  "read_u8 p off = (if off + 1 \<le> length p then Some (p ! off) else None)"

definition read_u16 :: "bytes \<Rightarrow> nat \<Rightarrow> u16 option" where
  "read_u16 p off = (if off + 2 \<le> length p then Some (GetU16 (drop off p)) else None)"

definition read_u32 :: "bytes \<Rightarrow> nat \<Rightarrow> u32 option" where
  "read_u32 p off = (if off + 4 \<le> length p then Some (GetU32 (drop off p)) else None)"

definition read_u64 :: "bytes \<Rightarrow> nat \<Rightarrow> u64 option" where
  "read_u64 p off = (if off + 8 \<le> length p then Some (GetU64 (drop off p)) else None)"

definition read_bytes :: "bytes \<Rightarrow> nat \<Rightarrow> nat \<Rightarrow> bytes option" where
  "read_bytes p off n = (if off + n \<le> length p then Some (take n (drop off p)) else None)"

lemmas read_defs = read_u8_def read_u16_def read_u32_def read_u64_def read_bytes_def

section \<open>Counters\<close>

text \<open>Adding one to a counter that is not at its maximum.\<close>

lemma word_plus_one_nonzero: "(x::'a::len word) \<noteq> - 1 \<Longrightarrow> 1 + x \<noteq> 0"
  by (metis add.commute eq_neg_iff_add_eq_0)

lemma word_less_plus_one:
  fixes x y :: "'a::len word"
  assumes "x \<noteq> - 1"
  shows "y < x + 1 \<longleftrightarrow> y < x \<or> y = x"
proof -
  have "unat (x + 1) = Suc (unat x)"
    using unatSuc[OF word_plus_one_nonzero[OF assms]] by (simp add: add.commute)
  then show ?thesis by (simp add: word_less_nat_alt less_Suc_eq word_unat_eq_iff)
qed

section \<open>Results\<close>

text \<open>Error propagation: a result mapped over its success value is a success exactly when it was.\<close>

lemma case_sum_Inr_eq [simp]:
  "(case r of Inl s \<Rightarrow> Inl (g s) | Inr x \<Rightarrow> Inr (f x)) = Inr z \<longleftrightarrow> (\<exists>x. r = Inr x \<and> z = f x)"
  by (cases r) auto

lemma case_sum_Inl_eq [simp]:
  "(case r of Inl s \<Rightarrow> Inl (g s) | Inr x \<Rightarrow> Inr (f x)) = Inl z \<longleftrightarrow> (\<exists>s. r = Inl s \<and> z = g s)"
  by (cases r) auto

section \<open>Lists\<close>

lemma drop_append_length [simp]: "drop (length xs) (xs @ ys) = ys"
  by simp

lemma take_drop_mid: "take (length ys) (drop (length xs) (xs @ ys @ zs)) = ys"
  by simp

text \<open>A window inside a prefix does not depend on what follows the prefix.\<close>

lemma take_drop_window:
  "off + n \<le> m \<Longrightarrow> m \<le> length d \<Longrightarrow> take n (drop off (take m d @ x)) = take n (drop off d)"
  by (rule nth_equalityI) (auto simp: nth_append)

lemma length_concat_map_const:
  "(\<And>x. x \<in> set xs \<Longrightarrow> length (f x) = w) \<Longrightarrow> length (concat (map f xs)) = w * length xs"
  by (induction xs) auto

end
