(* ===== verification/Crc.thy ===== *)
theory Crc
  imports Prelude
begin

unbundle bit_operations_syntax

text \<open>
  The CRC-32 checksum that frames every log record (\<^verbatim>\<open>src/store/group_commit_writer.cpp\<close>, \<open>Crc32Table\<close>
  and \<open>Crc32\<close>): the table-driven code, its equivalence with the bit-serial definition of the
  polynomial division, and the error-detection facts the log readers rely on.
\<close>

section \<open>The code\<close>

definition crc_shift :: "u32 \<Rightarrow> u32" where
  "crc_shift c = (if c AND 1 \<noteq> 0 then 0xEDB88320 XOR drop_bit 1 c else drop_bit 1 c)"

definition Crc32Table :: "u32 list" where
  "Crc32Table = map (\<lambda>i. (crc_shift ^^ 8) (of_nat i)) [0..<256]"

definition crc_step :: "u32 \<Rightarrow> u8 \<Rightarrow> u32" where
  "crc_step crc d = Crc32Table ! unat ((crc XOR ucast d) AND 0xFF) XOR drop_bit 8 crc"

definition Crc32 :: "bytes \<Rightarrow> u32" where
  "Crc32 data = fold (\<lambda>d crc. crc_step crc d) data 0xFFFFFFFF XOR 0xFFFFFFFF"

section \<open>The bit-serial reference\<close>

definition crc_serial :: "bytes \<Rightarrow> u32" where
  "crc_serial data = fold (\<lambda>d crc. (crc_shift ^^ 8) (crc XOR ucast d)) data 0xFFFFFFFF XOR 0xFFFFFFFF"

lemma crc_shift_odd: "crc_shift c = (if odd c then 0xEDB88320 XOR drop_bit 1 c else drop_bit 1 c)"
  by (simp add: crc_shift_def and_one_eq odd_iff_mod_2_eq_one)

lemma crc_shift_xor: "crc_shift (a XOR b) = crc_shift a XOR crc_shift b"
proof -
  have "odd (a XOR b) \<longleftrightarrow> odd a \<noteq> odd b"
    by (simp add: even_xor_iff)
  then show ?thesis
    unfolding crc_shift_odd by (cases "odd a"; cases "odd b")
      (simp_all add: ac_simps flip: xor.assoc)
qed

lemma crc_shift_pow_xor: "(crc_shift ^^ n) (a XOR b) = (crc_shift ^^ n) a XOR (crc_shift ^^ n) b"
  by (induction n) (simp_all add: crc_shift_xor)

lemma crc_shift_pow_drop:
  "(\<And>i. i < n \<Longrightarrow> \<not> bit c i) \<Longrightarrow> (crc_shift ^^ n) c = drop_bit n c"
proof (induction n arbitrary: c)
  case 0
  then show ?case by simp
next
  case (Suc n)
  from Suc.prems[of 0] have ev: "even c" by (simp add: bit_0)
  then have "crc_shift c = drop_bit 1 c" by (simp add: crc_shift_odd)
  moreover have "(crc_shift ^^ n) (drop_bit 1 c) = drop_bit n (drop_bit 1 c)"
    by (rule Suc.IH) (use Suc.prems in \<open>simp add: bit_drop_bit_eq\<close>)
  ultimately show ?case
    by (simp add: funpow_swap1 drop_bit_drop_bit)
qed

lemma low_high_split: "(x :: u32) = (x AND 0xFF) XOR (x AND NOT 0xFF)"
  by (rule bit_word_eqI) (unfold bit_xor_iff bit_and_iff bit_not_iff, auto)

lemma bit_ff32: "bit (0xFF :: u32) i \<longleftrightarrow> i < 8"
proof -
  have "(0xFF :: u32) = mask 8" by (simp add: mask_eq_exp_minus_1)
  then have "bit (0xFF :: u32) i \<longleftrightarrow> bit (mask 8 :: u32) i" by (rule arg_cong)
  then show ?thesis by (simp only: bit_mask_iff) auto
qed

lemma drop8_and_not: "drop_bit 8 (x AND NOT 0xFF) = drop_bit 8 (x :: u32)"
proof (rule bit_word_eqI)
  fix n assume "n < LENGTH(32)"
  have "bit (NOT (0xFF :: u32)) (8 + n) \<longleftrightarrow> 8 + n < 32"
    unfolding bit_not_iff bit_ff32 by auto
  then show "bit (drop_bit 8 (x AND NOT 0xFF)) n \<longleftrightarrow> bit (drop_bit 8 x) n"
    unfolding bit_drop_bit_eq comp_def bit_and_iff
    using bit_imp_le_length[of x "8 + n"] by auto
qed

lemma unat_and_ff: "unat ((x :: u32) AND 0xFF) < 256"
proof -
  have "x AND 0xFF \<le> (0xFF :: u32)" by (rule word_and_le1)
  then have "unat (x AND 0xFF) \<le> unat (0xFF :: u32)" by (simp add: word_le_nat_alt)
  then show ?thesis by simp
qed

lemma Crc32Table_nth: "Crc32Table ! unat (x AND 0xFF) = (crc_shift ^^ 8) (x AND 0xFF)"
  using unat_and_ff[of x] by (simp add: Crc32Table_def del: funpow.simps)

lemma crc_step_serial [code]: "crc_step crc d = (crc_shift ^^ 8) (crc XOR ucast d)"
proof -
  let ?x = "crc XOR ucast d :: u32"
  have hi: "(crc_shift ^^ 8) (?x AND NOT 0xFF) = drop_bit 8 (?x AND NOT 0xFF)"
    by (rule crc_shift_pow_drop) (simp only: bit_and_iff bit_not_iff bit_ff32, simp)
  have dz: "drop_bit 8 (ucast d :: u32) = 0"
    by (rule bit_word_eqI) (simp add: bit_simps, auto dest: bit_imp_le_length)
  have "(crc_shift ^^ 8) ?x = (crc_shift ^^ 8) (?x AND 0xFF) XOR (crc_shift ^^ 8) (?x AND NOT 0xFF)"
    by (subst low_high_split) (rule crc_shift_pow_xor)
  also have "\<dots> = Crc32Table ! unat (?x AND 0xFF) XOR drop_bit 8 ?x"
    by (simp only: hi drop8_and_not Crc32Table_nth)
  also have "drop_bit 8 ?x = drop_bit 8 crc"
    by (simp only: drop_bit_xor dz xor.right_neutral)
  finally show ?thesis by (simp add: crc_step_def)
qed

section \<open>Error detection\<close>

text \<open>One division step is injective: the top bit of the polynomial reveals the bit shifted out.\<close>

lemma bit31_poly: "bit (0xEDB88320 :: u32) 31"
  by simp

lemma crc_shift_top: "bit (crc_shift c) 31 \<longleftrightarrow> odd c"
proof -
  have "\<not> bit (drop_bit 1 c) 31"
    using bit_imp_le_length[of c 32] by (auto simp: bit_drop_bit_eq)
  then show ?thesis
    unfolding crc_shift_odd by (auto simp: bit_xor_iff bit31_poly)
qed

lemma crc_shift_inj: "crc_shift a = crc_shift b \<Longrightarrow> a = b"
proof -
  assume eq: "crc_shift a = crc_shift b"
  then have par: "odd a \<longleftrightarrow> odd b" using crc_shift_top by metis
  have dr: "drop_bit 1 a = drop_bit 1 b"
  proof (cases "odd a")
    case True
    with eq par have "0xEDB88320 XOR drop_bit 1 a = 0xEDB88320 XOR drop_bit 1 b"
      by (simp add: crc_shift_odd)
    then have "0xEDB88320 XOR (0xEDB88320 XOR drop_bit 1 a) = 0xEDB88320 XOR (0xEDB88320 XOR drop_bit 1 b)"
      by (rule arg_cong)
    then show ?thesis by (simp only: xor.left_commute xor_self_eq xor.assoc [symmetric] xor.left_neutral)
  next
    case False
    with eq par show ?thesis by (simp add: crc_shift_odd)
  qed
  show "a = b"
  proof (rule bit_word_eqI)
    fix n assume "n < LENGTH(32)"
    show "bit a n \<longleftrightarrow> bit b n"
    proof (cases n)
      case 0
      then show ?thesis using par by (simp add: bit_0)
    next
      case (Suc m)
      then have "bit a n = bit (drop_bit 1 a) m" "bit b n = bit (drop_bit 1 b) m"
        by (simp_all add: bit_drop_bit_eq)
      then show ?thesis using dr by simp
    qed
  qed
qed

lemma crc_shift_pow_inj: "(crc_shift ^^ n) a = (crc_shift ^^ n) b \<Longrightarrow> a = b"
  by (induction n) (auto dest: crc_shift_inj)

lemma xor_cancel_right: "a XOR c = b XOR c \<longleftrightarrow> a = (b :: 'a::len word)"
proof
  assume "a XOR c = b XOR c"
  then have "(a XOR c) XOR c = (b XOR c) XOR c" by simp
  then show "a = b" by (simp only: xor.assoc xor_self_eq xor.right_neutral)
qed simp

lemma crc_step_inj_state: "crc_step a d = crc_step b d \<longleftrightarrow> a = b"
  by (auto simp: crc_step_serial xor_cancel_right dest!: crc_shift_pow_inj)

lemma ucast_u8_u32_inj: "(ucast d :: u32) = ucast e \<Longrightarrow> (d :: u8) = e"
proof -
  assume "(ucast d :: u32) = ucast e"
  then have "(ucast (ucast d :: u32) :: u8) = ucast (ucast e :: u32)" by simp
  then show "d = e" by (simp add: ucast_up_ucast_id is_up)
qed

lemma crc_step_inj_byte: "crc_step a d = crc_step a e \<longleftrightarrow> d = e"
  by (auto simp: crc_step_serial xor_cancel_right xor.commute[of a]
      dest!: crc_shift_pow_inj ucast_u8_u32_inj)

lemma crc_fold_inj: "fold (\<lambda>d crc. crc_step crc d) xs a = fold (\<lambda>d crc. crc_step crc d) xs b \<longleftrightarrow> a = b"
  by (induction xs arbitrary: a b) (auto simp: crc_step_inj_state)

lemma Crc32_one_byte:
  assumes "i < length data" "d \<noteq> data ! i"
  shows "Crc32 (data[i := d]) \<noteq> Crc32 data"
proof -
  let ?st = "fold (\<lambda>d crc. crc_step crc d)"
  have split: "data = take i data @ data ! i # drop (Suc i) data"
    using assms(1) by (simp add: id_take_nth_drop)
  have upd: "data[i := d] = take i data @ d # drop (Suc i) data"
    using assms(1) by (simp add: upd_conv_take_nth_drop)
  have "?st (data[i := d]) 0xFFFFFFFF \<noteq> ?st data 0xFFFFFFFF"
  proof
    assume "?st (data[i := d]) 0xFFFFFFFF = ?st data 0xFFFFFFFF"
    then have "?st (take i data @ d # drop (Suc i) data) 0xFFFFFFFF =
        ?st (take i data @ data ! i # drop (Suc i) data) 0xFFFFFFFF"
      using split upd by metis
    then show False
      using assms(2) by (simp add: crc_fold_inj crc_step_inj_byte)
  qed
  then show ?thesis by (simp add: Crc32_def xor_cancel_right)
qed

lemma crc_shift_pow8:
  "(crc_shift ^^ 8) c = crc_shift (crc_shift (crc_shift (crc_shift
     (crc_shift (crc_shift (crc_shift (crc_shift c)))))))"
  by (simp add: numeral_eq_Suc)

section \<open>Properties\<close>

text \<open>
  C40: the table-driven checksum computes exactly the bit-serial CRC-32 (reflected polynomial
  \<open>0xEDB88320\<close>, initial value and final exclusive-or \<open>0xFFFFFFFF\<close>) of its input.
\<close>
theorem Crc32_table_driven_correct: "Crc32 data = crc_serial data"
  by (simp add: Crc32_def crc_serial_def crc_step_serial)

text \<open>
  The check value of the IEEE 802.3 CRC-32 (the digits 1 to 9 in ASCII give \<open>0xCBF43926\<close>), which
  fixes polynomial, reflection, initial value and final exclusive-or.
\<close>
lemma Crc32_check_value: "Crc32 [0x31,0x32,0x33,0x34,0x35,0x36,0x37,0x38,0x39] = 0xCBF43926"
proof -
  have
    "crc_step 0xFFFFFFFF 0x31 = 0x7C231048"
    "crc_step 0x7C231048 0x32 = 0xB0ACBB32"
    "crc_step 0xB0ACBB32 0x33 = 0x77B79C2D"
    "crc_step 0x77B79C2D 0x34 = 0x641C1F5C"
    "crc_step 0x641C1F5C 0x35 = 0x340AC5E3"
    "crc_step 0x340AC5E3 0x36 = 0xF68D2C9E"
    "crc_step 0xF68D2C9E 0x37 = 0xAFFC9660"
    "crc_step 0xAFFC9660 0x38 = 0x651F2550"
    "crc_step 0x651F2550 0x39 = 0x340BC6D9"
    by (simp_all add: crc_step_serial crc_shift_pow8 crc_shift_def)
  then show ?thesis by (simp add: Crc32_def)
qed

end
