(* ===== verification/Framing.thy ===== *)
theory Framing
  imports Crc
begin

text \<open>
  The record frame shared by the two write-ahead logs (\<open>PendingEntry::Serialize\<close> in
  \<^verbatim>\<open>src/store/pending_entry.cpp\<close> and \<open>FrameFromBody\<close> in \<^verbatim>\<open>src/store/phnsw/wal_entry.cpp\<close>): a 32-bit
  count of the bytes that follow, the body, and the CRC-32 of the body.  The lemmas say what a reader
  positioned at a frame reads: the whole frame, a torn frame, a frame with one changed byte.
\<close>

abbreviation (input) "kSizePrefixLen \<equiv> (4::nat)"
abbreviation (input) "kChecksumLen \<equiv> (4::nat)"

definition frame :: "bytes \<Rightarrow> bytes" where
  "frame body = PutU32 (of_nat (length body + kChecksumLen)) @ body @ PutU32 (Crc32 body)"

text \<open>The size field does not wrap.\<close>

definition frame_fits :: "bytes \<Rightarrow> bool" where
  "frame_fits body \<longleftrightarrow> length body + kChecksumLen < 2 ^ 32"

lemma length_frame [simp, codec]: "length (frame body) = length body + 8"
  by (simp add: frame_def)

lemma frame_nonempty [simp]: "frame body \<noteq> []"
  using length_frame[of body] by (metis add_is_0 list.size(3) zero_neq_numeral)

lemma unat_frame_size:
  assumes "frame_fits body"
  shows "unat (of_nat (length body) + 4 :: u32) = length body + 4"
proof -
  have "unat (of_nat (length body + 4) :: u32) = (length body + 4) mod 2 ^ 32"
    by (simp only: unat_of_nat) simp
  then show ?thesis using assms by (simp add: frame_fits_def)
qed

lemma read_frame_size [simp, codec]:
  "read_u32 (pre @ frame body @ post) (length pre) = Some (of_nat (length body + 4))"
  by (simp add: read_u32_def frame_def)

lemma read_frame_crc [codec]:
  "read_u32 (pre @ frame body @ post) (length pre + 4 + length body) = Some (Crc32 body)"
  by (simp add: read_u32_def frame_def)

lemma read_frame_body [codec]:
  "read_bytes (pre @ frame body @ post) (length pre + 4) (length body) = Some body"
  by (simp add: read_bytes_def frame_def)

text \<open>The first four bytes of a torn frame still announce the full frame.\<close>

lemma take_frame:
  assumes "4 \<le> k"
  shows "take k (frame body) = PutU32 (of_nat (length body + 4)) @ take (k - 4) (body @ PutU32 (Crc32 body))"
  using assms by (simp add: frame_def)

lemma read_torn_size:
  "4 \<le> k \<Longrightarrow> read_u32 (pre @ take k (frame body)) (length pre) = Some (of_nat (length body + 4))"
  by (simp add: read_u32_def take_frame)

text \<open>A frame whose stored body was altered in one place.\<close>

definition frame_with_byte :: "bytes \<Rightarrow> nat \<Rightarrow> u8 \<Rightarrow> bytes" where
  "frame_with_byte body i d = (frame body)[4 + i := d]"

lemma frame_with_byte_eq:
  "i < length body \<Longrightarrow>
     frame_with_byte body i d = PutU32 (of_nat (length body + 4)) @ body[i := d] @ PutU32 (Crc32 body)"
  by (simp add: frame_with_byte_def frame_def list_update_append)

lemma read_altered:
  assumes "i < length body"
  shows "read_u32 (pre @ frame_with_byte body i d @ post) (length pre) = Some (of_nat (length body + 4))"
    and "read_u32 (pre @ frame_with_byte body i d @ post) (length pre + 4 + length body) = Some (Crc32 body)"
    and "read_bytes (pre @ frame_with_byte body i d @ post) (length pre + 4) (length body) = Some (body[i := d])"
  using assms by (simp_all add: read_u32_def read_bytes_def frame_with_byte_eq)

lemma length_frame_with_byte [simp]: "length (frame_with_byte body i d) = length body + 8"
  by (simp add: frame_with_byte_def)

end
