(* ===== verification/Framed_Log.thy ===== *)
theory Framed_Log
  imports Prelude
begin

text \<open>
  The record scan shared by the two log readers (\<open>PendingLogWriter::ScanRecords\<close> in
  \<^verbatim>\<open>src/store/pending_log_writer.cpp\<close> and the loop of \<open>WalWriter::ReadAll\<close> in
  \<^verbatim>\<open>src/store/phnsw/wal_writer.cpp\<close>), over the interface both record codecs provide: records are
  decoded one after another until the first that does not decode, and the offset behind the last
  good record is reported.  The locale states what a codec promises; the scan lemmas are proved
  from those promises once.
\<close>

section \<open>The scan loop\<close>

text \<open>
  \<open>None\<close> stands for an out-of-bounds read or a scan that never ends; \<open>scan_total\<close> below excludes
  both.  The result is the list of records and the offset just past the last good one.
\<close>

partial_function (option) scan_from ::
  "(bytes \<Rightarrow> nat \<Rightarrow> ('s + 'e \<times> nat) option) \<Rightarrow> bytes \<Rightarrow> nat \<Rightarrow> ('e list \<times> nat) option" where
  "scan_from parse img off =
     (if off < length img
      then (case parse img off of
              None \<Rightarrow> None
            | Some (Inl s) \<Rightarrow> Some ([], off)
            | Some (Inr (e, nxt)) \<Rightarrow>
                do { (es, valid_end) \<leftarrow> scan_from parse img nxt;
                     Some (e # es, valid_end) })
      else Some ([], off))"

lemma scan_from_end: "length img \<le> off \<Longrightarrow> scan_from parse img off = Some ([], off)"
  by (subst scan_from.simps) simp

lemma scan_from_stop:
  "off < length img \<Longrightarrow> parse img off = Some (Inl s) \<Longrightarrow> scan_from parse img off = Some ([], off)"
  by (subst scan_from.simps) simp

lemma scan_from_next:
  "off < length img \<Longrightarrow> parse img off = Some (Inr (e, nxt)) \<Longrightarrow>
   scan_from parse img nxt = Some (es, v) \<Longrightarrow> scan_from parse img off = Some (e # es, v)"
  by (subst scan_from.simps) simp

section \<open>What a record codec promises\<close>

locale framed_log =
  fixes parse :: "bytes \<Rightarrow> nat \<Rightarrow> ('s + 'e \<times> nat) option"
    and enc :: "'e \<Rightarrow> bytes"
    and good :: "'e \<Rightarrow> bool"
    and view :: "'e \<Rightarrow> 'e"
  assumes parse_total: "\<exists>r. parse d off = Some r"
    and parse_advances: "parse d off = Some (Inr (e, nxt)) \<Longrightarrow> off < nxt \<and> nxt \<le> length d"
    and parse_local: "parse d off = Some (Inr (e, nxt)) \<Longrightarrow> parse (take nxt d @ x) off = Some (Inr (e, nxt))"
    and parse_enc: "good e \<Longrightarrow>
      parse (pre @ enc e @ post) (length pre) = Some (Inr (view e, length pre + length (enc e)))"
    and parse_torn: "good e \<Longrightarrow> k < length (enc e) \<Longrightarrow>
      \<exists>s. parse (pre @ take k (enc e)) (length pre) = Some (Inl s)"
begin

lemma enc_nonempty: "good e \<Longrightarrow> 0 < length (enc e)"
  using parse_enc[of e "[]" "[]"] parse_advances by fastforce

lemma scan_total:
  "off \<le> length img \<Longrightarrow>
     \<exists>es v. scan_from parse img off = Some (es, v) \<and> off \<le> v \<and> v \<le> length img"
proof (induction "length img - off" arbitrary: off rule: less_induct)
  case less
  show ?case
  proof (cases "off < length img")
    case True
    obtain r where r: "parse img off = Some r" using parse_total by blast
    show ?thesis
    proof (cases r)
      case (Inl s)
      with True r show ?thesis by (auto simp: scan_from_stop)
    next
      case (Inr p)
      then obtain e nxt where p: "parse img off = Some (Inr (e, nxt))"
        using r by (cases p) auto
      from parse_advances[OF p] have adv: "off < nxt" "nxt \<le> length img" by auto
      then have "length img - nxt < length img - off" using True by simp
      with less.hyps adv obtain es v where "scan_from parse img nxt = Some (es, v)" "nxt \<le> v" "v \<le> length img"
        by blast
      with True p adv show ?thesis
        using scan_from_next[of off img parse e nxt es v] by auto
    qed
  next
    case False
    with less.prems show ?thesis by (simp add: scan_from_end)
  qed
qed

text \<open>The scan reads a run of written records back, and continues behind it.\<close>

lemma scan_written:
  assumes "\<forall>e\<in>set es. good e"
    and "scan_from parse (pre @ concat (map enc es) @ rest) (length pre + length (concat (map enc es))) = Some (es', v)"
  shows "scan_from parse (pre @ concat (map enc es) @ rest) (length pre) = Some (map view es @ es', v)"
  using assms
proof (induction es arbitrary: pre)
  case Nil
  then show ?case by simp
next
  case (Cons e es)
  let ?I = "pre @ enc e @ concat (map enc es) @ rest"
  have g: "good e" using Cons.prems(1) by simp
  have p: "parse ?I (length pre) = Some (Inr (view e, length pre + length (enc e)))"
    using parse_enc[OF g] by simp
  have "scan_from parse ((pre @ enc e) @ concat (map enc es) @ rest) (length (pre @ enc e)) =
      Some (map view es @ es', v)"
    by (rule Cons.IH) (use Cons.prems in \<open>auto simp: add.assoc\<close>)
  then have "scan_from parse ?I (length pre + length (enc e)) = Some (map view es @ es', v)"
    by simp
  moreover have "length pre < length ?I" using enc_nonempty[OF g] by simp
  ultimately show ?case using p by (simp add: scan_from_next)
qed

lemma scan_all:
  assumes "\<forall>e\<in>set es. good e"
  shows "scan_from parse (pre @ concat (map enc es)) (length pre) =
    Some (map view es, length (pre @ concat (map enc es)))"
  using scan_written[OF assms, of pre "[]"] by (simp add: scan_from_end)

text \<open>An interrupted write leaves a strict prefix of a record; the scan stops in front of it.\<close>

lemma scan_torn:
  assumes "\<forall>e\<in>set es. good e" "good f" "k < length (enc f)"
  shows "scan_from parse (pre @ concat (map enc es) @ take k (enc f)) (length pre) =
    Some (map view es, length (pre @ concat (map enc es)))"
proof -
  let ?p = "pre @ concat (map enc es)"
  have "scan_from parse (?p @ take k (enc f)) (length ?p) = Some ([], length ?p)"
  proof (cases "k = 0")
    case True
    then show ?thesis by (simp add: scan_from_end)
  next
    case False
    then have "length ?p < length (?p @ take k (enc f))" using assms(3) by simp
    moreover obtain s where "parse (?p @ take k (enc f)) (length ?p) = Some (Inl s)"
      using parse_torn[OF assms(2,3)] by blast
    ultimately show ?thesis by (rule scan_from_stop)
  qed
  then show ?thesis using scan_written[OF assms(1), of pre "take k (enc f)"] by simp
qed

text \<open>Cutting the image behind the last good record changes nothing for the next scan.\<close>

lemma scan_take:
  "off \<le> length img \<Longrightarrow> scan_from parse img off = Some (es, v) \<Longrightarrow>
     scan_from parse (take v img) off = Some (es, v)"
proof (induction es arbitrary: off)
  case Nil
  show ?case
  proof (cases "off < length img")
    case True
    obtain r where r: "parse img off = Some r" using parse_total by blast
    have "v = off"
      using Nil.prems True r by (subst (asm) scan_from.simps) (auto simp: bind_eq_Some_conv split: sum.splits option.splits prod.splits)
    then show ?thesis using True by (simp add: scan_from_end)
  next
    case False
    with Nil.prems show ?thesis by (auto simp: scan_from_end)
  qed
next
  case (Cons e es)
  have off: "off < length img" using Cons.prems by (cases "off < length img") (auto simp: scan_from_end)
  then obtain nxt where p: "parse img off = Some (Inr (e, nxt))"
      and rest: "scan_from parse img nxt = Some (es, v)"
    using Cons.prems(2)
    by (subst (asm) scan_from.simps) (auto simp: bind_eq_Some_conv split: sum.splits option.splits prod.splits)
  from parse_advances[OF p] have adv: "off < nxt" "nxt \<le> length img" by auto
  from scan_total[OF adv(2)] rest have v: "nxt \<le> v" "v \<le> length img" by auto
  have "take v img = take nxt img @ drop nxt (take v img)"
    using v by (metis append_take_drop_id min.absorb1 take_take)
  then have p': "parse (take v img) off = Some (Inr (e, nxt))"
    using parse_local[OF p, of "drop nxt (take v img)"] by simp
  have "scan_from parse (take v img) nxt = Some (es, v)"
    using Cons.IH[OF adv(2) rest] .
  moreover have "off < length (take v img)" using adv v by simp
  ultimately show ?case using p' by (simp add: scan_from_next)
qed

text \<open>
  A prefix of a log holds the records that lie completely inside it; the scan returns exactly these.
\<close>

lemma scan_prefix:
  assumes "\<forall>e\<in>set es. good e"
  shows "\<exists>m \<le> length es.
      scan_from parse (pre @ take k (concat (map enc es))) (length pre) =
        Some (map view (take m es), length pre + length (concat (map enc (take m es)))) \<and>
      (m < length es \<longrightarrow> k < length (concat (map enc (take (Suc m) es))))"
  using assms
proof (induction es arbitrary: pre k)
  case Nil
  then show ?case by (simp add: scan_from_end)
next
  case (Cons e es)
  have g: "good e" using Cons.prems by simp
  show ?case
  proof (cases "k < length (enc e)")
    case True
    then have "take k (concat (map enc (e # es))) = take k (enc e)" by simp
    then show ?thesis
      using scan_torn[of "[]" e k pre] g True by (intro exI[of _ 0]) simp
  next
    case False
    let ?k = "k - length (enc e)"
    have tk: "take k (concat (map enc (e # es))) = enc e @ take ?k (concat (map enc es))"
      using False by simp
    obtain m where m: "m \<le> length es"
      "scan_from parse ((pre @ enc e) @ take ?k (concat (map enc es))) (length (pre @ enc e)) =
         Some (map view (take m es), length (pre @ enc e) + length (concat (map enc (take m es))))"
      "m < length es \<longrightarrow> ?k < length (concat (map enc (take (Suc m) es)))"
      using Cons.IH[of "pre @ enc e" ?k] Cons.prems by auto
    have "scan_from parse (pre @ concat (map enc [e]) @ take ?k (concat (map enc es))) (length pre) =
        Some (map view [e] @ map view (take m es), length (pre @ enc e) + length (concat (map enc (take m es))))"
      by (rule scan_written) (use g m(2) in simp_all)
    then show ?thesis
      using m(1,3) False tk by (intro exI[of _ "Suc m"]) auto
  qed
qed

lemma scan_prefix_ge:
  assumes good: "\<forall>e\<in>set es. good e" and n: "n \<le> length es" "length (concat (map enc (take n es))) \<le> k"
  shows "\<exists>m. n \<le> m \<and> m \<le> length es \<and>
      scan_from parse (pre @ take k (concat (map enc es))) (length pre) =
        Some (map view (take m es), length pre + length (concat (map enc (take m es))))"
proof -
  obtain m where m: "m \<le> length es"
    "scan_from parse (pre @ take k (concat (map enc es))) (length pre) =
        Some (map view (take m es), length pre + length (concat (map enc (take m es))))"
    "m < length es \<longrightarrow> k < length (concat (map enc (take (Suc m) es)))"
    using scan_prefix[OF good, of pre k] by blast
  have "n \<le> m"
  proof (rule ccontr)
    assume "\<not> n \<le> m"
    then have "Suc m \<le> n" and "m < length es" using n(1) by simp_all
    then have "take n es = take (Suc m) es @ drop (Suc m) (take n es)"
      by (metis append_take_drop_id min.absorb1 take_take)
    then have "length (concat (map enc (take (Suc m) es))) \<le> length (concat (map enc (take n es)))"
      by (metis concat_append length_append le_add1 map_append)
    with n(2) m(3) \<open>m < length es\<close> show False by linarith
  qed
  with m show ?thesis by blast
qed

end

end
