(* ===== verification/Pending_Entry.thy ===== *)
theory Pending_Entry
  imports Framing Framed_Log
begin

text \<open>
  The transaction records of the pending write log and their on-disk frame
  (\<^verbatim>\<open>include/cortrix/store/pending_entry.h\<close>, \<^verbatim>\<open>src/store/pending_entry.cpp\<close>,
  \<^verbatim>\<open>include/cortrix/store/pwl_errors.h\<close>): \<open>Serialize\<close>, \<open>DeserializeFrom\<close> and \<open>Deserialize\<close>, the
  memory safety of the parser, the round trip, and what happens to torn and corrupted frames.
\<close>

section \<open>Errors\<close>

abbreviation "pwl_kWriteFailed \<equiv> ''CX_ERR_PWL_WRITE_FAILED''"
abbreviation "pwl_kCorrupted \<equiv> ''CX_ERR_PWL_CORRUPTED''"
abbreviation "pwl_kTxnNotFound \<equiv> ''CX_ERR_PWL_TXN_NOT_FOUND''"
abbreviation "pwl_kTxnAlreadyCommitted \<equiv> ''CX_ERR_PWL_TXN_ALREADY_COMMITTED''"
abbreviation "pwl_kTxnAlreadyRollback \<equiv> ''CX_ERR_PWL_TXN_ALREADY_ROLLBACK''"
abbreviation "pwl_kRollbackCallbackFailed \<equiv> ''CX_ERR_PWL_ROLLBACK_CALLBACK_FAILED''"
abbreviation "pwl_kRecoveryFailed \<equiv> ''CX_ERR_PWL_RECOVERY_FAILED''"
abbreviation "pwl_kDocWriteInProgress \<equiv> ''CX_ERR_PWL_DOC_WRITE_IN_PROGRESS''"

definition PwlStatus :: "StatusCode \<Rightarrow> string \<Rightarrow> string \<Rightarrow> Status" where
  "PwlStatus sc c detail = CodedStatus sc c detail"

lemma ok_PwlStatus [simp, status]: "ok (PwlStatus sc c d) \<longleftrightarrow> sc = kOk"
  by (simp add: PwlStatus_def)

abbreviation "corrupted d \<equiv> PwlStatus kInternal pwl_kCorrupted d"

section \<open>The record\<close>

datatype TxnPhase = kPending | kCommitted | kRollback
datatype Scope = kDocument | kBlocksOnly

record PendingEntry =
  pe_state :: TxnPhase
  pe_txn_id :: u64
  pe_timestamp_ms :: u64
  pe_doc_id :: bytes
  pe_block_ids :: "u64 list"
  pe_has_blob :: bool
  pe_scope :: Scope

definition PendingEntry_default :: PendingEntry where
  "PendingEntry_default = \<lparr>pe_state = kPending, pe_txn_id = 0, pe_timestamp_ms = 0, pe_doc_id = [],
     pe_block_ids = [], pe_has_blob = False, pe_scope = kDocument\<rparr>"

fun phase_byte :: "TxnPhase \<Rightarrow> u8" where
  "phase_byte kPending = 1"
| "phase_byte kCommitted = 2"
| "phase_byte kRollback = 3"

fun phase_of_byte :: "u8 \<Rightarrow> TxnPhase" where
  "phase_of_byte b = (if b = 1 then kPending else if b = 2 then kCommitted else kRollback)"

fun scope_byte :: "Scope \<Rightarrow> u8" where
  "scope_byte kDocument = 0"
| "scope_byte kBlocksOnly = 1"

abbreviation (input) "kBodyHeadLen \<equiv> (19::nat)"
abbreviation (input) "kBlockCountLen \<equiv> (4::nat)"

section \<open>Serialize\<close>

text \<open>The CRC-covered body of the frame; the casts \<open>static_cast<uint16_t>\<close> and \<open>uint32_t\<close> truncate.\<close>

definition pe_body :: "PendingEntry \<Rightarrow> bytes" where
  "pe_body e =
     (let is_pending = (pe_state e = kPending);
          did = (if is_pending then pe_doc_id e else []);
          block_count = (if is_pending then length (pe_block_ids e) else 0)
      in PutU8 (phase_byte (pe_state e)) @ PutU64 (pe_txn_id e) @ PutU64 (pe_timestamp_ms e) @
         PutU16 (of_nat (length did)) @ did @ PutU32 (of_nat block_count) @
         (if is_pending then
            concat (map PutU64 (pe_block_ids e)) @
            PutU8 (if pe_has_blob e then 1 else 0) @ PutU8 (scope_byte (pe_scope e))
          else []))"

definition Serialize :: "PendingEntry \<Rightarrow> bytes" where
  "Serialize e = frame (pe_body e)"

section \<open>DeserializeFrom\<close>

fun read_block_ids :: "bytes \<Rightarrow> nat \<Rightarrow> nat \<Rightarrow> (u64 list) option" where
  "read_block_ids p pos 0 = Some []"
| "read_block_ids p pos (Suc n) = do {
     b \<leftarrow> read_u64 p pos;
     bs \<leftarrow> read_block_ids p (pos + 8) n;
     Some (b # bs) }"

text \<open>The trailing bytes of a PENDING body: \<open>has_blob\<close> is required, \<open>scope\<close> is optional.\<close>

definition parse_trailer :: "bytes \<Rightarrow> nat \<Rightarrow> PendingEntry \<Rightarrow> (Status + PendingEntry) option" where
  "parse_trailer p pos e =
     (if length p < pos + 1 then Some (Inl (corrupted ''has_blob overruns body''))
      else do {
        hb \<leftarrow> read_u8 p pos;
        let e = e\<lparr>pe_has_blob := (hb \<noteq> 0)\<rparr>;
        let pos = pos + 1;
        if length p \<ge> pos + 1 then do {
          sb \<leftarrow> read_u8 p pos;
          Some (Inr (e\<lparr>pe_scope := (if sb = scope_byte kBlocksOnly then kBlocksOnly else kDocument)\<rparr>)) }
        else Some (Inr e) })"

definition parse_body :: "bytes \<Rightarrow> (Status + PendingEntry) option" where
  "parse_body p =
     (let body_len = length p in
      if body_len < kBodyHeadLen then Some (Inl (corrupted ''body shorter than header''))
      else do {
        raw_state \<leftarrow> read_u8 p 0;
        if raw_state < phase_byte kPending \<or> raw_state > phase_byte kRollback
        then Some (Inl (corrupted ''unknown entry_type''))
        else do {
          txn \<leftarrow> read_u64 p 1;
          ts \<leftarrow> read_u64 p 9;
          doc_id_len \<leftarrow> read_u16 p 17;
          let pos = (19::nat);
          if body_len < pos + unat doc_id_len + kBlockCountLen
          then Some (Inl (corrupted ''doc_id overruns body''))
          else do {
            did \<leftarrow> read_bytes p pos (unat doc_id_len);
            let pos = pos + unat doc_id_len;
            block_count \<leftarrow> read_u32 p pos;
            let pos = pos + kBlockCountLen;
            if body_len < pos + unat block_count * 8
            then Some (Inl (corrupted ''block_ids overrun body''))
            else do {
              ids \<leftarrow> read_block_ids p pos (unat block_count);
              let pos = pos + 8 * unat block_count;
              let e = PendingEntry_default\<lparr>pe_state := phase_of_byte raw_state, pe_txn_id := txn,
                        pe_timestamp_ms := ts, pe_doc_id := did, pe_block_ids := ids\<rparr>;
              if pe_state e = kPending then parse_trailer p pos e else Some (Inr e) } } } })"

text \<open>
  The framing layer: on success the parsed record and the offset just past it; on a short or corrupt
  record an error, the caller's offset being left alone.
\<close>

definition DeserializeFrom :: "bytes \<Rightarrow> nat \<Rightarrow> (Status + PendingEntry \<times> nat) option" where
  "DeserializeFrom data start =
     (let size = length data in
      if size < start + kSizePrefixLen then Some (Inl (corrupted ''truncated entry_size prefix''))
      else do {
        follow \<leftarrow> read_u32 data start;
        if unat follow < kChecksumLen then Some (Inl (corrupted ''entry_size smaller than checksum''))
        else let frame_end = start + kSizePrefixLen + unat follow in
        if frame_end > size then Some (Inl (corrupted ''entry_size overruns buffer''))
        else let body_begin = start + kSizePrefixLen; body_len = unat follow - kChecksumLen in do {
          stored_crc \<leftarrow> read_u32 data (body_begin + body_len);
          body \<leftarrow> read_bytes data body_begin body_len;
          if stored_crc \<noteq> Crc32 body then Some (Inl (corrupted ''CRC mismatch''))
          else do {
            r \<leftarrow> parse_body body;
            Some (case r of Inl s \<Rightarrow> Inl s | Inr e \<Rightarrow> Inr (e, frame_end)) } } })"

definition Deserialize :: "bytes \<Rightarrow> (Status + PendingEntry) option" where
  "Deserialize bs = do {
     r \<leftarrow> DeserializeFrom bs 0;
     Some (case r of Inl s \<Rightarrow> Inl s
           | Inr (e, offset) \<Rightarrow>
               if offset \<noteq> length bs then Inl (corrupted ''trailing bytes after single entry'')
               else Inr e) }"

section \<open>Memory safety and progress\<close>

lemma read_block_ids_total:
  "pos + 8 * n \<le> length p \<Longrightarrow> \<exists>ids. read_block_ids p pos n = Some ids \<and> length ids = n"
proof (induction n arbitrary: pos)
  case 0
  then show ?case by simp
next
  case (Suc n)
  have "pos + 8 + 8 * n \<le> length p" using Suc.prems by simp
  then obtain ids where "read_block_ids p (pos + 8) n = Some ids" "length ids = n"
    using Suc.IH by blast
  moreover have "pos + 8 \<le> length p" using Suc.prems by simp
  ultimately show ?case by (simp add: read_u64_def)
qed

lemma parse_trailer_total: "\<exists>r. parse_trailer p pos e = Some r"
  by (simp add: parse_trailer_def read_u8_def Let_def)

lemma parse_body_total: "\<exists>r. parse_body p = Some r"
proof (cases "length p < kBodyHeadLen")
  case True
  then show ?thesis by (simp add: parse_body_def)
next
  case False
  let ?n = "unat (GetU16 (drop 17 p))"
  let ?m = "unat (GetU32 (drop (19 + ?n) p))"
  show ?thesis
  proof (cases "length p < 19 + ?n + 4 \<or> length p < 23 + ?n + ?m * 8")
    case True
    with False show ?thesis by (auto simp: parse_body_def read_defs Let_def)
  next
    case ok: False
    then have "\<exists>ids. read_block_ids p (23 + ?n) ?m = Some ids \<and> length ids = ?m"
      by (intro read_block_ids_total) simp
    then obtain ids where "read_block_ids p (23 + ?n) ?m = Some ids" by blast
    with False ok parse_trailer_total show ?thesis
      by (auto simp: parse_body_def read_defs Let_def add.commute add.left_commute)
  qed
qed

lemma DeserializeFrom_total: "\<exists>r. DeserializeFrom data start = Some r"
proof -
  obtain r where "parse_body (take (unat (GetU32 (drop start data)) - 4) (drop (start + 4) data)) = Some r"
    using parse_body_total by blast
  then show ?thesis by (simp add: DeserializeFrom_def read_defs Let_def)
qed

lemma DeserializeFrom_InrD:
  assumes "DeserializeFrom d off = Some (Inr (e, nxt))"
  defines "f \<equiv> unat (GetU32 (drop off d))"
  shows "off + 4 \<le> length d" "4 \<le> f" "off + 4 + f = nxt" "nxt \<le> length d"
    "GetU32 (drop (off + f) d) = Crc32 (take (f - 4) (drop (off + 4) d))"
    "parse_body (take (f - 4) (drop (off + 4) d)) = Some (Inr e)"
  using assms
  by (auto simp: DeserializeFrom_def read_defs Let_def bind_eq_Some_conv split: if_splits)

lemma DeserializeFrom_advances:
  "DeserializeFrom data start = Some (Inr (e, off)) \<Longrightarrow> start + 8 \<le> off \<and> off \<le> length data"
  using DeserializeFrom_InrD[of data start e off] by linarith

section \<open>Round trip\<close>

text \<open>
  What a frame carries of an entry: everything for a PENDING record, only state, transaction and
  time for the terminal records.
\<close>

definition carried :: "PendingEntry \<Rightarrow> PendingEntry" where
  "carried e = (if pe_state e = kPending then e
     else e\<lparr>pe_doc_id := [], pe_block_ids := [], pe_has_blob := False, pe_scope := kDocument\<rparr>)"

text \<open>The length fields of the frame do not truncate.\<close>

definition entry_fits :: "PendingEntry \<Rightarrow> bool" where
  "entry_fits e \<longleftrightarrow> (pe_state e = kPending \<longrightarrow> length (pe_doc_id e) < 2 ^ 16 \<and>
     length (pe_doc_id e) + 8 * length (pe_block_ids e) + 29 < 2 ^ 32)"

lemma phase_of_phase_byte [simp]: "phase_of_byte (phase_byte s) = s"
  by (cases s) simp_all

lemma phase_byte_range [simp]: "\<not> phase_byte s < 1" "\<not> 3 < phase_byte s"
  by (cases s; simp)+

lemma length_concat_PutU64 [simp, codec]: "length (concat (map PutU64 ids)) = 8 * length ids"
  by (simp add: length_concat_map_const)

lemma length_pe_body:
  "length (pe_body e) = (if pe_state e = kPending
     then length (pe_doc_id e) + 8 * length (pe_block_ids e) + 25 else 23)"
  by (simp add: pe_body_def Let_def)

lemma entry_frame_fits: "entry_fits e \<Longrightarrow> frame_fits (pe_body e)"
  by (auto simp: entry_fits_def frame_fits_def length_pe_body)

lemma read_block_ids_put:
  "read_block_ids (pre @ concat (map PutU64 ids) @ post) (length pre) (length ids) = Some ids"
proof (induction ids arbitrary: pre)
  case Nil
  then show ?case by simp
next
  case (Cons b ids)
  have "read_block_ids ((pre @ PutU64 b) @ concat (map PutU64 ids) @ post)
      (length (pre @ PutU64 b)) (length ids) = Some ids"
    by (rule Cons.IH)
  then show ?case by (simp add: read_u64_def)
qed

lemma parse_trailer_put:
  "parse_trailer (pre @ PutU8 (if hb then 1 else 0) @ PutU8 (scope_byte sc)) (length pre) e =
     Some (Inr (e\<lparr>pe_has_blob := hb, pe_scope := sc\<rparr>))"
  by (cases sc) (simp_all add: parse_trailer_def read_u8_def PutU8_def Let_def nth_append)

text \<open>The fixed part of a body, field by field.\<close>

lemma read_body_head:
  fixes b :: u8 and t ts :: u64 and n :: u16 and c :: u32 and did rest :: bytes
  defines "p \<equiv> PutU8 b @ PutU64 t @ PutU64 ts @ PutU16 n @ did @ PutU32 c @ rest"
  assumes "length did = unat n"
  shows "read_u8 p 0 = Some b" "read_u64 p 1 = Some t" "read_u64 p 9 = Some ts"
    "read_u16 p 17 = Some n" "read_bytes p 19 (unat n) = Some did"
    "read_u32 p (19 + unat n) = Some c" "length p = 23 + unat n + length rest"
  using assms by (simp_all add: read_defs) (simp_all add: PutU8_def)

lemma parse_body_head:
  assumes "length did = unat n" "8 * unat c \<le> length rest"
  shows "parse_body (PutU8 (phase_byte s) @ PutU64 t @ PutU64 ts @ PutU16 n @ did @ PutU32 c @ rest) =
    (let p = PutU8 (phase_byte s) @ PutU64 t @ PutU64 ts @ PutU16 n @ did @ PutU32 c @ rest in do {
       ids \<leftarrow> read_block_ids p (23 + unat n) (unat c);
       let e = PendingEntry_default\<lparr>pe_state := s, pe_txn_id := t, pe_timestamp_ms := ts,
                 pe_doc_id := did, pe_block_ids := ids\<rparr>;
       if s = kPending then parse_trailer p (23 + unat n + 8 * unat c) e else Some (Inr e) })"
  (is "parse_body ?p = _")
proof -
  note rd = read_body_head[OF assms(1), of "phase_byte s" t ts c rest]
  from assms(2) have "\<not> length ?p < 19" "\<not> length ?p < 19 + unat n + 4"
    "\<not> length ?p < 19 + unat n + 4 + unat c * 8"
    unfolding rd(7) by simp_all
  moreover have "19 + unat n + 4 = 23 + unat n" by simp
  ultimately show ?thesis
    unfolding parse_body_def Let_def
    by (simp only: rd(1-6) if_False bind.bind_lunit phase_byte.simps phase_byte_range simp_thms
        phase_of_phase_byte) simp
qed

lemma parse_body_pe_body:
  assumes "entry_fits e"
  shows "parse_body (pe_body e) = Some (Inr (carried e))"
proof (cases "pe_state e = kPending")
  case True
  let ?d = "pe_doc_id e" and ?ids = "pe_block_ids e"
  let ?n = "of_nat (length ?d) :: u16" and ?c = "of_nat (length ?ids) :: u32"
  let ?hd = "PutU8 (phase_byte kPending) @ PutU64 (pe_txn_id e) @ PutU64 (pe_timestamp_ms e) @
    PutU16 ?n @ ?d @ PutU32 ?c"
  let ?tl = "PutU8 (if pe_has_blob e then 1 else 0) @ PutU8 (scope_byte (pe_scope e))"
  let ?ib = "concat (map PutU64 ?ids)"
  from assms True have un: "length ?d = unat ?n" and uc: "unat ?c = length ?ids"
    by (auto simp: entry_fits_def unat_of_nat)
  have body: "pe_body e = ?hd @ ?ib @ ?tl"
    using True by (simp add: pe_body_def Let_def)
  have lh: "23 + unat ?n = length ?hd" using un by simp
  have ids: "read_block_ids (?hd @ ?ib @ ?tl) (23 + unat ?n) (unat ?c) = Some ?ids"
    unfolding lh uc by (rule read_block_ids_put)
  have lt: "23 + unat ?n + 8 * unat ?c = length (?hd @ ?ib)"
    unfolding uc lh by simp
  have tr: "parse_trailer (?hd @ ?ib @ ?tl) (23 + unat ?n + 8 * unat ?c) x =
      Some (Inr (x\<lparr>pe_has_blob := pe_has_blob e, pe_scope := pe_scope e\<rparr>))" for x
    unfolding lt using parse_trailer_put[of "?hd @ ?ib"] by simp
  have "parse_body (pe_body e) = do {
       ids \<leftarrow> read_block_ids (?hd @ ?ib @ ?tl) (23 + unat ?n) (unat ?c);
       parse_trailer (?hd @ ?ib @ ?tl) (23 + unat ?n + 8 * unat ?c)
         (PendingEntry_default\<lparr>pe_state := kPending, pe_txn_id := pe_txn_id e,
            pe_timestamp_ms := pe_timestamp_ms e, pe_doc_id := ?d, pe_block_ids := ids\<rparr>) }"
    unfolding body
    using parse_body_head[OF un, of ?c "?ib @ ?tl" kPending "pe_txn_id e" "pe_timestamp_ms e"] uc
    by (simp add: Let_def)
  then have "parse_body (pe_body e) = Some (Inr (PendingEntry_default\<lparr>pe_state := kPending,
      pe_txn_id := pe_txn_id e, pe_timestamp_ms := pe_timestamp_ms e, pe_doc_id := ?d,
      pe_block_ids := ?ids, pe_has_blob := pe_has_blob e, pe_scope := pe_scope e\<rparr>))"
    by (simp only: ids tr bind.bind_lunit)
  then show ?thesis
    using True by (simp add: carried_def PendingEntry_default_def)
next
  case False
  have "parse_body (pe_body e) = parse_body (PutU8 (phase_byte (pe_state e)) @ PutU64 (pe_txn_id e) @
      PutU64 (pe_timestamp_ms e) @ PutU16 0 @ [] @ PutU32 0 @ [])"
    using False by (simp add: pe_body_def Let_def)
  also have "\<dots> = Some (Inr (carried e))"
    using False by (subst parse_body_head) (simp_all add: carried_def PendingEntry_default_def)
  finally show ?thesis .
qed

lemma DeserializeFrom_frame:
  assumes "frame_fits body"
  shows "DeserializeFrom (pre @ frame body @ post) (length pre) = do {
    r \<leftarrow> parse_body body;
    Some (case r of Inl s \<Rightarrow> Inl s | Inr e \<Rightarrow> Inr (e, 8 + (length pre + length body))) }"
  using assms unat_frame_size[OF assms]
  by (simp add: DeserializeFrom_def Let_def read_frame_crc read_frame_body)

lemma DeserializeFrom_Serialize:
  assumes "entry_fits e"
  shows "DeserializeFrom (pre @ Serialize e @ post) (length pre) =
    Some (Inr (carried e, length pre + length (Serialize e)))"
  using assms
  by (simp add: Serialize_def DeserializeFrom_frame entry_frame_fits parse_body_pe_body)

section \<open>Torn and altered frames\<close>

lemma DeserializeFrom_torn:
  assumes "frame_fits body" "k < length (frame body)"
  shows "\<exists>s. DeserializeFrom (pre @ take k (frame body)) (length pre) = Some (Inl s) \<and> \<not> ok s"
proof (cases "4 \<le> k")
  case True
  with assms show ?thesis
    using unat_frame_size[OF assms(1)]
    by (auto simp: DeserializeFrom_def Let_def read_torn_size)
next
  case False
  with assms show ?thesis by (auto simp: DeserializeFrom_def Let_def)
qed

lemma DeserializeFrom_altered:
  assumes "frame_fits body" "i < length body" "d \<noteq> body ! i"
  shows "DeserializeFrom (pre @ frame_with_byte body i d @ post) (length pre) =
    Some (Inl (corrupted ''CRC mismatch''))"
proof -
  have "Crc32 body \<noteq> Crc32 (body[i := d])"
    using Crc32_one_byte[OF assms(2,3)] by simp
  then show ?thesis
    using assms unat_frame_size[OF assms(1)]
    by (simp add: DeserializeFrom_def Let_def read_altered)
qed

section \<open>The codec as a framed log\<close>

lemma DeserializeFrom_local:
  assumes p: "DeserializeFrom d off = Some (Inr (e, nxt))"
  shows "DeserializeFrom (take nxt d @ x) off = Some (Inr (e, nxt))"
proof -
  let ?f = "unat (GetU32 (drop off d))"
  note sz = DeserializeFrom_InrD(1-4)[OF p] and crc = DeserializeFrom_InrD(5)[OF p]
    and body = DeserializeFrom_InrD(6)[OF p]
  define y where "y = take nxt d @ x"
  have ly: "nxt \<le> length y" using sz by (simp add: y_def)
  have f: "GetU32 (drop off y) = GetU32 (drop off d)"
    and c: "GetU32 (drop (off + ?f) y) = GetU32 (drop (off + ?f) d)"
    using sz by (simp_all add: y_def drop_take Get_append Get_take)
  have b: "take (?f - 4) (drop (off + 4) y) = take (?f - 4) (drop (off + 4) d)"
    unfolding y_def using sz by (intro take_drop_window) simp_all
  have n4: "nxt - 4 = off + ?f" using sz by simp
  have "DeserializeFrom y off = Some (Inr (e, nxt))"
    using sz ly crc body by (simp add: DeserializeFrom_def read_defs Let_def f c b n4)
  then show ?thesis by (simp add: y_def)
qed

interpretation pwl_codec: framed_log DeserializeFrom Serialize entry_fits carried
proof (unfold_locales, goal_cases)
  case (1 d off)
  show ?case by (rule DeserializeFrom_total)
next
  case (2 d off e nxt)
  then show ?case using DeserializeFrom_advances by fastforce
next
  case (3 d off e nxt x)
  then show ?case by (rule DeserializeFrom_local)
next
  case (4 e pre post)
  then show ?case by (rule DeserializeFrom_Serialize)
next
  case (5 e k pre)
  then show ?case
    using DeserializeFrom_torn[of "pe_body e" k pre] entry_frame_fits by (auto simp: Serialize_def)
qed

section \<open>Properties\<close>

lemma parse_body_not_ok: "parse_body p = Some (Inl s) \<Longrightarrow> \<not> ok s"
  by (auto simp: parse_body_def parse_trailer_def bind_eq_Some_conv Let_def split: if_splits)

lemma DeserializeFrom_not_ok: "DeserializeFrom data start = Some (Inl s) \<Longrightarrow> \<not> ok s"
  by (auto simp: DeserializeFrom_def bind_eq_Some_conv Let_def dest: parse_body_not_ok split: if_splits)

text \<open>
  The record parser is memory safe and makes progress on arbitrary bytes.  It never reads outside the
  buffer (it always returns); when it accepts, the new offset lies at least eight bytes further and
  inside the buffer; when it rejects, the status is an error.
\<close>
theorem parser_memory_safe:
  "\<exists>r. DeserializeFrom data start = Some r \<and>
     (case r of Inl s \<Rightarrow> \<not> ok s | Inr (e, off) \<Rightarrow> start + 8 \<le> off \<and> off \<le> length data)"
proof -
  obtain r where r: "DeserializeFrom data start = Some r" using DeserializeFrom_total by blast
  then show ?thesis
    using DeserializeFrom_not_ok[of data start] DeserializeFrom_advances[of data start]
    by (cases r) auto
qed

text \<open>
  Round trip of a record.  An entry whose lengths fit the frame's length fields is decoded from its
  frame as written; terminal records lose the payload fields the format does not carry.
\<close>
theorem entry_roundtrip:
  assumes "entry_fits e"
  shows "Deserialize (Serialize e) = Some (Inr (carried e))"
  using DeserializeFrom_Serialize[OF assms, of "[]" "[]"] by (simp add: Deserialize_def)

theorem entry_roundtrip_witness:
  "Deserialize (Serialize \<lparr>pe_state = kPending, pe_txn_id = 3, pe_timestamp_ms = 9, pe_doc_id = [0x61, 0x62],
     pe_block_ids = [7, 8], pe_has_blob = True, pe_scope = kBlocksOnly\<rparr>) =
   Some (Inr \<lparr>pe_state = kPending, pe_txn_id = 3, pe_timestamp_ms = 9, pe_doc_id = [0x61, 0x62],
     pe_block_ids = [7, 8], pe_has_blob = True, pe_scope = kBlocksOnly\<rparr>)"
  using entry_roundtrip[of "\<lparr>pe_state = kPending, pe_txn_id = 3, pe_timestamp_ms = 9, pe_doc_id = [0x61, 0x62],
     pe_block_ids = [7, 8], pe_has_blob = True, pe_scope = kBlocksOnly\<rparr>"]
  by (simp add: entry_fits_def carried_def)

text \<open>
  A damaged record is never accepted.  Overwriting any one byte of the body of a stored record, or
  cutting the file anywhere inside it, makes the parser report an error at that record.
\<close>
theorem damaged_entry_rejected:
  assumes "entry_fits e"
  shows "(\<forall>i d. i < length (pe_body e) \<longrightarrow> d \<noteq> pe_body e ! i \<longrightarrow>
      DeserializeFrom (pre @ (Serialize e)[4 + i := d] @ post) (length pre) = Some (Inl (corrupted ''CRC mismatch''))) \<and>
    (\<forall>k < length (Serialize e). \<exists>s. DeserializeFrom (pre @ take k (Serialize e)) (length pre) = Some (Inl s) \<and> \<not> ok s)"
  using DeserializeFrom_altered[OF entry_frame_fits[OF assms]] DeserializeFrom_torn[OF entry_frame_fits[OF assms]]
  by (simp add: Serialize_def frame_with_byte_def)

theorem damaged_entry_rejected_witness:
  "\<exists>s. DeserializeFrom ((Serialize PendingEntry_default)[5 := 0xFF]) 0 = Some (Inl s) \<and>
     (\<exists>s. DeserializeFrom (take 30 (Serialize PendingEntry_default)) 0 = Some (Inl s) \<and> \<not> ok s)"
proof -
  have f: "entry_fits PendingEntry_default" by (simp add: entry_fits_def PendingEntry_default_def)
  have "length (pe_body PendingEntry_default) = 25" by (simp add: length_pe_body PendingEntry_default_def)
  moreover from this have "length (Serialize PendingEntry_default) = 33" by (simp add: Serialize_def)
  moreover have "pe_body PendingEntry_default ! 1 = 0"
    by (simp add: pe_body_def PendingEntry_default_def Put_defs put_le_def Let_def upt_rec numeral_eq_Suc)
  ultimately show ?thesis
    using damaged_entry_rejected[OF f, of "[]" "[]"] spec[of _ "1::nat"] by (auto dest!: spec[of _ "1::nat"])
qed

lemma parse_body_doc_len:
  assumes "parse_body p = Some (Inr e)"
  shows "length (pe_doc_id e) = unat (GetU16 (drop 17 p))"
  using assms
  by (auto simp: parse_body_def parse_trailer_def read_defs bind_eq_Some_conv Let_def split: if_splits)

text \<open>
  The 16-bit document length truncates.  A PENDING record for a document id of exactly 65536 bytes is
  never decoded to the entry that was written, although \<open>Serialize\<close> and the append report no error.
\<close>
theorem long_doc_id_lost:
  assumes "pe_state e = kPending" "length (pe_doc_id e) = 65536" "length (pe_block_ids e) < 2 ^ 28"
  shows "Deserialize (Serialize e) \<noteq> Some (Inr e)"
proof
  assume d: "Deserialize (Serialize e) = Some (Inr e)"
  have ff: "frame_fits (pe_body e)" using assms by (simp add: frame_fits_def length_pe_body)
  have "parse_body (pe_body e) = Some (Inr e)"
  proof (cases "parse_body (pe_body e)")
    case (Some r)
    then show ?thesis
      using d DeserializeFrom_frame[OF ff, of "[]" "[]"]
      by (cases r) (auto simp: Deserialize_def Serialize_def split: if_splits)
  qed (use parse_body_total[of "pe_body e"] in simp)
  then have "length (pe_doc_id e) = unat (GetU16 (drop 17 (pe_body e)))" by (rule parse_body_doc_len)
  moreover have "GetU16 (drop 17 (pe_body e)) = 0"
    using assms by (simp add: pe_body_def Let_def)
  ultimately show False using assms(2) by simp
qed

theorem long_doc_id_lost_witness:
  "Deserialize (Serialize (PendingEntry_default\<lparr>pe_doc_id := replicate 65536 0x61\<rparr>)) \<noteq>
     Some (Inr (PendingEntry_default\<lparr>pe_doc_id := replicate 65536 0x61\<rparr>))"
  by (rule long_doc_id_lost) (simp_all add: PendingEntry_default_def)

end
