(* ===== verification/Posix_File.thy ===== *)
theory Posix_File
  imports Prelude
begin

text \<open>
  Files as the log writers see them: a file is the list of its bytes, \<open>pwrite\<close> overwrites or extends
  it at an offset, and every system call may fail.  The short-write loop \<open>PwriteAll\<close> of
  \<^verbatim>\<open>src/store/pending_log_writer.cpp\<close> and \<^verbatim>\<open>src/store/phnsw/wal_writer.cpp\<close> is modelled over the
  sequence of return values of \<open>pwrite\<close>, and shown to have exactly two kinds of outcome: everything
  was written, or a strict prefix was written and an error is returned.  The operations of the logs
  take these outcomes as a description of the environment (\<open>io_env\<close>).
\<close>

section \<open>Writing at an offset\<close>

definition pwrite_at :: "bytes \<Rightarrow> nat \<Rightarrow> bytes \<Rightarrow> bytes" where
  "pwrite_at fl off buf =
     take off (fl @ replicate (off - length fl) 0) @ buf @ drop (off + length buf) fl"

lemma length_pwrite_at [simp]: "length (pwrite_at fl off buf) = max (length fl) (off + length buf)"
  by (auto simp: pwrite_at_def)

lemma pwrite_at_end [simp]: "pwrite_at fl (length fl) buf = fl @ buf"
  by (simp add: pwrite_at_def)

lemma pwrite_at_start: "length buf \<le> length fl \<Longrightarrow> pwrite_at fl 0 buf = buf @ drop (length buf) fl"
  by (simp add: pwrite_at_def)

lemma pwrite_at_empty [simp]: "off \<le> length fl \<Longrightarrow> pwrite_at fl off [] = fl"
  by (simp add: pwrite_at_def)

lemma pwrite_at_append:
  assumes "off \<le> length fl"
  shows "pwrite_at (pwrite_at fl off a) (off + length a) b = pwrite_at fl off (a @ b)"
  using assms by (simp add: pwrite_at_def add.commute add.left_commute)

section \<open>The short-write loop\<close>

datatype sysret = Wrote nat | Interrupted | Failed string

text \<open>
  One list element per call of \<open>pwrite\<close>: the count it returned, \<open>EINTR\<close>, or another error.  \<open>None\<close> is a
  loop that has not returned when the calls run out.
\<close>

fun PwriteAll :: "(string \<Rightarrow> Status) \<Rightarrow> sysret list \<Rightarrow> bytes \<Rightarrow> bytes \<Rightarrow> nat \<Rightarrow> (Status \<times> bytes) option" where
  "PwriteAll fail rs fl [] off = Some (Status_Ok, fl)"
| "PwriteAll fail [] fl (b # bs) off = None"
| "PwriteAll fail (Interrupted # rs) fl (b # bs) off = PwriteAll fail rs fl (b # bs) off"
| "PwriteAll fail (Failed e # rs) fl (b # bs) off = Some (fail e, fl)"
| "PwriteAll fail (Wrote n # rs) fl (b # bs) off =
     PwriteAll fail rs (pwrite_at fl off (take n (b # bs))) (drop n (b # bs)) (off + min n (length (b # bs)))"

text \<open>Its outcomes: all bytes landed, or an error after the first \<open>k\<close> bytes.\<close>

datatype pw_outcome = PwOk | PwErr nat string

definition pwrite_all :: "(string \<Rightarrow> Status) \<Rightarrow> pw_outcome \<Rightarrow> bytes \<Rightarrow> bytes \<Rightarrow> nat \<Rightarrow> Status \<times> bytes" where
  "pwrite_all fail oc fl buf off =
     (if buf = [] then (Status_Ok, fl)
      else case oc of
        PwOk \<Rightarrow> (Status_Ok, pwrite_at fl off buf)
      | PwErr k e \<Rightarrow> (fail e, pwrite_at fl off (take (min k (length buf - 1)) buf)))"

lemma PwriteAll_outcome:
  assumes "off \<le> length fl" "PwriteAll fail rs fl buf off = Some r"
  shows "\<exists>oc. r = pwrite_all fail oc fl buf off"
  using assms
proof (induction fail rs fl buf off arbitrary: r rule: PwriteAll.induct)
  case (5 fail n rs fl b bs off)
  let ?buf = "b # bs"
  let ?n = "min n (length ?buf)"
  have tk: "take n ?buf = take ?n ?buf" and dr: "drop n ?buf = drop ?n ?buf"
    by (simp_all add: min_def)
  have "off + ?n \<le> length (pwrite_at fl off (take n ?buf))" by simp
  with "5.IH" "5.prems" obtain oc where
    r: "r = pwrite_all fail oc (pwrite_at fl off (take n ?buf)) (drop n ?buf) (off + ?n)"
    by fastforce
  have cat: "pwrite_at (pwrite_at fl off (take n ?buf)) (off + ?n) (take k (drop n ?buf)) =
      pwrite_at fl off (take (?n + k) ?buf)" for k
    using pwrite_at_append[OF "5.prems"(1), of "take n ?buf" "take k (drop n ?buf)"]
    by (simp add: tk dr take_add)
  show ?case
  proof (cases "drop n ?buf = []")
    case True
    then have "take n ?buf = ?buf" by simp
    with True r show ?thesis by (intro exI[of _ PwOk]) (simp add: pwrite_all_def)
  next
    case False
    then have lt: "?n < length ?buf" by simp
    show ?thesis
    proof (cases oc)
      case PwOk
      with False r have "r = (Status_Ok, pwrite_at fl off (take (?n + length ?buf) ?buf))"
        using cat[of "length ?buf"] by (simp add: pwrite_all_def)
      then show ?thesis by (intro exI[of _ PwOk]) (simp add: pwrite_all_def)
    next
      case (PwErr k e)
      let ?m = "min k (length (drop n ?buf) - 1)"
      have "r = (fail e, pwrite_at fl off (take (?n + ?m) ?buf))"
        using False r PwErr cat[of ?m] by (simp add: pwrite_all_def)
      moreover have "?n + ?m \<le> length ?buf - 1" using lt by simp
      ultimately show ?thesis
        by (intro exI[of _ "PwErr (?n + ?m) e"]) (simp add: pwrite_all_def)
    qed
  qed
next
  case (4 fail e rs fl b bs off)
  then show ?case by (intro exI[of _ "PwErr 0 e"]) (simp add: pwrite_all_def)
qed (auto simp: pwrite_all_def)

text \<open>Conversely every outcome is that of some sequence of system calls.\<close>

lemma PwriteAll_realises:
  assumes "off \<le> length fl"
  shows "\<exists>rs. PwriteAll fail rs fl buf off = Some (pwrite_all fail oc fl buf off)"
proof (cases buf)
  case Nil
  then show ?thesis by (simp add: pwrite_all_def)
next
  case (Cons b bs)
  show ?thesis
  proof (cases oc)
    case PwOk
    have "PwriteAll fail [Wrote (length buf)] fl buf off = Some (pwrite_all fail oc fl buf off)"
      using Cons PwOk by (simp add: pwrite_all_def)
    then show ?thesis by blast
  next
    case (PwErr k e)
    let ?m = "min k (length buf - 1)"
    have "drop ?m buf \<noteq> []" using Cons by simp
    then obtain c cs where "drop ?m buf = c # cs" by (meson neq_Nil_conv)
    then have "PwriteAll fail [Wrote ?m, Failed e] fl buf off = Some (pwrite_all fail oc fl buf off)"
      using Cons PwErr by (simp add: pwrite_all_def)
    then show ?thesis by blast
  qed
qed

text \<open>
  The loop returns: when no call fails and the counts add up to the buffer, it ends with everything
  written, whatever the split and the interruptions.
\<close>

fun progress :: "sysret list \<Rightarrow> nat" where
  "progress [] = 0"
| "progress (Wrote n # rs) = n + progress rs"
| "progress (_ # rs) = progress rs"

lemma PwriteAll_completes:
  assumes "off \<le> length fl" "\<forall>e. Failed e \<notin> set rs" "length buf \<le> progress rs"
  shows "PwriteAll fail rs fl buf off = Some (Status_Ok, pwrite_at fl off buf)"
  using assms
proof (induction fail rs fl buf off rule: PwriteAll.induct)
  case (5 fail n rs fl b bs off)
  let ?buf = "b # bs"
  have "PwriteAll fail rs (pwrite_at fl off (take n ?buf)) (drop n ?buf) (off + min n (length ?buf)) =
      Some (Status_Ok, pwrite_at (pwrite_at fl off (take n ?buf)) (off + min n (length ?buf)) (drop n ?buf))"
    by (rule "5.IH") (use "5.prems" in auto)
  moreover have "pwrite_at (pwrite_at fl off (take n ?buf)) (off + min n (length ?buf)) (drop n ?buf) =
      pwrite_at fl off ?buf"
    using pwrite_at_append[OF "5.prems"(1), of "take n ?buf" "drop n ?buf"]
    by (simp only: length_take append_take_drop_id min.commute)
  ultimately show ?case by simp
qed auto

section \<open>The environment of one operation\<close>

text \<open>
  How the system calls of one log operation end.  A \<open>string option\<close> is \<open>None\<close> for success and the
  error text otherwise; \<open>io_pw i\<close> is the outcome of the \<open>i\<close>-th \<open>PwriteAll\<close> of the operation; \<open>io_read\<close> the
  outcome of reading the whole fl back.
\<close>

datatype read_outcome = RdAll | RdErr string | RdEof nat

record io_env =
  io_open :: "string option"
  io_lseek :: "string option"
  io_pw :: "nat \<Rightarrow> pw_outcome"
  io_sync :: "string option"
  io_read :: read_outcome
  io_trunc :: "string option"
  io_tmp_open :: "string option"
  io_tmp_sync :: "string option"
  io_rename :: "string option"
  io_reopen :: "string option"

definition io_good :: io_env where
  "io_good = \<lparr>io_open = None, io_lseek = None, io_pw = (\<lambda>_. PwOk), io_sync = None, io_read = RdAll,
     io_trunc = None, io_tmp_open = None, io_tmp_sync = None, io_rename = None, io_reopen = None\<rparr>"

lemma io_good_simps [simp]:
  "io_open io_good = None" "io_lseek io_good = None" "io_pw io_good i = PwOk" "io_sync io_good = None"
  "io_read io_good = RdAll" "io_trunc io_good = None" "io_tmp_open io_good = None"
  "io_tmp_sync io_good = None" "io_rename io_good = None" "io_reopen io_good = None"
  by (simp_all add: io_good_def)

text \<open>Appending a batch of records one after another at \<open>off\<close>, stopping at the first failure.\<close>

fun write_entries ::
  "(string \<Rightarrow> Status) \<Rightarrow> (nat \<Rightarrow> pw_outcome) \<Rightarrow> nat \<Rightarrow> bytes list \<Rightarrow> bytes \<Rightarrow> nat \<Rightarrow> Status \<times> bytes \<times> nat" where
  "write_entries fail pw i [] fl off = (Status_Ok, fl, off)"
| "write_entries fail pw i (e # es) fl off =
     (let (w, fl') = pwrite_all fail (pw i) fl e off in
      if \<not> ok w then (w, fl', off)
      else write_entries fail pw (Suc i) es fl' (off + length e))"

lemma pwrite_all_end:
  "e = [] \<or> oc = PwOk \<Longrightarrow> pwrite_all fail oc fl e (length fl) = (Status_Ok, fl @ e)"
  by (auto simp: pwrite_all_def)

lemma write_entries_append:
  assumes "write_entries fail pw i es fl (length fl) = (w, fl', off)"
    and bad: "\<And>e. \<not> ok (fail e)"
  shows "ok w \<Longrightarrow> fl' = fl @ concat es \<and> off = length fl'"
    and "\<not> ok w \<Longrightarrow> \<exists>k < length (concat es). fl' = fl @ take k (concat es)"
proof -
  have "(ok w \<longrightarrow> fl' = fl @ concat es \<and> off = length fl') \<and>
        (\<not> ok w \<longrightarrow> (\<exists>k < length (concat es). fl' = fl @ take k (concat es)))"
    using assms(1)
  proof (induction es arbitrary: i fl)
    case Nil
    then show ?case by auto
  next
    case (Cons e es)
    show ?case
    proof (cases "e \<noteq> [] \<and> pw i \<noteq> PwOk")
      case True
      then obtain k s where "pw i = PwErr k s" by (cases "pw i") auto
      with True Cons.prems bad have "w = fail s" "fl' = fl @ take (min k (length e - 1)) e"
        by (auto simp: pwrite_all_def)
      moreover have "min k (length e - 1) < length (concat (e # es))" using True by (cases e) auto
      ultimately show ?thesis using bad by (auto intro!: exI[of _ "min k (length e - 1)"])
    next
      case False
      then have step: "write_entries fail pw (Suc i) es (fl @ e) (length (fl @ e)) = (w, fl', off)"
        using Cons.prems by (simp add: pwrite_all_end)
      from Cons.IH[OF step] show ?thesis
      proof (cases "ok w")
        case False
        with Cons.IH[OF step] obtain k where "k < length (concat es)" "fl' = fl @ e @ take k (concat es)"
          by auto
        then show ?thesis using False by (auto intro!: exI[of _ "length e + k"])
      qed auto
    qed
  qed
  then show "ok w \<Longrightarrow> fl' = fl @ concat es \<and> off = length fl'"
    and "\<not> ok w \<Longrightarrow> \<exists>k < length (concat es). fl' = fl @ take k (concat es)"
    by auto
qed

lemma write_entries_good [simp]:
  "write_entries fail (\<lambda>_. PwOk) i es fl (length fl) =
     (Status_Ok, fl @ concat es, length fl + length (concat es))"
proof (induction es arbitrary: i fl)
  case (Cons e es)
  from Cons[of "Suc i" "fl @ e"] show ?case by (simp add: pwrite_all_end)
qed simp

section \<open>Properties\<close>

text \<open>
  The short-write loop writes everything or reports an error.  Whatever counts, interruptions and
  errors the calls of \<open>pwrite\<close> return, when the loop returns the file has been changed at the offset by the
  whole buffer with status \<open>Ok\<close>, or by a strict prefix of it with the error; and it does return, with
  everything written, once the counts add up to the buffer and no call fails.
\<close>
theorem PwriteAll_all_or_error:
  assumes "off \<le> length fl"
  shows "(\<forall>rs r. PwriteAll fail rs fl buf off = Some r \<longrightarrow>
      r = (Status_Ok, pwrite_at fl off buf) \<or>
      (\<exists>k e. k < length buf \<and> r = (fail e, pwrite_at fl off (take k buf)))) \<and>
    (\<forall>rs. (\<forall>e. Failed e \<notin> set rs) \<longrightarrow> length buf \<le> progress rs \<longrightarrow>
      PwriteAll fail rs fl buf off = Some (Status_Ok, pwrite_at fl off buf))"
proof -
  have "r = (Status_Ok, pwrite_at fl off buf) \<or> (\<exists>k e. k < length buf \<and> r = (fail e, pwrite_at fl off (take k buf)))"
    if r: "PwriteAll fail rs fl buf off = Some r" for rs r
  proof -
    from PwriteAll_outcome[OF assms r] obtain oc where oc: "r = pwrite_all fail oc fl buf off" by blast
    show ?thesis
    proof (cases "buf = []")
      case True
      with oc assms show ?thesis by (simp add: pwrite_all_def)
    next
      case False
      then have "min k (length buf - 1) < length buf" for k by (cases buf) simp_all
      with oc False show ?thesis by (cases oc) (auto simp: pwrite_all_def)
    qed
  qed
  then show ?thesis using PwriteAll_completes[OF assms] by blast
qed

theorem PwriteAll_all_or_error_witness:
  "PwriteAll (StatusOf kUnavailable) [Wrote 1, Interrupted, Wrote 2] [9] [1, 2, 3] 1 = Some (Status_Ok, [9, 1, 2, 3])"
  using PwriteAll_all_or_error[of 1 "[9]" "StatusOf kUnavailable" "[1, 2, 3]"] by (simp add: pwrite_at_def)

end
