(* ===== verification/Group_Commit.thy ===== *)
theory Group_Commit
  imports Prelude
begin

text \<open>
  The group committer (\<^verbatim>\<open>include/cortrix/store/group_commit_writer.h\<close>,
  \<^verbatim>\<open>src/store/group_commit_writer.cpp\<close>): many threads submit framed records, one worker thread takes
  batches off the queue and drives one \<open>WriteBatch\<close> and one \<open>Sync\<close> per batch against a sink.  The
  critical sections under the mutex are single steps; the flush, which runs without the lock, is a
  step of its own, so that submissions interleave with it.  A future is the entry of its ticket in
  \<open>gc_futures\<close>.  The wait with a timeout only chooses when a batch is taken, so taking is possible
  whenever the queue is not empty.
\<close>

section \<open>State and operations\<close>

datatype sink_ret = Ret Status | Throw

record 'k committer =
  gc_queue :: "(nat \<times> bytes) list"
  gc_inflight :: "(nat \<times> bytes) list"
  gc_shutdown :: bool
  gc_exited :: bool
  gc_next :: nat
  gc_futures :: "nat \<Rightarrow> Status option"
  gc_submitted :: nat
  gc_batches :: nat
  gc_synced :: nat
  gc_failed :: nat
  gc_sink :: 'k
  gc_history :: "(nat \<times> bytes \<times> Status) list"

text \<open>
  \<open>gc_history\<close> is a ghost variable: the flushed entries with the status their future received, in
  the order of the flushes.
\<close>

definition gc_init :: "'k \<Rightarrow> 'k committer" where
  "gc_init k = \<lparr>gc_queue = [], gc_inflight = [], gc_shutdown = False, gc_exited = False, gc_next = 0,
     gc_futures = (\<lambda>_. None), gc_submitted = 0, gc_batches = 0, gc_synced = 0, gc_failed = 0,
     gc_sink = k, gc_history = []\<rparr>"

definition max_batch_of :: "int \<Rightarrow> nat" where
  "max_batch_of max_batch = (if max_batch < 1 then 1 else nat max_batch)"

definition Submit :: "bytes \<Rightarrow> 'k committer \<Rightarrow> 'k committer" where
  "Submit entry_bytes g =
     (let t = gc_next g in
      if gc_shutdown g
      then g\<lparr>gc_next := Suc t,
             gc_futures := (gc_futures g)(t \<mapsto> StatusOf kUnavailable ''GroupCommitWriter is shut down'')\<rparr>
      else g\<lparr>gc_next := Suc t, gc_submitted := gc_submitted g + 1,
             gc_queue := gc_queue g @ [(t, entry_bytes)]\<rparr>)"

definition gc_Shutdown :: "'k committer \<Rightarrow> 'k committer" where
  "gc_Shutdown g = (if gc_shutdown g then g else g\<lparr>gc_shutdown := True\<rparr>)"

definition gc_pending :: "'k committer \<Rightarrow> nat" where
  "gc_pending g = length (gc_queue g)"

text \<open>The worker takes at most \<open>max_batch\<close> entries from the front of the queue.\<close>

definition take_batch :: "nat \<Rightarrow> 'k committer \<Rightarrow> 'k committer" where
  "take_batch max_batch g =
     (let n = min (length (gc_queue g)) max_batch in
      g\<lparr>gc_inflight := take n (gc_queue g), gc_queue := drop n (gc_queue g)\<rparr>)"

text \<open>One \<open>WriteBatch\<close> and, if it succeeded, one \<open>Sync\<close>; an exception of the sink becomes a status.\<close>

definition sink_flush ::
  "('v \<Rightarrow> bytes list \<Rightarrow> 'k \<Rightarrow> sink_ret \<times> 'k) \<Rightarrow> ('v \<Rightarrow> 'k \<Rightarrow> sink_ret \<times> 'k) \<Rightarrow>
   'v \<Rightarrow> bytes list \<Rightarrow> 'k \<Rightarrow> Status \<times> 'k" where
  "sink_flush write_batch sync env entries k =
     (let threw = StatusOf kUnavailable ''GroupCommitWriter sink threw during flush'' in
      case write_batch env entries k of
        (Throw, k') \<Rightarrow> (threw, k')
      | (Ret st, k') \<Rightarrow>
          if ok st then (case sync env k' of (Throw, k'') \<Rightarrow> (threw, k'') | (Ret st', k'') \<Rightarrow> (st', k''))
          else (st, k'))"

text \<open>Resolve every waiter of the batch with the batch's status and count.\<close>

definition FlushBatch ::
  "('v \<Rightarrow> bytes list \<Rightarrow> 'k \<Rightarrow> sink_ret \<times> 'k) \<Rightarrow> ('v \<Rightarrow> 'k \<Rightarrow> sink_ret \<times> 'k) \<Rightarrow>
   'v \<Rightarrow> 'k committer \<Rightarrow> 'k committer" where
  "FlushBatch write_batch sync env g =
     (let batch = gc_inflight g; n = length batch;
          (st, k) = sink_flush write_batch sync env (map snd batch) (gc_sink g)
      in g\<lparr>gc_inflight := [], gc_sink := k,
           gc_futures := (\<lambda>t. if t \<in> fst ` set batch then Some st else gc_futures g t),
           gc_batches := gc_batches g + 1,
           gc_synced := (if ok st then gc_synced g + n else gc_synced g),
           gc_failed := (if ok st then gc_failed g else gc_failed g + n),
           gc_history := gc_history g @ map (\<lambda>(t, b). (t, b, st)) batch\<rparr>)"

inductive gc_step ::
  "('v \<Rightarrow> bytes list \<Rightarrow> 'k \<Rightarrow> sink_ret \<times> 'k) \<Rightarrow> ('v \<Rightarrow> 'k \<Rightarrow> sink_ret \<times> 'k) \<Rightarrow> nat \<Rightarrow>
   'k committer \<Rightarrow> 'k committer \<Rightarrow> bool"
  for write_batch sync max_batch where
  submit: "gc_step write_batch sync max_batch g (Submit b g)"
| shutdown: "gc_step write_batch sync max_batch g (gc_Shutdown g)"
| take: "\<not> gc_exited g \<Longrightarrow> gc_inflight g = [] \<Longrightarrow> gc_queue g \<noteq> [] \<Longrightarrow>
     gc_step write_batch sync max_batch g (take_batch max_batch g)"
| flush: "gc_inflight g \<noteq> [] \<Longrightarrow>
     gc_step write_batch sync max_batch g (FlushBatch write_batch sync env g)"
| exit: "gc_inflight g = [] \<Longrightarrow> gc_queue g = [] \<Longrightarrow> gc_shutdown g \<Longrightarrow>
     gc_step write_batch sync max_batch g (g\<lparr>gc_exited := True\<rparr>)"

inductive gc_reach ::
  "('v \<Rightarrow> bytes list \<Rightarrow> 'k \<Rightarrow> sink_ret \<times> 'k) \<Rightarrow> ('v \<Rightarrow> 'k \<Rightarrow> sink_ret \<times> 'k) \<Rightarrow> nat \<Rightarrow> 'k \<Rightarrow>
   'k committer \<Rightarrow> bool"
  for write_batch sync max_batch k0 where
  init: "gc_reach write_batch sync max_batch k0 (gc_init k0)"
| step: "gc_reach write_batch sync max_batch k0 g \<Longrightarrow> gc_step write_batch sync max_batch g g' \<Longrightarrow>
     gc_reach write_batch sync max_batch k0 g'"

section \<open>Every future is resolved once, in order\<close>

text \<open>
  Tickets waiting (in flight, then queued) are in submission order and not yet resolved; every ticket
  handed out is waiting or resolved; the counters account for every accepted entry.  After the worker
  has exited nothing is waiting.
\<close>

definition waiting :: "'k committer \<Rightarrow> nat list" where
  "waiting g = map fst (gc_inflight g @ gc_queue g)"

definition gc_inv :: "'k committer \<Rightarrow> bool" where
  "gc_inv g \<longleftrightarrow>
     sorted_wrt (<) (waiting g) \<and>
     {t. t < gc_next g} = set (waiting g) \<union> {t. gc_futures g t \<noteq> None} \<and>
     (\<forall>t\<in>set (waiting g). gc_futures g t = None) \<and>
     gc_submitted g = length (waiting g) + gc_synced g + gc_failed g \<and>
     (gc_exited g \<longrightarrow> waiting g = [] \<and> gc_shutdown g)"

lemma gc_inv_init: "gc_inv (gc_init k)"
  by (simp add: gc_inv_def gc_init_def waiting_def)

lemma waiting_take [simp]: "gc_inflight g = [] \<Longrightarrow> waiting (take_batch n g) = waiting g"
  by (simp add: waiting_def take_batch_def Let_def flip: map_append)

lemma gc_inv_Submit:
  assumes "gc_inv g"
  shows "gc_inv (Submit b g)"
proof -
  have lt: "\<forall>t\<in>set (waiting g). t < gc_next g" using assms by (auto simp: gc_inv_def)
  have nx: "gc_futures g (gc_next g) = None" using assms by (auto simp: gc_inv_def)
  have suc: "{t. t < Suc n} = insert n {t. t < n}" for n :: nat by auto
  show ?thesis
  proof (cases "gc_shutdown g")
    case True
    then have w: "waiting (Submit b g) = waiting g" by (simp add: Submit_def waiting_def Let_def)
    show ?thesis
      using assms True lt unfolding gc_inv_def w
      by (auto simp: Submit_def Let_def suc)
  next
    case False
    then have w: "waiting (Submit b g) = waiting g @ [gc_next g]"
      by (simp add: Submit_def waiting_def Let_def)
    show ?thesis
      using assms False lt nx unfolding gc_inv_def w
      by (auto simp: Submit_def Let_def suc sorted_wrt_append)
  qed
qed

lemma gc_inv_FlushBatch:
  assumes "gc_inv g"
  shows "gc_inv (FlushBatch write_batch sync env g)"
proof -
  obtain st k where fl: "sink_flush write_batch sync env (map snd (gc_inflight g)) (gc_sink g) = (st, k)"
    by (cases "sink_flush write_batch sync env (map snd (gc_inflight g)) (gc_sink g)")
  let ?g = "FlushBatch write_batch sync env g"
  have w: "waiting g = map fst (gc_inflight g) @ waiting ?g"
    by (simp add: waiting_def FlushBatch_def fl Let_def)
  have fut: "gc_futures ?g t = (if t \<in> set (map fst (gc_inflight g)) then Some st else gc_futures g t)" for t
    by (simp add: FlushBatch_def fl Let_def)
  have nxt: "gc_next ?g = gc_next g" "gc_submitted ?g = gc_submitted g" "gc_exited ?g = gc_exited g"
    "gc_shutdown ?g = gc_shutdown g"
    and cnt: "gc_synced ?g + gc_failed ?g = length (gc_inflight g) + gc_synced g + gc_failed g"
    by (auto simp: FlushBatch_def fl Let_def)
  have disj: "set (map fst (gc_inflight g)) \<inter> set (waiting ?g) = {}"
    using assms unfolding gc_inv_def w by (fastforce simp: sorted_wrt_append)
  show ?thesis
    using assms disj cnt unfolding gc_inv_def w fut nxt by (auto simp: sorted_wrt_append)
qed

lemma gc_inv_step: "gc_step write_batch sync max_batch g g' \<Longrightarrow> gc_inv g \<Longrightarrow> gc_inv g'"
proof (induction rule: gc_step.induct)
  case (submit g b)
  then show ?case by (simp add: gc_inv_Submit)
next
  case (shutdown g)
  then show ?case by (auto simp: gc_inv_def gc_Shutdown_def waiting_def)
next
  case (take g)
  then have "waiting (take_batch max_batch g) = waiting g" by simp
  with take show ?case by (auto simp: gc_inv_def) (auto simp: take_batch_def Let_def)
next
  case (flush g env)
  then show ?case by (simp add: gc_inv_FlushBatch)
next
  case (exit g)
  then show ?case by (auto simp: gc_inv_def waiting_def)
qed

lemma gc_reach_inv: "gc_reach write_batch sync max_batch k0 g \<Longrightarrow> gc_inv g"
  by (induction rule: gc_reach.induct) (auto intro: gc_inv_init gc_inv_step)

section \<open>The flushed history\<close>

text \<open>The record area is the flushed history: an acknowledged entry contributes exactly its bytes.\<close>

definition explains :: "bytes list \<Rightarrow> (nat \<times> bytes \<times> Status) list \<Rightarrow> bool" where
  "explains pieces h \<longleftrightarrow> list_all2 (\<lambda>p (t, b, st). ok st \<longrightarrow> p = b) pieces h"

lemma explains_append: "explains p h \<Longrightarrow> explains q h' \<Longrightarrow> explains (p @ q) (h @ h')"
  by (simp add: explains_def list_all2_appendI)

lemma explains_batch_ok: "explains (map snd batch) (map (\<lambda>(t, b). (t, b, st)) batch)"
  by (auto simp: explains_def list_all2_conv_all_nth split: prod.splits)

lemma concat_replicate_Nil [simp]: "concat (replicate n []) = []"
  by (induction n) simp_all

lemma explains_batch_err:
  assumes "\<not> ok st" "batch \<noteq> []"
  shows "\<exists>pieces. concat pieces = p \<and> explains pieces (map (\<lambda>(t, b). (t, b, st)) batch)"
proof -
  have "explains (p # replicate (length batch - 1) []) (map (\<lambda>(t, b). (t, b, st)) batch)"
    using assms by (auto simp: explains_def list_all2_conv_all_nth split: prod.splits)
  then show ?thesis by (intro exI[of _ "p # replicate (length batch - 1) []"]) simp
qed

text \<open>Each flushed entry's future keeps the status of its flush.\<close>

lemma reach_history:
  "gc_reach write_batch sync max_batch k0 g \<Longrightarrow> \<forall>(t, b, st)\<in>set (gc_history g). gc_futures g t = Some st"
proof (induction rule: gc_reach.induct)
  case init
  then show ?case by (simp add: gc_init_def)
next
  case (step g g')
  have inv: "gc_inv g" using step.hyps(1) by (rule gc_reach_inv)
  have old: "(t, b, st) \<in> set (gc_history g) \<Longrightarrow> gc_futures g t = Some st" for t b st using step.IH by blast
  have lt: "gc_futures g t \<noteq> None \<Longrightarrow> t < gc_next g" for t using inv by (auto simp: gc_inv_def)
  have inflight: "t \<in> fst ` set (gc_inflight g) \<Longrightarrow> gc_futures g t = None" for t
    using inv by (auto simp: gc_inv_def waiting_def)
  from step.hyps(2) show ?case
  proof cases
    case (submit b)
    have "gc_futures (Submit b g) t = Some st" if "(t, c, st) \<in> set (gc_history g)" for t c st
      using old[OF that] lt[of t] by (simp add: Submit_def Let_def)
    moreover have "gc_history (Submit b g) = gc_history g" by (simp add: Submit_def Let_def)
    ultimately show ?thesis unfolding submit by auto
  next
    case (flush env)
    obtain st k where fl: "sink_flush write_batch sync env (map snd (gc_inflight g)) (gc_sink g) = (st, k)"
      by fastforce
    have "gc_futures g' t = Some s" if "(t, c, s) \<in> set (gc_history g')" for t c s
      using that old[of t c s] inflight[of t] unfolding flush by (force simp: FlushBatch_def fl Let_def)
    then show ?thesis by auto
  qed (use old in \<open>auto simp: gc_Shutdown_def take_batch_def Let_def\<close>)
qed

section \<open>What a sink promises\<close>

text \<open>
  The view \<open>area\<close> of a sink is the record area of its file.  A flush that reports success has appended
  exactly the batch; any flush only appends.
\<close>

locale wal_sink =
  fixes write_batch :: "'v \<Rightarrow> bytes list \<Rightarrow> 'k \<Rightarrow> sink_ret \<times> 'k"
    and sync :: "'v \<Rightarrow> 'k \<Rightarrow> sink_ret \<times> 'k"
    and area :: "'k \<Rightarrow> bytes"
    and good :: "'k \<Rightarrow> bool"
  assumes flush_ok: "good k \<Longrightarrow> sink_flush write_batch sync env es k = (st, k') \<Longrightarrow> ok st \<Longrightarrow>
      area k' = area k @ concat es"
    and flush_append: "good k \<Longrightarrow> sink_flush write_batch sync env es k = (st, k') \<Longrightarrow>
      \<exists>p. area k' = area k @ p"
    and flush_good: "good k \<Longrightarrow> sink_flush write_batch sync env es k = (st, k') \<Longrightarrow> good k'"
begin

lemma flush_explained:
  assumes "good (gc_sink g)" "gc_inflight g \<noteq> []"
    and "area (gc_sink g) = a0 @ concat pieces" "explains pieces (gc_history g)"
  shows "\<exists>pieces'. area (gc_sink (FlushBatch write_batch sync env g)) = a0 @ concat pieces' \<and>
      explains pieces' (gc_history (FlushBatch write_batch sync env g))"
proof -
  let ?b = "gc_inflight g"
  obtain st k where fl: "sink_flush write_batch sync env (map snd ?b) (gc_sink g) = (st, k)"
    by (cases "sink_flush write_batch sync env (map snd ?b) (gc_sink g)")
  have sk: "gc_sink (FlushBatch write_batch sync env g) = k"
    and hs: "gc_history (FlushBatch write_batch sync env g) =
        gc_history g @ map (\<lambda>(t, b). (t, b, st)) ?b"
    by (simp_all add: FlushBatch_def fl Let_def)
  obtain q where "area k = area (gc_sink g) @ concat q" "explains q (map (\<lambda>(t, b). (t, b, st)) ?b)"
  proof (cases "ok st")
    case True
    with flush_ok[OF assms(1) fl] that[of "map snd ?b"] explains_batch_ok show ?thesis by blast
  next
    case False
    from flush_append[OF assms(1) fl] obtain p where "area k = area (gc_sink g) @ p" by blast
    with explains_batch_err[OF False assms(2), of p] that show ?thesis by blast
  qed
  with assms(3,4) show ?thesis
    unfolding sk hs by (intro exI[of _ "pieces @ q"]) (simp add: explains_append)
qed

lemma reach_explained:
  "gc_reach write_batch sync max_batch k0 g \<Longrightarrow> good k0 \<Longrightarrow>
     good (gc_sink g) \<and>
     (\<exists>pieces. area (gc_sink g) = area k0 @ concat pieces \<and> explains pieces (gc_history g))"
proof (induction rule: gc_reach.induct)
  case init
  then show ?case by (auto simp: gc_init_def explains_def intro: exI[of _ "[]"])
next
  case (step g g')
  from step.hyps(2) show ?case
  proof cases
    case (flush env)
    have "good (gc_sink g')"
      using flush_good[of "gc_sink g" env "map snd (gc_inflight g)"] step.IH step.prems flush
      by (cases "sink_flush write_batch sync env (map snd (gc_inflight g)) (gc_sink g)")
        (auto simp: FlushBatch_def Let_def)
    with flush_explained step.IH step.prems flush show ?thesis by blast
  qed (use step.IH step.prems in \<open>auto simp: Submit_def gc_Shutdown_def take_batch_def Let_def\<close>)
qed

end

section \<open>Properties\<close>

text \<open>
  In every reachable state of the group committer each submitted entry is either still waiting or
  has its future resolved, never both; waiting entries are in submission order; the counters satisfy
  submitted = waiting + synced + failed; and once the worker has exited after \<open>Shutdown\<close> no future is
  left unresolved.
\<close>
theorem group_commit_futures:
  assumes "gc_reach write_batch sync max_batch k0 g"
  shows "(\<forall>t. t < gc_next g \<longleftrightarrow> t \<in> set (waiting g) \<or> gc_futures g t \<noteq> None) \<and>
    (\<forall>t\<in>set (waiting g). gc_futures g t = None) \<and>
    sorted_wrt (<) (waiting g) \<and>
    gc_submitted g = length (waiting g) + gc_synced g + gc_failed g \<and>
    (gc_exited g \<longrightarrow> (\<forall>t < gc_next g. gc_futures g t \<noteq> None))"
  using gc_reach_inv[OF assms] by (auto simp: gc_inv_def)

text \<open>A sink that accepts everything, for the witness.\<close>

definition null_write :: "unit \<Rightarrow> bytes list \<Rightarrow> unit \<Rightarrow> sink_ret \<times> unit" where
  "null_write v es k = (Ret Status_Ok, k)"

definition null_sync :: "unit \<Rightarrow> unit \<Rightarrow> sink_ret \<times> unit" where
  "null_sync v k = (Ret Status_Ok, k)"

theorem group_commit_futures_witness:
  "\<exists>g. gc_reach null_write null_sync 4 () g \<and> gc_next g = 1 \<and> waiting g = [0] \<and>
     (\<forall>t\<in>set (waiting g). gc_futures g t = None) \<and> gc_submitted g = length (waiting g) + gc_synced g + gc_failed g"
proof -
  have r: "gc_reach null_write null_sync 4 () (Submit [1] (gc_init ()))"
    by (intro gc_reach.step[OF gc_reach.init] gc_step.submit)
  have "gc_next (Submit [1] (gc_init ())) = 1" "waiting (Submit [1] (gc_init ())) = [0]"
    by (simp_all add: Submit_def gc_init_def waiting_def)
  with group_commit_futures[OF r] r show ?thesis by blast
qed

end
