(* ===== verification/Pending_Log.thy ===== *)
theory Pending_Log
  imports Pending_Entry Posix_File Group_Commit
begin

text \<open>
  The pending write log file (\<^verbatim>\<open>include/cortrix/store/pending_log_writer.h\<close>,
  \<^verbatim>\<open>src/store/pending_log_writer.cpp\<close>): the 32-byte header, \<open>Open\<close>, the sink operations \<open>WriteBatch\<close>
  and \<open>Sync\<close>, \<open>Append\<close> and \<open>AppendBatch\<close> through the group committer, \<open>ReadAll\<close> with tail truncation,
  \<open>Compact\<close> and \<open>GetStats\<close>.  The state keeps the file under its path and, after a compaction whose
  reopen failed, the detached inode the descriptor still refers to.  \<open>pl_synced\<close> is the length of the
  prefix covered by the last successful sync, so that the images a crash can leave are explicit.
\<close>

section \<open>State\<close>

record PendingLog =
  pl_path_file :: bytes
  pl_detached :: "bytes option"
  pl_synced :: nat
  pl_file_size :: nat
  pl_append_failures :: int
  pl_shutdown :: bool

definition fd_file :: "PendingLog \<Rightarrow> bytes" where
  "fd_file s = (case pl_detached s of None \<Rightarrow> pl_path_file s | Some f \<Rightarrow> f)"

definition set_fd_file :: "bytes \<Rightarrow> PendingLog \<Rightarrow> PendingLog" where
  "set_fd_file f s = (case pl_detached s of
     None \<Rightarrow> s\<lparr>pl_path_file := f\<rparr> | Some _ \<Rightarrow> s\<lparr>pl_detached := Some f\<rparr>)"

record WalStats =
  ws_pending :: nat
  ws_committed :: nat
  ws_rollback :: nat

definition pwl_failed :: "string \<Rightarrow> Status" where
  "pwl_failed d = PwlStatus kUnavailable pwl_kWriteFailed d"

text \<open>A failed system call: the call's name and the text of \<open>errno\<close>.\<close>

definition pwl_io_failed :: "string \<Rightarrow> string \<Rightarrow> Status" where
  "pwl_io_failed what e = pwl_failed (what @ '': '' @ e)"

lemma not_ok_pwl_failed [simp, status]: "\<not> ok (pwl_failed d)" "\<not> ok (pwl_io_failed w e)"
  by (simp_all add: pwl_failed_def pwl_io_failed_def)

section \<open>Header and Open\<close>

definition pwl_kMagic :: bytes where
  "pwl_kMagic = [0x50, 0x57, 0x4C, 0x47]"

definition pwl_kVersion :: u16 where
  "pwl_kVersion = 1"

abbreviation (input) "pwl_kHeaderSize \<equiv> (32::nat)"

definition MakeHeader :: bytes where
  "MakeHeader = (let h = pwl_kMagic @ PutU16 pwl_kVersion @ replicate 22 0 in h @ PutU32 (Crc32 h))"

text \<open>
  \<open>Open\<close> on the bytes currently stored under the path (none for a file that did not exist): the result
  and the bytes stored afterwards.  Of a file that existed nothing is known to be covered by a sync.
  The path is not part of the error texts of the model.
\<close>

definition PendingLogWriter_Open :: "io_env \<Rightarrow> bytes \<Rightarrow> (Status + PendingLog) \<times> bytes" where
  "PendingLogWriter_Open env f =
     (let opened = (\<lambda>f n. \<lparr>pl_path_file = f, pl_detached = None, pl_synced = n, pl_file_size = length f,
                        pl_append_failures = 0, pl_shutdown = False\<rparr>) in
      case io_open env of Some e \<Rightarrow> (Inl (pwl_io_failed ''open'' e), f)
      | None \<Rightarrow>
      case io_lseek env of Some e \<Rightarrow> (Inl (pwl_io_failed ''lseek'' e), f)
      | None \<Rightarrow>
      if length f = 0 then
        (let (w, f') = pwrite_all (pwl_io_failed ''pwrite'') (io_pw env 0) f MakeHeader 0 in
         if \<not> ok w then (Inl w, f')
         else case io_sync env of
           Some e \<Rightarrow> (Inl (pwl_io_failed ''sync header'' e), f')
         | None \<Rightarrow> (Inr (opened f' (length f')), f'))
      else if length f < pwl_kHeaderSize then
        (Inl (corrupted ''pending.wal smaller than header''), f)
      else if io_read env \<noteq> RdAll then (Inl (pwl_failed ''short header read''), f)
      else let hdr = take pwl_kHeaderSize f in
        if take 4 hdr \<noteq> pwl_kMagic then (Inl (corrupted ''bad WAL magic''), f)
        else if GetU16 (drop 4 hdr) \<noteq> pwl_kVersion then (Inl (corrupted ''unsupported WAL version''), f)
        else if GetU32 (drop 28 hdr) \<noteq> Crc32 (take 28 hdr) then
          (Inl (corrupted ''header CRC mismatch''), f)
        else (Inr (opened f 0), f))"

section \<open>The sink operations\<close>

definition WriteBatch :: "io_env \<Rightarrow> bytes list \<Rightarrow> PendingLog \<Rightarrow> Status \<times> PendingLog" where
  "WriteBatch env entries s =
     (case io_lseek env of
        Some e \<Rightarrow> (pwl_io_failed ''lseek end'' e, s)
      | None \<Rightarrow>
          let off = length (fd_file s);
              (w, f, off') = write_entries (pwl_io_failed ''pwrite'') (io_pw env) 0 entries
                               (fd_file s) off;
              s' = set_fd_file f s
          in if \<not> ok w then (w, s') else (Status_Ok, s'\<lparr>pl_file_size := off'\<rparr>))"

definition Sync :: "io_env \<Rightarrow> PendingLog \<Rightarrow> Status \<times> PendingLog" where
  "Sync env s =
     (case io_sync env of
        Some e \<Rightarrow> (pwl_io_failed ''sync'' e, s)
      | None \<Rightarrow> (Status_Ok, s\<lparr>pl_synced := length (fd_file s)\<rparr>))"

definition pwl_write_batch :: "io_env \<Rightarrow> bytes list \<Rightarrow> PendingLog \<Rightarrow> sink_ret \<times> PendingLog" where
  "pwl_write_batch env es s = (let (st, s') = WriteBatch env es s in (Ret st, s'))"

definition pwl_sync :: "io_env \<Rightarrow> PendingLog \<Rightarrow> sink_ret \<times> PendingLog" where
  "pwl_sync env s = (let (st, s') = Sync env s in (Ret st, s'))"

section \<open>Append\<close>

definition SetAppendFailures :: "int \<Rightarrow> PendingLog \<Rightarrow> PendingLog" where
  "SetAppendFailures n s = s\<lparr>pl_append_failures := n\<rparr>"

definition TryConsumeInjectedFault :: "PendingLog \<Rightarrow> bool \<times> PendingLog" where
  "TryConsumeInjectedFault s =
     (if pl_append_failures s > 0 then (True, s\<lparr>pl_append_failures := pl_append_failures s - 1\<rparr>)
      else (False, s))"

definition pwl_Shutdown :: "PendingLog \<Rightarrow> PendingLog" where
  "pwl_Shutdown s = s\<lparr>pl_shutdown := True\<rparr>"

text \<open>
  A single blocking append: the record is submitted to the committer and the call waits for the flush
  of the batch that holds it.
\<close>

definition Append :: "io_env \<Rightarrow> PendingEntry \<Rightarrow> PendingLog \<Rightarrow> Status \<times> PendingLog" where
  "Append env e s =
     (let (fault, s) = TryConsumeInjectedFault s in
      if fault then (pwl_failed ''injected append failure'', s)
      else if pl_shutdown s then (StatusOf kUnavailable ''GroupCommitWriter is shut down'', s)
      else sink_flush pwl_write_batch pwl_sync env [Serialize e] s)"

text \<open>
  \<open>AppendBatch\<close>: an injected fault replaces the submission of its entry; the submitted entries are
  flushed in the batches the committer happens to form (\<open>batches\<close>: environment and size of each), and
  the first error is returned.  \<open>None\<close>: some future is never resolved.
\<close>

fun submit_all :: "PendingEntry list \<Rightarrow> PendingLog \<Rightarrow> Status \<times> bytes list \<times> PendingLog" where
  "submit_all [] s = (Status_Ok, [], s)"
| "submit_all (e # es) s =
     (let (fault, s) = TryConsumeInjectedFault s in
      if fault then
        (let (_, subs, s') = submit_all es s in (pwl_failed ''injected append failure'', subs, s'))
      else (let (st, subs, s') = submit_all es s in (st, Serialize e # subs, s')))"

fun drain :: "(io_env \<times> nat) list \<Rightarrow> bytes list \<Rightarrow> Status \<Rightarrow> PendingLog \<Rightarrow> (Status \<times> PendingLog) option" where
  "drain batches [] err s = Some (err, s)"
| "drain [] (b # bs) err s = None"
| "drain ((env, n) # batches) (b # bs) err s =
     (if n = 0 then drain batches (b # bs) err s
      else let (st, s') = sink_flush pwl_write_batch pwl_sync env (take n (b # bs)) s in
        drain batches (drop n (b # bs)) (if \<not> ok st \<and> ok err then st else err) s')"

definition AppendBatch ::
  "(io_env \<times> nat) list \<Rightarrow> PendingEntry list \<Rightarrow> PendingLog \<Rightarrow> (Status \<times> PendingLog) option" where
  "AppendBatch batches es s =
     (let (err, subs, s') = submit_all es s in
      if pl_shutdown s' then
        Some (if subs \<noteq> [] \<and> ok err then StatusOf kUnavailable ''GroupCommitWriter is shut down'' else err, s')
      else drain batches subs err s')"

section \<open>Reading, compaction, statistics\<close>

definition pwl_ReadFileLocked :: "io_env \<Rightarrow> PendingLog \<Rightarrow> Status + bytes" where
  "pwl_ReadFileLocked env s =
     (case io_lseek env of
        Some e \<Rightarrow> Inl (pwl_io_failed ''lseek'' e)
      | None \<Rightarrow> (case io_read env of
          RdErr e \<Rightarrow> Inl (pwl_io_failed ''pread'' e)
        | RdEof n \<Rightarrow> Inr (take n (fd_file s))
        | RdAll \<Rightarrow> Inr (fd_file s)))"

definition ScanRecords :: "bytes \<Rightarrow> (PendingEntry list \<times> nat) option" where
  "ScanRecords img =
     scan_from DeserializeFrom img (if pwl_kHeaderSize \<le> length img then pwl_kHeaderSize else length img)"

definition pwl_ReadAll :: "io_env \<Rightarrow> PendingLog \<Rightarrow> ((Status + PendingEntry list) \<times> PendingLog) option" where
  "pwl_ReadAll env s =
     (case pwl_ReadFileLocked env s of
        Inl st \<Rightarrow> Some (Inl st, s)
      | Inr img \<Rightarrow> do {
          (entries, valid_end) \<leftarrow> ScanRecords img;
          if valid_end < length img then
            (case io_trunc env of
               Some e \<Rightarrow> Some (Inl (pwl_io_failed ''ftruncate tail'' e), s)
             | None \<Rightarrow>
                 let s' = set_fd_file (take valid_end (fd_file s)) s;
                     s'' = (if io_sync env = None then s'\<lparr>pl_synced := valid_end\<rparr>
                            else s'\<lparr>pl_synced := min (pl_synced s') valid_end\<rparr>)
                 in Some (Inr entries, s''\<lparr>pl_file_size := valid_end\<rparr>))
          else Some (Inr entries, s) })"

definition finalized :: "PendingEntry list \<Rightarrow> u64 set" where
  "finalized es = pe_txn_id ` {e \<in> set es. pe_state e = kCommitted \<or> pe_state e = kRollback}"

definition live :: "PendingEntry list \<Rightarrow> PendingEntry list" where
  "live es = filter (\<lambda>e. pe_state e = kPending \<and> pe_txn_id e \<notin> finalized es) es"

definition Compact :: "io_env \<Rightarrow> PendingLog \<Rightarrow> (Status \<times> PendingLog) option" where
  "Compact env s =
     (case pwl_ReadFileLocked env s of
        Inl st \<Rightarrow> Some (st, s)
      | Inr img \<Rightarrow> do {
          (entries, valid_end) \<leftarrow> ScanRecords img;
          let out = MakeHeader @ concat (map Serialize (live entries));
          Some (case io_tmp_open env of
            Some e \<Rightarrow> (pwl_io_failed ''open tmp'' e, s)
          | None \<Rightarrow>
              let (w, tmp) = pwrite_all (pwl_io_failed ''pwrite'') (io_pw env 0) [] out 0;
                  w = (if ok w then (case io_tmp_sync env of
                         Some e \<Rightarrow> pwl_io_failed ''sync tmp'' e | None \<Rightarrow> w) else w)
              in if \<not> ok w then (w, s)
                 else case io_rename env of
                   Some e \<Rightarrow> (pwl_io_failed ''rename'' e, s)
                 | None \<Rightarrow> (case io_reopen env of
                     Some e \<Rightarrow> (pwl_io_failed ''reopen after compact'' e,
                                s\<lparr>pl_path_file := tmp, pl_detached := Some (fd_file s)\<rparr>)
                   | None \<Rightarrow> (Status_Ok, s\<lparr>pl_path_file := tmp, pl_detached := None,
                                          pl_synced := length tmp, pl_file_size := length out\<rparr>))) })"

definition SizeBytes :: "PendingLog \<Rightarrow> nat" where
  "SizeBytes s = pl_file_size s"

definition stats_of :: "PendingEntry list \<Rightarrow> WalStats" where
  "stats_of es = \<lparr>ws_pending = length (live es),
     ws_committed = length (filter (\<lambda>e. pe_state e = kCommitted) es),
     ws_rollback = length (filter (\<lambda>e. pe_state e = kRollback) es)\<rparr>"

definition pwl_GetStats :: "io_env \<Rightarrow> PendingLog \<Rightarrow> (Status + WalStats) option" where
  "pwl_GetStats env s =
     (case pwl_ReadFileLocked env s of
        Inl st \<Rightarrow> Some (Inl st)
      | Inr img \<Rightarrow> do { (entries, valid_end) \<leftarrow> ScanRecords img; Some (Inr (stats_of entries)) })"

text \<open>
  The images a crash can leave: the synced prefix of the file is on disk, of the rest any further
  prefix may have reached it.
\<close>

definition crash_image :: "PendingLog \<Rightarrow> bytes \<Rightarrow> bool" where
  "crash_image s f \<longleftrightarrow> (\<exists>k. pl_synced s \<le> k \<and> f = take k (fd_file s))"

section \<open>Clean logs\<close>

lemma length_MakeHeader [simp]: "length MakeHeader = 32"
  by (simp add: MakeHeader_def pwl_kMagic_def Let_def)

lemma carried_idem [simp]: "carried (carried e) = carried e"
  by (simp add: carried_def)

lemma entry_fits_carried [simp]: "entry_fits (carried e) \<longleftrightarrow> entry_fits e"
  by (auto simp: carried_def entry_fits_def)

lemma Serialize_carried [simp]: "Serialize (carried e) = Serialize e"
  by (auto simp: Serialize_def pe_body_def carried_def Let_def)

lemma fd_file_None [simp]: "pl_detached s = None \<Longrightarrow> fd_file s = pl_path_file s"
  by (simp add: fd_file_def)

lemma fd_file_set [simp]: "fd_file (set_fd_file f s) = f"
  by (simp add: fd_file_def set_fd_file_def split: option.splits)

lemma fd_file_upd [simp]:
  "fd_file (s\<lparr>pl_file_size := n\<rparr>) = fd_file s" "fd_file (s\<lparr>pl_synced := n\<rparr>) = fd_file s"
  "fd_file (s\<lparr>pl_append_failures := i\<rparr>) = fd_file s"
  by (simp_all add: fd_file_def split: option.split)

lemma set_fd_file_sel [simp]:
  "pl_synced (set_fd_file f s) = pl_synced s" "pl_file_size (set_fd_file f s) = pl_file_size s"
  "pl_append_failures (set_fd_file f s) = pl_append_failures s"
  "pl_shutdown (set_fd_file f s) = pl_shutdown s"
  "pl_detached (set_fd_file f s) = None \<longleftrightarrow> pl_detached s = None"
  by (simp_all add: set_fd_file_def split: option.splits)

lemma set_fd_file_path [simp]:
  "pl_detached s = None \<Longrightarrow> pl_path_file (set_fd_file f s) = f"
  by (simp add: set_fd_file_def)

text \<open>The bytes of a log that holds the records \<open>es\<close>, and a writer on such a log.\<close>

definition log_image :: "PendingEntry list \<Rightarrow> bytes" where
  "log_image es = MakeHeader @ concat (map Serialize es)"

definition storable :: "PendingEntry \<Rightarrow> bool" where
  "storable e \<longleftrightarrow> entry_fits e \<and> carried e = e"

definition clean :: "PendingLog \<Rightarrow> PendingEntry list \<Rightarrow> bool" where
  "clean s es \<longleftrightarrow> pl_detached s = None \<and> pl_path_file s = log_image es \<and>
     (\<forall>e\<in>set es. storable e) \<and> pl_file_size s = length (log_image es)"

lemma storable_carried: "entry_fits e \<Longrightarrow> storable (carried e)"
  by (simp add: storable_def)

lemma map_carried: "\<forall>e\<in>set es. storable e \<Longrightarrow> map carried es = es"
  by (induction es) (auto simp: storable_def)

lemma log_image_snoc: "log_image (es @ [carried e]) = log_image es @ Serialize e"
  by (simp add: log_image_def)

lemma clean_fd: "clean s es \<Longrightarrow> fd_file s = log_image es"
  by (simp add: clean_def)

lemma ScanRecords_log_image:
  assumes "\<forall>e\<in>set es. storable e"
  shows "ScanRecords (log_image es) = Some (es, length (log_image es))"
proof -
  have g: "\<forall>e\<in>set es. entry_fits e" using assms by (auto simp: storable_def)
  from pwl_codec.scan_all[OF g, of MakeHeader] show ?thesis
    using map_carried[OF assms] by (simp add: ScanRecords_def log_image_def)
qed

lemma ScanRecords_torn:
  assumes "\<forall>e\<in>set es. storable e" "entry_fits f" "k < length (Serialize f)"
  shows "ScanRecords (log_image es @ take k (Serialize f)) = Some (es, length (log_image es))"
proof -
  have g: "\<forall>e\<in>set es. entry_fits e" using assms by (auto simp: storable_def)
  from pwl_codec.scan_torn[OF g assms(2,3), of MakeHeader] show ?thesis
    using map_carried[OF assms(1)] by (simp add: ScanRecords_def log_image_def)
qed

lemma ScanRecords_total: "\<exists>es v. ScanRecords img = Some (es, v) \<and> v \<le> length img"
  using pwl_codec.scan_total[of "if 32 \<le> length img then 32 else length img" img]
  by (auto simp: ScanRecords_def)

lemma ScanRecords_crash:
  assumes "\<forall>e\<in>set es. storable e" "n \<le> length es" "length (log_image (take n es)) \<le> k"
  shows "\<exists>m. n \<le> m \<and> m \<le> length es \<and>
    ScanRecords (take k (log_image es)) = Some (take m es, length (log_image (take m es)))"
proof -
  have g: "\<forall>e\<in>set es. entry_fits e" using assms by (auto simp: storable_def)
  have k: "32 \<le> k" using assms(3) by (simp add: log_image_def)
  then have tk: "take k (log_image es) = MakeHeader @ take (k - 32) (concat (map Serialize es))"
    by (simp add: log_image_def)
  have "length (concat (map Serialize (take n es))) \<le> k - 32"
    using assms(3) by (simp add: log_image_def)
  from pwl_codec.scan_prefix_ge[OF g assms(2) this, of MakeHeader] obtain m where
    "n \<le> m" "m \<le> length es" "scan_from DeserializeFrom (take k (log_image es)) 32 =
       Some (map carried (take m es), length (log_image (take m es)))"
    unfolding tk by (auto simp: log_image_def)
  moreover have "map carried (take m es) = take m es"
    using assms(1) by (intro map_carried) (auto dest: in_set_takeD)
  ultimately show ?thesis
    using k by (auto simp: ScanRecords_def log_image_def)
qed

section \<open>The operations on a log\<close>

lemma pwl_flush:
  assumes "sink_flush pwl_write_batch pwl_sync env es s = (st, s')"
  shows "ok st \<Longrightarrow> fd_file s' = fd_file s @ concat es \<and> pl_synced s' = length (fd_file s') \<and>
      pl_file_size s' = length (fd_file s')"
    and "\<exists>k. fd_file s' = fd_file s @ take k (concat es)"
    and "pl_detached s' = None \<longleftrightarrow> pl_detached s = None"
    and "\<not> ok st \<Longrightarrow> pl_synced s' = pl_synced s"
    and "pl_append_failures s' = pl_append_failures s \<and> pl_shutdown s' = pl_shutdown s"
proof -
  obtain w f off where we: "write_entries (pwl_io_failed ''pwrite'') (io_pw env) 0 es (fd_file s)
      (length (fd_file s)) = (w, f, off)"
    using prod_cases3 by blast
  have bad: "\<not> ok (pwl_io_failed ''pwrite'' e)" for e by (rule not_ok_pwl_failed)
  note ap = write_entries_append[OF we bad]
  have "(ok st \<longrightarrow> fd_file s' = fd_file s @ concat es \<and> pl_synced s' = length (fd_file s') \<and>
      pl_file_size s' = length (fd_file s')) \<and>
    (\<exists>k. fd_file s' = fd_file s @ take k (concat es)) \<and>
    (pl_detached s' = None \<longleftrightarrow> pl_detached s = None) \<and> (\<not> ok st \<longrightarrow> pl_synced s' = pl_synced s) \<and>
    pl_append_failures s' = pl_append_failures s \<and> pl_shutdown s' = pl_shutdown s"
  proof (cases "io_lseek env")
    case (Some e)
    with assms show ?thesis
      by (auto simp: sink_flush_def pwl_write_batch_def WriteBatch_def Let_def intro: exI[of _ 0])
  next
    case None
    show ?thesis
    proof (cases "ok w")
      case True
      with ap(1) have f: "f = fd_file s @ concat es" "off = length f" by auto
      with assms None we True show ?thesis
        by (auto simp: sink_flush_def pwl_write_batch_def pwl_sync_def WriteBatch_def Sync_def Let_def
            split: option.splits intro: exI[of _ "length (concat es)"])
    next
      case False
      with ap(2) obtain k where "f = fd_file s @ take k (concat es)" by blast
      with assms None we False show ?thesis
        by (auto simp: sink_flush_def pwl_write_batch_def WriteBatch_def Let_def intro: exI[of _ k])
    qed
  qed
  then show "ok st \<Longrightarrow> fd_file s' = fd_file s @ concat es \<and> pl_synced s' = length (fd_file s') \<and>
      pl_file_size s' = length (fd_file s')"
    and "\<exists>k. fd_file s' = fd_file s @ take k (concat es)"
    and "pl_detached s' = None \<longleftrightarrow> pl_detached s = None"
    and "\<not> ok st \<Longrightarrow> pl_synced s' = pl_synced s"
    and "pl_append_failures s' = pl_append_failures s \<and> pl_shutdown s' = pl_shutdown s"
    by auto
qed

interpretation pwl_sink: wal_sink pwl_write_batch pwl_sync fd_file "\<lambda>_. True"
proof (unfold_locales, goal_cases)
  case (1 k env es st k')
  then show ?case using pwl_flush(1) by blast
next
  case (2 k env es st k')
  then show ?case using pwl_flush(2) by blast
next
  case (3 k env es st k')
  then show ?case by simp
qed

text \<open>An acknowledged append is in the file and covered by a sync.\<close>

lemma Append_ok:
  assumes "Append env e s = (st, s')" "ok st"
  shows "fd_file s' = fd_file s @ Serialize e" "pl_synced s' = length (fd_file s')"
    "pl_file_size s' = length (fd_file s')" "pl_detached s' = None \<longleftrightarrow> pl_detached s = None"
proof -
  have fl: "sink_flush pwl_write_batch pwl_sync env [Serialize e] s = (st, s')"
    using assms by (auto simp: Append_def TryConsumeInjectedFault_def split: if_splits)
  from pwl_flush(1)[OF fl assms(2)] pwl_flush(3)[OF fl]
  show "fd_file s' = fd_file s @ Serialize e" "pl_synced s' = length (fd_file s')"
    "pl_file_size s' = length (fd_file s')" "pl_detached s' = None \<longleftrightarrow> pl_detached s = None"
    by simp_all
qed

lemma Append_clean:
  assumes "clean s es" "entry_fits e" "Append env e s = (st, s')" "ok st"
  shows "clean s' (es @ [carried e])" "pl_synced s' = length (log_image (es @ [carried e]))"
proof -
  have "pl_detached s' = None" "pl_detached s = None"
    using assms(1) Append_ok(4)[OF assms(3,4)] by (auto simp: clean_def)
  moreover have "fd_file s' = log_image (es @ [carried e])"
    using Append_ok(1)[OF assms(3,4)] clean_fd[OF assms(1)] by (simp add: log_image_snoc)
  ultimately show "clean s' (es @ [carried e])" "pl_synced s' = length (log_image (es @ [carried e]))"
    using assms(1,2) Append_ok(2,3)[OF assms(3,4)] by (auto simp: clean_def storable_carried)
qed

lemma Append_err:
  assumes "Append env e s = (st, s')" "\<not> ok st"
  shows "\<exists>k. fd_file s' = fd_file s @ take k (Serialize e)" "pl_synced s' = pl_synced s"
    "pl_detached s' = None \<longleftrightarrow> pl_detached s = None"
proof -
  have "(\<exists>k. fd_file s' = fd_file s @ take k (Serialize e)) \<and> pl_synced s' = pl_synced s \<and>
      (pl_detached s' = None \<longleftrightarrow> pl_detached s = None)"
  proof (cases "pl_append_failures s > 0 \<or> pl_shutdown s")
    case True
    with assms show ?thesis
      by (auto simp: Append_def TryConsumeInjectedFault_def Let_def split: if_splits intro: exI[of _ 0])
  next
    case False
    with assms have "sink_flush pwl_write_batch pwl_sync env [Serialize e] s = (st, s')"
      by (auto simp: Append_def TryConsumeInjectedFault_def Let_def)
    from pwl_flush(2,3)[OF this] pwl_flush(4)[OF this assms(2)] show ?thesis by auto
  qed
  then show "\<exists>k. fd_file s' = fd_file s @ take k (Serialize e)" "pl_synced s' = pl_synced s"
    "pl_detached s' = None \<longleftrightarrow> pl_detached s = None" by auto
qed

lemma pwl_flush_good:
  assumes "io_lseek env = None" "io_pw env = (\<lambda>_. PwOk)" "io_sync env = None"
  shows "ok (fst (sink_flush pwl_write_batch pwl_sync env es s))"
  using assms by (simp add: sink_flush_def pwl_write_batch_def pwl_sync_def WriteBatch_def Sync_def)

lemma Append_good:
  assumes "pl_append_failures s \<le> 0" "\<not> pl_shutdown s"
  shows "ok (fst (Append io_good e s))"
proof -
  have "io_pw io_good = (\<lambda>_. PwOk)" by (rule ext) simp
  then show ?thesis
    using assms pwl_flush_good[of io_good] by (simp add: Append_def TryConsumeInjectedFault_def)
qed

lemma ReadAll_clean:
  assumes "clean s es" "io_lseek env = None" "io_read env = RdAll"
  shows "pwl_ReadAll env s = Some (Inr es, s)"
  using assms ScanRecords_log_image[of es]
  by (simp add: pwl_ReadAll_def pwl_ReadFileLocked_def clean_def)

lemma ReadAll_torn:
  assumes "pl_detached s = None" "pl_path_file s = log_image es @ take k (Serialize f)"
    and "\<forall>e\<in>set es. storable e" "entry_fits f" "k < length (Serialize f)" "pl_file_size s = length (pl_path_file s)"
    and "io_lseek env = None" "io_read env = RdAll" "io_trunc env = None"
  shows "\<exists>s'. pwl_ReadAll env s = Some (Inr es, s') \<and> clean s' es"
proof (cases "k = 0")
  case True
  with assms show ?thesis by (intro exI[of _ s]) (auto simp: clean_def intro!: ReadAll_clean)
next
  case False
  note sc = ScanRecords_torn[OF assms(3-5)]
  have "length (log_image es) < length (log_image es @ take k (Serialize f))" using False assms(5) by simp
  then show ?thesis
    using assms sc by (auto simp: pwl_ReadAll_def pwl_ReadFileLocked_def clean_def Let_def)
qed

lemma live_storable: "\<forall>e\<in>set es. storable e \<Longrightarrow> \<forall>e\<in>set (live es). storable e"
  by (auto simp: live_def)

lemma ReadFile_clean:
  assumes "pwl_ReadFileLocked env s = Inr img"
  shows "\<exists>n. img = take n (fd_file s)" "io_read env = RdAll \<Longrightarrow> img = fd_file s"
  using assms by (auto simp: pwl_ReadFileLocked_def split: option.splits read_outcome.splits
      intro: exI[of _ "length (fd_file s)"])

text \<open>A compaction that reports success leaves exactly the unresolved PENDING records.\<close>

lemma Compact_ok:
  assumes "Compact env s = Some (st, s')" "ok st"
  obtains img entries v where "pwl_ReadFileLocked env s = Inr img" "ScanRecords img = Some (entries, v)"
    "s' = s\<lparr>pl_path_file := log_image (live entries), pl_detached := None,
            pl_synced := length (log_image (live entries)), pl_file_size := length (log_image (live entries))\<rparr>"
proof (cases "pwl_ReadFileLocked env s")
  case (Inl x)
  then have "\<not> ok x"
    by (auto simp: pwl_ReadFileLocked_def split: option.splits read_outcome.splits)
  with Inl assms show thesis by (simp add: Compact_def)
next
  case (Inr img)
  obtain entries v where sc: "ScanRecords img = Some (entries, v)"
    using ScanRecords_total by blast
  have ne: "log_image (live entries) \<noteq> []"
    by (metis length_MakeHeader log_image_def append_is_Nil_conv list.size(3) zero_neq_numeral)
  show thesis
  proof (cases "io_pw env 0")
    case PwOk
    have "pwrite_all (pwl_io_failed ''pwrite'') (io_pw env 0) [] (log_image (live entries)) 0 =
        (Status_Ok, log_image (live entries))"
      using pwrite_all_end[of "log_image (live entries)" "io_pw env 0" _ "[]"] PwOk by simp
    then show thesis
      using assms Inr sc that[OF Inr sc]
      by (auto simp: Compact_def Let_def log_image_def[symmetric] split: option.splits if_splits)
  next
    case (PwErr k e)
    then have "fst (pwrite_all (pwl_io_failed ''pwrite'') (io_pw env 0) [] (log_image (live entries)) 0) =
        pwl_io_failed ''pwrite'' e"
      using ne by (simp add: pwrite_all_def)
    then show thesis
      using assms Inr sc
      by (auto simp: Compact_def Let_def log_image_def[symmetric] split: option.splits prod.splits if_splits)
  qed
qed

lemma Compact_clean:
  assumes "clean s es" "io_read env = RdAll" "Compact env s = Some (st, s')" "ok st"
  shows "clean s' (live es)" "pl_synced s' = length (log_image (live es))"
    "pl_append_failures s' = pl_append_failures s" "pl_shutdown s' = pl_shutdown s"
proof -
  from Compact_ok[OF assms(3,4)] obtain img entries v where
    img: "pwl_ReadFileLocked env s = Inr img" and sc: "ScanRecords img = Some (entries, v)" and
    s': "s' = s\<lparr>pl_path_file := log_image (live entries), pl_detached := None,
            pl_synced := length (log_image (live entries)), pl_file_size := length (log_image (live entries))\<rparr>"
    by blast
  have "img = log_image es"
    using ReadFile_clean(2)[OF img assms(2)] clean_fd[OF assms(1)] by simp
  then have "entries = es" using sc ScanRecords_log_image assms(1) by (auto simp: clean_def)
  then show "clean s' (live es)" "pl_synced s' = length (log_image (live es))"
    "pl_append_failures s' = pl_append_failures s" "pl_shutdown s' = pl_shutdown s"
    using assms(1) live_storable by (auto simp: s' clean_def)
qed

lemma Compact_total: "\<exists>r. Compact env s = Some r"
proof (cases "pwl_ReadFileLocked env s")
  case (Inl x)
  then show ?thesis by (simp add: Compact_def)
next
  case (Inr img)
  moreover obtain entries v where "ScanRecords img = Some (entries, v)" using ScanRecords_total by blast
  ultimately show ?thesis by (simp add: Compact_def Let_def)
qed

lemma ReadAll_total: "\<exists>r. pwl_ReadAll env s = Some r"
proof (cases "pwl_ReadFileLocked env s")
  case (Inl x)
  then show ?thesis by (simp add: pwl_ReadAll_def)
next
  case (Inr img)
  moreover obtain entries v where "ScanRecords img = Some (entries, v)" using ScanRecords_total by blast
  ultimately show ?thesis by (simp add: pwl_ReadAll_def Let_def split: option.splits)
qed

lemma finalized_live [simp]: "finalized (live es) = {}"
  by (auto simp: live_def finalized_def)

lemma live_live [simp]: "live (live es) = live es"
proof -
  have "live (live es) = filter (\<lambda>e. pe_state e = kPending \<and> pe_txn_id e \<notin> finalized (live es)) (live es)"
    by (simp only: live_def)
  also have "\<dots> = live es"
    unfolding finalized_live by (rule filter_True) (simp add: live_def)
  finally show ?thesis .
qed

lemma Open_log_image:
  "PendingLogWriter_Open io_good (log_image es) =
     (Inr \<lparr>pl_path_file = log_image es, pl_detached = None, pl_synced = 0, pl_file_size = length (log_image es),
        pl_append_failures = 0, pl_shutdown = False\<rparr>, log_image es)"
proof -
  have h: "MakeHeader = pwl_kMagic @ PutU16 pwl_kVersion @ replicate 22 0 @
      PutU32 (Crc32 (pwl_kMagic @ PutU16 pwl_kVersion @ replicate 22 0))" (is "_ = ?m @ ?v @ ?z @ ?c")
    by (simp add: MakeHeader_def Let_def)
  have l: "length ?m = 4" by (simp add: pwl_kMagic_def)
  have t: "take 32 (log_image es) = MakeHeader" by (simp add: log_image_def)
  have "take 4 MakeHeader = pwl_kMagic" "GetU16 (drop 4 MakeHeader) = pwl_kVersion"
    "GetU32 (drop 28 MakeHeader) = Crc32 (take 28 MakeHeader)"
    unfolding h by (simp_all add: l)
  moreover have "length (log_image es) \<ge> 32" by (simp add: log_image_def)
  moreover from this have "log_image es \<noteq> []" by auto
  ultimately show ?thesis unfolding PendingLogWriter_Open_def Let_def by (simp add: t)
qed


section \<open>Properties\<close>

lemma ReadAll_Inr:
  assumes "pwl_ReadAll env s = Some (Inr es, s')" "io_read env = RdAll"
  obtains v where "ScanRecords (fd_file s) = Some (es, v)" "v \<le> length (fd_file s)" "fd_file s' = take v (fd_file s)"
proof -
  obtain es0 v where sc: "ScanRecords (fd_file s) = Some (es0, v)" "v \<le> length (fd_file s)"
    using ScanRecords_total by blast
  with assms have "es = es0" "fd_file s' = take v (fd_file s)"
    by (auto simp: pwl_ReadAll_def pwl_ReadFileLocked_def Let_def split: option.splits if_splits)
  with sc that show thesis by blast
qed

lemma ScanRecords_take:
  assumes "ScanRecords img = Some (es, v)" "32 \<le> length img"
  shows "32 \<le> v" "ScanRecords (take v img) = Some (es, v)"
proof -
  have sc: "scan_from DeserializeFrom img 32 = Some (es, v)" using assms by (simp add: ScanRecords_def)
  from pwl_codec.scan_total[OF assms(2)] sc have v: "32 \<le> v" "v \<le> length img" by auto
  from pwl_codec.scan_take[OF assms(2) sc] show "32 \<le> v" "ScanRecords (take v img) = Some (es, v)"
    using v by (simp_all add: ScanRecords_def)
qed

lemma ReadAll_exact:
  assumes "ScanRecords (fd_file s) = Some (es, length (fd_file s))" "io_lseek env = None" "io_read env = RdAll"
  shows "pwl_ReadAll env s = Some (Inr es, s)"
  using assms by (simp add: pwl_ReadAll_def pwl_ReadFileLocked_def)

text \<open>
  C15: an acknowledged append is durable.  After \<open>Append\<close> has returned \<open>Ok\<close> on a clean log (the file at the path is the header
  and whole, valid records, as long as the log counts it) for an entry whose fields fit their widths, every image a crash can leave reopens, and reading it without
  errors returns all earlier records and the new one.  (Behind a partial write, or for a document id that does not fit, it is
  not so: partial_write_loses_acked_record and long_doc_id_lost.)
\<close>
theorem append_durable:
  assumes "clean s es" "entry_fits e" "Append env e s = (st, s')" "ok st" "crash_image s' f"
  shows "\<exists>s2. PendingLogWriter_Open io_good f = (Inr s2, f) \<and>
    pwl_ReadAll io_good s2 = Some (Inr (es @ [carried e]), s2)"
proof -
  note c = Append_clean[OF assms(1-4)]
  obtain k where k: "pl_synced s' \<le> k" "f = take k (fd_file s')" using assms(5) by (auto simp: crash_image_def)
  then have f: "f = log_image (es @ [carried e])" using c clean_fd[OF c(1)] by simp
  have "\<forall>x\<in>set (es @ [carried e]). storable x" using c(1) by (simp add: clean_def)
  note sc = ScanRecords_log_image[OF this]
  show ?thesis unfolding f Open_log_image using sc by (auto intro!: ReadAll_exact)
qed

theorem append_durable_witness:
  "\<exists>st s' s2. Append io_good PendingEntry_default \<lparr>pl_path_file = log_image [], pl_detached = None, pl_synced = 32,
      pl_file_size = 32, pl_append_failures = 0, pl_shutdown = False\<rparr> = (st, s') \<and> ok st \<and>
    PendingLogWriter_Open io_good (fd_file s') = (Inr s2, fd_file s') \<and>
    pwl_ReadAll io_good s2 = Some (Inr [PendingEntry_default], s2)"
proof -
  let ?s = "\<lparr>pl_path_file = log_image [], pl_detached = None, pl_synced = 32,
      pl_file_size = 32, pl_append_failures = 0, pl_shutdown = False\<rparr>"
  have c: "clean ?s []" by (simp add: clean_def log_image_def)
  have f: "entry_fits PendingEntry_default" by (simp add: entry_fits_def PendingEntry_default_def)
  obtain st s' where a: "Append io_good PendingEntry_default ?s = (st, s')" by fastforce
  have ok: "ok st" using Append_good[of ?s PendingEntry_default] a by simp
  have "crash_image s' (fd_file s')"
    using Append_clean[OF c f a ok] clean_fd by (auto simp: crash_image_def)
  from append_durable[OF c f a ok this] a ok show ?thesis by (auto simp: carried_def PendingEntry_default_def)
qed

text \<open>
  Reading repairs the tail, once.  On any file that holds at least the header, a \<open>ReadAll\<close> that succeeds
  leaves a prefix of the file behind from which every later \<open>ReadAll\<close> returns the same records without
  changing anything.
\<close>
theorem ReadAll_repairs_once:
  assumes "pwl_ReadAll env s = Some (Inr es, s')" "io_read env = RdAll" "32 \<le> length (fd_file s)"
    and "io_lseek env' = None" "io_read env' = RdAll"
  shows "(\<exists>v. fd_file s' = take v (fd_file s)) \<and> pwl_ReadAll env' s' = Some (Inr es, s')"
proof -
  from ReadAll_Inr[OF assms(1,2)] obtain v where v: "ScanRecords (fd_file s) = Some (es, v)" "v \<le> length (fd_file s)"
    "fd_file s' = take v (fd_file s)" .
  from ScanRecords_take(2)[OF v(1) assms(3)] v have "ScanRecords (fd_file s') = Some (es, length (fd_file s'))" by simp
  from ReadAll_exact[OF this assms(4,5)] v(3) show ?thesis by blast
qed

theorem ReadAll_repairs_once_witness:
  "\<exists>s'. pwl_ReadAll io_good \<lparr>pl_path_file = log_image [] @ take 9 (Serialize PendingEntry_default), pl_detached = None,
      pl_synced = 0, pl_file_size = 41, pl_append_failures = 0, pl_shutdown = False\<rparr> = Some (Inr [], s') \<and>
    pwl_ReadAll io_good s' = Some (Inr [], s')"
proof -
  let ?s = "\<lparr>pl_path_file = log_image [] @ take 9 (Serialize PendingEntry_default), pl_detached = None,
      pl_synced = 0, pl_file_size = 41, pl_append_failures = 0, pl_shutdown = False\<rparr>"
  have f: "entry_fits PendingEntry_default" by (simp add: entry_fits_def PendingEntry_default_def)
  have l: "9 < length (Serialize PendingEntry_default)" by (simp add: Serialize_def length_pe_body PendingEntry_default_def)
  from ReadAll_torn[of ?s "[]" 9 PendingEntry_default io_good] f l obtain s' where
    s': "pwl_ReadAll io_good ?s = Some (Inr [], s')" by (auto simp: log_image_def)
  have "32 \<le> length (fd_file ?s)" by (simp add: log_image_def)
  from ReadAll_repairs_once[OF s' _ this, of io_good] s' show ?thesis by auto
qed

text \<open>
  Compaction is exact.  A compaction of a clean log that reports success leaves precisely the PENDING
  records without a terminal record, in order, durably; the reported number of pending transactions is
  the same before and after, and nothing finalized remains.
\<close>
theorem compact_exact:
  assumes "clean s es" "io_lseek env = None" "io_read env = RdAll" "Compact env s = Some (st, s')" "ok st"
  shows "pwl_ReadAll io_good s' = Some (Inr (live es), s') \<and> pl_synced s' = length (fd_file s') \<and>
    pwl_GetStats env s = Some (Inr (stats_of es)) \<and>
    pwl_GetStats io_good s' = Some (Inr \<lparr>ws_pending = ws_pending (stats_of es), ws_committed = 0, ws_rollback = 0\<rparr>)"
proof -
  note c = Compact_clean[OF assms(1,3-5)]
  have st: "\<forall>e\<in>set es. storable e" "\<forall>e\<in>set (live es). storable e" using assms(1) c(1) by (auto simp: clean_def)
  have "filter (\<lambda>e. pe_state e = kCommitted) (live es) = []" "filter (\<lambda>e. pe_state e = kRollback) (live es) = []"
    by (auto simp: live_def filter_empty_conv)
  then have z: "stats_of (live es) = \<lparr>ws_pending = ws_pending (stats_of es), ws_committed = 0, ws_rollback = 0\<rparr>"
    by (simp add: stats_of_def)
  have "pwl_ReadAll io_good s' = Some (Inr (live es), s')" by (rule ReadAll_clean[OF c(1)]) simp_all
  moreover have "pwl_GetStats env s = Some (Inr (stats_of es))"
    using clean_fd[OF assms(1)] assms(2,3) ScanRecords_log_image[OF st(1)]
    by (simp add: pwl_GetStats_def pwl_ReadFileLocked_def)
  moreover have "pwl_GetStats io_good s' = Some (Inr (stats_of (live es)))"
    using clean_fd[OF c(1)] ScanRecords_log_image[OF st(2)] by (simp add: pwl_GetStats_def pwl_ReadFileLocked_def)
  ultimately show ?thesis using c(2) clean_fd[OF c(1)] z by simp
qed

lemma Compact_good: "clean s es \<Longrightarrow> \<exists>st s'. Compact io_good s = Some (st, s') \<and> ok st"
  using ScanRecords_log_image[of es]
  by (simp add: Compact_def pwl_ReadFileLocked_def clean_def Let_def pwrite_all_def split: prod.splits)

theorem compact_exact_witness:
  "\<exists>st s'. Compact io_good \<lparr>pl_path_file = log_image [PendingEntry_default], pl_detached = None, pl_synced = 65,
      pl_file_size = length (log_image [PendingEntry_default]), pl_append_failures = 0, pl_shutdown = False\<rparr> = Some (st, s') \<and>
    pwl_ReadAll io_good s' = Some (Inr [PendingEntry_default], s')"
proof -
  let ?s = "\<lparr>pl_path_file = log_image [PendingEntry_default], pl_detached = None, pl_synced = 65,
      pl_file_size = length (log_image [PendingEntry_default]), pl_append_failures = 0, pl_shutdown = False\<rparr>"
  have c: "clean ?s [PendingEntry_default]"
    by (simp add: clean_def storable_def entry_fits_def carried_def PendingEntry_default_def)
  obtain st s' where k: "Compact io_good ?s = Some (st, s')" "ok st" using Compact_good[OF c] by blast
  have "live [PendingEntry_default] = [PendingEntry_default]"
    by (auto simp: live_def finalized_def PendingEntry_default_def)
  with compact_exact[OF c _ _ k] k show ?thesis by auto
qed

text \<open>
  C35: the file of the pending log is the history of its group committer.  Whatever batches the worker
  formed and whatever failed, the bytes behind the initial content are the flushed entries in order:
  an entry whose future was resolved with \<open>Ok\<close> contributes exactly its bytes, a failed one at most some
  bytes; and the future of every flushed entry holds the status of its flush.
\<close>
theorem group_commit_history:
  assumes "gc_reach pwl_write_batch pwl_sync max_batch k0 g"
  shows "(\<exists>pieces. fd_file (gc_sink g) = fd_file k0 @ concat pieces \<and> explains pieces (gc_history g)) \<and>
    (\<forall>(t, b, st)\<in>set (gc_history g). gc_futures g t = Some st)"
  using pwl_sink.reach_explained[OF assms] reach_history[OF assms] by simp

theorem group_commit_history_witness:
  "\<exists>g k0. gc_reach pwl_write_batch pwl_sync 8 k0 g \<and> gc_history g \<noteq> [] \<and>
     (\<exists>pieces. fd_file (gc_sink g) = fd_file k0 @ concat pieces \<and> explains pieces (gc_history g))"
proof -
  define k0 where "k0 = \<lparr>pl_path_file = log_image [], pl_detached = None, pl_synced = 32, pl_file_size = 32,
    pl_append_failures = 0, pl_shutdown = False\<rparr>"
  define g where "g = FlushBatch pwl_write_batch pwl_sync io_good
    (take_batch 8 (Submit (Serialize PendingEntry_default) (gc_init k0)))"
  have q: "gc_queue (Submit b (gc_init k)) = [(0, b)]" "gc_inflight (Submit b (gc_init k)) = []"
    "\<not> gc_exited (Submit b (gc_init k))" for b and k :: PendingLog
    by (simp_all add: Submit_def gc_init_def)
  have "gc_reach pwl_write_batch pwl_sync 8 k0 (Submit (Serialize PendingEntry_default) (gc_init k0))"
    by (intro gc_reach.step[OF gc_reach.init] gc_step.submit)
  then have "gc_reach pwl_write_batch pwl_sync 8 k0
      (take_batch 8 (Submit (Serialize PendingEntry_default) (gc_init k0)))"
    by (rule gc_reach.step) (rule gc_step.take, simp_all add: q)
  then have r: "gc_reach pwl_write_batch pwl_sync 8 k0 g"
    unfolding g_def by (rule gc_reach.step) (rule gc_step.flush, simp add: take_batch_def q Let_def)
  have "gc_history g \<noteq> []" by (simp add: g_def FlushBatch_def take_batch_def q Let_def split: prod.splits)
  with group_commit_history[OF r] r show ?thesis by blast
qed

text \<open>A log on which an append failed after the first four bytes of its record, and a record appended next.\<close>

definition torn_state :: PendingLog where
  "torn_state = snd (Append (io_good\<lparr>io_pw := (\<lambda>_. PwErr 4 ''ENOSPC'')\<rparr>)
     (PendingEntry_default\<lparr>pe_state := kRollback, pe_txn_id := 1\<rparr>)
     \<lparr>pl_path_file = log_image [], pl_detached = None, pl_synced = 32, pl_file_size = 32,
       pl_append_failures = 0, pl_shutdown = False\<rparr>)"

definition lost_entry :: "u64 \<Rightarrow> PendingEntry" where
  "lost_entry ts = PendingEntry_default\<lparr>pe_state := kCommitted, pe_txn_id := 2, pe_timestamp_ms := ts\<rparr>"

lemma Serialize_lost_entry:
  "Serialize (lost_entry ts) = (PutU32 27 @ [2] @ PutU64 2 @ PutU64 ts @ PutU16 0) @ PutU32 0 @
     PutU32 (Crc32 ([2] @ PutU64 2 @ PutU64 ts @ PutU16 0 @ PutU32 0))"
  by (simp add: Serialize_def frame_def pe_body_def lost_entry_def PutU8_def Let_def)

text \<open>The four bytes that end up in the place of the checksum are zero, for two entries of different checksums.\<close>

lemma lost_entry_crc:
  "\<exists>ts. GetU32 (drop 23 (Serialize (lost_entry ts))) \<noteq> Crc32 (take 23 (Serialize (lost_entry ts)))"
proof -
  let ?h = "\<lambda>ts. PutU32 27 @ [2] @ PutU64 2 @ PutU64 ts @ PutU16 0"
  have l: "length (?h ts) = 23" for ts by simp
  have tk: "take 23 (Serialize (lost_entry ts)) = ?h ts" "GetU32 (drop 23 (Serialize (lost_entry ts))) = 0" for ts
    unfolding Serialize_lost_entry using l[of ts] by simp_all
  have p: "PutU64 1 = (PutU64 0)[0 := 1]" "PutU64 0 ! 0 = 0"
    by (simp_all add: PutU64_def put_le_def upt_rec numeral_eq_Suc)
  have "?h 1 = (?h 0)[13 := 1]" "?h 0 ! 13 = 0"
    using p by (simp_all add: list_update_append nth_append)
  then have "Crc32 (?h 1) \<noteq> Crc32 (?h 0)" using Crc32_one_byte[of 13 "?h 0" 1] l[of 0] by simp
  then show ?thesis unfolding tk by metis
qed

lemma length_lost_entry: "length (Serialize (lost_entry ts)) = 31"
  by (simp add: Serialize_lost_entry)

lemma scan_behind_torn:
  assumes "GetU32 (drop 23 (Serialize (lost_entry ts))) \<noteq> Crc32 (take 23 (Serialize (lost_entry ts)))"
  shows "ScanRecords (log_image [] @ PutU32 27 @ Serialize (lost_entry ts)) = Some ([], 32)"
proof -
  let ?d = "log_image [] @ PutU32 27 @ Serialize (lost_entry ts)"
  have l: "length (log_image []) = 32" by (simp add: log_image_def)
  have dr: "drop 36 ?d = Serialize (lost_entry ts)" "drop 59 ?d = drop 23 (Serialize (lost_entry ts))"
    "drop 32 ?d = PutU32 27 @ Serialize (lost_entry ts)"
    by (simp_all add: l)
  have "DeserializeFrom ?d 32 = Some (Inl (corrupted ''CRC mismatch''))"
    using assms
    by (simp add: DeserializeFrom_def Let_def read_u32_def read_bytes_def dr l length_lost_entry del: drop_append)
  then show ?thesis
    unfolding ScanRecords_def using scan_from_stop[of 32 ?d DeserializeFrom] by (simp add: l length_lost_entry)
qed

text \<open>
  A failed append can take a later acknowledged one with it.  If \<open>pwrite\<close> fails after writing a part
  of a record, the bytes stay in the file; the next append reports \<open>Ok\<close> behind them, and the scan of the
  next start stops in front of them and drops the acknowledged record.
\<close>
theorem partial_write_loses_acked_record:
  "\<exists>ts st s'. Append io_good (lost_entry ts) torn_state = (st, s') \<and> ok st \<and> pl_synced s' = length (fd_file s') \<and>
     (\<exists>s2. pwl_ReadAll io_good s' = Some (Inr [], s2))"
proof -
  let ?e = "PendingEntry_default\<lparr>pe_state := kRollback, pe_txn_id := 1\<rparr>"
  have e: "take 4 (Serialize ?e) = PutU32 27" "length (Serialize ?e) = 31"
    by (simp_all add: Serialize_def frame_def length_pe_body)
  have ne: "Serialize ?e \<noteq> []" using e(2) by auto
  have t: "torn_state = \<lparr>pl_path_file = log_image [] @ PutU32 27, pl_detached = None, pl_synced = 32, pl_file_size = 32,
       pl_append_failures = 0, pl_shutdown = False\<rparr>"
    using e ne by (simp add: torn_state_def Append_def TryConsumeInjectedFault_def sink_flush_def pwl_write_batch_def
        WriteBatch_def Let_def fd_file_def set_fd_file_def pwrite_all_def)
  obtain ts where ts: "GetU32 (drop 23 (Serialize (lost_entry ts))) \<noteq> Crc32 (take 23 (Serialize (lost_entry ts)))"
    using lost_entry_crc by blast
  obtain st s' where a: "Append io_good (lost_entry ts) torn_state = (st, s')" by fastforce
  have ok: "ok st" using Append_good[of torn_state "lost_entry ts"] a by (simp add: t)
  note ao = Append_ok[OF a ok]
  have "fd_file s' = log_image [] @ PutU32 27 @ Serialize (lost_entry ts)" using ao(1) by (simp add: t)
  then have "\<exists>s2. pwl_ReadAll io_good s' = Some (Inr [], s2)"
    using scan_behind_torn[OF ts] by (simp add: pwl_ReadAll_def pwl_ReadFileLocked_def Let_def)
  with a ok ao(2) show ?thesis by blast
qed

end
