(* ===== verification/Write_Coordinator.thy ===== *)
theory Write_Coordinator
  imports Pending_Log
begin

text \<open>
  The write coordinator (\<^verbatim>\<open>include/cortrix/store/write_coordinator.h\<close>,
  \<^verbatim>\<open>src/store/write_coordinator.cpp\<close>): a document write is PENDING until it is COMMITTED or rolled back,
  each transition being a record of the pending write log.  \<open>BeginWrite\<close>, \<open>Commit\<close>, \<open>Rollback\<close> and
  \<open>Recover\<close> are composed from their critical sections the way the code composes them.  The stores that
  recovery consults and the rollback callback are code behind interfaces: they are parameters over a
  type of store states \<open>'w\<close>.  Retry delays only pass time and are left out.
\<close>

section \<open>State\<close>

record WriteCoordinatorConfig =
  cfg_commit_max_retries :: int
  cfg_compact_threshold :: int
  cfg_max_recovery_entries :: int
  cfg_strict_recovery :: bool

definition default_config :: WriteCoordinatorConfig where
  "default_config = \<lparr>cfg_commit_max_retries = 3, cfg_compact_threshold = 1000,
     cfg_max_recovery_entries = 10000, cfg_strict_recovery = False\<rparr>"

record TxnState =
  ts_state :: TxnPhase
  ts_doc_id :: bytes
  ts_block_ids :: "u64 list"
  ts_scope :: Scope

record Coordinator =
  wc_wal :: "PendingLog option"
  wc_next_txn_id :: u64
  wc_active_txns :: "u64 \<rightharpoonup> TxnState"
  wc_active_docs :: "bytes \<rightharpoonup> u64"
  wc_committed_since_compact :: u32

definition wc_new :: Coordinator where
  "wc_new = \<lparr>wc_wal = None, wc_next_txn_id = 1, wc_active_txns = Map.empty,
     wc_active_docs = Map.empty, wc_committed_since_compact = 0\<rparr>"

type_synonym 'w callback = "PendingEntry \<Rightarrow> 'w \<Rightarrow> Status \<times> 'w"

text \<open>The three membership questions of recovery; a null store pointer is \<open>None\<close>.\<close>

record 'w stores =
  vector_exists :: "('w \<Rightarrow> u64 \<Rightarrow> bool) option"
  block_exists :: "('w \<Rightarrow> u64 list \<Rightarrow> bool) option"
  blob_exists :: "('w \<Rightarrow> bytes \<Rightarrow> bool) option"

definition not_initialized :: Status where
  "not_initialized = PwlStatus kUnavailable pwl_kWriteFailed ''WriteCoordinator not initialized''"

lemma not_ok_not_initialized [simp, status]: "\<not> ok not_initialized"
  by (simp add: not_initialized_def)

section \<open>Init and BeginWrite\<close>

definition wc_Init :: "io_env \<Rightarrow> bytes \<Rightarrow> Coordinator \<Rightarrow> Status \<times> Coordinator \<times> bytes" where
  "wc_Init env f c = (case PendingLogWriter_Open env f of
     (Inl st, f') \<Rightarrow> (st, c, f')
   | (Inr wal, f') \<Rightarrow> (Status_Ok, c\<lparr>wc_wal := Some wal\<rparr>, f'))"

text \<open>First critical section: reject a busy document, else allocate the transaction.\<close>

definition bw_reserve :: "bytes \<Rightarrow> u64 list \<Rightarrow> Scope \<Rightarrow> Coordinator \<Rightarrow> Status + u64 \<times> Coordinator" where
  "bw_reserve doc ids scope c =
     (if wc_active_docs c doc \<noteq> None
      then Inl (PwlStatus kAlreadyExists pwl_kDocWriteInProgress
                  (''doc_id already has a live transaction: '' @ chars doc))
      else let txn = wc_next_txn_id c in
        Inr (txn, c\<lparr>wc_next_txn_id := txn + 1,
                    wc_active_txns := (wc_active_txns c)(txn \<mapsto>
                      \<lparr>ts_state = kPending, ts_doc_id = doc, ts_block_ids = ids, ts_scope = scope\<rparr>),
                    wc_active_docs := (wc_active_docs c)(doc \<mapsto> txn)\<rparr>))"

text \<open>Second critical section, on a failed append: undo the reservation.\<close>

definition bw_undo :: "u64 \<Rightarrow> bytes \<Rightarrow> Coordinator \<Rightarrow> Coordinator" where
  "bw_undo txn doc c = c\<lparr>wc_active_txns := (wc_active_txns c)(txn := None),
                         wc_active_docs := (wc_active_docs c)(doc := None)\<rparr>"

definition pending_record :: "u64 \<Rightarrow> u64 \<Rightarrow> bytes \<Rightarrow> u64 list \<Rightarrow> bool \<Rightarrow> Scope \<Rightarrow> PendingEntry" where
  "pending_record txn now doc ids writes_blob scope =
     \<lparr>pe_state = kPending, pe_txn_id = txn, pe_timestamp_ms = now, pe_doc_id = doc,
      pe_block_ids = ids, pe_has_blob = writes_blob, pe_scope = scope\<rparr>"

definition BeginWrite ::
  "io_env \<Rightarrow> u64 \<Rightarrow> bytes \<Rightarrow> u64 list \<Rightarrow> bool \<Rightarrow> Scope \<Rightarrow> Coordinator \<Rightarrow> Status \<times> u64 option \<times> Coordinator" where
  "BeginWrite env now doc ids writes_blob scope c =
     (case wc_wal c of
        None \<Rightarrow> (not_initialized, None, c)
      | Some wal \<Rightarrow>
          (case bw_reserve doc ids scope c of
             Inl st \<Rightarrow> (st, None, c)
           | Inr (txn, c1) \<Rightarrow>
               let (w, wal') = Append env (pending_record txn now doc ids writes_blob scope) wal;
                   c2 = c1\<lparr>wc_wal := Some wal'\<rparr>
               in if \<not> ok w
                  then (PwlStatus kUnavailable pwl_kWriteFailed (''append PENDING failed: '' @ message w),
                        None, bw_undo txn doc c2)
                  else (Status_Ok, Some txn, c2)))"

section \<open>Commit and Rollback\<close>

definition CheckAndMarkFinalizing :: "u64 \<Rightarrow> TxnPhase \<Rightarrow> Coordinator \<Rightarrow> Status + TxnState \<times> Coordinator" where
  "CheckAndMarkFinalizing txn new_state c =
     (case wc_active_txns c txn of
        None \<Rightarrow> Inl (PwlStatus kNotFound pwl_kTxnNotFound ''no such transaction'')
      | Some ts \<Rightarrow>
          (case ts_state ts of
             kCommitted \<Rightarrow> Inl (PwlStatus kAlreadyExists pwl_kTxnAlreadyCommitted
                                  ''transaction already committed'')
           | kRollback \<Rightarrow> Inl (PwlStatus kAlreadyExists pwl_kTxnAlreadyRollback
                                  ''transaction already rolled back'')
           | kPending \<Rightarrow> Inr (ts, c\<lparr>wc_active_txns := (wc_active_txns c)(txn \<mapsto>
                                  ts\<lparr>ts_state := new_state, ts_block_ids := []\<rparr>)\<rparr>)))"

definition release_doc :: "bytes \<Rightarrow> Coordinator \<Rightarrow> Coordinator" where
  "release_doc doc c = (if doc \<noteq> [] then c\<lparr>wc_active_docs := (wc_active_docs c)(doc := None)\<rparr> else c)"

definition terminal_record :: "TxnPhase \<Rightarrow> u64 \<Rightarrow> u64 \<Rightarrow> PendingEntry" where
  "terminal_record st txn now = PendingEntry_default\<lparr>pe_state := st, pe_txn_id := txn, pe_timestamp_ms := now\<rparr>"

text \<open>The retry loop: at most \<open>n\<close> attempts, the last status is kept.\<close>

fun append_retry ::
  "(nat \<Rightarrow> io_env) \<Rightarrow> nat \<Rightarrow> nat \<Rightarrow> PendingEntry \<Rightarrow> Status \<Rightarrow> PendingLog \<Rightarrow> Status \<times> PendingLog" where
  "append_retry envs i 0 e w s = (w, s)"
| "append_retry envs i (Suc n) e w s =
     (let (w', s') = Append (envs i) e s in
      if ok w' then (w', s') else append_retry envs (Suc i) n e w' s')"

text \<open>The section after a successful append: release the document and decide on compaction.\<close>

definition commit_done :: "WriteCoordinatorConfig \<Rightarrow> bytes \<Rightarrow> Coordinator \<Rightarrow> bool \<times> Coordinator" where
  "commit_done cfg doc c =
     (let c = release_doc doc c;
          n = wc_committed_since_compact c + 1;
          c = c\<lparr>wc_committed_since_compact := n\<rparr>
      in if cfg_compact_threshold cfg > 0 \<and> n \<ge> of_int (cfg_compact_threshold cfg)
         then (True, c\<lparr>wc_committed_since_compact := 0\<rparr>)
         else (False, c))"

definition drop_finalized :: "Coordinator \<Rightarrow> Coordinator" where
  "drop_finalized c = c\<lparr>wc_active_txns := (\<lambda>t. case wc_active_txns c t of
     Some ts \<Rightarrow> (if ts_state ts \<noteq> kPending then None else Some ts) | None \<Rightarrow> None)\<rparr>"

definition inline_compact :: "io_env \<Rightarrow> Coordinator \<Rightarrow> Coordinator option" where
  "inline_compact env c = (case wc_wal c of
     None \<Rightarrow> Some c
   | Some wal \<Rightarrow> do {
       (st, wal') \<leftarrow> Compact env wal;
       let c = c\<lparr>wc_wal := Some wal'\<rparr>;
       Some (if ok st then drop_finalized c else c) })"

definition Commit ::
  "WriteCoordinatorConfig \<Rightarrow> (nat \<Rightarrow> io_env) \<Rightarrow> io_env \<Rightarrow> u64 \<Rightarrow> u64 \<Rightarrow> Coordinator \<Rightarrow>
   (Status \<times> Coordinator) option" where
  "Commit cfg envs cenv now txn c =
     (case wc_wal c of
        None \<Rightarrow> Some (not_initialized, c)
      | Some wal \<Rightarrow>
          (case CheckAndMarkFinalizing txn kCommitted c of
             Inl st \<Rightarrow> Some (st, c)
           | Inr (orig, c1) \<Rightarrow>
               let (w, wal') = append_retry envs 0 (nat (cfg_commit_max_retries cfg + 1))
                                 (terminal_record kCommitted txn now) Status_Ok wal;
                   c2 = c1\<lparr>wc_wal := Some wal'\<rparr>
               in if \<not> ok w
                  then Some (PwlStatus kUnavailable pwl_kWriteFailed
                               (''append COMMITTED failed after retries: '' @ message w),
                             release_doc (ts_doc_id orig) c2)
                  else let (do_compact, c3) = commit_done cfg (ts_doc_id orig) c2 in
                    if do_compact
                    then map_option (\<lambda>c4. (Status_Ok, c4)) (inline_compact cenv c3)
                    else Some (Status_Ok, c3)))"

definition rollback_payload :: "u64 \<Rightarrow> TxnState \<Rightarrow> PendingEntry" where
  "rollback_payload txn ts = PendingEntry_default\<lparr>pe_state := kPending, pe_txn_id := txn,
     pe_doc_id := ts_doc_id ts, pe_block_ids := ts_block_ids ts, pe_scope := ts_scope ts\<rparr>"

definition Rollback ::
  "io_env \<Rightarrow> u64 \<Rightarrow> 'w callback option \<Rightarrow> u64 \<Rightarrow> Coordinator \<Rightarrow> 'w \<Rightarrow> Status \<times> Coordinator \<times> 'w" where
  "Rollback env now cb txn c w =
     (case wc_wal c of
        None \<Rightarrow> (not_initialized, c, w)
      | Some wal \<Rightarrow>
          (case CheckAndMarkFinalizing txn kRollback c of
             Inl st \<Rightarrow> (st, c, w)
           | Inr (orig, c1) \<Rightarrow>
               let (st, wal') = Append env (terminal_record kRollback txn now) wal;
                   c2 = c1\<lparr>wc_wal := Some wal'\<rparr>
               in if \<not> ok st
                  then (PwlStatus kUnavailable pwl_kWriteFailed (''append ROLLBACK failed: '' @ message st), c2, w)
                  else let c3 = release_doc (ts_doc_id orig) c2 in
                    case cb of None \<Rightarrow> (Status_Ok, c3, w)
                    | Some f \<Rightarrow>
                        let (r, w') = f (rollback_payload txn orig) w in
                        if \<not> ok r
                        then (PwlStatus kInternal pwl_kRollbackCallbackFailed
                                (''rollback callback failed: '' @ message r), c3, w')
                        else (Status_Ok, c3, w')))"

definition wc_GetStats :: "io_env \<Rightarrow> Coordinator \<Rightarrow> (Status + WalStats) option" where
  "wc_GetStats env c = (case wc_wal c of None \<Rightarrow> Some (Inl not_initialized) | Some wal \<Rightarrow> pwl_GetStats env wal)"

definition GetPwlSizeBytes :: "Coordinator \<Rightarrow> nat" where
  "GetPwlSizeBytes c = (case wc_wal c of None \<Rightarrow> 0 | Some wal \<Rightarrow> SizeBytes wal)"

section \<open>Recover\<close>

record TxnRecord =
  tr_has_pending :: bool
  tr_has_committed :: bool
  tr_has_rollback :: bool
  tr_pending :: PendingEntry

definition TxnRecord_default :: TxnRecord where
  "TxnRecord_default = \<lparr>tr_has_pending = False, tr_has_committed = False, tr_has_rollback = False,
     tr_pending = PendingEntry_default\<rparr>"

definition note_entry :: "PendingEntry \<Rightarrow> (u64 \<rightharpoonup> TxnRecord) \<Rightarrow> (u64 \<rightharpoonup> TxnRecord)" where
  "note_entry e m =
     (let r = (case m (pe_txn_id e) of None \<Rightarrow> TxnRecord_default | Some r \<Rightarrow> r)
      in m(pe_txn_id e \<mapsto> (case pe_state e of
             kPending \<Rightarrow> r\<lparr>tr_has_pending := True, tr_pending := e\<rparr>
           | kCommitted \<Rightarrow> r\<lparr>tr_has_committed := True\<rparr>
           | kRollback \<Rightarrow> r\<lparr>tr_has_rollback := True\<rparr>)))"

definition group_entries :: "PendingEntry list \<Rightarrow> (u64 \<rightharpoonup> TxnRecord)" where
  "group_entries es = fold note_entry es Map.empty"

definition max_txn_id :: "PendingEntry list \<Rightarrow> u64" where
  "max_txn_id es = fold (\<lambda>e m. max m (pe_txn_id e)) es 0"

definition AllStoresHave ::
  "('w \<Rightarrow> u64 \<Rightarrow> bool) \<Rightarrow> ('w \<Rightarrow> u64 list \<Rightarrow> bool) \<Rightarrow> ('w \<Rightarrow> bytes \<Rightarrow> bool) \<Rightarrow> 'w \<Rightarrow> PendingEntry \<Rightarrow> bool" where
  "AllStoresHave vec blk blob w p \<longleftrightarrow>
     \<not> (pe_has_blob p \<and> \<not> blob w (pe_doc_id p)) \<and>
     \<not> (pe_block_ids p \<noteq> [] \<and> \<not> blk w (pe_block_ids p)) \<and>
     (\<forall>b\<in>set (pe_block_ids p). vec w b)"

definition recover_payload :: "u64 \<Rightarrow> TxnRecord \<Rightarrow> PendingEntry" where
  "recover_payload txn r =
     (if tr_has_pending r then tr_pending r else PendingEntry_default)\<lparr>pe_state := kPending, pe_txn_id := txn\<rparr>"

text \<open>
  One iteration of the resolution loop: \<open>Inl\<close> aborts a strict recovery.  \<open>present\<close> is the answer of the
  three-way check.
\<close>

definition resolve_txn ::
  "WriteCoordinatorConfig \<Rightarrow> ('w \<Rightarrow> PendingEntry \<Rightarrow> bool) \<Rightarrow> 'w callback option \<Rightarrow> io_env \<Rightarrow> u64 \<Rightarrow>
   u64 \<Rightarrow> TxnRecord \<Rightarrow> PendingLog \<Rightarrow> 'w \<Rightarrow> Status option \<times> PendingLog \<times> 'w" where
  "resolve_txn cfg have_all cb env now txn r wal w =
     (if tr_has_committed r then (None, wal, w)
      else
        let (needs_cleanup, infer_committed) =
              (if tr_has_rollback r then (True, False)
               else if tr_has_pending r then (\<not> have_all w (tr_pending r), have_all w (tr_pending r))
               else (False, False));
            (cbst, w') = (case cb of
               Some f \<Rightarrow> if needs_cleanup then f (recover_payload txn r) w else (Status_Ok, w)
             | None \<Rightarrow> (Status_Ok, w))
        in if \<not> ok cbst \<and> cfg_strict_recovery cfg
           then (Some (PwlStatus kInternal pwl_kRecoveryFailed
                   (''strict recovery: cleanup failed for txn '' @ to_string (unat txn) @ '': '' @ message cbst)), wal, w')
           else if tr_has_pending r \<and> \<not> tr_has_rollback r
           then let (st, wal') = Append env
                      (terminal_record (if infer_committed then kCommitted else kRollback) txn now) wal
                in if \<not> ok st \<and> cfg_strict_recovery cfg
                   then (Some (PwlStatus kInternal pwl_kRecoveryFailed
                           (''strict recovery: failed to finalize txn '' @ to_string (unat txn) @ '': '' @ message st)), wal', w')
                   else (None, wal', w')
           else (None, wal, w'))"

text \<open>The loop over the hash map, in the iteration order \<open>order\<close> the library chooses.\<close>

fun resolve_all ::
  "WriteCoordinatorConfig \<Rightarrow> ('w \<Rightarrow> PendingEntry \<Rightarrow> bool) \<Rightarrow> 'w callback option \<Rightarrow> (nat \<Rightarrow> io_env) \<Rightarrow> u64 \<Rightarrow>
   (u64 \<rightharpoonup> TxnRecord) \<Rightarrow> u64 list \<Rightarrow> nat \<Rightarrow> PendingLog \<Rightarrow> 'w \<Rightarrow> Status option \<times> PendingLog \<times> 'w" where
  "resolve_all cfg have_all cb envs now by_txn [] i wal w = (None, wal, w)"
| "resolve_all cfg have_all cb envs now by_txn (t # ts) i wal w =
     (case by_txn t of
        None \<Rightarrow> resolve_all cfg have_all cb envs now by_txn ts i wal w
      | Some r \<Rightarrow>
          (case resolve_txn cfg have_all cb (envs i) now t r wal w of
             (Some st, wal', w') \<Rightarrow> (Some st, wal', w')
           | (None, wal', w') \<Rightarrow> resolve_all cfg have_all cb envs now by_txn ts (Suc i) wal' w'))"

definition reset_tables :: "u64 \<Rightarrow> Coordinator \<Rightarrow> Coordinator" where
  "reset_tables max_txn c = c\<lparr>wc_next_txn_id := max_txn + 1, wc_active_txns := Map.empty,
     wc_active_docs := Map.empty, wc_committed_since_compact := 0\<rparr>"

definition Recover ::
  "WriteCoordinatorConfig \<Rightarrow> 'w stores \<Rightarrow> 'w callback option \<Rightarrow> io_env \<Rightarrow> (nat \<Rightarrow> io_env) \<Rightarrow> io_env \<Rightarrow> u64 \<Rightarrow>
   u64 list \<Rightarrow> Coordinator \<Rightarrow> 'w \<Rightarrow> (Status \<times> Coordinator \<times> 'w) option" where
  "Recover cfg stores cb renv envs cenv now order c w =
     (case wc_wal c of
        None \<Rightarrow> Some (not_initialized, c, w)
      | Some wal \<Rightarrow>
          (case (vector_exists stores, block_exists stores, blob_exists stores) of
             (Some vec, Some blk, Some blob) \<Rightarrow> do {
               (res, wal1) \<leftarrow> pwl_ReadAll renv wal;
               (case res of
                  Inl st \<Rightarrow> Some (st, c\<lparr>wc_wal := Some wal1\<rparr>, w)
                | Inr entries \<Rightarrow>
                    if int (length entries) > cfg_max_recovery_entries cfg
                    then Some (PwlStatus kInternal pwl_kRecoveryFailed
                                 ''pending.wal record count exceeds max_recovery_entries'',
                               c\<lparr>wc_wal := Some wal1\<rparr>, w)
                    else
                      (case resolve_all cfg (AllStoresHave vec blk blob) cb envs now
                              (group_entries entries) order 0 wal1 w of
                         (Some st, wal2, w2) \<Rightarrow> Some (st, c\<lparr>wc_wal := Some wal2\<rparr>, w2)
                       | (None, wal2, w2) \<Rightarrow> do {
                           (st, wal3) \<leftarrow> Compact cenv wal2;
                           let c3 = c\<lparr>wc_wal := Some wal3\<rparr>;
                           Some (if \<not> ok st then (st, c3, w2)
                                 else (Status_Ok, reset_tables (max_txn_id entries) c3, w2)) })) }
           | _ \<Rightarrow> Some (PwlStatus kInvalidArgument pwl_kRecoveryFailed
                          ''Recover requires vector/metadata/blob stores'', c, w)))"

section \<open>Grouping\<close>

lemma group_entries_Nil [simp]: "group_entries [] = Map.empty"
  by (simp add: group_entries_def)

lemma group_entries_snoc [simp]: "group_entries (es @ [e]) = note_entry e (group_entries es)"
  by (simp add: group_entries_def)

text \<open>Whether the log holds a record of transaction \<open>x\<close> in phase \<open>p\<close>.\<close>

definition has_record :: "PendingEntry list \<Rightarrow> u64 \<Rightarrow> TxnPhase \<Rightarrow> bool" where
  "has_record es x p \<longleftrightarrow> (\<exists>e\<in>set es. pe_txn_id e = x \<and> pe_state e = p)"

lemma has_record_append [simp]: "has_record (es @ fs) x p \<longleftrightarrow> has_record es x p \<or> has_record fs x p"
  by (auto simp: has_record_def)

lemma has_record_simps [simp]:
  "\<not> has_record [] x p" "has_record (e # es) x p \<longleftrightarrow> pe_txn_id e = x \<and> pe_state e = p \<or> has_record es x p"
  by (auto simp: has_record_def)

lemma dom_group_entries [simp]: "dom (group_entries es) = pe_txn_id ` set es"
proof (induction es rule: rev_induct)
  case (snoc e es)
  have "dom (note_entry e m) = insert (pe_txn_id e) (dom m)" for m by (simp add: note_entry_def Let_def)
  with snoc show ?case by simp
qed simp

lemma group_entries_sel:
  assumes "group_entries es x = Some r"
  shows "tr_has_pending r \<longleftrightarrow> has_record es x kPending" "tr_has_committed r \<longleftrightarrow> has_record es x kCommitted"
    "tr_has_rollback r \<longleftrightarrow> has_record es x kRollback"
    "tr_has_pending r \<Longrightarrow> tr_pending r \<in> set es \<and> pe_txn_id (tr_pending r) = x \<and> pe_state (tr_pending r) = kPending"
proof -
  have "(tr_has_pending r \<longleftrightarrow> has_record es x kPending) \<and> (tr_has_committed r \<longleftrightarrow> has_record es x kCommitted) \<and>
    (tr_has_rollback r \<longleftrightarrow> has_record es x kRollback) \<and>
    (tr_has_pending r \<longrightarrow> tr_pending r \<in> set es \<and> pe_txn_id (tr_pending r) = x \<and> pe_state (tr_pending r) = kPending)"
    using assms
  proof (induction es arbitrary: r rule: rev_induct)
    case Nil
    then show ?case by simp
  next
    case (snoc e es)
    show ?case
    proof (cases "pe_txn_id e = x")
      case False
      then have "group_entries es x = Some r" using snoc.prems by (auto simp: note_entry_def Let_def)
      with snoc.IH False show ?thesis by auto
    next
      case True
      define q where "q = (case group_entries es x of None \<Rightarrow> TxnRecord_default | Some r \<Rightarrow> r)"
      have none: "group_entries es x = None \<Longrightarrow> \<not> has_record es x p" for p
        using dom_group_entries[of es] by (auto simp: has_record_def domIff simp del: dom_group_entries)
      have q: "(tr_has_pending q \<longleftrightarrow> has_record es x kPending) \<and> (tr_has_committed q \<longleftrightarrow> has_record es x kCommitted) \<and>
        (tr_has_rollback q \<longleftrightarrow> has_record es x kRollback) \<and>
        (tr_has_pending q \<longrightarrow> tr_pending q \<in> set es \<and> pe_txn_id (tr_pending q) = x \<and> pe_state (tr_pending q) = kPending)"
        using snoc.IH none by (auto simp: q_def TxnRecord_default_def split: option.splits)
      have "r = (case pe_state e of kPending \<Rightarrow> q\<lparr>tr_has_pending := True, tr_pending := e\<rparr>
           | kCommitted \<Rightarrow> q\<lparr>tr_has_committed := True\<rparr> | kRollback \<Rightarrow> q\<lparr>tr_has_rollback := True\<rparr>)"
        using snoc.prems unfolding q_def True[symmetric] by (simp add: note_entry_def Let_def)
      then show ?thesis using q True by (cases "pe_state e") auto
    qed
  qed
  then show "tr_has_pending r \<longleftrightarrow> has_record es x kPending" "tr_has_committed r \<longleftrightarrow> has_record es x kCommitted"
    "tr_has_rollback r \<longleftrightarrow> has_record es x kRollback"
    "tr_has_pending r \<Longrightarrow> tr_pending r \<in> set es \<and> pe_txn_id (tr_pending r) = x \<and> pe_state (tr_pending r) = kPending"
    by blast+
qed

lemma below_next_id: "x \<le> m \<Longrightarrow> m \<noteq> - 1 \<Longrightarrow> x < m + 1" for x m :: u64
  by (metis inc_less_eq_iff leD leI)

lemma max_txn_id_ge: "e \<in> set es \<Longrightarrow> pe_txn_id e \<le> max_txn_id es"
proof (induction es rule: rev_induct)
  case (snoc f es)
  then show ?case by (auto simp: max_txn_id_def max_def dest: order_trans)
qed simp

section \<open>What recovery does to the stores\<close>

text \<open>
  Recovery cleans up after \<open>x\<close>: rolled back, or pending with data missing from a store.  The cleanup gets the pending record of
  the transaction, or an empty one.
\<close>

definition undone :: "('w \<Rightarrow> PendingEntry \<Rightarrow> bool) \<Rightarrow> PendingEntry list \<Rightarrow> 'w \<Rightarrow> u64 \<Rightarrow> PendingEntry \<Rightarrow> bool" where
  "undone have_all es w x p \<longleftrightarrow> \<not> has_record es x kCommitted \<and> pe_txn_id p = x \<and>
     (p \<in> set es \<or> pe_block_ids p = [] \<and> pe_doc_id p = []) \<and>
     (has_record es x kRollback \<or>
      (\<exists>e\<in>set es. pe_txn_id e = x \<and> pe_state e = kPending \<and> \<not> have_all w e \<and> p = e))"

lemma resolve_txn_keeps:
  assumes "resolve_txn cfg have_all cb env now x r wal w = (res, wal', w')" "group_entries es x = Some r" "P w"
    and step: "\<And>f p. cb = Some f \<Longrightarrow> undone have_all es w x p \<Longrightarrow> P (snd (f p w))"
  shows "P w'"
proof (cases "cb \<noteq> None \<and> \<not> tr_has_committed r \<and>
    (tr_has_rollback r \<or> tr_has_pending r \<and> \<not> have_all w (tr_pending r))")
  case True
  then obtain f where f: "cb = Some f" by blast
  have "undone have_all es w x (recover_payload x r)"
  proof -
    have pl: "recover_payload x r = tr_pending r" if "tr_has_pending r"
      using group_entries_sel(4)[OF assms(2) that] that by (simp add: recover_payload_def)
    have "pe_txn_id (recover_payload x r) = x" "tr_has_pending r \<or> pe_block_ids (recover_payload x r) = [] \<and> pe_doc_id (recover_payload x r) = []"
      by (simp_all add: recover_payload_def PendingEntry_default_def)
    then show ?thesis
      using True group_entries_sel[OF assms(2)] pl unfolding undone_def by metis
  qed
  with step f have "P (snd (f (recover_payload x r) w))" by blast
  moreover have "w' = snd (f (recover_payload x r) w)"
    using assms(1) True f by (auto simp: resolve_txn_def Let_def split: prod.splits if_splits)
  ultimately show ?thesis by simp
next
  case False
  then have "w' = w"
    using assms(1) by (auto simp: resolve_txn_def Let_def split: prod.splits if_splits option.splits)
  with assms(3) show ?thesis by simp
qed

lemma resolve_all_keeps:
  assumes "resolve_all cfg have_all cb envs now (group_entries es) order i wal w = (res, wal', w')" "P w"
    and step: "\<And>f w x p. cb = Some f \<Longrightarrow> P w \<Longrightarrow> undone have_all es w x p \<Longrightarrow> P (snd (f p w))"
  shows "P w'"
  using assms(1,2)
proof (induction order arbitrary: i wal w)
  case (Cons x order)
  show ?case
  proof (cases "group_entries es x")
    case None
    with Cons show ?thesis by simp
  next
    case (Some r)
    obtain q wal1 w1 where r: "resolve_txn cfg have_all cb (envs i) now x r wal w = (q, wal1, w1)"
      using prod_cases3 by blast
    have "P w1" by (rule resolve_txn_keeps[where P = P, OF r Some Cons.prems(2)]) (rule step[OF _ Cons.prems(2)])
    with Cons Some r show ?thesis by (auto split: option.splits)
  qed
qed simp


text \<open>The callback runs only for transactions that recovery has to undo.\<close>

lemma Recover_keeps:
  assumes "Recover cfg stores cb renv envs cenv now order c w = Some (st, c', w')" "P w"
    and "wc_wal c = Some wal" "pwl_ReadAll renv wal = Some (Inr es, wal1)"
    and stores: "vector_exists stores = Some vec" "block_exists stores = Some blk" "blob_exists stores = Some blob"
    and step: "\<And>f w x p. cb = Some f \<Longrightarrow> P w \<Longrightarrow> undone (AllStoresHave vec blk blob) es w x p \<Longrightarrow> P (snd (f p w))"
  shows "P w'"
proof -
  obtain res wal2 w2 where ra: "resolve_all cfg (AllStoresHave vec blk blob) cb envs now
      (group_entries es) order 0 wal1 w = (res, wal2, w2)"
    using prod_cases3 by blast
  have "P w2"
    by (rule resolve_all_keeps[where P = P, OF ra assms(2)]) (rule step)
  moreover have "w' = w \<or> w' = w2"
    using assms(1,3,4) stores ra
    by (auto simp: Recover_def bind_eq_Some_conv Let_def split: if_splits option.splits)
  ultimately show ?thesis using assms(2) by blast
qed

section \<open>A recovery that goes through\<close>

text \<open>The appends of a recovery that meets no write error.\<close>

definition finalizer :: "('w \<Rightarrow> PendingEntry \<Rightarrow> bool) \<Rightarrow> 'w \<Rightarrow> u64 \<Rightarrow> TxnRecord \<Rightarrow> u64 \<Rightarrow> PendingEntry list" where
  "finalizer have_all w x r now =
     (if \<not> tr_has_committed r \<and> tr_has_pending r \<and> \<not> tr_has_rollback r
      then [terminal_record (if have_all w (tr_pending r) then kCommitted else kRollback) x now] else [])"

lemma terminal_record_sel [simp]:
  "pe_state (terminal_record st x now) = st" "pe_txn_id (terminal_record st x now) = x"
  by (simp_all add: terminal_record_def)

lemma terminal_storable: "st \<noteq> kPending \<Longrightarrow> entry_fits (terminal_record st x now) \<and>
    carried (terminal_record st x now) = terminal_record st x now"
  by (simp add: terminal_record_def entry_fits_def carried_def PendingEntry_default_def)

definition writable :: "PendingLog \<Rightarrow> bool" where
  "writable s \<longleftrightarrow> pl_append_failures s \<le> 0 \<and> \<not> pl_shutdown s"

lemma Append_good_clean:
  assumes "clean s es" "writable s" "entry_fits e"
  shows "\<exists>st s'. Append io_good e s = (st, s') \<and> ok st \<and> clean s' (es @ [carried e]) \<and> writable s'"
proof -
  obtain st s' where a: "Append io_good e s = (st, s')" by (cases "Append io_good e s")
  have ok: "ok st" using Append_good[of s e] assms(2) a by (simp add: writable_def)
  have "writable s'"
    using a assms(2) pwl_flush(5)[of io_good "[Serialize e]" s st s']
    by (auto simp: Append_def TryConsumeInjectedFault_def writable_def Let_def split: if_splits)
  with a ok Append_clean[OF assms(1,3) a ok] show ?thesis by blast
qed

lemma resolve_txn_good:
  assumes "clean wal es" "writable wal" "\<not> cfg_strict_recovery cfg"
  shows "\<exists>wal' w'. resolve_txn cfg have_all cb io_good now x r wal w = (None, wal', w') \<and>
    clean wal' (es @ finalizer have_all w x r now) \<and> writable wal'"
proof (cases "\<not> tr_has_committed r \<and> tr_has_pending r \<and> \<not> tr_has_rollback r")
  case True
  let ?t = "terminal_record (if have_all w (tr_pending r) then kCommitted else kRollback) x now"
  have "entry_fits ?t" "carried ?t = ?t" using terminal_storable by auto
  with Append_good_clean[OF assms(1,2)] obtain st wal' where
    "Append io_good ?t wal = (st, wal')" "ok st" "clean wal' (es @ [?t])" "writable wal'" by metis
  with True assms(3) show ?thesis
    by (auto simp: resolve_txn_def finalizer_def Let_def split: prod.splits option.splits)
next
  case False
  with assms show ?thesis
    by (auto simp: resolve_txn_def finalizer_def Let_def split: prod.splits option.splits)
qed

lemma finalizer_settles:
  "tr_has_pending r \<Longrightarrow> tr_has_committed r \<or> tr_has_rollback r \<or> x \<in> finalized (finalizer have_all w x r now)"
  by (auto simp: finalizer_def finalized_def)

lemma finalizer_no_pending [simp]: "\<not> has_record (finalizer have_all w x r now) y kPending"
  by (auto simp: finalizer_def)

lemma finalized_append [simp]: "finalized (es @ fs) = finalized es \<union> finalized fs"
  by (auto simp: finalized_def)

lemma finalized_has_record: "x \<in> finalized es \<longleftrightarrow> has_record es x kCommitted \<or> has_record es x kRollback"
  by (auto simp: finalized_def has_record_def)

lemma resolve_all_good:
  assumes "clean wal ls" "writable wal" "\<not> cfg_strict_recovery cfg"
    and "\<forall>x\<in>set order. x \<in> pe_txn_id ` set es" "\<forall>x p. has_record es x p \<longrightarrow> has_record ls x p"
  shows "\<exists>wal' w' fs. resolve_all cfg have_all cb (\<lambda>_. io_good) now (group_entries es) order i wal w = (None, wal', w') \<and>
    clean wal' (ls @ fs) \<and> writable wal' \<and> (\<forall>x. \<not> has_record fs x kPending) \<and>
    (\<forall>x\<in>set order. has_record es x kPending \<longrightarrow> x \<in> finalized (ls @ fs))"
  using assms(1,2,4,5)
proof (induction order arbitrary: i wal w ls)
  case Nil
  then show ?case by (auto intro: exI[of _ "[]"])
next
  case (Cons x order)
  then have "x \<in> dom (group_entries es)" by simp
  then obtain r where r: "group_entries es x = Some r" by blast
  obtain wal1 w1 where s1: "resolve_txn cfg have_all cb io_good now x r wal w = (None, wal1, w1)"
    "clean wal1 (ls @ finalizer have_all w x r now)" "writable wal1"
    using resolve_txn_good[OF Cons.prems(1,2) assms(3), where x = x and r = r and w = w and cb = cb
        and have_all = have_all and now = now] by blast
  let ?f = "finalizer have_all w x r now"
  from Cons.IH[OF s1(2,3), of "Suc i" w1] Cons.prems(3,4) obtain wal' w' fs where s2:
    "resolve_all cfg have_all cb (\<lambda>_. io_good) now (group_entries es) order (Suc i) wal1 w1 = (None, wal', w')"
    "clean wal' ((ls @ ?f) @ fs)" "writable wal'" "\<forall>x. \<not> has_record fs x kPending"
    "\<forall>x\<in>set order. has_record es x kPending \<longrightarrow> x \<in> finalized ((ls @ ?f) @ fs)" by fastforce
  have "x \<in> finalized (ls @ ?f @ fs)" if "has_record es x kPending"
    using finalizer_settles[of r x have_all w now] group_entries_sel[OF r] that Cons.prems(4)
    by (auto simp: finalized_has_record)
  with s1 s2 r show ?case by (intro exI[of _ wal'] exI[of _ w'] exI[of _ "?f @ fs"]) auto
qed

lemma live_Nil_iff: "live es = [] \<longleftrightarrow> (\<forall>x. has_record es x kPending \<longrightarrow> x \<in> finalized es)"
  by (auto simp: live_def has_record_def filter_empty_conv)

lemma Recover_good:
  assumes c: "wc_wal c = Some wal" "clean wal es" "writable wal" and nostrict: "\<not> cfg_strict_recovery cfg"
    and small: "int (length es) \<le> cfg_max_recovery_entries cfg"
    and order: "set order = pe_txn_id ` set es"
    and stores: "vector_exists stores = Some vec" "block_exists stores = Some blk" "blob_exists stores = Some blob"
  shows "\<exists>c' w' wal'. Recover cfg stores cb io_good (\<lambda>_. io_good) io_good now order c w = Some (Status_Ok, c', w') \<and>
    wc_wal c' = Some wal' \<and> clean wal' [] \<and> pl_synced wal' = length (log_image []) \<and>
    wc_active_txns c' = Map.empty \<and> wc_active_docs c' = Map.empty \<and> wc_committed_since_compact c' = 0 \<and>
    wc_next_txn_id c' = max_txn_id es + 1"
proof -
  have rd: "pwl_ReadAll io_good wal = Some (Inr es, wal)" using ReadAll_clean[OF c(2)] by simp
  obtain wal2 w2 fs where ra: "resolve_all cfg (AllStoresHave vec blk blob) cb (\<lambda>_. io_good) now
      (group_entries es) order 0 wal w = (None, wal2, w2)" and cl: "clean wal2 (es @ fs)"
    and np: "\<forall>x. \<not> has_record fs x kPending"
    and fin: "\<forall>x\<in>set order. has_record es x kPending \<longrightarrow> x \<in> finalized (es @ fs)"
    using resolve_all_good[OF c(2,3) nostrict, where order = order and es = es and i = 0 and w = w
        and cb = cb and have_all = "AllStoresHave vec blk blob" and now = now] order by auto
  obtain st wal3 where co: "Compact io_good wal2 = Some (st, wal3)" "ok st" using Compact_good[OF cl] by blast
  have "has_record es x kPending \<Longrightarrow> x \<in> set order" for x using order by (auto simp: has_record_def)
  then have "live (es @ fs) = []" using fin np unfolding live_Nil_iff by (auto simp del: finalized_append)
  with Compact_clean[OF cl _ co] have "clean wal3 []" "pl_synced wal3 = length (log_image [])" by simp_all
  then show ?thesis
    using c(1) stores rd small ra co by (simp add: Recover_def reset_tables_def Let_def)
qed

section \<open>Finalizing at most once\<close>

lemma CheckAndMark_Inr:
  "CheckAndMarkFinalizing x p c = Inr (orig, c') \<longleftrightarrow>
     wc_active_txns c x = Some orig \<and> ts_state orig = kPending \<and>
     c' = c\<lparr>wc_active_txns := (wc_active_txns c)(x \<mapsto> orig\<lparr>ts_state := p, ts_block_ids := []\<rparr>)\<rparr>"
  by (auto simp: CheckAndMarkFinalizing_def split: option.splits TxnPhase.splits)

lemma CheckAndMark_Inl: "CheckAndMarkFinalizing x p c = Inl st \<Longrightarrow> \<not> ok st"
  by (auto simp: CheckAndMarkFinalizing_def split: option.splits TxnPhase.splits)

lemma CheckAndMark_not_pending:
  "(\<forall>ts. wc_active_txns c x = Some ts \<longrightarrow> ts_state ts \<noteq> kPending) \<Longrightarrow>
     \<exists>st. CheckAndMarkFinalizing x p c = Inl st \<and> code st \<in> {kNotFound, kAlreadyExists}"
  by (auto simp: CheckAndMarkFinalizing_def PwlStatus_def CodedStatus_def StatusOf_def
      split: option.splits TxnPhase.splits)

lemma release_doc_sel [simp]:
  "wc_active_txns (release_doc d c) = wc_active_txns c" "wc_wal (release_doc d c) = wc_wal c"
  "wc_next_txn_id (release_doc d c) = wc_next_txn_id c"
  "wc_active_docs (release_doc d c) = (if d = [] then wc_active_docs c else (wc_active_docs c)(d := None))"
  by (simp_all add: release_doc_def)

lemma commit_done_sel:
  assumes "commit_done cfg d c = (b, c')"
  shows "wc_active_txns c' = wc_active_txns c" "wc_wal c' = wc_wal c" "wc_next_txn_id c' = wc_next_txn_id c"
    "wc_active_docs c' = wc_active_docs (release_doc d c)"
  using assms by (auto simp: commit_done_def Let_def split: if_splits)

lemma inline_compact_sel:
  assumes "inline_compact env c = Some c'"
  shows "wc_active_docs c' = wc_active_docs c" "wc_next_txn_id c' = wc_next_txn_id c"
    "wc_active_txns c' x = wc_active_txns c x \<or>
       wc_active_txns c' x = None \<and> (\<forall>ts. wc_active_txns c x = Some ts \<longrightarrow> ts_state ts \<noteq> kPending)"
    "wc_wal c' = None \<longleftrightarrow> wc_wal c = None"
  using assms
  by (auto simp: inline_compact_def drop_finalized_def bind_eq_Some_conv Let_def
      split: option.splits if_splits)

lemma inline_compact_total: "\<exists>c'. inline_compact env c = Some c'"
proof (cases "wc_wal c")
  case (Some wal)
  obtain st wal' where "Compact env wal = Some (st, wal')" using Compact_total[of env wal] by auto
  with Some show ?thesis by (simp add: inline_compact_def Let_def)
qed (simp add: inline_compact_def)

lemma Commit_total: "\<exists>r. Commit cfg envs cenv now x c = Some r"
proof -
  have "\<exists>c'. inline_compact cenv c2 = Some c'" for c2 by (rule inline_compact_total)
  then show ?thesis
    by (auto simp: Commit_def Let_def split: option.splits sum.splits prod.splits)
qed


text \<open>The three ways a commit that passed the check ends.\<close>

lemma Commit_cases:
  assumes "wc_wal c = Some wal" "CheckAndMarkFinalizing x kCommitted c = Inr (orig, c0)"
    and "Commit cfg envs cenv now x c = Some (st, c1)"
  obtains w wal' where "append_retry envs 0 (nat (cfg_commit_max_retries cfg + 1)) (terminal_record kCommitted x now)
        Status_Ok wal = (w, wal')" "\<not> ok w" "\<not> ok st" "c1 = release_doc (ts_doc_id orig) (c0\<lparr>wc_wal := Some wal'\<rparr>)"
    | w wal' where "append_retry envs 0 (nat (cfg_commit_max_retries cfg + 1)) (terminal_record kCommitted x now)
        Status_Ok wal = (w, wal')" "ok w" "st = Status_Ok"
        "commit_done cfg (ts_doc_id orig) (c0\<lparr>wc_wal := Some wal'\<rparr>) = (False, c1)"
    | w wal' c3 where "append_retry envs 0 (nat (cfg_commit_max_retries cfg + 1)) (terminal_record kCommitted x now)
        Status_Ok wal = (w, wal')" "ok w" "st = Status_Ok"
        "commit_done cfg (ts_doc_id orig) (c0\<lparr>wc_wal := Some wal'\<rparr>) = (True, c3)" "inline_compact cenv c3 = Some c1"
proof -
  obtain w wal' where ar: "append_retry envs 0 (nat (cfg_commit_max_retries cfg + 1))
      (terminal_record kCommitted x now) Status_Ok wal = (w, wal')" by fastforce
  obtain b c3 where cd: "commit_done cfg (ts_doc_id orig) (c0\<lparr>wc_wal := Some wal'\<rparr>) = (b, c3)" by fastforce
  show thesis
  proof (cases "ok w")
    case False
    with assms ar that(1) show thesis by (auto simp: Commit_def Let_def)
  next
    case True
    with assms ar cd that(2,3) show thesis by (cases b) (auto simp: Commit_def Let_def)
  qed
qed

text \<open>Once a call has tried to finalize a transaction, the transaction is not PENDING any more.\<close>

definition settled :: "Coordinator \<Rightarrow> u64 \<Rightarrow> bool" where
  "settled c x \<longleftrightarrow> wc_wal c \<noteq> None \<and> (\<forall>ts. wc_active_txns c x = Some ts \<longrightarrow> ts_state ts \<noteq> kPending)"

lemma settled_if_rejected:
  "wc_wal c \<noteq> None \<Longrightarrow> CheckAndMarkFinalizing x p c = Inl s \<Longrightarrow> settled c x"
  by (auto simp: CheckAndMarkFinalizing_def settled_def split: option.splits TxnPhase.splits)

lemma settled_release [simp]: "settled (release_doc d c) x \<longleftrightarrow> settled c x"
  by (simp add: settled_def)

lemma settled_marked:
  "CheckAndMarkFinalizing x p c = Inr (orig, c0) \<Longrightarrow> p \<noteq> kPending \<Longrightarrow> settled (c0\<lparr>wc_wal := Some wal'\<rparr>) x"
  unfolding CheckAndMark_Inr by (simp add: settled_def)

lemma settled_compact: "inline_compact env c = Some c' \<Longrightarrow> settled c x \<Longrightarrow> settled c' x"
  using inline_compact_sel(3)[of env c c' x] inline_compact_sel(4)[of env c c']
  by (auto simp: settled_def)

lemma Commit_settles:
  assumes "wc_wal c \<noteq> None" "Commit cfg envs cenv now x c = Some (st, c1)"
  shows "settled c1 x"
proof (cases "CheckAndMarkFinalizing x kCommitted c")
  case (Inl s)
  then have "c1 = c" using assms by (auto simp: Commit_def split: option.splits)
  then show ?thesis using settled_if_rejected[OF assms(1) Inl] by simp
next
  case (Inr p)
  then obtain orig c0 where p: "CheckAndMarkFinalizing x kCommitted c = Inr (orig, c0)" by (cases p) auto
  from assms(1) obtain wal where wal: "wc_wal c = Some wal" by blast
  have m: "settled (c0\<lparr>wc_wal := Some wal'\<rparr>) x" for wal' using settled_marked[OF p] by simp
  have d: "settled c3 x" if "commit_done cfg d (c0\<lparr>wc_wal := Some wal'\<rparr>) = (b, c3)" for b c3 d wal'
    using commit_done_sel(1,2)[OF that] m[of wal'] by (simp add: settled_def)
  show ?thesis
    by (rule Commit_cases[OF wal p assms(2)]) (auto simp: m dest: d settled_compact)
qed

lemma Rollback_settles:
  assumes "wc_wal c \<noteq> None" "Rollback env now cb x c w = (st, c1, w1)"
  shows "settled c1 x"
proof (cases "CheckAndMarkFinalizing x kRollback c")
  case (Inl s)
  then have "c1 = c" using assms by (auto simp: Rollback_def split: option.splits)
  then show ?thesis using settled_if_rejected[OF assms(1) Inl] by simp
next
  case (Inr p)
  then obtain orig c0 where p: "CheckAndMarkFinalizing x kRollback c = Inr (orig, c0)" by (cases p) auto
  have m: "settled (c0\<lparr>wc_wal := Some wal'\<rparr>) x" for wal' using settled_marked[OF p] by simp
  from assms(1) obtain wal where wal: "wc_wal c = Some wal" by blast
  obtain st1 wal' where ap: "Append env (terminal_record kRollback x now) wal = (st1, wal')" by fastforce
  have "c1 = c0\<lparr>wc_wal := Some wal'\<rparr> \<or> c1 = release_doc (ts_doc_id orig) (c0\<lparr>wc_wal := Some wal'\<rparr>)"
    using assms(2) p wal ap by (auto simp: Rollback_def Let_def split: option.splits prod.splits if_splits)
  then show ?thesis using m by auto
qed

lemma settled_rejects:
  assumes "settled c x"
  shows "\<exists>st. Commit cfg envs cenv now x c = Some (st, c) \<and> code st \<in> {kNotFound, kAlreadyExists}"
    and "\<exists>st. Rollback env now cb x c w = (st, c, w) \<and> code st \<in> {kNotFound, kAlreadyExists}"
proof -
  obtain wal where wal: "wc_wal c = Some wal" using assms by (auto simp: settled_def)
  have rej: "\<exists>st. CheckAndMarkFinalizing x p c = Inl st \<and> code st \<in> {kNotFound, kAlreadyExists}" for p
    using assms by (intro CheckAndMark_not_pending) (auto simp: settled_def)
  show "\<exists>st. Commit cfg envs cenv now x c = Some (st, c) \<and> code st \<in> {kNotFound, kAlreadyExists}"
    using rej[of kCommitted] wal by (auto simp: Commit_def)
  show "\<exists>st. Rollback env now cb x c w = (st, c, w) \<and> code st \<in> {kNotFound, kAlreadyExists}"
    using rej[of kRollback] wal by (auto simp: Rollback_def)
qed

section \<open>Properties\<close>

text \<open>
  C14: a transaction is finalized at most once.  After any call of \<open>Commit\<close> or \<open>Rollback\<close> on a
  transaction, whatever it returned and whatever the writes of the log did, every further \<open>Commit\<close> and
  \<open>Rollback\<close> of it is rejected (not found, or already finalized) and changes neither the coordinator
  nor the stores.
\<close>
theorem finalize_at_most_once:
  assumes "wc_wal c \<noteq> None"
    and "Commit cfg envs cenv now x c = Some (st, c1) \<or> Rollback env now cb x c w = (st, c1, w1)"
  shows "(\<exists>s. Commit cfg' envs' cenv' now' x c1 = Some (s, c1) \<and> code s \<in> {kNotFound, kAlreadyExists}) \<and>
    (\<exists>s. Rollback env' now' cb' x c1 w' = (s, c1, w') \<and> code s \<in> {kNotFound, kAlreadyExists})"
proof -
  have "settled c1 x"
    using assms Commit_settles Rollback_settles by metis
  then show ?thesis by (intro conjI settled_rejects)
qed

text \<open>A coordinator with a fresh log and one PENDING transaction.\<close>

definition one_pending :: Coordinator where
  "one_pending = wc_new\<lparr>
     wc_wal := Some \<lparr>pl_path_file = log_image [pending_record 1 7 [0x64] [4, 5] False kDocument], pl_detached = None,
       pl_synced = length (log_image [pending_record 1 7 [0x64] [4, 5] False kDocument]),
       pl_file_size = length (log_image [pending_record 1 7 [0x64] [4, 5] False kDocument]),
       pl_append_failures = 0, pl_shutdown = False\<rparr>,
     wc_next_txn_id := 2,
     wc_active_txns := [1 \<mapsto> \<lparr>ts_state = kPending, ts_doc_id = [0x64], ts_block_ids = [4, 5], ts_scope = kDocument\<rparr>],
     wc_active_docs := [[0x64] \<mapsto> 1]\<rparr>"

theorem finalize_at_most_once_witness:
  "\<exists>st c1. Commit default_config (\<lambda>_. io_good) io_good 8 1 one_pending = Some (st, c1) \<and>
    (\<exists>s. Commit default_config (\<lambda>_. io_good) io_good 9 1 c1 = Some (s, c1) \<and> code s \<in> {kNotFound, kAlreadyExists}) \<and>
    (\<exists>s. Rollback io_good 9 None 1 c1 () = (s, c1, ()) \<and> code s \<in> {kNotFound, kAlreadyExists})"
proof -
  obtain st c1 where c: "Commit default_config (\<lambda>_. io_good) io_good 8 1 one_pending = Some (st, c1)"
    using Commit_total[of default_config "\<lambda>_. io_good" io_good 8 1 one_pending] by auto
  have "wc_wal one_pending \<noteq> None" by (simp add: one_pending_def)
  then show ?thesis
    by (intro exI[of _ st] exI[of _ c1] conjI[OF c] finalize_at_most_once[OF _ disjI1[OF c]])
qed

lemma one_pending_clean:
  obtains wal where "wc_wal one_pending = Some wal" "clean wal [pending_record 1 7 [0x64] [4, 5] False kDocument]" "writable wal"
proof -
  have "storable (pending_record 1 7 [0x64] [4, 5] False kDocument)"
    by (simp add: storable_def carried_def entry_fits_def pending_record_def)
  then show thesis using that by (simp add: one_pending_def clean_def writable_def)
qed

text \<open>A callback that records the transactions it cleans up, and stores that hold nothing.\<close>

definition recording :: "u64 list callback option" where
  "recording = Some (\<lambda>p w. (Status_Ok, w @ [pe_txn_id p]))"

definition empty_stores :: "u64 list stores" where
  "empty_stores = \<lparr>vector_exists = Some (\<lambda>_ _. False), block_exists = Some (\<lambda>_ _. False), blob_exists = Some (\<lambda>_ _. False)\<rparr>"

text \<open>
  C13: recovery goes through and leaves nothing open.  On a clean, writable log of at most \<open>max_recovery_entries\<close> records,
  outside strict mode, with the three stores given and no write error, whatever the stores answer and the callback returns, and
  in whatever order the transactions are visited: \<open>Recover\<close> returns \<open>Ok\<close>, the log is empty and synced, the tables are
  empty and the next transaction id is the largest one of the log plus one, in 64 bits: it is above every id of the log unless
  the largest one is the last of the 64 bits.
\<close>
theorem recovery_completes:
  assumes "wc_wal c = Some wal" "clean wal es" "writable wal" "\<not> cfg_strict_recovery cfg"
    and "int (length es) \<le> cfg_max_recovery_entries cfg" "set order = pe_txn_id ` set es"
    and "vector_exists stores = Some vec" "block_exists stores = Some blk" "blob_exists stores = Some blob"
  shows "\<exists>c' w' wal'. Recover cfg stores cb io_good (\<lambda>_. io_good) io_good now order c w = Some (Status_Ok, c', w') \<and>
    wc_wal c' = Some wal' \<and> clean wal' [] \<and> pl_synced wal' = length (log_image []) \<and>
    wc_active_txns c' = Map.empty \<and> wc_active_docs c' = Map.empty \<and> wc_committed_since_compact c' = 0 \<and>
    wc_next_txn_id c' = max_txn_id es + 1 \<and>
    (max_txn_id es \<noteq> - 1 \<longrightarrow> (\<forall>e \<in> set es. pe_txn_id e < wc_next_txn_id c'))"
proof -
  have "pe_txn_id e < max_txn_id es + 1" if "max_txn_id es \<noteq> - 1" "e \<in> set es" for e
    using max_txn_id_ge[OF that(2)] that(1) by (rule below_next_id)
  then show ?thesis using Recover_good[OF assms, of cb now w] by auto
qed

theorem recovery_completes_witness:
  "\<exists>c' w'. Recover default_config empty_stores recording io_good (\<lambda>_. io_good) io_good 9 [1] one_pending [] =
     Some (Status_Ok, c', w') \<and> wc_active_docs c' = Map.empty \<and> wc_next_txn_id c' = 2"
proof -
  obtain wal where w: "wc_wal one_pending = Some wal" "clean wal [pending_record 1 7 [0x64] [4, 5] False kDocument]" "writable wal"
    by (rule one_pending_clean)
  have "\<exists>c' w' wal'. Recover default_config empty_stores recording io_good (\<lambda>_. io_good) io_good 9 [1] one_pending [] =
      Some (Status_Ok, c', w') \<and> wc_wal c' = Some wal' \<and> clean wal' [] \<and> pl_synced wal' = length (log_image []) \<and>
    wc_active_txns c' = Map.empty \<and> wc_active_docs c' = Map.empty \<and> wc_committed_since_compact c' = 0 \<and>
    wc_next_txn_id c' = max_txn_id [pending_record 1 7 [0x64] [4, 5] False kDocument] + 1 \<and>
    (max_txn_id [pending_record 1 7 [0x64] [4, 5] False kDocument] \<noteq> - 1 \<longrightarrow>
      (\<forall>e \<in> set [pending_record 1 7 [0x64] [4, 5] False kDocument]. pe_txn_id e < wc_next_txn_id c'))"
    by (rule recovery_completes[OF w]) (simp_all add: default_config_def pending_record_def empty_stores_def)
  then show ?thesis by (auto simp: max_txn_id_def pending_record_def)
qed

text \<open>
  C12: recovery undoes only unfinished work.  Whatever the environment does, the cleanup callback is run
  only for a transaction of the log without a COMMITTED record that has a ROLLBACK record or whose PENDING
  payload is missing from a store, and gets that payload (an empty one when the log has none).  (Any property of the stores that
  such cleanups keep, \<open>Recover\<close> keeps.)
\<close>
theorem recovery_undoes_only_unfinished:
  assumes "Recover cfg stores cb renv envs cenv now order c w = Some (st, c', w')" "P w"
    and "wc_wal c = Some wal" "pwl_ReadAll renv wal = Some (Inr es, wal1)"
    and "vector_exists stores = Some vec" "block_exists stores = Some blk" "blob_exists stores = Some blob"
    and "\<And>f w x p. cb = Some f \<Longrightarrow> P w \<Longrightarrow> undone (AllStoresHave vec blk blob) es w x p \<Longrightarrow> P (snd (f p w))"
  shows "P w'"
  by (rule Recover_keeps[where P = P, OF assms(1-7)]) (rule assms(8))

theorem recovery_undoes_only_unfinished_witness:
  "\<exists>st c' w'. Recover default_config empty_stores recording io_good (\<lambda>_. io_good) io_good 9 [1] one_pending [] =
     Some (st, c', w') \<and> set w' \<subseteq> {1}"
proof -
  let ?es = "[pending_record 1 7 [0x64] [4, 5] False kDocument]"
  obtain wal where w: "wc_wal one_pending = Some wal" "clean wal ?es" "writable wal" by (rule one_pending_clean)
  have "\<exists>c' w' wal'. Recover default_config empty_stores recording io_good (\<lambda>_. io_good) io_good 9 [1] one_pending [] =
      Some (Status_Ok, c', w') \<and> wc_wal c' = Some wal' \<and> clean wal' [] \<and> pl_synced wal' = length (log_image []) \<and>
    wc_active_txns c' = Map.empty \<and> wc_active_docs c' = Map.empty \<and> wc_committed_since_compact c' = 0 \<and>
    wc_next_txn_id c' = max_txn_id ?es + 1"
    by (rule Recover_good[OF w]) (simp_all add: default_config_def pending_record_def empty_stores_def)
  then obtain c' w' where r: "Recover default_config empty_stores recording io_good (\<lambda>_. io_good) io_good 9 [1] one_pending [] =
      Some (Status_Ok, c', w')" by blast
  have rd: "pwl_ReadAll io_good wal = Some (Inr ?es, wal)" by (rule ReadAll_clean[OF w(2)]) simp_all
  have "set w' \<subseteq> {1}"
    by (rule recovery_undoes_only_unfinished[where P = "\<lambda>w. set w \<subseteq> {1}", OF r _ w(1) rd])
      (auto simp: empty_stores_def recording_def undone_def pending_record_def)
  with r show ?thesis by blast
qed

text \<open>
  A \<open>Rollback\<close> whose append fails locks its document.  The call returns an error without running the
  cleanup; afterwards no \<open>Commit\<close> or \<open>Rollback\<close> of the transaction is accepted any more, and every \<open>BeginWrite\<close>
  on the document is rejected as still in progress.  (\<open>Commit\<close> releases the document in the same situation.)
\<close>
theorem failed_rollback_locks_document:
  assumes "wc_wal c = Some wal" "wc_active_txns c x = Some ts" "ts_state ts = kPending"
    and "wc_active_docs c (ts_doc_id ts) = Some x"
    and "Append env (terminal_record kRollback x now) wal = (s, wal')" "\<not> ok s"
    and "Rollback env now cb x c w = (st, c1, w1)"
  shows "\<not> ok st \<and> w1 = w \<and> (\<exists>s. BeginWrite env' now' (ts_doc_id ts) ids blob scope c1 = (s, None, c1) \<and> \<not> ok s) \<and>
    (\<exists>s. Rollback env' now' cb' x c1 w' = (s, c1, w') \<and> \<not> ok s)"
proof -
  let ?c0 = "c\<lparr>wc_active_txns := (wc_active_txns c)(x \<mapsto> ts\<lparr>ts_state := kRollback, ts_block_ids := []\<rparr>)\<rparr>"
  have mk: "CheckAndMarkFinalizing x kRollback c = Inr (ts, ?c0)"
    unfolding CheckAndMark_Inr using assms(2,3) by simp
  have r: "\<not> ok st" "w1 = w" "c1 = ?c0\<lparr>wc_wal := Some wal'\<rparr>"
    using assms(1,5-7) mk by (auto simp: Rollback_def Let_def)
  have "wc_wal c1 = Some wal'" "wc_active_docs c1 (ts_doc_id ts) = Some x"
    "wc_active_txns c1 x = Some (ts\<lparr>ts_state := kRollback, ts_block_ids := []\<rparr>)" using r(3) assms(4) by simp_all
  then show ?thesis
    using r(1,2) by (simp add: BeginWrite_def bw_reserve_def Rollback_def CheckAndMarkFinalizing_def)
qed

theorem failed_rollback_locks_document_witness:
  "\<exists>st c1. Rollback (io_good\<lparr>io_sync := Some ''EIO''\<rparr>) 9 recording 1 one_pending [] = (st, c1, []) \<and> \<not> ok st \<and>
     (\<exists>s. BeginWrite io_good 10 [0x64] [] False kDocument c1 = (s, None, c1) \<and> \<not> ok s)"
proof -
  let ?env = "io_good\<lparr>io_sync := Some ''EIO''\<rparr>"
  obtain wal where w: "wc_wal one_pending = Some wal" "clean wal [pending_record 1 7 [0x64] [4, 5] False kDocument]" "writable wal"
    by (rule one_pending_clean)
  obtain s wal' where a: "Append ?env (terminal_record kRollback 1 9) wal = (s, wal')" by fastforce
  have ns: "\<not> ok s"
    using a w(3) by (auto simp: Append_def TryConsumeInjectedFault_def writable_def sink_flush_def pwl_write_batch_def
        pwl_sync_def Sync_def Let_def split: prod.splits if_splits)
  have t: "wc_active_txns one_pending 1 = Some \<lparr>ts_state = kPending, ts_doc_id = [0x64], ts_block_ids = [4, 5], ts_scope = kDocument\<rparr>"
    "wc_active_docs one_pending [0x64] = Some 1" by (simp_all add: one_pending_def)
  obtain st c1 w1 where r: "Rollback ?env 9 recording 1 one_pending [] = (st, c1, w1)" using prod_cases3 by blast
  from failed_rollback_locks_document[OF w(1) t(1) _ _ a ns r, where env' = io_good and now' = 10 and ids = "[]"
      and blob = False and scope = kDocument and cb' = recording and w' = "[]"] t(2) r
  show ?thesis by auto
qed

text \<open>
  A compaction forgets a rolled-back transaction whose cleanup is still owed.  Once a compaction has
  succeeded, nothing of a transaction with a ROLLBACK record is left in the log, so recovery cannot run
  (or retry) its cleanup.
\<close>
theorem compaction_forgets_rollback:
  assumes "clean wal es" "io_read env = RdAll" "Compact env wal = Some (st, wal')" "ok st" "has_record es x kRollback"
  shows "\<exists>es'. pwl_ReadAll io_good wal' = Some (Inr es', wal') \<and> (\<forall>p. \<not> has_record es' x p) \<and>
    (\<forall>w p. \<not> undone have_all es' w x p)"
proof -
  note c = Compact_clean[OF assms(1-4)]
  have "pwl_ReadAll io_good wal' = Some (Inr (live es), wal')" by (rule ReadAll_clean[OF c(1)]) simp_all
  moreover have n: "\<not> has_record (live es) x p" for p
    using assms(5) by (auto simp: has_record_def live_def finalized_def)
  moreover have "\<not> undone have_all (live es) w x p" for w p
    using n by (auto simp: undone_def has_record_def)
  ultimately show ?thesis by blast
qed

theorem compaction_forgets_rollback_witness:
  "\<exists>wal st wal' es'. clean wal [pending_record 1 7 [0x64] [] False kDocument, terminal_record kRollback 1 8] \<and>
     Compact io_good wal = Some (st, wal') \<and> pwl_ReadAll io_good wal' = Some (Inr es', wal') \<and> \<not> has_record es' 1 kRollback"
proof -
  let ?es = "[pending_record 1 7 [0x64] [] False kDocument, terminal_record kRollback 1 8]"
  define wal where "wal = \<lparr>pl_path_file = log_image ?es, pl_detached = None, pl_synced = 0,
    pl_file_size = length (log_image ?es), pl_append_failures = 0, pl_shutdown = False\<rparr>"
  have "storable (pending_record 1 7 [0x64] [] False kDocument)" "storable (terminal_record kRollback 1 8)"
    using terminal_storable[of kRollback 1 8]
    by (simp_all add: storable_def carried_def entry_fits_def pending_record_def)
  then have c: "clean wal ?es" by (simp add: clean_def wal_def)
  obtain st wal' where k: "Compact io_good wal = Some (st, wal')" "ok st" using Compact_good[OF c] by blast
  from compaction_forgets_rollback[OF c _ k, of 1 "\<lambda>_ _. True"] c k show ?thesis by auto
qed

end
