(* ===== verification/Coordinator_Steps.thy ===== *)
theory Coordinator_Steps
  imports Write_Coordinator
begin

text \<open>
  Concurrent callers of the write coordinator.  The mutex \<open>txn_map_mu_\<close> protects short sections of
  \<open>BeginWrite\<close>, \<open>Commit\<close> and \<open>Rollback\<close>; the appends to the log, the compaction and the rollback callback
  run outside of it.  A call is therefore a sequence of atomic sections (\<open>wc_pc\<close> is its program counter,
  \<open>exec\<close> its next section, built from the definitions of \<open>Write_Coordinator\<close>), and the sections of
  different threads interleave freely (\<open>wc_step\<close>).  The invariant of all reachable states gives mutual
  exclusion per document and what survives a crash.
\<close>

section \<open>Calls as sequences of sections\<close>

datatype wc_pc =
    BwAppend u64 bytes PendingEntry
  | BwUndo u64 bytes Status
  | CmAppend u64 TxnState PendingEntry nat Status
  | CmRelease u64 TxnState Status
  | CmDone u64 TxnState
  | CmCompact u64
  | CmDrop u64
  | RbAppend u64 TxnState PendingEntry
  | RbRelease u64 TxnState
  | RbCallback u64 TxnState
  | Begun u64
  | CommitOk u64
  | Finished Status

definition append_c :: "io_env \<Rightarrow> PendingEntry \<Rightarrow> Coordinator \<Rightarrow> Status \<times> Coordinator" where
  "append_c env e c = (case wc_wal c of
     None \<Rightarrow> (not_initialized, c)
   | Some wal \<Rightarrow> let (st, wal') = Append env e wal in (st, c\<lparr>wc_wal := Some wal'\<rparr>))"

definition compact_c :: "io_env \<Rightarrow> Coordinator \<Rightarrow> (Status \<times> Coordinator) option" where
  "compact_c env c = (case wc_wal c of
     None \<Rightarrow> Some (not_initialized, c)
   | Some wal \<Rightarrow> do { (st, wal') \<leftarrow> Compact env wal; Some (st, c\<lparr>wc_wal := Some wal'\<rparr>) })"

fun exec ::
  "WriteCoordinatorConfig \<Rightarrow> 'w callback option \<Rightarrow> io_env \<Rightarrow> wc_pc \<Rightarrow> Coordinator \<Rightarrow> 'w \<Rightarrow>
   (wc_pc \<times> Coordinator \<times> 'w) option" where
  "exec cfg cb env (BwAppend x d e) c w =
     (let (st, c') = append_c env e c in Some (if ok st then Begun x else BwUndo x d st, c', w))"
| "exec cfg cb env (BwUndo x d st) c w =
     Some (Finished (PwlStatus kUnavailable pwl_kWriteFailed (''append PENDING failed: '' @ message st)),
           bw_undo x d c, w)"
| "exec cfg cb env (CmAppend x orig e n st) c w =
     (case n of
        0 \<Rightarrow> Some (if ok st then CmDone x orig else CmRelease x orig st, c, w)
      | Suc m \<Rightarrow> let (st', c') = append_c env e c in
          Some (if ok st' then CmDone x orig else CmAppend x orig e m st', c', w))"
| "exec cfg cb env (CmRelease x orig st) c w =
     Some (Finished (PwlStatus kUnavailable pwl_kWriteFailed
             (''append COMMITTED failed after retries: '' @ message st)),
           release_doc (ts_doc_id orig) c, w)"
| "exec cfg cb env (CmDone x orig) c w =
     (let (do_compact, c') = commit_done cfg (ts_doc_id orig) c in
      Some (if do_compact then CmCompact x else CommitOk x, c', w))"
| "exec cfg cb env (CmCompact x) c w = do {
     (st, c') \<leftarrow> compact_c env c; Some (if ok st then CmDrop x else CommitOk x, c', w) }"
| "exec cfg cb env (CmDrop x) c w = Some (CommitOk x, drop_finalized c, w)"
| "exec cfg cb env (RbAppend x orig e) c w =
     (let (st, c') = append_c env e c in
      Some (if ok st then RbRelease x orig
            else Finished (PwlStatus kUnavailable pwl_kWriteFailed (''append ROLLBACK failed: '' @ message st)),
            c', w))"
| "exec cfg cb env (RbRelease x orig) c w = Some (RbCallback x orig, release_doc (ts_doc_id orig) c, w)"
| "exec cfg cb env (RbCallback x orig) c w =
     (case cb of None \<Rightarrow> Some (Finished Status_Ok, c, w)
      | Some f \<Rightarrow> let (r, w') = f (rollback_payload x orig) w in
          Some (Finished (if ok r then Status_Ok
                  else PwlStatus kInternal pwl_kRollbackCallbackFailed (''rollback callback failed: '' @ message r)),
                c, w'))"
| "exec cfg cb env (Begun x) c w = None"
| "exec cfg cb env (CommitOk x) c w = None"
| "exec cfg cb env (Finished st) c w = None"

section \<open>The sections composed are the calls\<close>

inductive runs ::
  "WriteCoordinatorConfig \<Rightarrow> 'w callback option \<Rightarrow> io_env list \<Rightarrow> wc_pc \<Rightarrow> Coordinator \<Rightarrow> 'w \<Rightarrow>
   wc_pc \<Rightarrow> Coordinator \<Rightarrow> 'w \<Rightarrow> bool"
  for cfg cb where
  stop: "runs cfg cb [] pc c w pc c w"
| more: "exec cfg cb env pc c w = Some (pc', c', w') \<Longrightarrow> runs cfg cb envs pc' c' w' pc'' c'' w'' \<Longrightarrow>
     runs cfg cb (env # envs) pc c w pc'' c'' w''"

lemma BeginWrite_runs:
  assumes "wc_wal c \<noteq> None" "bw_reserve doc ids scope c = Inr (x, c1)"
    and "BeginWrite env now doc ids blob scope c = (st, r, c')"
  shows "\<exists>envs pc. runs cfg cb envs (BwAppend x doc (pending_record x now doc ids blob scope)) c1 w pc c' w \<and>
    pc = (case r of Some t \<Rightarrow> Begun t | None \<Rightarrow> Finished st)"
proof -
  let ?e = "pending_record x now doc ids blob scope"
  obtain wal where wal: "wc_wal c = Some wal" using assms(1) by blast
  have wal1: "wc_wal c1 = Some wal" using assms(2) wal by (auto simp: bw_reserve_def Let_def split: if_splits)
  obtain s wal' where ap: "Append env ?e wal = (s, wal')" by fastforce
  have ac: "append_c env ?e c1 = (s, c1\<lparr>wc_wal := Some wal'\<rparr>)" by (simp add: append_c_def wal1 ap)
  show ?thesis
  proof (cases "ok s")
    case True
    then have "r = Some x" "c' = c1\<lparr>wc_wal := Some wal'\<rparr>"
      using assms(2,3) wal ap by (auto simp: BeginWrite_def Let_def)
    moreover have "runs cfg cb [env] (BwAppend x doc ?e) c1 w (Begun x) (c1\<lparr>wc_wal := Some wal'\<rparr>) w"
      using True ac by (auto intro!: runs.intros)
    ultimately show ?thesis by (intro exI[of _ "[env]"] exI[of _ "Begun x"]) simp
  next
    case False
    then have "r = None" "c' = bw_undo x doc (c1\<lparr>wc_wal := Some wal'\<rparr>)"
      "st = PwlStatus kUnavailable pwl_kWriteFailed (''append PENDING failed: '' @ message s)"
      using assms(2,3) wal ap by (auto simp: BeginWrite_def Let_def)
    moreover have "runs cfg cb [env, env] (BwAppend x doc ?e) c1 w
        (Finished (PwlStatus kUnavailable pwl_kWriteFailed (''append PENDING failed: '' @ message s)))
        (bw_undo x doc (c1\<lparr>wc_wal := Some wal'\<rparr>)) w"
      using False ac by (auto intro!: runs.intros)
    ultimately show ?thesis by (intro exI[of _ "[env, env]"] exI[of _ "Finished st"]) simp
  qed
qed

lemma runs_append:
  "runs cfg cb envs pc c w pc' c' w' \<Longrightarrow> runs cfg cb envs' pc' c' w' pc'' c'' w'' \<Longrightarrow>
   runs cfg cb (envs @ envs') pc c w pc'' c'' w''"
  by (induction rule: runs.induct) (auto intro: runs.intros)

lemma append_retry_runs:
  assumes "wc_wal c = Some wal" "append_retry envs i n e st wal = (st', wal')"
  shows "\<exists>es. runs cfg cb es (CmAppend x orig e n st) c w
    (if ok st' then CmDone x orig else CmRelease x orig st') (c\<lparr>wc_wal := Some wal'\<rparr>) w"
  using assms
proof (induction n arbitrary: i st c wal)
  case 0
  then have eq: "c\<lparr>wc_wal := Some wal'\<rparr> = c" "st' = st" by simp_all
  have "runs cfg cb [io_good] (CmAppend x orig e 0 st) c w (if ok st then CmDone x orig else CmRelease x orig st) c w"
    by (auto intro!: runs.intros)
  then show ?case unfolding eq by blast
next
  case (Suc n)
  obtain s wal1 where ap: "Append (envs i) e wal = (s, wal1)" by fastforce
  let ?c = "c\<lparr>wc_wal := Some wal1\<rparr>"
  have ac: "append_c (envs i) e c = (s, ?c)" by (simp add: append_c_def Suc.prems(1) ap)
  show ?case
  proof (cases "ok s")
    case True
    then have "st' = s" "wal' = wal1" using Suc.prems(2) ap by auto
    with True ac show ?thesis by (intro exI[of _ "[envs i]"]) (auto intro!: runs.intros)
  next
    case False
    then have "append_retry envs (Suc i) n e s wal1 = (st', wal')" using Suc.prems(2) ap by auto
    from Suc.IH[OF _ this, of ?c] obtain es where es: "runs cfg cb es (CmAppend x orig e n s) ?c w
        (if ok st' then CmDone x orig else CmRelease x orig st') (c\<lparr>wc_wal := Some wal'\<rparr>) w" by auto
    have "exec cfg cb (envs i) (CmAppend x orig e (Suc n) st) c w = Some (CmAppend x orig e n s, ?c, w)"
      using False ac by simp
    from runs.more[OF this es] show ?thesis by blast
  qed
qed

lemma runs_one: "exec cfg cb env pc c w = Some (pc', c', w') \<Longrightarrow> runs cfg cb [env] pc c w pc' c' w'"
  by (auto intro: runs.intros)

lemma inline_compact_runs:
  assumes "wc_wal c \<noteq> None" "inline_compact env c = Some c'"
  shows "\<exists>es. runs cfg cb es (CmCompact x) c w (CommitOk x) c' w"
proof -
  obtain wal where wal: "wc_wal c = Some wal" using assms(1) by blast
  obtain st wal' where co: "Compact env wal = Some (st, wal')" using Compact_total[of env wal] by auto
  let ?c = "c\<lparr>wc_wal := Some wal'\<rparr>"
  have c': "c' = (if ok st then drop_finalized ?c else ?c)"
    using assms(2) wal co by (simp add: inline_compact_def Let_def)
  have ex: "exec cfg cb env (CmCompact x) c w = Some (if ok st then CmDrop x else CommitOk x, ?c, w)"
    by (simp add: compact_c_def wal co)
  show ?thesis
  proof (cases "ok st")
    case True
    then have d: "runs cfg cb [env] (CmDrop x) ?c w (CommitOk x) c' w" by (simp add: c' runs_one)
    have "exec cfg cb env (CmCompact x) c w = Some (CmDrop x, ?c, w)" using ex True by simp
    from runs.more[OF this d] show ?thesis by blast
  next
    case False
    then show ?thesis using runs_one[OF ex] by (auto simp: c')
  qed
qed

lemma Commit_runs:
  assumes "wc_wal c \<noteq> None" "CheckAndMarkFinalizing x kCommitted c = Inr (orig, c1)"
    and "Commit cfg envs cenv now x c = Some (st, c')"
  shows "\<exists>es pc. runs cfg cb es (CmAppend x orig (terminal_record kCommitted x now)
      (nat (cfg_commit_max_retries cfg + 1)) Status_Ok) c1 w pc c' w \<and>
    (if ok st then pc = CommitOk x else \<exists>s. pc = Finished s)"
proof -
  let ?start = "CmAppend x orig (terminal_record kCommitted x now) (nat (cfg_commit_max_retries cfg + 1)) Status_Ok"
  obtain wal where wal: "wc_wal c = Some wal" using assms(1) by blast
  have wal1: "wc_wal c1 = Some wal" using assms(2) wal unfolding CheckAndMark_Inr by simp
  note ar = append_retry_runs[OF wal1, where cfg = cfg and cb = cb and x = x and orig = orig and w = w]
  show ?thesis
  proof (rule Commit_cases[OF wal assms(2,3)])
    fix s wal'
    assume a: "append_retry envs 0 (nat (cfg_commit_max_retries cfg + 1)) (terminal_record kCommitted x now)
        Status_Ok wal = (s, wal')" and f: "\<not> ok s" "\<not> ok st"
      "c' = release_doc (ts_doc_id orig) (c1\<lparr>wc_wal := Some wal'\<rparr>)"
    from ar[OF a] f(1) obtain es where
      "runs cfg cb es ?start c1 w (CmRelease x orig s) (c1\<lparr>wc_wal := Some wal'\<rparr>) w" by auto
    from runs_append[OF this runs_one[of cfg cb io_good]] f show ?thesis by fastforce
  next
    fix s wal'
    assume a: "append_retry envs 0 (nat (cfg_commit_max_retries cfg + 1)) (terminal_record kCommitted x now)
        Status_Ok wal = (s, wal')" and f: "ok s" "st = Status_Ok"
      "commit_done cfg (ts_doc_id orig) (c1\<lparr>wc_wal := Some wal'\<rparr>) = (False, c')"
    from ar[OF a] f(1) obtain es where
      "runs cfg cb es ?start c1 w (CmDone x orig) (c1\<lparr>wc_wal := Some wal'\<rparr>) w" by auto
    from runs_append[OF this runs_one[of cfg cb io_good]] f show ?thesis by fastforce
  next
    fix s wal' c3
    assume a: "append_retry envs 0 (nat (cfg_commit_max_retries cfg + 1)) (terminal_record kCommitted x now)
        Status_Ok wal = (s, wal')" and f: "ok s" "st = Status_Ok"
      "commit_done cfg (ts_doc_id orig) (c1\<lparr>wc_wal := Some wal'\<rparr>) = (True, c3)" "inline_compact cenv c3 = Some c'"
    from ar[OF a] f(1) obtain es where
      r1: "runs cfg cb es ?start c1 w (CmDone x orig) (c1\<lparr>wc_wal := Some wal'\<rparr>) w" by auto
    have r2: "runs cfg cb [io_good] (CmDone x orig) (c1\<lparr>wc_wal := Some wal'\<rparr>) w (CmCompact x) c3 w"
      using f(3) by (intro runs_one) simp
    have "wc_wal c3 \<noteq> None" using commit_done_sel(2)[OF f(3)] by simp
    then obtain es' where r3: "runs cfg cb es' (CmCompact x) c3 w (CommitOk x) c' w"
      using inline_compact_runs[OF _ f(4), where cfg = cfg and cb = cb and w = w] by blast
    from runs_append[OF runs_append[OF r1 r2] r3] f(2) show ?thesis by auto
  qed
qed

lemma Rollback_runs:
  assumes "wc_wal c \<noteq> None" "CheckAndMarkFinalizing x kRollback c = Inr (orig, c1)"
    and "Rollback env now cb x c w = (st, c', w')"
  shows "\<exists>es. runs cfg cb es (RbAppend x orig (terminal_record kRollback x now)) c1 w (Finished st) c' w'"
proof -
  let ?e = "terminal_record kRollback x now"
  obtain wal where wal: "wc_wal c = Some wal" using assms(1) by blast
  have wal1: "wc_wal c1 = Some wal" using assms(2) wal unfolding CheckAndMark_Inr by simp
  obtain s wal' where ap: "Append env ?e wal = (s, wal')" by fastforce
  let ?c = "c1\<lparr>wc_wal := Some wal'\<rparr>"
  have ac: "append_c env ?e c1 = (s, ?c)" by (simp add: append_c_def wal1 ap)
  show ?thesis
  proof (cases "ok s")
    case False
    then have "st = PwlStatus kUnavailable pwl_kWriteFailed (''append ROLLBACK failed: '' @ message s)"
      "c' = ?c" "w' = w" using assms(2,3) wal ap by (auto simp: Rollback_def Let_def)
    then show ?thesis using False ac runs_one[of cfg cb env "RbAppend x orig ?e" c1 w] by auto
  next
    case True
    then have r1: "runs cfg cb [env] (RbAppend x orig ?e) c1 w (RbRelease x orig) ?c w"
      using ac by (intro runs_one) simp
    have r2: "runs cfg cb [env] (RbRelease x orig) ?c w (RbCallback x orig) (release_doc (ts_doc_id orig) ?c) w"
      by (intro runs_one) simp
    have r3: "runs cfg cb [env] (RbCallback x orig) (release_doc (ts_doc_id orig) ?c) w (Finished st) c' w'"
      using assms(2,3) wal ap True
      by (intro runs_one) (auto simp: Rollback_def Let_def split: option.splits prod.splits if_splits)
    from runs_append[OF runs_append[OF r1 r2] r3] show ?thesis by blast
  qed
qed

section \<open>Interleaved calls\<close>

record 'w sys =
  sy_c :: Coordinator
  sy_w :: 'w
  sy_pc :: "nat \<rightharpoonup> wc_pc"
  sy_issued :: "u64 set"
  sy_acked :: "u64 set"

text \<open>
  The file system as the durability argument needs it: a failing \<open>pwrite\<close> leaves no partial record
  behind, the log is read back completely, and the compacted file can be reopened.  Everything else
  (seek, sync, temporary file, rename) may fail at any time.
\<close>

definition benign :: "io_env \<Rightarrow> bool" where
  "benign env \<longleftrightarrow> (\<forall>i k e. io_pw env i = PwErr k e \<longrightarrow> k = 0) \<and> io_read env = RdAll \<and> io_reopen env = None"

text \<open>
  \<open>sy_issued\<close> are the handles that \<open>BeginWrite\<close> has returned; \<open>Commit\<close> and \<open>Rollback\<close> are called on these.
  \<open>sy_acked\<close> are the transactions whose \<open>Commit\<close> has returned \<open>Ok\<close>.  Rejected calls change nothing and are
  left out.
\<close>

inductive wc_step :: "WriteCoordinatorConfig \<Rightarrow> 'w callback option \<Rightarrow> 'w sys \<Rightarrow> 'w sys \<Rightarrow> bool"
  for cfg cb where
  st_begin: "sy_pc s t = None \<Longrightarrow> bw_reserve doc ids scope (sy_c s) = Inr (x, c1) \<Longrightarrow> x \<noteq> - 1 \<Longrightarrow>
     entry_fits (pending_record x now doc ids blob scope) \<Longrightarrow>
     wc_step cfg cb s (s\<lparr>sy_c := c1,
       sy_pc := (sy_pc s)(t \<mapsto> BwAppend x doc (pending_record x now doc ids blob scope))\<rparr>)"
| st_commit: "sy_pc s t = None \<Longrightarrow> x \<in> sy_issued s \<Longrightarrow>
     CheckAndMarkFinalizing x kCommitted (sy_c s) = Inr (orig, c1) \<Longrightarrow>
     wc_step cfg cb s (s\<lparr>sy_c := c1,
       sy_pc := (sy_pc s)(t \<mapsto> CmAppend x orig (terminal_record kCommitted x now)
                              (nat (cfg_commit_max_retries cfg + 1)) Status_Ok)\<rparr>)"
| st_rollback: "sy_pc s t = None \<Longrightarrow> x \<in> sy_issued s \<Longrightarrow>
     CheckAndMarkFinalizing x kRollback (sy_c s) = Inr (orig, c1) \<Longrightarrow>
     wc_step cfg cb s (s\<lparr>sy_c := c1, sy_pc := (sy_pc s)(t \<mapsto> RbAppend x orig (terminal_record kRollback x now))\<rparr>)"
| st_section: "sy_pc s t = Some pc \<Longrightarrow> benign env \<Longrightarrow> exec cfg cb env pc (sy_c s) (sy_w s) = Some (pc', c', w') \<Longrightarrow>
     wc_step cfg cb s (s\<lparr>sy_c := c', sy_w := w', sy_pc := (sy_pc s)(t \<mapsto> pc')\<rparr>)"
| st_begun: "sy_pc s t = Some (Begun x) \<Longrightarrow>
     wc_step cfg cb s (s\<lparr>sy_pc := (sy_pc s)(t := None), sy_issued := insert x (sy_issued s)\<rparr>)"
| st_acked: "sy_pc s t = Some (CommitOk x) \<Longrightarrow>
     wc_step cfg cb s (s\<lparr>sy_pc := (sy_pc s)(t := None), sy_acked := insert x (sy_acked s)\<rparr>)"
| st_finished: "sy_pc s t = Some (Finished st) \<Longrightarrow> wc_step cfg cb s (s\<lparr>sy_pc := (sy_pc s)(t := None)\<rparr>)"

text \<open>
  Calls start after initialisation and recovery: empty tables and a synced log whose transaction ids are
  below the next one.
\<close>

definition started :: "'w sys \<Rightarrow> bool" where
  "started s \<longleftrightarrow> sy_pc s = Map.empty \<and> sy_issued s = {} \<and> sy_acked s = {} \<and>
     wc_active_txns (sy_c s) = Map.empty \<and> wc_active_docs (sy_c s) = Map.empty \<and>
     (\<exists>wal es. wc_wal (sy_c s) = Some wal \<and> clean wal es \<and> pl_synced wal = length (log_image es) \<and>
        (\<forall>e\<in>set es. pe_txn_id e < wc_next_txn_id (sy_c s)))"

inductive wc_reach :: "WriteCoordinatorConfig \<Rightarrow> 'w callback option \<Rightarrow> 'w sys \<Rightarrow> bool" for cfg cb where
  start: "started s \<Longrightarrow> wc_reach cfg cb s"
| step: "wc_reach cfg cb s \<Longrightarrow> wc_step cfg cb s s' \<Longrightarrow> wc_reach cfg cb s'"

section \<open>The invariant of the tables\<close>

text \<open>The transaction and document a call still holds, and the call's kind.\<close>

fun owns :: "wc_pc \<Rightarrow> (u64 \<times> bytes) option" where
  "owns (BwAppend x d e) = Some (x, d)"
| "owns (BwUndo x d st) = Some (x, d)"
| "owns (CmAppend x orig e n st) = Some (x, ts_doc_id orig)"
| "owns (CmRelease x orig st) = Some (x, ts_doc_id orig)"
| "owns (CmDone x orig) = Some (x, ts_doc_id orig)"
| "owns (RbAppend x orig e) = Some (x, ts_doc_id orig)"
| "owns (RbRelease x orig) = Some (x, ts_doc_id orig)"
| "owns _ = None"

fun is_begin :: "wc_pc \<Rightarrow> bool" where
  "is_begin (BwAppend x d e) = True"
| "is_begin (BwUndo x d st) = True"
| "is_begin _ = False"

definition pending_in :: "Coordinator \<Rightarrow> u64 \<Rightarrow> bytes \<Rightarrow> bool" where
  "pending_in c x d \<longleftrightarrow> (\<exists>ts. wc_active_txns c x = Some ts \<and> ts_state ts = kPending \<and> ts_doc_id ts = d)"

text \<open>
  The invariant over the views that matter: the document table, the PENDING transactions, what each
  thread owns, which threads are inside \<open>BeginWrite\<close> or about to return from it, and the issued handles.
\<close>

definition tbl ::
  "(bytes \<rightharpoonup> u64) \<Rightarrow> (u64 \<Rightarrow> bytes \<Rightarrow> bool) \<Rightarrow> (nat \<Rightarrow> (u64 \<times> bytes) option) \<Rightarrow> (nat \<Rightarrow> bool) \<Rightarrow>
   (nat \<Rightarrow> u64 option) \<Rightarrow> u64 set \<Rightarrow> bool" where
  "tbl docs pend own bg ret iss \<longleftrightarrow>
     (\<forall>x d. pend x d \<longrightarrow> docs d = Some x) \<and>
     (\<forall>t x d. own t = Some (x, d) \<longrightarrow> docs d = Some x) \<and>
     (\<forall>t t' x d d'. own t = Some (x, d) \<longrightarrow> own t' = Some (x, d') \<longrightarrow> t = t') \<and>
     (\<forall>t x d. own t = Some (x, d) \<longrightarrow> bg t \<longrightarrow> pend x d \<and> x \<notin> iss) \<and>
     (\<forall>t x d d'. own t = Some (x, d) \<longrightarrow> \<not> bg t \<longrightarrow> \<not> pend x d') \<and>
     (\<forall>t x. ret t = Some x \<longrightarrow> x \<notin> iss \<and> (\<forall>t' d. own t' \<noteq> Some (x, d)) \<and> (\<forall>t'. ret t' = Some x \<longrightarrow> t' = t))"

lemma tblI:
  assumes "\<And>x d. pend x d \<Longrightarrow> docs d = Some x" "\<And>t x d. own t = Some (x, d) \<Longrightarrow> docs d = Some x"
    and "\<And>t t' x d d'. own t = Some (x, d) \<Longrightarrow> own t' = Some (x, d') \<Longrightarrow> t = t'"
    and "\<And>t x d. own t = Some (x, d) \<Longrightarrow> bg t \<Longrightarrow> pend x d \<and> x \<notin> iss"
    and "\<And>t x d d'. own t = Some (x, d) \<Longrightarrow> \<not> bg t \<Longrightarrow> \<not> pend x d'"
    and "\<And>t x. ret t = Some x \<Longrightarrow> x \<notin> iss" "\<And>t t' x d. ret t = Some x \<Longrightarrow> own t' \<noteq> Some (x, d)"
    and "\<And>t t' x. ret t = Some x \<Longrightarrow> ret t' = Some x \<Longrightarrow> t' = t"
  shows "tbl docs pend own bg ret iss"
  unfolding tbl_def
  by (intro conjI allI impI;
      ((rule assms(1-3,5-), assumption+) | (rule conjunct1[OF assms(4)] conjunct2[OF assms(4)], assumption+)))

lemma tblD:
  assumes "tbl docs pend own bg ret iss"
  shows "pend x d \<Longrightarrow> docs d = Some x" "own t = Some (x, d) \<Longrightarrow> docs d = Some x"
    "own t = Some (x, d) \<Longrightarrow> own t' = Some (x, d') \<Longrightarrow> t = t'"
    "own t = Some (x, d) \<Longrightarrow> bg t \<Longrightarrow> pend x d" "own t = Some (x, d) \<Longrightarrow> bg t \<Longrightarrow> x \<notin> iss"
    "own t = Some (x, d) \<Longrightarrow> \<not> bg t \<Longrightarrow> \<not> pend x d'"
    "ret t = Some x \<Longrightarrow> x \<notin> iss" "ret t = Some x \<Longrightarrow> own t' \<noteq> Some (x, d)"
    "ret t = Some x \<Longrightarrow> ret t' = Some x \<Longrightarrow> t' = t"
  using assms unfolding tbl_def by (simp, blast+)

lemma tbl_owner:
  assumes "tbl docs pend own bg ret iss" "own t = Some (x, d)"
  shows "pend y d \<Longrightarrow> y = x" "own t' = Some (y, d) \<Longrightarrow> t' = t"
proof -
  note D = tblD[OF assms(1)]
  show "pend y d \<Longrightarrow> y = x" using D(1)[of y d] D(2)[OF assms(2)] by simp
  show "own t' = Some (y, d) \<Longrightarrow> t' = t" using D(2)[of t' y d] D(2)[OF assms(2)] D(3)[OF assms(2), of t' d] by simp
qed

lemma tbl_drop:
  assumes "tbl docs pend own bg ret iss"
  shows "tbl docs pend (own(t := None)) (bg(t := b)) ret iss"
  by (rule tblI) (use tblD[OF assms] in \<open>auto split: if_splits\<close>)

lemma tbl_return:
  assumes "tbl docs pend own bg ret iss" "own t = Some (x, d)" "bg t"
  shows "tbl docs pend (own(t := None)) (bg(t := b)) (ret(t \<mapsto> x)) iss"
  by (rule tblI) (use tblD[OF assms(1)] assms(2,3) in \<open>auto split: if_splits\<close>)

lemma tbl_undo:
  assumes "tbl docs pend own bg ret iss" "own t = Some (x, d)" "bg t"
  shows "tbl (docs(d := None)) (\<lambda>y e. y \<noteq> x \<and> pend y e) (own(t := None)) (bg(t := b)) ret iss"
proof (rule tblI, goal_cases)
  case (1 y e)
  then have "e \<noteq> d" using tbl_owner(1)[OF assms(1,2)] by auto
  with 1 show ?case using tblD(1)[OF assms(1)] by simp
next
  case (2 t' y e)
  then have "t' \<noteq> t" and o: "own t' = Some (y, e)" by (auto split: if_splits)
  then have "e \<noteq> d" using tbl_owner(2)[OF assms(1,2)] by auto
  then show ?case using tblD(2)[OF assms(1) o] by simp
next
  case (4 t' y e)
  then have t': "t' \<noteq> t" "own t' = Some (y, e)" "bg t'" by (auto split: if_splits)
  then have "y \<noteq> x" using tblD(3)[OF assms(1,2)] by blast
  then show ?case using tblD(4,5)[OF assms(1) t'(2,3)] by simp
qed (use tblD[OF assms(1)] in \<open>auto split: if_splits\<close>)

lemma tbl_release:
  assumes "tbl docs pend own bg ret iss" "own t = Some (x, d)" "\<not> bg t"
  shows "tbl (docs(d := None)) pend (own(t := None)) (bg(t := b)) ret iss"
proof (rule tblI, goal_cases)
  case (1 y e)
  then have "e \<noteq> d" using tbl_owner(1)[OF assms(1,2)] tblD(6)[OF assms] by auto
  with 1 show ?case using tblD(1)[OF assms(1)] by simp
next
  case (2 t' y e)
  then have "t' \<noteq> t" and o: "own t' = Some (y, e)" by (auto split: if_splits)
  then have "e \<noteq> d" using tbl_owner(2)[OF assms(1,2)] by auto
  then show ?case using tblD(2)[OF assms(1) o] by simp
qed (use tblD[OF assms(1)] in \<open>auto split: if_splits\<close>)

lemma tbl_reserve:
  assumes "tbl docs pend own bg ret iss" "docs d = None" "x \<notin> iss" "\<And>e. \<not> pend x e"
    and "\<And>t e. own t \<noteq> Some (x, e)" "\<And>t. ret t \<noteq> Some x"
  shows "tbl (docs(d \<mapsto> x)) (\<lambda>y e. if y = x then e = d else pend y e) (own(t \<mapsto> (x, d))) (bg(t := True)) ret iss"
  by (rule tblI) (use tblD[OF assms(1)] assms(2-6) in \<open>auto split: if_splits\<close>)

lemma tbl_mark:
  assumes "tbl docs pend own bg ret iss" "x \<in> iss" "pend x d"
  shows "tbl docs (\<lambda>y e. y \<noteq> x \<and> pend y e) (own(t \<mapsto> (x, d))) (bg(t := False)) ret iss"
proof -
  have "own t' \<noteq> Some (x, e)" for t' e using tblD(5,6)[OF assms(1), of t' x e] assms(2,3) by blast
  moreover have "ret t' \<noteq> Some x" for t' using tblD(7)[OF assms(1), of t' x] assms(2) by blast
  ultimately show ?thesis
    by (intro tblI) (use tblD[OF assms(1)] assms(2,3) in \<open>auto split: if_splits\<close>)
qed

lemma tbl_issue:
  assumes "tbl docs pend own bg ret iss" "ret t = Some x"
  shows "tbl docs pend own bg (ret(t := None)) (insert x iss)"
  by (rule tblI) (use tblD[OF assms(1)] assms(2) in \<open>auto split: if_splits\<close>)

definition own_of :: "'w sys \<Rightarrow> nat \<Rightarrow> (u64 \<times> bytes) option" where
  "own_of s t = (case sy_pc s t of None \<Rightarrow> None | Some pc \<Rightarrow> owns pc)"

definition bg_of :: "'w sys \<Rightarrow> nat \<Rightarrow> bool" where
  "bg_of s t = (case sy_pc s t of None \<Rightarrow> False | Some pc \<Rightarrow> is_begin pc)"

definition ret_of :: "'w sys \<Rightarrow> nat \<Rightarrow> u64 option" where
  "ret_of s t = (case sy_pc s t of Some (Begun x) \<Rightarrow> Some x | _ \<Rightarrow> None)"

definition tbl_inv :: "'w sys \<Rightarrow> bool" where
  "tbl_inv s \<longleftrightarrow> tbl (wc_active_docs (sy_c s)) (pending_in (sy_c s)) (own_of s) (bg_of s) (ret_of s) (sy_issued s)"

text \<open>Transaction ids in use are below the next id.\<close>

definition used :: "'w sys \<Rightarrow> u64 set" where
  "used s = dom (wc_active_txns (sy_c s)) \<union> sy_issued s \<union> {x. \<exists>t. ret_of s t = Some x} \<union>
     {x. \<exists>t d. own_of s t = Some (x, d)}"

definition fresh_inv :: "'w sys \<Rightarrow> bool" where
  "fresh_inv s \<longleftrightarrow> (\<forall>x\<in>used s. x < wc_next_txn_id (sy_c s))"

lemma view_upd [simp]:
  "own_of (s\<lparr>sy_c := c, sy_pc := (sy_pc s)(t \<mapsto> pc)\<rparr>) = (own_of s)(t := owns pc)"
  "bg_of (s\<lparr>sy_c := c, sy_pc := (sy_pc s)(t \<mapsto> pc)\<rparr>) = (bg_of s)(t := is_begin pc)"
  "ret_of (s\<lparr>sy_c := c, sy_pc := (sy_pc s)(t \<mapsto> pc)\<rparr>) = (ret_of s)(t := (case pc of Begun x \<Rightarrow> Some x | _ \<Rightarrow> None))"
  "own_of (s\<lparr>sy_c := c, sy_w := w, sy_pc := (sy_pc s)(t \<mapsto> pc)\<rparr>) = (own_of s)(t := owns pc)"
  "bg_of (s\<lparr>sy_c := c, sy_w := w, sy_pc := (sy_pc s)(t \<mapsto> pc)\<rparr>) = (bg_of s)(t := is_begin pc)"
  "ret_of (s\<lparr>sy_c := c, sy_w := w, sy_pc := (sy_pc s)(t \<mapsto> pc)\<rparr>) = (ret_of s)(t := (case pc of Begun x \<Rightarrow> Some x | _ \<Rightarrow> None))"
  "own_of (s\<lparr>sy_pc := (sy_pc s)(t := None)\<rparr>) = (own_of s)(t := None)"
  "bg_of (s\<lparr>sy_pc := (sy_pc s)(t := None)\<rparr>) = (bg_of s)(t := False)"
  "ret_of (s\<lparr>sy_pc := (sy_pc s)(t := None)\<rparr>) = (ret_of s)(t := None)"
  by (auto simp: own_of_def bg_of_def ret_of_def fun_eq_iff)

lemma view_ghost [simp]:
  "own_of (s\<lparr>sy_issued := i\<rparr>) = own_of s" "bg_of (s\<lparr>sy_issued := i\<rparr>) = bg_of s" "ret_of (s\<lparr>sy_issued := i\<rparr>) = ret_of s"
  "own_of (s\<lparr>sy_acked := i\<rparr>) = own_of s" "bg_of (s\<lparr>sy_acked := i\<rparr>) = bg_of s" "ret_of (s\<lparr>sy_acked := i\<rparr>) = ret_of s"
  by (auto simp: own_of_def bg_of_def ret_of_def fun_eq_iff)

lemma append_c_tables:
  "append_c env e c = (st, c') \<Longrightarrow> wc_active_txns c' = wc_active_txns c \<and> wc_active_docs c' = wc_active_docs c \<and>
     wc_next_txn_id c' = wc_next_txn_id c"
  by (auto simp: append_c_def Let_def split: option.splits prod.splits)

lemma compact_c_tables:
  "compact_c env c = Some (st, c') \<Longrightarrow> wc_active_txns c' = wc_active_txns c \<and> wc_active_docs c' = wc_active_docs c \<and>
     wc_next_txn_id c' = wc_next_txn_id c"
  by (auto simp: compact_c_def bind_eq_Some_conv split: option.splits)

text \<open>What a section can do to the tables: nothing, undo a reservation, release a document, drop finalized.\<close>

lemma exec_effect:
  assumes "exec cfg cb env pc c w = Some (pc', c', w')"
  shows "wc_next_txn_id c' = wc_next_txn_id c"
    and "pc' = Begun x \<Longrightarrow> \<exists>d. owns pc = Some (x, d)"
    and "(wc_active_txns c' = wc_active_txns c \<and> wc_active_docs c' = wc_active_docs c \<and>
          (owns pc' = owns pc \<and> is_begin pc' = is_begin pc \<or> owns pc' = None)) \<or>
      (\<exists>x d. owns pc = Some (x, d) \<and> is_begin pc \<and> c' = bw_undo x d c \<and> owns pc' = None) \<or>
      (\<exists>x d. owns pc = Some (x, d) \<and> \<not> is_begin pc \<and> wc_active_txns c' = wc_active_txns c \<and>
          wc_active_docs c' = wc_active_docs (release_doc d c) \<and> owns pc' = None) \<or>
      (c' = drop_finalized c \<and> owns pc' = None)"
proof -
  have "wc_next_txn_id c' = wc_next_txn_id c \<and> (pc' = Begun x \<longrightarrow> (\<exists>d. owns pc = Some (x, d)))"
  proof (cases pc)
    case (CmDone x' orig)
    then show ?thesis
      using assms commit_done_sel(3) by (auto simp: Let_def split: prod.splits if_splits)
  qed (use assms in \<open>auto simp: Let_def bw_undo_def drop_finalized_def bind_eq_Some_conv
      dest!: append_c_tables compact_c_tables split: prod.splits if_splits nat.splits option.splits\<close>)
  then show "wc_next_txn_id c' = wc_next_txn_id c" "pc' = Begun x \<Longrightarrow> \<exists>d. owns pc = Some (x, d)" by blast+
  show "(wc_active_txns c' = wc_active_txns c \<and> wc_active_docs c' = wc_active_docs c \<and>
          (owns pc' = owns pc \<and> is_begin pc' = is_begin pc \<or> owns pc' = None)) \<or>
      (\<exists>x d. owns pc = Some (x, d) \<and> is_begin pc \<and> c' = bw_undo x d c \<and> owns pc' = None) \<or>
      (\<exists>x d. owns pc = Some (x, d) \<and> \<not> is_begin pc \<and> wc_active_txns c' = wc_active_txns c \<and>
          wc_active_docs c' = wc_active_docs (release_doc d c) \<and> owns pc' = None) \<or>
      (c' = drop_finalized c \<and> owns pc' = None)"
  proof (cases pc)
    case (CmDone x' orig)
    obtain b c2 where "commit_done cfg (ts_doc_id orig) c = (b, c2)" by fastforce
    then show ?thesis
      using assms CmDone commit_done_sel(1,4) by (auto simp: Let_def split: if_splits)
  qed (use assms in \<open>auto simp: Let_def bind_eq_Some_conv
      dest!: append_c_tables compact_c_tables split: prod.splits if_splits nat.splits option.splits\<close>)
qed


lemma pending_in_release [simp]: "pending_in (release_doc d c) = pending_in c"
  by (intro ext) (simp add: pending_in_def)

lemma pending_in_drop [simp]: "pending_in (drop_finalized c) = pending_in c"
  by (intro ext) (auto simp: pending_in_def drop_finalized_def split: option.splits)

lemma pending_in_undo [simp]: "pending_in (bw_undo x d c) y e \<longleftrightarrow> y \<noteq> x \<and> pending_in c y e"
  by (simp add: pending_in_def bw_undo_def)

lemma pending_in_cong: "wc_active_txns c' = wc_active_txns c \<Longrightarrow> pending_in c' = pending_in c"
  by (intro ext) (simp add: pending_in_def)

lemma pending_in_mark:
  assumes "CheckAndMarkFinalizing x p c = Inr (orig, c1)" "p \<noteq> kPending"
  shows "pending_in c x (ts_doc_id orig)" "pending_in c1 y d \<longleftrightarrow> y \<noteq> x \<and> pending_in c y d"
    "wc_active_docs c1 = wc_active_docs c" "wc_next_txn_id c1 = wc_next_txn_id c" "wc_wal c1 = wc_wal c"
    "dom (wc_active_txns c1) = dom (wc_active_txns c)"
  using assms unfolding CheckAndMark_Inr by (auto simp: pending_in_def)

lemma reserve_sel:
  assumes "bw_reserve doc ids scope c = Inr (x, c1)"
  shows "x = wc_next_txn_id c" "wc_active_docs c doc = None" "wc_active_docs c1 = (wc_active_docs c)(doc \<mapsto> x)"
    "wc_next_txn_id c1 = x + 1" "wc_wal c1 = wc_wal c" "dom (wc_active_txns c1) = insert x (dom (wc_active_txns c))"
    "pending_in c1 y d \<longleftrightarrow> (if y = x then d = doc else pending_in c y d)"
  using assms by (auto simp: bw_reserve_def Let_def pending_in_def split: if_splits)


lemma tbl_inv_finalize:
  assumes "tbl_inv s" "x \<in> sy_issued s" "sy_pc s t = None"
    and m: "CheckAndMarkFinalizing x p (sy_c s) = Inr (orig, c1)" "p \<noteq> kPending"
    and pc: "owns pc = Some (x, ts_doc_id orig)" "\<not> is_begin pc"
  shows "tbl_inv (s\<lparr>sy_c := c1, sy_pc := (sy_pc s)(t \<mapsto> pc)\<rparr>)"
proof -
  note P = pending_in_mark[OF m]
  have "pending_in c1 = (\<lambda>y e. y \<noteq> x \<and> pending_in (sy_c s) y e)" using P(2) by (intro ext) simp
  moreover have "ret_of s t = None" using assms(3) by (simp add: ret_of_def)
  moreover have "(case pc of Begun x \<Rightarrow> Some x | _ \<Rightarrow> None) = None" using pc by (cases pc) simp_all
  ultimately show ?thesis
    using tbl_mark[OF assms(1)[unfolded tbl_inv_def] assms(2) P(1), of t] P(3) pc
    by (simp add: tbl_inv_def fun_upd_idem)
qed

lemma tbl_inv_begin:
  assumes inv: "tbl_inv s" "fresh_inv s" and free: "sy_pc s t = None"
    and r: "bw_reserve doc ids scope (sy_c s) = Inr (x, c1)"
  shows "tbl_inv (s\<lparr>sy_c := c1, sy_pc := (sy_pc s)(t \<mapsto> BwAppend x doc e)\<rparr>)"
proof -
  note R = reserve_sel[OF r]
  have f: "\<not> pending_in (sy_c s) x d" "x \<notin> sy_issued s" "own_of s t' \<noteq> Some (x, d)" "ret_of s t' \<noteq> Some x" for d t'
    using inv(2) R(1) unfolding fresh_inv_def used_def pending_in_def by fastforce+
  have "pending_in c1 = (\<lambda>y e. if y = x then e = doc else pending_in (sy_c s) y e)" using R(7) by (intro ext) simp
  moreover have "ret_of s t = None" using free by (simp add: ret_of_def)
  ultimately show ?thesis
    using tbl_reserve[OF inv(1)[unfolded tbl_inv_def] R(2) f(2,1,3,4), of t] R(3)
    by (simp add: tbl_inv_def fun_upd_idem)
qed

lemma tbl_inv_section:
  assumes inv: "tbl_inv s" and pc: "sy_pc s t = Some pc"
    and ex: "exec cfg cb env pc (sy_c s) (sy_w s) = Some (pc', c', w')"
  shows "tbl_inv (s\<lparr>sy_c := c', sy_w := w', sy_pc := (sy_pc s)(t \<mapsto> pc')\<rparr>)"
proof -
  have views: "own_of s t = owns pc" "bg_of s t = is_begin pc" using pc by (simp_all add: own_of_def bg_of_def)
  have rt: "ret_of s t = None" using pc ex by (cases pc) (auto simp: ret_of_def)
  note I = inv[unfolded tbl_inv_def]
  show ?thesis
  proof (cases "\<exists>x. pc' = Begun x")
    case True
    then obtain x where x: "pc' = Begun x" by blast
    then obtain d e where "pc = BwAppend x d e"
      using ex by (cases pc) (auto simp: Let_def bind_eq_Some_conv split: prod.splits if_splits nat.splits option.splits)
    then have "own_of s t = Some (x, d)" "bg_of s t" "wc_active_txns c' = wc_active_txns (sy_c s)"
      "wc_active_docs c' = wc_active_docs (sy_c s)"
      using views ex by (auto simp: Let_def dest!: append_c_tables split: prod.splits)
    with x tbl_return[OF I, of t x d False] show ?thesis
      by (simp add: tbl_inv_def pending_in_cong[of c' "sy_c s"])
  next
    case False
    then have r: "(ret_of s)(t := (case pc' of Begun x \<Rightarrow> Some x | _ \<Rightarrow> None)) = ret_of s"
      using rt by (cases pc') (simp_all add: fun_upd_idem)
    note goal = tbl_inv_def view_upd r sys.select_convs sys.simps
    from exec_effect(3)[OF ex] show ?thesis
    proof (elim disjE exE conjE)
      assume a: "wc_active_txns c' = wc_active_txns (sy_c s)" "wc_active_docs c' = wc_active_docs (sy_c s)"
        "owns pc' = owns pc" "is_begin pc' = is_begin pc"
      then have "(own_of s)(t := owns pc') = own_of s" "(bg_of s)(t := is_begin pc') = bg_of s"
        using views by (simp_all add: fun_upd_idem)
      then show ?thesis using I a by (simp add: goal pending_in_cong[OF a(1)])
    next
      assume a: "wc_active_txns c' = wc_active_txns (sy_c s)" "wc_active_docs c' = wc_active_docs (sy_c s)" "owns pc' = None"
      then show ?thesis using tbl_drop[OF I] by (simp add: goal pending_in_cong[OF a(1)])
    next
      fix x d assume a: "owns pc = Some (x, d)" "is_begin pc" "c' = bw_undo x d (sy_c s)" "owns pc' = None"
      moreover have "wc_active_docs (bw_undo x d (sy_c s)) = (wc_active_docs (sy_c s))(d := None)"
        by (simp add: bw_undo_def)
      moreover have "pending_in (bw_undo x d (sy_c s)) = (\<lambda>y e. y \<noteq> x \<and> pending_in (sy_c s) y e)"
        by (intro ext) simp
      ultimately show ?thesis using tbl_undo[OF I, of t x d] views by (simp add: goal)
    next
      fix x d assume a: "owns pc = Some (x, d)" "\<not> is_begin pc" "wc_active_txns c' = wc_active_txns (sy_c s)"
        "wc_active_docs c' = wc_active_docs (release_doc d (sy_c s))" "owns pc' = None"
      then show ?thesis
        using tbl_release[OF I, of t x d] tbl_drop[OF I] views
        by (cases "d = []") (simp_all add: goal pending_in_cong[OF a(3)])
    next
      assume "c' = drop_finalized (sy_c s)" "owns pc' = None"
      moreover have "wc_active_docs (drop_finalized (sy_c s)) = wc_active_docs (sy_c s)"
        by (simp add: drop_finalized_def)
      ultimately show ?thesis using tbl_drop[OF I] by (simp add: goal)
    qed
  qed
qed

lemma fresh_inv_section:
  assumes inv: "fresh_inv s" and pc: "sy_pc s t = Some pc"
    and ex: "exec cfg cb env pc (sy_c s) (sy_w s) = Some (pc', c', w')"
  shows "fresh_inv (s\<lparr>sy_c := c', sy_w := w', sy_pc := (sy_pc s)(t \<mapsto> pc')\<rparr>)"
proof -
  have own: "own_of s t = owns pc" using pc by (simp add: own_of_def)
  have o: "owns pc' = owns pc \<or> owns pc' = None" and dm: "dom (wc_active_txns c') \<subseteq> dom (wc_active_txns (sy_c s))"
    using exec_effect(3)[OF ex] by (auto simp: bw_undo_def drop_finalized_def split: option.splits if_splits)
  have rt: "(case pc' of Begun x \<Rightarrow> Some x | _ \<Rightarrow> None) = Some x \<Longrightarrow> \<exists>d. own_of s t = Some (x, d)" for x
    using exec_effect(2)[OF ex, of x] own by (auto split: wc_pc.splits)
  have "used (s\<lparr>sy_c := c', sy_w := w', sy_pc := (sy_pc s)(t \<mapsto> pc')\<rparr>) \<subseteq> used s"
    unfolding used_def using o dm rt own by (fastforce split: if_splits)
  with inv exec_effect(1)[OF ex] show ?thesis by (auto simp: fresh_inv_def)
qed


lemma table_inv_step:
  assumes "wc_step cfg cb s s'" "tbl_inv s" "fresh_inv s"
  shows "tbl_inv s' \<and> fresh_inv s'"
  using assms
proof (induction rule: wc_step.induct)
  case (st_begin s t doc ids scope x c1 now blob)
  note R = reserve_sel[OF st_begin.hyps(2)]
  let ?s = "s\<lparr>sy_c := c1, sy_pc := (sy_pc s)(t \<mapsto> BwAppend x doc (pending_record x now doc ids blob scope))\<rparr>"
  have lt: "y < x + 1 \<longleftrightarrow> y < x \<or> y = x" for y :: u64
    by (rule word_less_plus_one[OF st_begin.hyps(3)])
  have "used ?s \<subseteq> insert x (used s)"
    unfolding used_def using R(6) by (auto split: if_splits)
  then have "fresh_inv ?s"
    using st_begin.prems(2) R(1,4) lt unfolding fresh_inv_def by auto
  then show ?case using tbl_inv_begin[OF st_begin.prems st_begin.hyps(1,2)] by blast
next
  case (st_commit s t x orig c1 now)
  then show ?case
    using tbl_inv_finalize[OF st_commit.prems(1) st_commit.hyps(2,1,3)] pending_in_mark[OF st_commit.hyps(3)]
    by (auto simp: fresh_inv_def used_def)
next
  case (st_rollback s t x orig c1 now)
  then show ?case
    using tbl_inv_finalize[OF st_rollback.prems(1) st_rollback.hyps(2,1,3)] pending_in_mark[OF st_rollback.hyps(3)]
    by (auto simp: fresh_inv_def used_def)
next
  case (st_section s t pc env pc' c' w')
  then show ?case by (intro conjI tbl_inv_section fresh_inv_section)
next
  case (st_begun s t x)
  have v: "own_of s t = None" "\<not> bg_of s t" "ret_of s t = Some x"
    using st_begun.hyps by (simp_all add: own_of_def bg_of_def ret_of_def)
  have e: "(own_of s)(t := None) = own_of s" "(bg_of s)(t := False) = bg_of s" using v by (auto simp: fun_eq_iff)
  have "tbl_inv (s\<lparr>sy_pc := (sy_pc s)(t := None), sy_issued := insert x (sy_issued s)\<rparr>)"
    using tbl_issue[OF st_begun.prems(1)[unfolded tbl_inv_def] v(3)] by (simp add: tbl_inv_def e)
  moreover have "fresh_inv (s\<lparr>sy_pc := (sy_pc s)(t := None), sy_issued := insert x (sy_issued s)\<rparr>)"
    using st_begun.prems(2) v unfolding fresh_inv_def used_def by (auto split: if_splits)
  ultimately show ?case by blast
next
  case (st_acked s t x)
  have v: "own_of s t = None" "\<not> bg_of s t" "ret_of s t = None"
    using st_acked.hyps by (simp_all add: own_of_def bg_of_def ret_of_def)
  have "(own_of s)(t := None) = own_of s" "(bg_of s)(t := False) = bg_of s" "(ret_of s)(t := None) = ret_of s"
    using v by (auto simp: fun_eq_iff)
  then show ?case using st_acked.prems by (simp add: tbl_inv_def fresh_inv_def used_def)
next
  case (st_finished s t st)
  have v: "own_of s t = None" "\<not> bg_of s t" "ret_of s t = None"
    using st_finished.hyps by (simp_all add: own_of_def bg_of_def ret_of_def)
  have "(own_of s)(t := None) = own_of s" "(bg_of s)(t := False) = bg_of s" "(ret_of s)(t := None) = ret_of s"
    using v by (auto simp: fun_eq_iff)
  then show ?case using st_finished.prems by (simp add: tbl_inv_def fresh_inv_def used_def)
qed

lemma reach_tables: "wc_reach cfg cb s \<Longrightarrow> tbl_inv s \<and> fresh_inv s"
proof (induction rule: wc_reach.induct)
  case (start s)
  then have "own_of s = (\<lambda>_. None)" "ret_of s = (\<lambda>_. None)" "pending_in (sy_c s) = (\<lambda>_ _. False)"
    by (auto simp: started_def own_of_def ret_of_def pending_in_def fun_eq_iff)
  with start show ?case by (simp add: tbl_inv_def tbl_def fresh_inv_def used_def started_def)
next
  case (step s s')
  then show ?case using table_inv_step by blast
qed

section \<open>The invariant of the log\<close>








lemma finalized_single [simp]: "x \<in> finalized [e] \<longleftrightarrow> pe_txn_id e = x \<and> pe_state e \<noteq> kPending"
  by (cases "pe_state e") (auto simp: finalized_has_record)













definition pend_of :: "Coordinator \<Rightarrow> u64 set" where
  "pend_of c = {x. \<exists>d. pending_in c x d}"











abbreviation "moved s t pc' c' w' \<equiv> s\<lparr>sy_c := c', sy_w := w', sy_pc := (sy_pc s)(t \<mapsto> pc')\<rparr>"






lemma commit_done_pend:
  "commit_done cfg d c = (b, c') \<Longrightarrow> pend_of c' = pend_of c"
  using pending_in_cong[of c' c] commit_done_sel(1)[of cfg d c b c'] by (simp add: pend_of_def)











section \<open>After a crash\<close>






section \<open>A run\<close>

text \<open>A concrete run for the witnesses: one transaction is begun and, later, committed.\<close>

definition empty_log :: PendingLog where
  "empty_log = \<lparr>pl_path_file = log_image [], pl_detached = None, pl_synced = length (log_image []),
     pl_file_size = length (log_image []), pl_append_failures = 0, pl_shutdown = False\<rparr>"

definition first_state :: "unit sys" where
  "first_state = \<lparr>sy_c = wc_new\<lparr>wc_wal := Some empty_log\<rparr>, sy_w = (), sy_pc = Map.empty, sy_issued = {}, sy_acked = {}\<rparr>"

definition no_callback :: "unit callback option" where
  "no_callback = None"

lemma first_state_reached: "wc_reach default_config no_callback first_state"
  by (rule wc_reach.start) (auto simp: started_def first_state_def wc_new_def empty_log_def clean_def)

lemma benign_io_good [simp]: "benign io_good"
  by (simp add: benign_def)

lemma append_c_good:
  assumes "wc_wal c = Some wal" "clean wal es" "writable wal" "storable e"
  shows "\<exists>st wal'. append_c io_good e c = (st, c\<lparr>wc_wal := Some wal'\<rparr>) \<and> ok st \<and> clean wal' (es @ [e]) \<and> writable wal'"
proof -
  have "entry_fits e" "carried e = e" using assms(4) by (auto simp: storable_def)
  with Append_good_clean[OF assms(2,3)] obtain st wal' where
    "Append io_good e wal = (st, wal')" "ok st" "clean wal' (es @ [e])" "writable wal'" by metis
  with assms(1) show ?thesis by (auto simp: append_c_def)
qed

definition begun_table :: TxnState where
  "begun_table = \<lparr>ts_state = kPending, ts_doc_id = [0x64], ts_block_ids = [4, 5], ts_scope = kDocument\<rparr>"

lemma begun_run:
  "\<exists>s wal es. wc_reach default_config no_callback s \<and> sy_issued s = {1} \<and> sy_pc s = Map.empty \<and>
     wc_active_txns (sy_c s) = [1 \<mapsto> begun_table] \<and> wc_wal (sy_c s) = Some wal \<and> clean wal es \<and> length es = 1 \<and> writable wal \<and>
     wc_committed_since_compact (sy_c s) = 0"
proof -
  let ?e = "pending_record 1 7 [0x64] [4, 5] False kDocument"
  let ?c1 = "wc_new\<lparr>wc_wal := Some empty_log, wc_next_txn_id := 2, wc_active_txns := [1 \<mapsto> begun_table],
    wc_active_docs := [[0x64] \<mapsto> 1]\<rparr>"
  have st: "storable ?e" by (simp add: storable_def carried_def entry_fits_def pending_record_def)
  have res: "bw_reserve [0x64] [4, 5] kDocument (sy_c first_state) = Inr (1, ?c1)"
    by (simp add: bw_reserve_def first_state_def wc_new_def begun_table_def)
  define s1 where "s1 = first_state\<lparr>sy_c := ?c1, sy_pc := [0 \<mapsto> BwAppend 1 [0x64] ?e]\<rparr>"
  have "wc_step default_config no_callback first_state s1"
    using wc_step.st_begin[OF _ res, of 0 7 False default_config no_callback] st
    by (simp add: first_state_def s1_def storable_def)
  then have r1: "wc_reach default_config no_callback s1" by (rule wc_reach.step[OF first_state_reached])
  obtain st wal' where ap: "append_c io_good ?e ?c1 = (st, ?c1\<lparr>wc_wal := Some wal'\<rparr>)" "ok st" "clean wal' [?e]" "writable wal'"
    using append_c_good[OF _ _ _ st, of ?c1 empty_log "[]"]
    by (auto simp: empty_log_def clean_def writable_def)
  define s2 where "s2 = s1\<lparr>sy_c := ?c1\<lparr>wc_wal := Some wal'\<rparr>, sy_w := (), sy_pc := [0 \<mapsto> Begun 1]\<rparr>"
  have "wc_step default_config no_callback s1 s2"
    using wc_step.st_section[of s1 0 "BwAppend 1 [0x64] ?e" io_good default_config no_callback] ap
    by (simp add: s1_def s2_def)
  then have r2: "wc_reach default_config no_callback s2" by (rule wc_reach.step[OF r1])
  define s3 where "s3 = s2\<lparr>sy_pc := Map.empty, sy_issued := {1}\<rparr>"
  have "wc_step default_config no_callback s2 s3"
    using wc_step.st_begun[of s2 0 1 default_config no_callback] by (simp add: s1_def s2_def s3_def first_state_def)
  then have "wc_reach default_config no_callback s3" by (rule wc_reach.step[OF r2])
  then show ?thesis using ap(3,4)
    by (intro exI[of _ s3] exI[of _ wal'] exI[of _ "[?e]"]) (auto simp: s3_def s2_def wc_new_def)
qed




section \<open>Properties\<close>

text \<open>
  C2: mutual exclusion under concurrency.  In every state reachable by interleaved calls, a document has
  at most one PENDING transaction, that transaction is the one registered for the document, and a
  further \<open>BeginWrite\<close> on the document is rejected.
\<close>
theorem one_live_transaction_per_document:
  assumes "wc_reach cfg cb s" "pending_in (sy_c s) x d"
  shows "wc_active_docs (sy_c s) d = Some x \<and> (\<forall>y. pending_in (sy_c s) y d \<longrightarrow> y = x) \<and>
    (\<exists>st. bw_reserve d ids scope (sy_c s) = Inl st)"
proof -
  have d: "pending_in (sy_c s) y d \<Longrightarrow> wc_active_docs (sy_c s) d = Some y" for y
    using reach_tables[OF assms(1)] tblD(1) unfolding tbl_inv_def by metis
  from d[OF assms(2)] d show ?thesis by (auto simp: bw_reserve_def)
qed

theorem one_live_transaction_per_document_witness:
  "\<exists>s. wc_reach default_config no_callback s \<and> pending_in (sy_c s) 1 [0x64] \<and>
    wc_active_docs (sy_c s) [0x64] = Some 1 \<and> (\<exists>st. bw_reserve [0x64] [] kDocument (sy_c s) = Inl st)"
proof -
  obtain s where s: "wc_reach default_config no_callback s" "wc_active_txns (sy_c s) = [1 \<mapsto> begun_table]"
    using begun_run by blast
  then have p: "pending_in (sy_c s) 1 [0x64]" by (simp add: pending_in_def begun_table_def)
  from one_live_transaction_per_document[OF s(1) p] s(1) p show ?thesis by blast
qed





end
