(* ===== verification/Wal_Entry.thy ===== *)
theory Wal_Entry
  imports Framing Framed_Log
begin

text \<open>
  The mutation records of the vector index's write-ahead log
  (\<^verbatim>\<open>include/cortrix/store/phnsw/wal_entry.h\<close>, \<^verbatim>\<open>src/store/phnsw/wal_entry.cpp\<close>,
  \<^verbatim>\<open>include/cortrix/store/phnsw_errors.h\<close>): the INSERT and DELETE frames, their parser with its memory
  safety, the round trip, and the rejection of torn and altered frames.  A \<open>float\<close> is its 32-bit
  pattern: the sources only move the bits (\<open>memcpy\<close>), so this loses nothing.
\<close>

section \<open>Errors\<close>

abbreviation "phnsw_kVectorDimMismatch \<equiv> ''CX_ERR_PHNSW_VECTOR_DIM_MISMATCH''"
abbreviation "phnsw_kWalWriteFailed \<equiv> ''CX_ERR_PHNSW_WAL_WRITE_FAILED''"
abbreviation "phnsw_kWalCorrupted \<equiv> ''CX_ERR_PHNSW_WAL_CORRUPTED''"
abbreviation "phnsw_kWalSyncFailed \<equiv> ''CX_ERR_PHNSW_WAL_SYNC_FAILED''"
abbreviation "phnsw_kSnapshotFailed \<equiv> ''CX_ERR_PHNSW_SNAPSHOT_FAILED''"
abbreviation "phnsw_kSnapshotCorrupted \<equiv> ''CX_ERR_PHNSW_SNAPSHOT_CORRUPTED''"
abbreviation "phnsw_kIndexFull \<equiv> ''CX_ERR_PHNSW_INDEX_FULL''"
abbreviation "phnsw_kRecoveryFailed \<equiv> ''CX_ERR_PHNSW_RECOVERY_FAILED''"
abbreviation "phnsw_kNotReady \<equiv> ''CX_ERR_PHNSW_NOT_READY''"

definition PhnswStatus :: "StatusCode \<Rightarrow> string \<Rightarrow> string \<Rightarrow> Status" where
  "PhnswStatus sc c detail = CodedStatus sc c detail"

lemma ok_PhnswStatus [simp, status]: "ok (PhnswStatus sc c d) \<longleftrightarrow> sc = kOk"
  by (simp add: PhnswStatus_def)

abbreviation "wal_corrupted d \<equiv> PhnswStatus kInvalidArgument phnsw_kWalCorrupted d"

section \<open>The record\<close>

datatype WalType = kInsert | kDelete

type_synonym f32 = u32

record WalEntry =
  we_type :: WalType
  we_timestamp_ms :: u64
  we_block_id :: u64
  we_vector :: "f32 list"

fun wal_type_byte :: "WalType \<Rightarrow> u8" where
  "wal_type_byte kInsert = 1"
| "wal_type_byte kDelete = 2"

abbreviation (input) "kFixedBodyBytes \<equiv> (17::nat)"
abbreviation (input) "kCrcBytes \<equiv> (4::nat)"
abbreviation (input) "kEntrySizeBytes \<equiv> (4::nat)"

section \<open>Serialization\<close>

text \<open>
  A negative timestamp asks for the current time; both are the \<open>int64_t\<close> bit patterns that are stored.
\<close>

definition NowMsOrGiven :: "int \<Rightarrow> u64 \<Rightarrow> u64" where
  "NowMsOrGiven timestamp_ms now = (if timestamp_ms \<ge> 0 then word_of_int timestamp_ms else now)"

definition FrameFromBody :: "bytes \<Rightarrow> bytes" where
  "FrameFromBody body = frame body"

definition insert_body :: "u64 \<Rightarrow> f32 list \<Rightarrow> u64 \<Rightarrow> bytes" where
  "insert_body block_id vec ts =
     PutU8 (wal_type_byte kInsert) @ PutU64 ts @ PutU64 block_id @ concat (map PutU32 vec)"

definition delete_body :: "u64 \<Rightarrow> u64 \<Rightarrow> bytes" where
  "delete_body block_id ts = PutU8 (wal_type_byte kDelete) @ PutU64 ts @ PutU64 block_id"

definition SerializeInsert :: "u64 \<Rightarrow> f32 list \<Rightarrow> int \<Rightarrow> u64 \<Rightarrow> bytes" where
  "SerializeInsert block_id vec timestamp_ms now =
     FrameFromBody (insert_body block_id vec (NowMsOrGiven timestamp_ms now))"

definition SerializeDelete :: "u64 \<Rightarrow> int \<Rightarrow> u64 \<Rightarrow> bytes" where
  "SerializeDelete block_id timestamp_ms now =
     FrameFromBody (delete_body block_id (NowMsOrGiven timestamp_ms now))"

section \<open>DeserializeFrom\<close>

fun read_floats :: "bytes \<Rightarrow> nat \<Rightarrow> nat \<Rightarrow> (f32 list) option" where
  "read_floats p pos 0 = Some []"
| "read_floats p pos (Suc n) = do {
     b \<leftarrow> read_u32 p pos;
     bs \<leftarrow> read_floats p (pos + 4) n;
     Some (b # bs) }"

text \<open>The CRC-validated body; its length is at least \<open>kFixedBodyBytes\<close> when the framing layer calls this.\<close>

definition parse_wal_body :: "int \<Rightarrow> bytes \<Rightarrow> (Status + WalEntry) option" where
  "parse_wal_body expected_dim bp = do {
     type_raw \<leftarrow> read_u8 bp 0;
     if type_raw \<noteq> wal_type_byte kInsert \<and> type_raw \<noteq> wal_type_byte kDelete
     then Some (Inl (wal_corrupted ''WalEntry: unknown entry_type''))
     else do {
       ts \<leftarrow> read_u64 bp 1;
       bid \<leftarrow> read_u64 bp 9;
       let body_len = length bp;
       if type_raw = wal_type_byte kInsert then
         (let vec_bytes = body_len - kFixedBodyBytes; vec_dim = vec_bytes div 4 in
          if vec_bytes mod 4 \<noteq> 0 then Some (Inl (wal_corrupted ''WalEntry: INSERT vector not float-aligned''))
          else if expected_dim > 0 \<and> vec_dim \<noteq> nat expected_dim then
            Some (Inl (PhnswStatus kInvalidArgument phnsw_kVectorDimMismatch ''WalEntry: INSERT dim mismatch''))
          else do {
            vec \<leftarrow> read_floats bp kFixedBodyBytes vec_dim;
            Some (Inr \<lparr>we_type = kInsert, we_timestamp_ms = ts, we_block_id = bid, we_vector = vec\<rparr>) })
       else if body_len \<noteq> kFixedBodyBytes then
         Some (Inl (wal_corrupted ''WalEntry: DELETE carries unexpected payload''))
       else Some (Inr \<lparr>we_type = kDelete, we_timestamp_ms = ts, we_block_id = bid, we_vector = []\<rparr>) } }"

definition WalDeserializeFrom :: "int \<Rightarrow> bytes \<Rightarrow> nat \<Rightarrow> (Status + WalEntry \<times> nat) option" where
  "WalDeserializeFrom expected_dim data start =
     (let size = length data in
      if size < start + kEntrySizeBytes then Some (Inl (wal_corrupted ''WalEntry: truncated entry_size''))
      else do {
        entry_size \<leftarrow> read_u32 data start;
        if unat entry_size < kFixedBodyBytes + kCrcBytes
        then Some (Inl (wal_corrupted ''WalEntry: entry_size below minimum''))
        else let frame_end = start + kEntrySizeBytes + unat entry_size in
        if size < frame_end then Some (Inl (wal_corrupted ''WalEntry: frame extends past buffer''))
        else let body_begin = start + kEntrySizeBytes; body_len = unat entry_size - kCrcBytes in do {
          stored_crc \<leftarrow> read_u32 data (body_begin + body_len);
          body \<leftarrow> read_bytes data body_begin body_len;
          if stored_crc \<noteq> Crc32 body then Some (Inl (wal_corrupted ''WalEntry: CRC mismatch''))
          else do {
            r \<leftarrow> parse_wal_body expected_dim body;
            Some (case r of Inl s \<Rightarrow> Inl s | Inr e \<Rightarrow> Inr (e, frame_end)) } } })"

definition WalDeserialize :: "int \<Rightarrow> bytes \<Rightarrow> (Status + WalEntry) option" where
  "WalDeserialize expected_dim bs = do {
     r \<leftarrow> WalDeserializeFrom expected_dim bs 0;
     Some (case r of Inl s \<Rightarrow> Inl s
           | Inr (e, offset) \<Rightarrow>
               if offset \<noteq> length bs
               then Inl (wal_corrupted ''WalEntry::Deserialize: trailing bytes after one record'')
               else Inr e) }"

section \<open>Memory safety and progress\<close>

lemma read_floats_total:
  "pos + 4 * n \<le> length p \<Longrightarrow> \<exists>v. read_floats p pos n = Some v \<and> length v = n"
proof (induction n arbitrary: pos)
  case (Suc n)
  then have "pos + 4 + 4 * n \<le> length p" by simp
  with Suc.IH obtain v where "read_floats p (pos + 4) n = Some v" "length v = n" by blast
  with Suc.prems show ?case by (simp add: read_u32_def)
qed simp

lemma parse_wal_body_total:
  assumes "17 \<le> length bp"
  shows "\<exists>r. parse_wal_body d bp = Some r"
proof -
  have "\<exists>v. read_floats bp 17 ((length bp - 17) div 4) = Some v \<and> length v = (length bp - 17) div 4"
    by (rule read_floats_total) (use assms in simp)
  then obtain v where "read_floats bp 17 ((length bp - 17) div 4) = Some v" by blast
  with assms show ?thesis by (auto simp: parse_wal_body_def read_u8_def read_u64_def Let_def)
qed

lemma WalDeserializeFrom_total: "\<exists>r. WalDeserializeFrom d data start = Some r"
proof (cases "length data < start + 4 \<or> unat (GetU32 (drop start data)) < 21 \<or>
    length data < start + 4 + unat (GetU32 (drop start data))")
  case True
  then show ?thesis by (auto simp: WalDeserializeFrom_def read_defs Let_def)
next
  case False
  let ?b = "take (unat (GetU32 (drop start data)) - 4) (drop (start + 4) data)"
  have "17 \<le> length ?b" using False by simp linarith
  then obtain r where "parse_wal_body d ?b = Some r" using parse_wal_body_total by blast
  then show ?thesis by (simp add: WalDeserializeFrom_def read_defs Let_def)
qed

lemma WalDeserializeFrom_InrD:
  assumes "WalDeserializeFrom dim d off = Some (Inr (e, nxt))"
  defines "f \<equiv> unat (GetU32 (drop off d))"
  shows "off + 4 \<le> length d" "21 \<le> f" "off + 4 + f = nxt" "nxt \<le> length d"
    "GetU32 (drop (off + f) d) = Crc32 (take (f - 4) (drop (off + 4) d))"
    "parse_wal_body dim (take (f - 4) (drop (off + 4) d)) = Some (Inr e)"
  using assms
  by (auto simp: WalDeserializeFrom_def read_defs Let_def bind_eq_Some_conv split: if_splits)

lemma read_floats_length: "read_floats p pos n = Some v \<Longrightarrow> length v = n"
  by (induction n arbitrary: pos v) (auto simp: bind_eq_Some_conv)

lemma parse_wal_body_dim:
  "parse_wal_body dim bp = Some (Inr e) \<Longrightarrow> we_type e = kInsert \<Longrightarrow> 0 < dim \<Longrightarrow> length (we_vector e) = nat dim"
  by (auto simp: parse_wal_body_def bind_eq_Some_conv Let_def dest: read_floats_length split: if_splits)

section \<open>Round trip\<close>

definition wal_body :: "WalEntry \<Rightarrow> bytes" where
  "wal_body e = (case we_type e of
     kInsert \<Rightarrow> insert_body (we_block_id e) (we_vector e) (we_timestamp_ms e)
   | kDelete \<Rightarrow> delete_body (we_block_id e) (we_timestamp_ms e))"

text \<open>The frame of an entry, and the entries an index of dimension \<open>dim\<close> can log.\<close>

definition wal_frame :: "WalEntry \<Rightarrow> bytes" where
  "wal_frame e = FrameFromBody (wal_body e)"

definition wal_entry_ok :: "int \<Rightarrow> WalEntry \<Rightarrow> bool" where
  "wal_entry_ok dim e \<longleftrightarrow> (case we_type e of
     kInsert \<Rightarrow> (dim > 0 \<longrightarrow> length (we_vector e) = nat dim) \<and> 4 * length (we_vector e) + 21 < 2 ^ 32
   | kDelete \<Rightarrow> we_vector e = [])"

lemma length_concat_PutU32 [simp, codec]: "length (concat (map PutU32 v)) = 4 * length v"
  by (simp add: length_concat_map_const)

lemma length_wal_body [simp]:
  "length (wal_body e) = (case we_type e of kInsert \<Rightarrow> 17 + 4 * length (we_vector e) | kDelete \<Rightarrow> 17)"
  by (simp add: wal_body_def insert_body_def delete_body_def split: WalType.split)

lemma wal_frame_fits: "wal_entry_ok dim e \<Longrightarrow> frame_fits (wal_body e)"
  by (auto simp: wal_entry_ok_def frame_fits_def split: WalType.splits)

lemma read_floats_put:
  "read_floats (pre @ concat (map PutU32 v) @ post) (length pre) (length v) = Some v"
proof (induction v arbitrary: pre)
  case (Cons b v)
  have "read_floats ((pre @ PutU32 b) @ concat (map PutU32 v) @ post) (length (pre @ PutU32 b)) (length v) = Some v"
    by (rule Cons.IH)
  then show ?case by (simp add: read_u32_def)
qed simp

lemma read_wal_head:
  fixes b :: u8 and ts bid :: u64 and rest :: bytes
  defines "p \<equiv> PutU8 b @ PutU64 ts @ PutU64 bid @ rest"
  shows "read_u8 p 0 = Some b" "read_u64 p 1 = Some ts" "read_u64 p 9 = Some bid" "length p = 17 + length rest"
  by (simp_all add: p_def read_defs) (simp_all add: PutU8_def)

lemma parse_wal_body_wal_body:
  assumes "wal_entry_ok dim e"
  shows "parse_wal_body dim (wal_body e) = Some (Inr e)"
proof (cases "we_type e")
  case kInsert
  let ?b = "insert_body (we_block_id e) (we_vector e) (we_timestamp_ms e)"
  note rd = read_wal_head[of "wal_type_byte kInsert" "we_timestamp_ms e" "we_block_id e" "concat (map PutU32 (we_vector e))",
      folded insert_body_def]
  have l: "length ?b = 17 + 4 * length (we_vector e)" using rd(4) by simp
  have v: "read_floats ?b 17 (length (we_vector e)) = Some (we_vector e)"
    using read_floats_put[of "PutU8 (wal_type_byte kInsert) @ PutU64 (we_timestamp_ms e) @ PutU64 (we_block_id e)" "we_vector e" "[]"]
    by (simp add: insert_body_def)
  have d: "dim > 0 \<longrightarrow> length (we_vector e) = nat dim" using assms kInsert by (simp add: wal_entry_ok_def)
  have w: "wal_body e = ?b" using kInsert by (simp add: wal_body_def)
  have "parse_wal_body dim ?b =
      Some (Inr \<lparr>we_type = kInsert, we_timestamp_ms = we_timestamp_ms e, we_block_id = we_block_id e, we_vector = we_vector e\<rparr>)"
    unfolding parse_wal_body_def rd(1-3) using l v d by (simp add: Let_def)
  then show ?thesis unfolding w using kInsert by simp
next
  case kDelete
  note rd = read_wal_head[of "wal_type_byte kDelete" "we_timestamp_ms e" "we_block_id e" "[]", simplified, folded delete_body_def]
  have w: "wal_body e = delete_body (we_block_id e) (we_timestamp_ms e)" using kDelete by (simp add: wal_body_def)
  show ?thesis
    unfolding w parse_wal_body_def
    using assms kDelete
    by (simp add: delete_body_def read_defs PutU8_def wal_entry_ok_def)
qed

lemma WalDeserializeFrom_frame:
  assumes "frame_fits body" "17 \<le> length body"
  shows "WalDeserializeFrom dim (pre @ frame body @ post) (length pre) = do {
    r \<leftarrow> parse_wal_body dim body;
    Some (case r of Inl s \<Rightarrow> Inl s | Inr e \<Rightarrow> Inr (e, 8 + (length pre + length body))) }"
  using assms unat_frame_size[OF assms(1)]
  by (simp add: WalDeserializeFrom_def Let_def read_frame_crc read_frame_body)

lemma length_wal_body_ge: "17 \<le> length (wal_body e)"
  by (simp split: WalType.split)

lemma WalDeserializeFrom_wal_frame:
  assumes "wal_entry_ok dim e"
  shows "WalDeserializeFrom dim (pre @ wal_frame e @ post) (length pre) =
    Some (Inr (e, length pre + length (wal_frame e)))"
  using WalDeserializeFrom_frame[OF wal_frame_fits[OF assms] length_wal_body_ge]
  by (simp add: wal_frame_def FrameFromBody_def parse_wal_body_wal_body[OF assms] del: length_wal_body)

section \<open>Torn and altered frames\<close>

lemma WalDeserializeFrom_torn:
  assumes "frame_fits body" "17 \<le> length body" "k < length (frame body)"
  shows "\<exists>s. WalDeserializeFrom dim (pre @ take k (frame body)) (length pre) = Some (Inl s) \<and> \<not> ok s"
proof (cases "4 \<le> k")
  case True
  with assms show ?thesis
    using unat_frame_size[OF assms(1)] by (auto simp: WalDeserializeFrom_def Let_def read_torn_size)
next
  case False
  with assms show ?thesis by (auto simp: WalDeserializeFrom_def Let_def)
qed

lemma WalDeserializeFrom_altered:
  assumes "frame_fits body" "17 \<le> length body" "i < length body" "d \<noteq> body ! i"
  shows "WalDeserializeFrom dim (pre @ frame_with_byte body i d @ post) (length pre) =
    Some (Inl (wal_corrupted ''WalEntry: CRC mismatch''))"
proof -
  have "Crc32 body \<noteq> Crc32 (body[i := d])" using Crc32_one_byte[OF assms(3,4)] by simp
  then show ?thesis
    using assms unat_frame_size[OF assms(1)]
    by (simp add: WalDeserializeFrom_def Let_def read_altered)
qed

section \<open>The codec as a framed log\<close>

lemma WalDeserializeFrom_local:
  assumes p: "WalDeserializeFrom dim d off = Some (Inr (e, nxt))"
  shows "WalDeserializeFrom dim (take nxt d @ x) off = Some (Inr (e, nxt))"
proof -
  let ?f = "unat (GetU32 (drop off d))"
  note sz = WalDeserializeFrom_InrD(1-4)[OF p] and crc = WalDeserializeFrom_InrD(5)[OF p]
    and body = WalDeserializeFrom_InrD(6)[OF p]
  define y where "y = take nxt d @ x"
  have ly: "nxt \<le> length y" using sz by (simp add: y_def)
  have f: "GetU32 (drop off y) = GetU32 (drop off d)"
    and c: "GetU32 (drop (off + ?f) y) = GetU32 (drop (off + ?f) d)"
    using sz by (simp_all add: y_def drop_take Get_append Get_take)
  have b: "take (?f - 4) (drop (off + 4) y) = take (?f - 4) (drop (off + 4) d)"
    unfolding y_def using sz by (intro take_drop_window) simp_all
  have n4: "nxt - 4 = off + ?f" using sz by simp
  have "WalDeserializeFrom dim y off = Some (Inr (e, nxt))"
    using sz ly crc body by (simp add: WalDeserializeFrom_def read_defs Let_def f c b n4)
  then show ?thesis by (simp add: y_def)
qed

interpretation wal_codec: framed_log "WalDeserializeFrom dim" wal_frame "wal_entry_ok dim" "\<lambda>e. e" for dim
proof unfold_locales
  fix d off show "\<exists>r. WalDeserializeFrom dim d off = Some r" by (rule WalDeserializeFrom_total)
next
  fix d off e nxt assume p: "WalDeserializeFrom dim d off = Some (Inr (e, nxt))"
  show "off < nxt \<and> nxt \<le> length d" using WalDeserializeFrom_InrD(2-4)[OF p] by linarith
next
  fix d off e nxt x assume "WalDeserializeFrom dim d off = Some (Inr (e, nxt))"
  then show "WalDeserializeFrom dim (take nxt d @ x) off = Some (Inr (e, nxt))" by (rule WalDeserializeFrom_local)
next
  fix e pre post assume "wal_entry_ok dim e"
  then show "WalDeserializeFrom dim (pre @ wal_frame e @ post) (length pre) = Some (Inr (e, length pre + length (wal_frame e)))"
    by (rule WalDeserializeFrom_wal_frame)
next
  fix e k pre assume "wal_entry_ok dim e" "k < length (wal_frame e)"
  then show "\<exists>s. WalDeserializeFrom dim (pre @ take k (wal_frame e)) (length pre) = Some (Inl s)"
    using WalDeserializeFrom_torn[OF wal_frame_fits length_wal_body_ge, of dim e k dim pre]
    unfolding wal_frame_def FrameFromBody_def by blast
qed

text \<open>The records the two serializers write.\<close>

definition insert_record :: "u64 \<Rightarrow> f32 list \<Rightarrow> u64 \<Rightarrow> WalEntry" where
  "insert_record bid vec t = \<lparr>we_type = kInsert, we_timestamp_ms = t, we_block_id = bid, we_vector = vec\<rparr>"

definition delete_record :: "u64 \<Rightarrow> u64 \<Rightarrow> WalEntry" where
  "delete_record bid t = \<lparr>we_type = kDelete, we_timestamp_ms = t, we_block_id = bid, we_vector = []\<rparr>"

lemma SerializeInsert_frame: "SerializeInsert bid vec ts now = wal_frame (insert_record bid vec (NowMsOrGiven ts now))"
  by (simp add: SerializeInsert_def wal_frame_def wal_body_def insert_record_def)

lemma SerializeDelete_frame: "SerializeDelete bid ts now = wal_frame (delete_record bid (NowMsOrGiven ts now))"
  by (simp add: SerializeDelete_def wal_frame_def wal_body_def delete_record_def)

lemma WalDeserialize_wal_frame: "wal_entry_ok dim e \<Longrightarrow> WalDeserialize dim (wal_frame e) = Some (Inr e)"
  using WalDeserializeFrom_wal_frame[of dim e "[]" "[]"] by (simp add: WalDeserialize_def)

lemma parse_wal_body_not_ok: "parse_wal_body dim bp = Some (Inl s) \<Longrightarrow> \<not> ok s"
  by (auto simp: parse_wal_body_def bind_eq_Some_conv Let_def split: if_splits)

lemma WalDeserializeFrom_not_ok: "WalDeserializeFrom dim data start = Some (Inl s) \<Longrightarrow> \<not> ok s"
  by (auto simp: WalDeserializeFrom_def bind_eq_Some_conv Let_def dest: parse_wal_body_not_ok split: if_splits)

lemma WalDeserialize_not_ok: "WalDeserialize dim bs = Some (Inl s) \<Longrightarrow> \<not> ok s"
proof -
  assume a: "WalDeserialize dim bs = Some (Inl s)"
  obtain r where r: "WalDeserializeFrom dim bs 0 = Some r" using WalDeserializeFrom_total by blast
  show ?thesis
  proof (cases r)
    case (Inl st)
    then show ?thesis using a r WalDeserializeFrom_not_ok by (simp add: WalDeserialize_def)
  next
    case (Inr p)
    then show ?thesis using a r by (cases p) (auto simp: WalDeserialize_def split: if_splits)
  qed
qed

section \<open>Properties\<close>

text \<open>
  The write-ahead log codec is faithful.  A record written by \<open>SerializeInsert\<close> for a vector of the
  index's dimension, or by \<open>SerializeDelete\<close>, is read back by \<open>Deserialize\<close> with exactly its block id, time
  and vector bits, at any position of a buffer; with one byte of its body changed, or cut short, it is
  refused.
\<close>
theorem wal_record_faithful:
  assumes "0 < dim" "length vec = nat dim" "dim < 2 ^ 29"
  shows "WalDeserialize dim (SerializeInsert bid vec ts now) = Some (Inr (insert_record bid vec (NowMsOrGiven ts now))) \<and>
    WalDeserialize dim (SerializeDelete bid ts now) = Some (Inr (delete_record bid (NowMsOrGiven ts now))) \<and>
    WalDeserializeFrom dim (pre @ SerializeInsert bid vec ts now @ post) (length pre) =
      Some (Inr (insert_record bid vec (NowMsOrGiven ts now), length pre + 25 + 4 * length vec)) \<and>
    (\<forall>k < 25 + 4 * length vec. \<exists>s. WalDeserializeFrom dim (pre @ take k (SerializeInsert bid vec ts now)) (length pre) = Some (Inl s)) \<and>
    (\<forall>i < 17 + 4 * length vec. \<forall>c. c \<noteq> insert_body bid vec (NowMsOrGiven ts now) ! i \<longrightarrow>
       WalDeserializeFrom dim (pre @ (SerializeInsert bid vec ts now)[4 + i := c] @ post) (length pre) =
         Some (Inl (wal_corrupted ''WalEntry: CRC mismatch'')))"
proof -
  let ?b = "insert_body bid vec (NowMsOrGiven ts now)"
  define e where "e = insert_record bid vec (NowMsOrGiven ts now)"
  define d where "d = delete_record bid (NowMsOrGiven ts now)"
  have oke: "wal_entry_ok dim e" using assms by (auto simp: wal_entry_ok_def e_def insert_record_def)
  have okd: "wal_entry_ok dim d" by (simp add: wal_entry_ok_def d_def delete_record_def)
  have f: "SerializeInsert bid vec ts now = wal_frame e" "SerializeDelete bid ts now = wal_frame d"
    by (simp_all add: SerializeInsert_frame SerializeDelete_frame e_def d_def)
  have b: "wal_body e = ?b" by (simp add: wal_body_def e_def insert_record_def)
  have l: "length (wal_frame e) = 25 + 4 * length vec" "length ?b = 17 + 4 * length vec"
    by (simp_all add: wal_frame_def FrameFromBody_def e_def insert_record_def insert_body_def)
  have ff: "frame_fits ?b" using wal_frame_fits[OF oke] b by simp
  have alt: "(wal_frame e)[4 + i := c] = frame_with_byte ?b i c" for i c
    by (simp add: frame_with_byte_def wal_frame_def FrameFromBody_def b)
  have "WalDeserializeFrom dim (pre @ (wal_frame e)[4 + i := c] @ post) (length pre) =
      Some (Inl (wal_corrupted ''WalEntry: CRC mismatch''))" if "i < 17 + 4 * length vec" "c \<noteq> ?b ! i" for i c
    unfolding alt by (rule WalDeserializeFrom_altered[OF ff]) (use that l in simp_all)
  then show ?thesis
    unfolding f e_def[symmetric] d_def[symmetric] using oke okd WalDeserialize_wal_frame WalDeserializeFrom_wal_frame[OF oke, of pre post]
      wal_codec.parse_torn[OF oke, of _ pre] l by auto
qed

theorem wal_record_faithful_witness:
  "WalDeserialize 2 (SerializeInsert 7 [0x3F800000, 0] 5 0) =
     Some (Inr \<lparr>we_type = kInsert, we_timestamp_ms = 5, we_block_id = 7, we_vector = [0x3F800000, 0]\<rparr>)"
  using wal_record_faithful[of 2 "[0x3F800000, 0]" 7 5 0 "[]" "[]"] by (simp add: NowMsOrGiven_def insert_record_def)

text \<open>
  C39: the record parser of the index log never reads outside its buffer.  On every byte sequence, offset and
  expected dimension it returns a result; when it accepts a record it has moved forward within the buffer, and
  an accepted vector has the expected dimension.
\<close>
theorem wal_parser_memory_safe:
  "\<exists>r. WalDeserializeFrom dim data off = Some r \<and>
     (\<forall>e nxt. r = Inr (e, nxt) \<longrightarrow> off + 25 \<le> nxt \<and> nxt \<le> length data \<and>
        (we_type e = kInsert \<and> 0 < dim \<longrightarrow> length (we_vector e) = nat dim))"
proof -
  obtain r where r: "WalDeserializeFrom dim data off = Some r" using WalDeserializeFrom_total by blast
  have "off + 25 \<le> nxt \<and> nxt \<le> length data \<and> (we_type e = kInsert \<and> 0 < dim \<longrightarrow> length (we_vector e) = nat dim)"
    if "r = Inr (e, nxt)" for e nxt
  proof -
    note p = WalDeserializeFrom_InrD[of dim data off e nxt]
    have "off + 25 \<le> nxt" "nxt \<le> length data" using p(2-4) r that by fastforce+
    moreover have "length (we_vector e) = nat dim" if "we_type e = kInsert" "0 < dim"
      using p(6) r \<open>r = Inr (e, nxt)\<close> that by (auto intro: parse_wal_body_dim)
    ultimately show ?thesis by blast
  qed
  with r show ?thesis by blast
qed

theorem wal_parser_memory_safe_witness:
  "\<exists>s. WalDeserializeFrom 2 [1, 2, 3] 0 = Some (Inl s)"
proof -
  obtain r where r: "WalDeserializeFrom 2 [1, 2, 3] 0 = Some r"
    "\<And>e nxt. r = Inr (e, nxt) \<Longrightarrow> 0 + 25 \<le> nxt \<and> nxt \<le> length [1, 2, 3 :: u8]"
    using wal_parser_memory_safe[of 2 "[1, 2, 3]" 0] by blast
  show ?thesis
  proof (cases r)
    case (Inr p)
    then show ?thesis using r(2)[of "fst p" "snd p"] by auto
  qed (use r in simp)
qed

end
