(* ===== verification/Wal_Writer.thy ===== *)
theory Wal_Writer
  imports Wal_Entry Posix_File Group_Commit
begin

text \<open>
  The write-ahead log file of the vector index (\<^verbatim>\<open>include/cortrix/store/phnsw/wal_writer.h\<close>,
  \<^verbatim>\<open>src/store/phnsw/wal_writer.cpp\<close>): the 32-byte header with the record count and the monotonic log
  sequence number, \<open>Open\<close>, the append paths, \<open>ReadAll\<close> with its repair, and \<open>Truncate\<close>.  \<open>ww_disk\<close> is the
  content of the file at its last successful sync, a ghost variable that makes the images a crash can
  leave explicit.
\<close>

section \<open>State\<close>

record WalWriter =
  ww_file :: bytes
  ww_dim :: int
  ww_entry_count :: u64
  ww_committed_lsn :: u64
  ww_header_trusted :: bool
  ww_disk :: bytes

record WalWriterStats =
  wws_entry_count :: u64
  wws_committed_lsn :: u64
  wws_file_size_bytes :: nat

abbreviation (input) "wal_kHeaderSize \<equiv> (32::nat)"

definition wal_kMagic :: bytes where
  "wal_kMagic = [0x50, 0x57, 0x41, 0x4C]"

definition wal_kVersion :: u16 where
  "wal_kVersion = 1"

definition wal_write_failed :: "string \<Rightarrow> string \<Rightarrow> Status" where
  "wal_write_failed what e = PhnswStatus kUnavailable phnsw_kWalWriteFailed (what @ '': '' @ e)"

definition wal_sync_failed :: "string \<Rightarrow> string \<Rightarrow> Status" where
  "wal_sync_failed what e = PhnswStatus kUnavailable phnsw_kWalSyncFailed (what @ '': '' @ e)"

definition wal_read_failed :: "string \<Rightarrow> string \<Rightarrow> Status" where
  "wal_read_failed what e = PhnswStatus kUnavailable phnsw_kWalCorrupted (what @ '': '' @ e)"

lemma not_ok_wal [simp, status]:
  "\<not> ok (wal_write_failed w e)" "\<not> ok (wal_sync_failed w e)" "\<not> ok (wal_read_failed w e)"
  by (simp_all add: wal_write_failed_def wal_sync_failed_def wal_read_failed_def)

section \<open>Header and Open\<close>

definition wal_header_body :: "int \<Rightarrow> u64 \<Rightarrow> u64 \<Rightarrow> bytes" where
  "wal_header_body dim entry_count committed_lsn =
     wal_kMagic @ PutU16 wal_kVersion @ PutU32 (word_of_int dim) @ PutU64 entry_count @
     PutU64 committed_lsn @ [0, 0]"

definition wal_MakeHeader :: "int \<Rightarrow> u64 \<Rightarrow> u64 \<Rightarrow> bytes" where
  "wal_MakeHeader dim entry_count committed_lsn =
     (let h = wal_header_body dim entry_count committed_lsn in h @ PutU32 (Crc32 h))"

text \<open>
  \<open>Open\<close> on the bytes stored under the path, with the bytes stored afterwards.  A header whose checksum
  fails is kept but not trusted.  The path is not part of the error texts of the model.
\<close>

definition WalWriter_Open :: "io_env \<Rightarrow> bytes \<Rightarrow> int \<Rightarrow> (Status + WalWriter) \<times> bytes" where
  "WalWriter_Open env f dim =
     (let writer = (\<lambda>f cnt lsn trusted. \<lparr>ww_file = f, ww_dim = dim, ww_entry_count = cnt, ww_committed_lsn = lsn,
                      ww_header_trusted = trusted, ww_disk = f\<rparr>) in
      if dim \<le> 0 then
        (Inl (PhnswStatus kInvalidArgument phnsw_kVectorDimMismatch ''WalWriter::Open: dim must be > 0''), f)
      else case io_open env of Some e \<Rightarrow> (Inl (wal_write_failed ''WalWriter::Open: open'' e), f)
      | None \<Rightarrow>
      case io_lseek env of Some e \<Rightarrow> (Inl (wal_write_failed ''WalWriter::Open: lseek'' e), f)
      | None \<Rightarrow>
      if length f = 0 then
        (let hdr = wal_MakeHeader dim 0 0;
             (w, f') = pwrite_all (wal_write_failed ''WalWriter::Open header pwrite'') (io_pw env 0) f hdr 0 in
         if \<not> ok w then (Inl w, f')
         else case io_sync env of
           Some e \<Rightarrow> (Inl (wal_sync_failed ''WalWriter::Open header sync'' e), f')
         | None \<Rightarrow> (Inr (writer f' 0 0 True), f'))
      else if length f < wal_kHeaderSize then
        (Inl (wal_corrupted ''WalWriter::Open: file smaller than header''), f)
      else if io_read env \<noteq> RdAll then
        (Inl (PhnswStatus kUnavailable phnsw_kWalCorrupted ''WalWriter::Open: short header read''), f)
      else let hdr = take wal_kHeaderSize f in
        if take 4 hdr \<noteq> wal_kMagic then (Inl (wal_corrupted ''WalWriter::Open: bad magic''), f)
        else if GetU16 (drop 4 hdr) \<noteq> wal_kVersion then
          (Inl (wal_corrupted ''WalWriter::Open: unsupported version''), f)
        else if GetU32 (drop 6 hdr) \<noteq> word_of_int dim then
          (Inl (wal_corrupted ''WalWriter::Open: dim mismatch (file vs requested)''), f)
        else if GetU32 (drop 28 hdr) \<noteq> Crc32 (take 28 hdr) then (Inr (writer f 0 0 False), f)
        else (Inr (writer f (GetU64 (drop 10 hdr)) (GetU64 (drop 18 hdr)) True), f))"

section \<open>Appending\<close>

definition WriteRecordsLocked :: "io_env \<Rightarrow> bytes list \<Rightarrow> WalWriter \<Rightarrow> Status \<times> WalWriter" where
  "WriteRecordsLocked env records s =
     (if records = [] then (Status_Ok, s)
      else case io_lseek env of
        Some e \<Rightarrow> (wal_write_failed ''WalWriter: lseek end'' e, s)
      | None \<Rightarrow>
          let (w, f, off) = write_entries (wal_write_failed ''WalWriter::WriteRecords pwrite'') (io_pw env) 0
                              records (ww_file s) (length (ww_file s));
              s = s\<lparr>ww_file := f\<rparr> in
          if \<not> ok w then (w, s)
          else (Status_Ok, s\<lparr>ww_entry_count := ww_entry_count s + of_nat (length records),
                             ww_committed_lsn := ww_committed_lsn s + of_nat (length records)\<rparr>))"

text \<open>\<open>i\<close> is the number of the header write among the \<open>PwriteAll\<close> calls of the operation.\<close>

definition RewriteHeaderLocked :: "io_env \<Rightarrow> nat \<Rightarrow> WalWriter \<Rightarrow> Status \<times> WalWriter" where
  "RewriteHeaderLocked env i s =
     (let hdr = wal_MakeHeader (ww_dim s) (ww_entry_count s) (ww_committed_lsn s);
          (w, f) = pwrite_all (wal_write_failed ''WalWriter::RewriteHeader pwrite'') (io_pw env i) (ww_file s) hdr 0;
          s = s\<lparr>ww_file := f\<rparr>
      in (w, if ok w then s\<lparr>ww_header_trusted := True\<rparr> else s))"

definition SyncLocked :: "io_env \<Rightarrow> WalWriter \<Rightarrow> Status \<times> WalWriter" where
  "SyncLocked env s = (case io_sync env of
     Some e \<Rightarrow> (wal_sync_failed ''WalWriter: fdatasync'' e, s)
   | None \<Rightarrow> (Status_Ok, s\<lparr>ww_disk := ww_file s\<rparr>))"

definition wal_WriteBatch :: "io_env \<Rightarrow> bytes list \<Rightarrow> WalWriter \<Rightarrow> Status \<times> WalWriter" where
  "wal_WriteBatch env entries s =
     (let (w, s) = WriteRecordsLocked env entries s in
      if \<not> ok w then (w, s) else RewriteHeaderLocked env (length entries) s)"

definition wal_Sync :: "io_env \<Rightarrow> WalWriter \<Rightarrow> Status \<times> WalWriter" where
  "wal_Sync env s = SyncLocked env s"

definition wal_AppendBatch :: "io_env \<Rightarrow> bytes list \<Rightarrow> WalWriter \<Rightarrow> Status \<times> WalWriter" where
  "wal_AppendBatch env records s =
     (if records = [] then (Status_Ok, s)
      else let (w, s) = WriteRecordsLocked env records s in
      if \<not> ok w then (w, s)
      else let (h, s) = RewriteHeaderLocked env (length records) s in
      if \<not> ok h then (h, s) else SyncLocked env s)"

definition wal_Append :: "io_env \<Rightarrow> bytes \<Rightarrow> WalWriter \<Rightarrow> Status \<times> WalWriter" where
  "wal_Append env r s = wal_AppendBatch env [r] s"

section \<open>Reading, truncation, statistics\<close>

definition wal_ReadFileLocked :: "io_env \<Rightarrow> WalWriter \<Rightarrow> Status + bytes" where
  "wal_ReadFileLocked env s =
     (case io_lseek env of
        Some e \<Rightarrow> Inl (wal_read_failed ''WalWriter: lseek end'' e)
      | None \<Rightarrow> (case io_read env of
          RdErr e \<Rightarrow> Inl (wal_read_failed ''WalWriter: pread'' e)
        | RdEof n \<Rightarrow> Inr (take n (ww_file s))
        | RdAll \<Rightarrow> Inr (ww_file s)))"

definition wal_scan :: "int \<Rightarrow> bytes \<Rightarrow> (WalEntry list \<times> nat) option" where
  "wal_scan dim_check img = scan_from (WalDeserializeFrom dim_check) img wal_kHeaderSize"

text \<open>The counts re-derived after a repair; the LSN base in front of the first record is kept.\<close>

definition wal_recount :: "nat \<Rightarrow> WalWriter \<Rightarrow> WalWriter" where
  "wal_recount n s =
     (let base = ww_committed_lsn s - ww_entry_count s
      in s\<lparr>ww_entry_count := of_nat n, ww_committed_lsn := base + of_nat n\<rparr>)"

definition wal_ReadAll :: "io_env \<Rightarrow> int \<Rightarrow> WalWriter \<Rightarrow> ((Status + WalEntry list) \<times> WalWriter) option" where
  "wal_ReadAll env expected_dim s =
     (case wal_ReadFileLocked env s of
        Inl st \<Rightarrow> Some (Inl st, s)
      | Inr img \<Rightarrow>
        if length img < wal_kHeaderSize then Some (Inr [], s)
        else let dim_check = (if expected_dim > 0 then expected_dim else ww_dim s) in do {
          (out, valid_end) \<leftarrow> wal_scan dim_check img;
          let had_tail_corruption = valid_end < length img;
          if had_tail_corruption \<or> \<not> ww_header_trusted s then
            (if had_tail_corruption \<and> io_trunc env \<noteq> None then
               Some (Inl (wal_read_failed ''WalWriter::ReadAll ftruncate tail'' (the (io_trunc env))), s)
             else
               let s = (if had_tail_corruption then s\<lparr>ww_file := take valid_end (ww_file s)\<rparr> else s);
                   (h, s) = RewriteHeaderLocked env 0 (wal_recount (length out) s) in
               if \<not> ok h then Some (Inl h, s)
               else case io_sync env of
                 Some e \<Rightarrow> Some (Inl (wal_sync_failed ''WalWriter::ReadAll sync after repair'' e), s)
               | None \<Rightarrow> Some (Inr out, s\<lparr>ww_disk := ww_file s\<rparr>))
          else Some (Inr out, s) })"

definition wal_Truncate :: "io_env \<Rightarrow> WalWriter \<Rightarrow> Status \<times> WalWriter" where
  "wal_Truncate env s = (case io_trunc env of
     Some e \<Rightarrow> (wal_write_failed ''WalWriter::Truncate ftruncate'' e, s)
   | None \<Rightarrow>
       let s = s\<lparr>ww_file := take wal_kHeaderSize (ww_file s @ replicate (wal_kHeaderSize - length (ww_file s)) 0),
                 ww_entry_count := 0\<rparr>;
           (h, s) = RewriteHeaderLocked env 0 s in
       if \<not> ok h then (h, s) else SyncLocked env s)"

definition wal_GetStats :: "io_env \<Rightarrow> WalWriter \<Rightarrow> Status + WalWriterStats" where
  "wal_GetStats env s = (case io_lseek env of
     Some e \<Rightarrow> Inl (wal_read_failed ''WalWriter::GetStats lseek'' e)
   | None \<Rightarrow> Inr \<lparr>wws_entry_count = ww_entry_count s, wws_committed_lsn = ww_committed_lsn s,
                  wws_file_size_bytes = length (ww_file s)\<rparr>)"

definition committed_lsn :: "WalWriter \<Rightarrow> u64" where
  "committed_lsn s = ww_committed_lsn s"

definition entry_count :: "WalWriter \<Rightarrow> u64" where
  "entry_count s = ww_entry_count s"

text \<open>
  The images a crash can leave after record appends and header rewrites that no sync has covered: the
  header is the old or the new one (it lies in one sector), and of the appended bytes any prefix may
  have reached the disk, independently of the header.
\<close>

definition wal_crash_image :: "WalWriter \<Rightarrow> bytes \<Rightarrow> bool" where
  "wal_crash_image s f \<longleftrightarrow>
     (\<exists>h k. h \<in> {take 32 (ww_disk s), take 32 (ww_file s)} \<and> length (drop 32 (ww_disk s)) \<le> k \<and>
        f = h @ take k (drop 32 (ww_file s)))"

section \<open>A log that holds given records\<close>

definition wal_image :: "int \<Rightarrow> u64 \<Rightarrow> u64 \<Rightarrow> WalEntry list \<Rightarrow> bytes" where
  "wal_image dim cnt lsn es = wal_MakeHeader dim cnt lsn @ concat (map wal_frame es)"

text \<open>
  The file holds exactly the records \<open>es\<close> behind a header that agrees with the counters, and the LSN in
  front of the first record is \<open>base\<close>.  The record count of the header need not be that of the file: a crash
  may have kept one and not the other.
\<close>

definition wal_holds :: "WalWriter \<Rightarrow> u64 \<Rightarrow> WalEntry list \<Rightarrow> bool" where
  "wal_holds s base es \<longleftrightarrow> 0 < ww_dim s \<and> ww_header_trusted s \<and>
     ww_file s = wal_image (ww_dim s) (ww_entry_count s) (ww_committed_lsn s) es \<and>
     (\<forall>e\<in>set es. wal_entry_ok (ww_dim s) e) \<and> ww_committed_lsn s = base + ww_entry_count s"

definition wal_exact :: "WalWriter \<Rightarrow> u64 \<Rightarrow> WalEntry list \<Rightarrow> bool" where
  "wal_exact s base es \<longleftrightarrow> wal_holds s base es \<and> ww_entry_count s = of_nat (length es)"

lemma length_wal_header_body [simp]: "length (wal_header_body d c l) = 28"
  by (simp add: wal_header_body_def wal_kMagic_def)

lemma length_wal_MakeHeader [simp]: "length (wal_MakeHeader d c l) = 32"
  by (simp add: wal_MakeHeader_def Let_def)

lemma length_wal_image: "length (wal_image d c l es) = 32 + length (concat (map wal_frame es))"
  by (simp add: wal_image_def)

lemma wal_image_parts [simp]:
  "take 32 (wal_image d c l es) = wal_MakeHeader d c l"
  "drop 32 (wal_image d c l es) = concat (map wal_frame es)"
  by (simp_all add: wal_image_def)

text \<open>Reading the fields of a header back.\<close>

lemma wal_header_fields:
  "take 4 (wal_MakeHeader d c l) = wal_kMagic"
  "GetU16 (drop 4 (wal_MakeHeader d c l)) = wal_kVersion"
  "GetU32 (drop 6 (wal_MakeHeader d c l)) = word_of_int d"
  "GetU64 (drop 10 (wal_MakeHeader d c l)) = c"
  "GetU64 (drop 18 (wal_MakeHeader d c l)) = l"
  "GetU32 (drop 28 (wal_MakeHeader d c l)) = Crc32 (take 28 (wal_MakeHeader d c l))"
proof -
  have h: "wal_MakeHeader d c l = wal_header_body d c l @ PutU32 (Crc32 (wal_header_body d c l))"
    by (simp add: wal_MakeHeader_def Let_def)
  show "GetU32 (drop 28 (wal_MakeHeader d c l)) = Crc32 (take 28 (wal_MakeHeader d c l))"
    unfolding h by simp
  have m: "length wal_kMagic = 4" by (simp add: wal_kMagic_def)
  show "take 4 (wal_MakeHeader d c l) = wal_kMagic"
    "GetU16 (drop 4 (wal_MakeHeader d c l)) = wal_kVersion"
    "GetU32 (drop 6 (wal_MakeHeader d c l)) = word_of_int d"
    "GetU64 (drop 10 (wal_MakeHeader d c l)) = c"
    "GetU64 (drop 18 (wal_MakeHeader d c l)) = l"
    unfolding h wal_header_body_def using m by simp_all
qed

lemma Open_wal_image:
  assumes "0 < dim"
  shows "WalWriter_Open io_good (wal_MakeHeader dim c l @ rest) dim =
    (Inr \<lparr>ww_file = wal_MakeHeader dim c l @ rest, ww_dim = dim, ww_entry_count = c, ww_committed_lsn = l,
          ww_header_trusted = True, ww_disk = wal_MakeHeader dim c l @ rest\<rparr>, wal_MakeHeader dim c l @ rest)"
  using assms wal_header_fields[of dim c l] by (simp add: WalWriter_Open_def Let_def)

lemma Open_fresh:
  assumes "0 < dim"
  shows "\<exists>s. WalWriter_Open io_good [] dim = (Inr s, ww_file s) \<and> wal_exact s 0 [] \<and> ww_dim s = dim \<and>
    ww_disk s = ww_file s \<and> ww_committed_lsn s = 0"
  using assms
  by (auto simp: WalWriter_Open_def Let_def pwrite_all_def pwrite_at_def wal_exact_def wal_holds_def wal_image_def
      length_0_conv[symmetric] simp del: length_0_conv)

section \<open>Appending, truncating and reading\<close>

lemma RewriteHeader_ok:
  assumes "RewriteHeaderLocked env i s = (st, s')" "ok st" "32 \<le> length (ww_file s)"
  shows "s' = s\<lparr>ww_file := wal_MakeHeader (ww_dim s) (ww_entry_count s) (ww_committed_lsn s) @ drop 32 (ww_file s),
                ww_header_trusted := True\<rparr>"
proof -
  let ?h = "wal_MakeHeader (ww_dim s) (ww_entry_count s) (ww_committed_lsn s)"
  have ne: "?h \<noteq> []" by (metis length_wal_MakeHeader list.size(3) zero_neq_numeral)
  have "io_pw env i = PwOk"
    using assms(1,2) ne by (cases "io_pw env i") (auto simp: RewriteHeaderLocked_def pwrite_all_def Let_def)
  then show ?thesis
    using assms ne by (auto simp: RewriteHeaderLocked_def pwrite_all_def pwrite_at_start Let_def)
qed

lemma WriteRecords_ok:
  assumes "WriteRecordsLocked env rs s = (st, s')" "ok st"
  shows "s' = s\<lparr>ww_file := ww_file s @ concat rs, ww_entry_count := ww_entry_count s + of_nat (length rs),
                ww_committed_lsn := ww_committed_lsn s + of_nat (length rs)\<rparr>"
proof (cases "rs = []")
  case False
  with assms have l: "io_lseek env = None" by (auto simp: WriteRecordsLocked_def split: option.splits)
  obtain w f off where w: "write_entries (wal_write_failed ''WalWriter::WriteRecords pwrite'') (io_pw env) 0
      rs (ww_file s) (length (ww_file s)) = (w, f, off)" by (metis prod_cases3)
  have "ok w" using assms l w False by (auto simp: WriteRecordsLocked_def Let_def split: if_splits)
  with write_entries_append(1)[OF w] have "f = ww_file s @ concat rs" by simp
  with assms l w False \<open>ok w\<close> show ?thesis by (auto simp: WriteRecordsLocked_def Let_def)
qed (use assms in \<open>auto simp: WriteRecordsLocked_def\<close>)

lemma WriteRecords_err:
  assumes "WriteRecordsLocked env rs s = (st, s')" "\<not> ok st"
  shows "\<exists>k. s' = s\<lparr>ww_file := ww_file s @ take k (concat rs)\<rparr>"
proof (cases "io_lseek env")
  case None
  have ne: "rs \<noteq> []" using assms by (auto simp: WriteRecordsLocked_def)
  obtain w f off where w: "write_entries (wal_write_failed ''WalWriter::WriteRecords pwrite'') (io_pw env) 0
      rs (ww_file s) (length (ww_file s)) = (w, f, off)" by (metis prod_cases3)
  have "\<not> ok w" using assms None w ne by (auto simp: WriteRecordsLocked_def Let_def split: if_splits)
  with write_entries_append(2)[OF w] obtain k where "f = ww_file s @ take k (concat rs)" by auto
  with assms None w ne \<open>\<not> ok w\<close> show ?thesis by (auto simp: WriteRecordsLocked_def Let_def)
next
  case (Some e)
  with assms have "s' = s" by (auto simp: WriteRecordsLocked_def split: if_splits)
  then show ?thesis by (intro exI[of _ 0]) simp
qed

lemma wal_WriteBatch_ok:
  assumes "wal_WriteBatch env rs s = (st, s')" "ok st" "32 \<le> length (ww_file s)"
  shows "s' = s\<lparr>ww_file := wal_MakeHeader (ww_dim s) (ww_entry_count s + of_nat (length rs)) (ww_committed_lsn s + of_nat (length rs)) @
                  drop 32 (ww_file s) @ concat rs,
                ww_entry_count := ww_entry_count s + of_nat (length rs),
                ww_committed_lsn := ww_committed_lsn s + of_nat (length rs), ww_header_trusted := True\<rparr>"
proof -
  obtain w s1 where w: "WriteRecordsLocked env rs s = (w, s1)" by fastforce
  have okw: "ok w" and h: "RewriteHeaderLocked env (length rs) s1 = (st, s')"
    using assms(1,2) w by (auto simp: wal_WriteBatch_def split: if_splits)
  note s1 = WriteRecords_ok[OF w okw]
  have "32 \<le> length (ww_file s1)" using assms(3) by (simp add: s1)
  from RewriteHeader_ok[OF h assms(2) this] assms(3) show ?thesis by (simp add: s1)
qed

lemma wal_SyncLocked_ok: "SyncLocked env s = (st, s') \<Longrightarrow> ok st \<Longrightarrow> s' = s\<lparr>ww_disk := ww_file s\<rparr>"
  by (auto simp: SyncLocked_def split: option.splits)

lemma wal_SyncLocked_file: "SyncLocked env s = (st, s') \<Longrightarrow> ww_file s' = ww_file s"
  by (auto simp: SyncLocked_def split: option.splits)

lemma wal_holds_length: "wal_holds s base es \<Longrightarrow> 32 \<le> length (ww_file s)"
  by (simp add: wal_holds_def length_wal_image)

lemma wal_WriteBatch_holds:
  assumes "wal_holds s base es" "\<forall>e\<in>set new. wal_entry_ok (ww_dim s) e"
    and "wal_WriteBatch env (map wal_frame new) s = (st, s')" "ok st"
  shows "wal_holds s' base (es @ new)" "ww_entry_count s' = ww_entry_count s + of_nat (length new)"
    "ww_committed_lsn s' = ww_committed_lsn s + of_nat (length new)" "ww_disk s' = ww_disk s" "ww_dim s' = ww_dim s"
  using assms(1,2) wal_WriteBatch_ok[OF assms(3,4) wal_holds_length[OF assms(1)]]
  by (auto simp: wal_holds_def wal_image_def algebra_simps)

lemma wal_holds_sync: "wal_holds s base es \<Longrightarrow> wal_holds (s\<lparr>ww_disk := d\<rparr>) base es"
  by (simp add: wal_holds_def)

lemma wal_Truncate_ok:
  assumes "wal_holds s base es" "wal_Truncate env s = (st, s')" "ok st"
  shows "wal_exact s' (ww_committed_lsn s) []" "ww_committed_lsn s' = ww_committed_lsn s"
    "ww_disk s' = ww_file s'" "ww_dim s' = ww_dim s"
proof -
  note len = wal_holds_length[OF assms(1)]
  let ?s = "s\<lparr>ww_file := take 32 (ww_file s), ww_entry_count := 0\<rparr>"
  have t: "io_trunc env = None" using assms(2,3) by (auto simp: wal_Truncate_def split: option.splits)
  obtain h s1 where h: "RewriteHeaderLocked env 0 ?s = (h, s1)" by fastforce
  have okh: "ok h" and sy: "SyncLocked env s1 = (st, s')"
    using assms(2,3) t h len by (auto simp: wal_Truncate_def Let_def split: if_splits)
  have "s1 = ?s\<lparr>ww_file := wal_MakeHeader (ww_dim s) 0 (ww_committed_lsn s), ww_header_trusted := True\<rparr>"
    using RewriteHeader_ok[OF h okh] len by simp
  with wal_SyncLocked_ok[OF sy assms(3)] assms(1)
  show "wal_exact s' (ww_committed_lsn s) []" "ww_committed_lsn s' = ww_committed_lsn s"
    "ww_disk s' = ww_file s'" "ww_dim s' = ww_dim s"
    by (auto simp: wal_exact_def wal_holds_def wal_image_def)
qed

lemma wal_scan_image:
  assumes "\<forall>e\<in>set es. wal_entry_ok dim e"
  shows "wal_scan dim (wal_image d c l es) = Some (es, length (wal_image d c l es))"
  using wal_codec.scan_all[OF assms, of "wal_MakeHeader d c l"] by (simp add: wal_scan_def wal_image_def)

lemma wal_ReadAll_holds:
  assumes "wal_holds s base es" "io_lseek env = None" "io_read env = RdAll" "d = ww_dim s \<or> d \<le> 0"
  shows "wal_ReadAll env d s = Some (Inr es, s)"
  using assms wal_scan_image[of es "ww_dim s" "ww_dim s" "ww_entry_count s" "ww_committed_lsn s"]
  by (auto simp: wal_ReadAll_def wal_ReadFileLocked_def wal_holds_def length_wal_image Let_def)

section \<open>Reopening what a crash left\<close>

text \<open>
  Whatever prefix of the record area is there, and whichever counts the header has: opening and reading
  returns the complete records of the prefix, and the LSN in front of them is the one of the header.
\<close>

lemma wal_reopen:
  fixes es :: "WalEntry list" and k :: nat and c l :: u64 and dim :: int
  defines "f \<equiv> wal_MakeHeader dim c l @ take k (concat (map wal_frame es))"
  assumes dim: "0 < dim" and good: "\<forall>e\<in>set es. wal_entry_ok dim e"
    and n: "n \<le> length es" "length (concat (map wal_frame (take n es))) \<le> k"
  shows "\<exists>m w w'. n \<le> m \<and> m \<le> length es \<and> WalWriter_Open io_good f dim = (Inr w, f) \<and>
    wal_ReadAll io_good dim w = Some (Inr (take m es), w') \<and> wal_holds w' (l - c) (take m es) \<and>
    ww_dim w' = dim \<and> ww_disk w' = ww_file w' \<and> (\<exists>v. wal_scan dim f = Some (take m es, v)) \<and>
    (ww_entry_count w' = c \<or> ww_entry_count w' = of_nat m)"
proof -
  obtain m where m: "n \<le> m" "m \<le> length es"
    "scan_from (WalDeserializeFrom dim) f 32 = Some (take m es, 32 + length (concat (map wal_frame (take m es))))"
    using wal_codec.scan_prefix_ge[OF good n, of "wal_MakeHeader dim c l"] by (auto simp: f_def)
  let ?v = "32 + length (concat (map wal_frame (take m es)))"
  define w where "w = \<lparr>ww_file = f, ww_dim = dim, ww_entry_count = c, ww_committed_lsn = l,
          ww_header_trusted = True, ww_disk = f\<rparr>"
  have op: "WalWriter_Open io_good f dim = (Inr w, f)"
    unfolding f_def w_def by (rule Open_wal_image[OF dim])
  have lf: "32 \<le> length f" by (simp add: f_def)
  have sc: "wal_scan dim f = Some (take m es, ?v)" using m(3) by (simp add: wal_scan_def)
  have v: "?v \<le> length f" using wal_codec.scan_total[OF lf, of dim] m(3) by auto
  have tf: "take ?v f = wal_image dim c l (take m es)"
  proof -
    have "take m es @ drop m es = es" by simp
    then have cc: "concat (map wal_frame es) = concat (map wal_frame (take m es)) @ concat (map wal_frame (drop m es))"
      by (metis concat_append map_append)
    have "length (concat (map wal_frame (take m es))) \<le> k" using v cc by (auto simp: f_def)
    then show ?thesis unfolding f_def wal_image_def cc by simp
  qed
  have gm: "\<forall>e\<in>set (take m es). wal_entry_ok dim e" using good by (auto dest: in_set_takeD)
  show ?thesis
  proof (cases "?v < length f")
    case False
    then have "f = wal_image dim c l (take m es)" using tf v by simp
    then have h: "wal_holds w (l - c) (take m es)" using dim gm by (simp add: wal_holds_def w_def)
    then have "wal_ReadAll io_good dim w = Some (Inr (take m es), w)"
      by (rule wal_ReadAll_holds) (simp_all add: w_def)
    with op h m sc show ?thesis by (auto simp: w_def intro!: exI[of _ m])
  next
    case True
    let ?w = "wal_recount m (w\<lparr>ww_file := take ?v f\<rparr>)"
    obtain st s1 where h: "RewriteHeaderLocked io_good 0 ?w = (st, s1)" by fastforce
    have okh: "ok st" using h by (auto simp: RewriteHeaderLocked_def pwrite_all_def Let_def split: if_splits)
    have lw: "32 \<le> length (ww_file ?w)" using v by (simp add: wal_recount_def Let_def)
    note s1 = RewriteHeader_ok[OF h okh lw]
    have "wal_holds (s1\<lparr>ww_disk := ww_file s1\<rparr>) (l - c) (take m es)"
      unfolding s1 wal_holds_def using dim gm tf by (simp add: wal_recount_def w_def wal_image_def Let_def)
    moreover have "wal_ReadAll io_good dim w = Some (Inr (take m es), s1\<lparr>ww_disk := ww_file s1\<rparr>)"
      using True sc lf h okh dim m(2)
      by (simp add: wal_ReadAll_def wal_ReadFileLocked_def w_def Let_def min.absorb2)
    moreover have "ww_dim s1 = dim" "ww_entry_count s1 = of_nat m"
      unfolding s1 by (simp_all add: wal_recount_def w_def Let_def)
    ultimately show ?thesis using op m sc by (auto intro!: exI[of _ m])
  qed
qed

text \<open>What a batch that was not synced can leave behind; the header is written by one atomic sector write.\<close>

definition header_atomic :: "io_env \<Rightarrow> nat \<Rightarrow> bool" where
  "header_atomic env i \<longleftrightarrow> (case io_pw env i of PwOk \<Rightarrow> True | PwErr k e \<Rightarrow> k = 0)"

lemma wal_WriteBatch_effect:
  assumes h: "wal_holds s base es" and new: "\<forall>e\<in>set new. wal_entry_ok (ww_dim s) e"
    and b: "wal_WriteBatch env (map wal_frame new) s = (st, s')" and a: "header_atomic env (length new)"
  shows "ww_disk s' = ww_disk s \<and> ww_dim s' = ww_dim s \<and>
    (\<exists>k c l. ww_file s' = wal_MakeHeader (ww_dim s) c l @ take k (concat (map wal_frame (es @ new))) \<and>
       l = base + c \<and> length (concat (map wal_frame es)) \<le> k)"
proof -
  let ?rs = "map wal_frame new"
  have fil: "ww_file s = wal_MakeHeader (ww_dim s) (ww_entry_count s) (ww_committed_lsn s) @ concat (map wal_frame es)"
    and lsn: "ww_committed_lsn s = base + ww_entry_count s"
    using h by (simp_all add: wal_holds_def wal_image_def)
  obtain w s1 where w: "WriteRecordsLocked env ?rs s = (w, s1)" by fastforce
  show ?thesis
  proof (cases "ok w")
    case False
    then have "s' = s1" using b w by (simp add: wal_WriteBatch_def)
    moreover obtain k where s1: "s1 = s\<lparr>ww_file := ww_file s @ take k (concat ?rs)\<rparr>"
      using WriteRecords_err[OF w False] by blast
    moreover have "ww_file s @ take k (concat ?rs) = wal_MakeHeader (ww_dim s) (ww_entry_count s) (ww_committed_lsn s) @
        take (length (concat (map wal_frame es)) + k) (concat (map wal_frame (es @ new)))"
      unfolding fil by simp
    ultimately show ?thesis using lsn by (auto intro!: exI[of _ "length (concat (map wal_frame es)) + k"])
  next
    case True
    note s1 = WriteRecords_ok[OF w True]
    have rh: "RewriteHeaderLocked env (length new) s1 = (st, s')" using b w True by (simp add: wal_WriteBatch_def)
    let ?all = "concat (map wal_frame (es @ new))"
    show ?thesis
    proof (cases "ok st")
      case True
      from wal_WriteBatch_ok[OF b True wal_holds_length[OF h]] fil show ?thesis
        using lsn by (auto intro!: exI[of _ "length ?all"] simp: algebra_simps)
    next
      case False
      then obtain e where "io_pw env (length new) = PwErr 0 e"
        using rh a by (cases "io_pw env (length new)") (auto simp: header_atomic_def RewriteHeaderLocked_def pwrite_all_def Let_def split: if_splits)
      then have "s' = s1"
        using rh False by (auto simp: RewriteHeaderLocked_def pwrite_all_def Let_def split: if_splits)
      then show ?thesis using fil lsn s1 by (auto intro!: exI[of _ "length ?all"])
    qed
  qed
qed

lemma wal_crash_recovers:
  assumes h: "wal_holds s base es" and d: "ww_disk s = ww_file s" and new: "\<forall>e\<in>set new. wal_entry_ok (ww_dim s) e"
    and b: "wal_WriteBatch env (map wal_frame new) s = (st, s')" and a: "header_atomic env (length new)"
    and f: "wal_crash_image s' f"
  shows "\<exists>m w w'. m \<le> length new \<and> WalWriter_Open io_good f (ww_dim s) = (Inr w, f) \<and>
    wal_ReadAll io_good (ww_dim s) w = Some (Inr (es @ take m new), w') \<and> wal_holds w' base (es @ take m new) \<and>
    ww_dim w' = ww_dim s \<and> ww_disk w' = ww_file w'"
proof -
  let ?dim = "ww_dim s" and ?old = "concat (map wal_frame es)" and ?all = "concat (map wal_frame (es @ new))"
  have fil: "ww_file s = wal_MakeHeader ?dim (ww_entry_count s) (ww_committed_lsn s) @ ?old"
    and lsn: "ww_committed_lsn s = base + ww_entry_count s" and dim: "0 < ?dim"
    and good: "\<forall>e\<in>set (es @ new). wal_entry_ok ?dim e"
    using h new by (auto simp: wal_holds_def wal_image_def)
  from wal_WriteBatch_effect[OF h new b a] obtain k c l where
    e: "ww_disk s' = ww_disk s" "ww_file s' = wal_MakeHeader ?dim c l @ take k ?all" "l = base + c" "length ?old \<le> k" by blast
  have dk: "ww_disk s' = wal_MakeHeader ?dim (ww_entry_count s) (ww_committed_lsn s) @ ?old" using e(1) d fil by simp
  from f obtain hd j where hj: "hd \<in> {take 32 (ww_disk s'), take 32 (ww_file s')}" "length (drop 32 (ww_disk s')) \<le> j"
    "f = hd @ take j (drop 32 (ww_file s'))" unfolding wal_crash_image_def by blast
  have jl: "length ?old \<le> j" using hj(2) dk by simp
  obtain c' l' where hd: "hd = wal_MakeHeader ?dim c' l'" "l' - c' = base"
    using hj(1) dk e(2,3) lsn by auto
  have ff: "f = wal_MakeHeader ?dim c' l' @ take (min j k) ?all"
    unfolding hj(3) hd(1) e(2) by (simp add: take_take del: take_append map_append concat_append)
  have n: "length es \<le> length (es @ new)" "length (concat (map wal_frame (take (length es) (es @ new)))) \<le> min j k"
    using jl e(4) by simp_all
  obtain m w w' where m: "length es \<le> m" "m \<le> length (es @ new)" "WalWriter_Open io_good f ?dim = (Inr w, f)"
    "wal_ReadAll io_good ?dim w = Some (Inr (take m (es @ new)), w')" "wal_holds w' (l' - c') (take m (es @ new))"
    "ww_dim w' = ?dim" "ww_disk w' = ww_file w'"
    using wal_reopen[OF dim good n, of c' l'] ff by auto
  have "take m (es @ new) = es @ take (m - length es) new" using m(1) by simp
  with m hd(2) show ?thesis by (intro exI[of _ "m - length es"] exI[of _ w] exI[of _ w']) auto
qed

lemma wal_synced_recovers:
  assumes h: "wal_holds s base es" and d: "ww_disk s = ww_file s" and f: "wal_crash_image s f"
  shows "f = ww_file s \<and> (\<exists>w. WalWriter_Open io_good f (ww_dim s) = (Inr w, f) \<and>
    wal_ReadAll io_good (ww_dim s) w = Some (Inr es, w) \<and> wal_holds w base es)"
proof -
  have ff: "f = ww_file s" using f d wal_holds_length[OF h] by (auto simp: wal_crash_image_def)
  let ?w = "s\<lparr>ww_disk := ww_file s\<rparr>"
  have "WalWriter_Open io_good f (ww_dim s) = (Inr ?w, f)"
    using h Open_wal_image[of "ww_dim s" "ww_entry_count s" "ww_committed_lsn s" "concat (map wal_frame es)"]
    by (cases s) (simp add: ff wal_holds_def wal_image_def)
  moreover have "wal_holds ?w base es" using h by (rule wal_holds_sync)
  moreover from this have "wal_ReadAll io_good (ww_dim s) ?w = Some (Inr es, ?w)"
    by (rule wal_ReadAll_holds) simp_all
  ultimately show ?thesis using ff by blast
qed

section \<open>Properties\<close>

text \<open>
  The index log survives a crash in the middle of a batch.  A batch of records is written and, if that
  succeeded, synced; whatever failed, from every image a crash can leave the log reopens, reading returns
  all earlier records followed by a prefix of the batch, the whole batch if it was acknowledged, and the LSN
  of every record is what it was.
\<close>
theorem wal_batch_crash_safe:
  assumes "wal_holds s base es" "ww_disk s = ww_file s" "\<forall>e\<in>set new. wal_entry_ok (ww_dim s) e"
    and "header_atomic env (length new)" "wal_WriteBatch env (map wal_frame new) s = (st, s1)"
    and "(if ok st then wal_Sync env s1 else (st, s1)) = (st', s')" "wal_crash_image s' f"
  shows "\<exists>m w w'. m \<le> length new \<and> (ok st' \<longrightarrow> m = length new) \<and>
    WalWriter_Open io_good f (ww_dim s) = (Inr w, f) \<and>
    wal_ReadAll io_good (ww_dim s) w = Some (Inr (es @ take m new), w') \<and>
    committed_lsn w' - entry_count w' = base"
proof (cases "ok st'")
  case True
  then have "ok st" "wal_Sync env s1 = (st', s')" using assms(6) by (auto split: if_splits)
  note wb = wal_WriteBatch_holds[OF assms(1,3,5) \<open>ok st\<close>]
  have s': "s' = s1\<lparr>ww_disk := ww_file s1\<rparr>"
    using wal_SyncLocked_ok[of env s1] \<open>wal_Sync env s1 = (st', s')\<close> True by (simp add: wal_Sync_def)
  have "wal_holds s' base (es @ new)" unfolding s' by (rule wal_holds_sync[OF wb(1)])
  from wal_synced_recovers[OF this _ assms(7)] wb(5) obtain w where
    "WalWriter_Open io_good f (ww_dim s) = (Inr w, f)" "wal_ReadAll io_good (ww_dim s) w = Some (Inr (es @ new), w)"
    "wal_holds w base (es @ new)" by (auto simp: s')
  then show ?thesis
    by (intro exI[of _ "length new"] exI[of _ w]) (auto simp: committed_lsn_def entry_count_def wal_holds_def)
next
  case False
  then have "ww_file s' = ww_file s1" "ww_disk s' = ww_disk s1" "ww_dim s' = ww_dim s1"
    using assms(6) by (auto simp: wal_Sync_def SyncLocked_def split: if_splits option.splits)
  then have "wal_crash_image s1 f" using assms(7) by (simp add: wal_crash_image_def)
  from wal_crash_recovers[OF assms(1,2,3,5,4) this] False show ?thesis
    by (fastforce simp: committed_lsn_def entry_count_def wal_holds_def)
qed

text \<open>
  Sequence numbers survive truncation.  After a successful \<open>Truncate\<close> the log is empty and keeps its
  committed LSN, so that the records of the next successful batch are read back alone and numbered on from
  where the truncated records ended.
\<close>
theorem truncate_keeps_lsn:
  assumes "wal_holds s base es" "wal_Truncate env s = (st, s1)" "ok st" "\<forall>e\<in>set new. wal_entry_ok (ww_dim s) e"
    and "wal_WriteBatch env' (map wal_frame new) s1 = (st', s2)" "ok st'"
  shows "wal_ReadAll io_good (ww_dim s) s1 = Some (Inr [], s1) \<and> committed_lsn s1 = committed_lsn s \<and>
    wal_ReadAll io_good (ww_dim s) s2 = Some (Inr new, s2) \<and>
    committed_lsn s2 - entry_count s2 = committed_lsn s \<and> entry_count s2 = of_nat (length new)"
proof -
  note t = wal_Truncate_ok[OF assms(1-3)]
  have h1: "wal_holds s1 (ww_committed_lsn s) []" "ww_entry_count s1 = 0" using t(1) by (auto simp: wal_exact_def)
  have n: "\<forall>e\<in>set new. wal_entry_ok (ww_dim s1) e" using assms(4) t(4) by simp
  note b = wal_WriteBatch_holds[OF h1(1) n assms(5,6)]
  have "wal_ReadAll io_good (ww_dim s) s1 = Some (Inr [], s1)"
    using wal_ReadAll_holds[OF h1(1), of io_good "ww_dim s"] t(4) by simp
  moreover have "wal_ReadAll io_good (ww_dim s) s2 = Some (Inr new, s2)"
    using wal_ReadAll_holds[OF b(1), of io_good "ww_dim s"] b(5) t(4) by simp
  ultimately show ?thesis using t(2) b(1,2) h1(2) by (simp add: committed_lsn_def entry_count_def wal_holds_def)
qed

text \<open>A fresh log of dimension 1 and one record.\<close>

definition sample_wal :: WalWriter where
  "sample_wal = (let f = wal_MakeHeader 1 0 0 in \<lparr>ww_file = f, ww_dim = 1, ww_entry_count = 0, ww_committed_lsn = 0,
     ww_header_trusted = True, ww_disk = f\<rparr>)"

lemma sample_wal_holds: "wal_holds sample_wal 0 []" "ww_disk sample_wal = ww_file sample_wal" "ww_dim sample_wal = 1"
  by (simp_all add: sample_wal_def wal_holds_def wal_image_def Let_def)

lemma wal_WriteBatch_good: "\<exists>s'. wal_WriteBatch io_good rs s = (Status_Ok, s')"
proof -
  have pw: "io_pw io_good = (\<lambda>_. PwOk)" by (rule ext) simp
  show ?thesis unfolding wal_WriteBatch_def WriteRecordsLocked_def RewriteHeaderLocked_def pw
    by (simp add: pwrite_all_def Let_def)
qed

lemma wal_Sync_good [simp]: "wal_Sync io_good s = (Status_Ok, s\<lparr>ww_disk := ww_file s\<rparr>)"
  by (simp add: wal_Sync_def SyncLocked_def)

lemma wal_Truncate_good: "\<exists>s'. wal_Truncate io_good s = (Status_Ok, s')"
  by (simp add: wal_Truncate_def RewriteHeaderLocked_def SyncLocked_def pwrite_all_def Let_def)

lemma header_atomic_good [simp]: "header_atomic io_good i"
  by (simp add: header_atomic_def)

theorem wal_batch_crash_safe_witness:
  "\<exists>s1 w w'. wal_WriteBatch io_good [wal_frame (insert_record 7 [0x3F800000] 0)] sample_wal = (Status_Ok, s1) \<and>
     WalWriter_Open io_good (ww_file s1) 1 = (Inr w, ww_file s1) \<and>
     wal_ReadAll io_good 1 w = Some (Inr [insert_record 7 [0x3F800000] 0], w')"
proof -
  let ?e = "insert_record 7 [0x3F800000] 0"
  obtain s1 where s1: "wal_WriteBatch io_good (map wal_frame [?e]) sample_wal = (Status_Ok, s1)"
    using wal_WriteBatch_good by blast
  let ?s = "s1\<lparr>ww_disk := ww_file s1\<rparr>"
  have new: "\<forall>e\<in>set [?e]. wal_entry_ok (ww_dim sample_wal) e"
    by (simp add: wal_entry_ok_def insert_record_def sample_wal_holds)
  have len: "32 \<le> length (ww_file s1)"
    using wal_WriteBatch_holds(1)[OF sample_wal_holds(1) new s1] wal_holds_length by simp
  have cr: "wal_crash_image ?s (ww_file s1)"
    using len by (auto simp: wal_crash_image_def intro!: exI[of _ "length (ww_file s1)"])
  have sy: "(if ok Status_Ok then wal_Sync io_good s1 else (Status_Ok, s1)) = (Status_Ok, ?s)" by simp
  from wal_batch_crash_safe[OF sample_wal_holds(1,2) new header_atomic_good s1 sy cr] s1 show ?thesis
    by (fastforce simp: sample_wal_holds)
qed

theorem truncate_keeps_lsn_witness:
  "\<exists>s1 s2. wal_Truncate io_good sample_wal = (Status_Ok, s1) \<and>
     wal_WriteBatch io_good [wal_frame (delete_record 7 0)] s1 = (Status_Ok, s2) \<and> entry_count s2 = 1 \<and>
     wal_ReadAll io_good 1 s2 = Some (Inr [delete_record 7 0], s2)"
proof -
  let ?e = "delete_record 7 0"
  obtain s1 where s1: "wal_Truncate io_good sample_wal = (Status_Ok, s1)" using wal_Truncate_good by blast
  obtain s2 where s2: "wal_WriteBatch io_good (map wal_frame [?e]) s1 = (Status_Ok, s2)" using wal_WriteBatch_good by blast
  have new: "\<forall>e\<in>set [?e]. wal_entry_ok (ww_dim sample_wal) e" by (simp add: wal_entry_ok_def delete_record_def)
  from truncate_keeps_lsn[OF sample_wal_holds(1) s1 _ new s2] s1 s2 show ?thesis by (simp add: sample_wal_holds)
qed

end
