(* ===== verification/Hnsw_Labels.thy ===== *)
theory Hnsw_Labels
  imports Wal_Entry
begin

text \<open>
  What the persistent index uses of the vendored graph (\<^verbatim>\<open>src/store/phnsw/hnswlib/hnswalg.h\<close>): its label
  layer, that is the element table with labels, vectors and delete marks, \<open>label_lookup_\<close>, the element and
  deletion counts and the capacity.  The links between the elements, their serialization and the search
  over them are third-party code and enter as the parameter record \<open>hnswlib\<close>; \<open>hx_graph\<close> is the link
  structure, opaque to the model.  The index is always built with \<open>allow_replace_deleted = true\<close>, and the
  sources only call the two-argument \<open>addPoint\<close>.
\<close>

section \<open>The index\<close>

record element =
  el_label :: u64
  el_vec :: "f32 list"
  el_deleted :: bool

record 'g Hnsw =
  hx_elems :: "element list"
  hx_lookup :: "u64 \<rightharpoonup> nat"
  hx_num_deleted :: nat
  hx_max_elements :: nat
  hx_graph :: 'g

text \<open>
  The third-party parts: the empty link structure, the links after element \<open>i\<close> was added or moved, the
  file format (\<open>hl_load\<close> gives \<open>None\<close> where \<open>loadIndex\<close> throws) and the search, which returns the
  max-heap as the list of its pops (farthest first) or \<open>None\<close> where it throws.
\<close>

record 'g hnswlib =
  hl_empty :: 'g
  hl_wire :: "nat \<Rightarrow> 'g Hnsw \<Rightarrow> 'g"
  hl_save :: "'g Hnsw \<Rightarrow> bytes"
  hl_load :: "nat \<Rightarrow> bytes \<Rightarrow> 'g Hnsw option"
  hl_search :: "'g Hnsw \<Rightarrow> f32 list \<Rightarrow> nat \<Rightarrow> ((f32 \<times> u64) list) option"

definition new_index :: "'g hnswlib \<Rightarrow> nat \<Rightarrow> 'g Hnsw" where
  "new_index lib max_elements = \<lparr>hx_elems = [], hx_lookup = Map.empty, hx_num_deleted = 0,
     hx_max_elements = max_elements, hx_graph = hl_empty lib\<rparr>"

definition getCurrentElementCount :: "'g Hnsw \<Rightarrow> nat" where
  "getCurrentElementCount ix = length (hx_elems ix)"

definition getDeletedCount :: "'g Hnsw \<Rightarrow> nat" where
  "getDeletedCount ix = hx_num_deleted ix"

definition isMarkedDeleted :: "'g Hnsw \<Rightarrow> nat \<Rightarrow> bool" where
  "isMarkedDeleted ix i = el_deleted (hx_elems ix ! i)"

section \<open>Operations\<close>

definition set_mark :: "nat \<Rightarrow> bool \<Rightarrow> 'g Hnsw \<Rightarrow> 'g Hnsw" where
  "set_mark i b ix = ix\<lparr>hx_elems := (hx_elems ix)[i := (hx_elems ix ! i)\<lparr>el_deleted := b\<rparr>]\<rparr>"

text \<open>An exception of the library is \<open>Inl\<close> with its text.\<close>

definition markDelete :: "u64 \<Rightarrow> 'g Hnsw \<Rightarrow> string + 'g Hnsw" where
  "markDelete label ix = (case hx_lookup ix label of
     None \<Rightarrow> Inl ''Label not found''
   | Some i \<Rightarrow>
       if \<not> isMarkedDeleted ix i
       then Inr ((set_mark i True ix)\<lparr>hx_num_deleted := hx_num_deleted ix + 1\<rparr>)
       else Inl ''The requested to delete element is already deleted'')"

definition unmarkDelete :: "u64 \<Rightarrow> 'g Hnsw \<Rightarrow> string + 'g Hnsw" where
  "unmarkDelete label ix = (case hx_lookup ix label of
     None \<Rightarrow> Inl ''Label not found''
   | Some i \<Rightarrow>
       if isMarkedDeleted ix i
       then Inr ((set_mark i False ix)\<lparr>hx_num_deleted := hx_num_deleted ix - 1\<rparr>)
       else Inl ''The requested to undelete element is not deleted'')"

definition updatePoint :: "'g hnswlib \<Rightarrow> f32 list \<Rightarrow> nat \<Rightarrow> 'g Hnsw \<Rightarrow> 'g Hnsw" where
  "updatePoint lib vec i ix =
     (let ix = ix\<lparr>hx_elems := (hx_elems ix)[i := (hx_elems ix ! i)\<lparr>el_vec := vec\<rparr>]\<rparr>
      in ix\<lparr>hx_graph := hl_wire lib i ix\<rparr>)"

definition addPoint :: "'g hnswlib \<Rightarrow> f32 list \<Rightarrow> u64 \<Rightarrow> 'g Hnsw \<Rightarrow> string + 'g Hnsw" where
  "addPoint lib vec label ix = (case hx_lookup ix label of
     Some i \<Rightarrow>
       if isMarkedDeleted ix i then
         Inl ''Can't use addPoint to update deleted elements if replacement of deleted elements is enabled.''
       else Inr (updatePoint lib vec i ix)
   | None \<Rightarrow>
       if getCurrentElementCount ix \<ge> hx_max_elements ix then
         Inl ''The number of elements exceeds the specified limit''
       else
         let cur_c = getCurrentElementCount ix;
             ix = ix\<lparr>hx_elems := hx_elems ix @ [\<lparr>el_label = label, el_vec = vec, el_deleted = False\<rparr>],
                     hx_lookup := (hx_lookup ix)(label \<mapsto> cur_c)\<rparr>
         in Inr (ix\<lparr>hx_graph := hl_wire lib cur_c ix\<rparr>))"

text \<open>
  What \<open>loadIndex\<close> makes of a file that holds the index: the capacity is the requested one unless the file
  holds more, the label map and the deletion count are rebuilt by scanning the elements.
\<close>

definition rebuild_lookup :: "element list \<Rightarrow> u64 \<rightharpoonup> nat" where
  "rebuild_lookup els = fold (\<lambda>(i, e) m. m(el_label e \<mapsto> i)) (enumerate 0 els) Map.empty"

definition reloaded :: "nat \<Rightarrow> 'g Hnsw \<Rightarrow> 'g Hnsw" where
  "reloaded max_elements ix = \<lparr>hx_elems = hx_elems ix, hx_lookup = rebuild_lookup (hx_elems ix),
     hx_num_deleted = length (filter el_deleted (hx_elems ix)),
     hx_max_elements = (if max_elements < length (hx_elems ix) then hx_max_elements ix else max_elements),
     hx_graph = hx_graph ix\<rparr>"

section \<open>Invariant and abstract view\<close>

definition hx_ok :: "'g Hnsw \<Rightarrow> bool" where
  "hx_ok ix \<longleftrightarrow>
     (\<forall>l i. hx_lookup ix l = Some i \<longleftrightarrow> i < length (hx_elems ix) \<and> el_label (hx_elems ix ! i) = l) \<and>
     hx_num_deleted ix = length (filter el_deleted (hx_elems ix)) \<and>
     length (hx_elems ix) \<le> hx_max_elements ix"

text \<open>The vectors an index answers for: block id to vector, without the deleted ones.\<close>

definition vectors :: "'g Hnsw \<Rightarrow> u64 \<rightharpoonup> f32 list" where
  "vectors ix l = (case hx_lookup ix l of
     None \<Rightarrow> None
   | Some i \<Rightarrow> if el_deleted (hx_elems ix ! i) then None else Some (el_vec (hx_elems ix ! i)))"

lemma hx_okD:
  assumes "hx_ok ix"
  shows "hx_lookup ix l = Some i \<Longrightarrow> i < length (hx_elems ix)" "hx_lookup ix l = Some i \<Longrightarrow> el_label (hx_elems ix ! i) = l"
    "i < length (hx_elems ix) \<Longrightarrow> hx_lookup ix (el_label (hx_elems ix ! i)) = Some i"
    "hx_num_deleted ix = length (filter el_deleted (hx_elems ix))" "length (hx_elems ix) \<le> hx_max_elements ix"
  using assms by (auto simp: hx_ok_def)

lemma hx_ok_lookup:
  "hx_ok ix \<Longrightarrow> hx_lookup ix l = Some i \<longleftrightarrow> i < length (hx_elems ix) \<and> el_label (hx_elems ix ! i) = l"
  by (simp add: hx_ok_def)

lemma hx_lookup_inj:
  "hx_ok ix \<Longrightarrow> hx_lookup ix k = Some j \<Longrightarrow> hx_lookup ix l = Some i \<Longrightarrow> j = i \<longleftrightarrow> k = l"
  by (metis hx_okD(2) option.inject)

lemma length_filter_update:
  "i < length xs \<Longrightarrow> length (filter P (xs[i := y])) + of_bool (P (xs ! i)) = length (filter P xs) + of_bool (P y)"
proof (induction xs arbitrary: i)
  case (Cons x xs)
  then show ?case by (cases i) auto
qed simp

lemma new_index_ok [simp]: "hx_ok (new_index lib n)" "vectors (new_index lib n) = Map.empty"
  by (auto simp: hx_ok_def vectors_def new_index_def)

lemma set_mark_sel [simp]:
  "hx_lookup (set_mark i b ix) = hx_lookup ix" "length (hx_elems (set_mark i b ix)) = length (hx_elems ix)"
  "hx_max_elements (set_mark i b ix) = hx_max_elements ix" "hx_num_deleted (set_mark i b ix) = hx_num_deleted ix"
  "hx_graph (set_mark i b ix) = hx_graph ix"
  by (simp_all add: set_mark_def)

lemma set_mark_nth:
  "i < length (hx_elems ix) \<Longrightarrow> hx_elems (set_mark i b ix) ! j =
     (if j = i then (hx_elems ix ! i)\<lparr>el_deleted := b\<rparr> else hx_elems ix ! j)"
  by (simp add: set_mark_def nth_list_update)

lemma hx_ok_mark:
  assumes ok: "hx_ok ix" and i: "i < length (hx_elems ix)"
    and n: "n + of_bool (el_deleted (hx_elems ix ! i)) = hx_num_deleted ix + of_bool b"
  shows "hx_ok ((set_mark i b ix)\<lparr>hx_num_deleted := n\<rparr>)"
proof -
  have "length (filter el_deleted (hx_elems (set_mark i b ix))) + of_bool (el_deleted (hx_elems ix ! i)) =
      hx_num_deleted ix + of_bool b"
    using length_filter_update[OF i, of el_deleted "(hx_elems ix ! i)\<lparr>el_deleted := b\<rparr>"] hx_okD(4)[OF ok]
    by (simp add: set_mark_def)
  with n have c: "n = length (filter el_deleted (hx_elems (set_mark i b ix)))" by simp
  have l: "el_label (hx_elems (set_mark i b ix) ! j) = el_label (hx_elems ix ! j)" for j
    using i by (simp add: set_mark_nth)
  show ?thesis using ok c l by (auto simp: hx_ok_def)
qed

lemma markDelete_ok:
  assumes ok: "hx_ok ix" and m: "markDelete l ix = Inr ix'"
  shows "hx_ok ix'" "vectors ix' = (vectors ix)(l := None)" "hx_num_deleted ix' = hx_num_deleted ix + 1"
    "length (hx_elems ix') = length (hx_elems ix)"
proof -
  obtain i where i: "hx_lookup ix l = Some i" "\<not> el_deleted (hx_elems ix ! i)"
    and ix': "ix' = (set_mark i True ix)\<lparr>hx_num_deleted := hx_num_deleted ix + 1\<rparr>"
    using m by (auto simp: markDelete_def isMarkedDeleted_def split: option.splits if_splits)
  note il = hx_okD(1)[OF ok i(1)]
  show "hx_ok ix'" unfolding ix' by (rule hx_ok_mark[OF ok il]) (simp add: i)
  show "hx_num_deleted ix' = hx_num_deleted ix + 1" "length (hx_elems ix') = length (hx_elems ix)" by (simp_all add: ix')
  show "vectors ix' = (vectors ix)(l := None)"
  proof
    fix k
    show "vectors ix' k = ((vectors ix)(l := None)) k"
    proof (cases "hx_lookup ix k")
      case (Some j)
      with hx_lookup_inj[OF ok Some i(1)] i il show ?thesis by (simp add: vectors_def ix' set_mark_nth)
    qed (use i il in \<open>auto simp: vectors_def ix'\<close>)
  qed
qed

lemma markDelete_no:
  assumes "markDelete l ix = Inl e"
  shows "vectors ix l = None"
  using assms by (auto simp: markDelete_def vectors_def isMarkedDeleted_def split: option.splits if_splits)

lemma unmarkDelete_ok:
  assumes ok: "hx_ok ix" and i: "hx_lookup ix l = Some i" "isMarkedDeleted ix i"
  shows "\<exists>ix'. unmarkDelete l ix = Inr ix' \<and> hx_ok ix' \<and> hx_lookup ix' = hx_lookup ix \<and> \<not> isMarkedDeleted ix' i \<and>
    hx_num_deleted ix' + 1 = hx_num_deleted ix \<and> length (hx_elems ix') = length (hx_elems ix) \<and>
    hx_max_elements ix' = hx_max_elements ix \<and> (\<forall>k. k \<noteq> l \<longrightarrow> vectors ix' k = vectors ix k)"
proof -
  note il = hx_okD(1)[OF ok i(1)]
  have d: "el_deleted (hx_elems ix ! i)" using i(2) by (simp add: isMarkedDeleted_def)
  have "0 < hx_num_deleted ix"
  proof -
    have "filter el_deleted (hx_elems ix) \<noteq> []"
      using d il by (auto simp: filter_empty_conv intro!: bexI[of _ "hx_elems ix ! i"])
    then show ?thesis using hx_okD(4)[OF ok] by simp
  qed
  let ?ix = "(set_mark i False ix)\<lparr>hx_num_deleted := hx_num_deleted ix - 1\<rparr>"
  have "unmarkDelete l ix = Inr ?ix" using i by (simp add: unmarkDelete_def)
  moreover have "hx_ok ?ix" by (rule hx_ok_mark[OF ok il]) (use d \<open>0 < hx_num_deleted ix\<close> in simp)
  moreover have "vectors ?ix k = vectors ix k" if "k \<noteq> l" for k
  proof -
    have "hx_lookup ix k \<noteq> Some i" using hx_okD(2)[OF ok] i(1) that by blast
    then show ?thesis using il by (auto simp: vectors_def set_mark_nth split: option.split)
  qed
  ultimately show ?thesis using il \<open>0 < hx_num_deleted ix\<close> by (auto simp: isMarkedDeleted_def set_mark_nth)
qed

lemma addPoint_ok:
  assumes ok: "hx_ok ix" and a: "addPoint lib v l ix = Inr ix'"
  shows "hx_ok ix'" "vectors ix' = (vectors ix)(l \<mapsto> v)" "hx_num_deleted ix' = hx_num_deleted ix"
proof -
  show "hx_ok ix'" and "vectors ix' = (vectors ix)(l \<mapsto> v)" and "hx_num_deleted ix' = hx_num_deleted ix"
  proof (atomize(full), cases "hx_lookup ix l")
    case (Some i)
    note il = hx_okD(1)[OF ok Some]
    have d: "\<not> el_deleted (hx_elems ix ! i)" and ix': "ix' = updatePoint lib v i ix"
      using a Some by (auto simp: addPoint_def isMarkedDeleted_def split: if_splits)
    have els: "hx_elems ix' = (hx_elems ix)[i := (hx_elems ix ! i)\<lparr>el_vec := v\<rparr>]"
      and rest: "hx_lookup ix' = hx_lookup ix" "hx_num_deleted ix' = hx_num_deleted ix" "hx_max_elements ix' = hx_max_elements ix"
      by (simp_all add: ix' updatePoint_def Let_def)
    have cnt: "length (filter el_deleted (hx_elems ix')) = length (filter el_deleted (hx_elems ix))"
      using length_filter_update[OF il, of el_deleted "(hx_elems ix ! i)\<lparr>el_vec := v\<rparr>"] d by (simp add: els)
    have lab: "el_label (hx_elems ix' ! j) = el_label (hx_elems ix ! j)" for j
      using il by (simp add: els nth_list_update)
    have "hx_ok ix'" using ok cnt lab rest by (auto simp: hx_ok_def els)
    moreover have "vectors ix' = (vectors ix)(l \<mapsto> v)"
    proof
      fix k
      show "vectors ix' k = ((vectors ix)(l \<mapsto> v)) k"
      proof (cases "hx_lookup ix k")
      case j: (Some j)
      with hx_lookup_inj[OF ok j Some] Some il d show ?thesis by (cases "k = l") (auto simp: vectors_def rest els nth_list_update)
      qed (use Some in \<open>auto simp: vectors_def rest\<close>)
    qed
    ultimately show "hx_ok ix' \<and> vectors ix' = (vectors ix)(l \<mapsto> v) \<and> hx_num_deleted ix' = hx_num_deleted ix"
      using rest by blast
  next
    case None
    let ?n = "length (hx_elems ix)" and ?e = "\<lparr>el_label = l, el_vec = v, el_deleted = False\<rparr>"
    have room: "?n < hx_max_elements ix" and els: "hx_elems ix' = hx_elems ix @ [?e]"
      and rest: "hx_lookup ix' = (hx_lookup ix)(l \<mapsto> ?n)" "hx_num_deleted ix' = hx_num_deleted ix" "hx_max_elements ix' = hx_max_elements ix"
      using a None by (auto simp: addPoint_def getCurrentElementCount_def Let_def split: if_splits)
    have fresh: "el_label (hx_elems ix ! j) \<noteq> l" if "j < ?n" for j using hx_okD(3)[OF ok that] None by auto
    have "hx_lookup ix' k = Some j \<longleftrightarrow> j < length (hx_elems ix') \<and> el_label (hx_elems ix' ! j) = k" for k j
      using ok fresh by (auto simp: rest els nth_append hx_ok_def less_Suc_eq)
    then have "hx_ok ix'" using hx_okD(4,5)[OF ok] room by (auto simp: hx_ok_def rest els)
    moreover have "vectors ix' = (vectors ix)(l \<mapsto> v)"
    proof
      fix k
      show "vectors ix' k = ((vectors ix)(l \<mapsto> v)) k"
        using hx_okD(1)[OF ok, of k] by (auto simp: vectors_def rest els nth_append split: option.split)
    qed
    ultimately show "hx_ok ix' \<and> vectors ix' = (vectors ix)(l \<mapsto> v) \<and> hx_num_deleted ix' = hx_num_deleted ix"
      using rest by blast
  qed
qed

section \<open>Reloading\<close>

lemma option_eq_by_Some:
  assumes "\<And>i. x = Some i \<longleftrightarrow> y = Some i"
  shows "x = y"
proof (cases x)
  case None
  then show ?thesis using assms by (cases y) auto
next
  case (Some i)
  with assms[of i] show ?thesis by simp
qed

lemma fold_lookup:
  assumes "\<And>i j. i < length els \<Longrightarrow> j < length els \<Longrightarrow> el_label (els ! i) = el_label (els ! j) \<Longrightarrow> i = j"
  shows "rebuild_lookup els l = Some i \<longleftrightarrow> i < length els \<and> el_label (els ! i) = l"
  using assms
proof (induction els arbitrary: i rule: rev_induct)
  case Nil
  then show ?case by (simp add: rebuild_lookup_def)
next
  case (snoc e els)
  have inj: "i = j" if "i < length els" "j < length els" "el_label (els ! i) = el_label (els ! j)" for i j
    using snoc.prems[of i j] that by (simp add: nth_append)
  have new: "el_label (els ! i) \<noteq> el_label e" if "i < length els" for i
    using snoc.prems[of i "length els"] that by (auto simp: nth_append)
  have r: "rebuild_lookup (els @ [e]) = (rebuild_lookup els)(el_label e \<mapsto> length els)"
    by (simp add: rebuild_lookup_def enumerate_append_eq)
  have ih: "rebuild_lookup els l = Some i \<longleftrightarrow> i < length els \<and> el_label (els ! i) = l" using snoc.IH inj by blast
  show ?case
  proof (cases "el_label e = l")
    case True
    then show ?thesis using new by (auto simp: r nth_append less_Suc_eq)
  next
    case False
    then show ?thesis using ih by (auto simp: r nth_append less_Suc_eq)
  qed
qed

lemma reloaded_ok:
  assumes "hx_ok ix"
  shows "hx_ok (reloaded n ix)" "vectors (reloaded n ix) = vectors ix"
    "hx_num_deleted (reloaded n ix) = hx_num_deleted ix"
proof -
  have inj: "i = j" if "i < length (hx_elems ix)" "j < length (hx_elems ix)"
      "el_label (hx_elems ix ! i) = el_label (hx_elems ix ! j)" for i j
    by (rule option.inject[THEN iffD1]) (metis hx_okD(3)[OF assms that(1)] hx_okD(3)[OF assms that(2)] that(3))
  have lk: "rebuild_lookup (hx_elems ix) l = Some i \<longleftrightarrow> hx_lookup ix l = Some i" for l i
    unfolding hx_ok_lookup[OF assms] by (rule fold_lookup) (rule inj)
  have "rebuild_lookup (hx_elems ix) = hx_lookup ix"
  proof
    fix l show "rebuild_lookup (hx_elems ix) l = hx_lookup ix l" by (rule option_eq_by_Some) (rule lk)
  qed
  then have lk: "hx_lookup (reloaded n ix) = hx_lookup ix" and els: "hx_elems (reloaded n ix) = hx_elems ix"
    and del: "hx_num_deleted (reloaded n ix) = length (filter el_deleted (hx_elems ix))"
    and mx: "length (hx_elems ix) \<le> hx_max_elements (reloaded n ix)"
    using hx_okD(5)[OF assms] by (simp_all add: reloaded_def)
  show "vectors (reloaded n ix) = vectors ix" unfolding vectors_def lk els ..
  show "hx_num_deleted (reloaded n ix) = hx_num_deleted ix" by (simp add: del hx_okD(4)[OF assms])
  show "hx_ok (reloaded n ix)"
    unfolding hx_ok_def lk els using hx_ok_lookup[OF assms] del mx by blast
qed

section \<open>Room for a set of labels\<close>

text \<open>An index whose labels all come from a set no larger than its capacity.\<close>

definition within :: "u64 set \<Rightarrow> 'g Hnsw \<Rightarrow> bool" where
  "within L ix \<longleftrightarrow> hx_ok ix \<and> dom (hx_lookup ix) \<subseteq> L \<and> finite L \<and> card L \<le> hx_max_elements ix"

lemma dom_lookup:
  assumes "hx_ok ix"
  shows "dom (hx_lookup ix) = (\<lambda>i. el_label (hx_elems ix ! i)) ` {..<length (hx_elems ix)}"
proof (rule set_eqI)
  fix l
  have "l \<in> dom (hx_lookup ix) \<longleftrightarrow> (\<exists>i. hx_lookup ix l = Some i)" by (simp only: dom_def mem_Collect_eq not_None_eq)
  also have "\<dots> \<longleftrightarrow> (\<exists>i. i < length (hx_elems ix) \<and> el_label (hx_elems ix ! i) = l)" unfolding hx_ok_lookup[OF assms] ..
  also have "\<dots> \<longleftrightarrow> l \<in> (\<lambda>i. el_label (hx_elems ix ! i)) ` {..<length (hx_elems ix)}" by blast
  finally show "l \<in> dom (hx_lookup ix) \<longleftrightarrow> l \<in> (\<lambda>i. el_label (hx_elems ix ! i)) ` {..<length (hx_elems ix)}" .
qed

lemma labels_inj:
  assumes "hx_ok ix"
  shows "inj_on (\<lambda>i. el_label (hx_elems ix ! i)) {..<length (hx_elems ix)}"
proof (rule inj_onI)
  fix i j assume i: "i \<in> {..<length (hx_elems ix)}" and j: "j \<in> {..<length (hx_elems ix)}"
    and eq: "el_label (hx_elems ix ! i) = el_label (hx_elems ix ! j)"
  from i j have "hx_lookup ix (el_label (hx_elems ix ! i)) = Some i" "hx_lookup ix (el_label (hx_elems ix ! j)) = Some j"
    by (simp_all only: lessThan_iff hx_okD(3)[OF assms])
  with eq have "Some i = Some j" by (simp only:)
  then show "i = j" by simp
qed

lemma card_dom_lookup: "hx_ok ix \<Longrightarrow> card (dom (hx_lookup ix)) = length (hx_elems ix)"
  by (simp only: dom_lookup card_image labels_inj card_lessThan)

lemma within_room:
  assumes "within L ix" "l \<in> L" "hx_lookup ix l = None"
  shows "length (hx_elems ix) < hx_max_elements ix"
proof -
  have w: "hx_ok ix" "dom (hx_lookup ix) \<subseteq> L" "finite L" "card L \<le> hx_max_elements ix" using assms(1) by (auto simp: within_def)
  have "l \<notin> dom (hx_lookup ix)" using assms(3) by (simp add: domIff)
  then have "dom (hx_lookup ix) \<subset> L" using w(2) assms(2) by blast
  then have "card (dom (hx_lookup ix)) < card L" using w(3) by (intro psubset_card_mono)
  then show ?thesis using w(4) card_dom_lookup[OF w(1)] by simp
qed

lemma within_mono: "within L ix \<Longrightarrow> L \<subseteq> L' \<Longrightarrow> finite L' \<Longrightarrow> card L' \<le> hx_max_elements ix \<Longrightarrow> within L' ix"
  by (auto simp: within_def)

lemma within_new: "finite L \<Longrightarrow> card L \<le> n \<Longrightarrow> within L (new_index lib n)"
  by (simp add: within_def) (simp add: new_index_def)

lemma within_reloaded:
  assumes "within L ix" "card L \<le> n"
  shows "within L (reloaded n ix)" "hx_max_elements (reloaded n ix) = n"
proof -
  have ok: "hx_ok ix" and fin: "finite L" and sub: "dom (hx_lookup ix) \<subseteq> L" using assms(1) by (auto simp: within_def)
  note r = reloaded_ok[OF ok, of n]
  have "length (hx_elems ix) \<le> card L" using card_mono[OF fin sub] card_dom_lookup[OF ok] by simp
  then show m: "hx_max_elements (reloaded n ix) = n" using assms(2) by (simp add: reloaded_def)
  have "hx_elems (reloaded n ix) = hx_elems ix" by (simp add: reloaded_def)
  then have "dom (hx_lookup (reloaded n ix)) = dom (hx_lookup ix)" by (simp only: dom_lookup[OF r(1)] dom_lookup[OF ok])
  then show "within L (reloaded n ix)" using r(1) sub fin assms(2) m by (simp add: within_def)
qed

lemma markDelete_frame: "markDelete l ix = Inr ix' \<Longrightarrow> hx_lookup ix' = hx_lookup ix \<and> hx_max_elements ix' = hx_max_elements ix"
  by (auto simp: markDelete_def split: option.splits if_splits)

lemma addPoint_frame:
  "addPoint lib v l ix = Inr ix' \<Longrightarrow> dom (hx_lookup ix') \<subseteq> insert l (dom (hx_lookup ix)) \<and> hx_max_elements ix' = hx_max_elements ix"
  by (auto simp: addPoint_def updatePoint_def Let_def split: option.splits if_splits)

lemma addPoint_succeeds:
  assumes "within L ix" "l \<in> L" "\<And>i. hx_lookup ix l = Some i \<Longrightarrow> \<not> isMarkedDeleted ix i"
  shows "\<exists>ix'. addPoint lib v l ix = Inr ix'"
  using within_room[OF assms(1,2)] assms(3)
  by (cases "hx_lookup ix l") (auto simp: addPoint_def getCurrentElementCount_def Let_def)

lemma card_vectors:
  assumes "hx_ok ix"
  shows "card (dom (vectors ix)) + hx_num_deleted ix = length (hx_elems ix)"
proof -
  let ?n = "length (hx_elems ix)" and ?f = "\<lambda>i. el_label (hx_elems ix ! i)"
  let ?live = "{i. i < ?n \<and> \<not> el_deleted (hx_elems ix ! i)}" and ?dead = "{i. i < ?n \<and> el_deleted (hx_elems ix ! i)}"
  have "dom (vectors ix) = ?f ` ?live"
  proof (rule set_eqI)
    fix l
    have "l \<in> dom (vectors ix) \<longleftrightarrow> (\<exists>i. hx_lookup ix l = Some i \<and> \<not> el_deleted (hx_elems ix ! i))"
      by (auto simp: vectors_def split: option.splits if_splits)
    also have "\<dots> \<longleftrightarrow> (\<exists>i. (i < ?n \<and> ?f i = l) \<and> \<not> el_deleted (hx_elems ix ! i))" unfolding hx_ok_lookup[OF assms] ..
    also have "\<dots> \<longleftrightarrow> l \<in> ?f ` ?live" by blast
    finally show "l \<in> dom (vectors ix) \<longleftrightarrow> l \<in> ?f ` ?live" .
  qed
  moreover have "inj_on ?f ?live" by (rule inj_on_subset[OF labels_inj[OF assms]]) auto
  ultimately have "card (dom (vectors ix)) = card ?live" by (simp add: card_image)
  moreover have "hx_num_deleted ix = card ?dead" using hx_okD(4)[OF assms] by (simp add: length_filter_conv_card)
  moreover have "card ?live + card ?dead = ?n"
  proof -
    have "?live \<union> ?dead = {..<?n}" "?live \<inter> ?dead = {}" by auto
    then show ?thesis by (metis card_Un_disjoint card_lessThan finite_Un finite_lessThan)
  qed
  ultimately show ?thesis by simp
qed

end
