(* ===== verification/Snapshots.thy ===== *)
theory Snapshots
  imports Hnsw_Labels Posix_File
begin

text \<open>
  The snapshot manager of the vector index (\<^verbatim>\<open>include/cortrix/store/phnsw/snapshot_manager.h\<close>,
  \<^verbatim>\<open>src/store/phnsw/snapshot_manager.cpp\<close>).  A data directory is the list of its entries in iteration
  order, a name with the bytes of the file; a new entry comes last, and a rename is atomic and durable.
  A snapshot is the pair of \<open>hnsw_<ts>.index\<close> and its 24-byte sibling \<open>.meta\<close>, which is the commit point.
  \<open>Save\<close> is written as the list of the directories it passes through, so that what an interrupted save
  leaves behind can be stated.
\<close>

section \<open>Directories\<close>

type_synonym dir = "(string \<times> bytes) list"

definition dir_write :: "string \<Rightarrow> bytes \<Rightarrow> dir \<Rightarrow> dir" where
  "dir_write n bs d = (if n \<in> fst ` set d then map (\<lambda>(m, b). if m = n then (m, bs) else (m, b)) d else d @ [(n, bs)])"

definition dir_remove :: "string \<Rightarrow> dir \<Rightarrow> dir" where
  "dir_remove n d = filter (\<lambda>(m, b). m \<noteq> n) d"

definition dir_rename :: "string \<Rightarrow> string \<Rightarrow> dir \<Rightarrow> dir" where
  "dir_rename a b d = (case map_of d a of None \<Rightarrow> d | Some bs \<Rightarrow> dir_write b bs (dir_remove a d))"

section \<open>The environment\<close>

text \<open>
  How the system calls end: what \<open>saveIndex\<close> leaves in its file (it throws, or silently writes a prefix,
  since it never checks its stream), which files can be read back, and the outcomes of the renames, of
  the footer's \<open>open\<close>, \<open>write\<close> and \<open>fsync\<close>, and of the removals.
\<close>

datatype save_outcome = SaveThrow nat string | SaveWrote nat | SaveAll

record snap_env =
  se_now :: u64
  se_save :: save_outcome
  se_readable :: "string \<Rightarrow> bool"
  se_rename_index :: "string option"
  se_meta_open :: "string option"
  se_meta_write :: pw_outcome
  se_meta_sync :: "string option"
  se_meta_rename :: "string option"
  se_remove :: "string \<Rightarrow> string option"

definition snap_failed :: "string \<Rightarrow> Status" where
  "snap_failed d = PhnswStatus kUnavailable phnsw_kSnapshotFailed d"

lemma not_ok_snap_failed [simp, status]: "\<not> ok (snap_failed d)"
  by (simp add: snap_failed_def)

definition try_remove :: "snap_env \<Rightarrow> string \<Rightarrow> dir \<Rightarrow> dir" where
  "try_remove env n d = (case se_remove env n of None \<Rightarrow> dir_remove n d | Some e \<Rightarrow> d)"

definition ReadWholeFile :: "snap_env \<Rightarrow> dir \<Rightarrow> string \<Rightarrow> bytes option" where
  "ReadWholeFile env d n = (if se_readable env n then map_of d n else None)"

section \<open>Names and listing\<close>

abbreviation "kIndexPrefix \<equiv> ''hnsw_''"
abbreviation "kIndexSuffix \<equiv> ''.index''"
abbreviation "kMetaExt \<equiv> ''.meta''"
abbreviation (input) "kFooterSize \<equiv> (24::nat)"

definition meta_of :: "string \<Rightarrow> string" where
  "meta_of index_path = index_path @ kMetaExt"

definition tmp_of :: "string \<Rightarrow> string" where
  "tmp_of final_path = final_path @ ''.tmp''"

record SnapshotFile =
  sf_timestamp :: u64
  sf_index_path :: string
  sf_meta_path :: string

definition is_digit :: "char \<Rightarrow> bool" where
  "is_digit c \<longleftrightarrow> 48 \<le> (of_char c :: nat) \<and> (of_char c :: nat) \<le> 57"

text \<open>\<open>strtoull\<close> on a string of digits saturates.\<close>

definition digits_value :: "string \<Rightarrow> nat" where
  "digits_value s = fold (\<lambda>c v. 10 * v + (of_char c - 48)) s 0"

definition strtoull :: "string \<Rightarrow> u64" where
  "strtoull s = of_nat (min (digits_value s) (2 ^ 64 - 1))"

definition snapshot_of_name :: "string \<Rightarrow> SnapshotFile option" where
  "snapshot_of_name name =
     (let plen = (5::nat); slen = (6::nat) in
      if length name \<le> plen + slen then None
      else if take plen name \<noteq> kIndexPrefix then None
      else if drop (length name - slen) name \<noteq> kIndexSuffix then None
      else let ts_str = take (length name - plen - slen) (drop plen name) in
        if ts_str = [] \<or> (\<exists>c\<in>set ts_str. \<not> is_digit c) then None
        else Some \<lparr>sf_timestamp = strtoull ts_str, sf_index_path = name, sf_meta_path = meta_of name\<rparr>)"

definition ListSnapshotsNewestFirst :: "dir \<Rightarrow> SnapshotFile list" where
  "ListSnapshotsNewestFirst d =
     sort_key (\<lambda>sf. - uint (sf_timestamp sf)) (List.map_filter snapshot_of_name (map fst d))"

section \<open>Footer\<close>

definition snap_footer :: "u64 \<Rightarrow> u32 \<Rightarrow> int \<Rightarrow> int \<Rightarrow> u32 \<Rightarrow> bytes" where
  "snap_footer lsn cnt dim M crc =
     PutU64 lsn @ PutU32 cnt @ PutU32 (word_of_int dim) @ PutU32 (word_of_int M) @ PutU32 crc"

record SnapshotMeta =
  sm_lsn :: u64
  sm_entry_count :: u32
  sm_dim :: int
  sm_M :: int

section \<open>CleanOldSnapshots\<close>

definition is_stale_tmp :: "string \<Rightarrow> bool" where
  "is_stale_tmp name \<longleftrightarrow> 4 \<le> length name \<and> drop (length name - 4) name = ''.tmp'' \<and> take 5 name = kIndexPrefix"

definition keep_count_of :: "int \<Rightarrow> nat" where
  "keep_count_of keep_count = nat (if keep_count < 1 then 1 else keep_count)"

definition CleanOldSnapshots :: "snap_env \<Rightarrow> nat \<Rightarrow> dir \<Rightarrow> dir" where
  "CleanOldSnapshots env keep d =
     (let d = fold (\<lambda>n d. if is_stale_tmp n then try_remove env n d else d) (map fst d) d;
          snaps = ListSnapshotsNewestFirst d
      in fold (\<lambda>sf d. try_remove env (sf_meta_path sf) (try_remove env (sf_index_path sf) d)) (drop keep snaps) d)"

section \<open>Save\<close>

text \<open>
  Writing the footer: the status and the directories passed, the last one being what is there when the
  call returns.
\<close>

definition WriteFileAtomic :: "snap_env \<Rightarrow> string \<Rightarrow> bytes \<Rightarrow> string \<Rightarrow> dir \<Rightarrow> Status \<times> dir list" where
  "WriteFileAtomic env final_path data what d =
     (let tmp = tmp_of final_path in
      case se_meta_open env of
        Some e \<Rightarrow> (snap_failed (what @ '' open tmp: '' @ e), [d])
      | None \<Rightarrow>
          let (w, content) = pwrite_all (\<lambda>e. snap_failed (what @ '' write tmp: '' @ e)) (se_meta_write env) [] data 0;
              d1 = dir_write tmp content d
          in if \<not> ok w then (w, [d, d1])
             else case se_meta_sync env of
               Some e \<Rightarrow> (snap_failed (what @ '' fsync tmp: '' @ e), [d, d1])
             | None \<Rightarrow> (case se_meta_rename env of
                 Some e \<Rightarrow> (snap_failed (what @ '' rename: '' @ e), [d, d1])
               | None \<Rightarrow> (Status_Ok, [d, d1, dir_rename tmp final_path d1])))"

definition snap_base :: "u64 \<Rightarrow> string" where
  "snap_base ts = kIndexPrefix @ to_string (unat ts) @ kIndexSuffix"

definition saved_bytes :: "snap_env \<Rightarrow> bytes \<Rightarrow> bytes" where
  "saved_bytes env bs = (case se_save env of SaveThrow k e \<Rightarrow> take k bs | SaveWrote k \<Rightarrow> take k bs | SaveAll \<Rightarrow> bs)"

definition Save_trace ::
  "'g hnswlib \<Rightarrow> snap_env \<Rightarrow> nat \<Rightarrow> 'g Hnsw option \<Rightarrow> u64 \<Rightarrow> int \<Rightarrow> int \<Rightarrow> dir \<Rightarrow> Status \<times> dir list" where
  "Save_trace lib env keep index lsn dim M d = (case index of
     None \<Rightarrow> (PhnswStatus kInvalidArgument phnsw_kSnapshotFailed ''SnapshotManager::Save: null index'', [d])
   | Some ix \<Rightarrow>
     let index_final = snap_base (se_now env);
         index_tmp = tmp_of index_final;
         meta_final = meta_of index_final;
         d1 = dir_write index_tmp (saved_bytes env (hl_save lib ix)) d
     in case se_save env of
       SaveThrow k e \<Rightarrow> (snap_failed (''SnapshotManager::Save saveIndex: '' @ e), [d, d1])
     | _ \<Rightarrow>
       (case ReadWholeFile env d1 index_tmp of
          None \<Rightarrow> (snap_failed ''SnapshotManager::Save: cannot read temp index for CRC'', [d, d1, try_remove env index_tmp d1])
        | Some index_bytes \<Rightarrow>
          let crc = Crc32 index_bytes; cnt = of_nat (getCurrentElementCount ix) in
          case se_rename_index env of
            Some e \<Rightarrow> (snap_failed (''SnapshotManager::Save rename index: '' @
                        (case se_remove env index_tmp of None \<Rightarrow> ''Success'' | Some e \<Rightarrow> e)),
                      [d, d1, try_remove env index_tmp d1])
          | None \<Rightarrow>
            let d2 = dir_rename index_tmp index_final d1;
                (mw, ds) = WriteFileAtomic env meta_final (snap_footer lsn cnt dim M crc) ''SnapshotManager::Save meta'' d2
            in if \<not> ok mw then (mw, [d, d1] @ ds @ [try_remove env index_final (last ds)])
               else (Status_Ok, [d, d1] @ ds @ [CleanOldSnapshots env keep (last ds)])))"

definition Save :: "'g hnswlib \<Rightarrow> snap_env \<Rightarrow> nat \<Rightarrow> 'g Hnsw option \<Rightarrow> u64 \<Rightarrow> int \<Rightarrow> int \<Rightarrow> dir \<Rightarrow> Status \<times> dir" where
  "Save lib env keep index lsn dim M d = (let (st, ds) = Save_trace lib env keep index lsn dim M d in (st, last ds))"

section \<open>Load and the footer readers\<close>

fun load_from ::
  "'g hnswlib \<Rightarrow> snap_env \<Rightarrow> nat \<Rightarrow> dir \<Rightarrow> bool \<Rightarrow> SnapshotFile list \<Rightarrow> Status \<times> 'g Hnsw option \<times> u64" where
  "load_from lib env max_elements d any_seen [] =
     (if any_seen
      then (PhnswStatus kInternal phnsw_kSnapshotCorrupted ''SnapshotManager::Load: all snapshots corrupt'', None, 0)
      else (Status_Ok, None, 0))"
| "load_from lib env max_elements d any_seen (sf # snaps) =
     (case ReadWholeFile env d (sf_meta_path sf) of
        None \<Rightarrow> load_from lib env max_elements d any_seen snaps
      | Some meta \<Rightarrow>
        if length meta \<noteq> kFooterSize then load_from lib env max_elements d any_seen snaps
        else let snap_lsn = GetU64 meta; footer_crc = GetU32 (drop 20 meta) in
          (case ReadWholeFile env d (sf_index_path sf) of
             None \<Rightarrow> load_from lib env max_elements d True snaps
           | Some index_bytes \<Rightarrow>
             if Crc32 index_bytes \<noteq> footer_crc then load_from lib env max_elements d True snaps
             else case hl_load lib max_elements index_bytes of
               None \<Rightarrow> load_from lib env max_elements d True snaps
             | Some idx \<Rightarrow> (Status_Ok, Some idx, snap_lsn)))"

definition Load :: "'g hnswlib \<Rightarrow> snap_env \<Rightarrow> nat \<Rightarrow> dir \<Rightarrow> Status \<times> 'g Hnsw option \<times> u64" where
  "Load lib env max_elements d = load_from lib env max_elements d False (ListSnapshotsNewestFirst d)"

definition first_meta :: "snap_env \<Rightarrow> dir \<Rightarrow> bytes option" where
  "first_meta env d =
     (case List.map_filter (\<lambda>sf. case ReadWholeFile env d (sf_meta_path sf) of
              None \<Rightarrow> None | Some m \<Rightarrow> if length m \<noteq> kFooterSize then None else Some m) (ListSnapshotsNewestFirst d) of
        [] \<Rightarrow> None | m # ms \<Rightarrow> Some m)"

definition PeekLatestMeta :: "snap_env \<Rightarrow> dir \<Rightarrow> SnapshotMeta option" where
  "PeekLatestMeta env d = map_option (\<lambda>meta. \<lparr>sm_lsn = GetU64 meta, sm_entry_count = GetU32 (drop 8 meta),
     sm_dim = sint (GetU32 (drop 12 meta)), sm_M = sint (GetU32 (drop 16 meta))\<rparr>) (first_meta env d)"

definition LatestSnapshotLsn :: "snap_env \<Rightarrow> dir \<Rightarrow> u64" where
  "LatestSnapshotLsn env d = (case first_meta env d of None \<Rightarrow> 0 | Some meta \<Rightarrow> GetU64 meta)"

section \<open>Names\<close>

lemma of_char_digit: "n < 10 \<Longrightarrow> (of_char (char_of (48 + n) :: char) :: nat) = 48 + n"
  by simp

lemma to_string_digits: "c \<in> set (to_string n) \<Longrightarrow> is_digit c"
proof (induction n rule: to_string.induct)
  case (1 n)
  then show ?case
    by (subst (asm) (2) to_string.simps)
       (auto simp: is_digit_def of_char_digit split: if_splits)
qed

lemma to_string_nonempty [simp]: "to_string n \<noteq> []"
  by (subst to_string.simps) simp

lemma digits_value_to_string [simp]: "digits_value (to_string n) = n"
proof (induction n rule: to_string.induct)
  case (1 n)
  have "digits_value (xs @ [c]) = 10 * digits_value xs + (of_char c - 48)" for xs c
    by (simp add: digits_value_def)
  moreover have "digits_value [c] = of_char c - 48" for c by (simp add: digits_value_def)
  ultimately show ?case
    using 1 by (subst to_string.simps) (auto simp: of_char_digit)
qed

lemma strtoull_to_string [simp]: "strtoull (to_string (unat (t :: u64))) = t"
proof -
  have "unat t < 2 ^ LENGTH(64)" by (rule unsigned_less)
  then have "unat t \<le> 2 ^ 64 - 1" by simp
  then show ?thesis by (simp add: strtoull_def min_absorb1)
qed

lemma snapshot_of_base:
  "snapshot_of_name (snap_base t) = Some \<lparr>sf_timestamp = t, sf_index_path = snap_base t, sf_meta_path = meta_of (snap_base t)\<rparr>"
  using to_string_digits[of _ "unat t"]
  by (auto simp: snapshot_of_name_def snap_base_def Let_def)

lemma snapshot_of_name_last: "snapshot_of_name n = Some sf \<Longrightarrow> last n = CHR ''x''"
proof -
  assume a: "snapshot_of_name n = Some sf"
  then have d: "drop (length n - 6) n = ''.index''" "n \<noteq> []" by (auto simp: snapshot_of_name_def Let_def split: if_splits)
  then have "last n = last (drop (length n - 6) n)" by (intro last_drop[symmetric]) simp
  then show ?thesis using d by simp
qed

lemma snapshot_of_name_paths:
  "snapshot_of_name n = Some sf \<Longrightarrow> sf_index_path sf = n \<and> sf_meta_path sf = meta_of n"
  by (auto simp: snapshot_of_name_def Let_def split: if_splits)

lemma not_snapshotI: "last n \<noteq> CHR ''x'' \<Longrightarrow> snapshot_of_name n = None"
  using snapshot_of_name_last by (cases "snapshot_of_name n") auto

lemma last_ext [simp]: "last (tmp_of n) = CHR ''p''" "last (meta_of n) = CHR ''a''" "meta_of n = meta_of m \<longleftrightarrow> n = m"
  by (simp_all add: tmp_of_def meta_of_def)

lemma not_snapshot [simp]: "snapshot_of_name (tmp_of n) = None" "snapshot_of_name (meta_of n) = None"
  by (rule not_snapshotI, simp)+

lemma tmp_not_meta [simp]: "tmp_of n \<noteq> meta_of m" "meta_of m \<noteq> tmp_of n"
  by (auto dest: arg_cong[where f = last])

lemma base_not_ext [simp]:
  "snap_base t \<noteq> tmp_of n" "tmp_of n \<noteq> snap_base t" "snap_base t \<noteq> meta_of n" "meta_of n \<noteq> snap_base t"
  by (metis not_snapshot snapshot_of_base option.distinct(1))+

section \<open>Listing\<close>

lemma map_filter_paths:
  "map sf_index_path (List.map_filter snapshot_of_name ns) = filter (\<lambda>n. snapshot_of_name n \<noteq> None) ns"
  by (induction ns) (auto simp: map_filter_simps dest: snapshot_of_name_paths split: option.split)

lemma set_map_filter_snap: "sf \<in> set (List.map_filter snapshot_of_name ns) \<longleftrightarrow> (\<exists>n\<in>set ns. snapshot_of_name n = Some sf)"
  by (induction ns) (auto simp: map_filter_simps split: option.splits)

lemma set_List: "sf \<in> set (ListSnapshotsNewestFirst d) \<longleftrightarrow> (\<exists>n\<in>fst ` set d. snapshot_of_name n = Some sf)"
  by (simp add: ListSnapshotsNewestFirst_def set_map_filter_snap)

lemma List_mono: "fst ` set d \<subseteq> fst ` set d' \<Longrightarrow> set (ListSnapshotsNewestFirst d) \<subseteq> set (ListSnapshotsNewestFirst d')"
proof
  fix sf assume sub: "fst ` set d \<subseteq> fst ` set d'" and "sf \<in> set (ListSnapshotsNewestFirst d)"
  then obtain n where "n \<in> fst ` set d" "snapshot_of_name n = Some sf" unfolding set_List by blast
  with sub show "sf \<in> set (ListSnapshotsNewestFirst d')" unfolding set_List by blast
qed

lemma distinct_List:
  assumes "distinct (map fst d)"
  shows "distinct (ListSnapshotsNewestFirst d)"
proof -
  have "distinct (map sf_index_path (List.map_filter snapshot_of_name (map fst d)))"
    unfolding map_filter_paths using assms by (rule distinct_filter)
  then show ?thesis by (simp add: ListSnapshotsNewestFirst_def distinct_map)
qed

lemma List_append_other:
  "snapshot_of_name n = None \<Longrightarrow> ListSnapshotsNewestFirst (d @ [(n, b)]) = ListSnapshotsNewestFirst d"
  by (simp add: ListSnapshotsNewestFirst_def map_filter_def)

lemma foldr_insort_least:
  "\<forall>y\<in>set xs. f x < f y \<Longrightarrow> foldr (insort_key f) xs [x] = x # foldr (insort_key f) xs []"
  by (induction xs) (auto simp: not_le)

lemma sort_key_append_least: "\<forall>y\<in>set xs. f x < f y \<Longrightarrow> sort_key f (xs @ [x]) = x # sort_key f xs"
  using foldr_insort_least[of xs f x] by (simp add: sort_key_def)

text \<open>The name of a new snapshot is new in the directory, and its time is later than that of every other one.\<close>

definition newest :: "u64 \<Rightarrow> dir \<Rightarrow> bool" where
  "newest t d \<longleftrightarrow> (\<forall>sf\<in>set (ListSnapshotsNewestFirst d). sf_timestamp sf < t)"

definition fresh :: "u64 \<Rightarrow> dir \<Rightarrow> bool" where
  "fresh t d \<longleftrightarrow> distinct (map fst d) \<and> newest t d \<and> snap_base t \<notin> fst ` set d \<and> tmp_of (snap_base t) \<notin> fst ` set d \<and>
     meta_of (snap_base t) \<notin> fst ` set d \<and> tmp_of (meta_of (snap_base t)) \<notin> fst ` set d"

abbreviation "new_snap t \<equiv> \<lparr>sf_timestamp = t, sf_index_path = snap_base t, sf_meta_path = meta_of (snap_base t)\<rparr>"

lemma List_append_newest:
  assumes "newest t d"
  shows "ListSnapshotsNewestFirst (d @ [(snap_base t, b)]) = new_snap t # ListSnapshotsNewestFirst d"
proof -
  let ?xs = "List.map_filter snapshot_of_name (map fst d)"
  have "\<forall>y\<in>set ?xs. - uint (sf_timestamp (new_snap t)) < - uint (sf_timestamp y)"
    using assms by (auto simp: newest_def ListSnapshotsNewestFirst_def word_less_def)
  from sort_key_append_least[OF this] show ?thesis
    by (simp add: ListSnapshotsNewestFirst_def map_filter_def snapshot_of_base)
qed

lemma List_hd_newest:
  assumes "new_snap t \<in> set (ListSnapshotsNewestFirst d)"
    and "\<forall>sf\<in>set (ListSnapshotsNewestFirst d). sf \<noteq> new_snap t \<longrightarrow> sf_timestamp sf < t"
  shows "\<exists>rest. ListSnapshotsNewestFirst d = new_snap t # rest"
proof -
  let ?L = "ListSnapshotsNewestFirst d"
  obtain x rest where L: "?L = x # rest" using assms(1) by (cases ?L) auto
  have "sorted (map (\<lambda>sf. - uint (sf_timestamp sf)) ?L)" unfolding ListSnapshotsNewestFirst_def by simp
  then have "\<forall>y\<in>set rest. - uint (sf_timestamp x) \<le> - uint (sf_timestamp y)" by (simp add: L)
  then have "\<not> sf_timestamp x < t" using assms(1) by (auto simp: L word_less_def)
  then have "x = new_snap t" using assms(2) L by auto
  with L show ?thesis by blast
qed

section \<open>What Load returns\<close>

lemma load_from_cong:
  "(\<And>sf. sf \<in> set snaps \<Longrightarrow> map_of d (sf_meta_path sf) = map_of d' (sf_meta_path sf) \<and>
      map_of d (sf_index_path sf) = map_of d' (sf_index_path sf)) \<Longrightarrow>
   load_from lib env mx d seen snaps = load_from lib env mx d' seen snaps"
proof (induction snaps arbitrary: seen)
  case (Cons sf snaps)
  have r: "ReadWholeFile env d (sf_meta_path sf) = ReadWholeFile env d' (sf_meta_path sf)"
    "ReadWholeFile env d (sf_index_path sf) = ReadWholeFile env d' (sf_index_path sf)"
    using Cons.prems[of sf] by (simp_all add: ReadWholeFile_def)
  have ih: "load_from lib env mx d s snaps = load_from lib env mx d' s snaps" for s
    by (rule Cons.IH) (use Cons.prems in auto)
  show ?case unfolding load_from.simps r ih ..
qed simp

text \<open>A file that is neither a snapshot nor the footer of a listed one does not matter.\<close>

lemma map_of_append_other: "n \<noteq> m \<Longrightarrow> map_of (d @ [(n, b)]) m = map_of d m"
  by (simp add: map_of_append map_add_def) (cases "map_of d m"; simp)

lemma Load_append_other:
  assumes "snapshot_of_name n = None" "\<forall>m\<in>fst ` set d. snapshot_of_name m \<noteq> None \<longrightarrow> n \<noteq> meta_of m"
  shows "Load lib env mx (d @ [(n, b)]) = Load lib env mx d"
  unfolding Load_def List_append_other[OF assms(1)]
proof (rule load_from_cong)
  fix sf assume "sf \<in> set (ListSnapshotsNewestFirst d)"
  then obtain m where m: "m \<in> fst ` set d" "snapshot_of_name m = Some sf" unfolding set_List by blast
  then have "n \<noteq> m" "n \<noteq> meta_of m" using assms by auto
  then show "map_of (d @ [(n, b)]) (sf_meta_path sf) = map_of d (sf_meta_path sf) \<and>
      map_of (d @ [(n, b)]) (sf_index_path sf) = map_of d (sf_index_path sf)"
    using snapshot_of_name_paths[OF m(2)] by (simp add: map_of_append_other del: map_of_append)
qed

text \<open>An index file without its footer is not a snapshot.\<close>

lemma Load_append_orphan:
  assumes "fresh t d"
  shows "Load lib env mx (d @ [(snap_base t, b)]) = Load lib env mx d"
proof -
  have n: "newest t d" "map_of d (meta_of (snap_base t)) = None" "snap_base t \<notin> fst ` set d"
    using assms by (auto simp: fresh_def map_of_eq_None_iff)
  have "ReadWholeFile env (d @ [(snap_base t, b)]) (meta_of (snap_base t)) = None"
    using n(2) by (simp add: ReadWholeFile_def map_of_append_other del: map_of_append)
  then have "Load lib env mx (d @ [(snap_base t, b)]) =
      load_from lib env mx (d @ [(snap_base t, b)]) False (ListSnapshotsNewestFirst d)"
    unfolding Load_def List_append_newest[OF n(1)] by simp
  also have "\<dots> = load_from lib env mx d False (ListSnapshotsNewestFirst d)"
  proof (rule load_from_cong)
    fix sf assume "sf \<in> set (ListSnapshotsNewestFirst d)"
    then obtain m where m: "m \<in> fst ` set d" "snapshot_of_name m = Some sf" unfolding set_List by blast
    then have "snap_base t \<noteq> m" "snap_base t \<noteq> meta_of m" using n(3) by auto
    then show "map_of (d @ [(snap_base t, b)]) (sf_meta_path sf) = map_of d (sf_meta_path sf) \<and>
        map_of (d @ [(snap_base t, b)]) (sf_index_path sf) = map_of d (sf_index_path sf)"
      using snapshot_of_name_paths[OF m(2)] by (simp add: map_of_append_other del: map_of_append)
  qed
  finally show ?thesis by (simp add: Load_def)
qed

lemma length_snap_footer [simp]: "length (snap_footer l c dim M crc) = 24"
  by (simp add: snap_footer_def)

lemma snap_footer_fields:
  "GetU64 (snap_footer l c dim M crc) = l" "GetU32 (drop 8 (snap_footer l c dim M crc)) = c"
  "GetU32 (drop 12 (snap_footer l c dim M crc)) = word_of_int dim" "GetU32 (drop 16 (snap_footer l c dim M crc)) = word_of_int M"
  "GetU32 (drop 20 (snap_footer l c dim M crc)) = crc"
  by (simp_all add: snap_footer_def)

text \<open>A complete snapshot that is newer than all others is the one that is loaded.\<close>

lemma load_from_hd:
  assumes "map_of d (snap_base t) = Some bs" "map_of d (meta_of (snap_base t)) = Some (snap_footer lsn cnt dim M (Crc32 bs))"
    and "se_readable env = (\<lambda>_. True)" "hl_load lib mx bs = Some ix"
  shows "load_from lib env mx d seen (new_snap t # rest) = (Status_Ok, Some ix, lsn)"
  using assms by (simp add: ReadWholeFile_def snap_footer_fields)

lemma Load_newest:
  assumes "map_of d (snap_base t) = Some bs" "map_of d (meta_of (snap_base t)) = Some (snap_footer lsn cnt dim M (Crc32 bs))"
    and "\<forall>sf\<in>set (ListSnapshotsNewestFirst d). sf \<noteq> new_snap t \<longrightarrow> sf_timestamp sf < t"
    and "se_readable env = (\<lambda>_. True)" "hl_load lib mx bs = Some ix"
  shows "Load lib env mx d = (Status_Ok, Some ix, lsn)"
proof -
  have "snap_base t \<in> fst ` set d" using map_of_SomeD[OF assms(1)] by force
  then have "new_snap t \<in> set (ListSnapshotsNewestFirst d)" unfolding set_List using snapshot_of_base by blast
  from List_hd_newest[OF this assms(3)] obtain rest where "ListSnapshotsNewestFirst d = new_snap t # rest" by blast
  then show ?thesis unfolding Load_def using load_from_hd[OF assms(1,2,4,5)] by simp
qed

section \<open>Cleaning keeps the newest snapshot\<close>

lemma dir_remove_other: "n \<noteq> m \<Longrightarrow> map_of (dir_remove n d) m = map_of d m"
  by (induction d) (auto simp: dir_remove_def)

lemma try_remove_other: "n \<noteq> m \<Longrightarrow> map_of (try_remove env n d) m = map_of d m"
  by (simp add: try_remove_def dir_remove_other split: option.split)

lemma try_remove_names: "fst ` set (try_remove env n d) \<subseteq> fst ` set d"
  by (auto simp: try_remove_def dir_remove_def split: option.split)

lemma try_remove_distinct: "distinct (map fst d) \<Longrightarrow> distinct (map fst (try_remove env n d))"
  by (simp add: try_remove_def dir_remove_def distinct_map_filter split: option.split)

lemma fold_try_remove_other: "m \<notin> set ns \<Longrightarrow> map_of (fold (try_remove env) ns d) m = map_of d m"
  by (induction ns arbitrary: d) (auto simp: try_remove_other)

lemma fold_try_remove_names: "fst ` set (fold (try_remove env) ns d) \<subseteq> fst ` set d"
proof (induction ns arbitrary: d)
  case (Cons n ns)
  show ?case using Cons[of "try_remove env n d"] try_remove_names[of env n d] by (simp only: fold_simps subset_trans)
qed simp

lemma fold_try_remove_distinct: "distinct (map fst d) \<Longrightarrow> distinct (map fst (fold (try_remove env) ns d))"
  by (induction ns arbitrary: d) (simp_all add: try_remove_distinct)

lemma fold_if_filter: "fold (\<lambda>n d. if P n then f n d else d) ns d = fold f (filter P ns) d"
  by (induction ns arbitrary: d) simp_all

lemma fold_pairs: "fold (\<lambda>x d. f (h x) (f (g x) d)) xs d = fold f (concat (map (\<lambda>x. [g x, h x]) xs)) d"
  by (induction xs arbitrary: d) simp_all

lemma CleanOldSnapshots_newest:
  fixes env :: snap_env
  assumes d: "distinct (map fst d)" and base: "snap_base t \<in> fst ` set d" and keep: "0 < keep"
    and nw: "\<forall>sf\<in>set (ListSnapshotsNewestFirst d). sf \<noteq> new_snap t \<longrightarrow> sf_timestamp sf < t"
  defines "d' \<equiv> CleanOldSnapshots env keep d"
  shows "map_of d' (snap_base t) = map_of d (snap_base t)" "map_of d' (meta_of (snap_base t)) = map_of d (meta_of (snap_base t))"
    "fst ` set d' \<subseteq> fst ` set d" "distinct (map fst d')"
proof -
  define d1 where "d1 = fold (try_remove env) (filter is_stale_tmp (map fst d)) d"
  define snaps where "snaps = ListSnapshotsNewestFirst d1"
  define gone where "gone = concat (map (\<lambda>sf. [sf_index_path sf, sf_meta_path sf]) (drop keep snaps))"
  have d': "d' = fold (try_remove env) gone d1"
    unfolding d'_def CleanOldSnapshots_def Let_def fold_if_filter fold_pairs d1_def snaps_def gone_def ..
  have tmp: "is_stale_tmp n \<Longrightarrow> last n = CHR ''p''" for n
  proof -
    assume a: "is_stale_tmp n"
    then have "drop (length n - 4) n = ''.tmp''" "n \<noteq> []" by (auto simp: is_stale_tmp_def)
    moreover from this have "last n = last (drop (length n - 4) n)" by (intro last_drop[symmetric]) simp
    ultimately show ?thesis by simp
  qed
  have lb: "last (snap_base t) = CHR ''x''" by (rule snapshot_of_name_last[OF snapshot_of_base])
  have f1: "map_of d1 m = map_of d m" if "last m \<noteq> CHR ''p''" for m
    unfolding d1_def by (rule fold_try_remove_other) (use tmp that in auto)
  have f2: "fst ` set d1 \<subseteq> fst ` set d" "distinct (map fst d1)"
    unfolding d1_def using d by (simp_all only: fold_try_remove_names fold_try_remove_distinct)
  have b1: "map_of d1 (snap_base t) \<noteq> None" using base f1[of "snap_base t"] lb by (simp add: map_of_eq_None_iff)
  then have "snap_base t \<in> fst ` set d1" by (simp add: map_of_eq_None_iff)
  then have "new_snap t \<in> set snaps" unfolding snaps_def set_List using snapshot_of_base by blast
  moreover have "\<forall>sf\<in>set snaps. sf \<noteq> new_snap t \<longrightarrow> sf_timestamp sf < t"
    using nw List_mono[OF f2(1)] unfolding snaps_def by (meson subsetD)
  ultimately have "\<exists>rest. snaps = new_snap t # rest" unfolding snaps_def by (rule List_hd_newest)
  then obtain rest where sn: "snaps = new_snap t # rest" ..
  have nin: "new_snap t \<notin> set (drop keep snaps)"
  proof -
    have "new_snap t \<notin> set rest" using distinct_List[OF f2(2)] unfolding snaps_def[symmetric] sn by simp
    moreover obtain k where "keep = Suc k" using keep by (cases keep) simp_all
    ultimately show ?thesis by (simp add: sn) (meson in_set_dropD)
  qed
  have oth: "sf_index_path sf \<noteq> snap_base t \<and> sf_meta_path sf \<noteq> meta_of (snap_base t) \<and>
      last (sf_index_path sf) = CHR ''x'' \<and> last (sf_meta_path sf) = CHR ''a''" if "sf \<in> set (drop keep snaps)" for sf
  proof -
    from that have "sf \<in> set snaps" "sf \<noteq> new_snap t" using nin by (auto dest: in_set_dropD)
    then obtain n where n: "snapshot_of_name n = Some sf" unfolding snaps_def set_List by blast
    then have "n \<noteq> snap_base t" using \<open>sf \<noteq> new_snap t\<close> snapshot_of_base[of t] by auto
    with snapshot_of_name_paths[OF n] snapshot_of_name_last[OF n] show ?thesis by simp
  qed
  have "snap_base t \<notin> set gone" using oth lb by (force simp: gone_def)
  moreover have "meta_of (snap_base t) \<notin> set gone"
  proof
    assume "meta_of (snap_base t) \<in> set gone"
    then obtain sf where sf: "sf \<in> set (drop keep snaps)"
      "meta_of (snap_base t) = sf_index_path sf \<or> meta_of (snap_base t) = sf_meta_path sf"
      unfolding gone_def by auto
    have l: "last (meta_of (snap_base t)) = CHR ''a''" by simp
    show False using oth[OF sf(1)] sf(2) l by (elim disjE) simp_all
  qed
  ultimately show "map_of d' (snap_base t) = map_of d (snap_base t)"
    "map_of d' (meta_of (snap_base t)) = map_of d (meta_of (snap_base t))"
    unfolding d' using f1[of "snap_base t"] f1[of "meta_of (snap_base t)"] lb by (simp_all add: fold_try_remove_other)
  show "fst ` set d' \<subseteq> fst ` set d" unfolding d' using fold_try_remove_names f2(1) by (rule subset_trans)
  show "distinct (map fst d')" unfolding d' using f2(2) by (rule fold_try_remove_distinct)
qed

section \<open>The directories a save passes through\<close>

lemma dir_write_new: "n \<notin> fst ` set d \<Longrightarrow> dir_write n b d = d @ [(n, b)]"
  by (simp add: dir_write_def)

lemma dir_remove_absent: "n \<notin> fst ` set d \<Longrightarrow> dir_remove n d = d"
  by (induction d) (auto simp: dir_remove_def)

lemma dir_remove_append: "dir_remove n (d @ e) = dir_remove n d @ dir_remove n e"
  by (simp add: dir_remove_def)

lemma dir_rename_last:
  assumes "a \<notin> fst ` set d" "b \<notin> fst ` set d"
  shows "dir_rename a b (d @ [(a, bs)]) = d @ [(b, bs)]"
proof -
  have "map_of (d @ [(a, bs)]) a = Some bs" using assms(1) by (simp add: map_add_Some_iff map_of_eq_None_iff)
  moreover have "dir_remove a (d @ [(a, bs)]) = d"
    using assms(1) by (simp add: dir_remove_append dir_remove_absent) (simp add: dir_remove_def)
  ultimately show ?thesis using assms(2) by (simp add: dir_rename_def dir_write_new)
qed

lemma try_remove_last:
  assumes "a \<notin> fst ` set d"
  shows "try_remove env a (d @ (a, bs) # e) \<in> {d @ (a, bs) # e, d @ dir_remove a e}"
  using assms by (simp add: try_remove_def dir_remove_append dir_remove_absent split: option.split) (simp add: dir_remove_def)

text \<open>The directories of an unfinished save; none of them changes what is loaded.\<close>

definition unfinished :: "u64 \<Rightarrow> dir \<Rightarrow> dir \<Rightarrow> bool" where
  "unfinished t d d' \<longleftrightarrow> (\<exists>b c. d' \<in> {d, d @ [(tmp_of (snap_base t), b)], d @ [(snap_base t, b)],
     d @ [(tmp_of (meta_of (snap_base t)), c)], d @ [(snap_base t, b), (tmp_of (meta_of (snap_base t)), c)]})"

lemma unfinishedI:
  "unfinished t d d" "unfinished t d (d @ [(tmp_of (snap_base t), b)])" "unfinished t d (d @ [(snap_base t, b)])"
  "unfinished t d (d @ [(tmp_of (meta_of (snap_base t)), c)])"
  "unfinished t d (d @ [(snap_base t, b), (tmp_of (meta_of (snap_base t)), c)])"
  unfolding unfinished_def by blast+

lemma Load_unfinished:
  assumes f: "fresh t d" and u: "unfinished t d d'"
  shows "Load lib env mx d' = Load lib env mx d"
proof -
  have tmp: "Load lib env mx (e @ [(tmp_of n, b)]) = Load lib env mx e" for n b e
    by (rule Load_append_other) simp_all
  have "Load lib env mx (d @ [(snap_base t, b), (tmp_of (meta_of (snap_base t)), c)]) = Load lib env mx d" for b c
    using tmp[of "d @ [(snap_base t, b)]" "meta_of (snap_base t)" c] Load_append_orphan[OF f] by simp
  with u tmp Load_append_orphan[OF f] show ?thesis unfolding unfinished_def by auto
qed

text \<open>The footer write on a directory in which the index file has just been renamed into place.\<close>

lemma WriteFileAtomic_dirs:
  assumes f: "fresh t d" and w: "WriteFileAtomic env (meta_of (snap_base t)) foot what (d @ [(snap_base t, b)]) = (st, ds)"
    and ne: "foot \<noteq> []"
  shows "(ok st \<longrightarrow> ds = [d @ [(snap_base t, b)], d @ [(snap_base t, b), (tmp_of (meta_of (snap_base t)), foot)],
              d @ [(snap_base t, b), (meta_of (snap_base t), foot)]]) \<and>
    (\<not> ok st \<longrightarrow> ds \<noteq> [] \<and> (\<forall>e\<in>set ds. e = d @ [(snap_base t, b)] \<or>
       (\<exists>c. e = d @ [(snap_base t, b), (tmp_of (meta_of (snap_base t)), c)])))"
proof -
  let ?m = "meta_of (snap_base t)" and ?d2 = "d @ [(snap_base t, b)]"
  have nm: "tmp_of ?m \<notin> fst ` set ?d2" "?m \<notin> fst ` set ?d2" using f by (auto simp: fresh_def)
  have wr: "dir_write (tmp_of ?m) c ?d2 = d @ [(snap_base t, b), (tmp_of ?m, c)]" for c
    using dir_write_new[OF nm(1)] by simp
  have rn: "dir_rename (tmp_of ?m) ?m (d @ [(snap_base t, b), (tmp_of ?m, c)]) = d @ [(snap_base t, b), (?m, c)]" for c
    using dir_rename_last[OF nm, of c] by simp
  show ?thesis
  proof (cases "se_meta_write env")
    case PwOk
    then show ?thesis
      using w ne by (auto simp: WriteFileAtomic_def pwrite_all_def pwrite_at_def wr rn Let_def split: option.splits)
  next
    case (PwErr k e)
    then show ?thesis
      using w ne by (auto simp: WriteFileAtomic_def pwrite_all_def wr Let_def split: option.splits)
  qed
qed

lemma Save_trace_dirs:
  assumes f: "fresh (se_now env) d" and sv: "Save_trace lib env keep (Some ix) lsn dim M d = (st, ds)"
  defines "t \<equiv> se_now env" and "b \<equiv> saved_bytes env (hl_save lib ix)"
  defines "d4 \<equiv> d @ [(snap_base t, b), (meta_of (snap_base t),
              snap_footer lsn (of_nat (getCurrentElementCount ix)) dim M (Crc32 b))]"
  shows "(ok st \<longrightarrow> (\<exists>ds'. ds = ds' @ [d4, CleanOldSnapshots env keep d4] \<and> (\<forall>e\<in>set ds'. unfinished t d e))) \<and>
    (\<not> ok st \<longrightarrow> ds \<noteq> [] \<and> (\<forall>e\<in>set ds. unfinished t d e))"
proof -
  have ft: "fresh t d" using f by (simp add: t_def)
  have nm: "tmp_of (snap_base t) \<notin> fst ` set d" "snap_base t \<notin> fst ` set d" using ft by (auto simp: fresh_def)
  let ?d1 = "d @ [(tmp_of (snap_base t), b)]" and ?d2 = "d @ [(snap_base t, b)]"
  have d1: "dir_write (tmp_of (snap_base t)) b d = ?d1" by (rule dir_write_new[OF nm(1)])
  have rm: "try_remove env (tmp_of (snap_base t)) ?d1 \<in> {?d1, d}"
    using try_remove_last[OF nm(1), of env b "[]"] by (simp add: dir_remove_def)
  have d2: "dir_rename (tmp_of (snap_base t)) (snap_base t) ?d1 = ?d2" by (rule dir_rename_last[OF nm])
  note u = unfinishedI[where t = t and d = d]
  have rd: "ReadWholeFile env ?d1 (tmp_of (snap_base t)) = (if se_readable env (tmp_of (snap_base t)) then Some b else None)"
    using nm(1) by (simp add: ReadWholeFile_def map_add_Some_iff map_of_eq_None_iff)
  show ?thesis
  proof (cases "(\<exists>k e. se_save env = SaveThrow k e) \<or> \<not> se_readable env (tmp_of (snap_base t)) \<or> se_rename_index env \<noteq> None")
    case True
    then have "\<not> ok st \<and> ds \<noteq> [] \<and> (\<forall>e\<in>set ds. e \<in> {d, ?d1})"
      using sv rm d1 rd
      by (auto simp: Save_trace_def t_def[symmetric] b_def[symmetric] Let_def split: save_outcome.splits option.splits if_splits)
    then show ?thesis using u by fastforce
  next
    case False
    let ?foot = "snap_footer lsn (of_nat (getCurrentElementCount ix)) dim M (Crc32 b)"
    obtain mw ds1 where w: "WriteFileAtomic env (meta_of (snap_base t)) ?foot ''SnapshotManager::Save meta'' ?d2 = (mw, ds1)"
      by fastforce
    have sv': "(st, ds) = (if \<not> ok mw then (mw, [d, ?d1] @ ds1 @ [try_remove env (snap_base t) (last ds1)])
        else (Status_Ok, [d, ?d1] @ ds1 @ [CleanOldSnapshots env keep (last ds1)]))"
      using sv False w d1 d2 rd
      by (auto simp: Save_trace_def t_def[symmetric] b_def[symmetric] Let_def split: save_outcome.splits option.splits)
    have ne: "?foot \<noteq> []" using length_snap_footer by (metis list.size(3) zero_neq_numeral)
    note wf = WriteFileAtomic_dirs[OF ft w ne]
    show ?thesis
    proof (cases "ok mw")
      case True
      let ?d3 = "d @ [(snap_base t, b), (tmp_of (meta_of (snap_base t)), ?foot)]"
      have "ds1 = [?d2, ?d3, d4]" using wf True by (simp add: d4_def)
      then have "ds = [d, ?d1, ?d2, ?d3] @ [d4, CleanOldSnapshots env keep d4]" "ok st" using sv' True by simp_all
      moreover have "\<forall>e\<in>set [d, ?d1, ?d2, ?d3]. unfinished t d e" using u by simp
      ultimately show ?thesis by blast
    next
      case bad: False
      then have e: "ds = [d, ?d1] @ ds1 @ [try_remove env (snap_base t) (last ds1)]" "\<not> ok st" using sv' by simp_all
      have all: "\<forall>e\<in>set ds1. e = ?d2 \<or> (\<exists>c. e = d @ [(snap_base t, b), (tmp_of (meta_of (snap_base t)), c)])" "ds1 \<noteq> []"
        using wf bad by blast+
      then have l: "last ds1 = ?d2 \<or> (\<exists>c. last ds1 = d @ [(snap_base t, b), (tmp_of (meta_of (snap_base t)), c)])" by simp
      have "unfinished t d (try_remove env (snap_base t) (last ds1))"
        using l
      proof
        assume "last ds1 = ?d2"
        then show ?thesis using try_remove_last[OF nm(2), of env b "[]"] u by (auto simp: dir_remove_def)
      next
        assume "\<exists>c. last ds1 = d @ [(snap_base t, b), (tmp_of (meta_of (snap_base t)), c)]"
        then obtain c where "last ds1 = d @ [(snap_base t, b), (tmp_of (meta_of (snap_base t)), c)]" ..
        then show ?thesis
          using try_remove_last[OF nm(2), of env b "[(tmp_of (meta_of (snap_base t)), c)]"] u by (auto simp: dir_remove_def)
      qed
      moreover have "\<forall>e\<in>set ds1. unfinished t d e"
      proof
        fix e assume "e \<in> set ds1"
        from all(1)[rule_format, OF this] show "unfinished t d e" by (elim disjE exE) (simp_all only: u)
      qed
      ultimately show ?thesis using e u by auto
    qed
  qed
qed

text \<open>The committed directory and its cleaned-up version load the new snapshot.\<close>

lemma Load_committed:
  fixes bs :: bytes and cnt :: u32 and lsn :: u64 and dim M :: int
  assumes f: "fresh t d" and l: "hl_load lib mx bs = Some ix'" and r: "se_readable env' = (\<lambda>_. True)" and k: "0 < keep"
  defines "d4 \<equiv> d @ [(snap_base t, bs), (meta_of (snap_base t), snap_footer lsn cnt dim M (Crc32 bs))]"
  shows "Load lib env' mx d4 = (Status_Ok, Some ix', lsn)" "Load lib env' mx (CleanOldSnapshots env keep d4) = (Status_Ok, Some ix', lsn)"
    "distinct (map fst (CleanOldSnapshots env keep d4))"
proof -
  have n: "distinct (map fst d)" "newest t d" "snap_base t \<notin> fst ` set d" "meta_of (snap_base t) \<notin> fst ` set d"
    using f by (auto simp: fresh_def)
  let ?foot = "snap_footer lsn cnt dim M (Crc32 bs)"
  have d4: "d4 = (d @ [(snap_base t, bs)]) @ [(meta_of (snap_base t), ?foot)]" by (simp add: d4_def)
  have L: "ListSnapshotsNewestFirst d4 = new_snap t # ListSnapshotsNewestFirst d"
    unfolding d4 by (simp only: List_append_other[OF not_snapshot(2)] List_append_newest[OF n(2)])
  have nw: "\<forall>sf\<in>set (ListSnapshotsNewestFirst d4). sf \<noteq> new_snap t \<longrightarrow> sf_timestamp sf < t"
    unfolding L using n(2) by (auto simp: newest_def)
  have m: "map_of d4 (snap_base t) = Some bs" "map_of d4 (meta_of (snap_base t)) = Some ?foot"
    using n(3,4) by (simp_all add: d4_def map_add_Some_iff map_of_eq_None_iff)
  show "Load lib env' mx d4 = (Status_Ok, Some ix', lsn)" by (rule Load_newest[OF m nw r l])
  have d: "distinct (map fst d4)" "snap_base t \<in> fst ` set d4" using n by (auto simp: d4_def)
  note c = CleanOldSnapshots_newest[OF d k nw, of env]
  have nw': "\<forall>sf\<in>set (ListSnapshotsNewestFirst (CleanOldSnapshots env keep d4)). sf \<noteq> new_snap t \<longrightarrow> sf_timestamp sf < t"
    using nw List_mono[OF c(3)] by (meson subsetD)
  show "Load lib env' mx (CleanOldSnapshots env keep d4) = (Status_Ok, Some ix', lsn)"
    by (rule Load_newest[OF c(1)[unfolded m] c(2)[unfolded m] nw' r l])
  show "distinct (map fst (CleanOldSnapshots env keep d4))" by (rule c(4))
qed

lemma Save_Load:
  assumes "fresh (se_now env) d" "0 < keep" "\<forall>k. se_save env \<noteq> SaveWrote k"
    and "hl_load lib mx (hl_save lib ix) = Some ix'" "se_readable env' = (\<lambda>_. True)"
    and "Save_trace lib env keep (Some ix) lsn dim M d = (st, ds)"
  shows "(\<forall>e\<in>set ds. Load lib env' mx e = Load lib env' mx d \<or> ok st \<and> Load lib env' mx e = (Status_Ok, Some ix', lsn)) \<and>
    Save lib env keep (Some ix) lsn dim M d = (st, last ds) \<and>
    Load lib env' mx (last ds) = (if ok st then (Status_Ok, Some ix', lsn) else Load lib env' mx d)"
proof -
  have S: "Save lib env keep (Some ix) lsn dim M d = (st, last ds)" using assms(6) by (simp add: Save_def)
  show ?thesis
  proof (cases "ok st")
    case False
    then have a: "ds \<noteq> []" "\<forall>e\<in>set ds. unfinished (se_now env) d e"
      using Save_trace_dirs[OF assms(1,6)] by blast+
    then have "\<forall>e\<in>set ds. Load lib env' mx e = Load lib env' mx d" using Load_unfinished[OF assms(1)] by blast
    with a(1) S False show ?thesis by simp
  next
    case True
    have b: "saved_bytes env (hl_save lib ix) = hl_save lib ix"
    proof (cases "se_save env")
      case (SaveThrow k e)
      then show ?thesis using assms(6) True by (auto simp: Save_trace_def Let_def)
    qed (use assms(3) in \<open>auto simp: saved_bytes_def\<close>)
    note lc = Load_committed[OF assms(1,4,5,2)]
    show ?thesis
      using Save_trace_dirs[OF assms(1,6)] Load_unfinished[OF assms(1), of _ lib env' mx] lc True S unfolding b by auto
  qed
qed

section \<open>Properties\<close>

text \<open>
  C34: saving a snapshot is atomic.  For a save under a fresh name, with a keep count above zero, whose index file is written
  completely or \<open>saveIndex\<close> throws, and which the library can load again: in whatever directory the save is interrupted, \<open>Load\<close>
  with readable files returns what it returned before the save, or the new snapshot with its LSN; when \<open>Save\<close> has returned
  \<open>Ok\<close> it is the new one, also after the old snapshots were pruned, and when it has returned an error, or at any point of a
  save that fails, it is the old one.  (An index file cut short without an exception is committed: short_snapshot_committed.)
\<close>
theorem save_atomic:
  assumes "fresh (se_now env) d" "0 < keep" "\<forall>k. se_save env \<noteq> SaveWrote k"
    and "hl_load lib mx (hl_save lib ix) = Some ix'" "se_readable env' = (\<lambda>_. True)"
    and "Save_trace lib env keep (Some ix) lsn dim M d = (st, ds)"
  shows "(\<forall>e\<in>set ds. Load lib env' mx e = Load lib env' mx d \<or> ok st \<and> Load lib env' mx e = (Status_Ok, Some ix', lsn)) \<and>
    Save lib env keep (Some ix) lsn dim M d = (st, last ds) \<and>
    Load lib env' mx (last ds) = (if ok st then (Status_Ok, Some ix', lsn) else Load lib env' mx d)"
  using Save_Load[OF assms] .

text \<open>A save in which every call succeeds, and a library whose files are three bytes, for the witnesses.\<close>

definition snap_good :: "u64 \<Rightarrow> snap_env" where
  "snap_good t = \<lparr>se_now = t, se_save = SaveAll, se_readable = (\<lambda>_. True), se_rename_index = None, se_meta_open = None,
     se_meta_write = PwOk, se_meta_sync = None, se_meta_rename = None, se_remove = (\<lambda>_. None)\<rparr>"

definition sample_index :: "unit Hnsw" where
  "sample_index = \<lparr>hx_elems = [], hx_lookup = Map.empty, hx_num_deleted = 0, hx_max_elements = 1, hx_graph = ()\<rparr>"

definition sample_lib :: "unit hnswlib" where
  "sample_lib = \<lparr>hl_empty = (), hl_wire = (\<lambda>_ _. ()), hl_save = (\<lambda>_. [1, 2, 3]),
     hl_load = (\<lambda>n bs. if bs = [1, 2, 3] then Some sample_index else None), hl_search = (\<lambda>_ _ _. Some [])\<rparr>"

lemma fresh_Nil [simp]: "fresh t []"
  by (simp add: fresh_def newest_def ListSnapshotsNewestFirst_def map_filter_def)

lemma Load_Nil [simp]: "Load lib env mx [] = (Status_Ok, None, 0)"
  by (simp add: Load_def ListSnapshotsNewestFirst_def map_filter_def)

lemma Save_trace_good:
  assumes "fresh t d" "\<forall>k e. sv \<noteq> SaveThrow k e"
  shows "fst (Save_trace lib ((snap_good t)\<lparr>se_save := sv\<rparr>) keep (Some ix) lsn dim M d) = Status_Ok"
proof -
  let ?env = "(snap_good t)\<lparr>se_save := sv\<rparr>"
  have n: "tmp_of (snap_base t) \<notin> fst ` set d" using assms by (simp add: fresh_def)
  have r: "ReadWholeFile ?env (dir_write (tmp_of (snap_base t)) b d) (tmp_of (snap_base t)) = Some b" for b
    using n by (simp add: ReadWholeFile_def snap_good_def dir_write_new map_add_Some_iff map_of_eq_None_iff)
  have pw: "pwrite_all fl PwOk f b off = (Status_Ok, if b = [] then f else pwrite_at f off b)" for fl f b off
    by (simp add: pwrite_all_def)
  have w: "\<exists>ds. WriteFileAtomic ?env p b what e = (Status_Ok, ds)" for p b what e
    by (simp add: WriteFileAtomic_def snap_good_def pw Let_def)
  have e: "se_now ?env = t" "se_rename_index ?env = None" "se_save ?env = sv" by (simp_all add: snap_good_def)
  obtain ds where ds: "WriteFileAtomic ?env (meta_of (snap_base t))
      (snap_footer lsn (of_nat (getCurrentElementCount ix)) dim M (Crc32 (saved_bytes ?env (hl_save lib ix))))
      ''SnapshotManager::Save meta''
      (dir_rename (tmp_of (snap_base t)) (snap_base t) (dir_write (tmp_of (snap_base t)) (saved_bytes ?env (hl_save lib ix)) d)) = (Status_Ok, ds)"
    using w by blast
  show ?thesis
    unfolding Save_trace_def option.case Let_def e r ds using assms(2) by (cases sv) simp_all
qed

lemma Save_good:
  assumes "fresh t d"
  shows "ok (fst (Save lib (snap_good t) keep (Some ix) lsn dim M d))"
  using Save_trace_good[OF assms, of SaveAll lib keep ix lsn dim M]
  by (cases "Save_trace lib (snap_good t) keep (Some ix) lsn dim M d") (simp add: Save_def snap_good_def)

theorem save_atomic_witness:
  "\<exists>st ds. Save_trace sample_lib (snap_good 7) 1 (Some sample_index) 5 1 1 [] = (st, ds) \<and> ok st \<and>
     Load sample_lib (snap_good 8) 1 (last ds) = (Status_Ok, Some sample_index, 5)"
proof -
  obtain st ds where t: "Save_trace sample_lib (snap_good 7) 1 (Some sample_index) 5 1 1 [] = (st, ds)" by fastforce
  have "ok st" using Save_good[of 7 "[]" sample_lib 1 sample_index 5 1 1] t by (simp add: Save_def)
  moreover have "Load sample_lib (snap_good 8) 1 (last ds) = (Status_Ok, Some sample_index, 5)"
    using save_atomic[of "snap_good 7" "[]" 1 sample_lib 1 sample_index sample_index "snap_good 8" 5 1 1 st ds] t \<open>ok st\<close>
    by (simp add: snap_good_def sample_lib_def)
  ultimately show ?thesis using t by blast
qed

lemma load_from_seen:
  "load_from lib env mx d False snaps = (st, Some ix, l) \<Longrightarrow> load_from lib env mx d True snaps = (st, Some ix, l)"
  by (induction snaps) (auto simp: Let_def split: option.splits if_splits)

text \<open>
  A damaged snapshot is passed over.  If one byte of the newest snapshot's index file has changed, \<open>Load\<close>
  returns the snapshot it would have returned without it.
\<close>
theorem damaged_snapshot_skipped:
  assumes "fresh t d" "Load lib env mx d = (Status_Ok, Some ix0, l0)" "se_readable env = (\<lambda>_. True)"
    and "i < length bs" "c \<noteq> bs ! i"
  shows "Load lib env mx (d @ [(snap_base t, bs[i := c]), (meta_of (snap_base t), snap_footer lsn cnt dim M (Crc32 bs))]) =
    (Status_Ok, Some ix0, l0)"
proof -
  let ?foot = "snap_footer lsn cnt dim M (Crc32 bs)"
  let ?d = "(d @ [(snap_base t, bs[i := c])]) @ [(meta_of (snap_base t), ?foot)]"
  have n: "newest t d" "snap_base t \<notin> fst ` set d" "meta_of (snap_base t) \<notin> fst ` set d"
    using assms(1) by (auto simp: fresh_def)
  have L: "ListSnapshotsNewestFirst ?d = new_snap t # ListSnapshotsNewestFirst d"
    by (simp only: List_append_other[OF not_snapshot(2)] List_append_newest[OF n(1)])
  have crc: "Crc32 (bs[i := c]) \<noteq> Crc32 bs" by (rule Crc32_one_byte[OF assms(4,5)])
  have m: "map_of ?d (snap_base t) = Some (bs[i := c])" "map_of ?d (meta_of (snap_base t)) = Some ?foot"
    using n by (simp_all add: map_add_Some_iff map_of_eq_None_iff)
  have "Load lib env mx ?d = load_from lib env mx ?d True (ListSnapshotsNewestFirst d)"
    unfolding Load_def L using m assms(3) crc by (simp add: ReadWholeFile_def snap_footer_fields)
  also have "\<dots> = load_from lib env mx d True (ListSnapshotsNewestFirst d)"
  proof (rule load_from_cong)
    fix sf assume "sf \<in> set (ListSnapshotsNewestFirst d)"
    then obtain k where k: "k \<in> fst ` set d" "snapshot_of_name k = Some sf" unfolding set_List by blast
    then have "snap_base t \<noteq> k" "snap_base t \<noteq> meta_of k" "meta_of (snap_base t) \<noteq> k" "meta_of (snap_base t) \<noteq> meta_of k"
      using n by auto
    then show "map_of ?d (sf_meta_path sf) = map_of d (sf_meta_path sf) \<and> map_of ?d (sf_index_path sf) = map_of d (sf_index_path sf)"
      unfolding snapshot_of_name_paths[OF k(2), THEN conjunct1] snapshot_of_name_paths[OF k(2), THEN conjunct2]
      by (simp add: map_of_append_other del: map_of_append append_assoc)
  qed
  also have "\<dots> = (Status_Ok, Some ix0, l0)" using assms(2) unfolding Load_def by (rule load_from_seen)
  finally show ?thesis by simp
qed

lemma snap_base_inject [simp]: "snap_base t = snap_base u \<longleftrightarrow> t = u"
  by (metis SnapshotFile.ext_inject option.inject snapshot_of_base)

theorem damaged_snapshot_skipped_witness:
  "Load sample_lib (snap_good 8) 1 [(snap_base 7, [1, 2, 3]), (meta_of (snap_base 7), snap_footer 5 0 1 1 (Crc32 [1, 2, 3])),
     (snap_base 9, [1, 2, 4]), (meta_of (snap_base 9), snap_footer 6 0 1 1 (Crc32 [1, 2, 3]))] = (Status_Ok, Some sample_index, 5)"
proof -
  let ?f = "snap_footer 5 0 1 1 (Crc32 [1, 2, 3])"
  define d where "d = [(snap_base 7, [1, 2, 3]), (meta_of (snap_base 7), ?f)]"
  have "Load sample_lib (snap_good 8) 1 ([] @ [(snap_base 7, [1, 2, 3]), (meta_of (snap_base 7), ?f)]) = (Status_Ok, Some sample_index, 5)"
    by (rule Load_committed(1)[where keep = 1]) (simp_all add: sample_lib_def snap_good_def)
  then have l: "Load sample_lib (snap_good 8) 1 d = (Status_Ok, Some sample_index, 5)" by (simp add: d_def)
  have "ListSnapshotsNewestFirst d = [new_snap 7]"
    using List_append_other[OF not_snapshot(2), of "[(snap_base 7, [1, 2, 3])]" "snap_base 7" ?f] List_append_newest[of 7 "[]" "[1, 2, 3]"]
    by (simp add: d_def newest_def ListSnapshotsNewestFirst_def map_filter_def)
  then have f: "fresh 9 d" by (simp add: fresh_def newest_def d_def)
  show ?thesis
    using damaged_snapshot_skipped[OF f l _, where bs = "[1, 2, 3]" and i = 2 and c = 4 and lsn = 6 and cnt = 0 and dim = 1 and M = 1]
    by (simp add: d_def snap_good_def)
qed

text \<open>
  A snapshot that was cut short is committed.  When \<open>saveIndex\<close> writes only a part of the index (it does
  not check its stream), \<open>Save\<close> computes the checksum from the file it reads back and returns \<open>Ok\<close>; the next
  \<open>Load\<close> of a directory that holds no other snapshot fails.
\<close>
theorem short_snapshot_committed:
  assumes "hl_load lib mx (take k (hl_save lib ix)) = None" "0 < keep"
  shows "\<exists>d'. Save lib ((snap_good t)\<lparr>se_save := SaveWrote k\<rparr>) keep (Some ix) lsn dim M [] = (Status_Ok, d') \<and>
    Load lib (snap_good t') mx d' =
      (PhnswStatus kInternal phnsw_kSnapshotCorrupted ''SnapshotManager::Load: all snapshots corrupt'', None, 0)"
proof -
  let ?env = "(snap_good t)\<lparr>se_save := SaveWrote k\<rparr>" and ?b = "take k (hl_save lib ix)"
  let ?foot = "snap_footer lsn (of_nat (getCurrentElementCount ix)) dim M (Crc32 ?b)"
  define d4 where "d4 = [(snap_base t, ?b), (meta_of (snap_base t), ?foot)]"
  have f: "fresh (se_now ?env) []" by simp
  obtain st ds where tr: "Save_trace lib ?env keep (Some ix) lsn dim M [] = (st, ds)" by fastforce
  have st: "st = Status_Ok"
    using tr Save_trace_good[of t "[]" "SaveWrote k" lib keep ix lsn dim M] by simp
  have b: "saved_bytes ?env (hl_save lib ix) = ?b" "se_now ?env = t" by (simp_all add: saved_bytes_def snap_good_def)
  have ds: "last ds = CleanOldSnapshots ?env keep d4"
    using Save_trace_dirs[OF f tr] unfolding b st d4_def by auto
  have L4: "ListSnapshotsNewestFirst d4 = [new_snap t]"
    using List_append_other[OF not_snapshot(2), of "[(snap_base t, ?b)]" "snap_base t" ?foot] List_append_newest[of t "[]" ?b]
    by (simp add: d4_def newest_def ListSnapshotsNewestFirst_def map_filter_def)
  have "\<not> is_stale_tmp (snap_base t)" "\<not> is_stale_tmp (meta_of (snap_base t))"
  proof -
    have "last n = CHR ''p''" if "is_stale_tmp n" for n
    proof -
      have "drop (length n - 4) n = ''.tmp''" "n \<noteq> []" using that by (auto simp: is_stale_tmp_def)
      moreover from this have "last n = last (drop (length n - 4) n)" by (intro last_drop[symmetric]) simp
      ultimately show ?thesis by simp
    qed
    then show "\<not> is_stale_tmp (snap_base t)" "\<not> is_stale_tmp (meta_of (snap_base t))"
      using snapshot_of_name_last[OF snapshot_of_base, of t] last_ext(2)[of "snap_base t"] by force+
  qed
  then have "fold (\<lambda>n d. if is_stale_tmp n then try_remove ?env n d else d) (map fst d4) d4 = d4" by (simp add: d4_def)
  then have "CleanOldSnapshots ?env keep d4 = d4" using L4 assms(2) by (simp add: CleanOldSnapshots_def)
  moreover have "Load lib (snap_good t') mx d4 =
      (PhnswStatus kInternal phnsw_kSnapshotCorrupted ''SnapshotManager::Load: all snapshots corrupt'', None, 0)"
    unfolding Load_def L4 using assms(1) by (simp add: d4_def ReadWholeFile_def snap_good_def snap_footer_fields)
  ultimately show ?thesis using ds tr st by (simp add: Save_def)
qed

theorem short_snapshot_committed_witness:
  "\<exists>d'. Save sample_lib ((snap_good 7)\<lparr>se_save := SaveWrote 2\<rparr>) 1 (Some sample_index) 5 1 1 [] = (Status_Ok, d') \<and>
     \<not> ok (fst (Load sample_lib (snap_good 8) 1 d'))"
  using short_snapshot_committed[of sample_lib 1 2 sample_index 1 7 5 1 1 8] by (auto simp: sample_lib_def)

end
