(* ===== verification/Phnsw.thy ===== *)
theory Phnsw
  imports Wal_Writer Snapshots
begin

text \<open>
  The persistent vector index (\<^verbatim>\<open>include/cortrix/store/phnsw.h\<close>, \<^verbatim>\<open>src/store/phnsw/phnsw.cpp\<close>): every
  mutation is framed, submitted to the group committer, made durable in the write-ahead log and only then
  applied to the graph; snapshots capture the graph and truncate the log; construction loads the newest
  snapshot and replays the records behind it.  Each method that takes the write lock is one step.
\<close>

section \<open>State\<close>

record PhnswConfig =
  cf_dim :: int
  cf_M :: int
  cf_max_elements :: int
  cf_snapshot_max_wal_size_mb :: int
  cf_snapshot_max_wal_entries :: int
  cf_snapshot_keep_count :: int

definition PhnswConfig_default :: PhnswConfig where
  "PhnswConfig_default = \<lparr>cf_dim = 1024, cf_M = 16, cf_max_elements = 1000000, cf_snapshot_max_wal_size_mb = 64,
     cf_snapshot_max_wal_entries = 10000, cf_snapshot_keep_count = 2\<rparr>"

text \<open>\<open>ph_dir\<close> holds the snapshot files of the unit's data directory; \<open>ph_pending\<close> is the batch the sink has stashed.\<close>

record 'g PHnsw =
  ph_config :: PhnswConfig
  ph_dir :: dir
  ph_wal :: "WalWriter option"
  ph_index :: "'g Hnsw option"
  ph_deleted_count :: nat
  ph_applied_lsn :: u64
  ph_committer :: bool
  ph_shutdown :: bool
  ph_ready :: bool
  ph_snapshot_requested :: bool
  ph_snapshot_stop :: bool
  ph_pending :: "bytes list option"

record IndexStats =
  is_vector_count :: nat
  is_deleted_count :: nat
  is_memory_footprint_bytes :: nat
  is_dim :: int

definition not_ready :: "string \<Rightarrow> Status" where
  "not_ready d = PhnswStatus kUnavailable phnsw_kNotReady d"

lemma not_ok_not_ready [simp, status]: "\<not> ok (not_ready d)"
  by (simp add: not_ready_def)

section \<open>Applying records to the graph\<close>

definition IsLabelMarkedDeletedLocked :: "'g Hnsw \<Rightarrow> u64 \<Rightarrow> bool" where
  "IsLabelMarkedDeletedLocked ix label =
     (case hx_lookup ix label of None \<Rightarrow> False | Some i \<Rightarrow> isMarkedDeleted ix i)"

text \<open>The graph and the deletion count after the call, and the exception it ends with, if any.\<close>

definition ApplyInsertLocked ::
  "'g hnswlib \<Rightarrow> WalEntry \<Rightarrow> 'g Hnsw \<times> nat \<Rightarrow> ('g Hnsw \<times> nat) \<times> string option" where
  "ApplyInsertLocked lib e = (\<lambda>(ix, deleted_count).
     let label = we_block_id e;
         add = (\<lambda>(ix, dc). case addPoint lib (we_vector e) label ix of
                  Inl x \<Rightarrow> ((ix, dc), Some x) | Inr ix' \<Rightarrow> ((ix', dc), None))
     in if IsLabelMarkedDeletedLocked ix label then
          (case unmarkDelete label ix of
             Inl x \<Rightarrow> ((ix, deleted_count), Some x)
           | Inr ix' \<Rightarrow> add (ix', if deleted_count > 0 then deleted_count - 1 else deleted_count))
        else add (ix, deleted_count))"

text \<open>Exceptions are swallowed; the applied LSN advances in every case.\<close>

definition ApplyEntryLocked ::
  "'g hnswlib \<Rightarrow> WalEntry \<Rightarrow> 'g Hnsw \<times> nat \<times> u64 \<Rightarrow> 'g Hnsw \<times> nat \<times> u64" where
  "ApplyEntryLocked lib e = (\<lambda>(ix, deleted_count, applied_lsn).
     let (ix, deleted_count) =
       (if we_type e = kInsert then fst (ApplyInsertLocked lib e (ix, deleted_count))
        else (case markDelete (we_block_id e) ix of
                Inl x \<Rightarrow> (ix, deleted_count)
              | Inr ix' \<Rightarrow> (ix', deleted_count + 1)))
     in (ix, deleted_count, applied_lsn + 1))"

section \<open>The durable-then-apply sink\<close>

definition MaybeRequestSnapshotLocked :: "io_env \<Rightarrow> 'g PHnsw \<Rightarrow> 'g PHnsw" where
  "MaybeRequestSnapshotLocked env s = (case ph_wal s of
     None \<Rightarrow> s
   | Some wal \<Rightarrow> (case wal_GetStats env wal of
       Inl st \<Rightarrow> s
     | Inr stats \<Rightarrow>
         let cfg = ph_config s;
             over_entries = (cf_snapshot_max_wal_entries cfg > 0 \<and>
                             wws_entry_count stats \<ge> word_of_int (cf_snapshot_max_wal_entries cfg));
             over_bytes = (cf_snapshot_max_wal_size_mb cfg > 0 \<and>
                           wws_file_size_bytes stats \<ge> nat (cf_snapshot_max_wal_size_mb cfg) * 1024 * 1024)
         in if \<not> over_entries \<and> \<not> over_bytes then s else s\<lparr>ph_snapshot_requested := True\<rparr>))"

text \<open>Decode and apply the frames in log order, stopping at the first that does not decode.\<close>

fun apply_frames ::
  "'g hnswlib \<Rightarrow> int \<Rightarrow> bytes list \<Rightarrow> 'g Hnsw \<times> nat \<times> u64 \<Rightarrow> (Status \<times> 'g Hnsw \<times> nat \<times> u64) option" where
  "apply_frames lib dim [] g = Some (Status_Ok, g)"
| "apply_frames lib dim (f # fs) g = do {
     r \<leftarrow> WalDeserialize dim f;
     case r of Inl st \<Rightarrow> Some (st, g) | Inr e \<Rightarrow> apply_frames lib dim fs (ApplyEntryLocked lib e g) }"

definition ApplySink_WriteBatch :: "bytes list \<Rightarrow> 'g PHnsw \<Rightarrow> Status \<times> 'g PHnsw" where
  "ApplySink_WriteBatch entries s = (Status_Ok, s\<lparr>ph_pending := Some entries\<rparr>)"

text \<open>
  The sink exists only when the log and the graph do (it is created at the end of a successful
  construction); the other cases and an undefined read are \<open>None\<close>.
\<close>

definition ApplySink_Sync :: "'g hnswlib \<Rightarrow> io_env \<Rightarrow> 'g PHnsw \<Rightarrow> (Status \<times> 'g PHnsw) option" where
  "ApplySink_Sync lib env s =
     (let batch = ph_pending s; s = s\<lparr>ph_pending := None\<rparr> in
      case batch of
        None \<Rightarrow> Some (Status_Ok, s)
      | Some [] \<Rightarrow> Some (Status_Ok, s)
      | Some frames \<Rightarrow>
          (case (ph_wal s, ph_index s) of
             (Some wal, Some ix) \<Rightarrow>
               let (w, wal) = wal_WriteBatch env frames wal; s = s\<lparr>ph_wal := Some wal\<rparr> in
               if \<not> ok w then Some (w, s)
               else let (y, wal) = wal_Sync env wal; s = s\<lparr>ph_wal := Some wal\<rparr> in
               if \<not> ok y then Some (y, s)
               else do {
                 (st, ix, dc, lsn) \<leftarrow> apply_frames lib (cf_dim (ph_config s)) frames
                                        (ix, ph_deleted_count s, ph_applied_lsn s);
                 let s = s\<lparr>ph_index := Some ix, ph_deleted_count := dc, ph_applied_lsn := lsn\<rparr>;
                 Some (if \<not> ok st then (st, s) else (Status_Ok, MaybeRequestSnapshotLocked env s)) }
           | _ \<Rightarrow> None))"

text \<open>The sink as the group committer drives it: a crash of the process is an exception.\<close>

definition ph_write_batch :: "io_env \<Rightarrow> bytes list \<Rightarrow> 'g PHnsw \<Rightarrow> sink_ret \<times> 'g PHnsw" where
  "ph_write_batch env es s = (let (st, s') = ApplySink_WriteBatch es s in (Ret st, s'))"

definition ph_sync :: "'g hnswlib \<Rightarrow> io_env \<Rightarrow> 'g PHnsw \<Rightarrow> sink_ret \<times> 'g PHnsw" where
  "ph_sync lib env s = (case ApplySink_Sync lib env s of
     None \<Rightarrow> (Throw, s) | Some (st, s') \<Rightarrow> (Ret st, s'))"

section \<open>Writes\<close>

definition committer_down :: Status where
  "committer_down = StatusOf kUnavailable ''GroupCommitWriter is shut down''"

text \<open>A blocking single write: the batch that holds its frame is flushed.\<close>

definition submit_one :: "'g hnswlib \<Rightarrow> io_env \<Rightarrow> bytes \<Rightarrow> 'g PHnsw \<Rightarrow> Status \<times> 'g PHnsw" where
  "submit_one lib env f s =
     (if ph_shutdown s then (committer_down, s) else sink_flush ph_write_batch (ph_sync lib) env [f] s)"

definition AddPoint ::
  "'g hnswlib \<Rightarrow> io_env \<Rightarrow> u64 \<Rightarrow> f32 list option \<Rightarrow> u64 \<Rightarrow> 'g PHnsw \<Rightarrow> Status \<times> 'g PHnsw" where
  "AddPoint lib env now vec block_id s = (case vec of
     None \<Rightarrow> (StatusOf kInvalidArgument ''PHnsw::AddPoint: null vector'', s)
   | Some v \<Rightarrow>
       if \<not> ph_ready s \<or> \<not> ph_committer s then (not_ready ''PHnsw::AddPoint: index not ready'', s)
       else submit_one lib env (SerializeInsert block_id v (-1) now) s)"

text \<open>
  \<open>AddPoints\<close> submits the frames in front of the first null vector; the committer flushes what was
  submitted in the batches it happens to form (environment and size of each).  The first error is returned;
  after a null vector the futures are abandoned, but the submitted frames are still written.
\<close>

fun drain_sink ::
  "'g hnswlib \<Rightarrow> (io_env \<times> nat) list \<Rightarrow> bytes list \<Rightarrow> Status \<Rightarrow> 'g PHnsw \<Rightarrow> (Status \<times> 'g PHnsw) option" where
  "drain_sink lib batches [] err s = Some (err, s)"
| "drain_sink lib [] (b # bs) err s = None"
| "drain_sink lib ((env, n) # batches) (b # bs) err s =
     (if n = 0 then drain_sink lib batches (b # bs) err s
      else let (st, s') = sink_flush ph_write_batch (ph_sync lib) env (take n (b # bs)) s in
        drain_sink lib batches (drop n (b # bs)) (if \<not> ok st \<and> ok err then st else err) s')"

definition AddPoints ::
  "'g hnswlib \<Rightarrow> (io_env \<times> nat) list \<Rightarrow> u64 \<Rightarrow> (f32 list option \<times> u64) list \<Rightarrow> 'g PHnsw \<Rightarrow> (Status \<times> 'g PHnsw) option" where
  "AddPoints lib batches now points s =
     (if \<not> ph_ready s \<or> \<not> ph_committer s then Some (not_ready ''PHnsw::AddPoints: index not ready'', s)
      else if points = [] then Some (Status_Ok, s)
      else
        let submitted = takeWhile (\<lambda>(v, b). v \<noteq> None) points;
            frames = map (\<lambda>(v, b). SerializeInsert b (the v) (-1) now) submitted;
            null_err = (if length submitted < length points
                        then Some (StatusOf kInvalidArgument ''PHnsw::AddPoints: null vector in batch'') else None)
        in if ph_shutdown s then
             Some (case null_err of Some e \<Rightarrow> e | None \<Rightarrow> committer_down, s)
           else do {
             (st, s') \<leftarrow> drain_sink lib batches frames Status_Ok s;
             Some (case null_err of Some e \<Rightarrow> e | None \<Rightarrow> st, s') })"

definition MarkDelete :: "'g hnswlib \<Rightarrow> io_env \<Rightarrow> u64 \<Rightarrow> u64 \<Rightarrow> 'g PHnsw \<Rightarrow> Status \<times> 'g PHnsw" where
  "MarkDelete lib env now block_id s =
     (if \<not> ph_ready s \<or> \<not> ph_committer s then (not_ready ''PHnsw::MarkDelete: index not ready'', s)
      else submit_one lib env (SerializeDelete block_id (-1) now) s)"

section \<open>Reads\<close>

definition SearchLocked :: "'g hnswlib \<Rightarrow> f32 list \<Rightarrow> int \<Rightarrow> 'g PHnsw \<Rightarrow> (u64 \<times> f32) list" where
  "SearchLocked lib query top_k s = (case ph_index s of
     None \<Rightarrow> []
   | Some ix \<Rightarrow>
       let total = getCurrentElementCount ix in
       if total = 0 then []
       else
         let live = (if total > ph_deleted_count s then total - ph_deleted_count s else 0);
             actual_k = min (nat top_k) live
         in if actual_k = 0 then []
            else (case hl_search lib ix query actual_k of
                    None \<Rightarrow> []
                  | Some pops \<Rightarrow> rev (map (\<lambda>(dist, label). (label, dist)) pops)))"

text \<open>The search width only selects the lock and tunes the graph search.\<close>

definition Search :: "'g hnswlib \<Rightarrow> f32 list option \<Rightarrow> int \<Rightarrow> 'g PHnsw \<Rightarrow> (u64 \<times> f32) list" where
  "Search lib query top_k s = (case query of
     None \<Rightarrow> [] | Some q \<Rightarrow> if top_k \<le> 0 then [] else SearchLocked lib q top_k s)"

definition Exists :: "u64 \<Rightarrow> 'g PHnsw \<Rightarrow> bool" where
  "Exists block_id s = (case ph_index s of
     None \<Rightarrow> False
   | Some ix \<Rightarrow> (case hx_lookup ix block_id of None \<Rightarrow> False | Some i \<Rightarrow> \<not> isMarkedDeleted ix i))"

text \<open>\<open>object_size\<close> is \<open>sizeof(HierarchicalNSW<float>)\<close>.\<close>

definition GetMemoryFootprintBytes :: "nat \<Rightarrow> 'g PHnsw \<Rightarrow> nat" where
  "GetMemoryFootprintBytes object_size s = (case ph_index s of
     None \<Rightarrow> 0
   | Some ix \<Rightarrow>
       let vector_count = getCurrentElementCount ix;
           vec_bytes = vector_count * nat (cf_dim (ph_config s)) * 4;
           graph_bytes = vector_count * nat (cf_M (ph_config s)) * 4;
           metadata_bytes = object_size + vector_count * 8
       in vec_bytes + graph_bytes + metadata_bytes)"

definition GetStats :: "nat \<Rightarrow> 'g PHnsw \<Rightarrow> IndexStats" where
  "GetStats object_size s =
     (let base = \<lparr>is_vector_count = 0, is_deleted_count = 0,
                 is_memory_footprint_bytes = GetMemoryFootprintBytes object_size s, is_dim = cf_dim (ph_config s)\<rparr> in
      case ph_index s of
        None \<Rightarrow> base
      | Some ix \<Rightarrow>
          let total = getCurrentElementCount ix; dc = ph_deleted_count s
          in base\<lparr>is_vector_count := (if total > dc then total - dc else 0), is_deleted_count := dc\<rparr>)"

definition GetWalStats :: "io_env \<Rightarrow> 'g PHnsw \<Rightarrow> WalWriterStats" where
  "GetWalStats env s =
     (let zero = \<lparr>wws_entry_count = 0, wws_committed_lsn = 0, wws_file_size_bytes = 0\<rparr> in
      case ph_wal s of None \<Rightarrow> zero
      | Some wal \<Rightarrow> (case wal_GetStats env wal of Inl st \<Rightarrow> zero | Inr stats \<Rightarrow> stats))"

section \<open>Snapshot, recovery, lifecycle\<close>

definition Snapshot :: "'g hnswlib \<Rightarrow> snap_env \<Rightarrow> io_env \<Rightarrow> 'g PHnsw \<Rightarrow> Status \<times> 'g PHnsw" where
  "Snapshot lib senv env s = (case ph_index s of
     None \<Rightarrow> (PhnswStatus kUnavailable phnsw_kSnapshotFailed ''PHnsw::Snapshot: index not initialized'', s)
   | Some ix \<Rightarrow>
       let cfg = ph_config s;
           (st, d) = Save lib senv (keep_count_of (cf_snapshot_keep_count cfg)) (Some ix) (ph_applied_lsn s)
                       (cf_dim cfg) (cf_M cfg) (ph_dir s);
           s = s\<lparr>ph_dir := d\<rparr>
       in if \<not> ok st then (st, s)
          else case ph_wal s of
            None \<Rightarrow> (Status_Ok, s)
          | Some wal \<Rightarrow> (let (t, wal') = wal_Truncate env wal in
              (if \<not> ok t then t else Status_Ok, s\<lparr>ph_wal := Some wal'\<rparr>)))"

text \<open>Replaying the records whose LSN is beyond the snapshot; \<open>i\<close> is the position of the first one.\<close>

fun replay ::
  "'g hnswlib \<Rightarrow> u64 \<Rightarrow> u64 \<Rightarrow> nat \<Rightarrow> WalEntry list \<Rightarrow> 'g Hnsw \<times> nat \<times> u64 \<Rightarrow> 'g Hnsw \<times> nat \<times> u64" where
  "replay lib base snapshot_lsn i [] g = g"
| "replay lib base snapshot_lsn i (e # es) g =
     (let lsn = base + of_nat i + 1 in
      replay lib base snapshot_lsn (Suc i) es (if lsn \<le> snapshot_lsn then g else ApplyEntryLocked lib e g))"

definition RecoverInternal :: "'g hnswlib \<Rightarrow> snap_env \<Rightarrow> io_env \<Rightarrow> 'g PHnsw \<Rightarrow> (Status \<times> 'g PHnsw) option" where
  "RecoverInternal lib senv env s = (case ph_wal s of
     None \<Rightarrow> Some (not_ready (''Recover: WAL not open (index not ready); '' @ ''WalWriter::Open failed during construction''), s)
   | Some wal \<Rightarrow>
       let max_elements = nat (cf_max_elements (ph_config s));
           (ls, loaded, snapshot_lsn) = Load lib senv max_elements (ph_dir s)
       in if \<not> ok ls then Some (ls, s)
          else
            let ix = (case loaded of Some ix \<Rightarrow> ix | None \<Rightarrow> new_index lib max_elements);
                s = s\<lparr>ph_index := Some ix, ph_deleted_count := getDeletedCount ix, ph_applied_lsn := snapshot_lsn\<rparr>
            in do {
              (recs, wal) \<leftarrow> wal_ReadAll env (cf_dim (ph_config s)) wal;
              let s = s\<lparr>ph_wal := Some wal\<rparr>;
              Some (case recs of
                Inl st \<Rightarrow> (st, s)
              | Inr entries \<Rightarrow>
                  let base = committed_lsn wal - entry_count wal;
                      (ix, dc, lsn) = replay lib base snapshot_lsn 0 entries (ix, getDeletedCount ix, snapshot_lsn)
                  in (Status_Ok, s\<lparr>ph_index := Some ix, ph_deleted_count := dc, ph_applied_lsn := lsn\<rparr>)) })"

definition ph_Recover :: "'g hnswlib \<Rightarrow> snap_env \<Rightarrow> io_env \<Rightarrow> 'g PHnsw \<Rightarrow> (Status \<times> 'g PHnsw) option" where
  "ph_Recover lib senv env s = RecoverInternal lib senv env s"

text \<open>Construction over the files of the data directory: the object, and the bytes of the log file.\<close>

definition PHnsw_new ::
  "'g hnswlib \<Rightarrow> snap_env \<Rightarrow> io_env \<Rightarrow> io_env \<Rightarrow> PhnswConfig \<Rightarrow> dir \<Rightarrow> bytes \<Rightarrow> ('g PHnsw \<times> bytes) option" where
  "PHnsw_new lib senv oenv env cfg d f =
     (let s = \<lparr>ph_config = cfg, ph_dir = d, ph_wal = None, ph_index = None, ph_deleted_count = 0, ph_applied_lsn = 0,
              ph_committer = False, ph_shutdown = False, ph_ready = False, ph_snapshot_requested = False,
              ph_snapshot_stop = False, ph_pending = None\<rparr> in
      case WalWriter_Open oenv f (cf_dim cfg) of
        (Inl st, f') \<Rightarrow> Some (s, f')
      | (Inr wal, f') \<Rightarrow> do {
          (rec, s) \<leftarrow> RecoverInternal lib senv env (s\<lparr>ph_wal := Some wal\<rparr>);
          Some (if \<not> ok rec then s else s\<lparr>ph_committer := True, ph_ready := True\<rparr>,
                case ph_wal s of Some w \<Rightarrow> ww_file w | None \<Rightarrow> f') })"

definition Shutdown :: "'g PHnsw \<Rightarrow> Status \<times> 'g PHnsw" where
  "Shutdown s = (Status_Ok, if ph_committer s then s\<lparr>ph_shutdown := True\<rparr> else s)"

definition PHnsw_destroy :: "'g PHnsw \<Rightarrow> 'g PHnsw" where
  "PHnsw_destroy s = (snd (Shutdown s))\<lparr>ph_snapshot_stop := True\<rparr>"

text \<open>
  One round of the background thread: it waits (\<open>None\<close>) until a snapshot was requested or the thread is
  to stop; a stop ends it (\<open>Some None\<close>).
\<close>

definition SnapshotLoop_round ::
  "'g hnswlib \<Rightarrow> snap_env \<Rightarrow> io_env \<Rightarrow> 'g PHnsw \<Rightarrow> ('g PHnsw option) option" where
  "SnapshotLoop_round lib senv env s =
     (if \<not> ph_snapshot_requested s \<and> \<not> ph_snapshot_stop s then None
      else if ph_snapshot_stop s then Some None
      else Some (Some (snd (Snapshot lib senv env (s\<lparr>ph_snapshot_requested := False\<rparr>)))))"

section \<open>The abstract index\<close>

text \<open>What a record means: the vector of a block is set or removed.  A log means the map it builds.\<close>

definition apply_op :: "WalEntry \<Rightarrow> (u64 \<rightharpoonup> f32 list) \<Rightarrow> (u64 \<rightharpoonup> f32 list)" where
  "apply_op e m = m(we_block_id e := (if we_type e = kInsert then Some (we_vector e) else None))"

definition apply_ops :: "WalEntry list \<Rightarrow> (u64 \<rightharpoonup> f32 list) \<Rightarrow> (u64 \<rightharpoonup> f32 list)" where
  "apply_ops es m = fold apply_op es m"

lemma apply_ops_append: "apply_ops (xs @ ys) m = apply_ops ys (apply_ops xs m)"
  by (simp add: apply_ops_def)

lemma apply_ops_simps [simp]: "apply_ops [] m = m" "apply_ops (e # es) m = apply_ops es (apply_op e m)"
  by (simp_all add: apply_ops_def)

text \<open>The last record for a block decides; applying a suffix of a log again changes nothing.\<close>

lemma apply_ops_point:
  "apply_ops es m b = (case filter (\<lambda>e. we_block_id e = b) (rev es) of
     [] \<Rightarrow> m b | e # r \<Rightarrow> if we_type e = kInsert then Some (we_vector e) else None)"
proof (induction es arbitrary: m)
  case (Cons e es)
  then show ?case by (cases "filter (\<lambda>e. we_block_id e = b) (rev es)") (auto simp: apply_op_def)
qed simp

lemma apply_ops_suffix_again: "apply_ops ys (apply_ops (xs @ ys) m) = apply_ops (xs @ ys) m"
proof
  fix b
  show "apply_ops ys (apply_ops (xs @ ys) m) b = apply_ops (xs @ ys) m b"
    by (cases "filter (\<lambda>e. we_block_id e = b) (rev ys)") (simp_all add: apply_ops_point)
qed

section \<open>Applying records refines the abstract index\<close>

text \<open>The deletion count of the index object is that of the graph.\<close>

definition graph_ok :: "u64 set \<Rightarrow> 'g Hnsw \<times> nat \<times> u64 \<Rightarrow> bool" where
  "graph_ok L = (\<lambda>(ix, dc, lsn). within L ix \<and> dc = hx_num_deleted ix)"

lemma ApplyInsert_refines:
  assumes w: "within L ix" and l: "we_block_id e \<in> L"
  shows "\<exists>ix'. ApplyInsertLocked lib e (ix, hx_num_deleted ix) = ((ix', hx_num_deleted ix'), None) \<and> within L ix' \<and>
    vectors ix' = (vectors ix)(we_block_id e \<mapsto> we_vector e) \<and> hx_max_elements ix' = hx_max_elements ix"
proof -
  let ?l = "we_block_id e"
  have ok: "hx_ok ix" using w by (simp add: within_def)
  have add: "\<exists>ix'. addPoint lib (we_vector e) ?l iy = Inr ix' \<and> hx_num_deleted ix' = hx_num_deleted iy \<and> within L ix' \<and>
      vectors ix' = (vectors iy)(?l \<mapsto> we_vector e) \<and> hx_max_elements ix' = hx_max_elements iy"
    if wy: "within L iy" and nd: "\<And>i. hx_lookup iy ?l = Some i \<Longrightarrow> \<not> isMarkedDeleted iy i" for iy
  proof -
    obtain ix' where a: "addPoint lib (we_vector e) ?l iy = Inr ix'" using addPoint_succeeds[OF wy l nd] by blast
    have oky: "hx_ok iy" using wy by (simp add: within_def)
    show ?thesis
      using a addPoint_ok[OF oky a] addPoint_frame[OF a] wy l by (auto simp: within_def)
  qed
  show ?thesis
  proof (cases "IsLabelMarkedDeletedLocked ix ?l")
    case False
    then have "\<And>i. hx_lookup ix ?l = Some i \<Longrightarrow> \<not> isMarkedDeleted ix i" by (simp add: IsLabelMarkedDeletedLocked_def)
    from add[OF w this] False show ?thesis by (auto simp: ApplyInsertLocked_def)
  next
    case True
    then obtain i where i: "hx_lookup ix ?l = Some i" "isMarkedDeleted ix i"
      by (auto simp: IsLabelMarkedDeletedLocked_def split: option.splits)
    from unmarkDelete_ok[OF ok i] obtain iy where iy: "unmarkDelete ?l ix = Inr iy" "hx_ok iy" "hx_lookup iy = hx_lookup ix"
      "\<not> isMarkedDeleted iy i" "hx_num_deleted iy + 1 = hx_num_deleted ix" "hx_max_elements iy = hx_max_elements ix"
      "\<forall>k. k \<noteq> ?l \<longrightarrow> vectors iy k = vectors ix k" by auto
    have wy: "within L iy" using w iy by (simp add: within_def)
    have v: "(vectors iy)(?l \<mapsto> we_vector e) = (vectors ix)(?l \<mapsto> we_vector e)" using iy(7) by auto
    have nd: "\<And>j. hx_lookup iy ?l = Some j \<Longrightarrow> \<not> isMarkedDeleted iy j" using iy(3,4) i(1) by simp
    have dc: "(if hx_num_deleted ix > 0 then hx_num_deleted ix - 1 else hx_num_deleted ix) = hx_num_deleted iy"
      using iy(5) by simp
    from add[OF wy nd] True iy(1,6) dc v show ?thesis by (auto simp: ApplyInsertLocked_def)
  qed
qed

lemma ApplyEntry_refines:
  assumes g: "graph_ok L (ix, dc, lsn)" and l: "we_block_id e \<in> L"
  shows "\<exists>ix' dc'. ApplyEntryLocked lib e (ix, dc, lsn) = (ix', dc', lsn + 1) \<and> graph_ok L (ix', dc', lsn + 1) \<and>
    vectors ix' = apply_op e (vectors ix) \<and> hx_max_elements ix' = hx_max_elements ix"
proof -
  have w: "within L ix" and dc: "dc = hx_num_deleted ix" using g by (auto simp: graph_ok_def)
  show ?thesis
  proof (cases "we_type e")
    case kInsert
    from ApplyInsert_refines[OF w l, of lib] obtain ix' where
      "ApplyInsertLocked lib e (ix, dc) = ((ix', hx_num_deleted ix'), None)" "within L ix'"
      "vectors ix' = (vectors ix)(we_block_id e \<mapsto> we_vector e)" "hx_max_elements ix' = hx_max_elements ix"
      unfolding dc by blast
    then show ?thesis using kInsert by (simp add: ApplyEntryLocked_def graph_ok_def apply_op_def)
  next
    case kDelete
    have ok: "hx_ok ix" using w by (simp add: within_def)
    show ?thesis
    proof (cases "markDelete (we_block_id e) ix")
      case (Inl x)
      have "vectors ix (we_block_id e) = None" using Inl by (rule markDelete_no)
      then have "(vectors ix)(we_block_id e := None) = vectors ix" by (intro fun_upd_idem)
      then show ?thesis using Inl kDelete w dc by (simp add: ApplyEntryLocked_def graph_ok_def apply_op_def)
    next
      case (Inr ix')
      show ?thesis
        using Inr kDelete w dc markDelete_ok[OF ok Inr] markDelete_frame[OF Inr]
        by (simp add: ApplyEntryLocked_def graph_ok_def apply_op_def within_def)
    qed
  qed
qed

lemma apply_all_refines:
  assumes "graph_ok L (ix, dc, lsn)" "we_block_id ` set es \<subseteq> L"
  shows "\<exists>ix' dc'. fold (ApplyEntryLocked lib) es (ix, dc, lsn) = (ix', dc', lsn + of_nat (length es)) \<and>
    graph_ok L (ix', dc', lsn + of_nat (length es)) \<and> vectors ix' = apply_ops es (vectors ix) \<and>
    hx_max_elements ix' = hx_max_elements ix"
  using assms
proof (induction es arbitrary: ix dc lsn)
  case (Cons e es)
  from ApplyEntry_refines[OF Cons.prems(1), of e lib] Cons.prems(2) obtain iy dy where
    y: "ApplyEntryLocked lib e (ix, dc, lsn) = (iy, dy, lsn + 1)" "graph_ok L (iy, dy, lsn + 1)"
    "vectors iy = apply_op e (vectors ix)" "hx_max_elements iy = hx_max_elements ix" by auto
  from Cons.IH[OF y(2)] Cons.prems(2) y show ?case by (auto simp: add.assoc)
qed simp

text \<open>Frames the index wrote itself decode, and replaying is applying the records behind the snapshot.\<close>

lemma apply_frames_written:
  "\<forall>e\<in>set es. wal_entry_ok dim e \<Longrightarrow>
   apply_frames lib dim (map wal_frame es) g = Some (Status_Ok, fold (ApplyEntryLocked lib) es g)"
  by (induction es arbitrary: g) (simp_all add: WalDeserialize_wal_frame)

lemma unat_plus_of_nat:
  assumes "unat (b :: u64) + n < 2 ^ 64"
  shows "unat (b + of_nat n) = unat b + n"
  using assms by (simp add: unat_word_ariths unat_of_nat)

lemma replay_fold:
  assumes "unat base + i + length es < 2 ^ 64"
  shows "replay lib base sl i es g = fold (ApplyEntryLocked lib) (drop (unat sl - (unat base + i)) es) g"
  using assms
proof (induction es arbitrary: i g)
  case (Cons e es)
  have "unat (base + of_nat (Suc i)) = unat base + Suc i" by (rule unat_plus_of_nat) (use Cons.prems in simp)
  then have le: "base + of_nat i + 1 \<le> sl \<longleftrightarrow> unat base + Suc i \<le> unat sl"
    by (simp add: word_le_nat_alt add.commute add.left_commute)
  have "replay lib base sl (Suc i) es g' = fold (ApplyEntryLocked lib) (drop (unat sl - (unat base + Suc i)) es) g'" for g'
    by (rule Cons.IH) (use Cons.prems in simp)
  then show ?case
  proof (cases "unat base + Suc i \<le> unat sl")
    case True
    then have "unat sl - (unat base + i) = Suc (unat sl - (unat base + Suc i))" by simp
    with True le Cons show ?thesis by (simp add: Let_def del: of_nat_Suc)
  next
    case False
    then have z: "unat sl - (unat base + i) = 0" "unat sl - (unat base + Suc i) = 0" by simp_all
    show ?thesis using False le Cons.IH[of "Suc i"] Cons.prems by (simp add: Let_def z)
  qed
qed simp

section \<open>The sink contract\<close>

text \<open>The index is a sink of the group committer: its record area is that of the log.\<close>

definition ph_area :: "'g PHnsw \<Rightarrow> bytes" where
  "ph_area s = (case ph_wal s of None \<Rightarrow> [] | Some w \<Rightarrow> drop 32 (ww_file w))"

definition ph_good :: "'g PHnsw \<Rightarrow> bool" where
  "ph_good s \<longleftrightarrow> ph_index s \<noteq> None \<and> (case ph_wal s of None \<Rightarrow> False | Some w \<Rightarrow> 32 \<le> length (ww_file w))"

lemma RewriteHeader_area:
  assumes "RewriteHeaderLocked env i w = (st, w')" "32 \<le> length (ww_file w)"
  shows "drop 32 (ww_file w') = drop 32 (ww_file w) \<and> length (ww_file w') = length (ww_file w)"
proof -
  have p: "drop 32 (pwrite_at f 0 b) = drop 32 f \<and> length (pwrite_at f 0 b) = length f" if "length b \<le> 32" "32 \<le> length f" for f b :: bytes
    using that by (simp add: pwrite_at_start)
  show ?thesis
    using assms p[OF _ assms(2)]
    by (auto simp: RewriteHeaderLocked_def pwrite_all_def Let_def split: if_splits pw_outcome.splits)
qed

lemma wal_WriteBatch_area:
  assumes b: "wal_WriteBatch env rs w = (st, w')" and l: "32 \<le> length (ww_file w)"
  shows "\<exists>p. drop 32 (ww_file w') = drop 32 (ww_file w) @ p \<and> (ok st \<longrightarrow> p = concat rs) \<and> 32 \<le> length (ww_file w')"
proof -
  obtain st0 w0 where w0: "WriteRecordsLocked env rs w = (st0, w0)" by fastforce
  show ?thesis
  proof (cases "ok st0")
    case True
    then have h: "RewriteHeaderLocked env (length rs) w0 = (st, w')" using b w0 by (simp add: wal_WriteBatch_def)
    have f0: "ww_file w0 = ww_file w @ concat rs" using WriteRecords_ok[OF w0 True] by simp
    from RewriteHeader_area[OF h] show ?thesis using l f0 by (intro exI[of _ "concat rs"]) simp
  next
    case False
    from WriteRecords_err[OF w0 False] obtain k where "w0 = w\<lparr>ww_file := ww_file w @ take k (concat rs)\<rparr>" by blast
    moreover have "w' = w0" "st = st0" using b w0 False by (auto simp: wal_WriteBatch_def)
    ultimately show ?thesis using l False by auto
  qed
qed

lemma MaybeRequest_sel [simp]:
  "ph_config (MaybeRequestSnapshotLocked env s) = ph_config s" "ph_dir (MaybeRequestSnapshotLocked env s) = ph_dir s"
  "ph_wal (MaybeRequestSnapshotLocked env s) = ph_wal s" "ph_index (MaybeRequestSnapshotLocked env s) = ph_index s"
  "ph_deleted_count (MaybeRequestSnapshotLocked env s) = ph_deleted_count s"
  "ph_applied_lsn (MaybeRequestSnapshotLocked env s) = ph_applied_lsn s"
  "ph_ready (MaybeRequestSnapshotLocked env s) = ph_ready s" "ph_committer (MaybeRequestSnapshotLocked env s) = ph_committer s"
  "ph_pending (MaybeRequestSnapshotLocked env s) = ph_pending s"
  by (simp_all add: MaybeRequestSnapshotLocked_def Let_def split: option.split sum.split)

lemma ph_flush:
  assumes g: "ph_good s" and fl: "sink_flush ph_write_batch (ph_sync lib) env es s = (st, s')"
  shows "\<exists>p. ph_area s' = ph_area s @ p \<and> (ok st \<longrightarrow> p = concat es)" "ph_good s'"
proof -
  obtain w ix where s: "ph_wal s = Some w" "ph_index s = Some ix" "32 \<le> length (ww_file w)"
    using g by (auto simp: ph_good_def split: option.splits)
  obtain st1 w1 where w1: "wal_WriteBatch env es w = (st1, w1)" by fastforce
  obtain p where p: "drop 32 (ww_file w1) = drop 32 (ww_file w) @ p" "ok st1 \<longrightarrow> p = concat es" "32 \<le> length (ww_file w1)"
    using wal_WriteBatch_area[OF w1 s(3)] by blast
  obtain st2 w2 where w2: "wal_Sync env w1 = (st2, w2)" by fastforce
  have f2: "ww_file w2 = ww_file w1" using w2 wal_SyncLocked_file by (simp add: wal_Sync_def)
  have "(\<exists>p. ph_area s' = ph_area s @ p \<and> (ok st \<longrightarrow> p = concat es)) \<and> ph_good s'"
  proof (cases "ApplySink_Sync lib env (s\<lparr>ph_pending := Some es\<rparr>)")
    case None
    then have "s' = s\<lparr>ph_pending := Some es\<rparr>" "\<not> ok st"
      using fl by (auto simp: sink_flush_def ph_write_batch_def ApplySink_WriteBatch_def ph_sync_def Let_def)
    then show ?thesis using g by (simp add: ph_area_def ph_good_def)
  next
    case (Some r)
    then have r: "r = (st, s')"
      using fl by (cases r) (simp add: sink_flush_def ph_write_batch_def ApplySink_WriteBatch_def ph_sync_def Let_def)
    show ?thesis
    proof (cases es)
      case Nil
      then show ?thesis using Some r g by (auto simp: ApplySink_Sync_def Let_def ph_area_def ph_good_def)
    next
      case (Cons e rest)
      then show ?thesis
        using Some r s w1 w2 p f2
        by (auto simp: ApplySink_Sync_def Let_def ph_area_def ph_good_def bind_eq_Some_conv simp del: apply_frames.simps split: if_splits)
    qed
  qed
  then show "\<exists>p. ph_area s' = ph_area s @ p \<and> (ok st \<longrightarrow> p = concat es)" "ph_good s'" by blast+
qed

interpretation ph_sink: wal_sink ph_write_batch "ph_sync lib" ph_area ph_good
proof (unfold_locales, goal_cases)
  case (1 k env es st k')
  then show ?case using ph_flush(1)[of k lib env es st k'] by auto
next
  case (2 k env es st k')
  then show ?case using ph_flush(1)[of k lib env es st k'] by auto
next
  case (3 k env es st k')
  then show ?case by (rule ph_flush(2))
qed

text \<open>
  The log of the index is the history of its group committer.  Whatever batches the worker formed and
  whatever failed, the record area of the write-ahead log is its initial content followed by the flushed frames
  in order: a frame whose future was resolved with \<open>Ok\<close> contributes exactly its bytes, a failed one at most some
  bytes; and the future of every flushed frame holds the status of its flush.
\<close>
theorem index_log_history:
  assumes "gc_reach ph_write_batch (ph_sync lib) max_batch s0 g" "ph_good s0"
  shows "(\<exists>pieces. ph_area (gc_sink g) = ph_area s0 @ concat pieces \<and> explains pieces (gc_history g)) \<and>
    (\<forall>(t, b, st)\<in>set (gc_history g). gc_futures g t = Some st)"
  using ph_sink.reach_explained[OF assms] reach_history[OF assms(1)] by blast

lemma reach_one_flush:
  "gc_reach write_batch sync 8 k (FlushBatch write_batch sync env (take_batch 8 (Submit b (gc_init k))))"
  "gc_history (FlushBatch write_batch sync env (take_batch 8 (Submit b (gc_init k)))) \<noteq> []"
proof -
  have q: "gc_queue (Submit b (gc_init k)) = [(0, b)]" "gc_inflight (Submit b (gc_init k)) = []" "\<not> gc_exited (Submit b (gc_init k))"
    by (simp_all add: Submit_def gc_init_def)
  have "gc_reach write_batch sync 8 k (Submit b (gc_init k))" by (intro gc_reach.step[OF gc_reach.init] gc_step.submit)
  then have "gc_reach write_batch sync 8 k (take_batch 8 (Submit b (gc_init k)))"
    by (rule gc_reach.step) (rule gc_step.take, simp_all add: q)
  then show "gc_reach write_batch sync 8 k (FlushBatch write_batch sync env (take_batch 8 (Submit b (gc_init k))))"
    by (rule gc_reach.step) (rule gc_step.flush, simp add: take_batch_def q Let_def)
  show "gc_history (FlushBatch write_batch sync env (take_batch 8 (Submit b (gc_init k)))) \<noteq> []"
    by (simp add: FlushBatch_def take_batch_def q Let_def split: prod.splits)
qed

theorem index_log_history_witness:
  "\<exists>g s0. gc_reach ph_write_batch (ph_sync sample_lib) 8 s0 g \<and> ph_good s0 \<and> gc_history g \<noteq> [] \<and>
     (\<exists>pieces. ph_area (gc_sink g) = ph_area s0 @ concat pieces \<and> explains pieces (gc_history g))"
proof -
  define s0 where "s0 = \<lparr>ph_config = PhnswConfig_default, ph_dir = [], ph_wal = Some sample_wal, ph_index = Some sample_index,
    ph_deleted_count = 0, ph_applied_lsn = 0, ph_committer = True, ph_shutdown = False, ph_ready = True,
    ph_snapshot_requested = False, ph_snapshot_stop = False, ph_pending = None\<rparr>"
  have g: "ph_good s0" using wal_holds_length[OF sample_wal_holds(1)] by (simp add: ph_good_def s0_def)
  let ?g = "FlushBatch ph_write_batch (ph_sync sample_lib) io_good (take_batch 8 (Submit [1] (gc_init s0)))"
  have r: "gc_reach ph_write_batch (ph_sync sample_lib) 8 s0 ?g" "gc_history ?g \<noteq> []"
    by (rule reach_one_flush)+
  from index_log_history[OF r(1) g] r g show ?thesis by blast
qed

end
