(* ===== verification/Phnsw_Recovery.thy ===== *)
theory Phnsw_Recovery
  imports Phnsw
begin

text \<open>
  What the vector index (\<^verbatim>\<open>src/store/phnsw/phnsw.cpp\<close>) keeps over its life: the histories of flushed batches,
  snapshots, crashes and restarts, the invariant that ties the graph in memory and the files on disk to the
  history of the acknowledged records, and the places where a crash or a full index breaks the promise.
\<close>

section \<open>Flushes, snapshots, crashes and restarts\<close>

definition labels :: "WalEntry list \<Rightarrow> u64 set" where
  "labels h = we_block_id ` set h"

definition max_of :: "PhnswConfig \<Rightarrow> nat" where
  "max_of cfg = nat (cf_max_elements cfg)"

text \<open>
  What a crash can leave of a batch whose records and header were written but not synced, in the order that
  keeps the header in step: nothing of it, or the new header with some of the records.
\<close>

definition header_keeps_up :: "WalWriter \<Rightarrow> bytes \<Rightarrow> bool" where
  "header_keeps_up w f \<longleftrightarrow> f = ww_disk w \<or>
     (\<exists>k. length (drop 32 (ww_disk w)) \<le> k \<and> f = take 32 (ww_file w) @ take k (drop 32 (ww_file w)))"

text \<open>
  The life of an index over one data directory, with the history of the records it holds: construction on an
  empty directory, acknowledged batches, snapshots (whose truncation succeeds or does not start), a crash
  while a batch is being written, a crash at any point of a save, each followed by a restart.  A batch may
  not exceed the capacity and the sequence numbers do not wrap.
\<close>

inductive ph_reach :: "'g hnswlib \<Rightarrow> PhnswConfig \<Rightarrow> 'g PHnsw \<Rightarrow> WalEntry list \<Rightarrow> bool"
  for lib cfg where
  start: "0 < cf_dim cfg \<Longrightarrow> PHnsw_new lib senv io_good io_good cfg [] [] = Some (s, f) \<Longrightarrow> ph_reach lib cfg s []"
| flush: "ph_reach lib cfg s h \<Longrightarrow> ph_wal s = Some w \<Longrightarrow> \<forall>e\<in>set new. wal_entry_ok (cf_dim cfg) e \<Longrightarrow>
     card (labels (h @ new)) \<le> max_of cfg \<Longrightarrow> unat (committed_lsn w) + length new < 2 ^ 64 \<Longrightarrow>
     sink_flush ph_write_batch (ph_sync lib) env (map wal_frame new) s = (st, s') \<Longrightarrow> ok st \<Longrightarrow>
     ph_reach lib cfg s' (h @ new)"
| snapshot: "ph_reach lib cfg s h \<Longrightarrow> ph_index s = Some ix \<Longrightarrow> fresh (se_now senv) (ph_dir s) \<Longrightarrow>
     \<forall>k. se_save senv \<noteq> SaveWrote k \<Longrightarrow> hl_load lib (max_of cfg) (hl_save lib ix) = Some (reloaded (max_of cfg) ix) \<Longrightarrow>
     Snapshot lib senv env s = (st, s') \<Longrightarrow> ok st \<or> ph_wal s' = ph_wal s \<Longrightarrow> ph_reach lib cfg s' h"
| crash_flush: "ph_reach lib cfg s h \<Longrightarrow> ph_wal s = Some w \<Longrightarrow> \<forall>e\<in>set new. wal_entry_ok (cf_dim cfg) e \<Longrightarrow>
     card (labels (h @ new)) \<le> max_of cfg \<Longrightarrow> unat (committed_lsn w) + length new < 2 ^ 64 \<Longrightarrow>
     wal_WriteBatch env (map wal_frame new) w = (st, w') \<Longrightarrow> ok st \<Longrightarrow> header_keeps_up w' f \<Longrightarrow>
     wal_scan (cf_dim cfg) (ww_disk w) = Some (es, v) \<Longrightarrow> wal_scan (cf_dim cfg) f = Some (es', v') \<Longrightarrow>
     se_readable senv = (\<lambda>_. True) \<Longrightarrow> PHnsw_new lib senv io_good io_good cfg (ph_dir s) f = Some (s', f') \<Longrightarrow>
     ph_reach lib cfg s' (h @ drop (length es) es')"
| crash_save: "ph_reach lib cfg s h \<Longrightarrow> ph_wal s = Some w \<Longrightarrow> ph_index s = Some ix \<Longrightarrow> fresh (se_now senv) (ph_dir s) \<Longrightarrow>
     \<forall>k. se_save senv \<noteq> SaveWrote k \<Longrightarrow> hl_load lib (max_of cfg) (hl_save lib ix) = Some (reloaded (max_of cfg) ix) \<Longrightarrow>
     Save_trace lib senv (keep_count_of (cf_snapshot_keep_count cfg)) (Some ix) (ph_applied_lsn s) (cf_dim cfg) (cf_M cfg) (ph_dir s) = (st, ds) \<Longrightarrow>
     d \<in> set ds \<Longrightarrow> se_readable senv' = (\<lambda>_. True) \<Longrightarrow>
     PHnsw_new lib senv' io_good io_good cfg d (ww_disk w) = Some (s', f') \<Longrightarrow> ph_reach lib cfg s' h"

text \<open>The files describe the history: the snapshot and the records behind it give the same map.\<close>

definition on_disk :: "'g hnswlib \<Rightarrow> PhnswConfig \<Rightarrow> WalEntry list \<Rightarrow> dir \<Rightarrow> u64 \<Rightarrow> WalEntry list \<Rightarrow> u64 \<Rightarrow> bool" where
  "on_disk lib cfg h d base es sl \<longleftrightarrow> (\<exists>ixo ix0.
     (\<forall>senv. se_readable senv = (\<lambda>_. True) \<longrightarrow> Load lib senv (max_of cfg) d = (Status_Ok, ixo, sl)) \<and>
     ix0 = (case ixo of Some ix \<Rightarrow> ix | None \<Rightarrow> new_index lib (max_of cfg)) \<and>
     within (labels h) ix0 \<and> hx_max_elements ix0 = max_of cfg \<and>
     apply_ops (drop (unat sl - unat base) es) (vectors ix0) = apply_ops h Map.empty) \<and>
     unat sl \<le> unat base + length es \<and> labels es \<subseteq> labels h"

text \<open>The log file agrees with its counters, which may run ahead of the records but not behind.\<close>

definition log_good :: "PhnswConfig \<Rightarrow> WalWriter \<Rightarrow> u64 \<Rightarrow> WalEntry list \<Rightarrow> bool" where
  "log_good cfg w base es \<longleftrightarrow> ww_dim w = cf_dim cfg \<and> wal_holds w base es \<and> ww_disk w = ww_file w \<and>
     length es \<le> unat (ww_entry_count w) \<and> unat base + unat (ww_entry_count w) < 2 ^ 64"

definition ph_inv :: "'g hnswlib \<Rightarrow> PhnswConfig \<Rightarrow> 'g PHnsw \<Rightarrow> WalEntry list \<Rightarrow> bool" where
  "ph_inv lib cfg s h \<longleftrightarrow> (\<exists>w ix base es sl.
     ph_config s = cfg \<and> ph_ready s \<and> ph_committer s \<and> ph_wal s = Some w \<and> ph_index s = Some ix \<and>
     log_good cfg w base es \<and> on_disk lib cfg h (ph_dir s) base es sl \<and>
     graph_ok (labels h) (ix, ph_deleted_count s, ph_applied_lsn s) \<and> hx_max_elements ix = max_of cfg \<and>
     vectors ix = apply_ops h Map.empty \<and>
     unat sl \<le> unat (ph_applied_lsn s) \<and> unat (ph_applied_lsn s) \<le> unat base + length es)"

lemma labels_append [simp]: "labels (h @ new) = labels h \<union> labels new"
  by (auto simp: labels_def)

lemma labels_drop: "labels (drop n es) \<subseteq> labels es"
  by (auto simp: labels_def dest: in_set_dropD)

lemma finite_labels [simp]: "finite (labels h)"
  by (simp add: labels_def)

lemma on_disk_extend:
  assumes d: "on_disk lib cfg h d base es sl" and c: "card (labels (h @ new)) \<le> max_of cfg"
  shows "on_disk lib cfg (h @ new) d base (es @ new) sl"
proof -
  obtain ixo ix0 where o: "\<forall>senv. se_readable senv = (\<lambda>_. True) \<longrightarrow> Load lib senv (max_of cfg) d = (Status_Ok, ixo, sl)"
    "ix0 = (case ixo of Some ix \<Rightarrow> ix | None \<Rightarrow> new_index lib (max_of cfg))" "within (labels h) ix0"
    "hx_max_elements ix0 = max_of cfg" "apply_ops (drop (unat sl - unat base) es) (vectors ix0) = apply_ops h Map.empty"
    and le: "unat sl \<le> unat base + length es" "labels es \<subseteq> labels h"
    using d unfolding on_disk_def by blast
  have "within (labels (h @ new)) ix0" by (rule within_mono[OF o(3)]) (use c o(4) in auto)
  moreover have "drop (unat sl - unat base) (es @ new) = drop (unat sl - unat base) es @ new" using le(1) by simp
  then have "apply_ops (drop (unat sl - unat base) (es @ new)) (vectors ix0) = apply_ops (h @ new) Map.empty"
    using o(5) by (simp add: apply_ops_append)
  ultimately show ?thesis unfolding on_disk_def using o(1,2,4) le by auto
qed

text \<open>A restart over files that describe a history restores it.\<close>

lemma restart_state:
  assumes ld: "Load lib senv (max_of cfg) d = (Status_Ok, ixo, sl)"
    and ix0: "ix0 = (case ixo of Some ix \<Rightarrow> ix | None \<Rightarrow> new_index lib (max_of cfg))" "within L ix0"
    and o: "WalWriter_Open io_good f (cf_dim cfg) = (Inr w, f)"
    and r: "wal_ReadAll io_good (cf_dim cfg) w = Some (Inr es, w')" and wh: "wal_holds w' base es"
    and bd: "unat base + length es < 2 ^ 64" and sub: "labels es \<subseteq> L"
  shows "\<exists>s' ix. PHnsw_new lib senv io_good io_good cfg d f = Some (s', ww_file w') \<and> ph_config s' = cfg \<and> ph_dir s' = d \<and>
    ph_ready s' \<and> ph_committer s' \<and> \<not> ph_shutdown s' \<and> ph_wal s' = Some w' \<and> ph_index s' = Some ix \<and>
    graph_ok L (ix, ph_deleted_count s', ph_applied_lsn s') \<and> hx_max_elements ix = hx_max_elements ix0 \<and>
    vectors ix = apply_ops (drop (unat sl - unat base) es) (vectors ix0) \<and>
    ph_applied_lsn s' = sl + of_nat (length (drop (unat sl - unat base) es)) \<and>
    replay lib base sl 0 es (ix0, getDeletedCount ix0, sl) = (ix, ph_deleted_count s', ph_applied_lsn s')"
proof -
  let ?es = "drop (unat sl - unat base) es"
  have b: "committed_lsn w' - entry_count w' = base" using wh by (auto simp: wal_holds_def committed_lsn_def entry_count_def)
  have g0: "graph_ok L (ix0, getDeletedCount ix0, sl)" using ix0(2) by (simp add: graph_ok_def getDeletedCount_def)
  have sub': "we_block_id ` set ?es \<subseteq> L" using sub labels_drop[of "unat sl - unat base" es] by (auto simp: labels_def)
  from apply_all_refines[OF g0 sub', of lib] obtain ix dc where
    ap: "fold (ApplyEntryLocked lib) ?es (ix0, getDeletedCount ix0, sl) = (ix, dc, sl + of_nat (length ?es))"
    "graph_ok L (ix, dc, sl + of_nat (length ?es))" "vectors ix = apply_ops ?es (vectors ix0)"
    "hx_max_elements ix = hx_max_elements ix0" by blast
  have rp: "replay lib base sl 0 es (ix0, getDeletedCount ix0, sl) = (ix, dc, sl + of_nat (length ?es))"
    using replay_fold[of base 0 es lib sl] bd ap(1) by simp
  have mo: "nat (cf_max_elements cfg) = max_of cfg" by (simp add: max_of_def)
  define s' where "s' = \<lparr>ph_config = cfg, ph_dir = d, ph_wal = Some w', ph_index = Some ix, ph_deleted_count = dc,
     ph_applied_lsn = sl + of_nat (length ?es), ph_committer = True, ph_shutdown = False, ph_ready = True,
     ph_snapshot_requested = False, ph_snapshot_stop = False, ph_pending = None\<rparr>"
  have "PHnsw_new lib senv io_good io_good cfg d f = Some (s', ww_file w')"
    using o r ld b rp ix0(1) by (simp add: PHnsw_new_def RecoverInternal_def mo s'_def)
  then show ?thesis using ap(2-4) rp by (intro exI[of _ s'] exI[of _ ix]) (simp add: s'_def)
qed

lemma restart:
  assumes d: "on_disk lib cfg h d base es sl" and o: "WalWriter_Open io_good f (cf_dim cfg) = (Inr w, f)"
    and r: "wal_ReadAll io_good (cf_dim cfg) w = Some (Inr es, w')" and lg: "log_good cfg w' base es"
    and se: "se_readable senv = (\<lambda>_. True)"
  shows "\<exists>s'. PHnsw_new lib senv io_good io_good cfg d f = Some (s', ww_file w') \<and> ph_inv lib cfg s' h \<and> ph_dir s' = d"
proof -
  obtain ixo ix0 where ld: "Load lib senv (max_of cfg) d = (Status_Ok, ixo, sl)"
    and ix0: "ix0 = (case ixo of Some ix \<Rightarrow> ix | None \<Rightarrow> new_index lib (max_of cfg))" "within (labels h) ix0"
    "hx_max_elements ix0 = max_of cfg" "apply_ops (drop (unat sl - unat base) es) (vectors ix0) = apply_ops h Map.empty"
    and le: "unat sl \<le> unat base + length es" "labels es \<subseteq> labels h"
    using d se unfolding on_disk_def by blast
  have wh: "wal_holds w' base es" and bd: "unat base + length es < 2 ^ 64" using lg by (auto simp: log_good_def)
  let ?es = "drop (unat sl - unat base) es"
  have un: "unat (sl + of_nat (length ?es)) = unat sl + length ?es" by (rule unat_plus_of_nat) (use bd le(1) in auto)
  from restart_state[OF ld ix0(1,2) o r wh bd le(2)] obtain s' ix where
    s': "PHnsw_new lib senv io_good io_good cfg d f = Some (s', ww_file w')" "ph_config s' = cfg" "ph_dir s' = d"
    "ph_ready s'" "ph_committer s'" "ph_wal s' = Some w'" "ph_index s' = Some ix"
    "graph_ok (labels h) (ix, ph_deleted_count s', ph_applied_lsn s')" "hx_max_elements ix = max_of cfg"
    "vectors ix = apply_ops h Map.empty" "ph_applied_lsn s' = sl + of_nat (length ?es)" using ix0(3,4) by auto
  then have "ph_inv lib cfg s' h"
    unfolding ph_inv_def using lg d un le(1) by (auto intro!: exI)
  then show ?thesis using s'(1,3) by blast
qed

text \<open>What an acknowledged flush has done: the batch is in the log, synced, and applied.\<close>

lemma apply_frames_status: "apply_frames lib dim frs g = Some (x, y) \<Longrightarrow> ok x \<Longrightarrow> x = Status_Ok"
proof (induction frs arbitrary: g)
  case (Cons f frs)
  then obtain r where r: "WalDeserialize dim f = Some r" by (auto simp: bind_eq_Some_conv)
  show ?case
  proof (cases r)
    case (Inl st)
    then show ?thesis using Cons.prems r WalDeserialize_not_ok[of dim f st] by simp
  next
    case (Inr e)
    then show ?thesis using Cons.prems r Cons.IH by simp
  qed
qed simp

lemma flush_nonempty:
  assumes fl: "sink_flush ph_write_batch (ph_sync lib) env frames s = (st, s')" and ok: "ok st" and ne: "frames \<noteq> []"
    and wi: "ph_wal s = Some w" "ph_index s = Some ix"
  shows "\<exists>w1 st0 st1 w2 ix' dc' lsn'. wal_WriteBatch env frames w = (st0, w1) \<and> ok st0 \<and> wal_Sync env w1 = (st1, w2) \<and> ok st1 \<and>
    apply_frames lib (cf_dim (ph_config s)) frames (ix, ph_deleted_count s, ph_applied_lsn s) = Some (Status_Ok, ix', dc', lsn') \<and>
    s' = MaybeRequestSnapshotLocked env (s\<lparr>ph_pending := None, ph_wal := Some w2, ph_index := Some ix',
            ph_deleted_count := dc', ph_applied_lsn := lsn'\<rparr>)"
proof -
  have sy: "ph_sync lib env (s\<lparr>ph_pending := Some frames\<rparr>) = (Ret st, s')"
    using fl ok by (auto simp: sink_flush_def ph_write_batch_def ApplySink_WriteBatch_def split: sink_ret.splits prod.splits)
  then have as: "ApplySink_Sync lib env (s\<lparr>ph_pending := Some frames\<rparr>) = Some (st, s')"
    by (auto simp: ph_sync_def split: option.splits prod.splits)
  obtain f fs where fr: "frames = f # fs" using ne by (cases frames) auto
  obtain st0 w1 where w: "wal_WriteBatch env frames w = (st0, w1)" by fastforce
  have ok0: "ok st0" using as ok w wi fr by (auto simp: ApplySink_Sync_def Let_def split: if_splits)
  obtain st1 w2 where y: "wal_Sync env w1 = (st1, w2)" by fastforce
  have ok1: "ok st1" using as ok w ok0 y wi fr by (auto simp: ApplySink_Sync_def Let_def split: if_splits)
  obtain st2 ix' dc' lsn' where a: "apply_frames lib (cf_dim (ph_config s)) frames (ix, ph_deleted_count s, ph_applied_lsn s) = Some (st2, ix', dc', lsn')"
    using as w ok0 y ok1 wi fr by (auto simp: ApplySink_Sync_def Let_def bind_eq_Some_conv simp del: apply_frames.simps)
  have fin: "(st, s') = (if \<not> ok st2 then (st2, s\<lparr>ph_pending := None, ph_wal := Some w2, ph_index := Some ix', ph_deleted_count := dc', ph_applied_lsn := lsn'\<rparr>)
      else (Status_Ok, MaybeRequestSnapshotLocked env (s\<lparr>ph_pending := None, ph_wal := Some w2, ph_index := Some ix', ph_deleted_count := dc', ph_applied_lsn := lsn'\<rparr>)))"
    using as w ok0 y ok1 a wi fr by (auto simp: ApplySink_Sync_def Let_def simp del: apply_frames.simps)
  have ok2: "ok st2" using fin ok by (auto split: if_splits)
  have "st2 = Status_Ok"
    using apply_frames_status[OF a ok2] .
  then show ?thesis using w ok0 y ok1 a fin ok2 by auto
qed

lemma flush_empty:
  "sink_flush ph_write_batch (ph_sync lib) env [] s = (Status_Ok, s\<lparr>ph_pending := None\<rparr>)"
  by (simp add: sink_flush_def ph_write_batch_def ApplySink_WriteBatch_def ph_sync_def ApplySink_Sync_def)

lemma ph_inv_pending: "ph_inv lib cfg s h \<Longrightarrow> ph_inv lib cfg (s\<lparr>ph_pending := p\<rparr>) h"
  by (auto simp: ph_inv_def)

lemma log_good_extend:
  assumes lg: "log_good cfg w base es" and ok: "\<forall>e\<in>set new. wal_entry_ok (cf_dim cfg) e"
    and b: "wal_WriteBatch env (map wal_frame new) w = (st, w')" "ok st"
    and room: "unat (committed_lsn w) + length new < 2 ^ 64"
  shows "wal_holds w' base (es @ new)" "ww_dim w' = cf_dim cfg" "ww_disk w' = ww_disk w"
    "unat (ww_entry_count w') = unat (ww_entry_count w) + length new" "unat base + unat (ww_entry_count w') < 2 ^ 64"
    "length (es @ new) \<le> unat (ww_entry_count w')"
proof -
  have h: "wal_holds w base es" "ww_dim w = cf_dim cfg" "length es \<le> unat (ww_entry_count w)"
    "unat base + unat (ww_entry_count w) < 2 ^ 64" using lg by (auto simp: log_good_def)
  note wb = wal_WriteBatch_holds[OF h(1) ok[folded h(2)] b]
  have c: "unat (committed_lsn w) = unat base + unat (ww_entry_count w)"
    using h(1,4) by (simp add: committed_lsn_def wal_holds_def unat_word_ariths)
  have e: "unat (ww_entry_count w + of_nat (length new)) = unat (ww_entry_count w) + length new"
    by (rule unat_plus_of_nat) (use room c in simp)
  show "wal_holds w' base (es @ new)" "ww_dim w' = cf_dim cfg" "ww_disk w' = ww_disk w" using wb h(2) by simp_all
  show "unat (ww_entry_count w') = unat (ww_entry_count w) + length new" using wb(2) e by simp
  then show "unat base + unat (ww_entry_count w') < 2 ^ 64" "length (es @ new) \<le> unat (ww_entry_count w')"
    using room c h(3) by simp_all
qed

lemma ph_inv_flush:
  assumes inv: "ph_inv lib cfg s h" and w: "ph_wal s = Some w" and ok: "\<forall>e\<in>set new. wal_entry_ok (cf_dim cfg) e"
    and c: "card (labels (h @ new)) \<le> max_of cfg" and room: "unat (committed_lsn w) + length new < 2 ^ 64"
    and fl: "sink_flush ph_write_batch (ph_sync lib) env (map wal_frame new) s = (st, s')" and st: "ok st"
  shows "ph_inv lib cfg s' (h @ new)"
proof (cases "new = []")
  case True
  then show ?thesis using fl flush_empty[of lib env s] ph_inv_pending[OF inv, of None] by simp
next
  case False
  obtain ix base es sl where i: "ph_config s = cfg" "ph_ready s" "ph_committer s" "ph_index s = Some ix"
    "log_good cfg w base es" "on_disk lib cfg h (ph_dir s) base es sl"
    "graph_ok (labels h) (ix, ph_deleted_count s, ph_applied_lsn s)" "hx_max_elements ix = max_of cfg"
    "vectors ix = apply_ops h Map.empty" "unat sl \<le> unat (ph_applied_lsn s)" "unat (ph_applied_lsn s) \<le> unat base + length es"
    using inv w unfolding ph_inv_def by auto
  have ne: "map wal_frame new \<noteq> []" using False by simp
  obtain w1 st0 st1 w2 ix' dc' lsn' where f: "wal_WriteBatch env (map wal_frame new) w = (st0, w1)" "ok st0"
    "wal_Sync env w1 = (st1, w2)" "ok st1"
    "apply_frames lib (cf_dim cfg) (map wal_frame new) (ix, ph_deleted_count s, ph_applied_lsn s) = Some (Status_Ok, ix', dc', lsn')"
    "s' = MaybeRequestSnapshotLocked env (s\<lparr>ph_pending := None, ph_wal := Some w2, ph_index := Some ix',
            ph_deleted_count := dc', ph_applied_lsn := lsn'\<rparr>)"
    using flush_nonempty[OF fl st ne w i(4)] unfolding i(1) by blast
  have gr: "(ix', dc', lsn') = fold (ApplyEntryLocked lib) new (ix, ph_deleted_count s, ph_applied_lsn s)"
    using f(5) unfolding apply_frames_written[OF ok] by simp
  have g1: "graph_ok (labels (h @ new)) (ix, ph_deleted_count s, ph_applied_lsn s)"
    using i(7) within_mono[of "labels h" ix "labels (h @ new)"] c i(8) by (auto simp: graph_ok_def)
  have sub: "we_block_id ` set new \<subseteq> labels (h @ new)" by (auto simp: labels_def)
  from apply_all_refines[OF g1 sub, of lib] gr
  have g: "lsn' = ph_applied_lsn s + of_nat (length new)" "graph_ok (labels (h @ new)) (ix', dc', lsn')"
    "vectors ix' = apply_ops new (vectors ix)" "hx_max_elements ix' = max_of cfg" using i(8) by auto
  note l = log_good_extend[OF i(5) ok f(1,2) room]
  have w2: "w2 = w1\<lparr>ww_disk := ww_file w1\<rparr>" using wal_SyncLocked_ok[of env w1] f(3,4) by (simp add: wal_Sync_def)
  have lg: "log_good cfg w2 base (es @ new)" using l by (simp add: log_good_def w2 wal_holds_sync)
  have un: "unat lsn' = unat (ph_applied_lsn s) + length new"
    unfolding g(1) by (rule unat_plus_of_nat) (use i(11) l(5,6) in simp)
  have "vectors ix' = apply_ops (h @ new) Map.empty" using g(3) i(9) by (simp add: apply_ops_append)
  then show ?thesis
    unfolding ph_inv_def f(6)
    using i(1-3,10,11) lg on_disk_extend[OF i(6) c] g(2,4) un by (auto intro!: exI)
qed

text \<open>Reopening the log after a crash in the middle of a batch.\<close>

lemma reopen_batch:
  assumes lg: "log_good cfg w base es" and ok: "\<forall>e\<in>set new. wal_entry_ok (cf_dim cfg) e"
    and b: "wal_WriteBatch env (map wal_frame new) w = (st, w')" "ok st"
    and room: "unat (committed_lsn w) + length new < 2 ^ 64" and f: "header_keeps_up w' f"
  shows "\<exists>m w0 w1 v. m \<le> length new \<and> WalWriter_Open io_good f (cf_dim cfg) = (Inr w0, f) \<and>
    wal_ReadAll io_good (cf_dim cfg) w0 = Some (Inr (es @ take m new), w1) \<and> log_good cfg w1 base (es @ take m new) \<and>
    wal_scan (cf_dim cfg) f = Some (es @ take m new, v)"
proof -
  have h: "wal_holds w base es" "ww_dim w = cf_dim cfg" "ww_disk w = ww_file w" "length es \<le> unat (ww_entry_count w)"
    "unat base + unat (ww_entry_count w) < 2 ^ 64" using lg by (auto simp: log_good_def)
  note l = log_good_extend[OF lg ok b room]
  have dim: "0 < cf_dim cfg" and old: "ww_file w = wal_MakeHeader (cf_dim cfg) (ww_entry_count w) (base + ww_entry_count w) @ concat (map wal_frame es)"
    and new: "ww_file w' = wal_MakeHeader (cf_dim cfg) (ww_entry_count w') (base + ww_entry_count w') @ concat (map wal_frame (es @ new))"
    and good: "\<forall>e\<in>set (es @ new). wal_entry_ok (cf_dim cfg) e"
    using h(1,2) l(1,2) by (simp_all add: wal_holds_def wal_image_def)
  obtain c k where f': "f = wal_MakeHeader (cf_dim cfg) c (base + c) @ take k (concat (map wal_frame (es @ new)))"
    and k: "length (concat (map wal_frame (take (length es) (es @ new)))) \<le> k"
    and c: "unat base + unat c < 2 ^ 64" "c = ww_entry_count w' \<or> c = ww_entry_count w \<and> k = length (concat (map wal_frame es))"
    using f l(3,5) h(3,5) unfolding header_keeps_up_def
  proof (elim disjE exE conjE)
    assume "f = ww_disk w'"
    then show thesis using that[of "ww_entry_count w" "length (concat (map wal_frame es))"] l(3) h(3,5) old by simp
  next
    fix k assume "length (drop 32 (ww_disk w')) \<le> k" "f = take 32 (ww_file w') @ take k (drop 32 (ww_file w'))"
    then show thesis
      using that[of "ww_entry_count w'" k] l(3,5) h(3) old new by (simp del: map_append concat_append take_append) simp
  qed
  have n: "length es \<le> length (es @ new)" by simp
  obtain m w0 w1 v where m: "length es \<le> m" "m \<le> length (es @ new)" "WalWriter_Open io_good f (cf_dim cfg) = (Inr w0, f)"
    "wal_ReadAll io_good (cf_dim cfg) w0 = Some (Inr (take m (es @ new)), w1)" "wal_holds w1 base (take m (es @ new))"
    "ww_dim w1 = cf_dim cfg" "ww_disk w1 = ww_file w1" "wal_scan (cf_dim cfg) f = Some (take m (es @ new), v)"
    "ww_entry_count w1 = c \<or> ww_entry_count w1 = of_nat m"
    using wal_reopen[OF dim good n k, of c "base + c"] unfolding f'[symmetric] by auto
  have tk: "take m (es @ new) = es @ take (m - length es) new" using m(1) by simp
  have mle: "m \<le> unat (ww_entry_count w')" using m(2) l(6) by simp
  have len: "length (take m (es @ new)) = m" using m(2) by simp
  have "length (take m (es @ new)) \<le> unat (ww_entry_count w1) \<and> unat base + unat (ww_entry_count w1) < 2 ^ 64"
    using m(9)
  proof
    assume e: "ww_entry_count w1 = of_nat m"
    have "m < 2 ^ 64" using mle l(5) by simp
    then have "unat (of_nat m :: u64) = m" by (simp add: unat_of_nat)
    then show ?thesis using e mle l(5) len by simp
  next
    assume e: "ww_entry_count w1 = c"
    show ?thesis
    proof (cases "c = ww_entry_count w'")
      case True
      then show ?thesis using e mle l(5) len by simp
    next
      case False
      then have cw: "c = ww_entry_count w" and kk: "k = length (concat (map wal_frame es))" using c(2) by auto
      have "f = wal_image (cf_dim cfg) c (base + c) es" using f' kk by (simp add: wal_image_def)
      then have "wal_scan (cf_dim cfg) f = Some (es, length f)" using wal_scan_image[of es "cf_dim cfg"] good by simp
      then have "take m (es @ new) = es" using m(8) by simp
      then show ?thesis using e cw h(4,5) by simp
    qed
  qed
  then have "log_good cfg w1 base (es @ take (m - length es) new)" using m(5-7) tk by (simp add: log_good_def)
  then show ?thesis
    using m(2-4,8) tk by (intro exI[of _ "m - length es"] exI[of _ w0] exI[of _ w1] exI[of _ v]) auto
qed

lemma ph_inv_crash_flush:
  assumes inv: "ph_inv lib cfg s h" and w: "ph_wal s = Some w" and ok: "\<forall>e\<in>set new. wal_entry_ok (cf_dim cfg) e"
    and c: "card (labels (h @ new)) \<le> max_of cfg" and room: "unat (committed_lsn w) + length new < 2 ^ 64"
    and b: "wal_WriteBatch env (map wal_frame new) w = (st, w')" "ok st" and f: "header_keeps_up w' f"
    and se: "se_readable senv = (\<lambda>_. True)"
  shows "\<exists>m s' f' es v v'. m \<le> length new \<and> PHnsw_new lib senv io_good io_good cfg (ph_dir s) f = Some (s', f') \<and>
    ph_inv lib cfg s' (h @ take m new) \<and> wal_scan (cf_dim cfg) (ww_disk w) = Some (es, v) \<and>
    wal_scan (cf_dim cfg) f = Some (es @ take m new, v')"
proof -
  obtain base es sl where lg: "log_good cfg w base es" and od: "on_disk lib cfg h (ph_dir s) base es sl"
    using inv w unfolding ph_inv_def by auto
  obtain m w0 w1 v where r: "m \<le> length new" "WalWriter_Open io_good f (cf_dim cfg) = (Inr w0, f)"
    "wal_ReadAll io_good (cf_dim cfg) w0 = Some (Inr (es @ take m new), w1)" "log_good cfg w1 base (es @ take m new)"
    "wal_scan (cf_dim cfg) f = Some (es @ take m new, v)" using reopen_batch[OF lg ok b room f] by blast
  have "labels (h @ take m new) \<subseteq> labels (h @ new)" by (auto simp: labels_def dest: in_set_takeD)
  then have "card (labels (h @ take m new)) \<le> max_of cfg" using c card_mono[OF finite_labels] by (meson le_trans)
  from restart[OF on_disk_extend[OF od this] r(2-4) se] obtain s' where
    "PHnsw_new lib senv io_good io_good cfg (ph_dir s) f = Some (s', ww_file w1)" "ph_inv lib cfg s' (h @ take m new)" by blast
  moreover have "\<exists>v. wal_scan (cf_dim cfg) (ww_disk w) = Some (es, v)"
    using lg wal_scan_image[of es "cf_dim cfg"] by (auto simp: log_good_def wal_holds_def)
  ultimately show ?thesis using r(1,5) by blast
qed

text \<open>A saved snapshot describes the history, with the log as it was or truncated.\<close>

lemma on_disk_saved:
  assumes l: "\<forall>senv. se_readable senv = (\<lambda>_. True) \<longrightarrow> Load lib senv (max_of cfg) d = (Status_Ok, Some (reloaded (max_of cfg) ix), ap)"
    and g: "within (labels h) ix" "hx_max_elements ix = max_of cfg" "vectors ix = apply_ops h Map.empty"
    and e: "apply_ops (drop (unat ap - unat base) es) (vectors ix) = vectors ix" "unat ap \<le> unat base + length es" "labels es \<subseteq> labels h"
  shows "on_disk lib cfg h d base es ap"
proof -
  have c: "card (labels h) \<le> max_of cfg" using g(1,2) by (simp add: within_def)
  have ok: "hx_ok ix" using g(1) by (simp add: within_def)
  have v: "vectors (reloaded (max_of cfg) ix) = vectors ix" by (rule reloaded_ok(2)[OF ok])
  note w = within_reloaded[OF g(1) c]
  show ?thesis unfolding on_disk_def using l w v e g(3) by (intro conjI exI[of _ "Some (reloaded (max_of cfg) ix)"] exI) auto
qed

lemma suffix_replay:
  assumes "vectors ix = apply_ops (drop j es) m" "j \<le> k"
  shows "apply_ops (drop k es) (vectors ix) = vectors ix"
proof -
  have "drop j es = take (k - j) (drop j es) @ drop k es" using assms(2) by (metis append_take_drop_id drop_drop le_add_diff_inverse2)
  then show ?thesis using assms(1) apply_ops_suffix_again by metis
qed

lemma on_disk_dir:
  assumes "on_disk lib cfg h d base es sl"
    and "\<And>senv. se_readable senv = (\<lambda>_. True) \<Longrightarrow> Load lib senv (max_of cfg) d' = Load lib senv (max_of cfg) d"
  shows "on_disk lib cfg h d' base es sl"
proof -
  have eq: "(\<forall>senv. se_readable senv = (\<lambda>_. True) \<longrightarrow> Load lib senv (max_of cfg) d' = x) \<longleftrightarrow>
      (\<forall>senv. se_readable senv = (\<lambda>_. True) \<longrightarrow> Load lib senv (max_of cfg) d = x)" for x using assms(2) by auto
  show ?thesis using assms(1) unfolding on_disk_def eq .
qed

text \<open>Every directory a save passes through describes the history, as long as the log is untouched.\<close>

lemma on_disk_save:
  assumes od: "on_disk lib cfg h d base es sl"
    and g: "within (labels h) ix" "hx_max_elements ix = max_of cfg" "vectors ix = apply_ops h Map.empty"
    and le: "unat sl \<le> unat ap" "unat ap \<le> unat base + length es"
    and fr: "fresh (se_now senv) d" and nw: "\<forall>k. se_save senv \<noteq> SaveWrote k"
    and ld: "hl_load lib (max_of cfg) (hl_save lib ix) = Some (reloaded (max_of cfg) ix)"
    and sv: "Save_trace lib senv (keep_count_of kc) (Some ix) ap dim M d = (st, ds)" and d': "d' \<in> set ds"
  shows "\<exists>sl'. on_disk lib cfg h d' base es sl' \<and> unat sl' \<le> unat ap"
proof -
  have k: "0 < keep_count_of kc" by (simp add: keep_count_of_def)
  note at = Save_Load[OF fr k nw ld _ sv]
  have each: "Load lib e' (max_of cfg) d' = Load lib e' (max_of cfg) d \<or>
      Load lib e' (max_of cfg) d' = (Status_Ok, Some (reloaded (max_of cfg) ix), ap)" if "se_readable e' = (\<lambda>_. True)" for e'
    using at[OF that] d' by blast
  have same: "Load lib e1 (max_of cfg) e = Load lib e2 (max_of cfg) e"
    if "se_readable e1 = (\<lambda>_. True)" "se_readable e2 = (\<lambda>_. True)" for e1 e2 e
  proof -
    have "ReadWholeFile e1 = ReadWholeFile e2" using that by (intro ext) (simp add: ReadWholeFile_def)
    then have "load_from lib e1 (max_of cfg) e b snaps = load_from lib e2 (max_of cfg) e b snaps" for b snaps
    proof (induction snaps arbitrary: b)
      case (Cons a snaps)
      show ?case unfolding load_from.simps Cons.prems Cons.IH[OF Cons.prems] ..
    qed simp
    then show ?thesis by (simp add: Load_def)
  qed
  let ?e = "snap_good 0"
  have re: "se_readable ?e = (\<lambda>_. True)" by (simp add: snap_good_def)
  from each[OF re] show ?thesis
  proof
    assume l: "Load lib ?e (max_of cfg) d' = Load lib ?e (max_of cfg) d"
    have "on_disk lib cfg h d' base es sl"
    proof (rule on_disk_dir[OF od])
      fix e' :: snap_env assume r: "se_readable e' = (\<lambda>_. True)"
      show "Load lib e' (max_of cfg) d' = Load lib e' (max_of cfg) d"
        unfolding same[OF r re, of d'] same[OF r re, of d] by (rule l)
    qed
    then show ?thesis using le(1) by blast
  next
    assume n: "Load lib ?e (max_of cfg) d' = (Status_Ok, Some (reloaded (max_of cfg) ix), ap)"
    obtain ix0 :: "'a Hnsw" where v0: "apply_ops (drop (unat sl - unat base) es) (vectors ix0) = apply_ops h Map.empty" and lb: "labels es \<subseteq> labels h"
      using od unfolding on_disk_def by blast
    have v: "vectors ix = apply_ops (drop (unat sl - unat base) es) (vectors ix0)" using v0 g(3) by simp
    have "apply_ops (drop (unat ap - unat base) es) (vectors ix) = vectors ix"
      by (rule suffix_replay[OF v]) (use le(1) in simp)
    moreover have "\<forall>e'. se_readable e' = (\<lambda>_. True) \<longrightarrow>
        Load lib e' (max_of cfg) d' = (Status_Ok, Some (reloaded (max_of cfg) ix), ap)"
      unfolding n[symmetric] using same[OF _ re, of _ d'] by simp
    ultimately have "on_disk lib cfg h d' base es ap" by (intro on_disk_saved[OF _ g _ le(2) lb])
    then show ?thesis by blast
  qed
qed

lemma on_disk_truncated:
  assumes "on_disk lib cfg h d base es sl"
    and l: "\<forall>senv. se_readable senv = (\<lambda>_. True) \<longrightarrow> Load lib senv (max_of cfg) d = (Status_Ok, Some (reloaded (max_of cfg) ix), ap)"
    and g: "within (labels h) ix" "hx_max_elements ix = max_of cfg" "vectors ix = apply_ops h Map.empty"
    and le: "unat ap \<le> unat base'"
  shows "on_disk lib cfg h d base' [] ap"
  by (rule on_disk_saved[OF l g]) (use le in \<open>simp_all add: labels_def\<close>)

lemma ph_inv_snapshot:
  assumes inv: "ph_inv lib cfg s h" and ix: "ph_index s = Some ix" and fr: "fresh (se_now senv) (ph_dir s)"
    and nw: "\<forall>k. se_save senv \<noteq> SaveWrote k" and ld: "hl_load lib (max_of cfg) (hl_save lib ix) = Some (reloaded (max_of cfg) ix)"
    and sn: "Snapshot lib senv env s = (st, s')" and ok: "ok st \<or> ph_wal s' = ph_wal s"
  shows "ph_inv lib cfg s' h"
proof -
  obtain w base es sl where i: "ph_config s = cfg" "ph_ready s" "ph_committer s" "ph_wal s = Some w"
    "log_good cfg w base es" "on_disk lib cfg h (ph_dir s) base es sl"
    "graph_ok (labels h) (ix, ph_deleted_count s, ph_applied_lsn s)" "hx_max_elements ix = max_of cfg"
    "vectors ix = apply_ops h Map.empty" "unat sl \<le> unat (ph_applied_lsn s)" "unat (ph_applied_lsn s) \<le> unat base + length es"
    using inv ix unfolding ph_inv_def by auto
  have g: "within (labels h) ix" using i(7) by (simp add: graph_ok_def)
  let ?kc = "cf_snapshot_keep_count cfg" and ?ap = "ph_applied_lsn s"
  obtain sst ds where tr: "Save_trace lib senv (keep_count_of ?kc) (Some ix) ?ap (cf_dim cfg) (cf_M cfg) (ph_dir s) = (sst, ds)" by fastforce
  have sv: "Save lib senv (keep_count_of ?kc) (Some ix) ?ap (cf_dim cfg) (cf_M cfg) (ph_dir s) = (sst, last ds)"
    using tr by (simp add: Save_def)
  have nes: "ds \<noteq> []" using Save_trace_dirs[OF fr tr] by (cases "ok sst") auto
  from on_disk_save[OF i(6) g i(8,9,10,11) fr nw ld tr last_in_set[OF nes]] obtain sl' where
    od: "on_disk lib cfg h (last ds) base es sl'" "unat sl' \<le> unat ?ap" by blast
  have keep: "ph_inv lib cfg (s\<lparr>ph_dir := last ds, ph_wal := Some w\<rparr>) h"
    unfolding ph_inv_def using i od ix by (auto intro!: exI)
  show ?thesis
  proof (cases "ok sst")
    case False
    then have "s' = s\<lparr>ph_dir := last ds\<rparr>" using sn ix sv i(1) by (auto simp: Snapshot_def Let_def)
    then have "s' = s\<lparr>ph_dir := last ds, ph_wal := Some w\<rparr>" using i(4) by simp
    then show ?thesis using keep by simp
  next
    case True
    obtain t w' where tw: "wal_Truncate env w = (t, w')" by fastforce
    have s': "s' = s\<lparr>ph_dir := last ds, ph_wal := Some w'\<rparr>" "st = (if \<not> ok t then t else Status_Ok)"
      using sn ix sv i(1,4) True tw by (auto simp: Snapshot_def Let_def split: if_splits)
    show ?thesis
    proof (cases "ok t")
      case False
      then have "w' = w" using ok s' i(4) by auto
      then show ?thesis using keep s'(1) by simp
    next
      case okt: True
      have wh: "wal_holds w base es" "ww_dim w = cf_dim cfg" "length es \<le> unat (ww_entry_count w)"
        "unat base + unat (ww_entry_count w) < 2 ^ 64" using i(5) by (auto simp: log_good_def)
      note tk = wal_Truncate_ok[OF wh(1) tw okt]
      have cl: "unat (ww_committed_lsn w) = unat base + unat (ww_entry_count w)"
        using wh(1,4) by (simp add: wal_holds_def unat_word_ariths)
      have lg: "log_good cfg w' (ww_committed_lsn w) []" using tk wh cl by (simp add: log_good_def wal_exact_def)
      have k: "0 < keep_count_of ?kc" by (simp add: keep_count_of_def)
      have "on_disk lib cfg h (last ds) (ww_committed_lsn w) [] ?ap"
        by (rule on_disk_truncated[OF od(1) _ g i(8,9)]) (use Save_Load[OF fr k nw ld _ tr] True i(11) wh(3) cl in auto)
      then show ?thesis
        unfolding s'(1) ph_inv_def using i ix lg wh(3) cl by (auto intro!: exI)
    qed
  qed
qed

lemma ph_inv_crash_save:
  assumes inv: "ph_inv lib cfg s h" and w: "ph_wal s = Some w" and ix: "ph_index s = Some ix" and fr: "fresh (se_now senv) (ph_dir s)"
    and nw: "\<forall>k. se_save senv \<noteq> SaveWrote k" and ld: "hl_load lib (max_of cfg) (hl_save lib ix) = Some (reloaded (max_of cfg) ix)"
    and tr: "Save_trace lib senv (keep_count_of kc) (Some ix) (ph_applied_lsn s) dim M (ph_dir s) = (st, ds)"
    and d: "d \<in> set ds" and se: "se_readable senv' = (\<lambda>_. True)"
  shows "\<exists>s' f'. PHnsw_new lib senv' io_good io_good cfg d (ww_disk w) = Some (s', f') \<and> ph_inv lib cfg s' h"
proof -
  obtain base es sl where i: "log_good cfg w base es" "on_disk lib cfg h (ph_dir s) base es sl"
    "graph_ok (labels h) (ix, ph_deleted_count s, ph_applied_lsn s)" "hx_max_elements ix = max_of cfg"
    "vectors ix = apply_ops h Map.empty" "unat sl \<le> unat (ph_applied_lsn s)" "unat (ph_applied_lsn s) \<le> unat base + length es"
    using inv w ix unfolding ph_inv_def by auto
  have g: "within (labels h) ix" using i(3) by (simp add: graph_ok_def)
  from on_disk_save[OF i(2) g i(4-7) fr nw ld tr d] obtain sl' where od: "on_disk lib cfg h d base es sl'" by blast
  have wh: "wal_holds w base es" "ww_dim w = cf_dim cfg" "ww_disk w = ww_file w" using i(1) by (auto simp: log_good_def)
  have "w\<lparr>ww_disk := ww_file w\<rparr> = w" using wh(3) by (cases w) simp
  then have op: "WalWriter_Open io_good (ww_disk w) (cf_dim cfg) = (Inr w, ww_disk w)"
    using wh Open_wal_image[of "ww_dim w" "ww_entry_count w" "ww_committed_lsn w" "concat (map wal_frame es)"]
    by (cases w) (simp add: wal_holds_def wal_image_def)
  have rd: "wal_ReadAll io_good (cf_dim cfg) w = Some (Inr es, w)" by (rule wal_ReadAll_holds[OF wh(1)]) (simp_all add: wh(2))
  show ?thesis using restart[OF od op rd i(1) se] by blast
qed

lemma ph_inv_start:
  assumes "0 < cf_dim cfg" "PHnsw_new lib senv io_good io_good cfg [] [] = Some (s, f)"
  shows "ph_inv lib cfg s []"
proof -
  obtain w where w: "WalWriter_Open io_good [] (cf_dim cfg) = (Inr w, ww_file w)" "wal_exact w 0 []" "ww_dim w = cf_dim cfg"
    "ww_disk w = ww_file w" "ww_committed_lsn w = 0" using Open_fresh[OF assms(1)] by blast
  have h: "wal_holds w 0 []" "ww_entry_count w = 0" using w(2) by (auto simp: wal_exact_def)
  have r: "wal_ReadAll io_good (cf_dim cfg) w = Some (Inr [], w)" by (rule wal_ReadAll_holds[OF h(1)]) (simp_all add: w(3))
  have lg: "log_good cfg w 0 []" using h w by (simp add: log_good_def)
  have od: "on_disk lib cfg [] [] 0 [] 0"
    unfolding on_disk_def by (auto simp: labels_def within_def intro!: exI[of _ None]) (simp_all add: new_index_def)
  let ?ix = "new_index lib (max_of cfg)"
  have mo: "nat (cf_max_elements cfg) = max_of cfg" by (simp add: max_of_def)
  have "s = \<lparr>ph_config = cfg, ph_dir = [], ph_wal = Some w, ph_index = Some ?ix, ph_deleted_count = getDeletedCount ?ix,
     ph_applied_lsn = 0, ph_committer = True, ph_shutdown = False, ph_ready = True, ph_snapshot_requested = False,
     ph_snapshot_stop = False, ph_pending = None\<rparr>"
    using assms(2) w(1) r by (simp add: PHnsw_new_def RecoverInternal_def Let_def mo)
  moreover have "within (labels []) ?ix" "hx_max_elements ?ix = max_of cfg" by (auto simp: within_def labels_def) (simp_all add: new_index_def)
  ultimately show ?thesis
    unfolding ph_inv_def using lg od by (intro exI[of _ w] exI[of _ ?ix] exI[of _ 0] exI[of _ "[]"]) (simp add: graph_ok_def getDeletedCount_def)
qed

lemma ph_reach_inv: "ph_reach lib cfg s h \<Longrightarrow> ph_inv lib cfg s h"
proof (induction rule: ph_reach.induct)
  case (start senv s f)
  then show ?case by (rule ph_inv_start)
next
  case (flush s h w new env st s')
  show ?case by (rule ph_inv_flush[OF flush.IH flush.hyps(2-7)])
next
  case (snapshot s h ix senv env st s')
  show ?case by (rule ph_inv_snapshot[OF snapshot.IH snapshot.hyps(2-7)])
next
  case (crash_flush s h w new env st w' f es v es' v' senv s' f')
  from ph_inv_crash_flush[OF crash_flush.IH crash_flush.hyps(2-8,11)] crash_flush.hyps(9,10,12) show ?case by auto
next
  case (crash_save s h w ix senv st ds d senv' s' f')
  from ph_inv_crash_save[OF crash_save.IH crash_save.hyps(2-9)] crash_save.hyps(10) show ?case by auto
qed

section \<open>What the methods report\<close>

lemma Exists_vectors: "ph_index s = Some ix \<Longrightarrow> Exists b s \<longleftrightarrow> vectors ix b \<noteq> None"
  by (auto simp: Exists_def vectors_def isMarkedDeleted_def split: option.split)

lemma live_count: "hx_ok ix \<Longrightarrow> card (dom (vectors ix)) = length (hx_elems ix) - hx_num_deleted ix \<and> hx_num_deleted ix \<le> length (hx_elems ix)"
  using card_vectors[of ix] by linarith

lemma GetStats_vectors:
  assumes "ph_index s = Some ix" "graph_ok L (ix, ph_deleted_count s, lsn)"
  shows "is_vector_count (GetStats sz s) = card (dom (vectors ix))"
    "is_vector_count (GetStats sz s) + is_deleted_count (GetStats sz s) = getCurrentElementCount ix"
proof -
  have "hx_ok ix" and dc: "ph_deleted_count s = hx_num_deleted ix" using assms(2) by (auto simp: graph_ok_def within_def)
  from live_count[OF this(1)] show "is_vector_count (GetStats sz s) = card (dom (vectors ix))"
    "is_vector_count (GetStats sz s) + is_deleted_count (GetStats sz s) = getCurrentElementCount ix"
    using assms(1) dc by (auto simp: GetStats_def Let_def getCurrentElementCount_def)
qed

text \<open>The graph search is asked for no more than the live vectors.\<close>

lemma Search_asks_live:
  assumes "ph_index s = Some ix" "graph_ok L (ix, ph_deleted_count s, lsn)" "0 < k"
  shows "Search lib (Some q) k s =
    (let n = min (nat k) (card (dom (vectors ix))) in
     if n = 0 then [] else case hl_search lib ix q n of None \<Rightarrow> [] | Some r \<Rightarrow> rev (map (\<lambda>(d, l). (l, d)) r))"
proof -
  have "hx_ok ix" and dc: "ph_deleted_count s = hx_num_deleted ix" using assms(2) by (auto simp: graph_ok_def within_def)
  from live_count[OF this(1)] have live: "(if getCurrentElementCount ix > ph_deleted_count s
      then getCurrentElementCount ix - ph_deleted_count s else 0) = card (dom (vectors ix))"
    using dc by (simp add: getCurrentElementCount_def del: card_0_eq)
  have z: "getCurrentElementCount ix = 0 \<Longrightarrow> card (dom (vectors ix)) = 0" using live by (simp split: if_splits)
  show ?thesis
    using assms(1,3) z by (cases "getCurrentElementCount ix = 0") (simp_all add: Search_def SearchLocked_def live Let_def del: card_eq_0_iff min_0R min_0L)
qed

text \<open>What a reader sees of an index that holds a history.\<close>

definition shows_map :: "'g hnswlib \<Rightarrow> 'g PHnsw \<Rightarrow> (u64 \<rightharpoonup> f32 list) \<Rightarrow> bool" where
  "shows_map lib s m \<longleftrightarrow> ph_ready s \<and> (\<forall>b. Exists b s \<longleftrightarrow> m b \<noteq> None) \<and>
     (\<forall>sz. is_vector_count (GetStats sz s) = card (dom m)) \<and>
     (\<exists>ix. ph_index s = Some ix \<and> vectors ix = m \<and>
        (\<forall>q k. 0 < k \<longrightarrow> Search lib (Some q) k s =
           (let n = min (nat k) (card (dom m)) in
            if n = 0 then [] else case hl_search lib ix q n of None \<Rightarrow> [] | Some r \<Rightarrow> rev (map (\<lambda>(d, l). (l, d)) r))))"

lemma ph_inv_shows: "ph_inv lib cfg s h \<Longrightarrow> shows_map lib s (apply_ops h Map.empty)"
proof -
  assume "ph_inv lib cfg s h"
  then obtain ix lsn where i: "ph_ready s" "ph_index s = Some ix" "graph_ok (labels h) (ix, ph_deleted_count s, lsn)"
    "vectors ix = apply_ops h Map.empty" unfolding ph_inv_def by blast
  show ?thesis
    unfolding shows_map_def i(4)[symmetric]
    using i(1,2) Exists_vectors[OF i(2)] GetStats_vectors(1)[OF i(2,3)] Search_asks_live[OF i(2,3)] by blast
qed

text \<open>Single writes through the committer.\<close>

lemma ph_inv_ready: "ph_inv lib cfg s h \<Longrightarrow> ph_ready s \<and> ph_committer s"
  by (auto simp: ph_inv_def)

lemma AddPoint_flush:
  assumes "AddPoint lib env now (Some v) b s = (st, s')" "ok st"
  shows "sink_flush ph_write_batch (ph_sync lib) env (map wal_frame [insert_record b v now]) s = (st, s')"
  using assms by (auto simp: AddPoint_def submit_one_def committer_down_def SerializeInsert_frame NowMsOrGiven_def split: if_splits)

lemma MarkDelete_flush:
  assumes "MarkDelete lib env now b s = (st, s')" "ok st"
  shows "sink_flush ph_write_batch (ph_sync lib) env (map wal_frame [delete_record b now]) s = (st, s')"
  using assms by (auto simp: MarkDelete_def submit_one_def committer_down_def SerializeDelete_frame NowMsOrGiven_def split: if_splits)

section \<open>Properties\<close>

text \<open>
  C10: the index is the replay of its history.  In every state reached from an empty directory by acknowledged
  batches, snapshots, crashes in the middle of a batch or of a save, and restarts, the index is ready and shows
  exactly the map the acknowledged records build: \<open>Exists\<close> holds for the blocks whose last record is an
  insertion, \<open>GetStats\<close> counts them, and a search asks the graph for at most that many.  The runs are those of
  \<^const>\<open>ph_reach\<close>: batches stay within the capacity and the sequence numbers do not wrap, a crash in a batch leaves the old file
  or one whose header is not behind its records, a save writes the whole index file under a fresh name or throws, the library
  loads what it saved, the truncation after a snapshot succeeds or does not start, and restarts read the files without errors.
  (What happens otherwise: full_index_acks_insert, header_lag_loses_acked_write, short_snapshot_committed and
  torn_truncate_loses_acked_write.)
\<close>
theorem index_is_replay_of_history:
  assumes "ph_reach lib cfg s h"
  shows "shows_map lib s (apply_ops h Map.empty)"
  by (rule ph_inv_shows[OF ph_reach_inv[OF assms]])

text \<open>
  C11: a crash while a batch is being flushed loses at most a suffix of that batch.  If, in a run as in \<^const>\<open>ph_reach\<close>, the
  process dies after a batch within the capacity was handed to the kernel and before the sync, the disk kept the old file or the
  new header with some of the new bytes, and the restart reads the files without errors, then the restart succeeds, every record
  acknowledged before is there, and of the batch in flight a prefix.  (When the disk kept new records but the old header, a
  later write can be lost: header_lag_loses_acked_write.)
\<close>
theorem index_survives_crash:
  assumes "ph_reach lib cfg s h" "ph_wal s = Some w" "\<forall>e\<in>set new. wal_entry_ok (cf_dim cfg) e"
    and "card (labels (h @ new)) \<le> max_of cfg" "unat (committed_lsn w) + length new < 2 ^ 64"
    and "wal_WriteBatch env (map wal_frame new) w = (st, w')" "ok st" "header_keeps_up w' f"
    and "se_readable senv = (\<lambda>_. True)"
  shows "\<exists>m s' f'. m \<le> length new \<and> PHnsw_new lib senv io_good io_good cfg (ph_dir s) f = Some (s', f') \<and>
    shows_map lib s' (apply_ops (h @ take m new) Map.empty)"
  using ph_inv_crash_flush[OF ph_reach_inv[OF assms(1)] assms(2-9)] ph_inv_shows by blast

text \<open>
  Acknowledged writes take effect.  On a reachable index, an \<open>AddPoint\<close> that returns \<open>Ok\<close> leaves the block
  present with its new vector and every other block as it was; a \<open>MarkDelete\<close> that returns \<open>Ok\<close> leaves it absent.
\<close>
theorem acked_write_visible:
  assumes "ph_reach lib cfg s h" "ph_wal s = Some w" "unat (committed_lsn w) + 1 < 2 ^ 64"
    and "card (insert b (labels h)) \<le> max_of cfg" "length v = nat (cf_dim cfg)" "4 * nat (cf_dim cfg) + 21 < 2 ^ 32"
    and "AddPoint lib env now (Some v) b s = (st, s1)" "ok st" "MarkDelete lib env' now' b s = (st', s2)" "ok st'"
  shows "shows_map lib s1 ((apply_ops h Map.empty)(b \<mapsto> v)) \<and> shows_map lib s2 ((apply_ops h Map.empty)(b := None))"
proof -
  note inv = ph_reach_inv[OF assms(1)]
  have ins: "\<forall>e\<in>set [insert_record b v now]. wal_entry_ok (cf_dim cfg) e"
    and del: "\<forall>e\<in>set [delete_record b now']. wal_entry_ok (cf_dim cfg) e"
    using assms(5,6) by (auto simp: wal_entry_ok_def insert_record_def delete_record_def)
  have c: "card (labels (h @ [insert_record b v now])) \<le> max_of cfg" "card (labels (h @ [delete_record b now'])) \<le> max_of cfg"
    using assms(4) by (simp_all add: labels_def insert_record_def delete_record_def)
  have "ph_inv lib cfg s1 (h @ [insert_record b v now])"
    by (rule ph_inv_flush[OF inv assms(2) ins c(1) _ AddPoint_flush[OF assms(7,8)] assms(8)]) (use assms(3) in simp)
  moreover have "ph_inv lib cfg s2 (h @ [delete_record b now'])"
    by (rule ph_inv_flush[OF inv assms(2) del c(2) _ MarkDelete_flush[OF assms(9,10)] assms(10)]) (use assms(3) in simp)
  ultimately show ?thesis
    by (auto dest!: ph_inv_shows simp: apply_ops_append apply_op_def insert_record_def delete_record_def)
qed

text \<open>An index of dimension one on an empty directory, and what writing on a healthy disk does.\<close>

definition sample_cfg :: PhnswConfig where
  "sample_cfg = PhnswConfig_default\<lparr>cf_dim := 1, cf_max_elements := 2\<rparr>"

lemma sample_cfg_sel [simp]: "cf_dim sample_cfg = 1" "max_of sample_cfg = 2"
  by (simp_all add: sample_cfg_def max_of_def)

lemma start_exact:
  assumes "0 < cf_dim cfg"
  shows "\<exists>s f w. PHnsw_new lib senv io_good io_good cfg [] [] = Some (s, f) \<and> ph_reach lib cfg s [] \<and> ph_wal s = Some w \<and>
    wal_exact w 0 [] \<and> ww_dim w = cf_dim cfg \<and> ww_disk w = ww_file w \<and> \<not> ph_shutdown s \<and> ph_dir s = []"
proof -
  obtain w where w: "WalWriter_Open io_good [] (cf_dim cfg) = (Inr w, ww_file w)" "wal_exact w 0 []" "ww_dim w = cf_dim cfg"
    "ww_disk w = ww_file w" using Open_fresh[OF assms] by blast
  have r: "wal_ReadAll io_good (cf_dim cfg) w = Some (Inr [], w)"
    by (rule wal_ReadAll_holds[of w 0]) (use w in \<open>simp_all add: wal_exact_def\<close>)
  obtain s where n: "PHnsw_new lib senv io_good io_good cfg [] [] = Some (s, ww_file w)" "ph_wal s = Some w" "\<not> ph_shutdown s" "ph_dir s = []"
    using w(1) r by (auto simp: PHnsw_new_def RecoverInternal_def Let_def)
  then show ?thesis using ph_reach.start[OF assms n(1)] w(2-4) by auto
qed

lemma start_index:
  assumes "PHnsw_new lib senv io_good io_good cfg [] [] = Some (s, f)" "0 < cf_dim cfg"
  shows "ph_config s = cfg" "ph_index s = Some (new_index lib (max_of cfg))"
    "ph_deleted_count s = getDeletedCount (new_index lib (max_of cfg))" "ph_applied_lsn s = 0"
proof -
  obtain w where w: "WalWriter_Open io_good [] (cf_dim cfg) = (Inr w, ww_file w)" "wal_exact w 0 []" "ww_dim w = cf_dim cfg"
    using Open_fresh[OF assms(2)] by blast
  have r: "wal_ReadAll io_good (cf_dim cfg) w = Some (Inr [], w)"
    by (rule wal_ReadAll_holds[of w 0]) (use w in \<open>simp_all add: wal_exact_def\<close>)
  show "ph_config s = cfg" "ph_index s = Some (new_index lib (max_of cfg))"
    "ph_deleted_count s = getDeletedCount (new_index lib (max_of cfg))" "ph_applied_lsn s = 0"
    using assms(1) w(1) r by (auto simp: PHnsw_new_def RecoverInternal_def Let_def max_of_def)
qed

lemma start_ok:
  assumes "0 < cf_dim cfg"
  shows "\<exists>s f w. PHnsw_new lib senv io_good io_good cfg [] [] = Some (s, f) \<and> ph_reach lib cfg s [] \<and> ph_wal s = Some w \<and>
    committed_lsn w = 0 \<and> \<not> ph_shutdown s \<and> ph_dir s = []"
  using start_exact[OF assms, of lib senv] by (auto simp: committed_lsn_def wal_exact_def wal_holds_def)

lemma good_flush:
  assumes "ph_wal s = Some w" "ph_index s = Some ix" "\<forall>e\<in>set new. wal_entry_ok (cf_dim (ph_config s)) e"
  shows "\<exists>s'. sink_flush ph_write_batch (ph_sync lib) io_good (map wal_frame new) s = (Status_Ok, s')"
proof (cases "new = []")
  case True
  then show ?thesis using flush_empty[of lib io_good s] by simp
next
  case False
  obtain w1 where w1: "wal_WriteBatch io_good (map wal_frame new) w = (Status_Ok, w1)" using wal_WriteBatch_good by blast
  obtain f fs where fr: "map wal_frame new = f # fs" using False by (cases new) auto
  obtain st g where "apply_frames lib (cf_dim (ph_config s)) (map wal_frame new) (ix, ph_deleted_count s, ph_applied_lsn s) = Some (Status_Ok, g)"
    using apply_frames_written[OF assms(3)] by blast
  then show ?thesis
    using assms(1,2) w1 unfolding fr
    by (cases g) (simp add: sink_flush_def ph_write_batch_def ApplySink_WriteBatch_def ph_sync_def ApplySink_Sync_def Let_def del: apply_frames.simps)
qed

lemma good_write:
  assumes "ph_inv lib cfg s h" "\<not> ph_shutdown s" "length v = nat (cf_dim cfg)" "4 * nat (cf_dim cfg) + 21 < 2 ^ 32"
  shows "\<exists>s'. AddPoint lib io_good now (Some v) b s = (Status_Ok, s')" "\<exists>s'. MarkDelete lib io_good now b s = (Status_Ok, s')"
proof -
  obtain w ix where s: "ph_wal s = Some w" "ph_index s = Some ix" "ph_config s = cfg" "ph_ready s" "ph_committer s"
    using assms(1) unfolding ph_inv_def by blast
  have "\<forall>e\<in>set [insert_record b v now]. wal_entry_ok (cf_dim (ph_config s)) e"
    and "\<forall>e\<in>set [delete_record b now]. wal_entry_ok (cf_dim (ph_config s)) e"
    using assms(3,4) s(3) by (auto simp: wal_entry_ok_def insert_record_def delete_record_def)
  from good_flush[OF s(1,2) this(1), of lib] good_flush[OF s(1,2) this(2), of lib]
  show "\<exists>s'. AddPoint lib io_good now (Some v) b s = (Status_Ok, s')" "\<exists>s'. MarkDelete lib io_good now b s = (Status_Ok, s')"
    using s(4,5) assms(2)
    by (simp_all add: AddPoint_def MarkDelete_def submit_one_def SerializeInsert_frame SerializeDelete_frame NowMsOrGiven_def)
qed

theorem index_is_replay_of_history_witness:
  "\<exists>s. ph_reach sample_lib sample_cfg s [insert_record 7 [0x3F800000] 5] \<and>
     shows_map sample_lib s [7 \<mapsto> [0x3F800000]]"
proof -
  let ?e = "insert_record 7 [0x3F800000] 5"
  obtain s f w where s: "ph_reach sample_lib sample_cfg s []" "ph_wal s = Some w" "committed_lsn w = 0" "\<not> ph_shutdown s"
    using start_ok[of sample_cfg sample_lib "snap_good 0"] by auto
  obtain s' where a: "AddPoint sample_lib io_good 5 (Some [0x3F800000]) 7 s = (Status_Ok, s')"
    using good_write(1)[OF ph_reach_inv[OF s(1)] s(4), of "[0x3F800000]"] by fastforce
  have r: "ph_reach sample_lib sample_cfg s' ([] @ [?e])"
    by (rule ph_reach.flush[OF s(1,2) _ _ _ AddPoint_flush[OF a]])
      (use s(3) in \<open>simp_all add: wal_entry_ok_def insert_record_def labels_def\<close>)
  from index_is_replay_of_history[OF r] r show ?thesis by (auto simp: apply_op_def insert_record_def)
qed

theorem index_survives_crash_witness:
  "\<exists>s w w1 s' f'. ph_reach sample_lib sample_cfg s [] \<and> ph_wal s = Some w \<and>
     wal_WriteBatch io_good [wal_frame (insert_record 7 [0] 5)] w = (Status_Ok, w1) \<and>
     PHnsw_new sample_lib (snap_good 0) io_good io_good sample_cfg (ph_dir s) (ww_file w1) = Some (s', f') \<and> ph_ready s'"
proof -
  let ?e = "insert_record 7 [0] 5"
  obtain s f w where s: "ph_reach sample_lib sample_cfg s []" "ph_wal s = Some w" "committed_lsn w = 0"
    using start_ok[of sample_cfg sample_lib "snap_good 0"] by auto
  obtain w1 where w1: "wal_WriteBatch io_good (map wal_frame [?e]) w = (Status_Ok, w1)" using wal_WriteBatch_good by blast
  obtain base es where lg: "log_good sample_cfg w base es" using ph_reach_inv[OF s(1)] s(2) unfolding ph_inv_def by auto
  have new: "\<forall>e\<in>set [?e]. wal_entry_ok (cf_dim sample_cfg) e" by (simp add: wal_entry_ok_def insert_record_def)
  have "header_keeps_up w1 (ww_file w1)"
    unfolding header_keeps_up_def
    using log_good_extend(3)[OF lg new w1] wal_WriteBatch_ok[OF w1] lg s(3)
    by (intro disjI2 exI[of _ "length (ww_file w1)"]) (auto simp: log_good_def dest: wal_holds_length)
  from index_survives_crash[OF s(1,2) new _ _ w1 _ this, of "snap_good 0"] s w1 show ?thesis
    by (auto simp: labels_def snap_good_def shows_map_def)
qed

theorem acked_write_visible_witness:
  "\<exists>s s1 s2. ph_reach sample_lib sample_cfg s [] \<and> AddPoint sample_lib io_good 5 (Some [0]) 7 s = (Status_Ok, s1) \<and> Exists 7 s1 \<and>
     MarkDelete sample_lib io_good 5 7 s = (Status_Ok, s2) \<and> \<not> Exists 7 s2"
proof -
  obtain s f w where s: "ph_reach sample_lib sample_cfg s []" "ph_wal s = Some w" "committed_lsn w = 0" "\<not> ph_shutdown s"
    using start_ok[of sample_cfg sample_lib "snap_good 0"] by auto
  obtain s1 s2 where w: "AddPoint sample_lib io_good 5 (Some [0]) 7 s = (Status_Ok, s1)" "MarkDelete sample_lib io_good 5 7 s = (Status_Ok, s2)"
    using good_write[OF ph_reach_inv[OF s(1)] s(4), of "[0]"] by fastforce
  from acked_write_visible[OF s(1,2) _ _ _ _ w(1) _ w(2)] s w show ?thesis by (auto simp: labels_def shows_map_def)
qed

end
