(* ===== verification/Phnsw_Faults.thy ===== *)
theory Phnsw_Faults
  imports Phnsw_Recovery
begin

text \<open>
  Where the vector index (\<^verbatim>\<open>src/store/phnsw/phnsw.cpp\<close>, \<^verbatim>\<open>src/store/phnsw/wal_writer.cpp\<close>) acknowledges a write it does
  not keep: a full index, a log header that lags behind the records after a crash, and a truncation that
  was cut short.  These are the cases the life cycle of \<open>Phnsw_Recovery\<close> leaves out.
\<close>

section \<open>A full index\<close>

lemma ApplyEntry_full:
  assumes "hx_lookup ix b = None" "hx_max_elements ix \<le> getCurrentElementCount ix"
  shows "ApplyEntryLocked lib (insert_record b v t) (ix, dc, lsn) = (ix, dc, lsn + 1)"
  using assms by (simp add: ApplyEntryLocked_def insert_record_def ApplyInsertLocked_def IsLabelMarkedDeletedLocked_def addPoint_def)

text \<open>
  An insertion into a full index is acknowledged and dropped.  When the graph holds as many elements as it
  may, \<open>addPoint\<close> throws, \<open>ApplyEntryLocked\<close> swallows the exception, and \<open>AddPoint\<close> returns \<open>Ok\<close> for a block
  that is not in the index; the error code for a full index is never used.
\<close>
theorem full_index_acks_insert:
  assumes "ph_ready s" "ph_committer s" "\<not> ph_shutdown s" "ph_wal s = Some w" "ph_index s = Some ix"
    and "hx_lookup ix b = None" "hx_max_elements ix \<le> getCurrentElementCount ix"
    and "length v = nat (cf_dim (ph_config s))" "4 * length v + 21 < 2 ^ 32"
  shows "\<exists>s'. AddPoint lib io_good now (Some v) b s = (Status_Ok, s') \<and> \<not> Exists b s' \<and> ph_index s' = Some ix"
proof -
  let ?e = "insert_record b v now"
  have ok: "\<forall>e\<in>set [?e]. wal_entry_ok (cf_dim (ph_config s)) e"
    using assms(8,9) by (simp add: wal_entry_ok_def insert_record_def)
  from good_flush[OF assms(4,5) ok, of lib] obtain s' where
    fl: "sink_flush ph_write_batch (ph_sync lib) io_good (map wal_frame [?e]) s = (Status_Ok, s')" by blast
  have "ph_index s' = Some ix"
    using flush_nonempty[OF fl _ _ assms(4,5)] unfolding apply_frames_written[OF ok] by (auto simp: ApplyEntry_full[OF assms(6,7)])
  moreover from this have "\<not> Exists b s'" using assms(6) by (simp add: Exists_def)
  moreover have "AddPoint lib io_good now (Some v) b s = (Status_Ok, s')"
    using fl assms(1-3) by (simp add: AddPoint_def submit_one_def SerializeInsert_frame NowMsOrGiven_def)
  ultimately show ?thesis by blast
qed

theorem full_index_acks_insert_witness:
  "\<exists>s s'. ph_reach sample_lib (sample_cfg\<lparr>cf_max_elements := 0\<rparr>) s [] \<and>
     AddPoint sample_lib io_good 5 (Some [0]) 7 s = (Status_Ok, s') \<and> \<not> Exists 7 s'"
proof -
  let ?cfg = "sample_cfg\<lparr>cf_max_elements := 0\<rparr>"
  obtain s f w where s: "ph_reach sample_lib ?cfg s []" "ph_wal s = Some w" "\<not> ph_shutdown s"
    using start_ok[of ?cfg sample_lib "snap_good 0"] by auto
  obtain ix where i: "ph_ready s" "ph_committer s" "ph_config s = ?cfg" "ph_index s = Some ix" "hx_max_elements ix = 0" "hx_ok ix"
    "dom (hx_lookup ix) \<subseteq> labels []"
    using ph_reach_inv[OF s(1)] by (auto simp: ph_inv_def graph_ok_def within_def max_of_def)
  have "hx_lookup ix 7 = None" using i(7) by (auto simp: labels_def)
  from full_index_acks_insert[OF i(1,2) s(3,2) i(4) this, of "[0]" sample_lib 5] i(3,5) s(1) show ?thesis by auto
qed

section \<open>Sequence numbers behind the snapshot\<close>

text \<open>A record whose sequence number the newest snapshot already covers is applied but not recovered.\<close>

lemma behind_snapshot_lost:
  assumes s: "ph_config s = cfg" "ph_ready s" "ph_committer s" "\<not> ph_shutdown s" "ph_wal s = Some w" "ph_index s = Some ix"
    and w: "wal_holds w base []" "ww_dim w = cf_dim cfg" "unat base < unat sl" and g: "graph_ok L (ix, ph_deleted_count s, lsn)" "b \<in> L"
    and ld: "Load lib senv (max_of cfg) (ph_dir s) = (Status_Ok, Some ixL, sl)" "within L ixL"
    and v: "length v = nat (cf_dim cfg)" "4 * nat (cf_dim cfg) + 21 < 2 ^ 32"
  shows "\<exists>s1 w1 s2 f. AddPoint lib io_good now (Some v) b s = (Status_Ok, s1) \<and> Exists b s1 \<and> ph_wal s1 = Some w1 \<and>
    PHnsw_new lib senv io_good io_good cfg (ph_dir s1) (ww_disk w1) = Some (s2, f) \<and> ph_ready s2 \<and>
    (Exists b s2 \<longleftrightarrow> vectors ixL b \<noteq> None)"
proof -
  let ?e = "insert_record b v now"
  have ok: "\<forall>e\<in>set [?e]. wal_entry_ok (cf_dim (ph_config s)) e" "\<forall>e\<in>set [?e]. wal_entry_ok (ww_dim w) e"
    using v s(1) w(2) by (simp_all add: wal_entry_ok_def insert_record_def)
  have lb: "we_block_id ` set [?e] \<subseteq> L" "labels [?e] \<subseteq> L" using g(2) by (simp_all add: labels_def insert_record_def)
  from good_flush[OF s(5,6) ok(1), of lib] obtain s1 where
    fl: "sink_flush ph_write_batch (ph_sync lib) io_good (map wal_frame [?e]) s = (Status_Ok, s1)" by blast
  have a: "AddPoint lib io_good now (Some v) b s = (Status_Ok, s1)"
    using fl s(2-4) by (simp add: AddPoint_def submit_one_def SerializeInsert_frame NowMsOrGiven_def)
  from flush_nonempty[OF fl _ _ s(5,6)] obtain wa st wb stb ix' dc' lsn' where f: "wal_WriteBatch io_good (map wal_frame [?e]) w = (st, wa)" "ok st"
    "wal_Sync io_good wa = (stb, wb)" "ok stb"
    "apply_frames lib (cf_dim (ph_config s)) (map wal_frame [?e]) (ix, ph_deleted_count s, ph_applied_lsn s) = Some (Status_Ok, ix', dc', lsn')"
    "s1 = MaybeRequestSnapshotLocked io_good (s\<lparr>ph_pending := None, ph_wal := Some wb, ph_index := Some ix',
            ph_deleted_count := dc', ph_applied_lsn := lsn'\<rparr>)" by auto
  have g': "graph_ok L (ix, ph_deleted_count s, ph_applied_lsn s)" using g(1) by (simp add: graph_ok_def)
  have "vectors ix' = apply_ops [?e] (vectors ix)"
    using apply_all_refines[OF g' lb(1), of lib] f(5) unfolding apply_frames_written[OF ok(1)] by auto
  then have ex: "Exists b s1" unfolding f(6) by (subst Exists_vectors[of _ ix']) (simp_all add: apply_op_def insert_record_def)
  note wb = wal_WriteBatch_holds[OF w(1) ok(2) f(1,2)]
  have wbe: "wb = wa\<lparr>ww_disk := ww_file wa\<rparr>" using f(3) by simp
  have wh: "wal_holds wb base [?e]" "ww_dim wb = cf_dim cfg" "ww_disk wb = ww_file wb" using wb w(2) by (simp_all add: wbe wal_holds_def)
  have "wb\<lparr>ww_disk := ww_file wb\<rparr> = wb" by (simp add: wbe)
  then have op: "WalWriter_Open io_good (ww_disk wb) (cf_dim cfg) = (Inr wb, ww_disk wb)"
    using wh Open_wal_image[of "ww_dim wb" "ww_entry_count wb" "ww_committed_lsn wb" "concat (map wal_frame [?e])"]
    by (cases wb) (simp add: wal_holds_def wal_image_def)
  have rd: "wal_ReadAll io_good (cf_dim cfg) wb = Some (Inr [?e], wb)" by (rule wal_ReadAll_holds[OF wh(1)]) (simp_all add: wh(2))
  have "unat sl < 2 ^ LENGTH(64)" by (rule unsigned_less)
  then have bd: "unat base + length [?e] < 2 ^ 64" using w(3) by simp
  have "drop (unat sl - unat base) [?e] = []" using w(3) by simp
  with restart_state[OF ld(1) refl _ op rd wh(1) bd lb(2)] ld(2) obtain s2 ix2 where
    "PHnsw_new lib senv io_good io_good cfg (ph_dir s) (ww_disk wb) = Some (s2, ww_file wb)" "ph_ready s2" "ph_index s2 = Some ix2"
    "vectors ix2 = vectors ixL" by auto
  moreover have "ph_dir s1 = ph_dir s" "ph_wal s1 = Some wb" by (simp_all add: f(6))
  ultimately show ?thesis using a ex Exists_vectors[of s2 ix2 b] by auto
qed

text \<open>A snapshot on a healthy disk: the directory loads it, the log is empty and keeps its committed number.\<close>

lemma Save_good_Load:
  assumes "fresh t d" "0 < keep" "hl_load lib mx (hl_save lib ix) = Some ix'" "se_readable senv = (\<lambda>_. True)"
  shows "\<exists>d'. Save lib (snap_good t) keep (Some ix) lsn dim M d = (Status_Ok, d') \<and> Load lib senv mx d' = (Status_Ok, Some ix', lsn)"
proof -
  obtain st ds where tr: "Save_trace lib (snap_good t) keep (Some ix) lsn dim M d = (st, ds)" by fastforce
  have st: "st = Status_Ok"
    using Save_trace_good[OF assms(1), of SaveAll lib keep ix lsn dim M] tr by (simp add: snap_good_def)
  have e: "fresh (se_now (snap_good t)) d" "\<forall>k. se_save (snap_good t) \<noteq> SaveWrote k" using assms(1) by (simp_all add: snap_good_def)
  show ?thesis using Save_Load[OF e(1) assms(2) e(2) assms(3,4) tr] st by auto
qed

lemma Snapshot_good:
  assumes "ph_index s = Some ix" "ph_config s = cfg" "fresh t (ph_dir s)" "ph_wal s = Some w" "wal_holds w base es"
    and "hl_load lib (max_of cfg) (hl_save lib ix) = Some ix'" "se_readable senv = (\<lambda>_. True)"
  shows "\<exists>d w'. Snapshot lib (snap_good t) io_good s = (Status_Ok, s\<lparr>ph_dir := d, ph_wal := Some w'\<rparr>) \<and>
    wal_holds w' (ww_committed_lsn w) [] \<and> ww_dim w' = ww_dim w \<and>
    Load lib senv (max_of cfg) d = (Status_Ok, Some ix', ph_applied_lsn s)"
proof -
  have k: "0 < keep_count_of (cf_snapshot_keep_count cfg)" by (simp add: keep_count_of_def)
  from Save_good_Load[OF assms(3) k assms(6,7)] obtain d where
    d: "Save lib (snap_good t) (keep_count_of (cf_snapshot_keep_count cfg)) (Some ix) (ph_applied_lsn s) (cf_dim cfg) (cf_M cfg) (ph_dir s) = (Status_Ok, d)"
    "Load lib senv (max_of cfg) d = (Status_Ok, Some ix', ph_applied_lsn s)" by blast
  obtain w' where w': "wal_Truncate io_good w = (Status_Ok, w')" using wal_Truncate_good by blast
  note t = wal_Truncate_ok[OF assms(5) w']
  show ?thesis
    using assms(1,2,4) d w' t by (intro exI[of _ d] exI[of _ w']) (simp add: Snapshot_def Let_def wal_exact_def)
qed

text \<open>A library that stores and loads the index holding block 7.\<close>

definition one_index :: "unit Hnsw" where
  "one_index = \<lparr>hx_elems = [\<lparr>el_label = 7, el_vec = [0], el_deleted = False\<rparr>], hx_lookup = [7 \<mapsto> 0], hx_num_deleted = 0,
     hx_max_elements = 2, hx_graph = ()\<rparr>"

definition one_lib :: "unit hnswlib" where
  "one_lib = sample_lib\<lparr>hl_load := (\<lambda>n bs. if bs = [1, 2, 3] then Some (reloaded n one_index) else None)\<rparr>"

abbreviation "one_entry \<equiv> insert_record 7 [0] 5"

lemma one_lib_load: "hl_load one_lib n (hl_save one_lib ix) = Some (reloaded n one_index)"
  by (simp add: one_lib_def sample_lib_def)

lemma one_applied: "ApplyEntryLocked one_lib one_entry (new_index one_lib 2, 0, l) = (one_index, 0, l + 1)"
  by (simp add: ApplyEntryLocked_def ApplyInsertLocked_def IsLabelMarkedDeletedLocked_def addPoint_def new_index_def
      insert_record_def getCurrentElementCount_def one_index_def Let_def)

lemma one_index_within: "within {7, 8} one_index" "vectors one_index = [7 \<mapsto> [0]]"
proof -
  show "within {7, 8} one_index" by (auto simp: within_def hx_ok_def one_index_def split: if_splits)
  show "vectors one_index = [7 \<mapsto> [0]]" by (rule ext) (simp add: vectors_def one_index_def)
qed

lemma one_reloaded: "within {7, 8} (reloaded 2 one_index)" "vectors (reloaded 2 one_index) = [7 \<mapsto> [0]]"
  using within_reloaded(1)[OF one_index_within(1), of 2] reloaded_ok(2)[of one_index 2] one_index_within
  by (simp_all add: within_def)

text \<open>
  A header that lags behind the records loses a later acknowledged write.  \<open>WriteBatch\<close> writes the records
  and then the header, with one sync for both; if a crash keeps the new records and the old header, the restart
  recovers the records but leaves the committed number behind the applied one.  The next snapshot carries the
  applied number and the truncated log restarts at the committed one, so that the next write, although
  acknowledged and synced, gets a number the snapshot covers, and the restart after it does not replay it.
\<close>
theorem header_lag_loses_acked_write:
  "\<exists>s w w1 f s1 f1 s2 s3 w3 s4 f4.
     ph_reach one_lib sample_cfg s [] \<and> ph_wal s = Some w \<and>
     wal_WriteBatch io_good [wal_frame one_entry] w = (Status_Ok, w1) \<and> wal_crash_image w1 f \<and>
     PHnsw_new one_lib (snap_good 0) io_good io_good sample_cfg (ph_dir s) f = Some (s1, f1) \<and>
     Snapshot one_lib (snap_good 9) io_good s1 = (Status_Ok, s2) \<and>
     AddPoint one_lib io_good 6 (Some [0]) 8 s2 = (Status_Ok, s3) \<and> Exists 8 s3 \<and> ph_wal s3 = Some w3 \<and>
     PHnsw_new one_lib (snap_good 0) io_good io_good sample_cfg (ph_dir s3) (ww_disk w3) = Some (s4, f4) \<and>
     ph_ready s4 \<and> \<not> Exists 8 s4"
proof -
  have cd: "0 < cf_dim sample_cfg" by simp
  obtain s w where s: "ph_reach one_lib sample_cfg s []" "ph_wal s = Some w" "ph_dir s = []" "wal_exact w 0 []" "ww_dim w = 1"
    "ww_disk w = ww_file w"
    using start_exact[OF cd, of one_lib "snap_good 0"] by auto
  obtain w1 where w1: "wal_WriteBatch io_good (map wal_frame [one_entry]) w = (Status_Ok, w1)" using wal_WriteBatch_good by blast
  have new: "\<forall>e\<in>set [one_entry]. wal_entry_ok (ww_dim w) e" by (simp add: wal_entry_ok_def insert_record_def s(5))
  have wh: "wal_holds w 0 []" "ww_entry_count w = 0" "ww_committed_lsn w = 0" using s(4) by (auto simp: wal_exact_def wal_holds_def)
  note wb = wal_WriteBatch_holds[OF wh(1) new w1]
  let ?f = "wal_MakeHeader 1 0 0 @ wal_frame one_entry"
  let ?r = "\<lparr>ww_file = ?f, ww_dim = 1, ww_entry_count = 0, ww_committed_lsn = 0, ww_header_trusted = True, ww_disk = ?f\<rparr>"
  have fl: "ww_disk w1 = wal_MakeHeader 1 0 0" "drop 32 (ww_file w1) = wal_frame one_entry"
    using wb wh s(5,6) by (simp_all add: wal_holds_def wal_image_def)
  have cr: "wal_crash_image w1 ?f"
    unfolding wal_crash_image_def fl by (intro exI[of _ "wal_MakeHeader 1 0 0"] exI[of _ "length (wal_frame one_entry)"]) simp
  have rh: "wal_holds ?r 0 [one_entry]" using new s(5) by (simp add: wal_holds_def wal_image_def)
  have op: "WalWriter_Open io_good ?f (cf_dim sample_cfg) = (Inr ?r, ?f)" using Open_wal_image[of 1 0 0 "wal_frame one_entry"] by simp
  have rd: "wal_ReadAll io_good (cf_dim sample_cfg) ?r = Some (Inr [one_entry], ?r)" by (rule wal_ReadAll_holds[OF rh]) simp_all
  have wn: "within {7, 8} (new_index one_lib 2)" by (rule within_new) simp_all
  have lb: "labels [one_entry] \<subseteq> {7, 8}" by (simp add: labels_def insert_record_def)
  from restart_state[OF Load_Nil[of one_lib "snap_good 0" "max_of sample_cfg"] refl _ op rd rh _ lb] wn obtain s1 ix1 where
    s1: "PHnsw_new one_lib (snap_good 0) io_good io_good sample_cfg [] ?f = Some (s1, ?f)" "ph_config s1 = sample_cfg" "ph_dir s1 = []"
    "ph_ready s1" "ph_committer s1" "\<not> ph_shutdown s1" "ph_wal s1 = Some ?r" "ph_index s1 = Some ix1"
    "replay one_lib 0 0 0 [one_entry] (new_index one_lib 2, getDeletedCount (new_index one_lib 2), 0) = (ix1, ph_deleted_count s1, ph_applied_lsn s1)"
    by auto
  have z: "getDeletedCount (new_index one_lib 2) = 0" by (simp add: getDeletedCount_def new_index_def)
  have i1: "ix1 = one_index" "ph_deleted_count s1 = 0" "ph_applied_lsn s1 = 1"
    using s1(9) by (simp_all add: one_applied z)
  have fr: "fresh 9 (ph_dir s1)" by (simp add: s1(3))
  have re: "se_readable (snap_good 0) = (\<lambda>_. True)" by (simp add: snap_good_def)
  from Snapshot_good[OF s1(8,2) fr s1(7) rh one_lib_load re] obtain d w2 where
    s2: "Snapshot one_lib (snap_good 9) io_good s1 = (Status_Ok, s1\<lparr>ph_dir := d, ph_wal := Some w2\<rparr>)" "wal_holds w2 0 []" "ww_dim w2 = 1"
    "Load one_lib (snap_good 0) 2 d = (Status_Ok, Some (reloaded 2 one_index), 1)" using i1(3) by auto
  let ?s2 = "s1\<lparr>ph_dir := d, ph_wal := Some w2\<rparr>"
  have g: "graph_ok {7, 8} (one_index, ph_deleted_count ?s2, 1)" using one_index_within(1) i1(2) by (simp add: graph_ok_def one_index_def)
  have l: "\<exists>s3 w3 s4 f4. AddPoint one_lib io_good 6 (Some [0]) 8 ?s2 = (Status_Ok, s3) \<and> Exists 8 s3 \<and> ph_wal s3 = Some w3 \<and>
      PHnsw_new one_lib (snap_good 0) io_good io_good sample_cfg (ph_dir s3) (ww_disk w3) = Some (s4, f4) \<and> ph_ready s4 \<and>
      (Exists 8 s4 \<longleftrightarrow> vectors (reloaded 2 one_index) 8 \<noteq> None)"
    by (rule behind_snapshot_lost[where w = w2 and ix = one_index and base = 0 and sl = 1 and L = "{7, 8}" and lsn = 1])
      (use s1 s2 i1 g one_reloaded in simp_all)
  have new1: "wal_WriteBatch io_good [wal_frame one_entry] w = (Status_Ok, w1)" using w1 by simp
  have "\<not> vectors (reloaded 2 one_index) 8 \<noteq> None" by (simp add: one_reloaded(2))
  with l show ?thesis using s(1,2) new1 cr s1(1)[folded s(3)] s2(1) by blast
qed

text \<open>An environment in which the first write of an operation fails before any byte is written.\<close>

definition no_write :: io_env where
  "no_write = io_good\<lparr>io_pw := (\<lambda>_. PwErr 0 ''EIO'')\<rparr>"

lemma Truncate_no_write:
  assumes "wal_holds w base es"
  shows "\<exists>st w'. wal_Truncate no_write w = (st, w') \<and> \<not> ok st \<and>
    ww_file w' = wal_MakeHeader (ww_dim w) (ww_entry_count w) (ww_committed_lsn w)"
proof -
  have f: "take 32 (ww_file w) = wal_MakeHeader (ww_dim w) (ww_entry_count w) (ww_committed_lsn w)" "32 \<le> length (ww_file w)"
    using assms wal_holds_length[OF assms] by (simp_all add: wal_holds_def)
  have ne: "wal_MakeHeader d c l \<noteq> []" for d c l by (metis length_wal_MakeHeader list.size(3) zero_neq_numeral)
  show ?thesis using f by (simp add: wal_Truncate_def no_write_def RewriteHeaderLocked_def pwrite_all_def Let_def ne)
qed

text \<open>
  A truncation that stops between the file and the header loses a later acknowledged write.  \<open>Truncate\<close> cuts
  the file and then rewrites the header, in two writes; if only the first one happens (a crash or an I/O error),
  the header still counts the records that are gone.  The restart takes the number in front of them as the base,
  so that the next write, although acknowledged and synced, gets a number the snapshot covers, and the restart
  after it does not replay it.
\<close>
theorem torn_truncate_loses_acked_write:
  "\<exists>s s1 st s2 w2 s3 f3 s4 w4 s5 f5.
     ph_reach one_lib sample_cfg s [] \<and> AddPoint one_lib io_good 5 (Some [0]) 7 s = (Status_Ok, s1) \<and>
     Snapshot one_lib (snap_good 9) no_write s1 = (st, s2) \<and> \<not> ok st \<and> ph_wal s2 = Some w2 \<and>
     PHnsw_new one_lib (snap_good 0) io_good io_good sample_cfg (ph_dir s2) (ww_file w2) = Some (s3, f3) \<and> Exists 7 s3 \<and>
     AddPoint one_lib io_good 6 (Some [0]) 8 s3 = (Status_Ok, s4) \<and> Exists 8 s4 \<and> ph_wal s4 = Some w4 \<and>
     PHnsw_new one_lib (snap_good 0) io_good io_good sample_cfg (ph_dir s4) (ww_disk w4) = Some (s5, f5) \<and>
     ph_ready s5 \<and> \<not> Exists 8 s5"
proof -
  have cd: "0 < cf_dim sample_cfg" by simp
  obtain s f w where s: "ph_reach one_lib sample_cfg s []" "ph_wal s = Some w" "wal_exact w 0 []" "ww_dim w = 1" "\<not> ph_shutdown s"
    "PHnsw_new one_lib (snap_good 0) io_good io_good sample_cfg [] [] = Some (s, f)" "ph_dir s = []"
    using start_exact[OF cd, of one_lib "snap_good 0"] by auto
  have i: "ph_config s = sample_cfg" "ph_index s = Some (new_index one_lib 2)" "ph_deleted_count s = 0" "ph_applied_lsn s = 0"
    using start_index[OF s(6) cd] by (simp_all add: getDeletedCount_def) (simp add: new_index_def)
  obtain s1 where a: "AddPoint one_lib io_good 5 (Some [0]) 7 s = (Status_Ok, s1)"
    using good_write(1)[OF ph_reach_inv[OF s(1)] s(5), of "[0]"] by fastforce
  have new: "\<forall>e\<in>set [one_entry]. wal_entry_ok (cf_dim (ph_config s)) e" by (simp add: wal_entry_ok_def insert_record_def i(1))
  from flush_nonempty[OF AddPoint_flush[OF a] _ _ s(2) i(2)] obtain wa st0 w1 st1 ix1 dc1 lsn1 where
    f: "wal_WriteBatch io_good (map wal_frame [one_entry]) w = (st0, wa)" "ok st0" "wal_Sync io_good wa = (st1, w1)"
    "apply_frames one_lib (cf_dim (ph_config s)) (map wal_frame [one_entry]) (new_index one_lib 2, 0, 0) = Some (Status_Ok, ix1, dc1, lsn1)"
    "s1 = MaybeRequestSnapshotLocked io_good (s\<lparr>ph_pending := None, ph_wal := Some w1, ph_index := Some ix1,
            ph_deleted_count := dc1, ph_applied_lsn := lsn1\<rparr>)" using i(3,4) by auto
  have "(ix1, dc1, lsn1) = (one_index, 0, 1)"
    using f(4) unfolding apply_frames_written[OF new] by (simp add: one_applied)
  then have s1: "ph_index s1 = Some one_index" "ph_applied_lsn s1 = 1" "ph_wal s1 = Some w1" "ph_dir s1 = []" "ph_config s1 = sample_cfg"
    using i(1) s(7) by (simp_all add: f(5))
  have wh: "wal_holds w 0 []" "ww_entry_count w = 0" "ww_committed_lsn w = 0" using s(3) by (auto simp: wal_exact_def wal_holds_def)
  have new': "\<forall>e\<in>set [one_entry]. wal_entry_ok (ww_dim w) e" using new i(1) s(4) by simp
  note wb = wal_WriteBatch_holds[OF wh(1) new' f(1,2)]
  have w1: "wal_holds w1 0 [one_entry]" "ww_dim w1 = 1" "ww_entry_count w1 = 1" "ww_committed_lsn w1 = 1"
    using wb f(3) s(4) wh by (auto simp: wal_holds_def)
  have re: "se_readable (snap_good 0) = (\<lambda>_. True)" by (simp add: snap_good_def)
  have k: "0 < keep_count_of (cf_snapshot_keep_count sample_cfg)" by (simp add: keep_count_of_def)
  from Save_good_Load[OF fresh_Nil k one_lib_load re] obtain d where
    d: "Save one_lib (snap_good 9) (keep_count_of (cf_snapshot_keep_count sample_cfg)) (Some one_index) 1 1 (cf_M sample_cfg) [] = (Status_Ok, d)"
    "Load one_lib (snap_good 0) 2 d = (Status_Ok, Some (reloaded 2 one_index), 1)" by blast
  from Truncate_no_write[OF w1(1)] obtain st w2 where t: "wal_Truncate no_write w1 = (st, w2)" "\<not> ok st" "ww_file w2 = wal_MakeHeader 1 1 1"
    using w1 by auto
  let ?s2 = "s1\<lparr>ph_dir := d, ph_wal := Some w2\<rparr>" and ?h = "wal_MakeHeader 1 1 1"
  have s2: "Snapshot one_lib (snap_good 9) no_write s1 = (st, ?s2)" using s1 d t by (simp add: Snapshot_def Let_def)
  let ?r = "\<lparr>ww_file = ?h, ww_dim = 1, ww_entry_count = 1, ww_committed_lsn = 1, ww_header_trusted = True, ww_disk = ?h\<rparr>"
  have rh: "wal_holds ?r 0 []" by (simp add: wal_holds_def wal_image_def)
  have op: "WalWriter_Open io_good ?h (cf_dim sample_cfg) = (Inr ?r, ?h)" using Open_wal_image[of 1 1 1 "[]"] by simp
  have rd: "wal_ReadAll io_good (cf_dim sample_cfg) ?r = Some (Inr [], ?r)" by (rule wal_ReadAll_holds[OF rh]) simp_all
  have ld: "Load one_lib (snap_good 0) (max_of sample_cfg) d = (Status_Ok, Some (reloaded 2 one_index), 1)" using d(2) by simp
  from restart_state[OF ld refl _ op rd rh, of "{7, 8}"] one_reloaded(1) obtain s3 ix3 where
    s3: "PHnsw_new one_lib (snap_good 0) io_good io_good sample_cfg d ?h = Some (s3, ?h)" "ph_config s3 = sample_cfg" "ph_dir s3 = d"
    "ph_ready s3" "ph_committer s3" "\<not> ph_shutdown s3" "ph_wal s3 = Some ?r" "ph_index s3 = Some ix3"
    "graph_ok {7, 8} (ix3, ph_deleted_count s3, ph_applied_lsn s3)" "vectors ix3 = vectors (reloaded 2 one_index)"
    by (auto simp: labels_def)
  have ex: "Exists 7 s3" using Exists_vectors[OF s3(8)] s3(10) one_reloaded(2) by simp
  have l: "\<exists>s4 w4 s5 f5. AddPoint one_lib io_good 6 (Some [0]) 8 s3 = (Status_Ok, s4) \<and> Exists 8 s4 \<and> ph_wal s4 = Some w4 \<and>
      PHnsw_new one_lib (snap_good 0) io_good io_good sample_cfg (ph_dir s4) (ww_disk w4) = Some (s5, f5) \<and> ph_ready s5 \<and>
      (Exists 8 s5 \<longleftrightarrow> vectors (reloaded 2 one_index) 8 \<noteq> None)"
    by (rule behind_snapshot_lost[where w = ?r and ix = ix3 and base = 0 and sl = 1 and L = "{7, 8}" and lsn = "ph_applied_lsn s3"])
      (use s3 ld one_reloaded rh in simp_all)
  have "ph_dir ?s2 = d" "ph_wal ?s2 = Some w2" by simp_all
  moreover have "\<not> vectors (reloaded 2 one_index) 8 \<noteq> None" by (simp add: one_reloaded(2))
  ultimately show ?thesis using l s(1) a s2 t(2) s3(1)[folded t(3)] ex by metis
qed

end
