(* ===== verification/Block_Header.thy ===== *)
theory Block_Header
  imports Crc
begin

text \<open>
  The binary block format (\<^verbatim>\<open>include/cortrix/common/block_header.h\<close>, \<^verbatim>\<open>include/cortrix/common/block_types.h\<close>,
  \<^verbatim>\<open>src/store/block_header.cpp\<close>): a packed 128-byte header in front of the content, metadata and processing
  chain of a block.  The header is read and written in place; \<open>header_bytes\<close> is the memory image of the
  packed struct on a little-endian machine.  The lengths are 32-bit and wrap; a write outside the buffer,
  which C++ leaves undefined, is \<open>None\<close>.  zlib's \<open>crc32\<close>, the SHA-256 digest of OpenSSL and the clock are parameters.
\<close>

section \<open>Types\<close>

datatype CortrixBlockType =
    kBlockFile | kBlockScan | kBlockDatabase | kBlockAudio | kBlockVideo | kBlockImage | kBlockMemory | kBlockMeta
  | kBlockHypeQuestion | kBlockDocSummary

fun block_type_code :: "CortrixBlockType \<Rightarrow> u16" where
  "block_type_code kBlockFile = 1" | "block_type_code kBlockScan = 2" | "block_type_code kBlockDatabase = 3"
| "block_type_code kBlockAudio = 4" | "block_type_code kBlockVideo = 5" | "block_type_code kBlockImage = 6"
| "block_type_code kBlockMemory = 7" | "block_type_code kBlockMeta = 8" | "block_type_code kBlockHypeQuestion = 16"
| "block_type_code kBlockDocSummary = 17"

datatype ProcessingLevel = kLevelL0 | kLevelL1 | kLevelL2 | kLevelL3 | kLevelL4

fun level_code :: "ProcessingLevel \<Rightarrow> u8" where
  "level_code kLevelL0 = 0" | "level_code kLevelL1 = 1" | "level_code kLevelL2 = 2" | "level_code kLevelL3 = 3"
| "level_code kLevelL4 = 4"

abbreviation "kFlagHasContent \<equiv> (0x01 :: u8)"
abbreviation "kFlagHasVector \<equiv> (0x02 :: u8)"
abbreviation "kFlagHasFts \<equiv> (0x04 :: u8)"
abbreviation "kFlagHasMetadata \<equiv> (0x08 :: u8)"
abbreviation "kFlagHasChain \<equiv> (0x10 :: u8)"

record block_header =
  bh_magic :: u32
  bh_header_version :: u16
  bh_header_size :: u16
  bh_block_type :: u16
  bh_processing_level :: u8
  bh_flags :: u8
  bh_content_offset :: u32
  bh_content_length :: u32
  bh_metadata_offset :: u32
  bh_metadata_length :: u32
  bh_chain_offset :: u32
  bh_chain_length :: u32
  bh_total_size :: u32
  bh_content_hash_high :: u64
  bh_content_hash_low :: u64
  bh_embedding_model_id :: u32
  bh_vector_dim :: u16
  bh_chunk_strategy_id :: u16
  bh_created_at_us :: u64
  bh_updated_at_us :: u64
  bh_crc32 :: u32
  bh_flags_ext :: u8
  bh_enrichment_source :: u8
  bh_compression_algo :: u8
  bh_reserved :: bytes

definition kBlockMagic :: u32 where "kBlockMagic = 0x43525458"
definition kHeaderVersion :: u16 where "kHeaderVersion = 1"
abbreviation (input) "kHeaderSize \<equiv> (128 :: nat)"

section \<open>The memory image of the header\<close>

definition header_bytes :: "block_header \<Rightarrow> bytes" where
  "header_bytes h =
     PutU32 (bh_magic h) @ PutU16 (bh_header_version h) @ PutU16 (bh_header_size h) @
     PutU16 (bh_block_type h) @ PutU8 (bh_processing_level h) @ PutU8 (bh_flags h) @
     PutU32 (bh_content_offset h) @ PutU32 (bh_content_length h) @
     PutU32 (bh_metadata_offset h) @ PutU32 (bh_metadata_length h) @
     PutU32 (bh_chain_offset h) @ PutU32 (bh_chain_length h) @
     PutU32 (bh_total_size h) @ PutU64 (bh_content_hash_high h) @ PutU64 (bh_content_hash_low h) @
     PutU32 (bh_embedding_model_id h) @ PutU16 (bh_vector_dim h) @ PutU16 (bh_chunk_strategy_id h) @
     PutU64 (bh_created_at_us h) @ PutU64 (bh_updated_at_us h) @ PutU32 (bh_crc32 h) @
     PutU8 (bh_flags_ext h) @ PutU8 (bh_enrichment_source h) @ PutU8 (bh_compression_algo h) @ bh_reserved h"

text \<open>Reinterpreting the first 128 bytes of a buffer as the header.\<close>

definition header_of :: "bytes \<Rightarrow> block_header" where
  "header_of b = \<lparr>bh_magic = GetU32 b, bh_header_version = GetU16 (drop 4 b), bh_header_size = GetU16 (drop 6 b),
     bh_block_type = GetU16 (drop 8 b), bh_processing_level = b ! 10, bh_flags = b ! 11,
     bh_content_offset = GetU32 (drop 12 b), bh_content_length = GetU32 (drop 16 b),
     bh_metadata_offset = GetU32 (drop 20 b), bh_metadata_length = GetU32 (drop 24 b),
     bh_chain_offset = GetU32 (drop 28 b), bh_chain_length = GetU32 (drop 32 b),
     bh_total_size = GetU32 (drop 36 b), bh_content_hash_high = GetU64 (drop 40 b), bh_content_hash_low = GetU64 (drop 48 b),
     bh_embedding_model_id = GetU32 (drop 56 b), bh_vector_dim = GetU16 (drop 60 b), bh_chunk_strategy_id = GetU16 (drop 62 b),
     bh_created_at_us = GetU64 (drop 64 b), bh_updated_at_us = GetU64 (drop 72 b), bh_crc32 = GetU32 (drop 80 b),
     bh_flags_ext = b ! 84, bh_enrichment_source = b ! 85, bh_compression_algo = b ! 86, bh_reserved = take 41 (drop 87 b)\<rparr>"

lemma length_header_bytes [simp]: "length (header_bytes h) = 87 + length (bh_reserved h)"
  by (simp add: header_bytes_def)

lemma header_of_bytes:
  assumes "length (bh_reserved h) = 41"
  shows "header_of (header_bytes h @ rest) = h"
  using assms by (cases h) (simp add: header_of_def header_bytes_def nth_append PutU8_def)

section \<open>Operations\<close>

definition BlockHeaderInit :: block_header where
  "BlockHeaderInit = \<lparr>bh_magic = kBlockMagic, bh_header_version = kHeaderVersion, bh_header_size = of_nat kHeaderSize,
     bh_block_type = 0, bh_processing_level = 0, bh_flags = 0, bh_content_offset = 0, bh_content_length = 0,
     bh_metadata_offset = 0, bh_metadata_length = 0, bh_chain_offset = 0, bh_chain_length = 0, bh_total_size = 0,
     bh_content_hash_high = 0, bh_content_hash_low = 0, bh_embedding_model_id = 0, bh_vector_dim = 0,
     bh_chunk_strategy_id = 0, bh_created_at_us = 0, bh_updated_at_us = 0, bh_crc32 = 0, bh_flags_ext = 0,
     bh_enrichment_source = 0, bh_compression_algo = 0, bh_reserved = replicate 41 0\<rparr>"

text \<open>The checksum skips its own field; \<open>crc\<close> is zlib's running checksum, \<open>len\<close> at most the buffer's size.\<close>

definition BlockComputeCrc32 :: "(u32 \<Rightarrow> bytes \<Rightarrow> u32) \<Rightarrow> bytes \<Rightarrow> nat \<Rightarrow> u32" where
  "BlockComputeCrc32 crc data len =
     (let c = crc 0 [];
          c = (if len \<ge> 80 then crc c (take 80 data) else c);
          c = (if len \<ge> kHeaderSize then crc c (take (kHeaderSize - 84) (drop 84 data)) else c);
          c = (if len > kHeaderSize then crc c (take (unat (of_nat (len - kHeaderSize) :: u32)) (drop kHeaderSize data)) else c)
      in c)"

definition put_at :: "bytes \<Rightarrow> nat \<Rightarrow> bytes \<Rightarrow> bytes option" where
  "put_at buf off src = (if off + length src \<le> length buf then Some (take off buf @ src @ drop (off + length src) buf) else None)"

text \<open>One payload part: its offset and length fields, the buffer and the next position.\<close>

definition place :: "bytes \<Rightarrow> u32 \<Rightarrow> bytes \<times> u32 \<Rightarrow> (u32 \<times> u32 \<times> bytes \<times> u32) option" where
  "place part len = (\<lambda>(buf, abs_offset).
     if len > 0 then do {
       buf \<leftarrow> put_at buf (unat abs_offset) (take (unat len) part);
       Some (abs_offset - of_nat kHeaderSize, len, buf, abs_offset + len) }
     else Some (0, 0, buf, abs_offset))"

definition block_flags :: "u32 \<Rightarrow> u32 \<Rightarrow> u32 \<Rightarrow> u16 \<Rightarrow> ProcessingLevel \<Rightarrow> u8" where
  "block_flags content_len metadata_len chain_len vector_dim level =
     (let flags = 0;
          flags = (if content_len > 0 then flags OR kFlagHasContent else flags);
          flags = (if metadata_len > 0 then flags OR kFlagHasMetadata else flags);
          flags = (if chain_len > 0 then flags OR kFlagHasChain else flags);
          flags = (if vector_dim > 0 then flags OR kFlagHasVector else flags)
      in if content_len > 0 \<and> (level = kLevelL2 \<or> level = kLevelL3) then flags OR kFlagHasFts else flags)"

text \<open>\<open>sha256\<close> is \<open>None\<close> when the digest could not be computed; the digest bytes are then zero.\<close>

definition BlockBuild ::
  "(u32 \<Rightarrow> bytes \<Rightarrow> u32) \<Rightarrow> (bytes \<Rightarrow> bytes option) \<Rightarrow> u64 \<Rightarrow> CortrixBlockType \<Rightarrow> ProcessingLevel \<Rightarrow> bytes \<Rightarrow> bytes \<Rightarrow> bytes \<Rightarrow>
   u16 \<Rightarrow> u32 \<Rightarrow> u8 \<Rightarrow> u8 \<Rightarrow> u8 \<Rightarrow> bytes option" where
  "BlockBuild crc sha256 now block_type level content_text metadata_json processing_chain vector_dim embedding_model_id
     flags_ext enrichment_source compression_algo =
     (let content_len = of_nat (length content_text) :: u32;
          metadata_len = of_nat (length metadata_json) :: u32;
          chain_len = of_nat (length processing_chain) :: u32;
          total_size = of_nat kHeaderSize + content_len + metadata_len + chain_len;
          buf = replicate (unat total_size) 0
      in if unat total_size < kHeaderSize then None
         else do {
           (content_offset, content_length, buf, pos) \<leftarrow> place content_text content_len (buf, of_nat kHeaderSize);
           (metadata_offset, metadata_length, buf, pos) \<leftarrow> place metadata_json metadata_len (buf, pos);
           (chain_offset, chain_length, buf, pos) \<leftarrow> place processing_chain chain_len (buf, pos);
           let digest = (case sha256 content_text of None \<Rightarrow> replicate 32 0 | Some d \<Rightarrow> d);
           let hdr = BlockHeaderInit\<lparr>bh_block_type := block_type_code block_type, bh_processing_level := level_code level,
                 bh_flags := block_flags content_len metadata_len chain_len vector_dim level,
                 bh_content_offset := content_offset, bh_content_length := content_length,
                 bh_metadata_offset := metadata_offset, bh_metadata_length := metadata_length,
                 bh_chain_offset := chain_offset, bh_chain_length := chain_length,
                 bh_total_size := total_size, bh_vector_dim := vector_dim, bh_embedding_model_id := embedding_model_id,
                 bh_content_hash_high := (if content_len > 0 then GetU64 digest else 0),
                 bh_content_hash_low := (if content_len > 0 then GetU64 (drop 8 digest) else 0),
                 bh_created_at_us := now, bh_updated_at_us := now,
                 bh_flags_ext := flags_ext, bh_enrichment_source := enrichment_source,
                 bh_compression_algo := compression_algo\<rparr>;
           let buf = header_bytes hdr @ drop kHeaderSize buf;
           Some (header_bytes (hdr\<lparr>bh_crc32 := BlockComputeCrc32 crc buf (unat total_size)\<rparr>) @ drop kHeaderSize buf) })"

definition BlockParse :: "(u32 \<Rightarrow> bytes \<Rightarrow> u32) \<Rightarrow> bytes \<Rightarrow> block_header option" where
  "BlockParse crc data =
     (if length data < kHeaderSize then None
      else let h = header_of data in
        if bh_magic h \<noteq> kBlockMagic then None
        else if bh_header_version h \<noteq> kHeaderVersion then None
        else if unat (bh_total_size h) > length data then None
        else if BlockComputeCrc32 crc data (unat (bh_total_size h)) \<noteq> bh_crc32 h then None
        else Some h)"

section \<open>Diagnostics\<close>

definition BlockTypeName :: "u16 \<Rightarrow> string" where
  "BlockTypeName t =
     (if t = block_type_code kBlockFile then ''FILE'' else if t = block_type_code kBlockScan then ''SCAN''
      else if t = block_type_code kBlockDatabase then ''DATABASE'' else if t = block_type_code kBlockAudio then ''AUDIO''
      else if t = block_type_code kBlockVideo then ''VIDEO'' else if t = block_type_code kBlockImage then ''IMAGE''
      else if t = block_type_code kBlockMemory then ''MEMORY'' else if t = block_type_code kBlockMeta then ''META''
      else ''UNKNOWN'')"

definition EnrichName :: "u8 \<Rightarrow> string" where
  "EnrichName e = (if e = 0 then ''none'' else if e = 1 then ''Docling'' else if e = 2 then ''PaddleOCR''
     else if e = 3 then ''LLM'' else if e = 4 then ''Vision'' else ''unknown'')"

text \<open>\<open>%0wX\<close> on an unsigned value of at most \<open>w\<close> hexadecimal digits.\<close>

definition hex_digit :: "nat \<Rightarrow> char" where
  "hex_digit d = (if d < 10 then char_of (48 + d) else char_of (55 + d))"

definition hex_fixed :: "nat \<Rightarrow> nat \<Rightarrow> string" where
  "hex_fixed w n = map (\<lambda>i. hex_digit ((n div 16 ^ (w - 1 - i)) mod 16)) [0..<w]"

definition header_text :: "block_header \<Rightarrow> string" where
  "header_text h =
     ''BlockHeader{v='' @ to_string (unat (bh_header_version h)) @ '', type='' @ BlockTypeName (bh_block_type h) @
     '', level=L'' @ to_string (unat (bh_processing_level h)) @ '', flags=0x'' @ hex_fixed 2 (unat (bh_flags h)) @
     '', flags_ext=0x'' @ hex_fixed 2 (unat (bh_flags_ext h)) @ '', enrich='' @ EnrichName (bh_enrichment_source h) @
     '', compress='' @ to_string (unat (bh_compression_algo h)) @ '', size='' @ to_string (unat (bh_total_size h)) @
     '', crc=0x'' @ hex_fixed 8 (unat (bh_crc32 h)) @ ''}''"

text \<open>\<open>snprintf\<close> into 256 bytes keeps the first 255 characters.\<close>

definition BlockHeaderToString :: "block_header option \<Rightarrow> string" where
  "BlockHeaderToString hdr = (case hdr of None \<Rightarrow> ''BlockHeader{null}'' | Some h \<Rightarrow> take 255 (header_text h))"

section \<open>Placing the payload\<close>

lemma unat_len: "n < 2 ^ 32 \<Longrightarrow> unat (of_nat n :: u32) = n"
  by (simp add: unat_of_nat)

lemma len_pos: "n < 2 ^ 32 \<Longrightarrow> (of_nat n :: u32) > 0 \<longleftrightarrow> n > 0"
  using unat_len[of n] by (simp add: word_less_nat_alt)

lemma place_ok:
  assumes "length part < 2 ^ 32" "unat pos = length pre" "length part \<le> n"
  shows "place part (of_nat (length part)) (pre @ replicate n 0, pos) =
    Some (if part = [] then 0 else pos - 128, of_nat (length part), (pre @ part) @ replicate (n - length part) 0, pos + of_nat (length part))"
proof (cases "part = []")
  case False
  then show ?thesis
    using assms unat_len[OF assms(1)] len_pos[OF assms(1)] by (simp add: place_def put_at_def)
qed (simp add: place_def)

lemma place_overflow:
  assumes "length part < 2 ^ 32" "part \<noteq> []" "unat pos + length part > length buf"
  shows "place part (of_nat (length part)) (buf, pos) = None"
  using assms unat_len[OF assms(1)] len_pos[OF assms(1)] by (simp add: place_def put_at_def)

text \<open>The parameters of a block, and the header and the buffer they give.\<close>

definition payload_size :: "bytes \<Rightarrow> bytes \<Rightarrow> bytes \<Rightarrow> nat" where
  "payload_size c m ch = length c + length m + length ch"

definition built_header ::
  "(bytes \<Rightarrow> bytes option) \<Rightarrow> u64 \<Rightarrow> CortrixBlockType \<Rightarrow> ProcessingLevel \<Rightarrow> bytes \<Rightarrow> bytes \<Rightarrow> bytes \<Rightarrow>
   u16 \<Rightarrow> u32 \<Rightarrow> u8 \<Rightarrow> u8 \<Rightarrow> u8 \<Rightarrow> block_header" where
  "built_header sha256 now bt level c m ch dim emb fe es ca =
     (let digest = (case sha256 c of None \<Rightarrow> replicate 32 0 | Some d \<Rightarrow> d) in
      BlockHeaderInit\<lparr>bh_block_type := block_type_code bt, bh_processing_level := level_code level,
        bh_flags := block_flags (of_nat (length c)) (of_nat (length m)) (of_nat (length ch)) dim level,
        bh_content_offset := 0, bh_content_length := of_nat (length c),
        bh_metadata_offset := (if m = [] then 0 else of_nat (length c)), bh_metadata_length := of_nat (length m),
        bh_chain_offset := (if ch = [] then 0 else of_nat (length c) + of_nat (length m)), bh_chain_length := of_nat (length ch),
        bh_total_size := of_nat (128 + payload_size c m ch), bh_vector_dim := dim, bh_embedding_model_id := emb,
        bh_content_hash_high := (if c = [] then 0 else GetU64 digest),
        bh_content_hash_low := (if c = [] then 0 else GetU64 (drop 8 digest)),
        bh_created_at_us := now, bh_updated_at_us := now, bh_flags_ext := fe, bh_enrichment_source := es, bh_compression_algo := ca\<rparr>)"

lemma built_header_reserved [simp]: "length (bh_reserved (built_header sha now bt level c m ch dim emb fe es ca)) = 41"
  by (simp add: built_header_def BlockHeaderInit_def Let_def)

lemma total_word: "of_nat 128 + of_nat (length c) + of_nat (length m) + of_nat (length ch) = (of_nat (128 + payload_size c m ch) :: u32)"
  by (simp add: payload_size_def)

lemma BlockBuild_fits:
  assumes fit: "128 + payload_size c m ch < 2 ^ 32"
  shows "BlockBuild crc sha now bt level c m ch dim emb fe es ca =
    (let h = built_header sha now bt level c m ch dim emb fe es ca; p = c @ m @ ch in
     Some (header_bytes (h\<lparr>bh_crc32 := BlockComputeCrc32 crc (header_bytes h @ p) (128 + length p)\<rparr>) @ p))"
proof -
  have l: "length c < 2 ^ 32" "length m < 2 ^ 32" "length ch < 2 ^ 32" using fit by (simp_all add: payload_size_def)
  have t: "unat (of_nat (128 + payload_size c m ch) :: u32) = 128 + payload_size c m ch" by (rule unat_len[OF fit])
  have add: "unat (128 + of_nat n :: u32) = 128 + n" if "128 + n < 2 ^ 32" for n
    using unat_len[OF that] by simp
  have buf: "replicate (128 + payload_size c m ch) 0 = replicate 128 0 @ replicate (payload_size c m ch) (0 :: u8)"
    by (rule replicate_add)
  have p1: "place c (of_nat (length c)) (replicate 128 0 @ replicate (payload_size c m ch) 0, 128) =
      Some (0, of_nat (length c), (replicate 128 0 @ c) @ replicate (length m + length ch) 0, 128 + of_nat (length c))"
    using place_ok[OF l(1), of 128 "replicate 128 0" "payload_size c m ch"] by (simp add: payload_size_def)
  have p2: "place m (of_nat (length m)) ((replicate 128 0 @ c) @ replicate (length m + length ch) 0, 128 + of_nat (length c)) =
      Some (if m = [] then 0 else of_nat (length c), of_nat (length m), (replicate 128 0 @ c @ m) @ replicate (length ch) 0,
        128 + of_nat (length c) + of_nat (length m))"
    using place_ok[OF l(2), of "128 + of_nat (length c)" "replicate 128 0 @ c" "length m + length ch"] add[of "length c"] fit
    by (simp add: payload_size_def)
  have pos3: "unat (128 + of_nat (length c) + of_nat (length m) :: u32) = 128 + length c + length m"
    using add[of "length c + length m"] fit by (simp add: payload_size_def add.assoc)
  have p3: "place ch (of_nat (length ch)) ((replicate 128 0 @ c @ m) @ replicate (length ch) 0, 128 + of_nat (length c) + of_nat (length m)) =
      Some (if ch = [] then 0 else of_nat (length c) + of_nat (length m), of_nat (length ch), replicate 128 0 @ c @ m @ ch,
        128 + of_nat (length c) + of_nat (length m) + of_nat (length ch))"
    using place_ok[OF l(3), of "128 + of_nat (length c) + of_nat (length m)" "replicate 128 0 @ c @ m" "length ch"] pos3 by simp
  have dr: "drop 128 (replicate 128 0 @ c @ m @ ch) = c @ m @ ch" by simp
  have cp: "(of_nat (length c) :: u32) > 0 \<longleftrightarrow> c \<noteq> []" using len_pos[OF l(1)] by simp
  have ln: "128 + length (c @ m @ ch) = 128 + payload_size c m ch" by (simp add: payload_size_def)
  show ?thesis
    unfolding BlockBuild_def Let_def total_word
    unfolding t buf of_nat_numeral p1 bind.bind_lunit prod.case
    unfolding p2 bind.bind_lunit prod.case
    unfolding p3 bind.bind_lunit prod.case dr cp ln
    by (simp add: built_header_def BlockHeaderInit_def Let_def)
qed

lemma BlockBuild_overflow:
  assumes l: "length c < 2 ^ 32" "length m < 2 ^ 32" "length ch < 2 ^ 32" and big: "2 ^ 32 \<le> 128 + payload_size c m ch"
  shows "BlockBuild crc sha now bt level c m ch dim emb fe es ca = None"
proof -
  define T where "T = unat (of_nat (128 + payload_size c m ch) :: u32)"
  have T: "T = (128 + payload_size c m ch) mod 2 ^ 32" by (simp only: T_def unat_of_nat len_num1) simp
  have lt: "T < 2 ^ 32" and less: "T < 128 + payload_size c m ch" using big by (simp_all add: T)
  have add: "unat (128 + of_nat n :: u32) = 128 + n" if "128 + n < 2 ^ 32" for n using unat_len[OF that] by simp
  have none: "BlockBuild crc sha now bt level c m ch dim emb fe es ca = None"
    if "T \<ge> 128 \<Longrightarrow> do {
      (a, b, buf, pos) \<leftarrow> place c (of_nat (length c)) (replicate T 0, 128);
      (a, b, buf, pos) \<leftarrow> place m (of_nat (length m)) (buf, pos);
      place ch (of_nat (length ch)) (buf, pos) } = None"
    using that unfolding BlockBuild_def Let_def total_word T_def[symmetric]
    by (auto simp: bind_eq_None_conv split: prod.splits bind_splits)
  show ?thesis
  proof (rule none)
    assume T128: "128 \<le> T"
    let ?r = "\<lambda>n. replicate n (0 :: u8)"
    have buf: "?r T = ?r 128 @ ?r (T - 128)" using T128 by (simp flip: replicate_add)
    show "do {
      (a, b, buf, pos) \<leftarrow> place c (of_nat (length c)) (replicate T 0, 128);
      (a, b, buf, pos) \<leftarrow> place m (of_nat (length m)) (buf, pos);
      place ch (of_nat (length ch)) (buf, pos) } = None"
    proof (cases "128 + length c \<le> T")
      case False
      then have "place c (of_nat (length c)) (?r T, 128) = None" using T128 by (intro place_overflow[OF l(1)]) auto
      then show ?thesis by simp
    next
      case c: True
      have p1: "place c (of_nat (length c)) (?r T, 128) =
          Some (if c = [] then 0 else 0, of_nat (length c), (?r 128 @ c) @ ?r (T - 128 - length c), 128 + of_nat (length c))"
        using place_ok[OF l(1), of 128 "?r 128" "T - 128"] c unfolding buf by simp
      have u1: "unat (128 + of_nat (length c) :: u32) = 128 + length c" by (rule add) (use c lt in simp)
      show ?thesis
      proof (cases "128 + length c + length m \<le> T")
        case False
        then have "place m (of_nat (length m)) ((?r 128 @ c) @ ?r (T - 128 - length c), 128 + of_nat (length c)) = None"
          using c u1 by (intro place_overflow[OF l(2)]) auto
        then show ?thesis by (simp add: p1)
      next
        case m: True
        have p2: "place m (of_nat (length m)) ((?r 128 @ c) @ ?r (T - 128 - length c), 128 + of_nat (length c)) =
            Some (if m = [] then 0 else of_nat (length c), of_nat (length m), ((?r 128 @ c) @ m) @ ?r (T - 128 - length c - length m),
              128 + of_nat (length c) + of_nat (length m))"
          using place_ok[OF l(2), of "128 + of_nat (length c)" "?r 128 @ c" "T - 128 - length c"] m u1 by simp
        have u2: "unat (128 + of_nat (length c) + of_nat (length m) :: u32) = 128 + length c + length m"
          using add[of "length c + length m"] m lt by (simp add: add.assoc)
        have "place ch (of_nat (length ch)) (((?r 128 @ c) @ m) @ ?r (T - 128 - length c - length m), 128 + of_nat (length c) + of_nat (length m)) = None"
          using m u2 less by (intro place_overflow[OF l(3)]) (auto simp: payload_size_def)
        then show ?thesis unfolding p1 bind.bind_lunit prod.case p2 .
      qed
    qed
  qed
qed

text \<open>
  C37: building a block is memory safe exactly when its size fits.  For parts shorter than 4 GiB each, \<open>BlockBuild\<close>
  writes only inside its buffer if and only if header and payload together are shorter than \<open>2\<^sup>3\<^sup>2\<close> bytes; beyond
  that the 32-bit total wraps, the buffer is too small and a copy runs past its end.
\<close>
theorem block_build_bounds:
  assumes "length c < 2 ^ 32" "length m < 2 ^ 32" "length ch < 2 ^ 32"
  shows "BlockBuild crc sha now bt level c m ch dim emb fe es ca \<noteq> None \<longleftrightarrow> 128 + length c + length m + length ch < 2 ^ 32"
proof (cases "128 + payload_size c m ch < 2 ^ 32")
  case True
  then show ?thesis using BlockBuild_fits[OF True] by (simp add: Let_def payload_size_def)
next
  case False
  then show ?thesis using BlockBuild_overflow[OF assms] by (simp add: payload_size_def)
qed

theorem block_build_bounds_witness:
  "BlockBuild (\<lambda>c b. c) (\<lambda>b. None) 0 kBlockFile kLevelL3 [7] [] [] 0 0 0 0 0 \<noteq> None"
  using block_build_bounds[of "[7]" "[]" "[]" "\<lambda>c b. c" "\<lambda>b. None" 0 kBlockFile kLevelL3 0 0 0 0 0] by simp

section \<open>What zlib promises\<close>

text \<open>The running checksum can be computed in pieces and is the CRC-32 of the bytes seen.\<close>

locale crc32_library =
  fixes crc :: "u32 \<Rightarrow> bytes \<Rightarrow> u32"
  assumes pieces: "crc (crc x a) b = crc x (a @ b)"
    and value_of: "crc 0 a = Crc32 a"
begin

lemma initial: "crc 0 [] = 0"
  by (simp add: value_of Crc32_def)

lemma covered:
  assumes "length data = len" "128 \<le> len" "len < 2 ^ 32"
  shows "BlockComputeCrc32 crc data len = Crc32 (take 80 data @ drop 84 data)"
proof -
  have z: "crc 0 [] = 0" by (rule initial)
  have l: "unat (of_nat (len - 128) :: u32) = len - 128" by (rule unat_len) (use assms in simp)
  have tl: "take (len - 128) (drop 128 data) = drop 128 data" using assms by simp
  have sp: "take 44 (drop 84 data) @ drop 128 data = drop 84 data"
    using append_take_drop_id[of 44 "drop 84 data"] by simp
  show ?thesis
  proof (cases "len = 128")
    case True
    then have "drop 128 data = []" using assms by simp
    then show ?thesis using True z sp by (simp add: BlockComputeCrc32_def pieces value_of)
  next
    case False
    then have "128 < len" using assms by simp
    then show ?thesis using z l tl sp assms by (simp add: BlockComputeCrc32_def Let_def pieces value_of)
  qed
qed

lemma short: "len < 80 \<Longrightarrow> BlockComputeCrc32 crc data len = 0"
  using initial by (simp add: BlockComputeCrc32_def)

end

text \<open>The library as documented, on the table-driven CRC of the sources.\<close>

definition running_crc :: "u32 \<Rightarrow> bytes \<Rightarrow> u32" where
  "running_crc x a = fold (\<lambda>d crc. crc_step crc d) a (x XOR 0xFFFFFFFF) XOR 0xFFFFFFFF"

interpretation zlib: crc32_library running_crc
  by unfold_locales (simp_all add: running_crc_def Crc32_def xor.assoc)

section \<open>Parsing what was built\<close>

text \<open>The checksum does not depend on the checksum field.\<close>

lemma BlockComputeCrc32_skip:
  assumes "take 80 d = take 80 d'" "drop 84 d = drop 84 d'"
  shows "BlockComputeCrc32 crc d len = BlockComputeCrc32 crc d' len"
proof -
  have "drop 128 d = drop 44 (drop 84 d)" "drop 128 d' = drop 44 (drop 84 d')" by simp_all
  then have e: "drop 128 d = drop 128 d'" using assms(2) by metis
  show ?thesis unfolding BlockComputeCrc32_def assms e ..
qed

lemma header_bytes_crc:
  assumes "length (bh_reserved h) = 41"
  shows "take 80 (header_bytes (h\<lparr>bh_crc32 := x\<rparr>) @ p) = take 80 (header_bytes h @ p)"
    "drop 84 (header_bytes (h\<lparr>bh_crc32 := x\<rparr>) @ p) = drop 84 (header_bytes h @ p)"
  using assms by (simp_all add: header_bytes_def)

lemma header_of_block:
  assumes "length (bh_reserved h) = 41"
  shows "header_of (header_bytes (h\<lparr>bh_crc32 := x\<rparr>) @ p) = h\<lparr>bh_crc32 := x\<rparr>"
  using header_of_bytes[of "h\<lparr>bh_crc32 := x\<rparr>" p] assms by simp

lemma BlockParse_crc: "BlockParse crc b = Some h \<Longrightarrow> BlockComputeCrc32 crc b (unat (GetU32 (drop 36 b))) = GetU32 (drop 80 b)"
  by (simp add: BlockParse_def Let_def header_of_def split: if_splits)

lemma BlockParse_built:
  assumes fit: "128 + payload_size c m ch < 2 ^ 32"
    and b: "BlockBuild crc sha now bt level c m ch dim emb fe es ca = Some buf"
  shows "\<exists>x. BlockParse crc buf = Some ((built_header sha now bt level c m ch dim emb fe es ca)\<lparr>bh_crc32 := x\<rparr>) \<and>
    buf = header_bytes ((built_header sha now bt level c m ch dim emb fe es ca)\<lparr>bh_crc32 := x\<rparr>) @ c @ m @ ch"
proof -
  let ?h = "built_header sha now bt level c m ch dim emb fe es ca" and ?p = "c @ m @ ch"
  define x where "x = BlockComputeCrc32 crc (header_bytes ?h @ ?p) (128 + length ?p)"
  have buf: "buf = header_bytes (?h\<lparr>bh_crc32 := x\<rparr>) @ ?p" using b BlockBuild_fits[OF fit] by (simp add: x_def Let_def)
  have r: "length (bh_reserved ?h) = 41" by simp
  have ho: "header_of buf = ?h\<lparr>bh_crc32 := x\<rparr>" unfolding buf by (rule header_of_block[OF r])
  have ts: "bh_total_size ?h = of_nat (128 + payload_size c m ch)" "bh_magic ?h = kBlockMagic" "bh_header_version ?h = kHeaderVersion"
    by (simp_all add: built_header_def BlockHeaderInit_def Let_def)
  have un: "unat (bh_total_size ?h) = 128 + length ?p" unfolding ts(1) using unat_len[OF fit] by (simp add: payload_size_def)
  have cr: "BlockComputeCrc32 crc buf (128 + length ?p) = x"
    unfolding x_def buf by (rule BlockComputeCrc32_skip) (rule header_bytes_crc[OF r])+
  have "length buf = 128 + length ?p" unfolding buf by simp
  then have "BlockParse crc buf = Some (?h\<lparr>bh_crc32 := x\<rparr>)"
    using ho ts(2,3) un cr by (simp add: BlockParse_def Let_def)
  then show ?thesis using buf by blast
qed

text \<open>
  C38: blocks read back.  A block whose size fits parses, the header has the given type, level, dimension and
  extension fields, and the slices its offsets and lengths name are the
  content, the metadata and the processing chain.
\<close>
theorem block_roundtrip:
  assumes "128 + length c + length m + length ch < 2 ^ 32"
    and "BlockBuild crc sha now bt level c m ch dim emb fe es ca = Some buf"
  shows "\<exists>h. BlockParse crc buf = Some h \<and> bh_block_type h = block_type_code bt \<and> bh_processing_level h = level_code level \<and>
    bh_vector_dim h = dim \<and> bh_embedding_model_id h = emb \<and> bh_flags_ext h = fe \<and> bh_enrichment_source h = es \<and>
    bh_compression_algo h = ca \<and> unat (bh_total_size h) = length buf \<and>
    take (unat (bh_content_length h)) (drop (128 + unat (bh_content_offset h)) buf) = c \<and>
    take (unat (bh_metadata_length h)) (drop (128 + unat (bh_metadata_offset h)) buf) = m \<and>
    take (unat (bh_chain_length h)) (drop (128 + unat (bh_chain_offset h)) buf) = ch"
proof -
  have fit: "128 + payload_size c m ch < 2 ^ 32" using assms(1) by (simp add: payload_size_def)
  let ?h = "built_header sha now bt level c m ch dim emb fe es ca"
  obtain x where x: "BlockParse crc buf = Some (?h\<lparr>bh_crc32 := x\<rparr>)" "buf = header_bytes (?h\<lparr>bh_crc32 := x\<rparr>) @ c @ m @ ch"
    using BlockParse_built[OF fit assms(2)] by blast
  have l: "unat (of_nat (length c) :: u32) = length c" "unat (of_nat (length m) :: u32) = length m" "unat (of_nat (length ch) :: u32) = length ch"
    "unat (of_nat (length c) + of_nat (length m) :: u32) = length c + length m"
    using unat_len[of "length c"] unat_len[of "length m"] unat_len[of "length ch"] unat_len[of "length c + length m"] assms(1) by simp_all
  have ts: "unat (of_nat (128 + payload_size c m ch) :: u32) = 128 + payload_size c m ch" by (rule unat_len[OF fit])
  have d: "drop (128 + k) buf = drop k (c @ m @ ch)" for k unfolding x(2) by simp
  have "length buf = 128 + payload_size c m ch" unfolding x(2) by (simp add: payload_size_def)
  then show ?thesis
    using x(1) l ts by (intro exI[of _ "?h\<lparr>bh_crc32 := x\<rparr>"]) (simp add: built_header_def Let_def d d[of 0, simplified])
qed

theorem block_roundtrip_witness:
  "\<exists>buf h. BlockBuild running_crc (\<lambda>b. None) 0 kBlockFile kLevelL3 [1, 2] [3] [4] 8 9 1 2 0 = Some buf \<and>
     BlockParse running_crc buf = Some h \<and> take (unat (bh_content_length h)) (drop (128 + unat (bh_content_offset h)) buf) = [1, 2]"
proof -
  have fit: "128 + payload_size [1, 2] [3] [4] < 2 ^ 32" by (simp add: payload_size_def)
  obtain buf where b: "BlockBuild running_crc (\<lambda>b. None) 0 kBlockFile kLevelL3 [1, 2] [3] [4] 8 9 1 2 0 = Some buf"
    using BlockBuild_fits[OF fit] by (simp add: Let_def)
  have "128 + length [1 :: u8, 2] + length [3 :: u8] + length [4 :: u8] < 2 ^ 32" by simp
  from block_roundtrip[OF this b] b show ?thesis by (elim exE conjE) (intro exI conjI, assumption+)
qed

section \<open>Damaged blocks\<close>

lemma GetU32_inj:
  assumes "length a = 4" "length b = 4" "GetU32 a = GetU32 b"
  shows "a = b"
proof -
  have p: "put_le 4 (GetU32 x) = x" if "length x = 4" for x
    using put_get_le[where n = 4 and p = x and 'a = 32] that by (simp add: GetU32_def)
  show ?thesis using p[OF assms(1)] p[OF assms(2)] assms(3) by metis
qed

lemma GetU32_window:
  assumes "i < off \<or> off + 4 \<le> i" "off + 4 \<le> length b"
  shows "GetU32 (drop off (b[i := d])) = GetU32 (drop off b)"
proof -
  have "take 4 (drop off (b[i := d])) = take 4 (drop off b)"
    using assms by (intro nth_equalityI) (auto simp: nth_list_update)
  then show ?thesis by (metis Get_take(2) order_refl)
qed

lemma covered_update:
  assumes "128 \<le> length b" "i < length b" "i < 80 \<or> 84 \<le> i"
  shows "\<exists>j < length (take 80 b @ drop 84 b). (take 80 b @ drop 84 b) ! j = b ! i \<and>
    take 80 (b[i := d]) @ drop 84 (b[i := d]) = (take 80 b @ drop 84 b)[j := d]"
proof (cases "i < 80")
  case True
  then show ?thesis using assms by (intro exI[of _ i]) (simp add: take_update_swap list_update_append nth_append)
next
  case False
  then have "80 + (i - 84) < length (take 80 b @ drop 84 b)" using assms by simp
  then show ?thesis
    using False assms by (intro exI[of _ "80 + (i - 84)"]) (auto simp: drop_update_swap list_update_append nth_append)
qed

text \<open>
  A damaged block is rejected.  If one byte of a built block changes, anywhere in the header or the payload
  outside the total-size field, \<open>BlockParse\<close> fails.
\<close>
theorem damaged_block_rejected:
  assumes "crc32_library crc" "BlockBuild crc sha now bt level c m ch dim emb fe es ca = Some buf"
    and "128 + length c + length m + length ch < 2 ^ 32" "i < length buf" "d \<noteq> buf ! i" "i < 36 \<or> 40 \<le> i"
  shows "BlockParse crc (buf[i := d]) = None"
proof -
  have fit: "128 + payload_size c m ch < 2 ^ 32" using assms(3) by (simp add: payload_size_def)
  let ?h = "built_header sha now bt level c m ch dim emb fe es ca" and ?b = "buf[i := d]"
  obtain x where x: "BlockParse crc buf = Some (?h\<lparr>bh_crc32 := x\<rparr>)" "buf = header_bytes (?h\<lparr>bh_crc32 := x\<rparr>) @ c @ m @ ch"
    using BlockParse_built[OF fit assms(2)] by blast
  have len: "length buf = 128 + payload_size c m ch" unfolding x(2) by (simp add: payload_size_def)
  have ho: "header_of buf = ?h\<lparr>bh_crc32 := x\<rparr>" unfolding x(2) by (rule header_of_block) simp
  have ts: "GetU32 (drop 36 buf) = of_nat (128 + payload_size c m ch)"
    using arg_cong[OF ho, of bh_total_size] by (simp add: header_of_def built_header_def Let_def)
  have "GetU32 (drop 36 ?b) = GetU32 (drop 36 buf)" using assms(6) len by (intro GetU32_window) auto
  then have un: "unat (bh_total_size (header_of ?b)) = length buf"
    using ts unat_len[OF fit] len by (simp add: header_of_def)
  have cb: "BlockComputeCrc32 crc buf (length buf) = Crc32 (take 80 buf @ drop 84 buf)"
    and cb': "BlockComputeCrc32 crc ?b (length buf) = Crc32 (take 80 ?b @ drop 84 ?b)"
    using crc32_library.covered[OF assms(1), of buf "length buf"] crc32_library.covered[OF assms(1), of ?b "length buf"] len fit by simp_all
  have good: "Crc32 (take 80 buf @ drop 84 buf) = GetU32 (drop 80 buf)"
    using BlockParse_crc[OF x(1)] cb ts len unat_len[OF fit] by simp
  have "BlockComputeCrc32 crc ?b (length buf) \<noteq> GetU32 (drop 80 ?b)"
  proof (cases "i < 80 \<or> 84 \<le> i")
    case True
    obtain j where j: "j < length (take 80 buf @ drop 84 buf)" "(take 80 buf @ drop 84 buf) ! j = buf ! i"
      "take 80 ?b @ drop 84 ?b = (take 80 buf @ drop 84 buf)[j := d]"
      using covered_update[of buf i d, OF _ assms(4) True] len by auto
    have "GetU32 (drop 80 ?b) = GetU32 (drop 80 buf)" using True len by (intro GetU32_window) auto
    then show ?thesis using Crc32_one_byte[OF j(1), of d] j(2,3) assms(5) cb' good by simp
  next
    case False
    then have i: "80 \<le> i" "i < 84" by auto
    have same: "take 80 ?b @ drop 84 ?b = take 80 buf @ drop 84 buf" using i by simp
    have "take 4 (drop 80 ?b) \<noteq> take 4 (drop 80 buf)"
    proof
      assume e: "take 4 (drop 80 ?b) = take 4 (drop 80 buf)"
      have "take 4 (drop 80 ?b) ! (i - 80) = d" "take 4 (drop 80 buf) ! (i - 80) = buf ! i" using i len by simp_all
      then show False using e assms(5) by simp
    qed
    moreover have "length (take 4 (drop 80 ?b)) = 4" "length (take 4 (drop 80 buf)) = 4" using len by simp_all
    ultimately have "GetU32 (take 4 (drop 80 ?b)) \<noteq> GetU32 (take 4 (drop 80 buf))" using GetU32_inj by blast
    then show ?thesis using same good cb' by (simp add: Get_take)
  qed
  then show ?thesis using un by (simp add: BlockParse_def Let_def header_of_def)
qed

theorem damaged_block_rejected_witness:
  "\<exists>buf. BlockBuild running_crc (\<lambda>b. None) 0 kBlockFile kLevelL3 [1, 2] [3] [4] 8 9 1 2 0 = Some buf \<and>
     BlockParse running_crc (buf[129 := 7]) = None"
proof -
  let ?h = "built_header (\<lambda>b. None) 0 kBlockFile kLevelL3 [1, 2] [3] [4] 8 9 1 2 0"
  have fit: "128 + payload_size [1, 2] [3] [4] < 2 ^ 32" by (simp add: payload_size_def)
  obtain buf where b: "BlockBuild running_crc (\<lambda>b. None) 0 kBlockFile kLevelL3 [1, 2] [3] [4] 8 9 1 2 0 = Some buf"
    using BlockBuild_fits[OF fit] by (simp add: Let_def)
  obtain x where x: "buf = header_bytes (?h\<lparr>bh_crc32 := x\<rparr>) @ [1, 2] @ [3] @ [4]" using BlockParse_built[OF fit b] by blast
  have "buf ! 129 = 2" "length buf = 132" unfolding x by (simp_all add: nth_append)
  with damaged_block_rejected[OF zlib.crc32_library_axioms b, of 129 7] b show ?thesis by simp
qed

text \<open>
  A header with a small total size is accepted whatever it says.  \<open>BlockParse\<close> has no lower bound for the
  total size, and the checksum of fewer than 80 bytes is zero; so every buffer of at least 128 bytes with the
  right magic and version, a total size below 80 and a zero checksum field parses, with arbitrary offsets and
  lengths, which may lie outside the buffer.
\<close>
theorem short_total_size_accepted:
  assumes "crc32_library crc" "128 \<le> length data" "GetU32 data = kBlockMagic" "GetU16 (drop 4 data) = kHeaderVersion"
    and "unat (GetU32 (drop 36 data)) < 80" "GetU32 (drop 80 data) = 0"
  shows "BlockParse crc data = Some (header_of data)"
  using assms(2-6) crc32_library.short[OF assms(1,5)] by (simp add: BlockParse_def Let_def header_of_def)

text \<open>A forged header: no total size, and content that claims four gigabytes.\<close>

definition forged_header :: block_header where
  "forged_header = BlockHeaderInit\<lparr>bh_content_offset := 0x7FFFFFFF, bh_content_length := 0xFFFFFFFF\<rparr>"

theorem short_total_size_accepted_witness:
  "\<exists>h. BlockParse running_crc (header_bytes forged_header) = Some h \<and> bh_content_length h = 0xFFFFFFFF"
proof -
  have r: "length (bh_reserved forged_header) = 41" by (simp add: forged_header_def BlockHeaderInit_def)
  have ho: "header_of (header_bytes forged_header) = forged_header" using header_of_bytes[OF r, of "[]"] by simp
  have f: "GetU32 (header_bytes forged_header) = kBlockMagic" "GetU16 (drop 4 (header_bytes forged_header)) = kHeaderVersion"
    "GetU32 (drop 36 (header_bytes forged_header)) = 0" "GetU32 (drop 80 (header_bytes forged_header)) = 0"
    using arg_cong[OF ho, of bh_magic] arg_cong[OF ho, of bh_header_version] arg_cong[OF ho, of bh_total_size] arg_cong[OF ho, of bh_crc32]
    by (simp_all add: header_of_def) (simp_all add: forged_header_def BlockHeaderInit_def)
  show ?thesis
    using short_total_size_accepted[OF zlib.crc32_library_axioms _ f(1,2) _ f(4)] f(3) r ho by (simp add: forged_header_def)
qed

section \<open>The diagnostic text\<close>

lemma length_to_string: "n < 10 ^ k \<Longrightarrow> 0 < k \<Longrightarrow> length (to_string n) \<le> k"
proof (induction k arbitrary: n)
  case (Suc k)
  show ?case
  proof (cases "n < 10")
    case False
    then have "n div 10 < 10 ^ k" "0 < k" using Suc.prems by (auto intro!: Nat.gr0I simp: less_mult_imp_div_less mult.commute)
    with Suc.IH[of "n div 10"] False show ?thesis by (simp add: to_string.simps[of n])
  qed (simp add: to_string.simps[of n])
qed simp

lemma length_hex_fixed [simp]: "length (hex_fixed w n) = w"
  by (simp add: hex_fixed_def)

lemma length_names: "length (BlockTypeName t) \<le> 8" "length (EnrichName e) \<le> 9"
  by (simp_all add: BlockTypeName_def EnrichName_def)

text \<open>
  The diagnostic text of a header is never cut: it is at most 174 characters, which fit the 256-byte buffer.
\<close>
theorem header_text_fits:
  "BlockHeaderToString (Some h) = header_text h \<and> length (header_text h) \<le> 174"
proof -
  have n: "unat (bh_header_version h) < 10 ^ 5" "unat (bh_processing_level h) < 10 ^ 3" "unat (bh_compression_algo h) < 10 ^ 3"
    "unat (bh_total_size h) < 10 ^ 10"
  proof -
    have "unat (bh_header_version h) < 2 ^ LENGTH(16)" "unat (bh_processing_level h) < 2 ^ LENGTH(8)"
      "unat (bh_compression_algo h) < 2 ^ LENGTH(8)" "unat (bh_total_size h) < 2 ^ LENGTH(32)" by (rule unsigned_less)+
    then show "unat (bh_header_version h) < 10 ^ 5" "unat (bh_processing_level h) < 10 ^ 3" "unat (bh_compression_algo h) < 10 ^ 3"
      "unat (bh_total_size h) < 10 ^ 10" by simp_all
  qed
  note l = length_to_string[OF n(1)] length_to_string[OF n(2)] length_to_string[OF n(3)] length_to_string[OF n(4)]
    length_names(1)[of "bh_block_type h"] length_names(2)[of "bh_enrichment_source h"]
  have "length (header_text h) \<le> 174" using l by (simp add: header_text_def)
  then show ?thesis by (simp add: BlockHeaderToString_def)
qed

end
