(* ===== verification/Spc_Queue.thy ===== *)
theory Spc_Queue
  imports Prelude "HOL-Library.Multiset" "HOL-Library.Product_Lexorder"
begin

text \<open>
  The task queue of the processing pipeline (\<^verbatim>\<open>include/cortrix/spc/spc_task.h\<close>, \<^verbatim>\<open>src/spc/spc_task_queue.cpp\<close>) and the
  query \<open>HasActiveTask\<close> of its manager (\<^verbatim>\<open>src/spc/spc_manager.cpp\<close>).  Every method runs under the queue's mutex and
  is one step.  All fields of a task but its cleaning summary are modelled; its cancel mark is only written by the queue.
  \<open>std::sort\<close> is a parameter: it promises a sorted permutation and nothing about equal elements.
\<close>

section \<open>Tasks\<close>

datatype SPCPriority = kP0 | kP1 | kP2

fun priority_code :: "SPCPriority \<Rightarrow> int" where
  "priority_code kP0 = 0" | "priority_code kP1 = 1" | "priority_code kP2 = 2"

datatype SPCStage = kQueued | kParsing | kChunking | kEmbedding | kAssembling | kDone | kError | kCancelled

record SPCTask =
  tk_task_id :: int
  tk_doc_id :: string
  tk_namespace_name :: string
  tk_source_path :: string
  tk_source_type :: string
  tk_content_hash :: string
  tk_mime_type :: string
  tk_processing_level :: u8
  tk_priority :: SPCPriority
  tk_created_at_us :: int
  tk_file_size :: int
  tk_stage :: SPCStage
  tk_cancelled :: bool
  tk_error_message :: string
  tk_error_code :: string
  tk_metadata_json :: string
  tk_is_update :: bool
  tk_old_doc_id :: string

text \<open>A task with the initial values of the struct.\<close>

definition SPCTask_default :: SPCTask where
  "SPCTask_default = \<lparr>tk_task_id = 0, tk_doc_id = [], tk_namespace_name = [], tk_source_path = [], tk_source_type = [],
     tk_content_hash = [], tk_mime_type = [], tk_processing_level = 3, tk_priority = kP1, tk_created_at_us = 0, tk_file_size = 0,
     tk_stage = kQueued, tk_cancelled = False, tk_error_message = [], tk_error_code = [], tk_metadata_json = [],
     tk_is_update = False, tk_old_doc_id = []\<rparr>"

text \<open>The comparison of the sort.\<close>

definition before :: "SPCTask \<Rightarrow> SPCTask \<Rightarrow> bool" where
  "before a b = (let pa = priority_code (tk_priority a); pb = priority_code (tk_priority b) in
     if pa \<noteq> pb then pa < pb else tk_created_at_us a < tk_created_at_us b)"

section \<open>The queue\<close>

record SPCTaskQueue =
  sq_max_size :: int
  sq_queue :: "SPCTask list"
  sq_running :: "string \<rightharpoonup> int"
  sq_stopped :: bool

definition SPCTaskQueue_new :: "int \<Rightarrow> SPCTaskQueue" where
  "SPCTaskQueue_new max_size = \<lparr>sq_max_size = max_size, sq_queue = [], sq_running = Map.empty, sq_stopped = False\<rparr>"

definition Push :: "(SPCTask list \<Rightarrow> SPCTask list) \<Rightarrow> SPCTask \<Rightarrow> SPCTaskQueue \<Rightarrow> int \<times> SPCTaskQueue" where
  "Push srt task q =
     (if sq_stopped q then (- 1, q)
      else if int (length (sq_queue q)) \<ge> sq_max_size q then (- 1, q)
      else (0, q\<lparr>sq_queue := srt (sq_queue q @ [task])\<rparr>))"

text \<open>\<open>++running_[doc_id]\<close> starts from zero when the entry is absent.\<close>

definition bump :: "string \<Rightarrow> (string \<rightharpoonup> int) \<Rightarrow> string \<rightharpoonup> int" where
  "bump d m = m(d \<mapsto> (case m d of None \<Rightarrow> 1 | Some n \<Rightarrow> n + 1))"

text \<open>Leave out cancelled tasks: the task to return, if any, and the rest of the queue.\<close>

fun skip_cancelled :: "SPCTask \<Rightarrow> SPCTask list \<Rightarrow> SPCTask option \<times> SPCTask list" where
  "skip_cancelled task [] = (if tk_cancelled task then None else Some task, [])"
| "skip_cancelled task (t # ts) = (if tk_cancelled task then skip_cancelled t ts else (Some task, t # ts))"

text \<open>\<open>None\<close> is a call that blocks; otherwise the task (\<open>None\<close> for the null pointer) and the queue.\<close>

definition Pop :: "SPCTaskQueue \<Rightarrow> (SPCTask option \<times> SPCTaskQueue) option" where
  "Pop q =
     (if \<not> sq_stopped q \<and> sq_queue q = [] then None
      else case sq_queue q of
        [] \<Rightarrow> Some (None, q)
      | task # rest \<Rightarrow>
          (case skip_cancelled task rest of
             (None, rest) \<Rightarrow> Some (None, q\<lparr>sq_queue := rest\<rparr>)
           | (Some t, rest) \<Rightarrow> Some (Some t, q\<lparr>sq_queue := rest, sq_running := bump (tk_doc_id t) (sq_running q)\<rparr>)))"

definition FinishTask :: "string \<Rightarrow> SPCTaskQueue \<Rightarrow> SPCTaskQueue" where
  "FinishTask doc_id q = (case sq_running q doc_id of
     None \<Rightarrow> q
   | Some n \<Rightarrow> if n - 1 \<le> 0 then q\<lparr>sq_running := (sq_running q)(doc_id := None)\<rparr>
               else q\<lparr>sq_running := (sq_running q)(doc_id \<mapsto> n - 1)\<rparr>)"

definition BeginRunning :: "string \<Rightarrow> SPCTaskQueue \<Rightarrow> SPCTaskQueue" where
  "BeginRunning doc_id q = q\<lparr>sq_running := bump doc_id (sq_running q)\<rparr>"

definition IsRunning :: "string \<Rightarrow> SPCTaskQueue \<Rightarrow> bool" where
  "IsRunning doc_id q = (case sq_running q doc_id of None \<Rightarrow> False | Some n \<Rightarrow> n > 0)"

definition cancels :: "string \<Rightarrow> string \<Rightarrow> string \<Rightarrow> SPCTask \<Rightarrow> bool" where
  "cancels ns ty pa task \<longleftrightarrow> tk_namespace_name task = ns \<and> tk_source_type task = ty \<and> tk_source_path task = pa \<and> \<not> tk_cancelled task"

definition CancelQueuedVersions :: "string \<Rightarrow> string \<Rightarrow> string \<Rightarrow> SPCTaskQueue \<Rightarrow> int \<times> SPCTaskQueue" where
  "CancelQueuedVersions ns ty pa q =
     (int (length (filter (cancels ns ty pa) (sq_queue q))),
      q\<lparr>sq_queue := map (\<lambda>t. if cancels ns ty pa t then t\<lparr>tk_cancelled := True, tk_stage := kCancelled\<rparr> else t) (sq_queue q)\<rparr>)"

definition HasQueuedTask :: "string \<Rightarrow> SPCTaskQueue \<Rightarrow> bool" where
  "HasQueuedTask doc_id q = list_ex (\<lambda>t. tk_doc_id t = doc_id \<and> \<not> tk_cancelled t) (sq_queue q)"

definition sq_Stop :: "SPCTaskQueue \<Rightarrow> SPCTaskQueue" where
  "sq_Stop q = q\<lparr>sq_stopped := True\<rparr>"

definition DrainRemaining :: "SPCTaskQueue \<Rightarrow> SPCTask list \<times> SPCTaskQueue" where
  "DrainRemaining q = (filter (\<lambda>t. \<not> tk_cancelled t) (sq_queue q), q\<lparr>sq_queue := []\<rparr>)"

definition sq_Size :: "SPCTaskQueue \<Rightarrow> nat" where
  "sq_Size q = length (sq_queue q)"

definition IsStopped :: "SPCTaskQueue \<Rightarrow> bool" where
  "IsStopped q = sq_stopped q"

text \<open>\<open>HasActiveTask\<close> takes the lock twice: the second query sees a later state of the queue.\<close>

definition HasActiveTask :: "string \<Rightarrow> SPCTaskQueue \<Rightarrow> SPCTaskQueue \<Rightarrow> bool" where
  "HasActiveTask doc_id q q' = (HasQueuedTask doc_id q \<or> IsRunning doc_id q')"

section \<open>Steps\<close>

datatype sq_event =
    EvPush SPCTask | EvReject SPCTask | EvPop SPCTask | EvPopNull | EvBegin string | EvFinish string
  | EvCancel string string string | EvStop | EvDrain "SPCTask list"

inductive sq_step :: "(SPCTask list \<Rightarrow> SPCTask list) \<Rightarrow> SPCTaskQueue \<Rightarrow> sq_event \<Rightarrow> SPCTaskQueue \<Rightarrow> bool" for srt where
  push: "Push srt t q = (0, q') \<Longrightarrow> sq_step srt q (EvPush t) q'"
| reject: "Push srt t q = (- 1, q') \<Longrightarrow> sq_step srt q (EvReject t) q'"
| pop: "Pop q = Some (Some t, q') \<Longrightarrow> sq_step srt q (EvPop t) q'"
| pop_null: "Pop q = Some (None, q') \<Longrightarrow> sq_step srt q EvPopNull q'"
| begin_running: "sq_step srt q (EvBegin d) (BeginRunning d q)"
| finish: "IsRunning d q \<Longrightarrow> sq_step srt q (EvFinish d) (FinishTask d q)"
| cancel: "CancelQueuedVersions ns ty pa q = (n, q') \<Longrightarrow> sq_step srt q (EvCancel ns ty pa) q'"
| stop: "sq_step srt q EvStop (sq_Stop q)"
| drain: "DrainRemaining q = (ts, q') \<Longrightarrow> sq_step srt q (EvDrain ts) q'"

inductive sq_run :: "(SPCTask list \<Rightarrow> SPCTask list) \<Rightarrow> SPCTaskQueue \<Rightarrow> sq_event list \<Rightarrow> SPCTaskQueue \<Rightarrow> bool" for srt where
  none: "sq_run srt q [] q"
| more: "sq_run srt q evs q1 \<Longrightarrow> sq_step srt q1 ev q2 \<Longrightarrow> sq_run srt q (evs @ [ev]) q2"

inductive_cases sq_stepE: "sq_step srt q ev q'"

section \<open>What the sort promises\<close>

locale task_sort =
  fixes srt :: "SPCTask list \<Rightarrow> SPCTask list"
  assumes permutes: "mset (srt ts) = mset ts"
    and ordered: "sorted_wrt (\<lambda>a b. \<not> before b a) (srt ts)"
begin

lemma set_srt [simp]: "set (srt ts) = set ts"
  by (metis permutes set_mset_mset)

lemma length_srt [simp]: "length (srt ts) = length ts"
  by (metis permutes size_mset)

end

text \<open>Sorting by priority and creation time keeps the promise.\<close>

definition stable_sort :: "SPCTask list \<Rightarrow> SPCTask list" where
  "stable_sort ts = sort_key (\<lambda>t. (priority_code (tk_priority t), tk_created_at_us t)) ts"

lemma before_key:
  "before a b \<longleftrightarrow> (priority_code (tk_priority a), tk_created_at_us a) < (priority_code (tk_priority b), tk_created_at_us b)"
  by (auto simp: before_def Let_def less_prod_def)

interpretation spc_sort: task_sort stable_sort
proof
  fix ts :: "SPCTask list"
  let ?k = "\<lambda>t. (priority_code (tk_priority t), tk_created_at_us t)"
  show "mset (stable_sort ts) = mset ts" by (simp add: stable_sort_def)
  have "sorted_wrt (\<le>) (map ?k (stable_sort ts))" unfolding stable_sort_def by (rule sorted_sort_key)
  then show "sorted_wrt (\<lambda>a b. \<not> before b a) (stable_sort ts)"
    unfolding sorted_wrt_map by (rule sorted_wrt_mono_rel[rotated]) (auto simp: before_key not_less)
qed

section \<open>Invariant\<close>

definition in_order :: "SPCTask list \<Rightarrow> bool" where
  "in_order ts \<longleftrightarrow> sorted_wrt (\<lambda>a b. \<not> before b a) ts"

definition sq_inv :: "SPCTaskQueue \<Rightarrow> bool" where
  "sq_inv q \<longleftrightarrow> in_order (sq_queue q) \<and> int (length (sq_queue q)) \<le> max 0 (sq_max_size q) \<and> (\<forall>d n. sq_running q d = Some n \<longrightarrow> n > 0)"

lemma skip_cancelled_split:
  "skip_cancelled t ts = (r, rest) \<Longrightarrow>
   \<exists>pre. t # ts = pre @ (case r of None \<Rightarrow> [] | Some x \<Rightarrow> [x]) @ rest \<and> (\<forall>x\<in>set pre. tk_cancelled x) \<and>
     (case r of None \<Rightarrow> rest = [] | Some x \<Rightarrow> \<not> tk_cancelled x)"
proof (induction ts arbitrary: t)
  case Nil
  then show ?case by (cases "tk_cancelled t") (auto intro: exI[of _ "[t]"])
next
  case (Cons u ts)
  show ?case
  proof (cases "tk_cancelled t")
    case True
    with Cons.prems Cons.IH[of u] obtain pre where
      "u # ts = pre @ (case r of None \<Rightarrow> [] | Some x \<Rightarrow> [x]) @ rest" "\<forall>x\<in>set pre. tk_cancelled x"
      "case r of None \<Rightarrow> rest = [] | Some x \<Rightarrow> \<not> tk_cancelled x" by auto
    with True show ?thesis by (intro exI[of _ "t # pre"]) auto
  next
    case False
    with Cons.prems show ?thesis by (intro exI[of _ "[]"]) auto
  qed
qed

lemma Pop_some:
  assumes "Pop q = Some (Some t, q')"
  shows "\<exists>pre. sq_queue q = pre @ t # sq_queue q' \<and> (\<forall>x\<in>set pre. tk_cancelled x) \<and> \<not> tk_cancelled t \<and>
    q' = q\<lparr>sq_queue := sq_queue q', sq_running := bump (tk_doc_id t) (sq_running q)\<rparr>"
proof -
  obtain u us where u: "sq_queue q = u # us" using assms by (auto simp: Pop_def split: if_splits list.splits)
  obtain r rest where r: "skip_cancelled u us = (r, rest)" by fastforce
  have "r = Some t" "q' = q\<lparr>sq_queue := rest, sq_running := bump (tk_doc_id t) (sq_running q)\<rparr>"
    using assms u r by (auto simp: Pop_def split: option.splits)
  with skip_cancelled_split[OF r] u show ?thesis by auto
qed

lemma Pop_null:
  assumes "Pop q = Some (None, q')"
  shows "(\<forall>x\<in>set (sq_queue q). tk_cancelled x) \<and> q' = q\<lparr>sq_queue := []\<rparr>"
proof (cases "sq_queue q")
  case Nil
  then show ?thesis using assms by (auto simp: Pop_def split: if_splits)
next
  case (Cons u us)
  obtain r rest where r: "skip_cancelled u us = (r, rest)" by fastforce
  have q': "r = None" "q' = q\<lparr>sq_queue := rest\<rparr>"
    using assms Cons r by (auto simp: Pop_def split: option.splits)
  from skip_cancelled_split[OF r] q'(1) have "rest = []" "\<forall>x\<in>set (u # us). tk_cancelled x" by auto
  with q'(2) Cons show ?thesis by simp
qed

lemma Push_cases:
  assumes "Push srt t q = (r, q')"
  shows "r = - 1 \<and> q' = q \<or> r = 0 \<and> \<not> sq_stopped q \<and> int (length (sq_queue q)) < sq_max_size q \<and> q' = q\<lparr>sq_queue := srt (sq_queue q @ [t])\<rparr>"
  using assms by (auto simp: Push_def split: if_splits)

lemma bump_apply: "bump d m e = (if e = d then Some (case m d of None \<Rightarrow> 1 | Some n \<Rightarrow> n + 1) else m e)"
  by (simp add: bump_def)

lemma in_order_cancel:
  "in_order (map (\<lambda>t. if P t then t\<lparr>tk_cancelled := True, tk_stage := kCancelled\<rparr> else t) ts) \<longleftrightarrow> in_order ts"
proof -
  have "before (if P a then a\<lparr>tk_cancelled := True, tk_stage := kCancelled\<rparr> else a)
      (if P b then b\<lparr>tk_cancelled := True, tk_stage := kCancelled\<rparr> else b) \<longleftrightarrow> before a b" for a b
    by (simp add: before_def)
  then show ?thesis by (simp add: in_order_def sorted_wrt_map)
qed

lemma sq_inv_step:
  assumes "task_sort srt" "sq_step srt q ev q'" "sq_inv q"
  shows "sq_inv q'"
  using assms(2)
proof cases
  case (push t)
  with Push_cases[of srt t q 0 q'] assms(3) show ?thesis
    by (auto simp: sq_inv_def in_order_def task_sort.ordered[OF assms(1)] task_sort.length_srt[OF assms(1)])
next
  case (reject t)
  with Push_cases[of srt t q "- 1" q'] assms(3) show ?thesis by auto
next
  case (pop t)
  then obtain pre where p: "sq_queue q = pre @ t # sq_queue q'" "q' = q\<lparr>sq_queue := sq_queue q', sq_running := bump (tk_doc_id t) (sq_running q)\<rparr>"
    using Pop_some by blast
  have "in_order (sq_queue q')" using assms(3) p(1) by (simp add: sq_inv_def in_order_def sorted_wrt_append)
  moreover have "sq_max_size q' = sq_max_size q" "sq_running q' = bump (tk_doc_id t) (sq_running q)" by (subst p(2); simp)+
  ultimately show ?thesis using assms(3) p(1) by (fastforce simp: sq_inv_def bump_apply split: option.splits if_splits)
next
  case pop_null
  then have "q' = q\<lparr>sq_queue := []\<rparr>" using Pop_null by blast
  then show ?thesis using assms(3) by (auto simp: sq_inv_def in_order_def)
next
  case (begin_running d)
  then show ?thesis using assms(3) by (fastforce simp: sq_inv_def BeginRunning_def bump_apply split: option.splits if_splits)
next
  case (finish d)
  then show ?thesis using assms(3) by (auto simp: sq_inv_def FinishTask_def split: option.splits if_splits)
next
  case (cancel ns ty pa n)
  then show ?thesis using assms(3) by (auto simp: sq_inv_def CancelQueuedVersions_def in_order_cancel)
next
  case stop
  then show ?thesis using assms(3) by (auto simp: sq_inv_def sq_Stop_def)
next
  case (drain ts)
  then show ?thesis using assms(3) by (auto simp: sq_inv_def DrainRemaining_def in_order_def)
qed

lemma sq_run_inv:
  assumes "task_sort srt" "sq_run srt q evs q'" "sq_inv q"
  shows "sq_inv q'"
  using assms(2,3) by (induction rule: sq_run.induct) (auto intro: sq_inv_step[OF assms(1)])

lemma sq_inv_new [simp]: "sq_inv (SPCTaskQueue_new n)"
  by (auto simp: sq_inv_def SPCTaskQueue_new_def in_order_def)

section \<open>Properties\<close>

text \<open>
  \<open>Pop\<close> returns the best task.  In every reachable queue a popped task is not cancelled, no other task that
  waits uncancelled has a higher priority, or the same priority and an earlier creation time; exactly this task and
  cancelled ones leave the queue, and its document counts as running in the same step.
\<close>
theorem pop_takes_best:
  assumes "task_sort srt" "sq_run srt (SPCTaskQueue_new n) evs q" "Pop q = Some (Some t, q')"
  shows "\<not> tk_cancelled t \<and> (\<forall>u\<in>set (sq_queue q). \<not> tk_cancelled u \<longrightarrow> \<not> before u t) \<and>
    filter (\<lambda>u. \<not> tk_cancelled u) (sq_queue q) = t # filter (\<lambda>u. \<not> tk_cancelled u) (sq_queue q') \<and> IsRunning (tk_doc_id t) q'"
proof -
  have inv: "sq_inv q" by (rule sq_run_inv[OF assms(1,2) sq_inv_new])
  obtain pre where p: "sq_queue q = pre @ t # sq_queue q'" "\<forall>x\<in>set pre. tk_cancelled x" "\<not> tk_cancelled t"
    "q' = q\<lparr>sq_queue := sq_queue q', sq_running := bump (tk_doc_id t) (sq_running q)\<rparr>" using Pop_some[OF assms(3)] by blast
  have "\<forall>u\<in>set (sq_queue q'). \<not> before u t" using inv p(1) by (simp add: sq_inv_def in_order_def sorted_wrt_append)
  moreover have "\<not> before t t" by (simp add: before_def)
  moreover have f: "filter (\<lambda>u. \<not> tk_cancelled u) pre = []" using p(2) by (simp add: filter_empty_conv)
  moreover have "IsRunning (tk_doc_id t) q'"
  proof -
    have "sq_running q' = bump (tk_doc_id t) (sq_running q)" by (subst p(4)) simp
    then show ?thesis using inv by (fastforce simp: IsRunning_def bump_apply sq_inv_def split: option.splits)
  qed
  ultimately show ?thesis using p(1-3) by auto
qed

definition sample_task :: "int \<Rightarrow> SPCPriority \<Rightarrow> SPCTask" where
  "sample_task i p = SPCTask_default\<lparr>tk_task_id := i, tk_doc_id := ''d'', tk_namespace_name := ''n'', tk_source_path := ''p'',
     tk_source_type := ''s'', tk_priority := p, tk_created_at_us := i\<rparr>"

lemma two_pushes:
  "sq_run stable_sort (SPCTaskQueue_new 5) [EvPush (sample_task 1 kP1), EvPush (sample_task 2 kP0)]
     ((SPCTaskQueue_new 5)\<lparr>sq_queue := [sample_task 2 kP0, sample_task 1 kP1]\<rparr>)"
proof -
  let ?q = "SPCTaskQueue_new 5" and ?a = "sample_task 1 kP1" and ?b = "sample_task 2 kP0"
  have "Push stable_sort ?a ?q = (0, ?q\<lparr>sq_queue := [?a]\<rparr>)" by (simp add: Push_def SPCTaskQueue_new_def stable_sort_def)
  then have r: "sq_run stable_sort ?q ([] @ [EvPush ?a]) (?q\<lparr>sq_queue := [?a]\<rparr>)" by (intro sq_run.more[OF sq_run.none] sq_step.push)
  have "Push stable_sort ?b (?q\<lparr>sq_queue := [?a]\<rparr>) = (0, ?q\<lparr>sq_queue := [?b, ?a]\<rparr>)"
    by (simp add: Push_def SPCTaskQueue_new_def stable_sort_def sample_task_def SPCTask_default_def)
  from sq_run.more[OF r sq_step.push[OF this]] show ?thesis by simp
qed

theorem pop_takes_best_witness:
  "\<exists>q q' t. sq_run stable_sort (SPCTaskQueue_new 5) [EvPush (sample_task 1 kP1), EvPush (sample_task 2 kP0)] q \<and>
     Pop q = Some (Some t, q') \<and> t = sample_task 2 kP0 \<and> IsRunning (tk_doc_id t) q'"
proof -
  let ?q = "(SPCTaskQueue_new 5)\<lparr>sq_queue := [sample_task 2 kP0, sample_task 1 kP1]\<rparr>"
  obtain q' where "Pop ?q = Some (Some (sample_task 2 kP0), q')" by (simp add: Pop_def sample_task_def SPCTask_default_def)
  with pop_takes_best[OF spc_sort.task_sort_axioms two_pushes this] two_pushes show ?thesis by blast
qed

text \<open>How often a document was started and finished, and the tasks that went in and out.\<close>

definition task_starts :: "string \<Rightarrow> sq_event list \<Rightarrow> int" where
  "task_starts d evs = int (length (filter (\<lambda>ev. case ev of EvPop t \<Rightarrow> tk_doc_id t = d | EvBegin e \<Rightarrow> e = d | _ \<Rightarrow> False) evs))"

definition task_finishes :: "string \<Rightarrow> sq_event list \<Rightarrow> int" where
  "task_finishes d evs = int (length (filter (\<lambda>ev. ev = EvFinish d) evs))"

fun pushed :: "sq_event list \<Rightarrow> SPCTask list" where
  "pushed [] = []" | "pushed (EvPush t # evs) = t # pushed evs" | "pushed (_ # evs) = pushed evs"

fun handed_out :: "sq_event list \<Rightarrow> SPCTask list" where
  "handed_out [] = []" | "handed_out (EvPop t # evs) = t # handed_out evs" | "handed_out (EvDrain ts # evs) = ts @ handed_out evs"
| "handed_out (_ # evs) = handed_out evs"

definition no_cancel :: "sq_event list \<Rightarrow> bool" where
  "no_cancel evs \<longleftrightarrow> (\<forall>ns ty pa. EvCancel ns ty pa \<notin> set evs) \<and> (\<forall>t\<in>set (pushed evs). \<not> tk_cancelled t)"

lemma pushed_append [simp]: "pushed (xs @ ys) = pushed xs @ pushed ys"
  by (induction xs rule: pushed.induct) auto

lemma handed_out_append [simp]: "handed_out (xs @ ys) = handed_out xs @ handed_out ys"
  by (induction xs rule: handed_out.induct) auto

definition running_of :: "string \<Rightarrow> SPCTaskQueue \<Rightarrow> int" where
  "running_of d q = (case sq_running q d of None \<Rightarrow> 0 | Some n \<Rightarrow> n)"

lemma running_of_bump: "running_of d (q\<lparr>sq_queue := ts, sq_running := bump e (sq_running q)\<rparr>) = running_of d q + (if d = e then 1 else 0)"
  "running_of d (q\<lparr>sq_running := bump e (sq_running q)\<rparr>) = running_of d q + (if d = e then 1 else 0)"
  by (simp_all add: running_of_def bump_apply split: option.split)

lemma running_step:
  assumes "task_sort srt" "sq_step srt q ev q'" "sq_inv q"
  shows "running_of d q' = running_of d q + task_starts d [ev] - task_finishes d [ev]"
  using assms(2)
proof cases
  case (push t)
  then show ?thesis using Push_cases[of srt t q 0 q'] by (auto simp: task_starts_def task_finishes_def running_of_def)
next
  case (reject t)
  then show ?thesis using Push_cases[of srt t q "- 1" q'] by (auto simp: task_starts_def task_finishes_def)
next
  case (pop t)
  then have "q' = q\<lparr>sq_queue := sq_queue q', sq_running := bump (tk_doc_id t) (sq_running q)\<rparr>" using Pop_some by blast
  then have "running_of d q' = running_of d q + (if d = tk_doc_id t then 1 else 0)" using running_of_bump(1) by metis
  then show ?thesis using pop by (simp add: task_starts_def task_finishes_def)
next
  case pop_null
  then show ?thesis using Pop_null[of q q'] by (auto simp: task_starts_def task_finishes_def running_of_def)
next
  case (begin_running e)
  then show ?thesis by (simp add: task_starts_def task_finishes_def BeginRunning_def running_of_bump)
next
  case (finish e)
  then show ?thesis using assms(3)
    by (fastforce simp: task_starts_def task_finishes_def FinishTask_def running_of_def IsRunning_def sq_inv_def split: option.splits)
qed (auto simp: task_starts_def task_finishes_def running_of_def CancelQueuedVersions_def sq_Stop_def DrainRemaining_def)

lemma tasks_step:
  assumes "task_sort srt" "sq_step srt q ev q'" "no_cancel [ev]" "\<forall>t\<in>set (sq_queue q). \<not> tk_cancelled t"
  shows "mset (sq_queue q) + mset (pushed [ev]) = mset (handed_out [ev]) + mset (sq_queue q')" "\<forall>t\<in>set (sq_queue q'). \<not> tk_cancelled t"
proof -
  have "mset (sq_queue q) + mset (pushed [ev]) = mset (handed_out [ev]) + mset (sq_queue q') \<and> (\<forall>t\<in>set (sq_queue q'). \<not> tk_cancelled t)"
    using assms(2)
  proof cases
    case (push t)
    then show ?thesis using Push_cases[of srt t q 0 q'] assms
      by (auto simp: no_cancel_def task_sort.permutes[OF assms(1)] task_sort.set_srt[OF assms(1)])
  next
    case (reject t)
    then show ?thesis using Push_cases[of srt t q "- 1" q'] assms(4) by auto
  next
    case (pop t)
    then obtain pre where p: "sq_queue q = pre @ t # sq_queue q'" "\<forall>x\<in>set pre. tk_cancelled x" using Pop_some by blast
    then have "pre = []" using assms(4) by (cases pre) auto
    then show ?thesis using p(1) pop assms(4) by simp
  next
    case pop_null
    then have "sq_queue q = []" "sq_queue q' = []" using Pop_null[of q q'] assms(4) by (auto simp: filter_empty_conv)
    then show ?thesis using pop_null by simp
  next
    case (drain ts)
    then have "filter (\<lambda>t. \<not> tk_cancelled t) (sq_queue q) = sq_queue q" using assms(4) by (simp add: filter_id_conv)
    then show ?thesis using drain by (auto simp: DrainRemaining_def)
  next
    case (finish d)
    then show ?thesis using assms(4) by (auto simp: FinishTask_def split: option.splits)
  qed (use assms(3,4) in \<open>auto simp: no_cancel_def BeginRunning_def sq_Stop_def\<close>)
  then show "mset (sq_queue q) + mset (pushed [ev]) = mset (handed_out [ev]) + mset (sq_queue q')" "\<forall>t\<in>set (sq_queue q'). \<not> tk_cancelled t" by blast+
qed

lemma running_run:
  assumes "task_sort srt" "sq_run srt q evs q'" "sq_inv q"
  shows "running_of d q' = running_of d q + task_starts d evs - task_finishes d evs"
  using assms(2,3)
proof (induction rule: sq_run.induct)
  case (more q evs q1 ev q2)
  have "task_starts d (evs @ [ev]) = task_starts d evs + task_starts d [ev]" "task_finishes d (evs @ [ev]) = task_finishes d evs + task_finishes d [ev]"
    by (simp_all add: task_starts_def task_finishes_def)
  with running_step[OF assms(1) more.hyps(2) sq_run_inv[OF assms(1) more.hyps(1) more.prems], of d] more show ?case by simp
qed (simp add: task_starts_def task_finishes_def)

lemma tasks_run:
  assumes "task_sort srt" "sq_run srt q evs q'" "no_cancel evs" "\<forall>t\<in>set (sq_queue q). \<not> tk_cancelled t"
  shows "mset (sq_queue q) + mset (pushed evs) = mset (handed_out evs) + mset (sq_queue q') \<and> (\<forall>t\<in>set (sq_queue q'). \<not> tk_cancelled t)"
  using assms(2-4)
proof (induction rule: sq_run.induct)
  case (more q evs q1 ev q2)
  have nc: "no_cancel evs" "no_cancel [ev]" using more.prems(1) by (auto simp: no_cancel_def)
  from more.IH[OF nc(1) more.prems(2)] tasks_step[OF assms(1) more.hyps(2) nc(2)]
  have "mset (sq_queue q) + mset (pushed evs) + mset (pushed [ev]) = mset (handed_out evs) + (mset (handed_out [ev]) + mset (sq_queue q2))"
    "\<forall>t\<in>set (sq_queue q2). \<not> tk_cancelled t" by (auto simp: add.assoc)
  then show ?case by (simp add: add.assoc)
qed simp

text \<open>
  The queue loses and invents nothing.  After any sequence of calls (every \<open>FinishTask\<close> paired with a running
  task) the number of running tasks of each document is the number started minus the number finished, the queue
  is no longer than its bound, and, if nothing was cancelled, the accepted tasks are exactly those handed
  out by \<open>Pop\<close> and \<open>DrainRemaining\<close> and those still waiting.
\<close>
theorem queue_accounts:
  assumes "task_sort srt" "sq_run srt (SPCTaskQueue_new n) evs q"
  shows "running_of d q = task_starts d evs - task_finishes d evs \<and> int (sq_Size q) \<le> max 0 (sq_max_size q) \<and>
    (no_cancel evs \<longrightarrow> mset (pushed evs) = mset (handed_out evs) + mset (sq_queue q))"
  using running_run[OF assms sq_inv_new, of d] sq_run_inv[OF assms sq_inv_new] tasks_run[OF assms]
  by (auto simp: running_of_def SPCTaskQueue_new_def sq_inv_def sq_Size_def)

theorem queue_accounts_witness:
  "\<exists>q. sq_run stable_sort (SPCTaskQueue_new 5) [EvPush (sample_task 1 kP1), EvPush (sample_task 2 kP0)] q \<and>
     mset (pushed [EvPush (sample_task 1 kP1), EvPush (sample_task 2 kP0)]) = mset (sq_queue q)"
  using queue_accounts[OF spc_sort.task_sort_axioms two_pushes] two_pushes by (auto simp: no_cancel_def sample_task_def SPCTask_default_def)

text \<open>
  \<open>HasActiveTask\<close> does not miss a task on its way from the queue to a worker.  If a document has a task waiting or
  running when the first of the two queries is made, and no task of it finishes before the second, the answer is
  true, whatever else happens in between.
\<close>
theorem active_task_seen:
  assumes "task_sort srt" "sq_run srt (SPCTaskQueue_new n) evs0 q" "sq_run srt q evs q'" "EvFinish d \<notin> set evs"
    and "HasQueuedTask d q \<or> IsRunning d q"
  shows "HasActiveTask d q q'"
proof -
  have inv: "sq_inv q" "sq_inv q'" using sq_run_inv[OF assms(1,2) sq_inv_new] sq_run_inv[OF assms(1,3)] by blast+
  have run: "IsRunning d p \<longleftrightarrow> running_of d p > 0" for p by (auto simp: IsRunning_def running_of_def split: option.splits)
  have "task_finishes d evs = 0" using assms(4) by (auto simp: task_finishes_def filter_empty_conv)
  moreover have "task_starts d evs \<ge> 0" by (simp add: task_starts_def)
  ultimately have "IsRunning d q \<Longrightarrow> IsRunning d q'" using running_run[OF assms(1,3) inv(1), of d] run by simp
  then show ?thesis using assms(5) by (auto simp: HasActiveTask_def)
qed

theorem active_task_seen_witness:
  "\<exists>q. HasQueuedTask ''d'' q \<and> HasActiveTask ''d'' q q"
proof -
  let ?q = "(SPCTaskQueue_new 5)\<lparr>sq_queue := [sample_task 2 kP0, sample_task 1 kP1]\<rparr>"
  have "HasQueuedTask ''d'' ?q" by (simp add: HasQueuedTask_def sample_task_def SPCTask_default_def)
  with active_task_seen[OF spc_sort.task_sort_axioms two_pushes sq_run.none, of "''d''"] show ?thesis by auto
qed

text \<open>
  A document that is always active can be reported idle.  A new task of the document arrives and its running
  task finishes between the two queries of \<open>HasActiveTask\<close>: the first finds nothing queued, the second
  nothing running.
\<close>
theorem active_document_missed:
  "\<exists>q0 q1 q2. sq_run stable_sort (SPCTaskQueue_new 5) [EvBegin ''d''] q0 \<and> sq_step stable_sort q0 (EvPush (sample_task 1 kP1)) q1 \<and>
     sq_step stable_sort q1 (EvFinish ''d'') q2 \<and> (\<forall>q\<in>{q0, q1, q2}. HasQueuedTask ''d'' q \<or> IsRunning ''d'' q) \<and>
     \<not> HasActiveTask ''d'' q0 q2"
proof -
  let ?q0 = "BeginRunning ''d'' (SPCTaskQueue_new 5)" and ?t = "sample_task 1 kP1"
  let ?q1 = "?q0\<lparr>sq_queue := [?t]\<rparr>"
  have r: "sq_run stable_sort (SPCTaskQueue_new 5) [EvBegin ''d''] ?q0"
    using sq_run.more[OF sq_run.none sq_step.begin_running] by fastforce
  have p: "sq_step stable_sort ?q0 (EvPush ?t) ?q1"
    by (rule sq_step.push) (simp add: Push_def BeginRunning_def SPCTaskQueue_new_def stable_sort_def)
  have a: "IsRunning ''d'' ?q0" "IsRunning ''d'' ?q1" by (simp_all add: IsRunning_def BeginRunning_def SPCTaskQueue_new_def bump_def)
  have f: "sq_step stable_sort ?q1 (EvFinish ''d'') (FinishTask ''d'' ?q1)" by (rule sq_step.finish[OF a(2)])
  have "HasQueuedTask ''d'' (FinishTask ''d'' ?q1)" "\<not> HasActiveTask ''d'' ?q0 (FinishTask ''d'' ?q1)"
    by (simp_all add: HasActiveTask_def HasQueuedTask_def IsRunning_def FinishTask_def BeginRunning_def SPCTaskQueue_new_def bump_def sample_task_def SPCTask_default_def)
  then show ?thesis using r p f a by blast
qed

end
