(* ===== verification/Ttl_Lru_Cache.thy ===== *)
theory Ttl_Lru_Cache
  imports Prelude "HOL-Library.AList"
begin

text \<open>
  The bounded cache with expiring entries of the catalog (\<^verbatim>\<open>include/cortrix/catalog/ttl_lru_cache.h\<close>).  The nodes of
  the \<open>std::list\<close> live in a store indexed by handles, so that an iterator kept in \<open>index_\<close> is a handle that stays
  valid while the list is spliced; \<open>index_\<close> is an association list.  Times are unbounded: the differences the code
  forms are those of millisecond clocks.  The eviction loop may in principle not end and is a partial function.
\<close>

section \<open>State\<close>

record ('k, 'v) node =
  nd_key :: 'k
  nd_value :: 'v
  nd_inserted_ms :: int

record ('k, 'v) cache =
  tc_capacity :: nat
  tc_ttl_ms :: int
  tc_order :: "nat list"
  tc_nodes :: "nat \<Rightarrow> ('k, 'v) node"
  tc_index :: "('k \<times> nat) list"
  tc_next :: nat

definition TtlLruCache_new :: "nat \<Rightarrow> int \<Rightarrow> ('k, 'v) cache" where
  "TtlLruCache_new capacity ttl_ms = \<lparr>tc_capacity = capacity, tc_ttl_ms = ttl_ms, tc_order = [],
     tc_nodes = (\<lambda>_. undefined), tc_index = [], tc_next = 0\<rparr>"

section \<open>Operations\<close>

definition Expired :: "('k, 'v) cache \<Rightarrow> ('k, 'v) node \<Rightarrow> int \<Rightarrow> bool" where
  "Expired c n now_ms \<longleftrightarrow> now_ms - nd_inserted_ms n \<ge> tc_ttl_ms c"

definition Touch :: "nat \<Rightarrow> ('k, 'v) cache \<Rightarrow> ('k, 'v) cache" where
  "Touch a c = c\<lparr>tc_order := a # remove1 a (tc_order c)\<rparr>"

definition EvictLru :: "('k, 'v) cache \<Rightarrow> ('k, 'v) cache" where
  "EvictLru c = (if tc_order c = [] then c
     else c\<lparr>tc_index := AList.delete (nd_key (tc_nodes c (last (tc_order c)))) (tc_index c), tc_order := butlast (tc_order c)\<rparr>)"

definition Erase :: "'k \<Rightarrow> nat \<Rightarrow> ('k, 'v) cache \<Rightarrow> ('k, 'v) cache" where
  "Erase k a c = c\<lparr>tc_order := remove1 a (tc_order c), tc_index := AList.delete k (tc_index c)\<rparr>"

definition lru_Get :: "'k \<Rightarrow> int \<Rightarrow> ('k, 'v) cache \<Rightarrow> 'v option \<times> ('k, 'v) cache" where
  "lru_Get key now_ms c = (case map_of (tc_index c) key of
     None \<Rightarrow> (None, c)
   | Some a \<Rightarrow> let n = tc_nodes c a in
       if Expired c n now_ms then (None, Erase key a c) else (Some (nd_value n), Touch a c))"

definition lru_size :: "('k, 'v) cache \<Rightarrow> nat" where
  "lru_size c = length (tc_index c)"

partial_function (option) evict_while :: "('k, 'v) cache \<Rightarrow> ('k, 'v) cache option" where
  "evict_while c = (if lru_size c > tc_capacity c then evict_while (EvictLru c) else Some c)"

definition lru_Put :: "'k \<Rightarrow> 'v \<Rightarrow> int \<Rightarrow> ('k, 'v) cache \<Rightarrow> ('k, 'v) cache option" where
  "lru_Put key v now_ms c =
     (if tc_capacity c = 0 then Some c
      else case map_of (tc_index c) key of
        Some a \<Rightarrow> Some (Touch a (c\<lparr>tc_nodes := (tc_nodes c)(a := (tc_nodes c a)\<lparr>nd_value := v, nd_inserted_ms := now_ms\<rparr>)\<rparr>))
      | None \<Rightarrow>
          let a = tc_next c in
          evict_while (c\<lparr>tc_next := a + 1, tc_nodes := (tc_nodes c)(a := \<lparr>nd_key = key, nd_value = v, nd_inserted_ms = now_ms\<rparr>),
                         tc_order := a # tc_order c, tc_index := AList.update key a (tc_index c)\<rparr>))"

definition Invalidate :: "'k \<Rightarrow> ('k, 'v) cache \<Rightarrow> ('k, 'v) cache" where
  "Invalidate key c = (case map_of (tc_index c) key of None \<Rightarrow> c | Some a \<Rightarrow> Erase key a c)"

definition lru_Clear :: "('k, 'v) cache \<Rightarrow> ('k, 'v) cache" where
  "lru_Clear c = c\<lparr>tc_order := [], tc_index := []\<rparr>"

section \<open>The abstract cache\<close>

text \<open>A list of cells with the most recently used first.\<close>

type_synonym ('k, 'v) cells = "('k \<times> 'v \<times> int) list"

definition drop_key :: "'k \<Rightarrow> ('k, 'v) cells \<Rightarrow> ('k, 'v) cells" where
  "drop_key k cs = filter (\<lambda>(l, _). l \<noteq> k) cs"

definition spec_get :: "int \<Rightarrow> 'k \<Rightarrow> int \<Rightarrow> ('k, 'v) cells \<Rightarrow> 'v option \<times> ('k, 'v) cells" where
  "spec_get ttl k now cs = (case map_of cs k of
     None \<Rightarrow> (None, cs)
   | Some (v, t) \<Rightarrow> if now - t \<ge> ttl then (None, drop_key k cs) else (Some v, (k, v, t) # drop_key k cs))"

definition spec_put :: "nat \<Rightarrow> 'k \<Rightarrow> 'v \<Rightarrow> int \<Rightarrow> ('k, 'v) cells \<Rightarrow> ('k, 'v) cells" where
  "spec_put cap k v now cs = take cap ((k, v, now) # drop_key k cs)"

definition cell :: "('k, 'v) node \<Rightarrow> 'k \<times> 'v \<times> int" where
  "cell n = (nd_key n, nd_value n, nd_inserted_ms n)"

definition cells_of :: "('k, 'v) cache \<Rightarrow> ('k, 'v) cells" where
  "cells_of c = map (\<lambda>a. cell (tc_nodes c a)) (tc_order c)"

section \<open>Invariant\<close>

definition tc_ok :: "('k, 'v) cache \<Rightarrow> bool" where
  "tc_ok c \<longleftrightarrow> distinct (tc_order c) \<and> distinct (map fst (tc_index c)) \<and>
     (\<forall>(k, a)\<in>set (tc_index c). a \<in> set (tc_order c) \<and> nd_key (tc_nodes c a) = k) \<and>
     (\<forall>a\<in>set (tc_order c). (nd_key (tc_nodes c a), a) \<in> set (tc_index c) \<and> a < tc_next c)"

lemma tc_okD:
  assumes "tc_ok c"
  shows "distinct (tc_order c)" "distinct (map fst (tc_index c))"
    "(k, a) \<in> set (tc_index c) \<Longrightarrow> a \<in> set (tc_order c) \<and> nd_key (tc_nodes c a) = k"
    "a \<in> set (tc_order c) \<Longrightarrow> (nd_key (tc_nodes c a), a) \<in> set (tc_index c)"
    "a \<in> set (tc_order c) \<Longrightarrow> a < tc_next c"
  using assms by (auto simp: tc_ok_def)

lemma index_lookup:
  assumes "tc_ok c"
  shows "map_of (tc_index c) k = Some a \<longleftrightarrow> (k, a) \<in> set (tc_index c)"
  using tc_okD(2)[OF assms] by simp

lemma key_inj:
  assumes "tc_ok c" "a \<in> set (tc_order c)" "b \<in> set (tc_order c)" "nd_key (tc_nodes c a) = nd_key (tc_nodes c b)"
  shows "a = b"
  using tc_okD(4)[OF assms(1,2)] tc_okD(4)[OF assms(1,3)] assms(4) eq_key_imp_eq_value[OF tc_okD(2)[OF assms(1)]] by metis

lemma size_order:
  assumes "tc_ok c"
  shows "lru_size c = length (tc_order c)"
proof -
  have "(\<lambda>a. (nd_key (tc_nodes c a), a)) ` set (tc_order c) = set (tc_index c)"
    using tc_okD(3,4)[OF assms] by auto
  moreover have "inj_on (\<lambda>a. (nd_key (tc_nodes c a), a)) (set (tc_order c))" by (auto intro: inj_onI)
  moreover have "card (set (tc_index c)) = length (tc_index c)" using tc_okD(2)[OF assms] by (simp add: distinct_card distinct_map)
  moreover have "card (set (tc_order c)) = length (tc_order c)" using tc_okD(1)[OF assms] by (rule distinct_card)
  ultimately show ?thesis unfolding lru_size_def by (metis card_image)
qed

lemma set_delete: "set (AList.delete k al) = {(l, a) \<in> set al. l \<noteq> k}"
  by (auto simp: AList.delete_eq)

lemma tc_ok_remove:
  assumes "tc_ok c" "a \<in> set (tc_order c)" "nd_key (tc_nodes c a) = k" "set ord = set (tc_order c) - {a}" "distinct ord"
  shows "tc_ok (c\<lparr>tc_order := ord, tc_index := AList.delete k (tc_index c)\<rparr>)"
proof -
  have ne: "nd_key (tc_nodes c b) \<noteq> k" if "b \<in> set (tc_order c)" "b \<noteq> a" for b
    using key_inj[OF assms(1) that(1) assms(2)] assms(3) that(2) by auto
  show ?thesis
    using assms(3-5) tc_okD[OF assms(1)] ne unfolding tc_ok_def by (auto simp: set_delete distinct_delete)
qed

lemma drop_key_cells:
  assumes "tc_ok c" "a \<in> set (tc_order c)" "nd_key (tc_nodes c a) = k"
  shows "drop_key k (cells_of c) = map (\<lambda>b. cell (tc_nodes c b)) (remove1 a (tc_order c))"
proof -
  have "filter (\<lambda>b. nd_key (tc_nodes c b) \<noteq> k) (tc_order c) = remove1 a (tc_order c)"
    unfolding distinct_remove1_removeAll[OF tc_okD(1)[OF assms(1)]] removeAll_filter_not_eq
    using key_inj[OF assms(1) assms(2)] assms(3) by (intro filter_cong) auto
  then show ?thesis by (simp add: drop_key_def cells_of_def filter_map comp_def cell_def)
qed

lemma cells_lookup:
  assumes "tc_ok c"
  shows "map_of (cells_of c) k = (case map_of (tc_index c) k of None \<Rightarrow> None
    | Some a \<Rightarrow> Some (nd_value (tc_nodes c a), nd_inserted_ms (tc_nodes c a)))"
proof (cases "map_of (tc_index c) k")
  case None
  have "k \<notin> fst ` set (cells_of c)"
  proof
    assume "k \<in> fst ` set (cells_of c)"
    then obtain a where "a \<in> set (tc_order c)" "nd_key (tc_nodes c a) = k" by (auto simp: cells_of_def cell_def)
    with tc_okD(4)[OF assms, of a] None show False by (auto simp: map_of_eq_None_iff intro: rev_image_eqI)
  qed
  then have "map_of (cells_of c) k = None" by (simp add: map_of_eq_None_iff)
  then show ?thesis using None by simp
next
  case (Some a)
  then have a: "a \<in> set (tc_order c)" "nd_key (tc_nodes c a) = k" using index_lookup[OF assms] tc_okD(3)[OF assms] by blast+
  have "inj_on (\<lambda>b. nd_key (tc_nodes c b)) (set (tc_order c))" using key_inj[OF assms] by (auto intro: inj_onI)
  then have d: "distinct (map fst (cells_of c))"
    using tc_okD(1)[OF assms] by (simp add: cells_of_def cell_def comp_def distinct_map)
  have "(k, nd_value (tc_nodes c a), nd_inserted_ms (tc_nodes c a)) \<in> set (cells_of c)"
    using a by (auto simp: cells_of_def cell_def intro: rev_image_eqI)
  then show ?thesis using Some d by simp
qed

lemma drop_key_absent: "map_of cs k = None \<Longrightarrow> drop_key k cs = cs"
  by (force simp: drop_key_def map_of_eq_None_iff filter_id_conv)

lemma update_absent: "k \<notin> fst ` set al \<Longrightarrow> AList.update k v al = al @ [(k, v)]"
  by (induction al) auto

section \<open>Every operation refines the abstract one\<close>

lemma Erase_refines:
  assumes "tc_ok c" "map_of (tc_index c) k = Some a"
  shows "tc_ok (Erase k a c)" "cells_of (Erase k a c) = drop_key k (cells_of c)"
proof -
  have a: "a \<in> set (tc_order c)" "nd_key (tc_nodes c a) = k" using assms index_lookup[OF assms(1)] tc_okD(3)[OF assms(1)] by blast+
  have d: "distinct (tc_order c)" by (rule tc_okD(1)[OF assms(1)])
  show "tc_ok (Erase k a c)" unfolding Erase_def by (rule tc_ok_remove[OF assms(1) a]) (use d in simp_all)
  show "cells_of (Erase k a c) = drop_key k (cells_of c)"
    unfolding drop_key_cells[OF assms(1) a] by (simp add: Erase_def cells_of_def)
qed

lemma Touch_refines:
  assumes "tc_ok c" "map_of (tc_index c) k = Some a"
  shows "tc_ok (Touch a c)" "cells_of (Touch a c) = cell (tc_nodes c a) # drop_key k (cells_of c)"
proof -
  have a: "a \<in> set (tc_order c)" "nd_key (tc_nodes c a) = k" using assms index_lookup[OF assms(1)] tc_okD(3)[OF assms(1)] by blast+
  have d: "distinct (tc_order c)" by (rule tc_okD(1)[OF assms(1)])
  have "set (a # remove1 a (tc_order c)) = set (tc_order c)" using a(1) d by auto
  then show "tc_ok (Touch a c)" using assms(1) d unfolding tc_ok_def Touch_def by simp
  show "cells_of (Touch a c) = cell (tc_nodes c a) # drop_key k (cells_of c)"
    unfolding drop_key_cells[OF assms(1) a] by (simp add: Touch_def cells_of_def)
qed

lemma Get_refines:
  assumes "tc_ok c"
  shows "tc_ok (snd (lru_Get k now c))" "(fst (lru_Get k now c), cells_of (snd (lru_Get k now c))) = spec_get (tc_ttl_ms c) k now (cells_of c)"
proof -
  have "tc_ok (snd (lru_Get k now c)) \<and> (fst (lru_Get k now c), cells_of (snd (lru_Get k now c))) = spec_get (tc_ttl_ms c) k now (cells_of c)"
  proof (cases "map_of (tc_index c) k")
    case None
    then show ?thesis using assms cells_lookup[OF assms, of k] by (simp add: lru_Get_def spec_get_def)
  next
    case (Some a)
    then have "nd_key (tc_nodes c a) = k" using index_lookup[OF assms] tc_okD(3)[OF assms] by blast
    then show ?thesis
      using Some cells_lookup[OF assms, of k] Erase_refines[OF assms Some] Touch_refines[OF assms Some]
      by (simp add: lru_Get_def spec_get_def Let_def Expired_def cell_def)
  qed
  then show "tc_ok (snd (lru_Get k now c))" "(fst (lru_Get k now c), cells_of (snd (lru_Get k now c))) = spec_get (tc_ttl_ms c) k now (cells_of c)"
    by blast+
qed

lemma EvictLru_refines:
  assumes "tc_ok c"
  shows "tc_ok (EvictLru c)" "cells_of (EvictLru c) = butlast (cells_of c)" "length (tc_order (EvictLru c)) = length (tc_order c) - 1"
    "tc_capacity (EvictLru c) = tc_capacity c" "tc_ttl_ms (EvictLru c) = tc_ttl_ms c"
proof -
  show "cells_of (EvictLru c) = butlast (cells_of c)" "length (tc_order (EvictLru c)) = length (tc_order c) - 1"
    "tc_capacity (EvictLru c) = tc_capacity c" "tc_ttl_ms (EvictLru c) = tc_ttl_ms c"
    by (simp_all add: EvictLru_def cells_of_def map_butlast)
  show "tc_ok (EvictLru c)"
  proof (cases "tc_order c = []")
    case True
    then show ?thesis using assms by (simp add: EvictLru_def)
  next
    case False
    let ?a = "last (tc_order c)"
    have d: "distinct (tc_order c)" by (rule tc_okD(1)[OF assms])
    have sp: "tc_order c = butlast (tc_order c) @ [?a]" using False by simp
    have "distinct (butlast (tc_order c) @ [?a])" using d sp by simp
    moreover have "set (tc_order c) = insert ?a (set (butlast (tc_order c)))" by (subst sp) simp
    ultimately have s: "set (butlast (tc_order c)) = set (tc_order c) - {?a}" "distinct (butlast (tc_order c))" by auto
    have "tc_ok (c\<lparr>tc_order := butlast (tc_order c), tc_index := AList.delete (nd_key (tc_nodes c ?a)) (tc_index c)\<rparr>)"
      by (rule tc_ok_remove[OF assms last_in_set[OF False] refl s])
    then show ?thesis using False by (simp add: EvictLru_def tc_ok_def)
  qed
qed

lemma evict_while_refines:
  assumes "tc_ok c"
  shows "\<exists>c'. evict_while c = Some c' \<and> tc_ok c' \<and> cells_of c' = take (tc_capacity c) (cells_of c) \<and>
    tc_capacity c' = tc_capacity c \<and> tc_ttl_ms c' = tc_ttl_ms c"
  using assms
proof (induction "length (tc_order c)" arbitrary: c rule: less_induct)
  case less
  have len: "length (cells_of c) = length (tc_order c)" by (simp add: cells_of_def)
  show ?case
  proof (cases "lru_size c > tc_capacity c")
    case True
    then have gt: "length (tc_order c) > tc_capacity c" using size_order[OF less.prems] by simp
    note e = EvictLru_refines[OF less.prems]
    have "length (tc_order (EvictLru c)) < length (tc_order c)" using e(3) gt by simp
    from less.hyps[OF this e(1)] obtain c' where c': "evict_while (EvictLru c) = Some c'" "tc_ok c'"
      "cells_of c' = take (tc_capacity c) (butlast (cells_of c))" "tc_capacity c' = tc_capacity c" "tc_ttl_ms c' = tc_ttl_ms c"
      using e(2,4,5) by auto
    have "take (tc_capacity c) (butlast (cells_of c)) = take (tc_capacity c) (cells_of c)"
      using gt len by (simp add: butlast_conv_take min_absorb1)
    then show ?thesis using c' True by (subst evict_while.simps) simp
  next
    case False
    then show ?thesis using less.prems size_order[OF less.prems] len by (subst evict_while.simps) simp
  qed
qed

lemma Put_refines:
  assumes "tc_ok c"
  shows "\<exists>c'. lru_Put k v now c = Some c' \<and> tc_ok c' \<and> tc_capacity c' = tc_capacity c \<and> tc_ttl_ms c' = tc_ttl_ms c \<and>
    (length (cells_of c) \<le> tc_capacity c \<longrightarrow> cells_of c' = spec_put (tc_capacity c) k v now (cells_of c))"
proof (cases "tc_capacity c = 0")
  case True
  then show ?thesis using assms by (simp add: lru_Put_def spec_put_def)
next
  case cap: False
  show ?thesis
  proof (cases "map_of (tc_index c) k")
    case (Some a)
    then have a: "a \<in> set (tc_order c)" "nd_key (tc_nodes c a) = k" using index_lookup[OF assms] tc_okD(3)[OF assms] by blast+
    let ?c = "c\<lparr>tc_nodes := (tc_nodes c)(a := (tc_nodes c a)\<lparr>nd_value := v, nd_inserted_ms := now\<rparr>)\<rparr>"
    have key: "nd_key (tc_nodes ?c b) = nd_key (tc_nodes c b)" for b by simp
    have ok: "tc_ok ?c" using assms unfolding tc_ok_def key by simp
    have dk: "drop_key k (cells_of ?c) = drop_key k (cells_of c)"
    proof -
      have "a \<notin> set (remove1 a (tc_order c))" using tc_okD(1)[OF assms] by simp
      moreover have "drop_key k (cells_of ?c) = map (\<lambda>b. cell (tc_nodes ?c b)) (remove1 a (tc_order c))"
        using drop_key_cells[OF ok, of a k] a by simp
      ultimately show ?thesis unfolding drop_key_cells[OF assms a] by (auto intro!: map_cong)
    qed
    have k: "map_of (tc_index ?c) k = Some a" using Some by simp
    note t = Touch_refines[OF ok k]
    have put: "lru_Put k v now c = Some (Touch a ?c)" using cap Some by (simp add: lru_Put_def)
    have "cells_of (Touch a ?c) = (k, v, now) # drop_key k (cells_of c)" using t(2) dk a(2) by (simp add: cell_def)
    moreover have "length (drop_key k (cells_of c)) < length (cells_of c)"
      unfolding drop_key_cells[OF assms a] using length_pos_if_in_set[OF a(1)] a(1) by (simp add: cells_of_def length_remove1)
    ultimately show ?thesis using put t(1) by (simp add: spec_put_def Touch_def)
  next
    case None
    let ?a = "tc_next c"
    let ?c = "c\<lparr>tc_next := ?a + 1, tc_nodes := (tc_nodes c)(?a := \<lparr>nd_key = k, nd_value = v, nd_inserted_ms = now\<rparr>),
                tc_order := ?a # tc_order c, tc_index := AList.update k ?a (tc_index c)\<rparr>"
    have fresh: "?a \<notin> set (tc_order c)" using tc_okD(5)[OF assms] by blast
    have kn: "k \<notin> fst ` set (tc_index c)" using None by (simp add: map_of_eq_None_iff)
    then have up: "AList.update k ?a (tc_index c) = tc_index c @ [(k, ?a)]" by (rule update_absent)
    have ok: "tc_ok ?c"
      using fresh kn tc_okD[OF assms] unfolding tc_ok_def up by (fastforce simp: less_Suc_eq)
    have "cells_of ?c = (k, v, now) # cells_of c"
      using fresh by (auto simp: cells_of_def cell_def)
    moreover have "drop_key k (cells_of c) = cells_of c" using cells_lookup[OF assms, of k] None by (intro drop_key_absent) simp
    ultimately have "take (tc_capacity ?c) (cells_of ?c) = spec_put (tc_capacity c) k v now (cells_of c)" by (simp add: spec_put_def)
    moreover have "lru_Put k v now c = evict_while ?c" using cap None by (simp add: lru_Put_def Let_def)
    ultimately show ?thesis using evict_while_refines[OF ok] by auto
  qed
qed

lemma Invalidate_refines:
  assumes "tc_ok c"
  shows "tc_ok (Invalidate k c)" "cells_of (Invalidate k c) = drop_key k (cells_of c)"
proof -
  have "tc_ok (Invalidate k c) \<and> cells_of (Invalidate k c) = drop_key k (cells_of c)"
  proof (cases "map_of (tc_index c) k")
    case None
    then have "map_of (cells_of c) k = None" using cells_lookup[OF assms, of k] by simp
    then show ?thesis using None assms drop_key_absent[of "cells_of c" k] by (simp add: Invalidate_def)
  next
    case (Some a)
    then show ?thesis using Erase_refines[OF assms Some] by (simp add: Invalidate_def)
  qed
  then show "tc_ok (Invalidate k c)" "cells_of (Invalidate k c) = drop_key k (cells_of c)" by blast+
qed

section \<open>Histories\<close>

text \<open>The caches of a capacity and lifetime, with the last value put under each key that was not dropped since.\<close>

inductive lru_reach :: "nat \<Rightarrow> int \<Rightarrow> ('k, 'v) cache \<Rightarrow> ('k \<rightharpoonup> 'v \<times> int) \<Rightarrow> bool" for cap ttl where
  fresh: "lru_reach cap ttl (TtlLruCache_new cap ttl) Map.empty"
| get: "lru_reach cap ttl c l \<Longrightarrow> lru_reach cap ttl (snd (lru_Get k now c)) l"
| put: "lru_reach cap ttl c l \<Longrightarrow> lru_Put k v now c = Some c' \<Longrightarrow> lru_reach cap ttl c' (l(k \<mapsto> (v, now)))"
| invalidate: "lru_reach cap ttl c l \<Longrightarrow> lru_reach cap ttl (Invalidate k c) (l(k := None))"
| clear: "lru_reach cap ttl c l \<Longrightarrow> lru_reach cap ttl (lru_Clear c) Map.empty"

definition tc_inv :: "nat \<Rightarrow> int \<Rightarrow> ('k, 'v) cache \<Rightarrow> ('k \<rightharpoonup> 'v \<times> int) \<Rightarrow> bool" where
  "tc_inv cap ttl c l \<longleftrightarrow> tc_ok c \<and> tc_capacity c = cap \<and> tc_ttl_ms c = ttl \<and> length (cells_of c) \<le> cap \<and>
     (\<forall>(k, v, t)\<in>set (cells_of c). l k = Some (v, t))"

lemma spec_get_cells:
  assumes "\<forall>(k, v, t)\<in>set cs. l k = Some (v, t)" "spec_get ttl k now cs = (r, cs')"
  shows "length cs' \<le> length cs" "\<forall>(k, v, t)\<in>set cs'. l k = Some (v, t)"
proof -
  have le: "length (drop_key k cs) \<le> length cs" by (simp add: drop_key_def)
  have lt: "length (drop_key k cs) < length cs" if "map_of cs k = Some x" for x
    using map_of_SomeD[OF that] unfolding drop_key_def by (intro length_filter_less) auto
  have sub: "set (drop_key k cs) \<subseteq> set cs" by (auto simp: drop_key_def)
  show "length cs' \<le> length cs"
    using assms(2) le lt by (fastforce simp: spec_get_def split: option.splits if_splits)
  show "\<forall>(k, v, t)\<in>set cs'. l k = Some (v, t)"
    using assms sub by (fastforce simp: spec_get_def split: option.splits if_splits dest: map_of_SomeD)
qed

lemma Get_sel: "tc_capacity (snd (lru_Get k now c)) = tc_capacity c" "tc_ttl_ms (snd (lru_Get k now c)) = tc_ttl_ms c"
  by (simp_all add: lru_Get_def Let_def Erase_def Touch_def split: option.split)

lemma lru_reach_inv: "lru_reach cap ttl c l \<Longrightarrow> tc_inv cap ttl c l"
proof (induction rule: lru_reach.induct)
  case fresh
  then show ?case by (simp add: tc_inv_def tc_ok_def TtlLruCache_new_def cells_of_def)
next
  case (get c l k now)
  then have i: "tc_ok c" "tc_ttl_ms c = ttl" "\<forall>(k, v, t)\<in>set (cells_of c). l k = Some (v, t)" "length (cells_of c) \<le> cap" "tc_capacity c = cap"
    by (auto simp: tc_inv_def)
  note g = Get_refines[OF i(1), of k now]
  note sg = spec_get_cells[OF i(3) g(2)[symmetric]]
  show ?case using i g(1) sg Get_sel[of k now c] by (simp add: tc_inv_def)
next
  case (put c l k v now c')
  then have i: "tc_ok c" "tc_capacity c = cap" "tc_ttl_ms c = ttl" "\<forall>(k, v, t)\<in>set (cells_of c). l k = Some (v, t)" "length (cells_of c) \<le> cap"
    by (auto simp: tc_inv_def)
  from Put_refines[OF i(1), of k v now] put.hyps(2) i(2,5) have p: "tc_ok c'" "tc_capacity c' = cap" "tc_ttl_ms c' = tc_ttl_ms c"
    "cells_of c' = spec_put cap k v now (cells_of c)" by auto
  have "set (cells_of c') \<subseteq> insert (k, v, now) (set (drop_key k (cells_of c)))"
    unfolding p(4) spec_put_def using set_take_subset[of cap "(k, v, now) # drop_key k (cells_of c)"] by simp
  then have "\<forall>(j, w, t)\<in>set (cells_of c'). (l(k \<mapsto> (v, now))) j = Some (w, t)" using i(4) by (fastforce simp: drop_key_def)
  moreover have "length (cells_of c') \<le> cap" unfolding p(4) spec_put_def by simp
  ultimately show ?case using p i(3) by (simp add: tc_inv_def)
next
  case (invalidate c l k)
  then have i: "tc_ok c" "tc_capacity c = cap" "tc_ttl_ms c = ttl" "\<forall>(k, v, t)\<in>set (cells_of c). l k = Some (v, t)" "length (cells_of c) \<le> cap"
    by (auto simp: tc_inv_def)
  have s: "tc_capacity (Invalidate k c) = cap" "tc_ttl_ms (Invalidate k c) = ttl"
    using i(2,3) by (simp_all add: Invalidate_def Erase_def split: option.split)
  have "\<forall>(j, w, t)\<in>set (drop_key k (cells_of c)). (l(k := None)) j = Some (w, t)" using i(4) by (auto simp: drop_key_def)
  moreover have "length (drop_key k (cells_of c)) \<le> length (cells_of c)" by (simp add: drop_key_def)
  ultimately show ?case using Invalidate_refines[OF i(1), of k] s i(5) by (simp add: tc_inv_def)
next
  case (clear c l)
  then show ?case by (simp add: tc_inv_def tc_ok_def lru_Clear_def cells_of_def)
qed

section \<open>Properties\<close>

text \<open>
  C36: the cache refines a bounded most-recently-used list.  In every reachable cache a lookup answers and
  reorders as the abstract list does (an expired cell is dropped, a live one moves to the front), an insertion
  returns, whatever the capacity, and leaves the new cell in front of the others, cut to the capacity; the
  cache never holds more cells than its capacity.
\<close>
theorem lru_refines:
  assumes "lru_reach cap ttl c l"
  shows "(fst (lru_Get k now c), cells_of (snd (lru_Get k now c))) = spec_get ttl k now (cells_of c) \<and>
    (\<exists>c'. lru_Put k v now c = Some c' \<and> cells_of c' = spec_put cap k v now (cells_of c)) \<and>
    cells_of (Invalidate k c) = drop_key k (cells_of c) \<and> lru_size c = length (cells_of c) \<and> lru_size c \<le> cap"
proof -
  have i: "tc_ok c" "tc_capacity c = cap" "tc_ttl_ms c = ttl" "length (cells_of c) \<le> cap"
    using lru_reach_inv[OF assms] by (auto simp: tc_inv_def)
  have "lru_size c = length (cells_of c)" using size_order[OF i(1)] by (simp add: cells_of_def)
  then show ?thesis
    using Get_refines(2)[OF i(1), of k now] Put_refines[OF i(1), of k v now] Invalidate_refines(2)[OF i(1), of k] i(2-4) by auto
qed

lemma sample_put: "lru_Put (1 :: nat) (7 :: nat) 0 (TtlLruCache_new 1 10) =
   Some \<lparr>tc_capacity = 1, tc_ttl_ms = 10, tc_order = [0], tc_nodes = (\<lambda>_. undefined)(0 := \<lparr>nd_key = 1, nd_value = 7, nd_inserted_ms = 0\<rparr>),
      tc_index = [(1, 0)], tc_next = 1\<rparr>"
  by (simp add: lru_Put_def TtlLruCache_new_def Let_def evict_while.simps lru_size_def)

theorem lru_refines_witness:
  "\<exists>c. lru_reach 1 10 c [1 \<mapsto> (7, 0)] \<and> (\<exists>c'. lru_Put (2 :: nat) (8 :: nat) 1 c = Some c' \<and> cells_of c' = [(2, 8, 1)])"
proof -
  note r = lru_reach.put[OF lru_reach.fresh sample_put]
  from lru_refines[OF r, where k = 2 and v = 8 and now = 1] r show ?thesis by (auto simp: spec_put_def)
qed

text \<open>
  The cache serves the last value put, while it is fresh.  A lookup that finds a value finds the one last put
  under its key and not invalidated since, less than the lifetime ago; and a value that was just put into a cache
  of positive capacity is found until its lifetime is over.
\<close>
theorem lru_serves_last_put:
  assumes "lru_reach cap ttl c l"
  shows "(\<forall>v. fst (lru_Get k now c) = Some v \<longrightarrow> (\<exists>t. l k = Some (v, t) \<and> now - t < ttl)) \<and>
    (0 < cap \<longrightarrow> (\<exists>c'. lru_Put k v t c = Some c' \<and> (fst (lru_Get k now c') = Some v \<longleftrightarrow> now - t < ttl)))"
proof -
  have i: "tc_ok c" "tc_capacity c = cap" "tc_ttl_ms c = ttl" "length (cells_of c) \<le> cap" "\<forall>(k, v, t)\<in>set (cells_of c). l k = Some (v, t)"
    using lru_reach_inv[OF assms] by (auto simp: tc_inv_def)
  have g: "fst (lru_Get k now c) = fst (spec_get ttl k now (cells_of c))" using Get_refines(2)[OF i(1), of k now] i(3) by (metis fst_conv)
  have "\<exists>t. l k = Some (v, t) \<and> now - t < ttl" if "fst (lru_Get k now c) = Some v" for v
    using that i(5) unfolding g by (auto simp: spec_get_def split: option.splits if_splits dest!: map_of_SomeD)
  moreover have "\<exists>c'. lru_Put k v t c = Some c' \<and> (fst (lru_Get k now c') = Some v \<longleftrightarrow> now - t < ttl)" if "0 < cap"
  proof -
    obtain c' where c': "lru_Put k v t c = Some c'" "tc_ok c'" "tc_ttl_ms c' = ttl" "cells_of c' = spec_put cap k v t (cells_of c)"
      using Put_refines[OF i(1), of k v t] i(2-4) by auto
    have "fst (lru_Get k now c') = fst (spec_get ttl k now (cells_of c'))" using Get_refines(2)[OF c'(2), of k now] c'(3) by (metis fst_conv)
    then show ?thesis using c'(1,4) that by (cases cap) (auto simp: spec_get_def spec_put_def)
  qed
  ultimately show ?thesis by blast
qed

theorem lru_serves_last_put_witness:
  "\<exists>c'. lru_Put (1 :: nat) (7 :: nat) 0 (TtlLruCache_new 1 10) = Some c' \<and> fst (lru_Get 1 9 c') = Some 7"
  using lru_serves_last_put[OF lru_reach.fresh[of 1 10], where k = "1 :: nat" and v = "7 :: nat" and t = 0 and now = 9] by auto

end
