(* ===== verification/Bloom_Filter.thy ===== *)
theory Bloom_Filter
  imports Prelude
begin

text \<open>
  The Bloom filter of the catalog (\<^verbatim>\<open>include/cortrix/catalog/bloom_filter.h\<close>, \<^verbatim>\<open>src/catalog/bloom_filter.cpp\<close>): a bit array in
  64-bit words and \<open>k\<close> positions per key from two FNV hashes.  \<open>k\<close> comes from a floating-point logarithm and is
  a parameter before it is clamped; the load progress and the estimated rate, which are floating-point figures for
  reports, are left out.  An access outside the word array would be undefined and is \<open>None\<close>.  The catalog is what
  its queries deliver.
\<close>

section \<open>State\<close>

record BloomFilter =
  bf_num_bits :: nat
  bf_num_hashes :: nat
  bf_words :: "u64 list"
  bf_added_count :: nat
  bf_ready :: bool
  bf_last_rebuild_ms :: int
  bf_total_checks :: nat
  bf_false_positive_count :: nat

definition BloomFilter_new :: "nat \<Rightarrow> int \<Rightarrow> BloomFilter" where
  "BloomFilter_new capacity_bytes rounded_log =
     (let bits = (if capacity_bytes = 0 then 1 else capacity_bytes) * 8;
          words = (bits + 63) div 64;
          words = (if words = 0 then 1 else words);
          k = (if rounded_log < 1 then 1 else rounded_log);
          k = (if k > 30 then 30 else k)
      in \<lparr>bf_num_bits = words * 64, bf_num_hashes = nat k, bf_words = replicate words 0, bf_added_count = 0, bf_ready = False,
          bf_last_rebuild_ms = - 1, bf_total_checks = 0, bf_false_positive_count = 0\<rparr>)"

section \<open>Hashing and bits\<close>

definition Fnv1a :: "u64 \<Rightarrow> bytes \<Rightarrow> u64" where
  "Fnv1a salt key =
     (let h = fold (\<lambda>c h. (h XOR ucast c) * 1099511628211) key (1469598103934665603 XOR salt);
          h = h XOR drop_bit 33 h;
          h = h * 0xff51afd7ed558ccd
      in h XOR drop_bit 33 h)"

definition HashKey :: "bytes \<Rightarrow> u64 \<times> u64" where
  "HashKey key = (let h1 = Fnv1a 0x9e3779b97f4a7c15 key; h2 = Fnv1a 0xc2b2ae3d27d4eb4f key in (h1, if h2 = 0 then 1 else h2))"

text \<open>The bit position of the \<open>i\<close>-th probe; the combination wraps at 64 bits.\<close>

definition probe :: "BloomFilter \<Rightarrow> bytes \<Rightarrow> nat \<Rightarrow> nat" where
  "probe b key i = (let (h1, h2) = HashKey key in unat (h1 + of_nat i * h2) mod bf_num_bits b)"

definition TestBit :: "nat \<Rightarrow> u64 list \<Rightarrow> bool option" where
  "TestBit n ws = (let w = n div 64; mask = push_bit (n mod 64) 1 in
     if w < length ws then Some (ws ! w AND mask \<noteq> 0) else None)"

definition SetBit :: "nat \<Rightarrow> u64 list \<Rightarrow> u64 list option" where
  "SetBit n ws = (let w = n div 64; mask = push_bit (n mod 64) 1 in
     if w < length ws then Some (ws[w := ws ! w OR mask]) else None)"

section \<open>Operations\<close>

fun set_all :: "nat list \<Rightarrow> u64 list \<Rightarrow> u64 list option" where
  "set_all [] ws = Some ws"
| "set_all (n # ns) ws = do { ws \<leftarrow> SetBit n ws; set_all ns ws }"

fun test_all :: "nat list \<Rightarrow> u64 list \<Rightarrow> bool option" where
  "test_all [] ws = Some True"
| "test_all (n # ns) ws = do { r \<leftarrow> TestBit n ws; if \<not> r then Some False else test_all ns ws }"

definition probes :: "BloomFilter \<Rightarrow> bytes \<Rightarrow> nat list" where
  "probes b key = map (probe b key) [0..<bf_num_hashes b]"

definition bf_Add :: "bytes \<Rightarrow> BloomFilter \<Rightarrow> (Status \<times> BloomFilter) option" where
  "bf_Add file_hash b = do {
     ws \<leftarrow> set_all (probes b file_hash) (bf_words b);
     Some (Status_Ok, b\<lparr>bf_words := ws, bf_added_count := bf_added_count b + 1\<rparr>) }"

definition MightContain :: "bytes \<Rightarrow> BloomFilter \<Rightarrow> (bool \<times> BloomFilter) option" where
  "MightContain file_hash b =
     (if \<not> bf_ready b then Some (True, b)
      else do {
        r \<leftarrow> test_all (probes b file_hash) (bf_words b);
        Some (r, if r then b\<lparr>bf_total_checks := bf_total_checks b + 1\<rparr> else b) })"

definition LastRebuildAt :: "BloomFilter \<Rightarrow> int option" where
  "LastRebuildAt b = (let v = bf_last_rebuild_ms b in if v < 0 then None else Some v)"

definition ReportFalsePositive :: "BloomFilter \<Rightarrow> BloomFilter" where
  "ReportFalsePositive b = b\<lparr>bf_false_positive_count := bf_false_positive_count b + 1\<rparr>"

definition MarkReady :: "int \<Rightarrow> BloomFilter \<Rightarrow> BloomFilter" where
  "MarkReady now_ms b = b\<lparr>bf_last_rebuild_ms := now_ms, bf_ready := True\<rparr>"

text \<open>
  What the catalog delivers: the error of preparing the query, if any, and the rows up to the first step that
  is not a row, a null column being \<open>None\<close>; whether that step reported the end or an error is \<open>db_failed\<close>, which the code
  does not look at.
\<close>

record catalog_db =
  db_prepare :: "string option"
  db_rows :: "bytes option list"
  db_failed :: bool

fun add_rows :: "bytes option list \<Rightarrow> BloomFilter \<Rightarrow> BloomFilter option" where
  "add_rows [] b = Some b"
| "add_rows (None # rs) b = add_rows rs b"
| "add_rows (Some t # rs) b = do { (_, b) \<leftarrow> bf_Add t b; add_rows rs b }"

definition LoadFromCatalog :: "int \<Rightarrow> catalog_db option \<Rightarrow> BloomFilter \<Rightarrow> (Status \<times> BloomFilter) option" where
  "LoadFromCatalog now db b = (case db of
     None \<Rightarrow> Some (StatusOf kInvalidArgument ''BloomFilter::LoadFromCatalog: null db'', b)
   | Some d \<Rightarrow>
       let b = b\<lparr>bf_ready := False\<rparr> in
       (case db_prepare d of
          Some e \<Rightarrow> Some (StatusOf kInternal (''LoadFromCatalog prepare: '' @ e), b)
        | None \<Rightarrow> do { b \<leftarrow> add_rows (db_rows d) b; Some (Status_Ok, MarkReady now b) }))"

section \<open>Bits\<close>

definition is_set :: "u64 list \<Rightarrow> nat \<Rightarrow> bool" where
  "is_set ws n \<longleftrightarrow> bit (ws ! (n div 64)) (n mod 64)"

lemma TestBit_eq: "n div 64 < length ws \<Longrightarrow> TestBit n ws = Some (is_set ws n)"
  by (simp add: TestBit_def is_set_def Let_def and_exp_eq_0_iff_not_bit)

lemma SetBit_eq:
  assumes "n div 64 < length ws"
  shows "\<exists>ws'. SetBit n ws = Some ws' \<and> length ws' = length ws \<and> (\<forall>m. m div 64 < length ws \<longrightarrow> (is_set ws' m \<longleftrightarrow> m = n \<or> is_set ws m))"
proof -
  have eq: "m = n \<longleftrightarrow> m div 64 = n div 64 \<and> m mod 64 = n mod 64" for m by (metis div_mult_mod_eq)
  have b: "bit (x OR 2 ^ (n mod 64)) (m mod 64) \<longleftrightarrow> bit x (m mod 64) \<or> m mod 64 = n mod 64" for x :: u64 and m
    by (auto simp: bit_or_iff bit_exp_iff)
  show ?thesis
    using assms by (auto simp: SetBit_def is_set_def Let_def nth_list_update b eq)
qed

lemma set_all_eq:
  assumes "\<forall>n\<in>set ns. n div 64 < length ws"
  shows "\<exists>ws'. set_all ns ws = Some ws' \<and> length ws' = length ws \<and>
    (\<forall>m. m div 64 < length ws \<longrightarrow> (is_set ws' m \<longleftrightarrow> m \<in> set ns \<or> is_set ws m))"
  using assms
proof (induction ns arbitrary: ws)
  case (Cons n ns)
  obtain w1 where w1: "SetBit n ws = Some w1" "length w1 = length ws" "\<forall>m. m div 64 < length ws \<longrightarrow> (is_set w1 m \<longleftrightarrow> m = n \<or> is_set ws m)"
    using SetBit_eq[of n ws] Cons.prems by auto
  with Cons.IH[of w1] Cons.prems show ?case by auto
qed simp

lemma test_all_eq:
  assumes "\<forall>n\<in>set ns. n div 64 < length ws"
  shows "test_all ns ws = Some (\<forall>n\<in>set ns. is_set ws n)"
  using assms by (induction ns) (auto simp: TestBit_eq)

section \<open>Invariant\<close>

text \<open>The array is as large as the filter says, and the probes of the keys it holds are set.\<close>

definition bf_ok :: "bytes set \<Rightarrow> BloomFilter \<Rightarrow> bool" where
  "bf_ok S b \<longleftrightarrow> bf_num_bits b = 64 * length (bf_words b) \<and> bf_words b \<noteq> [] \<and> 1 \<le> bf_num_hashes b \<and> bf_num_hashes b \<le> 30 \<and>
     (\<forall>k\<in>S. \<forall>n\<in>set (probes b k). is_set (bf_words b) n)"

lemma probes_in_range: "bf_ok S b \<Longrightarrow> n \<in> set (probes b k) \<Longrightarrow> n div 64 < length (bf_words b)"
  by (auto simp: bf_ok_def probes_def probe_def less_mult_imp_div_less mult.commute split: prod.splits)

lemma probes_cong: "bf_num_bits b' = bf_num_bits b \<Longrightarrow> bf_num_hashes b' = bf_num_hashes b \<Longrightarrow> probes b' k = probes b k"
  by (simp add: probes_def probe_def)

lemma bf_ok_new: "bf_ok {} (BloomFilter_new c k)"
proof -
  have "0 < ((if c = 0 then 1 else c) * 8 + 63) div (64 :: nat)" by auto
  then show ?thesis by (auto simp: bf_ok_def BloomFilter_new_def Let_def)
qed

lemma bf_Add_ok:
  assumes "bf_ok S b"
  shows "\<exists>b'. bf_Add k b = Some (Status_Ok, b') \<and> bf_ok (insert k S) b' \<and> bf_ready b' = bf_ready b"
proof -
  have r: "\<forall>n\<in>set (probes b j). n div 64 < length (bf_words b)" for j using probes_in_range[OF assms] by blast
  obtain ws where ws: "set_all (probes b k) (bf_words b) = Some ws" "length ws = length (bf_words b)"
    "\<forall>m. m div 64 < length (bf_words b) \<longrightarrow> (is_set ws m \<longleftrightarrow> m \<in> set (probes b k) \<or> is_set (bf_words b) m)" using set_all_eq[OF r] by blast
  let ?b = "b\<lparr>bf_words := ws, bf_added_count := bf_added_count b + 1\<rparr>"
  have p: "probes ?b j = probes b j" for j by (rule probes_cong) simp_all
  have "bf_ok (insert k S) ?b" using assms ws(2,3) r unfolding bf_ok_def p by auto
  then show ?thesis using ws(1) by (auto simp: bf_Add_def)
qed

lemma add_rows_ok:
  assumes "bf_ok S b"
  shows "\<exists>b'. add_rows rs b = Some b' \<and> bf_ok (S \<union> {t. Some t \<in> set rs}) b' \<and> bf_ready b' = bf_ready b"
  using assms
proof (induction rs arbitrary: S b)
  case (Cons r rs)
  show ?case
  proof (cases r)
    case None
    then show ?thesis using Cons by auto
  next
    case (Some t)
    obtain b1 where b1: "bf_Add t b = Some (Status_Ok, b1)" "bf_ok (insert t S) b1" "bf_ready b1 = bf_ready b"
      using bf_Add_ok[OF Cons.prems] by blast
    have "insert t S \<union> {u. Some u \<in> set rs} = S \<union> {u. Some u \<in> set (r # rs)}" using Some by auto
    with Cons.IH[OF b1(2)] b1 Some show ?thesis by auto
  qed
qed auto

text \<open>The life of a filter, with the keys that were added.\<close>

inductive bf_reach :: "BloomFilter \<Rightarrow> bytes set \<Rightarrow> bool" where
  fresh: "bf_reach (BloomFilter_new c k) {}"
| add: "bf_reach b S \<Longrightarrow> bf_Add k b = Some (st, b') \<Longrightarrow> bf_reach b' (insert k S)"
| query: "bf_reach b S \<Longrightarrow> MightContain k b = Some (r, b') \<Longrightarrow> bf_reach b' S"
| report: "bf_reach b S \<Longrightarrow> bf_reach (ReportFalsePositive b) S"
| ready: "bf_reach b S \<Longrightarrow> bf_reach (MarkReady t b) S"
| load: "bf_reach b S \<Longrightarrow> LoadFromCatalog t db b = Some (st, b') \<Longrightarrow> ok st \<Longrightarrow> db = Some d \<Longrightarrow>
     bf_reach b' (S \<union> {x. Some x \<in> set (db_rows d)})"

lemma bf_ok_upd: "bf_ok S b \<Longrightarrow> bf_words b' = bf_words b \<Longrightarrow> bf_num_bits b' = bf_num_bits b \<Longrightarrow> bf_num_hashes b' = bf_num_hashes b \<Longrightarrow> bf_ok S b'"
  by (simp add: bf_ok_def probes_cong[of b' b])

lemma bf_reach_ok: "bf_reach b S \<Longrightarrow> bf_ok S b"
proof (induction rule: bf_reach.induct)
  case (fresh c k)
  show ?case by (rule bf_ok_new)
next
  case (add b S k st b')
  then show ?case using bf_Add_ok[of S b k] by auto
next
  case (query b S k r b')
  then show ?case by (auto simp: MightContain_def split: if_splits elim!: bf_ok_upd bind_eq_Some_conv[THEN iffD1, elim_format])
next
  case (report b S)
  then show ?case by (auto simp: ReportFalsePositive_def elim: bf_ok_upd)
next
  case (ready b S t)
  then show ?case by (auto simp: MarkReady_def elim: bf_ok_upd)
next
  case (load b S t db st b' d)
  have "bf_ok S (b\<lparr>bf_ready := False\<rparr>)" using load.IH by (rule bf_ok_upd) simp_all
  from add_rows_ok[OF this, of "db_rows d"] obtain b1 where
    b1: "add_rows (db_rows d) (b\<lparr>bf_ready := False\<rparr>) = Some b1" "bf_ok (S \<union> {x. Some x \<in> set (db_rows d)}) b1" by blast
  have "b' = MarkReady t b1" using load.hyps b1(1) by (auto simp: LoadFromCatalog_def Let_def split: option.splits)
  then show ?case using b1(2) by (auto simp: MarkReady_def elim: bf_ok_upd)
qed

section \<open>Properties\<close>

text \<open>
  The filter has no false negatives.  In every reachable filter every access to the bit array is in range, a
  query returns, and it answers true for each key that was added or loaded; before the filter is ready it
  answers true for every key.
\<close>
theorem bloom_no_false_negative:
  assumes "bf_reach b S"
  shows "(\<exists>r b'. MightContain k b = Some (r, b') \<and> (k \<in> S \<or> \<not> bf_ready b \<longrightarrow> r)) \<and> bf_Add k b \<noteq> None"
proof -
  have ok: "bf_ok S b" by (rule bf_reach_ok[OF assms])
  have "test_all (probes b k) (bf_words b) = Some (\<forall>n\<in>set (probes b k). is_set (bf_words b) n)"
    by (rule test_all_eq) (use probes_in_range[OF ok] in blast)
  then have "\<exists>r b'. MightContain k b = Some (r, b') \<and> (k \<in> S \<or> \<not> bf_ready b \<longrightarrow> r)"
    using ok by (cases "bf_ready b") (auto simp: MightContain_def bf_ok_def)
  then show ?thesis using bf_Add_ok[OF ok, of k] by auto
qed

theorem bloom_no_false_negative_witness:
  "\<exists>b b'. bf_reach b {[1]} \<and> bf_ready b \<and> MightContain [1] b = Some (True, b')"
proof -
  obtain b1 where b1: "bf_Add [1] (BloomFilter_new 8 7) = Some (Status_Ok, b1)" using bf_Add_ok[OF bf_ok_new] by blast
  have r: "bf_reach (MarkReady 5 b1) {[1]}" by (intro bf_reach.ready bf_reach.add[OF bf_reach.fresh b1])
  from bloom_no_false_negative[OF r, of "[1]"] r show ?thesis by (auto simp: MarkReady_def)
qed

lemma test_all_zero:
  assumes "\<forall>n\<in>set ns. n div 64 < length ws" "ns \<noteq> []" "set ws \<subseteq> {0}"
  shows "test_all ns ws = Some False"
proof -
  have "\<not> is_set ws n" if "n \<in> set ns" for n
  proof -
    have "ws ! (n div 64) \<in> set ws" using assms(1) that by simp
    then have "ws ! (n div 64) = 0" using assms(3) by blast
    then show ?thesis by (simp add: is_set_def)
  qed
  then show ?thesis using assms(1,2) by (simp add: test_all_eq)
qed

text \<open>
  A failed scan of the catalog goes unnoticed.  If the first step of the scan fails, \<open>LoadFromCatalog\<close> on a new
  filter returns \<open>Ok\<close> and marks the filter ready, and \<open>MightContain\<close> then denies every key, also those of the catalog.
\<close>
theorem failed_scan_marks_ready:
  assumes "db_prepare d = None" "db_rows d = []" "db_failed d"
  shows "\<exists>b. LoadFromCatalog t (Some d) (BloomFilter_new c k) = Some (Status_Ok, b) \<and> bf_ready b \<and>
    (\<forall>key. MightContain key b = Some (False, b))"
proof -
  define b where "b = MarkReady t ((BloomFilter_new c k)\<lparr>bf_ready := False\<rparr>)"
  have l: "LoadFromCatalog t (Some d) (BloomFilter_new c k) = Some (Status_Ok, b)" using assms(1,2) by (simp add: LoadFromCatalog_def b_def)
  have ok: "bf_ok {} b" by (rule bf_ok_upd[OF bf_ok_new[of c k]]) (simp_all add: b_def MarkReady_def)
  have z: "set (bf_words b) \<subseteq> {0}" by (auto simp: b_def MarkReady_def BloomFilter_new_def Let_def)
  have "probes b key \<noteq> []" for key using ok by (simp add: probes_def bf_ok_def)
  then have "test_all (probes b key) (bf_words b) = Some False" for key using test_all_zero[of "probes b key" "bf_words b"] probes_in_range[OF ok] z by blast
  moreover have "bf_ready b" by (simp add: b_def MarkReady_def)
  ultimately show ?thesis using l by (auto simp: MightContain_def)
qed

theorem failed_scan_marks_ready_witness:
  "\<exists>b. LoadFromCatalog 5 (Some \<lparr>db_prepare = None, db_rows = [], db_failed = True\<rparr>) (BloomFilter_new 8 7) = Some (Status_Ok, b) \<and>
     MightContain [1] b = Some (False, b)"
  using failed_scan_marks_ready[of "\<lparr>db_prepare = None, db_rows = [], db_failed = True\<rparr>" 5 8 7] by auto

end
