(* ===== verification/Circuit_Breaker.thy ===== *)
theory Circuit_Breaker
  imports Main
begin

text \<open>
  The circuit breaker of the reranker (\<^verbatim>\<open>include/cortrix/reranker/circuit_breaker.h\<close>, \<^verbatim>\<open>src/reranker/circuit_breaker.cpp\<close>).
  Each method is one step; the clock reading is an argument, and the notifications of the callback are kept in a list.
  The compare-and-exchange of \<open>AllowRequest\<close> always succeeds in this sequential view; the branch of a thread that
  lost the race is \<open>AllowRequest_lost\<close>.
\<close>

section \<open>State and operations\<close>

datatype CircuitBreakerState = kClosed | kOpen | kHalfOpen

record CircuitBreaker =
  cb_state :: CircuitBreakerState
  cb_failure_count :: int
  cb_open_since_ms :: int
  cb_threshold :: int
  cb_cooldown_sec :: int
  cb_changes :: "CircuitBreakerState list"

definition CircuitBreaker_new :: "int \<Rightarrow> int \<Rightarrow> CircuitBreaker" where
  "CircuitBreaker_new threshold cooldown_sec = \<lparr>cb_state = kClosed, cb_failure_count = 0, cb_open_since_ms = - 1,
     cb_threshold = (if threshold > 0 then threshold else 1), cb_cooldown_sec = (if cooldown_sec > 0 then cooldown_sec else 1),
     cb_changes = []\<rparr>"

definition cooled_down :: "int \<Rightarrow> CircuitBreaker \<Rightarrow> bool" where
  "cooled_down now c \<longleftrightarrow> cb_open_since_ms c \<ge> 0 \<and> now - cb_open_since_ms c \<ge> cb_cooldown_sec c * 1000"

definition AllowRequest :: "int \<Rightarrow> CircuitBreaker \<Rightarrow> bool \<times> CircuitBreaker" where
  "AllowRequest now c =
     (if cb_state c = kClosed \<or> cb_state c = kHalfOpen then (True, c)
      else if cooled_down now c then (True, c\<lparr>cb_state := kHalfOpen, cb_changes := cb_changes c @ [kHalfOpen]\<rparr>)
      else (False, c))"

text \<open>A thread that read the open state but found another thread's transition.\<close>

definition AllowRequest_lost :: "CircuitBreaker \<Rightarrow> bool" where
  "AllowRequest_lost c \<longleftrightarrow> cb_state c \<noteq> kOpen"

definition RecordSuccess :: "CircuitBreaker \<Rightarrow> CircuitBreaker" where
  "RecordSuccess c = c\<lparr>cb_state := kClosed, cb_failure_count := 0, cb_open_since_ms := - 1,
     cb_changes := (if cb_state c \<noteq> kClosed then cb_changes c @ [kClosed] else cb_changes c)\<rparr>"

definition TripOpen :: "int \<Rightarrow> CircuitBreaker \<Rightarrow> CircuitBreaker" where
  "TripOpen now c = c\<lparr>cb_open_since_ms := now, cb_state := kOpen, cb_changes := cb_changes c @ [kOpen]\<rparr>"

definition RecordFailure :: "int \<Rightarrow> CircuitBreaker \<Rightarrow> CircuitBreaker" where
  "RecordFailure now c = (case cb_state c of
     kHalfOpen \<Rightarrow> TripOpen now c
   | kOpen \<Rightarrow> c
   | kClosed \<Rightarrow>
       let count = cb_failure_count c + 1; c = c\<lparr>cb_failure_count := count\<rparr>
       in if count \<ge> cb_threshold c then TripOpen now c else c)"

definition OpenSinceMs :: "CircuitBreaker \<Rightarrow> int" where
  "OpenSinceMs c = (if cb_state c = kClosed then - 1 else cb_open_since_ms c)"

section \<open>Reachable breakers\<close>

text \<open>The breakers of a threshold and a cooldown, with the number of failures recorded since the last success.\<close>

inductive cb_reach :: "int \<Rightarrow> int \<Rightarrow> CircuitBreaker \<Rightarrow> nat \<Rightarrow> bool" for threshold cooldown where
  fresh: "cb_reach threshold cooldown (CircuitBreaker_new threshold cooldown) 0"
| allow: "cb_reach threshold cooldown c n \<Longrightarrow> AllowRequest now c = (r, c') \<Longrightarrow> cb_reach threshold cooldown c' n"
| success: "cb_reach threshold cooldown c n \<Longrightarrow> cb_reach threshold cooldown (RecordSuccess c) 0"
| failure: "cb_reach threshold cooldown c n \<Longrightarrow> 0 \<le> now \<Longrightarrow> cb_reach threshold cooldown (RecordFailure now c) (Suc n)"

lemmas cb_defs = AllowRequest_def RecordSuccess_def RecordFailure_def TripOpen_def CircuitBreaker_new_def Let_def

definition cb_inv :: "CircuitBreaker \<Rightarrow> nat \<Rightarrow> bool" where
  "cb_inv c n \<longleftrightarrow> 0 < cb_threshold c \<and> 0 < cb_cooldown_sec c \<and>
     (case cb_state c of kClosed \<Rightarrow> cb_failure_count c = int n \<and> int n < cb_threshold c
      | _ \<Rightarrow> cb_failure_count c = cb_threshold c \<and> cb_threshold c \<le> int n \<and> 0 \<le> cb_open_since_ms c)"

lemma cb_reach_inv: "cb_reach threshold cooldown c n \<Longrightarrow> cb_inv c n"
proof (induction rule: cb_reach.induct)
  case (allow c n now r c')
  then show ?case by (auto simp: cb_inv_def AllowRequest_def cooled_down_def split: CircuitBreakerState.splits if_splits)
next
  case (failure c n now)
  then show ?case by (cases "cb_state c") (auto simp: cb_inv_def cb_defs)
qed (auto simp: cb_inv_def cb_defs split: CircuitBreakerState.splits)

lemma cb_reach_params: "cb_reach threshold cooldown c n \<Longrightarrow>
   cb_threshold c = (if threshold > 0 then threshold else 1) \<and> cb_cooldown_sec c = (if cooldown > 0 then cooldown else 1)"
  by (induction rule: cb_reach.induct) (auto simp: cb_defs split: CircuitBreakerState.splits if_splits)

text \<open>
  The breaker trips at its threshold and rests for its cooldown.  In every reachable state it is closed exactly
  while fewer failures than the threshold were recorded since the last success; a closed breaker admits every
  request; an open one rejects every request until the cooldown has passed since it opened and admits the
  next; a failure in the half-open state opens it again and a success closes it.
\<close>
theorem breaker_trips_at_threshold:
  assumes "cb_reach threshold cooldown c n"
  shows "(cb_state c = kClosed \<longleftrightarrow> int n < max 1 threshold) \<and>
    (cb_state c = kClosed \<longrightarrow> fst (AllowRequest now c)) \<and>
    (cb_state c = kOpen \<longrightarrow> (fst (AllowRequest now c) \<longleftrightarrow> max 1 cooldown * 1000 \<le> now - OpenSinceMs c)) \<and>
    (cb_state c = kHalfOpen \<longrightarrow> cb_state (RecordFailure now c) = kOpen \<and> OpenSinceMs (RecordFailure now c) = now) \<and>
    cb_state (RecordSuccess c) = kClosed"
  using cb_reach_inv[OF assms] cb_reach_params[OF assms]
  by (cases "cb_state c") (auto simp: cb_inv_def cb_defs cooled_down_def OpenSinceMs_def max_def split: if_splits)

theorem breaker_trips_at_threshold_witness:
  "\<exists>c. cb_reach 1 5 c 1 \<and> cb_state c = kOpen \<and> \<not> fst (AllowRequest 10 c)"
proof -
  have r: "cb_reach 1 5 (RecordFailure 0 (CircuitBreaker_new 1 5)) (Suc 0)" by (intro cb_reach.failure cb_reach.fresh) simp
  moreover have "cb_state (RecordFailure 0 (CircuitBreaker_new 1 5)) = kOpen" by (simp add: cb_defs)
  moreover have "OpenSinceMs (RecordFailure 0 (CircuitBreaker_new 1 5)) = 0" by (simp add: cb_defs OpenSinceMs_def)
  ultimately show ?thesis using breaker_trips_at_threshold[OF r, of 10] by (intro exI[of _ "RecordFailure 0 (CircuitBreaker_new 1 5)"]) simp
qed

text \<open>
  The half-open state is not a single probe, and an open breaker can close without one.  After the request that
  moves a cooled-down breaker to half-open every further request is admitted too, also for a thread that lost the
  race; and a success recorded while the breaker is open (by a request admitted before it tripped) closes it at once.
\<close>
theorem half_open_admits_all:
  assumes "cb_state c = kOpen" "cooled_down now c"
  shows "\<exists>c'. AllowRequest now c = (True, c') \<and> cb_state c' = kHalfOpen \<and> AllowRequest_lost c' \<and>
    (\<forall>t. AllowRequest t c' = (True, c')) \<and> cb_state (RecordSuccess c) = kClosed"
  using assms by (simp add: AllowRequest_def AllowRequest_lost_def RecordSuccess_def)

theorem half_open_admits_all_witness:
  "\<exists>c'. AllowRequest 5000 (RecordFailure 0 (CircuitBreaker_new 1 5)) = (True, c') \<and> AllowRequest 5001 c' = (True, c')"
  using half_open_admits_all[of "RecordFailure 0 (CircuitBreaker_new 1 5)" 5000] by (auto simp: cb_defs cooled_down_def)

end
