(* ===== verification/Text_Order.thy ===== *)
theory Text_Order
  imports Main "HOL-Library.Char_ord" "HOL-Library.List_Lexorder"
begin

text \<open>
  The order of strings, byte by byte with a proper prefix being smaller, and of strings built from fields of fixed width:
  the identifiers and the timestamps of the sources are compared as text.
\<close>

lemma append_less_iff:
  fixes xs ys :: "'a::linorder list"
  shows "length xs = length ys \<Longrightarrow> xs @ us < ys @ vs \<longleftrightarrow> xs < ys \<or> xs = ys \<and> us < vs"
  by (induction xs ys rule: list_induct2) auto

end
