(* ===== verification/Ulid.thy ===== *)
theory Ulid
  imports Prelude Text_Order
begin

text \<open>
  Identifiers (\<^verbatim>\<open>include/cortrix/id/ulid.h\<close>, \<^verbatim>\<open>src/id/ulid.cpp\<close>): 26 characters of Crockford's base 32, a 48-bit time stamp in
  front of 80 random bits that count up within a millisecond.  The random generator is an argument: the ten fresh
  bytes a call draws, if it draws any.  The mutex makes a call one step on the two static variables.
\<close>

section \<open>The code\<close>

definition kCrockford :: string where
  "kCrockford = ''0123456789ABCDEFGHJKMNPQRSTVWXYZ''"

record ulid_state =
  g_last_ms :: int
  g_last_rand :: bytes

definition ulid_init :: ulid_state where
  "ulid_init = \<lparr>g_last_ms = - 1, g_last_rand = replicate 10 0\<rparr>"

text \<open>Increment from the last byte; \<open>None\<close> is the overflow of all bytes.\<close>

fun increment_rev :: "bytes \<Rightarrow> bytes option" where
  "increment_rev [] = None"
| "increment_rev (b # bs) = (if b + 1 \<noteq> 0 then Some ((b + 1) # bs) else map_option (\<lambda>r. 0 # r) (increment_rev bs))"

definition IncrementRandom :: "bytes \<Rightarrow> bytes \<Rightarrow> bytes" where
  "IncrementRandom fresh r = (case increment_rev (rev r) of Some r' \<Rightarrow> rev r' | None \<Rightarrow> fresh)"

definition EncodeBase32 :: "u64 \<Rightarrow> nat \<Rightarrow> nat \<Rightarrow> string" where
  "EncodeBase32 v bits n = map (\<lambda>i. let shift = i * 5; idx = (if shift < bits then unat (drop_bit shift v AND 0x1F) else 0)
     in kCrockford ! idx) (rev [0..<n])"

definition be_word :: "bytes \<Rightarrow> u64" where
  "be_word bs = fold (\<lambda>b h. push_bit 8 h OR ucast b) bs 0"

definition EncodeRandom :: "bytes \<Rightarrow> string" where
  "EncodeRandom r = EncodeBase32 (be_word (take 5 r)) 40 8 @ EncodeBase32 (be_word (drop 5 r)) 40 8"

definition GenerateUlid :: "int \<Rightarrow> bytes \<Rightarrow> ulid_state \<Rightarrow> string \<times> ulid_state" where
  "GenerateUlid now_ms fresh s =
     (let now_ms = (if now_ms < 0 then 0 else now_ms);
          s = (if now_ms = g_last_ms s then s\<lparr>g_last_rand := IncrementRandom fresh (g_last_rand s)\<rparr>
               else s\<lparr>g_last_ms := now_ms, g_last_rand := fresh\<rparr>)
      in (EncodeBase32 (word_of_int now_ms) 48 10 @ EncodeRandom (g_last_rand s), s))"

section \<open>Base 32 keeps the order\<close>

definition digits32 :: "nat \<Rightarrow> nat \<Rightarrow> string" where
  "digits32 n v = map (\<lambda>i. kCrockford ! (v div 32 ^ i mod 32)) (rev [0..<n])"

lemma digits32_Suc: "digits32 (Suc n) v = kCrockford ! (v div 32 ^ n mod 32) # digits32 n v"
  by (simp add: digits32_def)

lemma digits32_mod: "digits32 n (v mod 32 ^ n) = digits32 n v"
proof -
  have "v mod 32 ^ n div 32 ^ i mod 32 = v div 32 ^ i mod 32" if "i < n" for i :: nat
  proof -
    have e: "(32 :: nat) ^ n = 32 ^ i * 32 ^ (n - i)" using that by (simp flip: power_add)
    have d: "(32 :: nat) dvd 32 ^ (n - i)" using that by (simp add: dvd_power)
    have "v mod 32 ^ n div 32 ^ i = v div 32 ^ i mod 32 ^ (n - i)" unfolding e by (simp add: mod_mult2_eq)
    then show ?thesis using d by (simp add: mod_mod_cancel)
  qed
  then show ?thesis by (auto simp: digits32_def)
qed

lemma kCrockford_mono: "i < j \<Longrightarrow> j < 32 \<Longrightarrow> kCrockford ! i < kCrockford ! j"
proof -
  assume ij: "i < j" "j < 32"
  have "\<forall>j<32. \<forall>i<j. kCrockford ! i < kCrockford ! j" by code_simp
  then show ?thesis using ij by blast
qed

lemma digits32_less: "v < w \<Longrightarrow> w < 32 ^ n \<Longrightarrow> digits32 n v < digits32 n w"
proof (induction n arbitrary: v w)
  case (Suc n)
  have lt: "v div 32 ^ n < 32" "w div 32 ^ n < 32" using Suc.prems by (auto simp: less_mult_imp_div_less)
  have le: "v div 32 ^ n \<le> w div 32 ^ n" using Suc.prems(1) by (simp add: div_le_mono)
  show ?case
  proof (cases "v div 32 ^ n = w div 32 ^ n")
    case True
    have "v mod 32 ^ n < w mod 32 ^ n" using True Suc.prems(1) by (metis div_mult_mod_eq nat_add_left_cancel_less)
    then have "digits32 n (v mod 32 ^ n) < digits32 n (w mod 32 ^ n)" by (rule Suc.IH) simp
    then show ?thesis using True by (simp add: digits32_Suc digits32_mod)
  next
    case False
    then have "kCrockford ! (v div 32 ^ n mod 32) < kCrockford ! (w div 32 ^ n mod 32)" using le lt by (intro kCrockford_mono) simp_all
    then show ?thesis by (simp add: digits32_Suc)
  qed
qed simp

lemma EncodeBase32_digits:
  assumes "\<forall>i<n. 5 * i < bits"
  shows "EncodeBase32 v bits n = digits32 n (unat v)"
proof -
  have "unat (drop_bit (i * 5) v AND 0x1F) = unat v div 32 ^ i mod 32" for i
  proof -
    have "(0x1F :: u64) = mask 5" by (simp add: mask_eq_exp_minus_1)
    then have "unat (drop_bit (i * 5) v AND 0x1F) = unat (take_bit 5 (drop_bit (i * 5) v))" by (simp only: take_bit_eq_mask)
    also have "\<dots> = unat v div 2 ^ (i * 5) mod 2 ^ 5" proof -
      have "unat (take_bit 5 (drop_bit (i * 5) v)) = take_bit 5 (drop_bit (i * 5) (take_bit 64 (unat v)))"
        by (simp add: unsigned_take_bit_eq unsigned_drop_bit_eq del: take_bit_drop_bit)
      also have "take_bit 64 (unat v) = unat v" using unsigned_less[of v, where ?'a = nat] by (simp add: take_bit_nat_eq_self)
      finally show ?thesis by (simp only: take_bit_eq_mod drop_bit_eq_div)
    qed
    finally show ?thesis by (simp add: mult.commute[of i] power_mult)
  qed
  then show ?thesis using assms by (auto simp: EncodeBase32_def digits32_def mult.commute)
qed

section \<open>The random part as a number\<close>

definition be_val :: "bytes \<Rightarrow> nat" where
  "be_val bs = fold (\<lambda>b h. h * 256 + unat b) bs 0"

lemma be_val_snoc: "be_val (bs @ [b]) = be_val bs * 256 + unat b"
  by (simp add: be_val_def)

lemma byte_less: "unat (b :: u8) < 256"
  using unsigned_less[of b, where ?'a = nat] by simp

lemma be_val_less: "be_val bs < 256 ^ length bs"
proof (induction bs rule: rev_induct)
  case (snoc b bs)
  then show ?case using byte_less[of b] by (simp add: be_val_snoc)
qed (simp add: be_val_def)

lemma be_val_append: "be_val (xs @ ys) = be_val xs * 256 ^ length ys + be_val ys"
proof (induction ys rule: rev_induct)
  case (snoc y ys)
  then show ?case by (simp add: be_val_snoc algebra_simps flip: append_assoc)
qed (simp add: be_val_def)

lemma be_word_val: "length bs \<le> 8 \<Longrightarrow> unat (be_word bs) = be_val bs"
proof (induction bs rule: rev_induct)
  case (snoc b bs)
  let ?h = "be_word bs"
  have h: "unat ?h = be_val bs" using snoc by simp
  have small: "be_val (bs @ [b]) < 2 ^ 64"
  proof -
    have "be_val (bs @ [b]) < 256 ^ length (bs @ [b])" by (rule be_val_less)
    also have "\<dots> \<le> 256 ^ 8" using snoc.prems by (intro power_increasing) simp_all
    finally show ?thesis by simp
  qed
  have dis: "push_bit 8 ?h AND ucast b = 0"
    by (rule bit_word_eqI) (auto simp: bit_simps dest: bit_imp_le_length)
  have "be_word (bs @ [b]) = push_bit 8 ?h + ucast b"
    using dis by (simp add: be_word_def disjunctive_add_eq_or)
  then have "be_word (bs @ [b]) = word_of_nat (be_val (bs @ [b]))"
    by (simp add: be_val_snoc push_bit_eq_mult flip: h)
  then show ?case using small by (simp add: unsigned_of_nat take_bit_nat_eq_self)
qed (simp add: be_word_def be_val_def)

lemma increment_rev_Some:
  "increment_rev r = Some r' \<Longrightarrow> length r' = length r \<and> be_val (rev r') = be_val (rev r) + 1"
proof (induction r arbitrary: r')
  case (Cons b bs)
  show ?case
  proof (cases "b + 1 = 0")
    case True
    then have "b = - 1" by (simp add: eq_neg_iff_add_eq_0)
    then have "unat b = 255" by (simp add: unsigned_minus_1_eq_mask mask_eq_exp_minus_1)
    then show ?thesis using Cons True by (auto simp: be_val_snoc)
  next
    case False
    then have "unat (b + 1) = unat b + 1" by (simp add: add.commute unatSuc)
    then show ?thesis using Cons.prems False by (auto simp: be_val_snoc)
  qed
qed simp

lemma increment_rev_None: "increment_rev r = None \<Longrightarrow> be_val (rev r) + 1 = 256 ^ length r"
proof (induction r)
  case (Cons b bs)
  then have "b + 1 = 0" by (auto split: if_splits)
  then have "b = - 1" by (simp add: eq_neg_iff_add_eq_0)
  then have "unat b = 255" by (simp add: unsigned_minus_1_eq_mask mask_eq_exp_minus_1)
  then show ?case using Cons \<open>b + 1 = 0\<close> by (simp add: be_val_snoc)
qed (simp add: be_val_def)

lemma IncrementRandom_val:
  assumes "be_val r + 1 < 256 ^ length r"
  shows "length (IncrementRandom f r) = length r" "be_val (IncrementRandom f r) = be_val r + 1"
proof -
  obtain r' where r': "increment_rev (rev r) = Some r'"
    using assms increment_rev_None[of "rev r"] by (cases "increment_rev (rev r)") auto
  show "length (IncrementRandom f r) = length r" "be_val (IncrementRandom f r) = be_val r + 1"
    using increment_rev_Some[OF r'] r' by (simp_all add: IncrementRandom_def)
qed

section \<open>Identifiers sort in the order they are made\<close>

definition ulid_text :: "int \<Rightarrow> bytes \<Rightarrow> string" where
  "ulid_text t r = EncodeBase32 (word_of_int t) 48 10 @ EncodeRandom r"

lemma EncodeRandom_digits:
  assumes "length r = 10"
  shows "EncodeRandom r = digits32 8 (be_val (take 5 r)) @ digits32 8 (be_val (drop 5 r))"
  using assms by (simp add: EncodeRandom_def EncodeBase32_digits be_word_val)

lemma length_digits32 [simp]: "length (digits32 n v) = n"
  by (simp add: digits32_def)

lemma EncodeRandom_less:
  assumes l: "length r = 10" "length r' = 10" and lt: "be_val r < be_val r'"
  shows "EncodeRandom r < EncodeRandom r'"
proof -
  let ?h = "be_val (take 5 r)" and ?l = "be_val (drop 5 r)" and ?h' = "be_val (take 5 r')" and ?l' = "be_val (drop 5 r')"
  have b: "?l < 256 ^ 5" "?l' < 256 ^ 5" "?h' < 256 ^ 5"
    using be_val_less[of "drop 5 r"] be_val_less[of "drop 5 r'"] be_val_less[of "take 5 r'"] l by simp_all
  have v: "be_val r = ?h * 256 ^ 5 + ?l" "be_val r' = ?h' * 256 ^ 5 + ?l'"
    using be_val_append[of "take 5 r" "drop 5 r"] be_val_append[of "take 5 r'" "drop 5 r'"] l by simp_all
  have "?h < ?h' \<or> ?h = ?h' \<and> ?l < ?l'" using lt b(1,2) unfolding v by (simp add: not_less) linarith
  then show ?thesis using b digits32_less[of ?h ?h' 8] digits32_less[of ?l ?l' 8]
    by (auto simp: EncodeRandom_digits[OF l(1)] EncodeRandom_digits[OF l(2)] append_less_iff)
qed

lemma ulid_text_less:
  assumes "0 \<le> t" "t' < 2 ^ 48" "length r = 10" "length r' = 10" "t < t' \<or> t = t' \<and> be_val r < be_val r'"
  shows "ulid_text t r < ulid_text t' r'"
proof -
  have e: "EncodeBase32 (word_of_int u) 48 10 = digits32 10 (nat u)" if "0 \<le> u" "u < 2 ^ 48" for u
    using that by (simp add: EncodeBase32_digits unsigned_of_int take_bit_int_eq_self)
  have "t < 2 ^ 48" "0 \<le> t'" "nat t' < 32 ^ 10" using assms(1,2,5) by auto
  then show ?thesis using assms digits32_less[of "nat t" "nat t'" 10] EncodeRandom_less[of r r']
    by (auto simp: ulid_text_def e append_less_iff)
qed

text \<open>Successive calls, each with its time and the bytes the generator would give it.\<close>

fun mint_all :: "(int \<times> bytes) list \<Rightarrow> ulid_state \<Rightarrow> string list" where
  "mint_all [] s = []"
| "mint_all ((t, fresh) # cs) s = (let (u, s') = GenerateUlid t fresh s in u # mint_all cs s')"

lemma GenerateUlid_step:
  assumes "0 \<le> t" "t < 2 ^ 48" "g_last_ms s \<le> t" "length fresh = 10" "length (g_last_rand s) = 10"
    "be_val fresh + n < 256 ^ 10" "be_val (g_last_rand s) + Suc n < 256 ^ 10" "GenerateUlid t fresh s = (u, s')"
  shows "u = ulid_text t (g_last_rand s')" "g_last_ms s' = t" "length (g_last_rand s') = 10"
    "be_val (g_last_rand s') + n < 256 ^ 10"
    "0 \<le> g_last_ms s \<Longrightarrow> ulid_text (g_last_ms s) (g_last_rand s) < u"
proof -
  have inc: "length (IncrementRandom fresh (g_last_rand s)) = 10"
    "be_val (IncrementRandom fresh (g_last_rand s)) = be_val (g_last_rand s) + 1"
    using IncrementRandom_val[of "g_last_rand s" fresh] assms by simp_all
  show u: "u = ulid_text t (g_last_rand s')" "g_last_ms s' = t" and l: "length (g_last_rand s') = 10"
    and "be_val (g_last_rand s') + n < 256 ^ 10"
    using assms inc by (auto simp: GenerateUlid_def ulid_text_def Let_def)
  have "g_last_ms s < t \<or> g_last_ms s = t \<and> be_val (g_last_rand s) < be_val (g_last_rand s')"
    using assms inc by (auto simp: GenerateUlid_def Let_def)
  then show "ulid_text (g_last_ms s) (g_last_rand s) < u" if "0 \<le> g_last_ms s"
    using ulid_text_less[OF that assms(2,5) l] u(1) by simp
qed

lemma mint_all_sorted:
  assumes "\<forall>(t, f) \<in> set cs. 0 \<le> t \<and> t < 2 ^ 48 \<and> length f = 10 \<and> be_val f + length cs < 256 ^ 10"
    and "sorted_wrt (\<le>) (map fst cs)" "\<forall>t \<in> set (map fst cs). g_last_ms s \<le> t"
    and "length (g_last_rand s) = 10" "be_val (g_last_rand s) + length cs < 256 ^ 10"
  shows "sorted_wrt (<) (mint_all cs s) \<and> (0 \<le> g_last_ms s \<longrightarrow> (\<forall>u \<in> set (mint_all cs s). ulid_text (g_last_ms s) (g_last_rand s) < u))"
  using assms
proof (induction cs arbitrary: s)
  case (Cons c cs)
  obtain t f where c: "c = (t, f)" by (cases c)
  obtain u s' where g: "GenerateUlid t f s = (u, s')" by (cases "GenerateUlid t f s")
  note st = GenerateUlid_step[OF _ _ _ _ _ _ _ g, of "length cs"]
  have h: "0 \<le> t" "t < 2 ^ 48" "g_last_ms s \<le> t" "length f = 10" "length (g_last_rand s) = 10"
    "be_val f + length cs < 256 ^ 10" "be_val (g_last_rand s) + Suc (length cs) < 256 ^ 10"
    using Cons.prems by (auto simp: c)
  note st = st[OF h]
  have ih: "sorted_wrt (<) (mint_all cs s') \<and> (0 \<le> g_last_ms s' \<longrightarrow> (\<forall>v \<in> set (mint_all cs s'). ulid_text (g_last_ms s') (g_last_rand s') < v))"
  proof (rule Cons.IH)
    show "\<forall>(t, f) \<in> set cs. 0 \<le> t \<and> t < 2 ^ 48 \<and> length f = 10 \<and> be_val f + length cs < 256 ^ 10"
      using Cons.prems(1) by fastforce
  qed (use Cons.prems(2) st in \<open>auto simp: c\<close>)
  then have "\<forall>v \<in> set (mint_all cs s'). u < v" using st(1,2) h(1) by simp
  then show ?case using ih st(5) g by (auto simp: c dest: less_trans)
qed simp

text \<open>
  Identifiers sort in the order they are made.  For calls at times that never go back (before the year 10889), from a fresh
  process, the texts \<^const>\<open>GenerateUlid\<close> returns are strictly increasing, those of one millisecond included, each of
  26 characters, as long as no fresh random value lies so close to the top of its 80 bits that the counting overflows.
\<close>
theorem ulid_monotone:
  assumes "\<forall>(t, f) \<in> set cs. 0 \<le> t \<and> t < 2 ^ 48 \<and> length f = 10 \<and> be_val f + length cs < 256 ^ 10"
    and "sorted_wrt (\<le>) (map fst cs)"
  shows "sorted_wrt (<) (mint_all cs ulid_init) \<and> (\<forall>u \<in> set (mint_all cs ulid_init). length u = 26)"
proof (rule conjI)
  have len: "length (mint_all cs s ! i) = 26" if "i < length (mint_all cs s)" for i s
    using that by (induction cs arbitrary: s i)
      (auto simp: GenerateUlid_def EncodeBase32_def EncodeRandom_def Let_def nth_Cons' split: prod.splits)
  show "sorted_wrt (<) (mint_all cs ulid_init)"
  proof (cases cs)
    case (Cons c ds)
    have "be_val (g_last_rand ulid_init) = 0" by (simp add: ulid_init_def be_val_def numeral_eq_Suc)
    then show ?thesis using mint_all_sorted[of cs ulid_init] assms Cons
      by (cases c) (fastforce simp: ulid_init_def)
  qed simp
  show "\<forall>u \<in> set (mint_all cs ulid_init). length u = 26" using len by (auto simp: in_set_conv_nth)
qed

theorem ulid_monotone_witness:
  "sorted_wrt (<) (mint_all [(1700000000000, [7,7,7,7,7,7,7,7,7,7]), (1700000000000, [7,7,7,7,7,7,7,7,7,7]), (1700000000001, [3,3,3,3,3,3,3,3,3,3])] ulid_init)"
  by (rule conjunct1[OF ulid_monotone]) (simp_all add: be_val_def)

text \<open>
  When the random part of the previous call is all ones, a call in the same millisecond draws a fresh value, and the new
  identifier can be smaller than the previous one.
\<close>
theorem ulid_overflow_goes_back:
  "\<exists>ones. \<exists>u s u' s'. GenerateUlid 5 ones ulid_init = (u, s) \<and> GenerateUlid 5 [0,0,0,0,0,0,0,0,0,0] s = (u', s') \<and> u' < u"
proof -
  let ?ones = "[255,255,255,255,255,255,255,255,255,255] :: bytes" and ?zero = "[0,0,0,0,0,0,0,0,0,0] :: bytes"
  have "GenerateUlid 5 ?ones ulid_init = (ulid_text 5 ?ones, \<lparr>g_last_ms = 5, g_last_rand = ?ones\<rparr>)"
    by (simp add: GenerateUlid_def ulid_init_def ulid_text_def)
  moreover have "GenerateUlid 5 ?zero \<lparr>g_last_ms = 5, g_last_rand = ?ones\<rparr> = (ulid_text 5 ?zero, \<lparr>g_last_ms = 5, g_last_rand = ?zero\<rparr>)"
    by (simp add: GenerateUlid_def ulid_text_def IncrementRandom_def)
  moreover have "ulid_text 5 ?zero < ulid_text 5 ?ones" by (rule ulid_text_less) (simp_all add: be_val_def)
  ultimately show ?thesis by blast
qed

end
