(* ===== verification/Recursive_Chunker.thy ===== *)
theory Recursive_Chunker
  imports Prelude "HOL-Library.Sublist"
begin

text \<open>
  The text splitter of the processing pipeline (\<^verbatim>\<open>include/cortrix/spc/recursive_chunker.h\<close>, \<^verbatim>\<open>src/spc/recursive_chunker.cpp\<close>).
  A text is its bytes.  Separators are tried one after the other on the pieces that are still too long; when
  they run out the text is cut at a number of bytes.  The token counts and offsets, \<open>int\<close> in the code, are unbounded
  here: they are at most the length of a text in memory.  The conversion of \<open>chunk_size\<close> to \<open>size_t\<close> wraps at 64 bits.
\<close>

section \<open>Data\<close>

record ChunkResult =
  cr_text :: bytes
  cr_chunk_index :: int
  cr_start_offset :: int
  cr_end_offset :: int
  cr_token_count_approx :: int

record ChunkConfig =
  cc_chunk_size :: int
  cc_chunk_overlap :: int
  cc_separators :: "bytes list"

definition ChunkConfig_default :: ChunkConfig where
  "ChunkConfig_default = \<lparr>cc_chunk_size = 512, cc_chunk_overlap = 50,
     cc_separators = [[0x0C], [0x0A, 0x0A], [0x0A], [0xE3, 0x80, 0x82], [0x2E], [0xEF, 0xBC, 0x81], [0xEF, 0xBC, 0x9F],
       [0x21], [0x3F], [0xEF, 0xBC, 0x9B], [0x3B], [0x20], []]\<rparr>"

section \<open>Counting tokens\<close>

definition blank :: "u8 \<Rightarrow> bool" where
  "blank c \<longleftrightarrow> c = 0x20 \<or> c = 0x0A \<or> c = 0x09 \<or> c = 0x0D"

definition word_byte :: "u8 \<Rightarrow> bool" where
  "word_byte c \<longleftrightarrow> c < 0x80 \<and> \<not> blank c"

function count_tokens :: "bytes \<Rightarrow> int" where
  "count_tokens [] = 0"
| "count_tokens (c # cs) =
     (if c < 0x80 then
        if blank c then count_tokens cs
        else (let word_len = length (takeWhile word_byte (c # cs)) in
              max 1 (int ((word_len + 2) div 3)) + count_tokens (drop word_len (c # cs)))
      else (if c \<ge> 0xE0 then 2 else 1) +
           count_tokens (drop (if c \<ge> 0xF0 then 4 else if c \<ge> 0xE0 then 3 else 2) (c # cs)))"
  by pat_completeness auto
termination
  by (relation "measure length") (auto simp: word_byte_def)

definition ApproxTokenCount :: "bytes \<Rightarrow> int" where
  "ApproxTokenCount str = (if str = [] then 0 else max 1 (count_tokens str))"

section \<open>Boundaries and pieces\<close>

fun safe_back :: "bytes \<Rightarrow> nat \<Rightarrow> nat" where
  "safe_back str 0 = 0"
| "safe_back str (Suc p) = (if (str ! Suc p) AND 0xC0 = 0x80 then safe_back str p else Suc p)"

definition Utf8SafeBoundary :: "bytes \<Rightarrow> nat \<Rightarrow> nat" where
  "Utf8SafeBoundary str pos = (if pos \<ge> length str then length str else safe_back str pos)"

definition substr :: "bytes \<Rightarrow> nat \<Rightarrow> nat \<Rightarrow> bytes" where
  "substr str pos n = take n (drop pos str)"

text \<open>The first occurrence of a string; \<open>std::string::find\<close> starts looking at a position.\<close>

fun find_sub :: "bytes \<Rightarrow> bytes \<Rightarrow> nat option" where
  "find_sub sep [] = (if sep = [] then Some 0 else None)"
| "find_sub sep (c # cs) = (if take (length sep) (c # cs) = sep then Some 0 else map_option Suc (find_sub sep cs))"

definition string_find :: "bytes \<Rightarrow> bytes \<Rightarrow> nat \<Rightarrow> nat option" where
  "string_find str s from = (if from \<le> length str then map_option ((+) from) (find_sub s (drop from str)) else None)"

definition char_len :: "u8 \<Rightarrow> nat" where
  "char_len c = (if c \<ge> 0xF0 then 4 else if c \<ge> 0xE0 then 3 else if c \<ge> 0xC0 then 2 else 1)"

lemma char_len_pos [simp]: "0 < char_len c"
  by (simp add: char_len_def)

function split_chars :: "bytes \<Rightarrow> bytes list" where
  "split_chars [] = []"
| "split_chars (c # cs) = take (char_len c) (c # cs) # split_chars (drop (char_len c) (c # cs))"
  by pat_completeness auto
termination
  by (relation "measure length") (auto simp: Suc_diff_le diff_less_Suc char_len_def)

function split_sep :: "bytes \<Rightarrow> bytes \<Rightarrow> bytes list" where
  "split_sep sep str = (if sep = [] then [str] else
     case find_sub sep str of
       None \<Rightarrow> [str]
     | Some p \<Rightarrow> take p str # split_sep sep (drop (p + length sep) str))"
  by pat_completeness auto

lemma find_sub_SomeD: "find_sub sep str = Some p \<Longrightarrow> str = take p str @ sep @ drop (p + length sep) str \<and> p + length sep \<le> length str"
proof (induction str arbitrary: p)
  case (Cons c cs)
  show ?case
  proof (cases "take (length sep) (c # cs) = sep")
    case True
    then have "length sep \<le> length (c # cs)" by (metis length_take min.cobounded1)
    then show ?thesis using Cons.prems True append_take_drop_id[of "length sep" "c # cs"] by auto
  next
    case False
    then show ?thesis using Cons by auto
  qed
qed (simp split: if_splits)

termination split_sep
proof (relation "measure (length \<circ> snd)", goal_cases)
  case (2 sep str p)
  then have "0 < length sep" "p + length sep \<le> length str" using find_sub_SomeD by auto
  then have "length str - (p + length sep) < length str" by linarith
  then show ?case by simp
qed simp

declare split_sep.simps [simp del]

definition SplitBySeparator :: "bytes \<Rightarrow> bytes \<Rightarrow> bytes list" where
  "SplitBySeparator str sep = (if sep = [] then split_chars str else split_sep sep str)"

section \<open>Merging pieces\<close>

fun merge_step :: "bytes \<Rightarrow> int \<Rightarrow> bytes \<Rightarrow> bytes list \<times> bytes \<Rightarrow> bytes list \<times> bytes" where
  "merge_step sep chunk_size piece (merged, current) =
     (if piece = [] then (merged, current)
      else let candidate = (if current = [] then piece else current @ sep @ piece) in
        if ApproxTokenCount candidate \<le> chunk_size then (merged, candidate)
        else (if current \<noteq> [] then merged @ [current] else merged, piece))"

definition MergePieces :: "bytes list \<Rightarrow> bytes \<Rightarrow> int \<Rightarrow> bytes list" where
  "MergePieces pieces sep chunk_size =
     (let (merged, current) = fold (merge_step sep chunk_size) pieces ([], [])
      in if current \<noteq> [] then merged @ [current] else merged)"

section \<open>Cutting\<close>

lemma safe_back_le: "safe_back str p \<le> p"
  by (induction p) auto

lemma Utf8SafeBoundary_le: "Utf8SafeBoundary str p \<le> p"
  by (simp add: Utf8SafeBoundary_def safe_back_le)

text \<open>The inner loop shortens a cut until it fits; it gives its new end and the chunk.\<close>

function shrink :: "bytes \<Rightarrow> int \<Rightarrow> nat \<Rightarrow> nat \<Rightarrow> bytes \<Rightarrow> nat \<times> bytes" where
  "shrink str chunk_size pos e chunk =
     (if ApproxTokenCount chunk > chunk_size \<and> length chunk > 1 then
        let e' = Utf8SafeBoundary str (pos + (e - pos) * 3 div 4) in
        if e' \<le> pos then (pos + 1, chunk) else shrink str chunk_size pos e' (substr str pos (e' - pos))
      else (e, chunk))"
  by pat_completeness auto
termination
proof (relation "measure (\<lambda>(_, _, pos, e, _). e - pos)", goal_cases)
  case (2 str chunk_size pos e chunk e')
  have "e' \<le> pos + (e - pos) * 3 div 4" using 2 Utf8SafeBoundary_le by simp
  moreover have "pos < e'" using 2 by simp
  ultimately show ?case by simp
qed simp

declare shrink.simps [simp del]

lemma shrink_advances: "pos < e \<Longrightarrow> pos < fst (shrink str chunk_size pos e chunk)"
proof (induction str chunk_size pos e chunk rule: shrink.induct)
  case (1 str chunk_size pos e chunk)
  show ?case by (subst shrink.simps) (use 1 in \<open>auto simp: Let_def\<close>)
qed

definition chunk_result :: "bytes \<Rightarrow> ChunkResult" where
  "chunk_result str = \<lparr>cr_text = str, cr_chunk_index = 0, cr_start_offset = 0, cr_end_offset = 0,
     cr_token_count_approx = ApproxTokenCount str\<rparr>"

definition cut_end :: "bytes \<Rightarrow> int \<Rightarrow> nat \<Rightarrow> nat" where
  "cut_end str chunk_size pos =
     (let e = Utf8SafeBoundary str (min (nat ((int pos + chunk_size * 3) mod 2 ^ 64)) (length str))
      in if e \<le> pos then pos + 1 else e)"

lemma cut_end_advances: "pos < cut_end str chunk_size pos"
  by (simp add: cut_end_def Let_def)

function hard_cut :: "bytes \<Rightarrow> int \<Rightarrow> nat \<Rightarrow> ChunkResult list" where
  "hard_cut str chunk_size pos =
     (if pos < length str then
        let e = cut_end str chunk_size pos;
            r = shrink str chunk_size pos e (substr str pos (e - pos))
        in chunk_result (snd r) # hard_cut str chunk_size (fst r)
      else [])"
  by pat_completeness auto
termination
proof (relation "measure (\<lambda>(str, _, pos). length str - pos)", goal_cases)
  case (2 str chunk_size pos e r)
  have "pos < fst r" unfolding 2(3) 2(2) by (rule shrink_advances[OF cut_end_advances])
  then show ?case using 2(1) by simp
qed simp

declare hard_cut.simps [simp del]

section \<open>The recursion\<close>

function SplitRecursive :: "ChunkConfig \<Rightarrow> bytes \<Rightarrow> nat \<Rightarrow> ChunkResult list" where
  "SplitRecursive cfg str depth =
     (if str = [] then []
      else if ApproxTokenCount str \<le> cc_chunk_size cfg then [chunk_result str]
      else if depth \<ge> length (cc_separators cfg) then hard_cut str (cc_chunk_size cfg) 0
      else let sep = cc_separators cfg ! depth;
               merged = MergePieces (SplitBySeparator str sep) sep (cc_chunk_size cfg)
           in concat (map (\<lambda>piece. if ApproxTokenCount piece > cc_chunk_size cfg then SplitRecursive cfg piece (depth + 1)
                                   else [chunk_result piece]) merged))"
  by pat_completeness auto
termination
  by (relation "measure (\<lambda>(cfg, _, depth). length (cc_separators cfg) - depth)") auto

declare SplitRecursive.simps [simp del]

section \<open>Offsets and overlap\<close>

fun place_chunks :: "bytes \<Rightarrow> int \<Rightarrow> nat \<Rightarrow> ChunkResult list \<Rightarrow> ChunkResult list" where
  "place_chunks str idx search_from [] = []"
| "place_chunks str idx search_from (c # cs) =
     (let pos = (case string_find str (cr_text c) search_from of None \<Rightarrow> search_from | Some p \<Rightarrow> p)
      in c\<lparr>cr_chunk_index := idx, cr_start_offset := int pos, cr_end_offset := int (pos + length (cr_text c))\<rparr> #
         place_chunks str (idx + 1) (pos + 1) cs)"

function overlap_pos :: "bytes \<Rightarrow> int \<Rightarrow> nat \<Rightarrow> int \<Rightarrow> nat" where
  "overlap_pos prev overlap pos tokens =
     (if pos > 0 \<and> tokens < overlap then
        let p = Utf8SafeBoundary prev (pos - 1) in overlap_pos prev overlap p (ApproxTokenCount (drop p prev))
      else pos)"
  by pat_completeness auto
termination
proof (relation "measure (\<lambda>(_, _, pos, _). pos)", goal_cases)
  case (2 prev overlap pos tokens p)
  then show ?case using Utf8SafeBoundary_le[of prev "pos - 1"] by (simp; linarith)
qed simp

declare overlap_pos.simps [simp del]

definition add_overlap :: "int \<Rightarrow> ChunkResult \<Rightarrow> ChunkResult \<Rightarrow> ChunkResult" where
  "add_overlap overlap prev c =
     (let pt = cr_text prev; overlap_bytes = length pt - overlap_pos pt overlap (length pt) 0
      in if overlap_bytes > 0 \<and> overlap_bytes < length pt
         then let t = drop (length pt - overlap_bytes) pt @ cr_text c
              in c\<lparr>cr_text := t, cr_start_offset := max 0 (cr_start_offset c - int overlap_bytes),
                   cr_token_count_approx := ApproxTokenCount t\<rparr>
         else c)"

fun overlap_from :: "int \<Rightarrow> ChunkResult \<Rightarrow> ChunkResult list \<Rightarrow> ChunkResult list" where
  "overlap_from overlap prev [] = []"
| "overlap_from overlap prev (c # cs) = (let c' = add_overlap overlap prev c in c' # overlap_from overlap c' cs)"

definition Chunk :: "ChunkConfig \<Rightarrow> bytes \<Rightarrow> ChunkResult list" where
  "Chunk cfg str =
     (if str = [] then []
      else let raw = place_chunks str 0 0 (SplitRecursive cfg str 0)
           in if cc_chunk_overlap cfg > 0 \<and> length raw > 1
              then (case raw of [] \<Rightarrow> [] | c # cs \<Rightarrow> c # overlap_from (cc_chunk_overlap cfg) c cs)
              else raw)"

section \<open>Deleting separators\<close>

text \<open>One string becomes another when occurrences of separators are deleted, one at a time.\<close>

inductive elide1 :: "bytes set \<Rightarrow> bytes \<Rightarrow> bytes \<Rightarrow> bool" for S where
  "sep \<in> S \<Longrightarrow> elide1 S (u @ sep @ v) (u @ v)"

definition elides :: "bytes set \<Rightarrow> bytes \<Rightarrow> bytes \<Rightarrow> bool" where
  "elides S = (elide1 S)\<^sup>*\<^sup>*"

lemma elides_refl [simp]: "elides S x x"
  by (simp add: elides_def)

lemma elides_trans [trans]: "elides S x y \<Longrightarrow> elides S y z \<Longrightarrow> elides S x z"
  by (simp add: elides_def)

lemma elide1_context: "elide1 S x y \<Longrightarrow> elide1 S (a @ x @ b) (a @ y @ b)"
proof (induction rule: elide1.induct)
  case (1 sep u v)
  then show ?case using elide1.intros[of sep S "a @ u" "v @ b"] by simp
qed

text \<open>Bytes that are in no separator are all kept, in order.\<close>

lemma elides_keeps:
  "elides S x y \<Longrightarrow> filter (\<lambda>b. \<forall>sep \<in> S. b \<notin> set sep) y = filter (\<lambda>b. \<forall>sep \<in> S. b \<notin> set sep) x"
  unfolding elides_def
proof (induction rule: rtranclp_induct)
  case (step y z)
  have "filter (\<lambda>b. \<forall>sep \<in> S. b \<notin> set sep) z = filter (\<lambda>b. \<forall>sep \<in> S. b \<notin> set sep) y"
    using step(2) by cases (auto simp: filter_empty_conv)
  with step.IH show ?case by simp
qed simp

lemma elides_context: "elides S x y \<Longrightarrow> elides S (a @ x @ b) (a @ y @ b)"
  unfolding elides_def
  by (induction rule: rtranclp_induct) (auto intro: rtranclp.rtrancl_into_rtrancl elide1_context)

lemma elides_append: "elides S x y \<Longrightarrow> elides S x' y' \<Longrightarrow> elides S (x @ x') (y @ y')"
  using elides_context[of S x y "[]" x'] elides_context[of S x' y' y "[]"] by (auto intro: elides_trans)

lemma elides_sep: "sep \<in> S \<Longrightarrow> elides S (u @ sep @ v) (u @ v)"
  unfolding elides_def by (intro r_into_rtranclp elide1.intros)

lemma elides_concat: "(\<And>x. x \<in> set xs \<Longrightarrow> elides S x (f x)) \<Longrightarrow> elides S (concat xs) (concat (map f xs))"
  by (induction xs) (auto intro: elides_append)

section \<open>Pieces cover the text\<close>

definition sep_tail :: "bytes \<Rightarrow> bytes list \<Rightarrow> bytes" where
  "sep_tail sep ps = concat (map (\<lambda>p. sep @ p) ps)"

lemma split_sep_join: "\<exists>p ps. split_sep sep str = p # ps \<and> str = p @ sep_tail sep ps"
proof (induction sep str rule: split_sep.induct)
  case (1 sep str)
  show ?case
  proof (cases "sep = [] \<or> find_sub sep str = None")
    case True
    then show ?thesis by (subst split_sep.simps) (auto simp: sep_tail_def)
  next
    case False
    then obtain q where q: "sep \<noteq> []" "find_sub sep str = Some q" by auto
    from 1[OF q] obtain p ps where "split_sep sep (drop (q + length sep) str) = p # ps"
      "drop (q + length sep) str = p @ sep_tail sep ps" by blast
    then show ?thesis using q find_sub_SomeD[OF q(2)] by (subst split_sep.simps) (simp add: sep_tail_def)
  qed
qed

lemma split_chars_concat: "concat (split_chars str) = str"
  by (induction str rule: split_chars.induct) simp_all

lemma split_chars_join: "str \<noteq> [] \<Longrightarrow> \<exists>p ps. split_chars str = p # ps \<and> str = p @ sep_tail [] ps"
  using split_chars_concat[of str] by (cases "split_chars str") (auto simp: sep_tail_def)

lemma SplitBySeparator_join:
  assumes "str \<noteq> []"
  obtains p ps where "SplitBySeparator str sep = p # ps" "str = p @ sep_tail sep ps"
  using split_chars_join[OF assms] split_sep_join[of sep str]
  by (cases "sep = []") (metis SplitBySeparator_def that)+

lemma merge_elides:
  assumes "sep \<in> S" "fold (merge_step sep n) ps (m, c) = (m', c')"
  shows "elides S (concat m @ c @ sep_tail sep ps) (concat m' @ c')"
  using assms(2)
proof (induction ps arbitrary: m c)
  case (Cons p ps)
  obtain m1 c1 where st: "merge_step sep n p (m, c) = (m1, c1)" by fastforce
  have ih: "elides S (concat m1 @ c1 @ sep_tail sep ps) (concat m' @ c')" using Cons st by simp
  have "elides S (concat m @ c @ sep @ p @ sep_tail sep ps) (concat m1 @ c1 @ sep_tail sep ps)"
    using st elides_sep[OF assms(1), of "concat m @ c" "p @ sep_tail sep ps"]
    by (auto simp: Let_def split: if_splits)
  then show ?case using ih by (auto simp: sep_tail_def intro: elides_trans)
qed (simp add: sep_tail_def)

lemma merge_members:
  assumes "fold (merge_step sep n) ps (m, c) = (m', c')"
    and "\<forall>x \<in> set m. x \<noteq> [] \<and> (ApproxTokenCount x \<le> n \<or> x \<in> A)" "c = [] \<or> ApproxTokenCount c \<le> n \<or> c \<in> A" "set ps \<subseteq> A"
  shows "(\<forall>x \<in> set m'. x \<noteq> [] \<and> (ApproxTokenCount x \<le> n \<or> x \<in> A)) \<and> (c' = [] \<or> ApproxTokenCount c' \<le> n \<or> c' \<in> A)"
  using assms
proof (induction ps arbitrary: m c)
  case (Cons p ps)
  obtain m1 c1 where st: "merge_step sep n p (m, c) = (m1, c1)" by fastforce
  have "\<forall>x \<in> set m1. x \<noteq> [] \<and> (ApproxTokenCount x \<le> n \<or> x \<in> A)" "c1 = [] \<or> ApproxTokenCount c1 \<le> n \<or> c1 \<in> A"
    using Cons.prems(2-4) st by (auto simp: Let_def split: if_splits)
  then show ?case using Cons.IH[of m1 c1] Cons.prems(1,4) st by auto
qed simp

lemma MergePieces_split:
  assumes "str \<noteq> []" "sep \<in> S" "pieces = SplitBySeparator str sep"
  shows "elides S str (concat (MergePieces pieces sep n))"
    "x \<in> set (MergePieces pieces sep n) \<Longrightarrow> x \<noteq> [] \<and> (ApproxTokenCount x \<le> n \<or> x \<in> set pieces)"
proof -
  obtain p ps where j: "SplitBySeparator str sep = p # ps" "str = p @ sep_tail sep ps" using SplitBySeparator_join[OF assms(1)] .
  obtain m c where f: "fold (merge_step sep n) pieces ([], []) = (m, c)" by fastforce
  have "merge_step sep n p ([], []) = ([], p)" by simp
  then have f': "fold (merge_step sep n) ps ([], p) = (m, c)" using f j(1) assms(3) by (simp del: merge_step.simps)
  show "elides S str (concat (MergePieces pieces sep n))"
    using merge_elides[OF assms(2) f'] f by (auto simp: MergePieces_def j(2))
  show "x \<noteq> [] \<and> (ApproxTokenCount x \<le> n \<or> x \<in> set pieces)" if "x \<in> set (MergePieces pieces sep n)"
    using merge_members[OF f, of "set pieces"] that f by (auto simp: MergePieces_def split: if_splits)
qed

section \<open>Chunks fit\<close>

lemma char_tokens: "ApproxTokenCount (take (char_len c) (c # cs)) \<le> 2"
proof (cases "c < 0xC0")
  case True
  then have "\<not> 0xF0 \<le> c" "\<not> 0xE0 \<le> c" "\<not> 0xC0 \<le> c" 
    using le_less_trans[of "0xF0" c "0xC0"] le_less_trans[of "0xE0" c "0xC0"] by auto
  then have "char_len c = 1" by (simp add: char_len_def)
  then show ?thesis by (simp add: ApproxTokenCount_def word_byte_def)
next
  case False
  then have "\<not> c < 0x80" by (auto simp: not_less intro: order_trans[of _ "0xC0"])
  then show ?thesis using False by (auto simp: ApproxTokenCount_def char_len_def)
qed

lemma split_chars_tokens: "x \<in> set (split_chars str) \<Longrightarrow> ApproxTokenCount x \<le> 2"
proof (induction str rule: split_chars.induct)
  case (2 c cs)
  then show ?case using char_tokens[of c cs] by auto
qed simp

text \<open>What a list of chunks must be like for a text.\<close>

definition covers :: "ChunkConfig \<Rightarrow> bytes \<Rightarrow> ChunkResult list \<Rightarrow> bool" where
  "covers cfg str rs \<longleftrightarrow> elides (set (cc_separators cfg)) str (concat (map cr_text rs)) \<and>
     (\<forall>r \<in> set rs. cr_text r \<noteq> [] \<and> ApproxTokenCount (cr_text r) \<le> cc_chunk_size cfg \<and>
        cr_token_count_approx r = ApproxTokenCount (cr_text r))"

lemma chunk_result_simps [simp]:
  "cr_text (chunk_result t) = t" "cr_token_count_approx (chunk_result t) = ApproxTokenCount t"
  by (simp_all add: chunk_result_def)

lemma covers_concat:
  assumes "elides (set (cc_separators cfg)) str (concat ms)" "\<And>m. m \<in> set ms \<Longrightarrow> covers cfg m (f m)"
  shows "covers cfg str (concat (map f ms))"
proof -
  have "elides (set (cc_separators cfg)) (concat ms) (concat (map (\<lambda>m. concat (map cr_text (f m))) ms))"
    using assms(2) by (intro elides_concat) (simp add: covers_def)
  moreover have "concat (map (\<lambda>m. concat (map cr_text (f m))) ms) = concat (map cr_text (concat (map f ms)))"
    by (induction ms) simp_all
  ultimately show ?thesis using assms by (auto simp: covers_def intro: elides_trans)
qed

lemma SplitRecursive_covers:
  assumes "[] \<in> set (drop depth (cc_separators cfg))" "2 \<le> cc_chunk_size cfg"
  shows "covers cfg str (SplitRecursive cfg str depth)"
  using assms
proof (induction cfg str depth rule: SplitRecursive.induct)
  case (1 cfg str depth)
  let ?seps = "cc_separators cfg" and ?n = "cc_chunk_size cfg"
  show ?case
  proof (cases "str = [] \<or> ApproxTokenCount str \<le> ?n")
    case True
    then show ?thesis by (subst SplitRecursive.simps) (auto simp: covers_def)
  next
    case False
    have d: "depth < length ?seps" using 1(2) by (cases "depth < length ?seps") auto
    define sep where "sep = ?seps ! depth"
    define merged where "merged = MergePieces (SplitBySeparator str sep) sep ?n"
    have sep: "sep \<in> set ?seps" "drop depth ?seps = sep # drop (Suc depth) ?seps"
      using d by (simp_all add: sep_def Cons_nth_drop_Suc)
    have str: "str \<noteq> []" using False by simp
    note mp = MergePieces_split[where n = "?n", OF str sep(1) refl, folded merged_def]
    have "covers cfg m (if ApproxTokenCount m > ?n then SplitRecursive cfg m (depth + 1) else [chunk_result m])"
      if m: "m \<in> set merged" for m
    proof (cases "ApproxTokenCount m > ?n")
      case True
      then have "sep \<noteq> []" using mp(2)[OF m] split_chars_tokens[of m str] True 1(3) by (auto simp: SplitBySeparator_def)
      then have "[] \<in> set (drop (depth + 1) ?seps)" using 1(2) sep(2) by auto
      then show ?thesis using True 1(1)[OF str _ _ sep_def merged_def m] 1(3) False d by auto
    next
      case False
      then show ?thesis using mp(2)[OF m] by (simp add: covers_def)
    qed
    from covers_concat[OF mp(1) this] show ?thesis using False d
      by (subst SplitRecursive.simps) (simp add: merged_def sep_def Let_def)
  qed
qed

section \<open>Offsets and overlap of the result\<close>

lemma place_chunks_simps [simp]:
  "length (place_chunks str i from cs) = length cs"
  "map cr_text (place_chunks str i from cs) = map cr_text cs"
  "map cr_token_count_approx (place_chunks str i from cs) = map cr_token_count_approx cs"
  by (induction cs arbitrary: i "from") (simp_all add: Let_def)

lemma place_chunks_members:
  "(\<forall>r \<in> set (place_chunks str i from cs). P (cr_text r) (cr_token_count_approx r)) \<longleftrightarrow>
   (\<forall>r \<in> set cs. P (cr_text r) (cr_token_count_approx r))"
  by (induction cs arbitrary: i "from") (simp_all add: Let_def)

lemma covers_place: "covers cfg str (place_chunks str' i from cs) \<longleftrightarrow> covers cfg str cs"
  using place_chunks_members[of str' i "from" cs "\<lambda>t n. t \<noteq> [] \<and> ApproxTokenCount t \<le> cc_chunk_size cfg \<and> n = ApproxTokenCount t"]
  by (simp add: covers_def)

lemma place_chunks_index: "k < length cs \<Longrightarrow> cr_chunk_index (place_chunks str i from cs ! k) = i + int k"
  by (induction cs arbitrary: i "from" k) (auto simp: Let_def nth_Cons' )

text \<open>Each chunk of the second list is a proper suffix of its predecessor there followed by its counterpart in the first.\<close>

fun overlapped :: "bytes \<Rightarrow> ChunkResult list \<Rightarrow> ChunkResult list \<Rightarrow> bool" where
  "overlapped prev [] [] = True"
| "overlapped prev (c # cs) (d # ds) \<longleftrightarrow>
     (\<exists>ov. suffix ov prev \<and> (ov = [] \<or> length ov < length prev) \<and> cr_text d = ov @ cr_text c \<and>
        cr_chunk_index d = cr_chunk_index c \<and> cr_end_offset d = cr_end_offset c \<and>
        (cr_token_count_approx c = ApproxTokenCount (cr_text c) \<longrightarrow> cr_token_count_approx d = ApproxTokenCount (cr_text d))) \<and>
     overlapped (cr_text d) cs ds"
| "overlapped prev _ _ = False"

lemma overlapped_refl: "overlapped prev cs cs"
  by (induction cs arbitrary: prev) auto

lemma overlap_from_overlapped: "overlapped (cr_text prev) cs (overlap_from n prev cs)"
proof (induction cs arbitrary: prev)
  case (Cons c cs)
  let ?d = "add_overlap n prev c"
  have "\<exists>ov. suffix ov (cr_text prev) \<and> (ov = [] \<or> length ov < length (cr_text prev)) \<and> cr_text ?d = ov @ cr_text c \<and>
        cr_chunk_index ?d = cr_chunk_index c \<and> cr_end_offset ?d = cr_end_offset c \<and>
        (cr_token_count_approx c = ApproxTokenCount (cr_text c) \<longrightarrow> cr_token_count_approx ?d = ApproxTokenCount (cr_text ?d))"
    by (auto simp: add_overlap_def Let_def suffix_drop)
  then show ?case using Cons by (simp add: Let_def)
qed simp

lemma SplitRecursive_Nil [simp]: "SplitRecursive cfg [] depth = []"
  by (simp add: SplitRecursive.simps)

lemma Chunk_overlapped: "overlapped [] (place_chunks str 0 0 (SplitRecursive cfg str 0)) (Chunk cfg str)"
proof (cases "place_chunks str 0 0 (SplitRecursive cfg str 0)")
  case Nil
  then show ?thesis by (simp add: Chunk_def)
next
  case (Cons c cs)
  then show ?thesis using overlap_from_overlapped[of c cs "cc_chunk_overlap cfg"] overlapped_refl
    by (cases "str = []") (auto simp: Chunk_def Let_def)
qed

text \<open>
  C33: chunking loses only separators and respects the chunk size.  With the empty string among the separators (the
  default) and a chunk size of at least two, \<^const>\<open>Chunk\<close> returns, for every text, the chunks of a list whose texts joined
  are what deleting occurrences of separators, again and again, can leave of the input, so that every byte that is in no
  separator is there, in order; none is empty and none above the chunk size; each result is one of them, in order, behind a
  proper suffix of the previous result.  Which occurrences go is not said: a separator between two merged pieces stays, runs of
  them collapse.
\<close>
theorem chunks_cover_text:
  assumes "[] \<in> set (cc_separators cfg)" "2 \<le> cc_chunk_size cfg"
  shows "\<exists>raw. covers cfg str raw \<and>
    filter (\<lambda>b. \<forall>sep \<in> set (cc_separators cfg). b \<notin> set sep) (concat (map cr_text raw)) =
      filter (\<lambda>b. \<forall>sep \<in> set (cc_separators cfg). b \<notin> set sep) str \<and>
    map cr_chunk_index raw = map int [0..<length raw] \<and> overlapped [] raw (Chunk cfg str)"
proof -
  let ?rs = "SplitRecursive cfg str 0" and ?raw = "place_chunks str 0 0 (SplitRecursive cfg str 0)"
  have "covers cfg str ?rs" using assms by (intro SplitRecursive_covers) simp_all
  then have "covers cfg str ?raw" by (simp add: covers_place)
  moreover have "map cr_chunk_index ?raw = map int [0..<length ?raw]" by (rule nth_equalityI) (simp_all add: place_chunks_index)
  moreover have "elides (set (cc_separators cfg)) str (concat (map cr_text ?raw))" using \<open>covers cfg str ?raw\<close> by (simp add: covers_def)
  note elides_keeps[OF this]
  ultimately show ?thesis using Chunk_overlapped by blast
qed

theorem chunks_cover_text_witness:
  "\<exists>raw. covers ChunkConfig_default [0x61, 0x2E, 0x62] raw \<and> overlapped [] raw (Chunk ChunkConfig_default [0x61, 0x2E, 0x62])"
  using chunks_cover_text[of ChunkConfig_default "[0x61, 0x2E, 0x62]"] by (auto simp: ChunkConfig_default_def)

text \<open>
  The offsets of a chunk need not be those of its text.  A merged chunk has one separator where the input had two, is
  not found in the input, and gets the position where the search began: here "aa..bb", "cc" gives "aa.bb" with the
  offsets 0 and 5, which in the input hold "aa..b".
\<close>
theorem chunk_offsets_wrong:
  "\<exists>cfg str c. Chunk cfg str ! 0 = c \<and> cr_text c \<noteq> substr str (nat (cr_start_offset c)) (nat (cr_end_offset c - cr_start_offset c))"
proof -
  let ?cfg = "\<lparr>cc_chunk_size = 2, cc_chunk_overlap = 0, cc_separators = [[0x2E], []]\<rparr>"
  let ?s = "[0x61, 0x61, 0x2E, 0x2E, 0x62, 0x62, 0x2E, 0x63, 0x63] :: bytes"
  have "(let c = Chunk ?cfg ?s ! 0 in cr_text c \<noteq> substr ?s (nat (cr_start_offset c)) (nat (cr_end_offset c - cr_start_offset c)))"
    by code_simp
  then show ?thesis by (auto simp: Let_def)
qed

text \<open>
  A chunk size of one cuts characters apart and repeats their bytes: the inner loop of the hard cut leaves its
  chunk as it was when it gives up, but the next chunk starts one byte further on.
\<close>
theorem hard_cut_repeats_bytes:
  "map cr_text (Chunk (ChunkConfig_default\<lparr>cc_chunk_size := 1\<rparr>) [0xE4, 0xB8, 0xAD]) = [[0xE4, 0xB8, 0xAD], [0xB8, 0xAD]]"
  by code_simp

end
