(* ===== verification/Memory_Queue.thy ===== *)
theory Memory_Queue
  imports Main
begin

text \<open>
  The extraction queue of the memory service (\<^verbatim>\<open>include/cortrix/memory/memory_queue.h\<close>, \<^verbatim>\<open>src/memory/memory_queue.cpp\<close>): a bounded
  queue, worker threads that hand its items to a handler with retries and a dead-letter sink, and a thread that scans
  for forgotten interactions.  Every section under the mutex is one step.  All threads wait on one condition variable, so
  the threads that are blocked on it are part of the state, and a notification says whom it wakes.  Interactions, traces
  and the answers of the handler are arguments.
\<close>

section \<open>State\<close>

record mq_config =
  worker_count :: int
  queue_max_size :: nat
  retry_max :: int
  periodic_scan_interval_s :: int

record ('x, 'c) MemoryQueueItem =
  it_interaction :: 'x
  it_ctx :: "'c option"
  it_attempt :: int

datatype scan_thread = NoScan | ScanRuns | ScanWaits

text \<open>
  \<open>mq_checking\<close> counts the workers that are about to look at the queue, \<open>mq_waiting\<close> those blocked on the
  condition variable, \<open>mq_handling\<close> holds the items workers have taken, \<open>mq_buried\<close> those given to the sink.
\<close>

record ('x, 'c) MemoryQueue =
  mq_config :: mq_config
  mq_queue :: "('x, 'c) MemoryQueueItem list"
  mq_stop :: bool
  mq_workers_started :: bool
  mq_periodic_started :: bool
  mq_processed_count :: nat
  mq_dead_letter_count :: nat
  mq_checking :: nat
  mq_waiting :: nat
  mq_handling :: "('x, 'c) MemoryQueueItem list"
  mq_buried :: "('x, 'c) MemoryQueueItem list"
  mq_scan :: scan_thread

definition clamp_config :: "mq_config \<Rightarrow> mq_config" where
  "clamp_config cfg = cfg\<lparr>worker_count := (if worker_count cfg < 1 then 1 else worker_count cfg),
     queue_max_size := (if queue_max_size cfg = 0 then 1 else queue_max_size cfg),
     retry_max := (if retry_max cfg < 0 then 0 else retry_max cfg)\<rparr>"

definition MemoryQueue_new :: "mq_config \<Rightarrow> ('x, 'c) MemoryQueue" where
  "MemoryQueue_new cfg = \<lparr>mq_config = clamp_config cfg, mq_queue = [], mq_stop = False, mq_workers_started = False,
     mq_periodic_started = False, mq_processed_count = 0, mq_dead_letter_count = 0, mq_checking = 0, mq_waiting = 0,
     mq_handling = [], mq_buried = [], mq_scan = NoScan\<rparr>"

section \<open>Operations\<close>

text \<open>\<open>notify_one\<close> wakes a blocked worker, or the blocked scanner; nobody only if nobody is blocked.\<close>

datatype wake = WakeWorker | WakeScanner | WakeNobody

fun notify_one :: "wake \<Rightarrow> ('x, 'c) MemoryQueue \<Rightarrow> ('x, 'c) MemoryQueue option" where
  "notify_one WakeWorker q = (if mq_waiting q > 0 then Some (q\<lparr>mq_waiting := mq_waiting q - 1, mq_checking := mq_checking q + 1\<rparr>) else None)"
| "notify_one WakeScanner q = (if mq_scan q = ScanWaits then Some (q\<lparr>mq_scan := ScanRuns\<rparr>) else None)"
| "notify_one WakeNobody q = (if mq_waiting q = 0 \<and> mq_scan q \<noteq> ScanWaits then Some q else None)"

definition notify_all :: "('x, 'c) MemoryQueue \<Rightarrow> ('x, 'c) MemoryQueue" where
  "notify_all q = q\<lparr>mq_checking := mq_checking q + mq_waiting q, mq_waiting := 0,
     mq_scan := (if mq_scan q = ScanWaits then ScanRuns else mq_scan q)\<rparr>"

definition mq_Push :: "'x \<Rightarrow> 'c option \<Rightarrow> ('x, 'c) MemoryQueue \<Rightarrow> bool \<times> ('x, 'c) MemoryQueue" where
  "mq_Push x ctx q =
     (if length (mq_queue q) \<ge> queue_max_size (mq_config q) then (False, q)
      else (True, q\<lparr>mq_queue := mq_queue q @ [\<lparr>it_interaction = x, it_ctx = ctx, it_attempt = 0\<rparr>]\<rparr>))"

definition Depth :: "('x, 'c) MemoryQueue \<Rightarrow> nat" where
  "Depth q = length (mq_queue q)"

definition StartWorkers :: "('x, 'c) MemoryQueue \<Rightarrow> ('x, 'c) MemoryQueue" where
  "StartWorkers q = (if mq_workers_started q then q
     else q\<lparr>mq_workers_started := True, mq_stop := False, mq_checking := mq_checking q + nat (worker_count (mq_config q))\<rparr>)"

definition StartPeriodicScan :: "('x, 'c) MemoryQueue \<Rightarrow> ('x, 'c) MemoryQueue" where
  "StartPeriodicScan q = (if mq_periodic_started q then q
     else q\<lparr>mq_periodic_started := True, mq_stop := False, mq_scan := ScanRuns\<rparr>)"

fun push_all :: "'x list \<Rightarrow> ('x, 'c) MemoryQueue \<Rightarrow> int \<times> ('x, 'c) MemoryQueue" where
  "push_all [] q = (0, q)"
| "push_all (x # xs) q = (let (ok, q) = mq_Push x None q; (n, q) = push_all xs q in (if ok then n + 1 else n, q))"

definition RunPeriodicScanOnce :: "'x list option \<Rightarrow> ('x, 'c) MemoryQueue \<Rightarrow> int \<times> ('x, 'c) MemoryQueue" where
  "RunPeriodicScanOnce source q = (case source of None \<Rightarrow> (0, q) | Some pending \<Rightarrow> push_all pending q)"

text \<open>A worker evaluates the condition of its wait: it blocks, leaves, or takes the first item.\<close>

definition mq_Pop :: "('x, 'c) MemoryQueue \<Rightarrow> ('x, 'c) MemoryQueue" where
  "mq_Pop q =
     (if \<not> mq_stop q \<and> mq_queue q = [] then q\<lparr>mq_checking := mq_checking q - 1, mq_waiting := mq_waiting q + 1\<rparr>
      else case mq_queue q of
        [] \<Rightarrow> q\<lparr>mq_checking := mq_checking q - 1\<rparr>
      | it # its \<Rightarrow> q\<lparr>mq_checking := mq_checking q - 1, mq_queue := its, mq_handling := mq_handling q @ [it]\<rparr>)"

text \<open>
  The rest of the worker's loop, after the handler has answered for an item.  The boolean says that the item went
  back to the queue, which notifies a thread.
\<close>

definition settle :: "bool \<Rightarrow> ('x, 'c) MemoryQueueItem \<Rightarrow> ('x, 'c) MemoryQueue \<Rightarrow> bool \<times> ('x, 'c) MemoryQueue" where
  "settle ok it q =
     (let q = q\<lparr>mq_handling := remove1 it (mq_handling q), mq_checking := mq_checking q + 1\<rparr>;
          bury = (\<lambda>it. q\<lparr>mq_dead_letter_count := mq_dead_letter_count q + 1, mq_buried := mq_buried q @ [it]\<rparr>)
      in if ok then (False, q\<lparr>mq_processed_count := mq_processed_count q + 1\<rparr>)
         else if it_attempt it < retry_max (mq_config q)
         then let it = it\<lparr>it_attempt := it_attempt it + 1\<rparr> in
           if \<not> mq_stop q \<and> length (mq_queue q) < queue_max_size (mq_config q)
           then (True, q\<lparr>mq_queue := mq_queue q @ [it]\<rparr>)
           else (False, bury it)
         else (False, bury it))"

text \<open>The scanner evaluates the condition of its wait; when the interval is over it scans before it waits again.\<close>

definition scan_check :: "('x, 'c) MemoryQueue \<Rightarrow> ('x, 'c) MemoryQueue" where
  "scan_check q = q\<lparr>mq_scan := (if mq_stop q then NoScan else ScanWaits)\<rparr>"

definition mq_Stop :: "('x, 'c) MemoryQueue \<Rightarrow> ('x, 'c) MemoryQueue" where
  "mq_Stop q = notify_all (q\<lparr>mq_stop := True\<rparr>)"

definition stop_joined :: "('x, 'c) MemoryQueue \<Rightarrow> ('x, 'c) MemoryQueue" where
  "stop_joined q = q\<lparr>mq_workers_started := False, mq_periodic_started := False\<rparr>"

section \<open>Steps\<close>

text \<open>The reachable states with the number of items accepted by \<open>Push\<close> and whether a scanner was ever started.\<close>

inductive mq_reach :: "mq_config \<Rightarrow> ('x, 'c) MemoryQueue \<Rightarrow> nat \<Rightarrow> bool \<Rightarrow> bool" for cfg where
  init: "mq_reach cfg (MemoryQueue_new cfg) 0 False"
| push: "mq_reach cfg q n sc \<Longrightarrow> mq_Push x ctx q = (True, q1) \<Longrightarrow> notify_one w q1 = Some q2 \<Longrightarrow> mq_reach cfg q2 (n + 1) sc"
| start_workers: "mq_reach cfg q n sc \<Longrightarrow> mq_reach cfg (StartWorkers q) n sc"
| start_scan: "mq_reach cfg q n sc \<Longrightarrow> mq_reach cfg (StartPeriodicScan q) n True"
| pop: "mq_reach cfg q n sc \<Longrightarrow> 0 < mq_checking q \<Longrightarrow> mq_reach cfg (mq_Pop q) n sc"
| settled: "mq_reach cfg q n sc \<Longrightarrow> it \<in> set (mq_handling q) \<Longrightarrow> settle ok it q = (False, q1) \<Longrightarrow> mq_reach cfg q1 n sc"
| retried: "mq_reach cfg q n sc \<Longrightarrow> it \<in> set (mq_handling q) \<Longrightarrow> settle ok it q = (True, q1) \<Longrightarrow> notify_one w q1 = Some q2 \<Longrightarrow>
    mq_reach cfg q2 n sc"
| scan: "mq_reach cfg q n sc \<Longrightarrow> mq_scan q = ScanRuns \<Longrightarrow> mq_reach cfg (scan_check q) n sc"
| timeout: "mq_reach cfg q n sc \<Longrightarrow> mq_scan q = ScanWaits \<Longrightarrow> mq_reach cfg (q\<lparr>mq_scan := ScanRuns\<rparr>) n sc"
| stop: "mq_reach cfg q n sc \<Longrightarrow> mq_reach cfg (mq_Stop q) n sc"
| joined: "mq_reach cfg q n sc \<Longrightarrow> mq_stop q \<Longrightarrow> mq_checking q = 0 \<Longrightarrow> mq_waiting q = 0 \<Longrightarrow> mq_handling q = [] \<Longrightarrow>
    mq_scan q = NoScan \<Longrightarrow> mq_reach cfg (stop_joined q) n sc"

lemmas mq_defs = mq_Push_def StartWorkers_def StartPeriodicScan_def mq_Pop_def settle_def scan_check_def mq_Stop_def
  notify_all_def stop_joined_def Let_def

section \<open>Invariants\<close>

definition attempts_ok :: "('x, 'c) MemoryQueue \<Rightarrow> bool" where
  "attempts_ok q \<longleftrightarrow> (\<forall>it \<in> set (mq_queue q) \<union> set (mq_handling q) \<union> set (mq_buried q).
     0 \<le> it_attempt it \<and> it_attempt it \<le> retry_max (mq_config q))"

definition mq_account :: "mq_config \<Rightarrow> ('x, 'c) MemoryQueue \<Rightarrow> nat \<Rightarrow> bool" where
  "mq_account cfg q n \<longleftrightarrow> mq_config q = clamp_config cfg \<and>
     n = mq_processed_count q + mq_dead_letter_count q + length (mq_queue q) + length (mq_handling q) \<and>
     mq_dead_letter_count q = length (mq_buried q) \<and> length (mq_queue q) \<le> queue_max_size (mq_config q)"

lemma notify_one_frame:
  assumes "notify_one w q = Some q'"
  shows "mq_config q' = mq_config q" "mq_queue q' = mq_queue q" "mq_handling q' = mq_handling q" "mq_buried q' = mq_buried q"
    "mq_processed_count q' = mq_processed_count q" "mq_dead_letter_count q' = mq_dead_letter_count q" "mq_stop q' = mq_stop q"
  using assms by (cases w; auto split: if_splits)+

lemma mq_account_notify: "notify_one w q = Some q' \<Longrightarrow> mq_account cfg q' n \<longleftrightarrow> mq_account cfg q n"
  by (simp add: mq_account_def notify_one_frame)

lemma attempts_ok_notify: "notify_one w q = Some q' \<Longrightarrow> attempts_ok q' \<longleftrightarrow> attempts_ok q"
  by (simp add: attempts_ok_def notify_one_frame)

lemma mq_account_settle:
  assumes "mq_account cfg q n" "it \<in> set (mq_handling q)" "settle ok it q = (r, q1)"
  shows "mq_account cfg q1 n"
  using assms length_pos_if_in_set[OF assms(2)] by (auto simp: mq_account_def mq_defs length_remove1 split: if_splits)

lemma attempts_ok_settle:
  assumes "attempts_ok q" "it \<in> set (mq_handling q)" "settle ok it q = (r, q1)"
  shows "attempts_ok q1"
  using assms set_remove1_subset[of it "mq_handling q"] by (fastforce simp: attempts_ok_def mq_defs split: if_splits)

lemma mq_reach_account: "mq_reach cfg q n sc \<Longrightarrow> mq_account cfg q n"
proof (induction rule: mq_reach.induct)
  case (push q n sc x ctx q1 w q2)
  then show ?case by (auto simp: mq_account_notify) (auto simp: mq_account_def mq_Push_def split: if_splits)
next
  case (settled q n sc it ok q1)
  then show ?case by (blast intro: mq_account_settle)
next
  case (retried q n sc it ok q1 w q2)
  then show ?case by (auto simp: mq_account_notify intro: mq_account_settle)
qed (auto simp: mq_account_def mq_defs MemoryQueue_new_def clamp_config_def split: list.splits)

lemma mq_reach_attempts: "mq_reach cfg q n sc \<Longrightarrow> attempts_ok q"
proof (induction rule: mq_reach.induct)
  case (push q n sc x ctx q1 w q2)
  from push.hyps(1) have "mq_config q = clamp_config cfg" using mq_reach_account by (auto simp: mq_account_def)
  then show ?case using push by (auto simp: attempts_ok_notify) (auto simp: attempts_ok_def mq_Push_def clamp_config_def split: if_splits)
next
  case (settled q n sc it ok q1)
  then show ?case by (blast intro: attempts_ok_settle)
next
  case (retried q n sc it ok q1 w q2)
  then show ?case by (auto simp: attempts_ok_notify intro: attempts_ok_settle)
qed (auto simp: attempts_ok_def mq_defs MemoryQueue_new_def split: list.splits)

text \<open>Without a scanner every item that a blocked worker could take has a worker on its way to it.\<close>

definition wakeups_ok :: "('x, 'c) MemoryQueue \<Rightarrow> bool" where
  "wakeups_ok q \<longleftrightarrow> mq_scan q = NoScan \<and> (0 < mq_waiting q \<longrightarrow> length (mq_queue q) \<le> mq_checking q)"

lemma mq_reach_wakeups: "mq_reach cfg q n sc \<Longrightarrow> \<not> sc \<Longrightarrow> wakeups_ok q"
proof (induction rule: mq_reach.induct)
  case (push q n sc x ctx q1 w q2)
  then show ?case by (cases w) (auto simp: wakeups_ok_def mq_Push_def split: if_splits)
next
  case (retried q n sc it ok q1 w q2)
  then show ?case by (cases w) (auto simp: wakeups_ok_def mq_defs split: if_splits)
qed (auto simp: wakeups_ok_def mq_defs MemoryQueue_new_def split: list.splits if_splits)

section \<open>Properties\<close>

text \<open>
  The extraction queue drops nothing silently.  Under every interleaving of pushes, workers, retries, scans and
  stops, each accepted item is processed, given to the dead-letter sink, waiting or in a handler's hands, exactly once;
  the queue stays within its bound, an item is tried at most \<open>retry_max\<close> times again, and while no scanner runs
  a blocked worker never leaves an item behind: another worker is about to look at the queue.
\<close>
theorem memory_queue_accounts:
  assumes "mq_reach cfg q n sc"
  shows "n = mq_processed_count q + length (mq_buried q) + Depth q + length (mq_handling q) \<and>
    Depth q \<le> max 1 (queue_max_size cfg) \<and>
    (\<forall>it \<in> set (mq_queue q) \<union> set (mq_handling q) \<union> set (mq_buried q). 0 \<le> it_attempt it \<and> it_attempt it \<le> max 0 (retry_max cfg)) \<and>
    (\<not> sc \<and> 0 < mq_waiting q \<and> 0 < Depth q \<longrightarrow> 0 < mq_checking q)"
proof -
  have a: "mq_account cfg q n" "attempts_ok q" by (rule mq_reach_account[OF assms], rule mq_reach_attempts[OF assms])
  then have "retry_max (mq_config q) = max 0 (retry_max cfg)" by (simp add: mq_account_def clamp_config_def)
  then have "\<forall>it \<in> set (mq_queue q) \<union> set (mq_handling q) \<union> set (mq_buried q). 0 \<le> it_attempt it \<and> it_attempt it \<le> max 0 (retry_max cfg)"
    using a(2) by (simp add: attempts_ok_def)
  moreover have "0 < mq_checking q" if "\<not> sc" "0 < mq_waiting q" "0 < Depth q"
    using mq_reach_wakeups[OF assms that(1)] that(2,3) unfolding wakeups_ok_def Depth_def by linarith
  moreover have "Depth q \<le> max 1 (queue_max_size cfg)" using a(1) by (auto simp: mq_account_def Depth_def clamp_config_def split: if_splits)
  ultimately show ?thesis using a(1) by (auto simp: mq_account_def Depth_def)
qed

definition one_worker :: mq_config where
  "one_worker = \<lparr>worker_count = 1, queue_max_size = 10, retry_max = 3, periodic_scan_interval_s = 3600\<rparr>"

lemma worker_asleep:
  "\<exists>q :: (nat, unit) MemoryQueue. mq_reach one_worker q 0 False \<and> mq_waiting q = 1 \<and> mq_checking q = 0 \<and> mq_queue q = [] \<and>
     mq_handling q = [] \<and> \<not> mq_stop q \<and> \<not> mq_periodic_started q \<and> mq_scan q = NoScan \<and> mq_config q = one_worker"
proof -
  let ?q = "StartWorkers (MemoryQueue_new one_worker) :: (nat, unit) MemoryQueue"
  have "mq_reach one_worker ?q 0 False" by (intro mq_reach.start_workers mq_reach.init)
  then have "mq_reach one_worker (mq_Pop ?q) 0 False"
    by (rule mq_reach.pop) (simp add: mq_defs MemoryQueue_new_def clamp_config_def one_worker_def)
  then show ?thesis by (intro exI[of _ "mq_Pop ?q"]) (simp add: mq_defs MemoryQueue_new_def clamp_config_def one_worker_def)
qed

theorem memory_queue_accounts_witness:
  "\<exists>(q :: (nat, unit) MemoryQueue) n. mq_reach one_worker q n False \<and> n = mq_processed_count q + length (mq_buried q) + Depth q + length (mq_handling q)"
  using worker_asleep memory_queue_accounts[where ?'a = nat and ?'b = unit, of one_worker] by blast

text \<open>
  The scanner can take a worker's wake-up.  The scanner and the workers wait on the same condition variable and
  \<open>Push\<close> wakes one thread: if that is the scanner, whose condition is the stop flag, it goes back to waiting, and
  the accepted item stays in the queue although every worker is idle and blocked.
\<close>
theorem scan_steals_wakeup:
  "\<exists>(q :: (nat, unit) MemoryQueue) it. mq_reach one_worker q 1 True \<and> mq_queue q = [it] \<and> mq_waiting q = 1 \<and> mq_checking q = 0 \<and>
     mq_handling q = [] \<and> mq_scan q = ScanWaits \<and> \<not> mq_stop q"
proof -
  obtain q :: "(nat, unit) MemoryQueue" where q: "mq_reach one_worker q 0 False" "mq_waiting q = 1" "mq_checking q = 0" "mq_queue q = []"
    "mq_handling q = []" "\<not> mq_stop q" "\<not> mq_periodic_started q" "mq_scan q = NoScan" "mq_config q = one_worker"
    using worker_asleep by blast
  let ?q1 = "StartPeriodicScan q"
  let ?q2 = "scan_check ?q1"
  let ?q3 = "snd (mq_Push 0 None ?q2)"
  let ?q4 = "?q3\<lparr>mq_scan := ScanRuns\<rparr>"
  let ?q5 = "scan_check ?q4"
  have 2: "mq_reach one_worker ?q2 0 True"
    by (intro mq_reach.scan mq_reach.start_scan[OF q(1)]) (simp add: q StartPeriodicScan_def)
  have "mq_Push 0 None ?q2 = (True, ?q3)" "notify_one WakeScanner ?q3 = Some ?q4"
    using q by (simp_all add: mq_defs one_worker_def)
  from mq_reach.push[OF 2 this] have "mq_reach one_worker ?q5 1 True" by (intro mq_reach.scan) simp_all
  then show ?thesis by (intro exI[of _ ?q5]) (use q in \<open>simp add: mq_defs one_worker_def\<close>)
qed

end
