(* ===== verification/Sqlite.thy ===== *)
theory Sqlite
  imports Main
begin

text \<open>
  How the sources use SQLite.  A table is the list of its rows in rowid order; a statement means what its SQL text says
  and can fail when it is prepared (\<^verbatim>\<open>sqlite3_prepare_v2\<close>, which also fails on a handle that was never opened) or when
  it is stepped.  A statement that fails changes nothing.  The outcome of each statement is part of the environment of a
  call.
\<close>

datatype sql_outcome = SqlOk | PrepareFails | StepFails

definition sql_good :: "'q \<Rightarrow> sql_outcome" where
  "sql_good = (\<lambda>_. SqlOk)"

text \<open>The first row of a \<open>SELECT\<close>, if the statement delivers one.\<close>

definition select_row :: "('q \<Rightarrow> sql_outcome) \<Rightarrow> 'q \<Rightarrow> ('r \<Rightarrow> bool) \<Rightarrow> 'r list \<Rightarrow> 'r option" where
  "select_row env q P rows = (if env q = SqlOk then find P rows else None)"

text \<open>\<open>UPDATE ... WHERE\<close>, and the number of rows it changes (\<^verbatim>\<open>sqlite3_changes\<close>).\<close>

definition update_rows :: "('r \<Rightarrow> bool) \<Rightarrow> ('r \<Rightarrow> 'r) \<Rightarrow> 'r list \<Rightarrow> 'r list" where
  "update_rows P f rows = map (\<lambda>r. if P r then f r else r) rows"

definition changes :: "('r \<Rightarrow> bool) \<Rightarrow> 'r list \<Rightarrow> nat" where
  "changes P rows = length (filter P rows)"

lemma changes_0_iff: "changes P rows = 0 \<longleftrightarrow> (\<forall>r \<in> set rows. \<not> P r)"
  by (simp add: changes_def filter_empty_conv)

lemma changes_pos_iff: "0 < changes P rows \<longleftrightarrow> (\<exists>r \<in> set rows. P r)"
  using changes_0_iff[of P rows] by auto

lemma update_rows_id: "\<forall>r \<in> set rows. \<not> P r \<Longrightarrow> update_rows P f rows = rows"
  by (induction rows) (auto simp: update_rows_def)

lemma set_update_rows: "r' \<in> set (update_rows P f rows) \<longleftrightarrow> (\<exists>r \<in> set rows. r' = (if P r then f r else r))"
  by (auto simp: update_rows_def)

lemma map_update_rows: "(\<And>r. g (f r) = g r) \<Longrightarrow> map g (update_rows P f rows) = map g rows"
  by (simp add: update_rows_def)

lemma length_update_rows [simp]: "length (update_rows P f rows) = length rows"
  by (simp add: update_rows_def)

end
