(* ===== verification/Permissions.thy ===== *)
theory Permissions
  imports Prelude Sqlite
begin

text \<open>
  Who may read, write and share a namespace (\<^verbatim>\<open>include/cortrix/tenant/permission_service.h\<close>,
  \<^verbatim>\<open>src/tenant/permission_service.cpp\<close>), and the authorization of a query over several namespaces
  (\<^verbatim>\<open>src/query/authorize_namespaces.cpp\<close>) through the adapter of \<^verbatim>\<open>src/query/query_wiring.cpp\<close>.  The two tables of the catalog are
  lists of rows in the order SQLite delivers them; a statement is what its SQL text says, and it may fail when it is
  prepared or when it is stepped.  Identifiers contain no zero characters.
\<close>

section \<open>Errors\<close>

datatype TenantErrorCode =
    kTenantNotFound | kTenantAlreadyExists | kTenantEmailDuplicate | kTenantNameDuplicate | kTenantDeleteHasNamespaces
  | kTenantDeleteHasMembers | kTenantTransferTargetNotMember | kTenantLastOwnerRemoval | kMemberAlreadyExists | kMemberNotFound
  | kMemberRoleInvalid | kNsUnauthorized | kNsNotFound | kAclGrantToOwnerTenant | kAclDuplicateGrant | kAclGrantInvalidRole
  | kAclNotFound | kPermissionOwnerOnly | kTenantQuotaExceeded | kTenantQuotaNotFound | kTenantTransactionFailed
  | kAdminKeyRequired | kCallerNotMember | kCallerRoleInsufficient

fun TenantErrorCodeString :: "TenantErrorCode \<Rightarrow> string" where
  "TenantErrorCodeString kTenantNotFound = ''CX_ERR_TENANT_NOT_FOUND''"
| "TenantErrorCodeString kTenantAlreadyExists = ''CX_ERR_TENANT_ALREADY_EXISTS''"
| "TenantErrorCodeString kTenantEmailDuplicate = ''CX_ERR_TENANT_EMAIL_DUPLICATE''"
| "TenantErrorCodeString kTenantNameDuplicate = ''CX_ERR_TENANT_NAME_DUPLICATE''"
| "TenantErrorCodeString kTenantDeleteHasNamespaces = ''CX_ERR_TENANT_DELETE_HAS_NAMESPACES''"
| "TenantErrorCodeString kTenantDeleteHasMembers = ''CX_ERR_TENANT_DELETE_HAS_MEMBERS''"
| "TenantErrorCodeString kTenantTransferTargetNotMember = ''CX_ERR_TENANT_TRANSFER_TARGET_NOT_MEMBER''"
| "TenantErrorCodeString kTenantLastOwnerRemoval = ''CX_ERR_TENANT_LAST_OWNER_REMOVAL''"
| "TenantErrorCodeString kMemberAlreadyExists = ''CX_ERR_MEMBER_ALREADY_EXISTS''"
| "TenantErrorCodeString kMemberNotFound = ''CX_ERR_MEMBER_NOT_FOUND''"
| "TenantErrorCodeString kMemberRoleInvalid = ''CX_ERR_MEMBER_ROLE_INVALID''"
| "TenantErrorCodeString kNsUnauthorized = ''CX_ERR_NS_UNAUTHORIZED''"
| "TenantErrorCodeString kNsNotFound = ''CX_ERR_NS_NOT_FOUND''"
| "TenantErrorCodeString kAclGrantToOwnerTenant = ''CX_ERR_ACL_GRANT_TO_OWNER_TENANT''"
| "TenantErrorCodeString kAclDuplicateGrant = ''CX_ERR_ACL_DUPLICATE_GRANT''"
| "TenantErrorCodeString kAclGrantInvalidRole = ''CX_ERR_ACL_GRANT_INVALID_ROLE''"
| "TenantErrorCodeString kAclNotFound = ''CX_ERR_ACL_NOT_FOUND''"
| "TenantErrorCodeString kPermissionOwnerOnly = ''CX_ERR_PERMISSION_OWNER_ONLY''"
| "TenantErrorCodeString kTenantQuotaExceeded = ''CX_ERR_TENANT_QUOTA_EXCEEDED''"
| "TenantErrorCodeString kTenantQuotaNotFound = ''CX_ERR_TENANT_QUOTA_NOT_FOUND''"
| "TenantErrorCodeString kTenantTransactionFailed = ''CX_ERR_TENANT_TRANSACTION_FAILED''"
| "TenantErrorCodeString kAdminKeyRequired = ''CX_ERR_ADMIN_KEY_REQUIRED''"
| "TenantErrorCodeString kCallerNotMember = ''CX_ERR_CALLER_NOT_MEMBER''"
| "TenantErrorCodeString kCallerRoleInsufficient = ''CX_ERR_CALLER_ROLE_INSUFFICIENT''"

fun TenantErrorToStatusCode :: "TenantErrorCode \<Rightarrow> StatusCode" where
  "TenantErrorToStatusCode c =
     (if c \<in> {kTenantNotFound, kTenantQuotaNotFound, kMemberNotFound, kNsNotFound, kAclNotFound} then kNotFound
      else if c \<in> {kTenantAlreadyExists, kTenantEmailDuplicate, kTenantNameDuplicate, kMemberAlreadyExists, kAclDuplicateGrant} then kAlreadyExists
      else if c \<in> {kNsUnauthorized, kPermissionOwnerOnly, kCallerNotMember, kCallerRoleInsufficient} then kPermissionDenied
      else if c = kAdminKeyRequired then kUnauthenticated
      else if c = kTenantTransactionFailed then kUnavailable
      else kInvalidArgument)"

definition TenantStatus :: "TenantErrorCode \<Rightarrow> string \<Rightarrow> Status" where
  "TenantStatus c detail = StatusOf (TenantErrorToStatusCode c)
     (TenantErrorCodeString c @ (if detail \<noteq> [] then '': '' @ detail else []))"

lemma TenantStatus_not_ok [simp]: "\<not> ok (TenantStatus c detail)"
  by (cases c) (simp_all add: TenantStatus_def StatusOf_def ok_def)

section \<open>Roles and tables\<close>

datatype NsAclRole = VIEWER | EDITOR | ADMIN

fun role_ToString :: "NsAclRole \<Rightarrow> string" where
  "role_ToString VIEWER = ''viewer''" | "role_ToString EDITOR = ''editor''" | "role_ToString ADMIN = ''admin''"

definition ParseNsAclRole :: "string \<Rightarrow> NsAclRole option" where
  "ParseNsAclRole t = (if t = ''viewer'' then Some VIEWER else if t = ''editor'' then Some EDITOR
     else if t = ''admin'' then Some ADMIN else None)"

lemma Parse_ToString [simp]: "ParseNsAclRole (role_ToString r) = Some r"
  by (cases r) (simp_all add: ParseNsAclRole_def)

record AuthContext =
  ac_tenant_id :: string
  ac_user_id :: string
  ac_agent_id :: string
  ac_permissions :: int

abbreviation (input) "kPermRead \<equiv> (1 :: int)"

record ns_row =
  nr_ns_id :: string
  nr_tenant_id :: string
  nr_visibility :: string

record acl_row =
  ar_ns_id :: string
  ar_grantee_tenant_id :: string
  ar_grantee_user_id :: "string option"
  ar_role :: string
  ar_granted_at :: int
  ar_granted_by_user_id :: string

record perm_db =
  pd_namespaces :: "ns_row list"
  pd_ns_acl :: "acl_row list"

text \<open>The statements and how they may come out; a query that fails delivers no row.\<close>

datatype perm_stmt = QNsExists | QVisibility | QOwner | QUserAcl | QTenantAcl | QDuplicate | QInsert | QDelete | QList

type_synonym sql_env = "perm_stmt \<Rightarrow> sql_outcome"

section \<open>The structural layer\<close>

definition NsExists :: "sql_env \<Rightarrow> perm_db option \<Rightarrow> string \<Rightarrow> bool" where
  "NsExists env db ns = (case db of None \<Rightarrow> False
     | Some d \<Rightarrow> select_row env QNsExists (\<lambda>r. nr_ns_id r = ns) (pd_namespaces d) \<noteq> None)"

definition Visibility :: "sql_env \<Rightarrow> perm_db option \<Rightarrow> string \<Rightarrow> string" where
  "Visibility env db ns = (case db of None \<Rightarrow> []
     | Some d \<Rightarrow> (case select_row env QVisibility (\<lambda>r. nr_ns_id r = ns) (pd_namespaces d) of
         None \<Rightarrow> [] | Some r \<Rightarrow> nr_visibility r))"

definition CheckOwnerTenant :: "sql_env \<Rightarrow> perm_db option \<Rightarrow> string \<Rightarrow> string \<Rightarrow> bool" where
  "CheckOwnerTenant env db ns tenant = (case db of None \<Rightarrow> False
     | Some d \<Rightarrow> (case select_row env QOwner (\<lambda>r. nr_ns_id r = ns) (pd_namespaces d) of
         None \<Rightarrow> False | Some r \<Rightarrow> tenant = nr_tenant_id r))"

definition acl_key :: "string \<Rightarrow> string \<Rightarrow> string option \<Rightarrow> acl_row \<Rightarrow> bool" where
  "acl_key ns tenant user a \<longleftrightarrow> ar_ns_id a = ns \<and> ar_grantee_tenant_id a = tenant \<and> ar_grantee_user_id a = user"

definition select_role :: "sql_env \<Rightarrow> perm_stmt \<Rightarrow> (acl_row \<Rightarrow> bool) \<Rightarrow> acl_row list \<Rightarrow> NsAclRole option" where
  "select_role env q P rows = (case select_row env q P rows of None \<Rightarrow> None | Some a \<Rightarrow> ParseNsAclRole (ar_role a))"

definition GetAclRole :: "sql_env \<Rightarrow> perm_db option \<Rightarrow> string \<Rightarrow> string \<Rightarrow> string \<Rightarrow> NsAclRole option" where
  "GetAclRole env db ns tenant user = (case db of None \<Rightarrow> None
     | Some d \<Rightarrow>
         (case (if user \<noteq> [] then select_role env QUserAcl (acl_key ns tenant (Some user)) (pd_ns_acl d) else None) of
            Some role \<Rightarrow> Some role
          | None \<Rightarrow> select_role env QTenantAcl (acl_key ns tenant None) (pd_ns_acl d)))"

section \<open>The business layer\<close>

definition CanRead :: "sql_env \<Rightarrow> perm_db option \<Rightarrow> AuthContext \<Rightarrow> string \<Rightarrow> bool" where
  "CanRead env db ctx ns = (CheckOwnerTenant env db ns (ac_tenant_id ctx) \<or>
     GetAclRole env db ns (ac_tenant_id ctx) (ac_user_id ctx) \<noteq> None \<or> Visibility env db ns = ''public'')"

definition CanWrite :: "sql_env \<Rightarrow> perm_db option \<Rightarrow> AuthContext \<Rightarrow> string \<Rightarrow> bool" where
  "CanWrite env db ctx ns = (CheckOwnerTenant env db ns (ac_tenant_id ctx) \<or>
     GetAclRole env db ns (ac_tenant_id ctx) (ac_user_id ctx) \<in> {Some EDITOR, Some ADMIN})"

definition CanAdminAcl :: "sql_env \<Rightarrow> perm_db option \<Rightarrow> AuthContext \<Rightarrow> string \<Rightarrow> bool" where
  "CanAdminAcl env db ctx ns = (CheckOwnerTenant env db ns (ac_tenant_id ctx) \<or>
     GetAclRole env db ns (ac_tenant_id ctx) (ac_user_id ctx) = Some ADMIN)"

definition CanDelete :: "sql_env \<Rightarrow> perm_db option \<Rightarrow> AuthContext \<Rightarrow> string \<Rightarrow> bool" where
  "CanDelete env db ctx ns = CheckOwnerTenant env db ns (ac_tenant_id ctx)"

definition CanTransferOwnership :: "sql_env \<Rightarrow> perm_db option \<Rightarrow> AuthContext \<Rightarrow> string \<Rightarrow> bool" where
  "CanTransferOwnership env db ctx ns = CheckOwnerTenant env db ns (ac_tenant_id ctx)"

definition CanChangeVisibility :: "sql_env \<Rightarrow> perm_db option \<Rightarrow> AuthContext \<Rightarrow> string \<Rightarrow> bool" where
  "CanChangeVisibility env db ctx ns = CheckOwnerTenant env db ns (ac_tenant_id ctx)"

record BatchPermissionCheck =
  bp_ns_id :: string
  bp_can_read :: bool
  bp_can_write :: bool

definition perm_BatchCheck :: "sql_env \<Rightarrow> perm_db option \<Rightarrow> AuthContext \<Rightarrow> string list \<Rightarrow> BatchPermissionCheck list" where
  "perm_BatchCheck env db ctx nss =
     map (\<lambda>ns. \<lparr>bp_ns_id = ns, bp_can_read = CanRead env db ctx ns, bp_can_write = CanWrite env db ctx ns\<rparr>) nss"

section \<open>Changing the access list\<close>

text \<open>An empty user id stands for the whole tenant and is stored as \<open>NULL\<close>.\<close>

definition user_column :: "string \<Rightarrow> string option" where
  "user_column u = (if u = [] then None else Some u)"

text \<open>The primary key does not constrain rows whose user is \<open>NULL\<close>.\<close>

definition GrantAcl ::
  "sql_env \<Rightarrow> int \<Rightarrow> string \<Rightarrow> string \<Rightarrow> string \<Rightarrow> string \<Rightarrow> NsAclRole \<Rightarrow> AuthContext \<Rightarrow> perm_db option \<Rightarrow> Status \<times> perm_db option" where
  "GrantAcl env now errmsg ns tenant user role caller db = (case db of
     None \<Rightarrow> (TenantStatus kTenantTransactionFailed ''no db'', db)
   | Some d \<Rightarrow>
       let duplicate = (TenantStatus kAclDuplicateGrant (''ACL already exists on '' @ ns @ '' for '' @ tenant), db);
           present = list_ex (acl_key ns tenant (user_column user)) (pd_ns_acl d)
       in if \<not> NsExists env db ns then (TenantStatus kNsNotFound ns, db)
          else if \<not> CanAdminAcl env db caller ns
          then (TenantStatus kNsUnauthorized (''caller cannot administer ACL on '' @ ns), db)
          else if CheckOwnerTenant env db ns tenant
          then (TenantStatus kAclGrantToOwnerTenant (tenant @ '' already owns '' @ ns), db)
          else if env QDuplicate = SqlOk \<and> present then duplicate
          else (case env QInsert of
              PrepareFails \<Rightarrow> (TenantStatus kTenantTransactionFailed ''grant acl prepare'', db)
            | StepFails \<Rightarrow> (TenantStatus kTenantTransactionFailed (''grant acl: '' @ errmsg), db)
            | SqlOk \<Rightarrow>
                if user \<noteq> [] \<and> present then duplicate
                else (Status_Ok, Some (d\<lparr>pd_ns_acl := pd_ns_acl d @ [\<lparr>ar_ns_id = ns, ar_grantee_tenant_id = tenant,
                        ar_grantee_user_id = user_column user, ar_role = role_ToString role, ar_granted_at = now,
                        ar_granted_by_user_id = ac_user_id caller\<rparr>]\<rparr>))))"

definition RevokeAcl ::
  "sql_env \<Rightarrow> string \<Rightarrow> string \<Rightarrow> string \<Rightarrow> string \<Rightarrow> AuthContext \<Rightarrow> perm_db option \<Rightarrow> Status \<times> perm_db option" where
  "RevokeAcl env errmsg ns tenant user caller db = (case db of
     None \<Rightarrow> (TenantStatus kTenantTransactionFailed ''no db'', db)
   | Some d \<Rightarrow>
       if \<not> NsExists env db ns then (TenantStatus kNsNotFound ns, db)
       else if \<not> CanAdminAcl env db caller ns
       then (TenantStatus kNsUnauthorized (''caller cannot administer ACL on '' @ ns), db)
       else (case env QDelete of
           PrepareFails \<Rightarrow> (TenantStatus kTenantTransactionFailed ''revoke acl prepare'', db)
         | StepFails \<Rightarrow> (TenantStatus kTenantTransactionFailed (''revoke acl: '' @ errmsg), db)
         | SqlOk \<Rightarrow>
             if \<not> list_ex (acl_key ns tenant (user_column user)) (pd_ns_acl d)
             then (TenantStatus kAclNotFound (''no ACL on '' @ ns @ '' for '' @ tenant), db)
             else (Status_Ok, Some (d\<lparr>pd_ns_acl := filter (\<lambda>a. \<not> acl_key ns tenant (user_column user) a) (pd_ns_acl d)\<rparr>))))"

record AclEntry =
  ae_grantee_tenant_id :: string
  ae_grantee_user_id :: string
  ae_role :: NsAclRole
  ae_granted_at :: int
  ae_granted_by_user_id :: string

definition acl_entry :: "acl_row \<Rightarrow> AclEntry" where
  "acl_entry a = \<lparr>ae_grantee_tenant_id = ar_grantee_tenant_id a,
     ae_grantee_user_id = (case ar_grantee_user_id a of None \<Rightarrow> [] | Some u \<Rightarrow> u),
     ae_role = (case ParseNsAclRole (ar_role a) of None \<Rightarrow> VIEWER | Some r \<Rightarrow> r),
     ae_granted_at = ar_granted_at a, ae_granted_by_user_id = ar_granted_by_user_id a\<rparr>"

definition ListAcl :: "sql_env \<Rightarrow> perm_db option \<Rightarrow> string \<Rightarrow> AuthContext \<Rightarrow> Status + AclEntry list" where
  "ListAcl env db ns caller = (case db of
     None \<Rightarrow> Inl (TenantStatus kTenantTransactionFailed ''no db'')
   | Some d \<Rightarrow>
       if \<not> NsExists env db ns then Inl (TenantStatus kNsNotFound ns)
       else if \<not> CanAdminAcl env db caller ns
       then Inl (TenantStatus kNsUnauthorized (''caller cannot administer ACL on '' @ ns))
       else (case env QList of
           PrepareFails \<Rightarrow> Inl (TenantStatus kTenantTransactionFailed ''list acl prepare'')
         | StepFails \<Rightarrow> Inr []
         | SqlOk \<Rightarrow> Inr (map acl_entry (sort_key ar_granted_at (filter (\<lambda>a. ar_ns_id a = ns) (pd_ns_acl d))))))"

section \<open>Authorizing a query\<close>

text \<open>The interface the query layer calls, and the adapter that provides it.\<close>

record perm_iface =
  pi_BatchCheck :: "string \<Rightarrow> string \<Rightarrow> string list \<Rightarrow> string list"
  pi_ListAuthorizedNamespaces :: "string \<Rightarrow> string \<Rightarrow> string list"

definition reader_ctx :: "string \<Rightarrow> string \<Rightarrow> AuthContext" where
  "reader_ctx tenant user = \<lparr>ac_tenant_id = tenant, ac_user_id = user, ac_agent_id = [], ac_permissions = kPermRead\<rparr>"

definition tenant_adapter :: "bool \<Rightarrow> sql_env \<Rightarrow> string list \<Rightarrow> perm_db option \<Rightarrow> perm_iface" where
  "tenant_adapter auth_enabled env active db =
     \<lparr>pi_BatchCheck = (\<lambda>user tenant nss.
        if \<not> auth_enabled then []
        else map bp_ns_id (filter (\<lambda>c. \<not> bp_can_read c) (perm_BatchCheck env db (reader_ctx tenant user) nss))),
      pi_ListAuthorizedNamespaces = (\<lambda>user tenant.
        if active = [] then active else if \<not> auth_enabled then active
        else map bp_ns_id (filter bp_can_read (perm_BatchCheck env db (reader_ctx tenant user) active)))\<rparr>"

datatype CrossNsError = cn_kAuthInvalidCredentials | cn_kTooManyNamespaces int int | cn_kNsUnauthorized "string list"

fun dedup_from :: "string set \<Rightarrow> string list \<Rightarrow> string list" where
  "dedup_from seen [] = []"
| "dedup_from seen (s # ss) = (if s \<in> seen then dedup_from seen ss else s # dedup_from (insert s seen) ss)"

definition DedupPreserveOrder :: "string list \<Rightarrow> string list" where
  "DedupPreserveOrder ss = dedup_from {} ss"

definition IsWildcard :: "string list \<Rightarrow> bool" where
  "IsWildcard requested \<longleftrightarrow> requested = [''*'']"

definition ExpandNamespaces :: "string list \<Rightarrow> AuthContext \<Rightarrow> perm_iface \<Rightarrow> int \<Rightarrow> CrossNsError + string list" where
  "ExpandNamespaces requested auth perm max_namespaces =
     (let expanded = DedupPreserveOrder
            (if IsWildcard requested then pi_ListAuthorizedNamespaces perm (ac_user_id auth) (ac_tenant_id auth) else requested);
          cap = (if max_namespaces < 1 then 1 else max_namespaces)
      in if int (length expanded) > cap then Inl (cn_kTooManyNamespaces (int (length expanded)) cap) else Inr expanded)"

definition AuthorizeNamespaces :: "string list \<Rightarrow> AuthContext \<Rightarrow> perm_iface \<Rightarrow> int \<Rightarrow> CrossNsError + string list" where
  "AuthorizeNamespaces requested auth perm max_namespaces =
     (if ac_user_id auth = [] then Inl cn_kAuthInvalidCredentials
      else case ExpandNamespaces requested auth perm max_namespaces of
        Inl e \<Rightarrow> Inl e
      | Inr expanded \<Rightarrow>
          let unauthorized = pi_BatchCheck perm (ac_user_id auth) (ac_tenant_id auth) expanded
          in if unauthorized \<noteq> [] then Inl (cn_kNsUnauthorized unauthorized) else Inr expanded)"

section \<open>What the tables say\<close>

definition owned_by :: "perm_db \<Rightarrow> string \<Rightarrow> string \<Rightarrow> bool" where
  "owned_by d tenant ns \<longleftrightarrow> (\<exists>r \<in> set (pd_namespaces d). nr_ns_id r = ns \<and> nr_tenant_id r = tenant)"

definition public_ns :: "perm_db \<Rightarrow> string \<Rightarrow> bool" where
  "public_ns d ns \<longleftrightarrow> (\<exists>r \<in> set (pd_namespaces d). nr_ns_id r = ns \<and> nr_visibility r = ''public'')"

definition granted :: "perm_db \<Rightarrow> AuthContext \<Rightarrow> string \<Rightarrow> NsAclRole \<Rightarrow> bool" where
  "granted d ctx ns role \<longleftrightarrow> (\<exists>a \<in> set (pd_ns_acl d). ParseNsAclRole (ar_role a) = Some role \<and>
     (acl_key ns (ac_tenant_id ctx) None a \<or> ac_user_id ctx \<noteq> [] \<and> acl_key ns (ac_tenant_id ctx) (Some (ac_user_id ctx)) a))"

definition may_read :: "perm_db \<Rightarrow> AuthContext \<Rightarrow> string \<Rightarrow> bool" where
  "may_read d ctx ns \<longleftrightarrow> owned_by d (ac_tenant_id ctx) ns \<or> public_ns d ns \<or> (\<exists>role. granted d ctx ns role)"

text \<open>A grant to the user, when there is one, counts instead of the grant to the tenant.\<close>

definition user_granted :: "perm_db \<Rightarrow> AuthContext \<Rightarrow> string \<Rightarrow> bool" where
  "user_granted d ctx ns \<longleftrightarrow> ac_user_id ctx \<noteq> [] \<and> (\<exists>a \<in> set (pd_ns_acl d). acl_key ns (ac_tenant_id ctx) (Some (ac_user_id ctx)) a)"

definition may_admin :: "perm_db \<Rightarrow> AuthContext \<Rightarrow> string \<Rightarrow> bool" where
  "may_admin d ctx ns \<longleftrightarrow> owned_by d (ac_tenant_id ctx) ns \<or>
     (\<exists>a \<in> set (pd_ns_acl d). ParseNsAclRole (ar_role a) = Some ADMIN \<and>
        acl_key ns (ac_tenant_id ctx) (if user_granted d ctx ns then Some (ac_user_id ctx) else None) a)"

text \<open>The keys the schema declares, and roles that are role names.\<close>

definition perm_ok :: "perm_db \<Rightarrow> bool" where
  "perm_ok d \<longleftrightarrow> distinct (map nr_ns_id (pd_namespaces d)) \<and> (\<forall>a \<in> set (pd_ns_acl d). ParseNsAclRole (ar_role a) \<noteq> None) \<and>
     (\<forall>ns t u. length (filter (acl_key ns t (Some u)) (pd_ns_acl d)) \<le> 1)"

lemma select_rowD: "select_row env q P rows = Some r \<Longrightarrow> r \<in> set rows \<and> P r"
  by (auto simp: select_row_def find_Some_iff split: if_splits)

lemma select_row_good: "select_row sql_good q P rows = find P rows"
  by (simp add: select_row_def sql_good_def)

lemma CheckOwnerTenantD: "CheckOwnerTenant env (Some d) ns tenant \<Longrightarrow> owned_by d tenant ns"
  by (auto simp: CheckOwnerTenant_def owned_by_def dest!: select_rowD split: option.splits)

lemma VisibilityD: "Visibility env (Some d) ns = ''public'' \<Longrightarrow> public_ns d ns"
  by (auto simp: Visibility_def public_ns_def dest!: select_rowD split: option.splits)

lemma select_roleD: "select_role env q P rows = Some role \<Longrightarrow> \<exists>a \<in> set rows. P a \<and> ParseNsAclRole (ar_role a) = Some role"
  by (auto simp: select_role_def dest!: select_rowD split: option.splits)

lemma GetAclRoleD: "GetAclRole env (Some d) ns (ac_tenant_id ctx) (ac_user_id ctx) = Some role \<Longrightarrow> granted d ctx ns role"
  unfolding GetAclRole_def granted_def by (force dest: select_roleD split: option.splits if_splits)

lemma CanRead_sound: "CanRead env (Some d) ctx ns \<Longrightarrow> may_read d ctx ns"
  unfolding CanRead_def may_read_def by (auto dest: CheckOwnerTenantD VisibilityD GetAclRoleD)

lemma CanAdminAcl_sound: "CanAdminAcl env (Some d) ctx ns \<Longrightarrow> owned_by d (ac_tenant_id ctx) ns \<or> granted d ctx ns ADMIN"
  unfolding CanAdminAcl_def by (auto dest: CheckOwnerTenantD GetAclRoleD)

lemma select_role_found:
  assumes "env q = SqlOk" "\<forall>a \<in> set rows. ParseNsAclRole (ar_role a) \<noteq> None" "a \<in> set rows" "P a"
  shows "select_role env q P rows \<noteq> None"
proof -
  obtain b where "find P rows = Some b" using assms(3,4) by (cases "find P rows") (auto simp: find_None_iff)
  moreover from this have "b \<in> set rows" by (auto simp: find_Some_iff)
  ultimately show ?thesis using assms(1,2) by (simp add: select_role_def select_row_def)
qed

lemma CanAdminAcl_rule:
  assumes "CanAdminAcl env (Some d) ctx ns" "env QUserAcl = SqlOk" "perm_ok d"
  shows "may_admin d ctx ns"
proof (cases "CheckOwnerTenant env (Some d) ns (ac_tenant_id ctx)")
  case True
  then show ?thesis by (simp add: may_admin_def CheckOwnerTenantD)
next
  case False
  then have g: "GetAclRole env (Some d) ns (ac_tenant_id ctx) (ac_user_id ctx) = Some ADMIN"
    using assms(1) by (simp add: CanAdminAcl_def)
  let ?u = "select_role env QUserAcl (acl_key ns (ac_tenant_id ctx) (Some (ac_user_id ctx))) (pd_ns_acl d)"
  show ?thesis
  proof (cases "user_granted d ctx ns")
    case True
    then obtain a where a: "a \<in> set (pd_ns_acl d)" "acl_key ns (ac_tenant_id ctx) (Some (ac_user_id ctx)) a" "ac_user_id ctx \<noteq> []"
      by (auto simp: user_granted_def)
    have "?u \<noteq> None" by (rule select_role_found[of env QUserAcl _ a]) (use assms(2,3) a in \<open>auto simp: perm_ok_def\<close>)
    then have "?u = Some ADMIN" using g a(3) by (auto simp: GetAclRole_def)
    from select_roleD[OF this] show ?thesis using True by (auto simp: may_admin_def)
  next
    case f: False
    then have "ac_user_id ctx = [] \<or> ?u = None" by (cases ?u) (auto simp: user_granted_def dest!: select_roleD)
    then have "select_role env QTenantAcl (acl_key ns (ac_tenant_id ctx) None) (pd_ns_acl d) = Some ADMIN"
      using g by (auto simp: GetAclRole_def split: if_splits)
    from select_roleD[OF this] show ?thesis using f by (auto simp: may_admin_def)
  qed
qed

lemma find_ns:
  assumes "distinct (map nr_ns_id rows)" "r \<in> set rows"
  shows "find (\<lambda>x. nr_ns_id x = nr_ns_id r) rows = Some r"
  using assms by (induction rows) (auto simp: rev_image_eqI)

lemma CheckOwnerTenant_good: "perm_ok d \<Longrightarrow> CheckOwnerTenant sql_good (Some d) ns tenant \<longleftrightarrow> owned_by d tenant ns"
  using CheckOwnerTenantD[of sql_good d ns tenant]
  by (auto simp: CheckOwnerTenant_def owned_by_def select_row_good perm_ok_def find_ns)

lemma Visibility_good: "perm_ok d \<Longrightarrow> Visibility sql_good (Some d) ns = ''public'' \<longleftrightarrow> public_ns d ns"
  using VisibilityD[of sql_good d ns] by (auto simp: Visibility_def public_ns_def select_row_good perm_ok_def find_ns)

lemma select_role_good:
  assumes "\<forall>a \<in> set rows. ParseNsAclRole (ar_role a) \<noteq> None"
  shows "select_role sql_good q P rows \<noteq> None \<longleftrightarrow> (\<exists>a \<in> set rows. P a)"
proof -
  have "find P rows = None \<longleftrightarrow> \<not> (\<exists>a \<in> set rows. P a)" by (auto simp: find_None_iff)
  then show ?thesis using assms by (auto simp: select_role_def select_row_good find_Some_iff split: option.splits)
qed

lemma CanRead_good:
  assumes "perm_ok d"
  shows "CanRead sql_good (Some d) ctx ns \<longleftrightarrow> may_read d ctx ns"
proof -
  have p: "\<forall>a \<in> set (pd_ns_acl d). ParseNsAclRole (ar_role a) \<noteq> None" using assms by (simp add: perm_ok_def)
  have "GetAclRole sql_good (Some d) ns (ac_tenant_id ctx) (ac_user_id ctx) \<noteq> None" if g: "granted d ctx ns role" for role
  proof (cases "ac_user_id ctx \<noteq> [] \<and> select_role sql_good QUserAcl (acl_key ns (ac_tenant_id ctx) (Some (ac_user_id ctx))) (pd_ns_acl d) \<noteq> None")
    case True
    then show ?thesis by (auto simp: GetAclRole_def)
  next
    case False
    then have "\<exists>a \<in> set (pd_ns_acl d). acl_key ns (ac_tenant_id ctx) None a"
      using g select_role_good[OF p] unfolding granted_def by blast
    then have "select_role sql_good QTenantAcl (acl_key ns (ac_tenant_id ctx) None) (pd_ns_acl d) \<noteq> None"
      using select_role_good[OF p] by blast
    then show ?thesis by (auto simp: GetAclRole_def split: option.splits)
  qed
  then show ?thesis using CanRead_sound[of sql_good d ctx ns] CheckOwnerTenant_good[OF assms] Visibility_good[OF assms]
    unfolding CanRead_def may_read_def by blast
qed

section \<open>Lists of namespaces\<close>

lemma dedup_from_props: "set (dedup_from seen ss) = set ss - seen" "distinct (dedup_from seen ss)"
  by (induction ss arbitrary: seen) auto

lemma Dedup_props [simp]: "set (DedupPreserveOrder ss) = set ss" "distinct (DedupPreserveOrder ss)"
  by (simp_all add: DedupPreserveOrder_def dedup_from_props)

lemma adapter_BatchCheck:
  "pi_BatchCheck (tenant_adapter True env active db) user tenant nss =
     filter (\<lambda>ns. \<not> CanRead env db (reader_ctx tenant user) ns) nss"
  by (induction nss) (simp_all add: tenant_adapter_def perm_BatchCheck_def)

lemma adapter_lists_active: "set (pi_ListAuthorizedNamespaces (tenant_adapter auth_enabled env active db) user tenant) \<subseteq> set active"
  by (auto simp: tenant_adapter_def perm_BatchCheck_def)

section \<open>Properties\<close>

text \<open>
  C30: a query reads only what its caller may read.  Whatever statements fail, the namespaces \<open>AuthorizeNamespaces\<close> returns
  belong to an identified caller, are distinct and within the limit, and are exactly the requested ones or, for the wildcard,
  active ones.  With authentication on, each of them is owned by the caller's tenant, public or granted to it, and if one
  requested namespace is not readable, nothing is returned; with authentication off the adapter checks no rights.
\<close>
theorem authorized_query_readable:
  assumes "AuthorizeNamespaces requested auth (tenant_adapter auth_enabled env active (Some d)) cap = res"
  shows "(\<forall>nss. res = Inr nss \<longrightarrow> ac_user_id auth \<noteq> [] \<and> distinct nss \<and> int (length nss) \<le> max 1 cap \<and>
        (auth_enabled \<longrightarrow> (\<forall>ns \<in> set nss. may_read d auth ns)) \<and>
        (if requested = [''*''] then set nss \<subseteq> set active else set nss = set requested)) \<and>
    (auth_enabled \<and> requested \<noteq> [''*''] \<and> (\<exists>ns \<in> set requested. \<not> may_read d auth ns) \<longrightarrow> (\<exists>e. res = Inl e))"
proof -
  have auth: "CanRead env (Some d) (reader_ctx (ac_tenant_id auth) (ac_user_id auth)) = CanRead env (Some d) auth"
    by (simp add: CanRead_def reader_ctx_def fun_eq_iff)
  have ok: "ac_user_id auth \<noteq> [] \<and> distinct nss \<and> int (length nss) \<le> max 1 cap \<and> (auth_enabled \<longrightarrow> (\<forall>ns \<in> set nss. may_read d auth ns)) \<and>
      (if requested = [''*''] then set nss \<subseteq> set active else set nss = set requested)" if r: "res = Inr nss" for nss
  proof -
    have u: "ac_user_id auth \<noteq> []" and e: "ExpandNamespaces requested auth (tenant_adapter auth_enabled env active (Some d)) cap = Inr nss"
      and b: "pi_BatchCheck (tenant_adapter auth_enabled env active (Some d)) (ac_user_id auth) (ac_tenant_id auth) nss = []"
      using assms r by (auto simp: AuthorizeNamespaces_def Let_def split: if_splits sum.splits)
    have "\<forall>ns \<in> set nss. may_read d auth ns" if auth_enabled
      using b that CanRead_sound by (auto simp: adapter_BatchCheck auth filter_empty_conv)
    then show ?thesis using e u adapter_lists_active[of auth_enabled env active "Some d" "ac_user_id auth" "ac_tenant_id auth"]
      by (auto simp: ExpandNamespaces_def IsWildcard_def Let_def split: if_splits)
  qed
  then show ?thesis by (cases res) auto
qed

definition sample_db :: perm_db where
  "sample_db = \<lparr>pd_namespaces = [\<lparr>nr_ns_id = ''n'', nr_tenant_id = ''t'', nr_visibility = ''tenant''\<rparr>], pd_ns_acl = []\<rparr>"

theorem authorized_query_readable_witness:
  "AuthorizeNamespaces [''n'', ''n''] (reader_ctx ''t'' ''u'') (tenant_adapter True sql_good [] (Some sample_db)) 5 = Inr [''n''] \<and>
   may_read sample_db (reader_ctx ''t'' ''u'') ''n''"
proof -
  have "AuthorizeNamespaces [''n'', ''n''] (reader_ctx ''t'' ''u'') (tenant_adapter True sql_good [] (Some sample_db)) 5 = Inr [''n'']"
    by code_simp
  with authorized_query_readable[OF this] show ?thesis by simp
qed

text \<open>
  C32: the read check is exact.  On tables that respect their keys, and when no statement fails, \<open>CanRead\<close> holds exactly
  for the owner's tenant, for public namespaces and for tenants and users with a grant; when statements fail it can only
  say no more often.
\<close>
theorem can_read_exact:
  assumes "perm_ok d"
  shows "(CanRead sql_good (Some d) ctx ns \<longleftrightarrow> may_read d ctx ns) \<and> (CanRead env (Some d) ctx ns \<longrightarrow> CanRead sql_good (Some d) ctx ns)"
  using CanRead_good[OF assms] CanRead_sound by blast

lemma perm_ok_sample: "perm_ok sample_db"
  by (simp add: perm_ok_def sample_db_def)

theorem can_read_exact_witness: "CanRead sql_good (Some sample_db) (reader_ctx ''t'' ''u'') ''n''"
  using can_read_exact[OF perm_ok_sample] by (simp add: may_read_def owned_by_def sample_db_def reader_ctx_def)

text \<open>The calls that change the access list.\<close>

inductive acl_step :: "sql_env \<Rightarrow> perm_db \<Rightarrow> AuthContext \<Rightarrow> string \<Rightarrow> perm_db \<Rightarrow> bool" where
  grant: "GrantAcl env now errmsg ns tenant user role caller (Some d) = (st, Some d') \<Longrightarrow> acl_step env d caller ns d'"
| revoke: "RevokeAcl env errmsg ns tenant user caller (Some d) = (st, Some d') \<Longrightarrow> acl_step env d caller ns d'"

lemma GrantAcl_change:
  assumes "GrantAcl env now errmsg ns tenant user role caller (Some d) = (st, Some d')" "d' \<noteq> d \<or> ok st"
  shows "ok st \<and> CanAdminAcl env (Some d) caller ns \<and> \<not> CheckOwnerTenant env (Some d) ns tenant \<and>
    (user \<noteq> [] \<or> env QDuplicate = SqlOk \<longrightarrow> \<not> list_ex (acl_key ns tenant (user_column user)) (pd_ns_acl d)) \<and>
    d' = d\<lparr>pd_ns_acl := pd_ns_acl d @ [\<lparr>ar_ns_id = ns, ar_grantee_tenant_id = tenant, ar_grantee_user_id = user_column user,
      ar_role = role_ToString role, ar_granted_at = now, ar_granted_by_user_id = ac_user_id caller\<rparr>]\<rparr>"
  using assms by (auto simp: GrantAcl_def Let_def split: if_splits sql_outcome.splits)

lemma RevokeAcl_change:
  assumes "RevokeAcl env errmsg ns tenant user caller (Some d) = (st, Some d')" "d' \<noteq> d \<or> ok st"
  shows "ok st \<and> CanAdminAcl env (Some d) caller ns \<and>
    d' = d\<lparr>pd_ns_acl := filter (\<lambda>a. \<not> acl_key ns tenant (user_column user) a) (pd_ns_acl d)\<rparr>"
  using assms by (auto simp: RevokeAcl_def Let_def split: if_splits sql_outcome.splits)

lemma find_snoc: "filter P xs = [] \<Longrightarrow> P x \<Longrightarrow> find P (xs @ [x]) = Some x"
  by (induction xs) (auto split: if_splits)

lemma length_filter_twice: "length (filter P (filter Q xs)) \<le> length (filter P xs)"
  by (induction xs) auto

lemma acl_step_perm_ok: "acl_step env d caller ns d' \<Longrightarrow> perm_ok d \<Longrightarrow> perm_ok d'"
proof (induction rule: acl_step.induct)
  case (grant env now errmsg ns tenant user role caller d st d')
  show ?case
  proof (cases "d' = d")
    case False
    note c = GrantAcl_change[OF grant(1) disjI1[OF False]]
    have "filter (acl_key ns tenant (Some user)) (pd_ns_acl d) = []" if "user \<noteq> []"
      using c that by (auto simp: user_column_def list_ex_iff filter_empty_conv)
    then show ?thesis using c grant(2) by (auto simp: perm_ok_def acl_key_def user_column_def)
  qed (use grant in simp)
next
  case (revoke env errmsg ns tenant user caller d st d')
  show ?case
  proof (cases "d' = d")
    case False
    have "d' = d\<lparr>pd_ns_acl := filter (\<lambda>a. \<not> acl_key ns tenant (user_column user) a) (pd_ns_acl d)\<rparr>"
      using RevokeAcl_change[OF revoke(1) disjI1[OF False]] by blast
    moreover have "length (filter (acl_key ns' t (Some u)) (filter Q (pd_ns_acl d))) \<le> 1" for ns' t u Q
      using revoke(2) order_trans[OF length_filter_twice] unfolding perm_ok_def by blast
    ultimately show ?thesis using revoke(2) unfolding perm_ok_def by (simp del: filter_filter)
  qed (use revoke in simp)
qed

text \<open>
  C31: only the owner's tenant and administrators change an access list, and only for that namespace.  A call that changes the
  tables was made by a caller whose tenant owns the namespace or who has an ADMIN grant; when the lookup of the user's own grant
  did not fail, on tables that respect their keys, that grant is the user's own if the user has one, and the tenant's only if
  not.  (When that lookup fails, an ADMIN grant to the tenant is enough: failed_query_widens_role.)  Whatever fails, the rows of
  other namespaces stay, and the keys of the table stay unique.
\<close>
theorem acl_changed_by_admin_only:
  assumes "acl_step env d caller ns d'" "d' \<noteq> d"
  shows "(owned_by d (ac_tenant_id caller) ns \<or> granted d caller ns ADMIN) \<and>
    (env QUserAcl = SqlOk \<and> perm_ok d \<longrightarrow> may_admin d caller ns) \<and> pd_namespaces d' = pd_namespaces d \<and>
    filter (\<lambda>a. ar_ns_id a \<noteq> ns) (pd_ns_acl d') = filter (\<lambda>a. ar_ns_id a \<noteq> ns) (pd_ns_acl d) \<and> (perm_ok d \<longrightarrow> perm_ok d')"
proof -
  have "CanAdminAcl env (Some d) caller ns \<and> pd_namespaces d' = pd_namespaces d \<and>
    filter (\<lambda>a. ar_ns_id a \<noteq> ns) (pd_ns_acl d') = filter (\<lambda>a. ar_ns_id a \<noteq> ns) (pd_ns_acl d)"
    using assms
  proof (induction rule: acl_step.induct)
    case (grant env now errmsg ns tenant user role caller d st d')
    then show ?case using GrantAcl_change[OF grant(1) disjI1[OF grant(2)]] by auto
  next
    case (revoke env errmsg ns tenant user caller d st d')
    then show ?case using RevokeAcl_change[OF revoke(1) disjI1[OF revoke(2)]] by (auto simp: acl_key_def intro: filter_cong)
  qed
  then show ?thesis using acl_step_perm_ok[OF assms(1)] CanAdminAcl_sound[of env d caller ns] CanAdminAcl_rule[of env d caller ns] by blast
qed

definition owner_ctx :: AuthContext where
  "owner_ctx = reader_ctx ''t'' ''u''"

definition granted_db :: perm_db where
  "granted_db = sample_db\<lparr>pd_ns_acl := [\<lparr>ar_ns_id = ''n'', ar_grantee_tenant_id = ''g'', ar_grantee_user_id = None,
     ar_role = ''admin'', ar_granted_at = 1, ar_granted_by_user_id = ''u''\<rparr>]\<rparr>"

lemma sample_grant: "GrantAcl sql_good 1 [] ''n'' ''g'' [] ADMIN owner_ctx (Some sample_db) = (Status_Ok, Some granted_db)"
  by code_simp

theorem acl_changed_by_admin_only_witness: "may_admin sample_db owner_ctx ''n'' \<and> perm_ok granted_db"
proof -
  have "granted_db \<noteq> sample_db" by (simp add: granted_db_def sample_db_def)
  with acl_changed_by_admin_only[OF acl_step.grant[OF sample_grant]] perm_ok_sample show ?thesis by (simp add: sql_good_def)
qed

text \<open>
  A grant takes effect and a revocation takes it back.  When no statement fails and the caller's tenant owns the
  namespace, after a successful \<open>GrantAcl\<close> the grantee has exactly the granted role, and \<open>RevokeAcl\<close> of the same
  grant succeeds and leaves the tables as they were.
\<close>
theorem grant_revoke_roundtrip:
  assumes "perm_ok d" "GrantAcl sql_good now errmsg ns tenant user role caller (Some d) = (st, db')" "ok st"
    and "owned_by d (ac_tenant_id caller) ns"
  shows "GetAclRole sql_good db' ns tenant user = Some role \<and>
    RevokeAcl sql_good errmsg' ns tenant user caller db' = (Status_Ok, Some d)"
proof -
  obtain d' where d': "db' = Some d'" using assms(2) by (auto simp: GrantAcl_def Let_def split: if_splits sql_outcome.splits)
  let ?row = "\<lparr>ar_ns_id = ns, ar_grantee_tenant_id = tenant, ar_grantee_user_id = user_column user,
      ar_role = role_ToString role, ar_granted_at = now, ar_granted_by_user_id = ac_user_id caller\<rparr>"
  note c = GrantAcl_change[OF assms(2)[unfolded d'] disjI2[OF assms(3)]]
  have new: "filter (acl_key ns tenant (user_column user)) (pd_ns_acl d) = []" and e: "pd_ns_acl d' = pd_ns_acl d @ [?row]"
    "pd_namespaces d' = pd_namespaces d" and de: "d'\<lparr>pd_ns_acl := pd_ns_acl d\<rparr> = d"
    using c by (auto simp: sql_good_def list_ex_iff filter_empty_conv)
  have k: "acl_key ns tenant (user_column user) ?row" by (simp add: acl_key_def)
  have f: "find (acl_key ns tenant (user_column user)) (pd_ns_acl d') = Some ?row"
    using find_snoc[OF new k] by (simp add: e)
  have "GetAclRole sql_good (Some d') ns tenant user = Some role"
    using f by (simp add: GetAclRole_def select_role_def select_row_good user_column_def split: if_splits)
  moreover have "CheckOwnerTenant sql_good (Some d') ns (ac_tenant_id caller)" "NsExists sql_good (Some d') ns"
    using assms(1,4) e(2) CheckOwnerTenant_good[of d ns "ac_tenant_id caller"]
    by (auto simp: CheckOwnerTenant_def NsExists_def select_row_good split: option.splits)
  moreover have "filter (\<lambda>a. \<not> acl_key ns tenant (user_column user) a) (pd_ns_acl d') = pd_ns_acl d"
    using new k by (simp add: e filter_empty_conv filter_id_conv)
  ultimately show ?thesis using k de
    by (simp add: d' RevokeAcl_def CanAdminAcl_def sql_good_def e(1))
qed

theorem grant_revoke_roundtrip_witness:
  "GetAclRole sql_good (Some granted_db) ''n'' ''g'' [] = Some ADMIN \<and>
   RevokeAcl sql_good [] ''n'' ''g'' [] owner_ctx (Some granted_db) = (Status_Ok, Some sample_db)"
  by (rule grant_revoke_roundtrip[OF perm_ok_sample sample_grant]) (simp_all add: owned_by_def sample_db_def owner_ctx_def reader_ctx_def)

section \<open>Where the checks are too generous\<close>

text \<open>
  A failing statement can widen a role.  A user with a VIEWER grant of its own inside a tenant that has ADMIN cannot
  write; but when the query for the user's row fails, the check falls back to the tenant's row.
\<close>
theorem failed_query_widens_role:
  "\<exists>d ctx env. perm_ok d \<and> \<not> CanWrite sql_good (Some d) ctx ''n'' \<and> CanWrite env (Some d) ctx ''n'' \<and> CanAdminAcl env (Some d) ctx ''n''"
proof -
  let ?ctx = "reader_ctx ''g'' ''v''"
  let ?d = "granted_db\<lparr>pd_ns_acl := pd_ns_acl granted_db @ [\<lparr>ar_ns_id = ''n'', ar_grantee_tenant_id = ''g'',
     ar_grantee_user_id = Some ''v'', ar_role = ''viewer'', ar_granted_at = 2, ar_granted_by_user_id = ''u''\<rparr>]\<rparr>"
  let ?env = "\<lambda>q. if q = QUserAcl then StepFails else SqlOk"
  have "perm_ok ?d" by (auto simp: perm_ok_def granted_db_def sample_db_def ParseNsAclRole_def acl_key_def)
  moreover have "\<not> CanWrite sql_good (Some ?d) ?ctx ''n''" "CanWrite ?env (Some ?d) ?ctx ''n''" "CanAdminAcl ?env (Some ?d) ?ctx ''n''"
    by code_simp+
  ultimately show ?thesis by blast
qed

text \<open>
  The primary key does not prevent a second grant to a whole tenant: the user column is \<open>NULL\<close>, and SQLite takes
  rows with \<open>NULL\<close> in the key as different.  When the check for duplicates is passed (it failed, or another grant came in
  between), both grants are stored and reported as successful, and only the first has an effect.
\<close>
theorem tenant_grant_duplicated:
  "\<exists>env db. GrantAcl env 2 [] ''n'' ''g'' [] VIEWER owner_ctx (Some granted_db) = (Status_Ok, db) \<and>
     GetAclRole sql_good db ''n'' ''g'' [] = Some ADMIN"
proof -
  let ?env = "\<lambda>q. if q = QDuplicate then PrepareFails else SqlOk"
  let ?r = "GrantAcl ?env 2 [] ''n'' ''g'' [] VIEWER owner_ctx (Some granted_db)"
  have "fst ?r = Status_Ok \<and> GetAclRole sql_good (snd ?r) ''n'' ''g'' [] = Some ADMIN" by code_simp
  then show ?thesis by (metis prod.collapse)
qed

end
