(* ===== verification/Task_Error.thy ===== *)
theory Task_Error
  imports Complex_Main Prelude "HOL-Library.Sublist"
begin

text \<open>
  The error identities of the asynchronous task service (\<^verbatim>\<open>include/cortrix/async/f42_error.h\<close>,
  \<^verbatim>\<open>src/async/f42_error.cpp\<close>) and the error body they are reported in (\<^verbatim>\<open>src/agent_friendly/error.cpp\<close>).
\<close>

section \<open>JSON values\<close>

text \<open>The values the error and progress bodies are built from; an object is an association list.\<close>

datatype json =
    JNull | JBool bool | JInt int | JNum rat | JStr string | JArr "json list" | JObj "(string \<times> json) list"

fun is_object :: "json \<Rightarrow> bool" where
  "is_object (JObj kvs) = True"
| "is_object _ = False"

fun json_contains :: "json \<Rightarrow> string \<Rightarrow> bool" where
  "json_contains (JObj kvs) k = (map_of kvs k \<noteq> None)"
| "json_contains _ k = False"

section \<open>The registry\<close>

datatype F42ErrorCode =
    kInvalidRequest | kMaxPagesExceeded | kTaskNotFound | kTaskTimeout | kDocProcessingInProgress | kTaskCancelling
  | kParseFailed | kStorageFailed | kWorkerBusy | kZombieTaskCleanup | kServiceUnavailable

datatype ErrorCategory = kAuth | kQuota | kTransient | kPermanent | kTimeout

fun category_ToString :: "ErrorCategory \<Rightarrow> string" where
  "category_ToString kAuth = ''auth''"
| "category_ToString kQuota = ''quota''"
| "category_ToString kTransient = ''transient''"
| "category_ToString kPermanent = ''permanent''"
| "category_ToString kTimeout = ''timeout''"

record F42ErrorInfo =
  fi_cx_code :: string
  fi_http_status :: int
  fi_category :: ErrorCategory
  fi_retryable :: bool
  fi_retry_after_ms :: "int option"

definition info :: "string \<Rightarrow> int \<Rightarrow> ErrorCategory \<Rightarrow> bool \<Rightarrow> int option \<Rightarrow> F42ErrorInfo" where
  "info c h g r a = \<lparr>fi_cx_code = c, fi_http_status = h, fi_category = g, fi_retryable = r, fi_retry_after_ms = a\<rparr>"

fun GetF42ErrorInfo :: "F42ErrorCode \<Rightarrow> F42ErrorInfo" where
  "GetF42ErrorInfo kInvalidRequest = info ''CX_ERR_INVALID_REQUEST'' 400 kPermanent False None"
| "GetF42ErrorInfo kMaxPagesExceeded = info ''CX_ERR_MAX_PAGES_EXCEEDED'' 403 kPermanent False None"
| "GetF42ErrorInfo kTaskNotFound = info ''CX_ERR_TASK_NOT_FOUND'' 404 kPermanent False None"
| "GetF42ErrorInfo kTaskTimeout = info ''CX_ERR_TASK_TIMEOUT'' 408 kTimeout True (Some 60000)"
| "GetF42ErrorInfo kDocProcessingInProgress = info ''CX_ERR_DOC_PROCESSING_IN_PROGRESS'' 409 kTransient True (Some 30000)"
| "GetF42ErrorInfo kTaskCancelling = info ''CX_ERR_TASK_CANCELLING'' 423 kPermanent False None"
| "GetF42ErrorInfo kParseFailed = info ''CX_ERR_PARSE_FAILED'' 500 kPermanent False None"
| "GetF42ErrorInfo kStorageFailed = info ''CX_ERR_STORAGE_FAILED'' 500 kPermanent False None"
| "GetF42ErrorInfo kWorkerBusy = info ''CX_ERR_WORKER_BUSY'' 500 kTransient True (Some 10000)"
| "GetF42ErrorInfo kZombieTaskCleanup = info ''CX_ERR_ZOMBIE_TASK_CLEANUP'' 500 kPermanent False None"
| "GetF42ErrorInfo kServiceUnavailable = info ''CX_ERR_SERVICE_UNAVAILABLE'' 503 kTransient True (Some 10000)"

definition F42ErrorCodeString :: "F42ErrorCode \<Rightarrow> string" where
  "F42ErrorCodeString c = fi_cx_code (GetF42ErrorInfo c)"

definition F42ErrorHttpStatus :: "F42ErrorCode \<Rightarrow> int" where
  "F42ErrorHttpStatus c = fi_http_status (GetF42ErrorInfo c)"

fun RequiredStructuredDataKeys :: "F42ErrorCode \<Rightarrow> string list" where
  "RequiredStructuredDataKeys kInvalidRequest = [''rules_violated'']"
| "RequiredStructuredDataKeys kMaxPagesExceeded = [''max_pages'', ''actual_pages'', ''edition'']"
| "RequiredStructuredDataKeys kTaskNotFound = []"
| "RequiredStructuredDataKeys kTaskTimeout = [''task_id'', ''timeout_seconds'', ''last_phase'']"
| "RequiredStructuredDataKeys kDocProcessingInProgress = [''existing_task_id'', ''doc_id'']"
| "RequiredStructuredDataKeys kTaskCancelling = [''task_id'', ''current_status'']"
| "RequiredStructuredDataKeys kParseFailed = [''task_id'', ''page_number'', ''parser_error'']"
| "RequiredStructuredDataKeys kStorageFailed = [''task_id'', ''filepath'', ''error'']"
| "RequiredStructuredDataKeys kWorkerBusy = [''active_tasks'', ''max_workers'']"
| "RequiredStructuredDataKeys kZombieTaskCleanup = [''task_id'', ''last_alive_at'']"
| "RequiredStructuredDataKeys kServiceUnavailable = [''component'']"

definition HasRequiredStructuredData :: "F42ErrorCode \<Rightarrow> json \<Rightarrow> bool" where
  "HasRequiredStructuredData c j =
     (let ks = RequiredStructuredDataKeys c in
      if \<not> is_object j then ks = [] else (\<forall>k \<in> set ks. json_contains j k))"

record AgentFriendlyError =
  af_code :: string
  af_message :: string
  af_retryable :: bool
  af_category :: ErrorCategory
  af_retry_after_ms :: "int option"
  af_structured_data :: "json option"

definition MakeF42Error :: "F42ErrorCode \<Rightarrow> json \<Rightarrow> string \<Rightarrow> AgentFriendlyError" where
  "MakeF42Error c sd m = (let i = GetF42ErrorInfo c in
     \<lparr>af_code = fi_cx_code i, af_message = (if m = [] then fi_cx_code i else m), af_retryable = fi_retryable i,
      af_category = fi_category i, af_retry_after_ms = fi_retry_after_ms i, af_structured_data = Some sd\<rparr>)"

definition error_ToJson :: "AgentFriendlyError \<Rightarrow> json" where
  "error_ToJson e = JObj
     [(''code'', JStr (af_code e)), (''message'', JStr (af_message e)), (''retryable'', JBool (af_retryable e)),
      (''category'', JStr (category_ToString (af_category e))),
      (''retry_after_ms'', case af_retry_after_ms e of Some n \<Rightarrow> JInt n | None \<Rightarrow> JNull),
      (''structured_data'', case af_structured_data e of Some j \<Rightarrow> j | None \<Rightarrow> JNull)]"

fun F42ErrorToStatusCode :: "F42ErrorCode \<Rightarrow> StatusCode" where
  "F42ErrorToStatusCode kInvalidRequest = kInvalidArgument"
| "F42ErrorToStatusCode kMaxPagesExceeded = kInvalidArgument"
| "F42ErrorToStatusCode kTaskNotFound = kNotFound"
| "F42ErrorToStatusCode kTaskTimeout = kUnavailable"
| "F42ErrorToStatusCode kDocProcessingInProgress = kAlreadyExists"
| "F42ErrorToStatusCode kTaskCancelling = kAlreadyExists"
| "F42ErrorToStatusCode kParseFailed = kInternal"
| "F42ErrorToStatusCode kStorageFailed = kInternal"
| "F42ErrorToStatusCode kZombieTaskCleanup = kInternal"
| "F42ErrorToStatusCode kWorkerBusy = kUnavailable"
| "F42ErrorToStatusCode kServiceUnavailable = kUnavailable"

definition F42Status :: "F42ErrorCode \<Rightarrow> string \<Rightarrow> Status" where
  "F42Status c detail = StatusOf (F42ErrorToStatusCode c)
     (if detail = [] then F42ErrorCodeString c else F42ErrorCodeString c @ '': '' @ detail)"

section \<open>What the identities promise\<close>

lemma F42ErrorToStatusCode_not_ok [simp, status]: "F42ErrorToStatusCode c \<noteq> kOk"
  by (cases c) simp_all

lemma F42Status_not_ok [simp, status]: "\<not> ok (F42Status c detail)"
  by (simp add: F42Status_def)

lemma code_F42Status [simp]: "code (F42Status c detail) = F42ErrorToStatusCode c"
  by (simp add: F42Status_def StatusOf_def)

text \<open>No code string is a prefix of another, so the prefix test on a message identifies the code.\<close>

lemma cx_codes_prefix_free: "prefix (F42ErrorCodeString c) (F42ErrorCodeString c' @ rest) \<longleftrightarrow> c = c'"
  by (cases c; cases c') (simp_all add: F42ErrorCodeString_def info_def)

lemma F42Status_identifies: "prefix (F42ErrorCodeString c) (message (F42Status c' detail)) \<longleftrightarrow> c = c'"
  using cx_codes_prefix_free[of c c' "if detail = [] then [] else '': '' @ detail"]
  by (simp add: F42Status_def StatusOf_def split: if_splits)

end
