(* ===== verification/Iso_Time.thy ===== *)
theory Iso_Time
  imports Prelude Text_Order
begin

text \<open>
  The timestamps of the task table (\<^verbatim>\<open>NowIso8601\<close> and \<^verbatim>\<open>UnixToIso8601\<close> of \<^verbatim>\<open>src/async/task_manager.cpp\<close>): UTC
  calendar dates printed with fixed-width fields, so that the string comparisons of the SQL statements are comparisons of
  instants.  \<open>gmtime_r\<close> is the proleptic Gregorian calendar; strings are compared byte by byte, a proper prefix being
  smaller, as SQLite's binary collation does.
\<close>

section \<open>The calendar\<close>

definition leap :: "int \<Rightarrow> bool" where
  "leap y \<longleftrightarrow> y mod 4 = 0 \<and> (y mod 100 \<noteq> 0 \<or> y mod 400 = 0)"

definition year_length :: "int \<Rightarrow> int" where
  "year_length y = (if leap y then 366 else 365)"

definition month_lengths :: "int \<Rightarrow> int list" where
  "month_lengths y = [31, if leap y then 29 else 28, 31, 30, 31, 30, 31, 31, 30, 31, 30, 31]"

function year_from :: "int \<Rightarrow> int \<Rightarrow> int \<times> int" where
  "year_from y d =
     (if d < 0 then year_from (y - 1) (d + year_length (y - 1))
      else if year_length y \<le> d then year_from (y + 1) (d - year_length y)
      else (y, d))"
  by pat_completeness auto

termination
  by (relation "measure (\<lambda>(y, d). if d < 0 then nat (- d) + 1000 else nat d)")
     (auto simp: year_length_def split: if_splits)

declare year_from.simps [simp del]

fun month_from :: "int list \<Rightarrow> int \<Rightarrow> int \<Rightarrow> int \<times> int" where
  "month_from [] m d = (m, d)"
| "month_from (l # ls) m d = (if d < l then (m, d) else month_from ls (m + 1) (d - l))"

text \<open>\<open>gmtime_r\<close>: year, month from 1, day of the month from 1 of a day counted from 1970-01-01.\<close>

definition civil :: "int \<Rightarrow> int \<times> int \<times> int" where
  "civil days = (case year_from 1970 days of (y, doy) \<Rightarrow>
     (case month_from (month_lengths y) 1 doy of (m, d) \<Rightarrow> (y, m, d + 1)))"

section \<open>Printing\<close>

fun pad :: "nat \<Rightarrow> nat \<Rightarrow> string" where
  "pad 0 n = []"
| "pad (Suc w) n = pad w (n div 10) @ [char_of (48 + n mod 10)]"

text \<open>\<open>%0wd\<close>.\<close>

definition fmt0 :: "nat \<Rightarrow> int \<Rightarrow> string" where
  "fmt0 w x = (if x < 0 then ''-'' @ (if nat (- x) < 10 ^ (w - 1) then pad (w - 1) (nat (- x)) else to_string (nat (- x)))
     else if nat x < 10 ^ w then pad w (nat x) else to_string (nat x))"

definition iso_date :: "int \<Rightarrow> string" where
  "iso_date days = (case civil days of (y, m, d) \<Rightarrow> fmt0 4 y @ ''-'' @ fmt0 2 m @ ''-'' @ fmt0 2 d)"

definition iso_clock :: "int \<Rightarrow> string" where
  "iso_clock ms = fmt0 2 (ms div 3600000) @ '':'' @ fmt0 2 (ms div 60000 mod 60) @ '':'' @ fmt0 2 (ms div 1000 mod 60)
     @ ''.'' @ fmt0 3 (ms mod 1000) @ ''Z''"

definition iso_ms :: "int \<Rightarrow> string" where
  "iso_ms t = iso_date (t div 86400000) @ ''T'' @ iso_clock (t mod 86400000)"

text \<open>The clock is read in milliseconds; the conversion of a second prints \<open>.000\<close>.\<close>

definition NowIso8601 :: "int \<Rightarrow> string" where
  "NowIso8601 now_ms = iso_ms now_ms"

definition UnixToIso8601 :: "int \<Rightarrow> string" where
  "UnixToIso8601 unix_secs = iso_ms (unix_secs * 1000)"

lemma iso_examples:
  "NowIso8601 1780221600123 = ''2026-05-31T10:00:00.123Z''" "UnixToIso8601 (-1) = ''1969-12-31T23:59:59.000Z''"
  by code_simp+

section \<open>Order of the printed fields\<close>

lemma div_mod_less:
  fixes k a b :: int
  assumes "0 < k"
  shows "a < b \<longleftrightarrow> a div k < b div k \<or> a div k = b div k \<and> a mod k < b mod k"
proof -
  have "a = k * (a div k) + a mod k" "b = k * (b div k) + b mod k" by simp_all
  then have "a div k = b div k \<Longrightarrow> a < b \<longleftrightarrow> a mod k < b mod k" by (metis add_less_cancel_left)
  moreover have "a \<le> b \<Longrightarrow> a div k \<le> b div k" "b \<le> a \<Longrightarrow> b div k \<le> a div k"
    using assms by (simp_all add: zdiv_mono1)
  ultimately show ?thesis by (smt (verit))
qed

lemma nat_div_mod_less: "0 < k \<Longrightarrow> (a :: nat) < b \<longleftrightarrow> a div k < b div k \<or> a div k = b div k \<and> a mod k < b mod k"
  using div_mod_less[of "int k" "int a" "int b"]
  unfolding zdiv_int[symmetric] zmod_int[symmetric] of_nat_less_iff of_nat_eq_iff by simp

lemma div_mod_eq: "(a :: int) = b \<longleftrightarrow> a div k = b div k \<and> a mod k = b mod k"
  by (metis div_mult_mod_eq)

lemma char_of_digit_less: "a < 10 \<Longrightarrow> b < 10 \<Longrightarrow> (char_of (48 + a :: nat) :: char) < char_of (48 + b) \<longleftrightarrow> a < b"
  by (simp add: less_char_def)

lemma length_pad [simp]: "length (pad w n) = w"
  by (induction w arbitrary: n) auto

lemma char_of_digit_eq: "a < 10 \<Longrightarrow> b < 10 \<Longrightarrow> (char_of (48 + a :: nat) :: char) = char_of (48 + b) \<longleftrightarrow> a = b"
  using char_of_digit_less by (metis less_irrefl linorder_less_linear)

lemma pad_inject: "a < 10 ^ w \<Longrightarrow> b < 10 ^ w \<Longrightarrow> pad w a = pad w b \<longleftrightarrow> a = b"
proof (induction w arbitrary: a b)
  case (Suc w)
  have "pad w (a div 10) = pad w (b div 10) \<longleftrightarrow> a div 10 = b div 10"
    using Suc.prems by (intro Suc.IH) (simp_all add: less_mult_imp_div_less mult.commute)
  moreover have "char_of (48 + a mod 10) = (char_of (48 + b mod 10) :: char) \<longleftrightarrow> a mod 10 = b mod 10"
    by (intro char_of_digit_eq) simp_all
  moreover have "a = b \<longleftrightarrow> a div 10 = b div 10 \<and> a mod 10 = b mod 10"
    by (metis div_mult_mod_eq)
  ultimately show ?case by simp
qed simp

lemma pad_less: "a < 10 ^ w \<Longrightarrow> b < 10 ^ w \<Longrightarrow> pad w a < pad w b \<longleftrightarrow> a < b"
proof (induction w arbitrary: a b)
  case (Suc w)
  have d: "a div 10 < 10 ^ w" "b div 10 < 10 ^ w"
    using Suc.prems by (simp_all add: less_mult_imp_div_less mult.commute)
  have "pad (Suc w) a < pad (Suc w) b \<longleftrightarrow>
      pad w (a div 10) < pad w (b div 10) \<or> pad w (a div 10) = pad w (b div 10) \<and> [char_of (48 + a mod 10)] < [char_of (48 + b mod 10) :: char]"
    by (simp add: append_less_iff)
  also have "\<dots> \<longleftrightarrow> a div 10 < b div 10 \<or> a div 10 = b div 10 \<and> a mod 10 < b mod 10"
    using d by (simp add: Suc.IH pad_inject char_of_digit_less)
  also have "\<dots> \<longleftrightarrow> a < b" using nat_div_mod_less[of 10 a b] by simp
  finally show ?case .
qed simp

lemma fmt0_small: "0 \<le> x \<Longrightarrow> x < 10 ^ w \<Longrightarrow> fmt0 w x = pad w (nat x)"
  by (simp add: fmt0_def nat_less_iff)

lemma length_fmt0: "0 \<le> x \<Longrightarrow> x < 10 ^ w \<Longrightarrow> length (fmt0 w x) = w"
  by (simp add: fmt0_small)

lemma fmt0_order:
  assumes "0 \<le> x" "x < 10 ^ w" "0 \<le> y" "y < 10 ^ w"
  shows "fmt0 w x < fmt0 w y \<longleftrightarrow> x < y" and "fmt0 w x = fmt0 w y \<longleftrightarrow> x = y"
proof -
  have b: "nat x < 10 ^ w" "nat y < 10 ^ w" using assms by (simp_all add: nat_less_iff)
  show "fmt0 w x < fmt0 w y \<longleftrightarrow> x < y" using assms b by (auto simp: fmt0_small pad_less nat_less_eq_zless)
  show "fmt0 w x = fmt0 w y \<longleftrightarrow> x = y" using assms b by (simp add: fmt0_small pad_inject eq_nat_nat_iff)
qed

text \<open>A field in front of a rest decides the order, or leaves it to the rest.\<close>

lemma fmt0_append_less:
  assumes "0 \<le> x" "x < 10 ^ w" "0 \<le> y" "y < 10 ^ w"
  shows "fmt0 w x @ us < fmt0 w y @ vs \<longleftrightarrow> x < y \<or> x = y \<and> us < vs"
  using assms by (simp add: append_less_iff length_fmt0 fmt0_order)

section \<open>Order of the calendar\<close>

definition days_before :: "int \<Rightarrow> int" where
  "days_before y = 365 * y + (y - 1) div 4 - (y - 1) div 100 + (y - 1) div 400"

lemma div_pred: "0 < k \<Longrightarrow> (y :: int) div k = (y - 1) div k + (if y mod k = 0 then 1 else 0)"
proof -
  assume k: "0 < k"
  have y: "y = k * (y div k) + y mod k" "0 \<le> y mod k" "y mod k < k" using k by simp_all
  show ?thesis
  proof (cases "y mod k = 0")
    case True
    then have "y - 1 = k * (y div k - 1) + (k - 1)" using y(1) by (simp add: right_diff_distrib)
    from int_div_pos_eq[OF this] k have "(y - 1) div k = y div k - 1" by simp
    then show ?thesis using True by simp
  next
    case False
    then have "y - 1 = k * (y div k) + (y mod k - 1)" by simp
    from int_div_pos_eq[OF this] False y have "(y - 1) div k = y div k" by simp
    then show ?thesis using False by simp
  qed
qed

lemma leap_count:
  "(q \<longrightarrow> p) \<Longrightarrow> (r \<longrightarrow> q) \<Longrightarrow>
   (if p then 1 else 0) - (if q then 1 else 0) + (if r then 1 else 0) = (if p \<and> (\<not> q \<or> r) then 1 else (0 :: int))"
  by (cases p; cases q; cases r) simp_all

lemma days_before_Suc: "days_before (y + 1) = days_before y + year_length y"
proof -
  have lin: "X = X' + a \<Longrightarrow> Y = Y' + b \<Longrightarrow> Z = Z' + c \<Longrightarrow> a - b + c = n \<Longrightarrow>
      365 * (y + 1) + X - Y + Z = 365 * y + X' - Y' + Z' + (365 + n)" for X X' a Y Y' b Z Z' c n :: int
    by simp
  have "y mod 100 mod 4 = y mod 4" "y mod 400 mod 100 = y mod 100" by (simp_all add: mod_mod_cancel)
  then have "y mod 100 = 0 \<longrightarrow> y mod 4 = 0" "y mod 400 = 0 \<longrightarrow> y mod 100 = 0" by (metis mod_0)+
  from lin[OF div_pred[of 4 y] div_pred[of 100 y] div_pred[of 400 y] leap_count[OF this]]
  have "365 * (y + 1) + y div 4 - y div 100 + y div 400 =
      365 * y + (y - 1) div 4 - (y - 1) div 100 + (y - 1) div 400 + (365 + (if leap y then 1 else 0))"
    unfolding leap_def by (simp only: zero_less_numeral simp_thms)
  then show ?thesis unfolding days_before_def year_length_def add_diff_cancel_right' by (cases "leap y") simp_all
qed

lemma days_before_mono: "y < z \<Longrightarrow> days_before y + year_length y \<le> days_before z"
proof (induction z rule: int_gr_induct)
  case (step z)
  have "0 \<le> year_length z" by (simp add: year_length_def)
  with step show ?case by (simp add: days_before_Suc)
qed (simp add: days_before_Suc)

lemma year_from_spec:
  "year_from y d = (y', d') \<Longrightarrow> days_before y' + d' = days_before y + d \<and> 0 \<le> d' \<and> d' < year_length y'"
proof (induction y d rule: year_from.induct)
  case (1 y d)
  consider "d < 0" | "0 \<le> d" "year_length y \<le> d" | "0 \<le> d" "d < year_length y" by linarith
  then show ?case
  proof cases
    case 1
    then show ?thesis using "1.IH"(1) "1.prems" days_before_Suc[of "y - 1"]
      by (subst (asm) year_from.simps) simp
  next
    case 2
    then show ?thesis using "1.IH"(2) "1.prems" days_before_Suc[of y]
      by (subst (asm) year_from.simps) simp
  next
    case 3
    then show ?thesis using "1.prems" by (subst (asm) year_from.simps) simp
  qed
qed

lemma year_from_order:
  assumes "year_from 1970 d = (y, k)" "year_from 1970 e = (z, l)"
  shows "d < e \<longleftrightarrow> y < z \<or> y = z \<and> k < l"
proof -
  have "days_before y + k = days_before 1970 + d" "days_before z + l = days_before 1970 + e"
    "0 \<le> k" "k < year_length y" "0 \<le> l" "l < year_length z"
    using year_from_spec[OF assms(1)] year_from_spec[OF assms(2)] by auto
  then show ?thesis using days_before_mono[of y z] days_before_mono[of z y]
    by (cases y z rule: linorder_cases) auto
qed

lemma month_from_ge: "month_from ls m d = (m', d') \<Longrightarrow> m \<le> m'"
  by (induction ls m d rule: month_from.induct) (force split: if_splits)+

lemma month_from_spec:
  "0 \<le> d \<Longrightarrow> d < sum_list ls \<Longrightarrow> \<forall>l \<in> set ls. l \<le> b \<Longrightarrow> month_from ls m d = (m', d') \<Longrightarrow>
   m' < m + int (length ls) \<and> 0 \<le> d' \<and> d' < b"
  by (induction ls m d rule: month_from.induct) (fastforce split: if_splits)+

lemma month_from_order:
  "month_from ls m d = (m1, d1) \<Longrightarrow> month_from ls m e = (m2, e1) \<Longrightarrow> d < e \<Longrightarrow> m1 < m2 \<or> m1 = m2 \<and> d1 < e1"
proof (induction ls arbitrary: m d e)
  case (Cons l ls)
  show ?case
  proof (cases "d < l \<and> l \<le> e")
    case True
    then have "m1 = m" "m + 1 \<le> m2" using Cons.prems month_from_ge[of ls "m + 1"] by auto
    then show ?thesis by simp
  next
    case False
    then show ?thesis using Cons.prems Cons.IH[of "m + 1" "d - l" "e - l"] by (auto split: if_splits)
  qed
qed auto

lemma civil_order:
  assumes "civil d = (y, m, k)" "civil e = (y', m', k')" and "d < e"
  shows "y < y' \<or> y = y' \<and> (m < m' \<or> m = m' \<and> k < k')"
proof -
  obtain r s where r: "year_from 1970 d = (y, r)" "month_from (month_lengths y) 1 r = (m, k - 1)"
    and s: "year_from 1970 e = (y', s)" "month_from (month_lengths y') 1 s = (m', k' - 1)"
    using assms(1,2) by (auto simp: civil_def split: prod.splits)
  show ?thesis using year_from_order[OF r(1) s(1)] month_from_order[OF r(2), of s] s(2) assms(3) by auto
qed

lemma civil_fields:
  assumes "civil d = (y, m, k)"
  shows "1 \<le> m" "m \<le> 12" "1 \<le> k" "k \<le> 31" "days_before y \<le> days_before 1970 + d"
    "days_before 1970 + d < days_before (y + 1)"
proof -
  obtain r where r: "year_from 1970 d = (y, r)" "month_from (month_lengths y) 1 r = (m, k - 1)"
    using assms by (auto simp: civil_def split: prod.splits)
  note y = year_from_spec[OF r(1)]
  have "sum_list (month_lengths y) = year_length y" by (simp add: month_lengths_def year_length_def)
  moreover have "\<forall>l \<in> set (month_lengths y). l \<le> 31" "length (month_lengths y) = 12"
    by (simp_all add: month_lengths_def)
  ultimately show "1 \<le> m" "m \<le> 12" "1 \<le> k" "k \<le> 31"
    using month_from_ge[OF r(2)] month_from_spec[OF _ _ _ r(2), of 31] y by auto
  show "days_before y \<le> days_before 1970 + d" "days_before 1970 + d < days_before (y + 1)"
    using y by (simp_all add: days_before_Suc)
qed

text \<open>The days whose year has four digits: from 0000-01-01 to 9999-12-31.\<close>

definition printable_day :: "int \<Rightarrow> bool" where
  "printable_day d \<longleftrightarrow> -719528 \<le> d \<and> d < 2932897"

lemma civil_year_range:
  assumes "civil d = (y, m, k)" "printable_day d"
  shows "0 \<le> y" "y < 10000"
proof -
  note f = civil_fields(5,6)[OF assms(1)]
  show "0 \<le> y"
  proof (rule ccontr)
    assume "\<not> 0 \<le> y"
    then have "y + 1 < 0 \<or> y + 1 = 0" by linarith
    then have "days_before (y + 1) \<le> days_before 0"
      using days_before_mono[of "y + 1" 0] by (auto simp: year_length_def split: if_splits)
    then show False using f(2) assms(2) by (simp add: printable_day_def days_before_def)
  qed
  show "y < 10000"
  proof (rule ccontr)
    assume "\<not> y < 10000"
    then have "10000 < y \<or> y = 10000" by linarith
    then have "days_before 10000 \<le> days_before y"
      using days_before_mono[of 10000 y] by (auto simp: year_length_def split: if_splits)
    then show False using f(1) assms(2) by (simp add: printable_day_def days_before_def)
  qed
qed

section \<open>Strings order instants\<close>

lemma iso_date_order:
  assumes "printable_day d" "printable_day e"
  shows "iso_date d < iso_date e \<longleftrightarrow> d < e" "iso_date d = iso_date e \<longleftrightarrow> d = e" "length (iso_date d) = 10"
proof -
  obtain y m k where c: "civil d = (y, m, k)" by (metis prod_cases3)
  obtain y' m' k' where c': "civil e = (y', m', k')" by (metis prod_cases3)
  note f = civil_fields(1-4)[OF c] civil_year_range[OF c assms(1)]
  note f' = civil_fields(1-4)[OF c'] civil_year_range[OF c' assms(2)]
  have e: "iso_date d = fmt0 4 y @ ''-'' @ fmt0 2 m @ ''-'' @ fmt0 2 k"
    "iso_date e = fmt0 4 y' @ ''-'' @ fmt0 2 m' @ ''-'' @ fmt0 2 k'"
    by (simp_all add: iso_date_def c c')
  have "iso_date d < iso_date e \<longleftrightarrow> y < y' \<or> y = y' \<and> (m < m' \<or> m = m' \<and> k < k')"
    unfolding e using f f' by (simp add: fmt0_append_less fmt0_order)
  moreover have "iso_date d = iso_date e \<longleftrightarrow> y = y' \<and> m = m' \<and> k = k'"
    unfolding e using f f' by (simp add: length_fmt0 fmt0_order)
  moreover have "d = e \<Longrightarrow> y = y' \<and> m = m' \<and> k = k'" using c c' by simp
  moreover note civil_order[OF c c'] civil_order[OF c' c]
  ultimately show "iso_date d < iso_date e \<longleftrightarrow> d < e" "iso_date d = iso_date e \<longleftrightarrow> d = e"
    by (metis less_irrefl linorder_less_linear order_less_trans)+
  show "length (iso_date d) = 10" unfolding e using f by (simp add: length_fmt0)
qed

lemma iso_clock_less:
  assumes "0 \<le> r" "r < 86400000" "0 \<le> s" "s < 86400000"
  shows "iso_clock r < iso_clock s \<longleftrightarrow> r < s"
proof -
  have b: "x div 3600000 < 100" "0 \<le> x div 3600000" if "0 \<le> x" "x < 86400000" for x :: int
    using that by linarith+
  have "iso_clock r < iso_clock s \<longleftrightarrow>
      r div 3600000 < s div 3600000 \<or> r div 3600000 = s div 3600000 \<and>
      (r div 60000 mod 60 < s div 60000 mod 60 \<or> r div 60000 mod 60 = s div 60000 mod 60 \<and>
      (r div 1000 mod 60 < s div 1000 mod 60 \<or> r div 1000 mod 60 = s div 1000 mod 60 \<and> r mod 1000 < s mod 1000))"
    unfolding iso_clock_def using b[of r] b[of s] assms
    by (simp add: fmt0_append_less fmt0_order pos_mod_bound[of 60, THEN order_less_trans] pos_mod_bound[of 1000])
  also have "\<dots> \<longleftrightarrow> r < s"
    using div_mod_less[of 1000 r s] div_mod_less[of 60 "r div 1000" "s div 1000"]
      div_mod_less[of 60 "r div 60000" "s div 60000"] div_mod_eq[of "r div 1000" "s div 1000" 60]
      div_mod_eq[of "r div 60000" "s div 60000" 60]
    by (simp add: zdiv_zmult2_eq[symmetric]) blast
  finally show ?thesis .
qed

lemma iso_ms_less:
  assumes "printable_day (t div 86400000)" "printable_day (u div 86400000)"
  shows "iso_ms t < iso_ms u \<longleftrightarrow> t < u"
proof -
  note d = iso_date_order[OF assms] iso_date_order(3)[OF assms(2,1)]
  have "iso_ms t < iso_ms u \<longleftrightarrow> t div 86400000 < u div 86400000 \<or>
      t div 86400000 = u div 86400000 \<and> t mod 86400000 < u mod 86400000"
    unfolding iso_ms_def by (simp add: append_less_iff d iso_clock_less)
  also have "\<dots> \<longleftrightarrow> t < u" using div_mod_less[of 86400000 t u] by simp
  finally show ?thesis .
qed

lemma iso_ms_le:
  assumes "printable_day (t div 86400000)" "printable_day (u div 86400000)"
  shows "iso_ms t \<le> iso_ms u \<longleftrightarrow> t \<le> u"
  using iso_ms_less[OF assms(2,1)] by (simp add: not_less[symmetric])

text \<open>
  The order of timestamps as strings is the order of instants: for every two instants of the years 0 to 9999, a stamp
  written by \<open>NowIso8601\<close> is below a cutoff written by \<open>UnixToIso8601\<close> exactly when its instant (in milliseconds) is
  before the cutoff's second, and at or above it otherwise; two stamps are ordered as their instants.  The debounce
  window, the retention period, the zombie and timeout sweeps and the first-in first-out order of the queue rest on it.
\<close>
theorem timestamps_order_instants:
  assumes "-62167219200000 \<le> t" "t < 253402300800000" "-62167219200000 \<le> u" "u < 253402300800000"
    and "-62167219200 \<le> s" "s < 253402300800"
  shows "(NowIso8601 t < UnixToIso8601 s \<longleftrightarrow> t < s * 1000)
       \<and> (UnixToIso8601 s \<le> NowIso8601 t \<longleftrightarrow> s * 1000 \<le> t)
       \<and> (NowIso8601 t < NowIso8601 u \<longleftrightarrow> t < u)"
proof -
  have p: "printable_day (x div 86400000)" if "-62167219200000 \<le> x" "x < 253402300800000" for x
    using that unfolding printable_day_def by linarith
  have s: "-62167219200000 \<le> s * 1000" "s * 1000 < 253402300800000" using assms(5,6) by linarith+
  show ?thesis
    using iso_ms_less[OF p p, OF assms(1,2) s] iso_ms_le[OF p p, OF s assms(1,2)] iso_ms_less[OF p p, OF assms(1-4)]
    by (simp add: NowIso8601_def UnixToIso8601_def)
qed

theorem timestamps_order_instants_witness:
  "NowIso8601 1780221599999 < UnixToIso8601 1780221600 \<and> UnixToIso8601 1780221600 \<le> NowIso8601 1780221600000
     \<and> NowIso8601 951782399999 < NowIso8601 951782400000"
  using timestamps_order_instants[of 1780221599999 0 1780221600] timestamps_order_instants[of 1780221600000 0 1780221600]
    timestamps_order_instants[of 951782399999 951782400000 0] by simp

end
