(* ===== verification/Task_Table.thy ===== *)
theory Task_Table
  imports Task_Error Sqlite Iso_Time
begin

text \<open>
  The task manager (\<^verbatim>\<open>include/cortrix/async/task_info.h\<close>, \<^verbatim>\<open>task_manager.h\<close>, \<^verbatim>\<open>src/async/task_manager.cpp\<close>): the table
  \<^verbatim>\<open>tasks\<close> with its nullable columns, and every statement the manager runs on it.  A call has an environment: the outcome
  of each of its statements, the text of \<^verbatim>\<open>sqlite3_errmsg\<close>, the clock in milliseconds, the identifier \<^verbatim>\<open>GenerateUlid\<close> would
  return and \<^verbatim>\<open>std::filesystem::weakly_canonical\<close>, which may fail.  Every method holds the manager's mutex, so a
  call is one step.  Rows are kept in rowid order; equal sort keys are delivered in the order of the index scan.  The page
  list column holds its JSON array, text and array being exchanged by the JSON library; percentages are rationals.
\<close>

section \<open>Rows and requests\<close>

abbreviation (input) "kQueued \<equiv> ''queued''"
abbreviation (input) "kProcessing \<equiv> ''processing''"
abbreviation (input) "kCancelling \<equiv> ''cancelling''"
abbreviation (input) "kCompleted \<equiv> ''completed''"
abbreviation (input) "kFailed \<equiv> ''failed''"
abbreviation (input) "kCancelled \<equiv> ''cancelled''"

abbreviation (input) "kTaskDocParse \<equiv> (1 :: int)"

record TaskInfo =
  ti_task_id :: string
  ti_namespace_id :: string
  ti_filename :: string
  ti_filepath :: string
  ti_doc_id :: string
  ti_content_hash :: string
  ti_status :: string
  ti_task_type :: int
  ti_cancel_requested :: bool
  ti_total_pages :: int
  ti_processed_pages :: int
  ti_failed_pages :: "int list"
  ti_progress_pct :: rat
  ti_eta_seconds :: int
  ti_current_phase :: string
  ti_worker_id :: int
  ti_trace_id :: string
  ti_error_code :: string
  ti_error_msg :: string
  ti_structured_data :: string
  ti_created_at :: string
  ti_updated_at :: string
  ti_started_at :: string
  ti_completed_at :: string
  ti_metadata_json :: string

definition TaskInfo_default :: TaskInfo where
  "TaskInfo_default = \<lparr>ti_task_id = [], ti_namespace_id = [], ti_filename = [], ti_filepath = [], ti_doc_id = [],
     ti_content_hash = [], ti_status = kQueued, ti_task_type = kTaskDocParse, ti_cancel_requested = False,
     ti_total_pages = 0, ti_processed_pages = 0, ti_failed_pages = [], ti_progress_pct = 0, ti_eta_seconds = -1,
     ti_current_phase = [], ti_worker_id = -1, ti_trace_id = [], ti_error_code = [], ti_error_msg = [],
     ti_structured_data = [], ti_created_at = [], ti_updated_at = [], ti_started_at = [], ti_completed_at = [],
     ti_metadata_json = []\<rparr>"

record SubmitRequest =
  sr_namespace_id :: string
  sr_filename :: string
  sr_filepath :: string
  sr_doc_id :: string
  sr_content_hash :: string
  sr_trace_id :: string
  sr_metadata_json :: string
  sr_total_pages :: int
  sr_task_type :: int

record task_row =
  tr_task_id :: string
  tr_namespace_id :: string
  tr_filename :: string
  tr_filepath :: string
  tr_doc_id :: "string option"
  tr_content_hash :: "string option"
  tr_status :: string
  tr_task_type :: int
  tr_cancel_requested :: bool
  tr_total_pages :: int
  tr_processed_pages :: int
  tr_failed_pages :: "int list"
  tr_progress_pct :: rat
  tr_eta_seconds :: int
  tr_current_phase :: "string option"
  tr_worker_id :: "int option"
  tr_trace_id :: "string option"
  tr_error_code :: "string option"
  tr_error_msg :: "string option"
  tr_structured_data :: "string option"
  tr_created_at :: string
  tr_updated_at :: string
  tr_started_at :: "string option"
  tr_completed_at :: "string option"
  tr_metadata_json :: "string option"
  tr_filepath_canonical :: "string option"

text \<open>The \<open>CHECK\<close> constraint of the table, and the statuses every live-row statement excludes.\<close>

definition task_statuses :: "string list" where
  "task_statuses = [kQueued, kProcessing, kCancelling, kCompleted, kFailed, kCancelled]"

definition terminal :: "string \<Rightarrow> bool" where
  "terminal st \<longleftrightarrow> st = kCompleted \<or> st = kFailed \<or> st = kCancelled"

datatype task_stmt =
    QBackfillSelect | QBackfillUpdate string | QCreateTask | QGetTask | QUpdateProgress | QListByNamespace
  | QMarkProcessing | QProbe | QMarkCompleted | QMarkFailed | QCancelSelect | QCancelUpdate | QMarkCancelled
  | QFindRecent | QHasActive | QClaim | QClaimRead | QDebounce | QSelectOldest | QDeleteExpired | QSweepZombies
  | QSweepTimedOut | QRequeueStale | QReferenced | QUnresolved | QLiveInputs | QCountAll

record task_env =
  te_sql :: "task_stmt \<Rightarrow> sql_outcome"
  te_errmsg :: string
  te_now_ms :: int
  te_ulid :: string
  te_canonical :: "string \<Rightarrow> string option"

type_synonym 'a task_result = "Status + 'a"

definition opt_text :: "string option \<Rightarrow> string" where
  "opt_text c = (case c of None \<Rightarrow> [] | Some t \<Rightarrow> t)"

definition BindNullableText :: "string \<Rightarrow> string option" where
  "BindNullableText v = (if v = [] then None else Some v)"

definition te_now :: "task_env \<Rightarrow> string" where
  "te_now env = NowIso8601 (te_now_ms env)"

definition ReadRow :: "task_row \<Rightarrow> TaskInfo" where
  "ReadRow r = \<lparr>ti_task_id = tr_task_id r, ti_namespace_id = tr_namespace_id r, ti_filename = tr_filename r,
     ti_filepath = tr_filepath r, ti_doc_id = opt_text (tr_doc_id r), ti_content_hash = opt_text (tr_content_hash r),
     ti_status = tr_status r, ti_task_type = tr_task_type r, ti_cancel_requested = tr_cancel_requested r,
     ti_total_pages = tr_total_pages r, ti_processed_pages = tr_processed_pages r,
     ti_failed_pages = tr_failed_pages r, ti_progress_pct = tr_progress_pct r, ti_eta_seconds = tr_eta_seconds r,
     ti_current_phase = opt_text (tr_current_phase r),
     ti_worker_id = (case tr_worker_id r of None \<Rightarrow> -1 | Some w \<Rightarrow> w),
     ti_trace_id = opt_text (tr_trace_id r), ti_error_code = opt_text (tr_error_code r),
     ti_error_msg = opt_text (tr_error_msg r), ti_structured_data = opt_text (tr_structured_data r),
     ti_created_at = tr_created_at r, ti_updated_at = tr_updated_at r, ti_started_at = opt_text (tr_started_at r),
     ti_completed_at = opt_text (tr_completed_at r), ti_metadata_json = opt_text (tr_metadata_json r)\<rparr>"

section \<open>Creation, reading and progress\<close>

text \<open>\<open>Init\<close>'s backfill: live rows of an older database get their resolved path, where it resolves.\<close>

definition needs_backfill :: "task_row \<Rightarrow> bool" where
  "needs_backfill r \<longleftrightarrow> \<not> terminal (tr_status r) \<and> tr_filepath r \<noteq> []
     \<and> (tr_filepath_canonical r = None \<or> tr_filepath_canonical r = Some [])"

definition backfill_one :: "task_env \<Rightarrow> string \<times> string \<Rightarrow> task_row list \<Rightarrow> task_row list" where
  "backfill_one env p rows = (case te_canonical env (snd p) of
      None \<Rightarrow> rows
    | Some c \<Rightarrow> if c = [] then rows
        else if te_sql env (QBackfillUpdate (fst p)) \<noteq> SqlOk then rows
        else update_rows (\<lambda>r. tr_task_id r = fst p) (tr_filepath_canonical_update (\<lambda>_. Some c)) rows)"

definition BackfillCanonicalInputsLocked :: "task_env \<Rightarrow> task_row list \<Rightarrow> task_row list" where
  "BackfillCanonicalInputsLocked env rows =
     (if te_sql env QBackfillSelect \<noteq> SqlOk then rows
      else fold (backfill_one env) (map (\<lambda>r. (tr_task_id r, tr_filepath r)) (filter needs_backfill rows)) rows)"

definition canonical_column :: "task_env \<Rightarrow> string \<Rightarrow> string option" where
  "canonical_column env path = (if path = [] then None
     else (case te_canonical env path of None \<Rightarrow> None | Some c \<Rightarrow> BindNullableText c))"

definition row_of :: "task_env \<Rightarrow> TaskInfo \<Rightarrow> task_row" where
  "row_of env t = \<lparr>tr_task_id = ti_task_id t, tr_namespace_id = ti_namespace_id t, tr_filename = ti_filename t,
     tr_filepath = ti_filepath t, tr_doc_id = BindNullableText (ti_doc_id t),
     tr_content_hash = BindNullableText (ti_content_hash t), tr_status = ti_status t, tr_task_type = ti_task_type t,
     tr_cancel_requested = ti_cancel_requested t, tr_total_pages = ti_total_pages t,
     tr_processed_pages = ti_processed_pages t, tr_failed_pages = ti_failed_pages t,
     tr_progress_pct = ti_progress_pct t, tr_eta_seconds = ti_eta_seconds t,
     tr_current_phase = BindNullableText (ti_current_phase t),
     tr_worker_id = (if ti_worker_id t < 0 then None else Some (ti_worker_id t)),
     tr_trace_id = BindNullableText (ti_trace_id t), tr_error_code = BindNullableText (ti_error_code t),
     tr_error_msg = BindNullableText (ti_error_msg t), tr_structured_data = BindNullableText (ti_structured_data t),
     tr_created_at = ti_created_at t, tr_updated_at = ti_updated_at t,
     tr_started_at = BindNullableText (ti_started_at t), tr_completed_at = BindNullableText (ti_completed_at t),
     tr_metadata_json = BindNullableText (ti_metadata_json t),
     tr_filepath_canonical = canonical_column env (ti_filepath t)\<rparr>"

text \<open>\<open>INSERT\<close> is refused by the primary key and by the \<open>CHECK\<close> constraint.\<close>

definition insert_allowed :: "task_row \<Rightarrow> task_row list \<Rightarrow> bool" where
  "insert_allowed r rows \<longleftrightarrow> tr_task_id r \<notin> tr_task_id ` set rows \<and> tr_status r \<in> set task_statuses"

definition CreateTask :: "task_env \<Rightarrow> task_row list \<Rightarrow> TaskInfo \<Rightarrow> TaskInfo task_result \<times> task_row list" where
  "CreateTask env rows task =
     (let task = (if ti_task_id task = [] then task\<lparr>ti_task_id := te_ulid env\<rparr> else task);
          task = task\<lparr>ti_created_at := te_now env, ti_updated_at := te_now env\<rparr>
      in if te_sql env QCreateTask = PrepareFails
         then (Inl (F42Status kStorageFailed (''CreateTask prepare: '' @ te_errmsg env)), rows)
         else if te_sql env QCreateTask = StepFails \<or> \<not> insert_allowed (row_of env task) rows
         then (Inl (F42Status kStorageFailed (''CreateTask step: '' @ te_errmsg env)), rows)
         else (Inr task, rows @ [row_of env task]))"

definition by_id :: "string \<Rightarrow> task_row \<Rightarrow> bool" where
  "by_id i r \<longleftrightarrow> tr_task_id r = i"

definition GetTask :: "task_env \<Rightarrow> task_row list \<Rightarrow> string \<Rightarrow> TaskInfo task_result" where
  "GetTask env rows i =
     (if te_sql env QGetTask = PrepareFails then Inl (F42Status kStorageFailed ''GetTask prepare'')
      else (case select_row (te_sql env) QGetTask (by_id i) rows of
              Some r \<Rightarrow> Inr (ReadRow r)
            | None \<Rightarrow> Inl (F42Status kTaskNotFound i)))"

text \<open>A guarded \<open>UPDATE\<close>: the outcome, the rows and how many changed.\<close>

definition run_update ::
  "task_env \<Rightarrow> task_stmt \<Rightarrow> string \<Rightarrow> (task_row \<Rightarrow> bool) \<Rightarrow> (task_row \<Rightarrow> task_row) \<Rightarrow> task_row list
     \<Rightarrow> (Status + nat) \<times> task_row list" where
  "run_update env q what P f rows = (case te_sql env q of
      PrepareFails \<Rightarrow> (Inl (F42Status kStorageFailed (what @ '' prepare'')), rows)
    | StepFails \<Rightarrow> (Inl (F42Status kStorageFailed (what @ '' step'')), rows)
    | SqlOk \<Rightarrow> (Inr (changes P rows), update_rows P f rows))"

definition UpdateProgress :: "task_env \<Rightarrow> task_row list \<Rightarrow> TaskInfo \<Rightarrow> Status \<times> task_row list" where
  "UpdateProgress env rows t =
     (case run_update env QUpdateProgress ''UpdateProgress'' (by_id (ti_task_id t))
        (\<lambda>r. r\<lparr>tr_processed_pages := ti_processed_pages t, tr_total_pages := ti_total_pages t,
               tr_failed_pages := ti_failed_pages t, tr_progress_pct := ti_progress_pct t,
               tr_eta_seconds := ti_eta_seconds t, tr_current_phase := BindNullableText (ti_current_phase t),
               tr_worker_id := (if ti_worker_id t < 0 then None else Some (ti_worker_id t)),
               tr_updated_at := te_now env\<rparr>) rows of
        (Inl s, rows') \<Rightarrow> (s, rows')
      | (Inr n, rows') \<Rightarrow> (if n = 0 then F42Status kTaskNotFound (ti_task_id t) else Status_Ok, rows'))"

text \<open>\<open>ORDER BY created_at DESC LIMIT ? OFFSET ?\<close>: a negative limit is no limit, a negative offset is 0.\<close>

definition newest_first :: "task_row list \<Rightarrow> task_row list" where
  "newest_first rows = rev (sort_key tr_created_at (rev rows))"

definition ListByNamespace :: "task_env \<Rightarrow> task_row list \<Rightarrow> string \<Rightarrow> int \<Rightarrow> int \<Rightarrow> TaskInfo list task_result" where
  "ListByNamespace env rows ns limit offset =
     (if te_sql env QListByNamespace = PrepareFails then Inl (F42Status kStorageFailed ''ListByNamespace prepare'')
      else if te_sql env QListByNamespace = StepFails then Inr []
      else Inr (let xs = drop (nat offset) (newest_first (filter (\<lambda>r. tr_namespace_id r = ns) rows))
                in map ReadRow (if limit < 0 then xs else take (nat limit) xs)))"

section \<open>State transitions\<close>

definition probe_exists :: "task_env \<Rightarrow> task_row list \<Rightarrow> string \<Rightarrow> bool" where
  "probe_exists env rows i \<longleftrightarrow> select_row (te_sql env) QProbe (by_id i) rows \<noteq> None"

definition gone_or_moved :: "task_env \<Rightarrow> task_row list \<Rightarrow> string \<Rightarrow> Status" where
  "gone_or_moved env rows i =
     (if probe_exists env rows i then F42Status kDocProcessingInProgress i else F42Status kTaskNotFound i)"

definition MarkProcessing :: "task_env \<Rightarrow> task_row list \<Rightarrow> string \<Rightarrow> int \<Rightarrow> Status \<times> task_row list" where
  "MarkProcessing env rows i worker =
     (case run_update env QMarkProcessing ''MarkProcessing'' (\<lambda>r. by_id i r \<and> tr_status r = kQueued)
        (\<lambda>r. r\<lparr>tr_status := kProcessing, tr_worker_id := Some worker, tr_started_at := Some (te_now env),
               tr_updated_at := te_now env\<rparr>) rows of
        (Inl s, rows') \<Rightarrow> (s, rows')
      | (Inr n, rows') \<Rightarrow> (if n = 0 then gone_or_moved env rows' i else Status_Ok, rows'))"

definition RejectedTransitionStatus :: "task_env \<Rightarrow> task_row list \<Rightarrow> string \<Rightarrow> string \<Rightarrow> Status" where
  "RejectedTransitionStatus env rows i target =
     (let current = (case select_row (te_sql env) QProbe (by_id i) rows of None \<Rightarrow> [] | Some r \<Rightarrow> tr_status r)
      in if current = [] then F42Status kTaskNotFound i
         else F42Status kDocProcessingInProgress
                (''task '' @ i @ '' status='' @ current @ '' cannot transition to '' @ target))"

definition MarkCompleted :: "task_env \<Rightarrow> task_row list \<Rightarrow> string \<Rightarrow> string \<Rightarrow> Status \<times> task_row list" where
  "MarkCompleted env rows i doc =
     (case run_update env QMarkCompleted ''MarkCompleted''
        (\<lambda>r. by_id i r \<and> (tr_status r = kProcessing \<or> tr_status r = kCancelling))
        (\<lambda>r. r\<lparr>tr_status := kCompleted, tr_doc_id := BindNullableText doc, tr_progress_pct := 100,
               tr_completed_at := Some (te_now env), tr_updated_at := te_now env\<rparr>) rows of
        (Inl s, rows') \<Rightarrow> (s, rows')
      | (Inr n, rows') \<Rightarrow> (if n = 0 then RejectedTransitionStatus env rows' i kCompleted else Status_Ok, rows'))"

definition MarkFailed :: "task_env \<Rightarrow> task_row list \<Rightarrow> string \<Rightarrow> string \<Rightarrow> string \<Rightarrow> string \<Rightarrow> Status \<times> task_row list" where
  "MarkFailed env rows i err msg data =
     (case run_update env QMarkFailed ''MarkFailed''
        (\<lambda>r. by_id i r \<and> (tr_status r = kProcessing \<or> tr_status r = kCancelling))
        (\<lambda>r. r\<lparr>tr_status := kFailed, tr_error_code := BindNullableText err, tr_error_msg := BindNullableText msg,
               tr_structured_data := BindNullableText data, tr_completed_at := Some (te_now env),
               tr_updated_at := te_now env\<rparr>) rows of
        (Inl s, rows') \<Rightarrow> (s, rows')
      | (Inr n, rows') \<Rightarrow> (if n = 0 then RejectedTransitionStatus env rows' i kFailed else Status_Ok, rows'))"

text \<open>On success the second component is the row \<open>*out\<close> receives.\<close>

definition RequestCancel :: "task_env \<Rightarrow> task_row list \<Rightarrow> string \<Rightarrow> TaskInfo task_result \<times> task_row list" where
  "RequestCancel env rows i =
     (if te_sql env QCancelSelect = PrepareFails
      then (Inl (F42Status kStorageFailed ''RequestCancel select prepare''), rows)
      else case select_row (te_sql env) QCancelSelect (by_id i) rows of
        None \<Rightarrow> (Inl (F42Status kTaskNotFound i), rows)
      | Some r \<Rightarrow>
          (let t = ReadRow r in
           if ti_status t \<noteq> kQueued \<and> ti_status t \<noteq> kProcessing
           then (Inl (F42Status kTaskCancelling (''task '' @ i @ '' status='' @ ti_status t)), rows)
           else
             let new_status = (if ti_status t = kQueued then kCancelled else kCancelling);
                 term = (new_status = kCancelled);
                 upd = (\<lambda>r. if term
                   then r\<lparr>tr_cancel_requested := True, tr_status := new_status, tr_completed_at := Some (te_now env),
                          tr_updated_at := te_now env\<rparr>
                   else r\<lparr>tr_cancel_requested := True, tr_status := new_status, tr_updated_at := te_now env\<rparr>)
             in if te_sql env QCancelUpdate = PrepareFails
                then (Inl (F42Status kStorageFailed ''RequestCancel update prepare''), rows)
                else if te_sql env QCancelUpdate = StepFails
                then (Inl (F42Status kStorageFailed ''RequestCancel step''), rows)
                else
                  (Inr (let t = t\<lparr>ti_cancel_requested := True, ti_status := new_status, ti_updated_at := te_now env\<rparr>
                        in if term then t\<lparr>ti_completed_at := te_now env\<rparr> else t),
                   update_rows (by_id i) upd rows)))"

definition MarkCancelled :: "task_env \<Rightarrow> task_row list \<Rightarrow> string \<Rightarrow> Status \<times> task_row list" where
  "MarkCancelled env rows i =
     (case run_update env QMarkCancelled ''MarkCancelled''
        (\<lambda>r. by_id i r \<and> (tr_status r = kQueued \<or> tr_status r = kCancelling))
        (\<lambda>r. r\<lparr>tr_status := kCancelled, tr_completed_at := Some (te_now env), tr_updated_at := te_now env\<rparr>) rows of
        (Inl s, rows') \<Rightarrow> (s, rows')
      | (Inr n, rows') \<Rightarrow> (if n = 0 then RejectedTransitionStatus env rows' i kCancelled else Status_Ok, rows'))"

section \<open>Queries and updates of the scheduler\<close>

text \<open>\<open>ORDER BY created_at DESC LIMIT 1\<close> and \<open>ASC LIMIT 1\<close>.\<close>

fun newest_row :: "task_row list \<Rightarrow> task_row option" where
  "newest_row [] = None"
| "newest_row (r # rs) = (case newest_row rs of None \<Rightarrow> Some r
     | Some s \<Rightarrow> if tr_created_at s < tr_created_at r then Some r else Some s)"

fun oldest_row :: "task_row list \<Rightarrow> task_row option" where
  "oldest_row [] = None"
| "oldest_row (r # rs) = (case oldest_row rs of None \<Rightarrow> Some r
     | Some s \<Rightarrow> if tr_created_at s < tr_created_at r then Some s else Some r)"

definition debounce_candidate :: "string \<Rightarrow> string \<Rightarrow> int \<Rightarrow> string \<Rightarrow> task_row \<Rightarrow> bool" where
  "debounce_candidate ns doc ty cutoff r \<longleftrightarrow> tr_namespace_id r = ns \<and> tr_doc_id r = Some doc \<and> tr_task_type r = ty
     \<and> cutoff \<le> tr_created_at r \<and> tr_status r \<noteq> kCancelled \<and> tr_status r \<noteq> kCancelling \<and> tr_status r \<noteq> kFailed"

definition FindRecentTaskByDocId ::
  "task_env \<Rightarrow> task_row list \<Rightarrow> string \<Rightarrow> string \<Rightarrow> int \<Rightarrow> int \<Rightarrow> TaskInfo option task_result" where
  "FindRecentTaskByDocId env rows ns doc ty window =
     (if doc = [] then Inr None
      else if te_sql env QFindRecent = PrepareFails
      then Inl (F42Status kStorageFailed ''FindRecentTaskByDocId prepare'')
      else if te_sql env QFindRecent = StepFails then Inr None
      else Inr (map_option ReadRow
             (newest_row (filter (debounce_candidate ns doc ty (UnixToIso8601 (te_now_ms env div 1000 - window))) rows))))"

definition active_row :: "string \<Rightarrow> string \<Rightarrow> int \<Rightarrow> task_row \<Rightarrow> bool" where
  "active_row ns doc ty r \<longleftrightarrow> tr_namespace_id r = ns \<and> tr_doc_id r = Some doc \<and> tr_task_type r = ty
     \<and> (tr_status r = kQueued \<or> tr_status r = kProcessing \<or> tr_status r = kCancelling)"

definition tm_HasActiveTask :: "task_env \<Rightarrow> task_row list \<Rightarrow> string \<Rightarrow> string \<Rightarrow> int \<Rightarrow> bool task_result" where
  "tm_HasActiveTask env rows ns doc ty = (case te_sql env QHasActive of
      PrepareFails \<Rightarrow> Inl (F42Status kStorageFailed ''HasActiveTask prepare'')
    | StepFails \<Rightarrow> Inl (F42Status kStorageFailed ''HasActiveTask step'')
    | SqlOk \<Rightarrow> Inr (find (active_row ns doc ty) rows \<noteq> None))"

definition TryClaimDebounceMerge :: "task_env \<Rightarrow> task_row list \<Rightarrow> string \<Rightarrow> TaskInfo task_result \<times> task_row list" where
  "TryClaimDebounceMerge env rows i =
     (case run_update env QClaim ''TryClaimDebounceMerge''
        (\<lambda>r. by_id i r \<and> tr_status r \<noteq> kCancelled \<and> tr_status r \<noteq> kCancelling \<and> tr_status r \<noteq> kFailed)
        (\<lambda>r. r\<lparr>tr_updated_at := te_now env\<rparr>) rows of
        (Inl s, rows') \<Rightarrow> (Inl s, rows')
      | (Inr n, rows') \<Rightarrow>
          if n = 0 then (Inl (gone_or_moved env rows' i), rows')
          else if te_sql env QClaimRead = PrepareFails
          then (Inl (F42Status kStorageFailed ''TryClaimDebounceMerge select''), rows')
          else (case select_row (te_sql env) QClaimRead (by_id i) rows' of
                  None \<Rightarrow> (Inl (F42Status kTaskNotFound i), rows')
                | Some r \<Rightarrow> (Inr (ReadRow r), rows')))"

text \<open>The refresh of a queued row; the resolved path column is not among the columns it sets.\<close>

definition refresh_row :: "task_env \<Rightarrow> SubmitRequest \<Rightarrow> task_row \<Rightarrow> task_row" where
  "refresh_row env req r = r\<lparr>tr_content_hash := BindNullableText (sr_content_hash req), tr_filepath := sr_filepath req,
     tr_total_pages := sr_total_pages req, tr_status := kQueued, tr_processed_pages := 0, tr_failed_pages := [],
     tr_progress_pct := 0, tr_eta_seconds := -1, tr_current_phase := None, tr_worker_id := None,
     tr_error_code := None, tr_error_msg := None, tr_structured_data := None, tr_started_at := None,
     tr_completed_at := None, tr_cancel_requested := False, tr_updated_at := te_now env\<rparr>"

text \<open>
  The mutex is given up between the update and the query that reads the row back: \<open>gap\<close> is what other threads do to the table there.
\<close>

definition UpdateTaskForDebounce ::
  "task_env \<Rightarrow> (task_row list \<Rightarrow> task_row list) \<Rightarrow> task_row list \<Rightarrow> string \<Rightarrow> SubmitRequest \<Rightarrow> TaskInfo task_result \<times> task_row list" where
  "UpdateTaskForDebounce env gap rows i req =
     (case run_update env QDebounce ''UpdateTaskForDebounce'' (\<lambda>r. by_id i r \<and> tr_status r = kQueued)
        (refresh_row env req) rows of
        (Inl s, rows') \<Rightarrow> (Inl s, rows')
      | (Inr n, rows') \<Rightarrow> if n = 0 then (Inl (gone_or_moved env rows' i), rows')
                         else let rows'' = gap rows' in (GetTask env rows'' i, rows''))"

definition eligible :: "(string \<times> string) list \<Rightarrow> task_row \<Rightarrow> bool" where
  "eligible active r \<longleftrightarrow> tr_status r = kQueued
     \<and> (\<forall>(ns, doc) \<in> set active. tr_doc_id r = None \<or> \<not> (tr_namespace_id r = ns \<and> tr_doc_id r = Some doc))"

definition SelectOldestQueuedTaskExcluding ::
  "task_env \<Rightarrow> task_row list \<Rightarrow> (string \<times> string) list \<Rightarrow> TaskInfo option task_result" where
  "SelectOldestQueuedTaskExcluding env rows active =
     (if te_sql env QSelectOldest = PrepareFails
      then Inl (F42Status kStorageFailed ''SelectOldestQueuedTaskExcluding prepare'')
      else if te_sql env QSelectOldest = StepFails then Inr None
      else Inr (map_option ReadRow (oldest_row (filter (eligible active) rows))))"

section \<open>Cleanup\<close>

definition DeleteExpired :: "task_env \<Rightarrow> task_row list \<Rightarrow> int \<Rightarrow> int \<Rightarrow> nat task_result \<times> task_row list" where
  "DeleteExpired env rows now_unix retention_days =
     (let old = (\<lambda>r. terminal (tr_status r) \<and> tr_updated_at r < UnixToIso8601 (now_unix - retention_days * 86400))
      in case te_sql env QDeleteExpired of
           PrepareFails \<Rightarrow> (Inl (F42Status kStorageFailed ''DeleteExpired prepare''), rows)
         | StepFails \<Rightarrow> (Inl (F42Status kStorageFailed ''DeleteExpired step''), rows)
         | SqlOk \<Rightarrow> (Inr (changes old rows), filter (\<lambda>r. \<not> old r) rows))"

definition fail_row :: "task_env \<Rightarrow> string \<Rightarrow> string \<Rightarrow> task_row \<Rightarrow> task_row" where
  "fail_row env err msg r = r\<lparr>tr_status := kFailed, tr_error_code := Some err, tr_error_msg := Some msg,
     tr_completed_at := Some (te_now env), tr_updated_at := te_now env\<rparr>"

definition SweepZombies :: "task_env \<Rightarrow> task_row list \<Rightarrow> int \<Rightarrow> int \<Rightarrow> nat task_result \<times> task_row list" where
  "SweepZombies env rows now_unix zombie_hours =
     run_update env QSweepZombies ''SweepZombies''
       (\<lambda>r. tr_status r = kProcessing \<and> tr_updated_at r < UnixToIso8601 (now_unix - zombie_hours * 3600))
       (fail_row env ''CX_ERR_ZOMBIE_TASK_CLEANUP'' ''Worker presumed crashed.'') rows"

definition SweepTimedOut :: "task_env \<Rightarrow> task_row list \<Rightarrow> int \<Rightarrow> int \<Rightarrow> nat task_result \<times> task_row list" where
  "SweepTimedOut env rows now_unix timeout_seconds =
     run_update env QSweepTimedOut ''SweepTimedOut''
       (\<lambda>r. tr_status r = kProcessing \<and>
            (case tr_started_at r of None \<Rightarrow> False | Some s \<Rightarrow> s < UnixToIso8601 (now_unix - timeout_seconds)))
       (fail_row env ''CX_ERR_TASK_TIMEOUT'' ''Task exceeded processing timeout.'') rows"

definition RequeueStaleProcessing :: "task_env \<Rightarrow> task_row list \<Rightarrow> int \<Rightarrow> int \<Rightarrow> nat task_result \<times> task_row list" where
  "RequeueStaleProcessing env rows now_unix zombie_hours =
     run_update env QRequeueStale ''RequeueStaleProcessing''
       (\<lambda>r. tr_status r = kProcessing \<and> UnixToIso8601 (now_unix - zombie_hours * 3600) \<le> tr_updated_at r)
       (\<lambda>r. r\<lparr>tr_status := kQueued, tr_worker_id := None, tr_started_at := None, tr_updated_at := te_now env\<rparr>) rows"

section \<open>Inputs of live tasks\<close>

definition references :: "string \<Rightarrow> string \<Rightarrow> task_row \<Rightarrow> bool" where
  "references canonical exclude r \<longleftrightarrow> tr_filepath_canonical r = Some canonical \<and> tr_task_id r \<noteq> exclude
     \<and> \<not> terminal (tr_status r)"

definition unresolved :: "string \<Rightarrow> task_row \<Rightarrow> bool" where
  "unresolved exclude r \<longleftrightarrow> tr_filepath_canonical r = None \<and> tr_filepath r \<noteq> [] \<and> tr_task_id r \<noteq> exclude
     \<and> \<not> terminal (tr_status r)"

text \<open>\<open>release\<close> is called under the mutex; its effect is on the files, \<open>'f\<close>, and it answers whether it removed one.\<close>

definition ReleaseInputIfUnreferenced ::
  "task_env \<Rightarrow> task_row list \<Rightarrow> string \<Rightarrow> string \<Rightarrow> ('f \<Rightarrow> bool \<times> 'f) \<Rightarrow> 'f \<Rightarrow> bool task_result \<times> 'f" where
  "ReleaseInputIfUnreferenced env rows canonical exclude release fs =
     (if canonical = [] then (Inr False, fs)
      else case te_sql env QReferenced of
        PrepareFails \<Rightarrow> (Inl (F42Status kStorageFailed ''ReleaseInputIfUnreferenced prepare''), fs)
      | StepFails \<Rightarrow> (Inl (F42Status kStorageFailed ''ReleaseInputIfUnreferenced step''), fs)
      | SqlOk \<Rightarrow>
          if find (references canonical exclude) rows \<noteq> None then (Inr False, fs)
          else case te_sql env QUnresolved of
            PrepareFails \<Rightarrow> (Inl (F42Status kStorageFailed ''ReleaseInputIfUnreferenced guard prepare''), fs)
          | StepFails \<Rightarrow> (Inl (F42Status kStorageFailed ''ReleaseInputIfUnreferenced guard step''), fs)
          | SqlOk \<Rightarrow>
              if find (unresolved exclude) rows \<noteq> None then (Inr False, fs)
              else (case release fs of (b, fs') \<Rightarrow> (Inr b, fs')))"

definition LiveTaskInputs :: "task_env \<Rightarrow> task_row list \<Rightarrow> (string \<times> string) list task_result" where
  "LiveTaskInputs env rows = (case te_sql env QLiveInputs of
      PrepareFails \<Rightarrow> Inl (F42Status kStorageFailed ''LiveTaskInputs prepare'')
    | StepFails \<Rightarrow> Inl (F42Status kStorageFailed ''LiveTaskInputs step'')
    | SqlOk \<Rightarrow> Inr (map (\<lambda>r. (tr_task_id r, tr_filepath r))
                    (filter (\<lambda>r. \<not> terminal (tr_status r) \<and> tr_filepath r \<noteq> []) rows)))"

definition CountAll :: "task_env \<Rightarrow> task_row list \<Rightarrow> nat task_result" where
  "CountAll env rows = (case te_sql env QCountAll of
      PrepareFails \<Rightarrow> Inl (F42Status kStorageFailed ''CountAll prepare'')
    | StepFails \<Rightarrow> Inr 0
    | SqlOk \<Rightarrow> Inr (length rows))"

section \<open>An environment in which nothing fails\<close>

definition plain_env :: "int \<Rightarrow> string \<Rightarrow> task_env" where
  "plain_env now ulid = \<lparr>te_sql = sql_good, te_errmsg = [], te_now_ms = now, te_ulid = ulid, te_canonical = Some\<rparr>"

text \<open>A row with a given identifier, status, path and creation time, for examples.\<close>

definition sample_row :: "string \<Rightarrow> string \<Rightarrow> string \<Rightarrow> string \<Rightarrow> task_row" where
  "sample_row i st path created = \<lparr>tr_task_id = i, tr_namespace_id = ''ns'', tr_filename = ''f'', tr_filepath = path,
     tr_doc_id = Some ''doc'', tr_content_hash = Some ''h'', tr_status = st, tr_task_type = 1,
     tr_cancel_requested = False, tr_total_pages = 1, tr_processed_pages = 0, tr_failed_pages = [],
     tr_progress_pct = 0, tr_eta_seconds = -1, tr_current_phase = None, tr_worker_id = None, tr_trace_id = None,
     tr_error_code = None, tr_error_msg = None, tr_structured_data = None, tr_created_at = created,
     tr_updated_at = created, tr_started_at = None, tr_completed_at = None, tr_metadata_json = None,
     tr_filepath_canonical = Some path\<rparr>"

end
