(* ===== verification/Task_Lifecycle.thy ===== *)
theory Task_Lifecycle
  imports Task_Table
begin

text \<open>
  The life of a task row under every operation of the task manager: which status changes are possible, what is kept of a
  finished task and what each operation answers.  \<open>task_apply\<close> is one call of the manager, by any thread and under any
  outcome of its statements.
\<close>

section \<open>Calls of the manager\<close>

datatype task_op =
    OpInit task_env
  | OpCreate task_env TaskInfo
  | OpProgress task_env TaskInfo
  | OpProcessing task_env string int
  | OpCompleted task_env string string
  | OpFailed task_env string string string string
  | OpCancel task_env string
  | OpCancelled task_env string
  | OpClaim task_env string
  | OpRefresh task_env string SubmitRequest
  | OpDelete task_env int int
  | OpZombies task_env int int
  | OpTimedOut task_env int int
  | OpRequeue task_env int int

fun task_apply :: "task_op \<Rightarrow> task_row list \<Rightarrow> task_row list" where
  "task_apply (OpInit env) rows = BackfillCanonicalInputsLocked env rows"
| "task_apply (OpCreate env t) rows = snd (CreateTask env rows t)"
| "task_apply (OpProgress env t) rows = snd (UpdateProgress env rows t)"
| "task_apply (OpProcessing env i w) rows = snd (MarkProcessing env rows i w)"
| "task_apply (OpCompleted env i doc) rows = snd (MarkCompleted env rows i doc)"
| "task_apply (OpFailed env i err msg data) rows = snd (MarkFailed env rows i err msg data)"
| "task_apply (OpCancel env i) rows = snd (RequestCancel env rows i)"
| "task_apply (OpCancelled env i) rows = snd (MarkCancelled env rows i)"
| "task_apply (OpClaim env i) rows = snd (TryClaimDebounceMerge env rows i)"
| "task_apply (OpRefresh env i req) rows = snd (UpdateTaskForDebounce env (\<lambda>r. r) rows i req)"
| "task_apply (OpDelete env now days) rows = snd (DeleteExpired env rows now days)"
| "task_apply (OpZombies env now hours) rows = snd (SweepZombies env rows now hours)"
| "task_apply (OpTimedOut env now secs) rows = snd (SweepTimedOut env rows now secs)"
| "task_apply (OpRequeue env now hours) rows = snd (RequeueStaleProcessing env rows now hours)"

section \<open>Evolution of rows\<close>

definition tasks_wf :: "task_row list \<Rightarrow> bool" where
  "tasks_wf rows \<longleftrightarrow> distinct (map tr_task_id rows) \<and> (\<forall>r \<in> set rows. tr_status r \<in> set task_statuses)"

definition status_edges :: "(string \<times> string) list" where
  "status_edges = [(kQueued, kProcessing), (kQueued, kCancelled), (kProcessing, kCompleted), (kProcessing, kFailed),
     (kProcessing, kCancelling), (kProcessing, kQueued), (kCancelling, kCompleted), (kCancelling, kFailed),
     (kCancelling, kCancelled)]"

definition outcome :: "task_row \<Rightarrow> string \<times> string option \<times> string option \<times> string option \<times> string option \<times> string option" where
  "outcome r = (tr_status r, tr_doc_id r, tr_error_code r, tr_error_msg r, tr_structured_data r, tr_completed_at r)"

definition identity :: "task_row \<Rightarrow> string \<times> string \<times> string \<times> int \<times> string \<times> string option \<times> string option" where
  "identity r = (tr_task_id r, tr_namespace_id r, tr_filename r, tr_task_type r, tr_created_at r, tr_trace_id r, tr_metadata_json r)"

definition row_evolves :: "task_row \<Rightarrow> task_row \<Rightarrow> bool" where
  "row_evolves r r' \<longleftrightarrow> identity r' = identity r
     \<and> (tr_status r' = tr_status r \<or> (tr_status r, tr_status r') \<in> set status_edges)
     \<and> (terminal (tr_status r) \<longrightarrow> outcome r' = outcome r)"

definition evolves :: "task_row list \<Rightarrow> task_row list \<Rightarrow> bool" where
  "evolves rows rows' \<longleftrightarrow> tasks_wf rows' \<and> (\<forall>r \<in> set rows. \<exists>r' \<in> set rows'. row_evolves r r')"

lemmas row_simps = row_evolves_def identity_def outcome_def status_edges_def task_statuses_def terminal_def by_id_def

lemma row_evolves_refl [simp]: "row_evolves r r"
  by (simp add: row_evolves_def)

lemma row_stays: "r \<in> S \<Longrightarrow> \<exists>r' \<in> S. row_evolves r r'"
  using row_evolves_refl by blast

lemma evolves_refl: "tasks_wf rows \<Longrightarrow> evolves rows rows"
  by (auto simp: evolves_def intro: row_stays)

lemma evolves_insert: "tasks_wf rows \<Longrightarrow> insert_allowed r rows \<Longrightarrow> evolves rows (rows @ [r])"
  by (auto simp: evolves_def insert_allowed_def tasks_wf_def intro: row_stays)

lemma identity_task_id: "identity r' = identity r \<Longrightarrow> tr_task_id r' = tr_task_id r"
  by (simp add: identity_def)

lemma evolves_update:
  assumes wf: "tasks_wf rows"
    and legal: "\<And>r. r \<in> set rows \<Longrightarrow> P r \<Longrightarrow> row_evolves r (f r) \<and> tr_status (f r) \<in> set task_statuses"
  shows "evolves rows (update_rows P f rows)"
proof -
  have "map tr_task_id (update_rows P f rows) = map tr_task_id rows"
  proof -
    have "tr_task_id (if P r then f r else r) = tr_task_id r" if "r \<in> set rows" for r
      using legal[OF that] identity_task_id[of "f r" r] by (simp add: row_evolves_def)
    then show ?thesis by (simp add: update_rows_def)
  qed
  moreover have "r' \<in> set (update_rows P f rows) \<Longrightarrow> tr_status r' \<in> set task_statuses" for r'
    using wf legal unfolding tasks_wf_def set_update_rows by (auto split: if_splits)
  moreover have "\<exists>r' \<in> set (update_rows P f rows). row_evolves r r'" if "r \<in> set rows" for r
    using that legal[of r] unfolding update_rows_def by (cases "P r") force+
  ultimately show ?thesis using wf by (simp add: evolves_def tasks_wf_def)
qed

lemma evolves_run_update:
  assumes "tasks_wf rows"
    and "\<And>r. r \<in> set rows \<Longrightarrow> P r \<Longrightarrow> row_evolves r (f r) \<and> tr_status (f r) \<in> set task_statuses"
  shows "evolves rows (snd (run_update env q what P f rows))"
  using evolves_update[OF assms] evolves_refl[OF assms(1)] by (simp add: run_update_def split: sql_outcome.split)

lemma by_id_unique: "tasks_wf rows \<Longrightarrow> r \<in> set rows \<Longrightarrow> r' \<in> set rows \<Longrightarrow> tr_task_id r' = tr_task_id r \<Longrightarrow> r' = r"
  by (auto simp: tasks_wf_def distinct_map dest: inj_onD)

lemma find_by_id: "find (by_id i) rows = Some r \<Longrightarrow> r \<in> set rows \<and> tr_task_id r = i"
  by (auto simp: find_Some_iff by_id_def)

lemma find_by_id_iff: "tasks_wf rows \<Longrightarrow> find (by_id i) rows = Some r \<longleftrightarrow> r \<in> set rows \<and> tr_task_id r = i"
proof
  assume wf: "tasks_wf rows" and r: "r \<in> set rows \<and> tr_task_id r = i"
  then obtain r' where "find (by_id i) rows = Some r'"
    by (cases "find (by_id i) rows") (auto simp: find_None_iff by_id_def)
  with wf r show "find (by_id i) rows = Some r" using find_by_id by_id_unique by metis
qed (rule find_by_id)

text \<open>The rows after a two-stage call are those of its update.\<close>

lemma snd_after_update:
  "snd (case p of (Inl s, rows') \<Rightarrow> (F s, rows') | (Inr n, rows') \<Rightarrow> (G n rows', rows')) = snd p"
  by (auto split: prod.splits sum.splits)

lemma snd_case_update:
  "(\<And>n rows'. snd (G n rows') = rows') \<Longrightarrow>
   snd (case p of (Inl s, rows') \<Rightarrow> (F s, rows') | (Inr n, rows') \<Rightarrow> G n rows') = snd p"
  by (auto split: prod.splits sum.splits)

section \<open>Every call\<close>

lemma backfill_strips:
  "map (tr_filepath_canonical_update (\<lambda>_. None)) (BackfillCanonicalInputsLocked env rows)
   = map (tr_filepath_canonical_update (\<lambda>_. None)) rows"
proof -
  have one: "map (tr_filepath_canonical_update (\<lambda>_. None)) (backfill_one env p rs)
      = map (tr_filepath_canonical_update (\<lambda>_. None)) rs" for p rs
    by (simp add: backfill_one_def map_update_rows split: option.split)
  have "map (tr_filepath_canonical_update (\<lambda>_. None)) (fold (backfill_one env) ps rs)
      = map (tr_filepath_canonical_update (\<lambda>_. None)) rs" for ps rs
    by (induction ps arbitrary: rs) (simp_all add: one)
  then show ?thesis by (simp add: BackfillCanonicalInputsLocked_def)
qed

lemma evolves_stripped:
  assumes "map (tr_filepath_canonical_update (\<lambda>_. None)) rows' = map (tr_filepath_canonical_update (\<lambda>_. None)) rows"
    and "tasks_wf rows"
  shows "evolves rows rows'"
proof -
  let ?s = "tr_filepath_canonical_update (\<lambda>_. None)"
  have p: "tr_task_id (?s r) = tr_task_id r" "tr_status (?s r) = tr_status r" "identity (?s r) = identity r"
    "outcome (?s r) = outcome r" for r
    by (simp_all add: identity_def outcome_def)
  have "map tr_task_id (map ?s rows') = map tr_task_id (map ?s rows)" by (simp only: assms(1))
  moreover have "map tr_status (map ?s rows') = map tr_status (map ?s rows)" by (simp only: assms(1))
  ultimately have "map tr_task_id rows' = map tr_task_id rows" "map tr_status rows' = map tr_status rows"
    by (simp_all add: comp_def p)
  then have "tasks_wf rows'" using assms(2) by (metis (no_types, lifting) image_iff list.set_map tasks_wf_def)
  moreover have "\<exists>r' \<in> set rows'. row_evolves r r'" if "r \<in> set rows" for r
  proof -
    have "?s r \<in> set (map ?s rows')" using that assms(1) by simp
    then obtain r' where "r' \<in> set rows'" "?s r = ?s r'" by auto
    then show ?thesis using p unfolding row_evolves_def by metis
  qed
  ultimately show ?thesis by (simp add: evolves_def)
qed

lemma evolves_create: "tasks_wf rows \<Longrightarrow> evolves rows (snd (CreateTask env rows t))"
  unfolding CreateTask_def Let_def using evolves_refl evolves_insert by simp

lemma evolves_cancel:
  assumes "tasks_wf rows"
  shows "evolves rows (snd (RequestCancel env rows i))"
proof -
  note one = by_id_unique[OF assms] find_by_id[of i rows]
  have "evolves rows (update_rows (by_id i) f rows)"
    if "find (by_id i) rows = Some r" "row_evolves r (f r)" "tr_status (f r) \<in> set task_statuses" for r f
    using that one by (intro evolves_update[OF assms]) (auto simp: by_id_def)
  note upd = this
  show ?thesis
  proof (cases "select_row (te_sql env) QCancelSelect (by_id i) rows")
    case None
    then show ?thesis unfolding RequestCancel_def by (simp add: evolves_refl[OF assms])
  next
    case (Some r)
    then have f: "find (by_id i) rows = Some r" by (simp add: select_row_def split: if_splits)
    consider "tr_status r = kQueued" | "tr_status r = kProcessing" | "tr_status r \<noteq> kQueued" "tr_status r \<noteq> kProcessing"
      by blast
    then show ?thesis
    proof cases
      case 1
      have "evolves rows (update_rows (by_id i) (\<lambda>r. r\<lparr>tr_cancel_requested := True, tr_status := kCancelled,
          tr_completed_at := Some (te_now env), tr_updated_at := te_now env\<rparr>) rows)"
        by (rule upd[OF f]) (simp_all add: row_simps 1)
      then show ?thesis using Some 1 by (simp add: RequestCancel_def ReadRow_def Let_def evolves_refl[OF assms])
    next
      case 2
      have "evolves rows (update_rows (by_id i) (\<lambda>r. r\<lparr>tr_cancel_requested := True, tr_status := kCancelling,
          tr_updated_at := te_now env\<rparr>) rows)"
        by (rule upd[OF f]) (simp_all add: row_simps 2)
      then show ?thesis using Some 2 by (simp add: RequestCancel_def ReadRow_def Let_def evolves_refl[OF assms])
    qed (use Some in \<open>simp add: RequestCancel_def ReadRow_def Let_def evolves_refl[OF assms]\<close>)
  qed
qed

lemma evolves_delete:
  assumes "tasks_wf rows" "evolves rows rows"
  shows "tasks_wf (snd (DeleteExpired env rows now days))
    \<and> (\<forall>r \<in> set rows. (\<exists>r' \<in> set (snd (DeleteExpired env rows now days)). row_evolves r r')
        \<or> terminal (tr_status r) \<and> tr_updated_at r < UnixToIso8601 (now - days * 86400))"
  using assms
  by (auto simp: DeleteExpired_def Let_def tasks_wf_def distinct_map inj_on_def intro: row_stays
      split: sql_outcome.split)

lemmas op_defs = UpdateProgress_def MarkProcessing_def MarkCompleted_def MarkFailed_def MarkCancelled_def
  TryClaimDebounceMerge_def UpdateTaskForDebounce_def SweepZombies_def SweepTimedOut_def RequeueStaleProcessing_def

lemma evolves_op:
  assumes wf: "tasks_wf rows" and "\<And>env now days. op \<noteq> OpDelete env now days"
  shows "evolves rows (task_apply op rows)"
proof -
  have st: "r \<in> set rows \<Longrightarrow> tr_status r \<in> set task_statuses" for r using wf by (simp add: tasks_wf_def)
  show ?thesis
  proof (cases op)
    case (OpInit env)
    then show ?thesis using evolves_stripped[OF backfill_strips wf] by simp
  next
    case (OpProgress env t)
    show ?thesis unfolding OpProgress task_apply.simps UpdateProgress_def snd_after_update
      by (rule evolves_run_update[OF wf]) (use st in \<open>auto simp: row_simps\<close>)
  next
    case (OpProcessing env i w)
    show ?thesis unfolding OpProcessing task_apply.simps MarkProcessing_def snd_after_update
      by (rule evolves_run_update[OF wf]) (auto simp: row_simps)
  next
    case (OpCompleted env i doc)
    show ?thesis unfolding OpCompleted task_apply.simps MarkCompleted_def snd_after_update
      by (rule evolves_run_update[OF wf]) (auto simp: row_simps)
  next
    case (OpFailed env i err msg data)
    show ?thesis unfolding OpFailed task_apply.simps MarkFailed_def snd_after_update
      by (rule evolves_run_update[OF wf]) (auto simp: row_simps)
  next
    case (OpCancelled env i)
    show ?thesis unfolding OpCancelled task_apply.simps MarkCancelled_def snd_after_update
      by (rule evolves_run_update[OF wf]) (auto simp: row_simps)
  next
    case (OpClaim env i)
    have "evolves rows (snd (run_update env QClaim ''TryClaimDebounceMerge''
        (\<lambda>r. by_id i r \<and> tr_status r \<noteq> kCancelled \<and> tr_status r \<noteq> kCancelling \<and> tr_status r \<noteq> kFailed)
        (\<lambda>r. r\<lparr>tr_updated_at := te_now env\<rparr>) rows))"
      by (rule evolves_run_update[OF wf]) (use st in \<open>auto simp: row_simps\<close>)
    then show ?thesis unfolding OpClaim task_apply.simps TryClaimDebounceMerge_def
      by (subst snd_case_update) (auto split: option.split)
  next
    case (OpRefresh env i req)
    have "evolves rows (snd (run_update env QDebounce ''UpdateTaskForDebounce'' (\<lambda>r. by_id i r \<and> tr_status r = kQueued)
        (refresh_row env req) rows))"
      by (rule evolves_run_update[OF wf]) (auto simp: row_simps refresh_row_def)
    then show ?thesis unfolding OpRefresh task_apply.simps UpdateTaskForDebounce_def
      by (subst snd_case_update) auto
  next
    case (OpZombies env now hours)
    show ?thesis unfolding OpZombies task_apply.simps SweepZombies_def
      by (rule evolves_run_update[OF wf]) (auto simp: row_simps fail_row_def)
  next
    case (OpTimedOut env now secs)
    show ?thesis unfolding OpTimedOut task_apply.simps SweepTimedOut_def
      by (rule evolves_run_update[OF wf]) (auto simp: row_simps fail_row_def)
  next
    case (OpRequeue env now hours)
    show ?thesis unfolding OpRequeue task_apply.simps RequeueStaleProcessing_def
      by (rule evolves_run_update[OF wf]) (auto simp: row_simps)
  qed (use assms(2) evolves_create[OF wf] evolves_cancel[OF wf] in auto)
qed

lemma tasks_wf_op: "tasks_wf rows \<Longrightarrow> tasks_wf (task_apply op rows)"
  using evolves_op[of rows op] evolves_delete[of rows] evolves_refl[of rows] by (cases op) (auto simp: evolves_def)

section \<open>The state machine\<close>

text \<open>
  C25: the state machine of tasks.  In every table with distinct identifiers and the six statuses, whatever manager call
  runs and however its statements come out, the table stays of that kind and every row is still there with the same
  identity (identifier, namespace, file name, type, creation time, trace, metadata) and a status that is unchanged or
  reached over one of the nine edges \<open>queued\<close> to \<open>processing\<close> or \<open>cancelled\<close>, \<open>processing\<close> to \<open>completed\<close>, \<open>failed\<close>,
  \<open>cancelling\<close> or back to \<open>queued\<close>, \<open>cancelling\<close> to \<open>completed\<close>, \<open>failed\<close> or \<open>cancelled\<close>; a finished row keeps its outcome.
  Only the deletion of expired tasks removes a row, and only a finished one last touched before the cutoff.
\<close>
theorem task_state_machine:
  assumes "tasks_wf rows"
  shows "tasks_wf (task_apply op rows)
    \<and> (\<forall>r \<in> set rows. (\<exists>r' \<in> set (task_apply op rows). row_evolves r r')
        \<or> (\<exists>env now days. op = OpDelete env now days \<and> terminal (tr_status r)
              \<and> tr_updated_at r < UnixToIso8601 (now - days * 86400)))"
proof (cases "\<exists>env now days. op = OpDelete env now days")
  case True
  then obtain env now days where op: "op = OpDelete env now days" by blast
  show ?thesis using evolves_delete[OF assms evolves_refl[OF assms], of env now days] unfolding op task_apply.simps by blast
next
  case False
  then show ?thesis using evolves_op[OF assms, of op] by (auto simp: evolves_def)
qed

definition witness_table :: "task_row list" where
  "witness_table = [sample_row ''a'' kProcessing ''/d/x'' ''1'', sample_row ''b'' kCancelled ''/d/y'' ''2'']"

lemma witness_table_wf: "tasks_wf witness_table"
  by (simp add: witness_table_def sample_row_def tasks_wf_def task_statuses_def)

theorem task_state_machine_witness:
  "tasks_wf (task_apply (OpCompleted (plain_env 5000 []) ''a'' ''doc'') witness_table)"
  using task_state_machine[OF witness_table_wf] by blast

lemma outcome_run:
  assumes "\<forall>op \<in> set ops. \<not> (\<exists>env now days. op = OpDelete env now days)" "tasks_wf rows" "r \<in> set rows" "terminal (tr_status r)"
  shows "\<exists>r' \<in> set (fold task_apply ops rows). identity r' = identity r \<and> outcome r' = outcome r"
  using assms
proof (induction ops arbitrary: rows r)
  case (Cons op ops)
  obtain r1 where r1: "r1 \<in> set (task_apply op rows)" "row_evolves r r1"
    using evolves_op[OF Cons.prems(2), of op] Cons.prems(1,3) by (auto simp: evolves_def)
  then have o: "identity r1 = identity r" "outcome r1 = outcome r" using Cons.prems(4) by (auto simp: row_evolves_def)
  then have "terminal (tr_status r1)" using Cons.prems(4) by (simp add: outcome_def)
  then show ?case using Cons.IH[OF _ tasks_wf_op[OF Cons.prems(2)] r1(1)] Cons.prems(1) o by simp
qed auto

text \<open>
  A finished task stays finished.  A row that is \<open>completed\<close>, \<open>failed\<close> or \<open>cancelled\<close> keeps its identity, status, document,
  error and completion time through every sequence of manager calls other than the deletion of expired tasks: progress
  reports, late completions, cancels, refreshes, sweeps and recovery leave them.
\<close>

theorem finished_task_final:
  assumes "tasks_wf rows" "r \<in> set rows" "terminal (tr_status r)"
    and "\<forall>op \<in> set ops. \<not> (\<exists>env now days. op = OpDelete env now days)"
  shows "\<exists>r' \<in> set (fold task_apply ops rows). identity r' = identity r \<and> outcome r' = outcome r"
  using outcome_run[OF assms(4,1,2,3)] .

theorem finished_task_final_witness:
  "\<exists>r' \<in> set (fold task_apply [OpProcessing (plain_env 5000 []) ''b'' 1, OpCompleted (plain_env 6000 []) ''b'' ''doc''] witness_table).
     identity r' = identity (witness_table ! 1) \<and> outcome r' = outcome (witness_table ! 1)"
proof (rule finished_task_final[OF witness_table_wf])
  show "witness_table ! 1 \<in> set witness_table" by (simp add: witness_table_def)
  show "terminal (tr_status (witness_table ! 1))" by (simp add: witness_table_def sample_row_def terminal_def)
qed simp

lemma mark_completed_answers:
  assumes sql: "te_sql env = sql_good" and wf: "tasks_wf rows"
  shows "ok (fst (MarkCompleted env rows i doc)) = (\<exists>r \<in> set rows. tr_task_id r = i \<and> tr_status r \<in> {kProcessing, kCancelling})
      \<and> (code (fst (MarkCompleted env rows i doc)) = kNotFound) = (i \<notin> tr_task_id ` set rows)
      \<and> (code (fst (MarkCompleted env rows i doc)) = kAlreadyExists)
           = (\<exists>r \<in> set rows. tr_task_id r = i \<and> tr_status r \<notin> {kProcessing, kCancelling})"
proof (cases "\<exists>r \<in> set rows. tr_task_id r = i")
  case True
  then obtain r where r: "r \<in> set rows" "tr_task_id r = i" by blast
  have only: "x \<in> set rows \<and> tr_task_id x = i \<longleftrightarrow> x = r" for x
    using by_id_unique[OF wf r(1), of x] r by (intro iffI) simp_all
  have ex: "(\<exists>x \<in> set rows. tr_task_id x = i \<and> Q x) \<longleftrightarrow> Q r" for Q using only by metis
  have img: "i \<in> tr_task_id ` set rows" using r by force
  have ne: "tr_status r \<noteq> []" using wf r(1) by (auto simp: tasks_wf_def task_statuses_def)
  let ?P = "\<lambda>x. by_id i x \<and> (tr_status x = kProcessing \<or> tr_status x = kCancelling)"
  show ?thesis
  proof (cases "tr_status r \<in> {kProcessing, kCancelling}")
    case yes: True
    then have "changes ?P rows \<noteq> 0" using r by (auto simp: changes_0_iff by_id_def)
    then have "fst (MarkCompleted env rows i doc) = Status_Ok"
      by (simp add: MarkCompleted_def run_update_def sql sql_good_def)
    then show ?thesis using yes img unfolding ex by (simp add: Status_Ok_def ok_def)
  next
    case no: False
    then have u: "\<forall>x \<in> set rows. \<not> ?P x"
      using ex[of "\<lambda>x. tr_status x \<in> {kProcessing, kCancelling}"] by (auto simp: by_id_def)
    then have "fst (MarkCompleted env rows i doc) = RejectedTransitionStatus env rows i kCompleted"
      using changes_0_iff[of ?P rows] update_rows_id[OF u] by (simp add: MarkCompleted_def run_update_def sql sql_good_def)
    moreover have "find (by_id i) rows = Some r" using find_by_id_iff[OF wf] r by simp
    ultimately have "fst (MarkCompleted env rows i doc) = F42Status kDocProcessingInProgress
        (''task '' @ i @ '' status='' @ tr_status r @ '' cannot transition to '' @ kCompleted)"
      using ne by (simp add: RejectedTransitionStatus_def select_row_def sql sql_good_def)
    then show ?thesis using no img unfolding ex by simp
  qed
next
  case False
  then have n: "find (by_id i) rows = None" "\<forall>x \<in> set rows. \<not> by_id i x" by (auto simp: find_None_iff by_id_def)
  then have "fst (MarkCompleted env rows i doc) = F42Status kTaskNotFound i"
    by (simp add: MarkCompleted_def run_update_def sql sql_good_def changes_0_iff update_rows_id
        RejectedTransitionStatus_def select_row_def)
  then show ?thesis using False by auto
qed

text \<open>
  A call that is not acknowledged changed nothing.  \<open>MarkProcessing\<close>, \<open>MarkCompleted\<close>, \<open>MarkFailed\<close>, \<open>MarkCancelled\<close>,
  \<open>RequestCancel\<close> and \<open>CreateTask\<close> either answer with success or leave the table as it is, for every outcome of their
  statements; and when the statements succeed, a completion is acknowledged exactly when the row was \<open>processing\<close> or
  \<open>cancelling\<close>, answered \<open>kNotFound\<close> when there is no such row, and \<open>kAlreadyExists\<close> otherwise.
\<close>

theorem unacknowledged_changes_nothing:
  "(\<not> ok (fst (MarkProcessing env rows i w)) \<longrightarrow> snd (MarkProcessing env rows i w) = rows)
   \<and> (\<not> ok (fst (MarkCompleted env rows i doc)) \<longrightarrow> snd (MarkCompleted env rows i doc) = rows)
   \<and> (\<not> ok (fst (MarkFailed env rows i err msg data)) \<longrightarrow> snd (MarkFailed env rows i err msg data) = rows)
   \<and> (\<not> ok (fst (MarkCancelled env rows i)) \<longrightarrow> snd (MarkCancelled env rows i) = rows)
   \<and> (\<forall>s. fst (RequestCancel env rows i) = Inl s \<longrightarrow> snd (RequestCancel env rows i) = rows)
   \<and> (\<forall>s. fst (CreateTask env rows t) = Inl s \<longrightarrow> snd (CreateTask env rows t) = rows)
   \<and> (te_sql env = sql_good \<and> tasks_wf rows \<longrightarrow>
        ok (fst (MarkCompleted env rows i doc)) = (\<exists>r \<in> set rows. tr_task_id r = i \<and> tr_status r \<in> {kProcessing, kCancelling})
        \<and> (code (fst (MarkCompleted env rows i doc)) = kNotFound) = (i \<notin> tr_task_id ` set rows)
        \<and> (code (fst (MarkCompleted env rows i doc)) = kAlreadyExists)
           = (\<exists>r \<in> set rows. tr_task_id r = i \<and> tr_status r \<notin> {kProcessing, kCancelling}))"
proof -
  have upd: "snd p = rows" if p: "p = (case run_update env q what P f rows of (Inl s, rows') \<Rightarrow> (s, rows')
      | (Inr n, rows') \<Rightarrow> (if n = 0 then G rows' else Status_Ok, rows'))" and "\<not> ok (fst p)" for p q what P f G
    using that by (auto simp: run_update_def changes_0_iff update_rows_id split: sql_outcome.splits if_splits)
  have cancel: "fst (RequestCancel env rows i) = Inl s \<Longrightarrow> snd (RequestCancel env rows i) = rows" for s
    unfolding RequestCancel_def Let_def by (auto split: if_splits option.splits)
  have create: "fst (CreateTask env rows t) = Inl s \<Longrightarrow> snd (CreateTask env rows t) = rows" for s
    unfolding CreateTask_def Let_def by (auto split: if_splits)
  show ?thesis
    using upd[OF MarkProcessing_def] upd[OF MarkCompleted_def] upd[OF MarkFailed_def] upd[OF MarkCancelled_def]
      cancel create mark_completed_answers by blast
qed

theorem unacknowledged_changes_nothing_witness:
  "code (fst (MarkCompleted (plain_env 5000 []) witness_table ''b'' ''doc'')) = kAlreadyExists
     \<and> snd (MarkCompleted (plain_env 5000 []) witness_table ''b'' ''doc'') = witness_table"
proof -
  have sql: "te_sql (plain_env 5000 []) = sql_good" by (simp add: plain_env_def)
  have b: "\<exists>r \<in> set witness_table. tr_task_id r = ''b'' \<and> tr_status r \<notin> {kProcessing, kCancelling}"
    by (simp add: witness_table_def sample_row_def)
  note t = unacknowledged_changes_nothing[of "plain_env 5000 []" witness_table "''b''" 0 "''doc''" "[]" "[]" "[]" TaskInfo_default]
  then have c: "code (fst (MarkCompleted (plain_env 5000 []) witness_table ''b'' ''doc'')) = kAlreadyExists"
    using sql witness_table_wf b by blast
  then have "\<not> ok (fst (MarkCompleted (plain_env 5000 []) witness_table ''b'' ''doc''))" by (simp add: ok_def)
  then show ?thesis using t c by blast
qed

end
