(* ===== verification/Task_Service.thy ===== *)
theory Task_Service
  imports Task_Lifecycle
begin

text \<open>
  The components on top of the task table: release of server-owned input files (\<^verbatim>\<open>src/async/managed_input.cpp\<close>), the
  scheduler (\<^verbatim>\<open>src/async/task_scheduler.cpp\<close>), the finalizer (\<^verbatim>\<open>src/async/task_finalizer.cpp\<close>), the document
  processor (\<^verbatim>\<open>src/async/document_processor.cpp\<close>), the worker loop (\<^verbatim>\<open>src/async/worker_pool.cpp\<close>), the cleanup cron
  (\<^verbatim>\<open>src/async/task_cleanup_cron.cpp\<close>), the request handlers (\<^verbatim>\<open>src/async/document_task_handler.cpp\<close>) and the sweep
  of orphaned inputs (\<^verbatim>\<open>src/server/batch_temp_store.cpp\<close>).  Where a component makes several calls of the manager, other
  threads may call the manager in between: the gaps between the calls are arguments, lists of calls.  Metrics and
  logging are left out.
\<close>

section \<open>Configuration\<close>

type_synonym config = "(string \<Rightarrow> int option) option"

definition GetInt :: "config \<Rightarrow> string \<Rightarrow> int \<Rightarrow> int" where
  "GetInt cfg key def = (case cfg of None \<Rightarrow> def | Some f \<Rightarrow> (case f key of Some v \<Rightarrow> v | None \<Rightarrow> def))"

definition DebounceSeconds :: "config \<Rightarrow> int" where
  "DebounceSeconds cfg = GetInt cfg ''f42.watcher_debounce_seconds'' 5"

definition ConfiguredPoolSize :: "config \<Rightarrow> int" where
  "ConfiguredPoolSize cfg = GetInt cfg ''f42.worker_pool_size'' 2"

definition ParserMaxConcurrent :: "config \<Rightarrow> int" where
  "ParserMaxConcurrent cfg = GetInt cfg ''f06.parser_max_concurrent'' 4"

section \<open>Managed inputs\<close>

text \<open>\<open>std::filesystem::path::parent_path\<close> of a resolved path.\<close>

definition parent_path :: "string \<Rightarrow> string" where
  "parent_path p = (let d = rev (dropWhile (\<lambda>c. c \<noteq> CHR 0x2F) (rev p));
                        e = rev (dropWhile (\<lambda>c. c = CHR 0x2F) (rev d))
                    in if e = [] then d else e)"

text \<open>\<open>std::filesystem::remove\<close>: the file must exist and the removal must succeed.\<close>

definition remove_file :: "(string \<Rightarrow> bool) \<Rightarrow> string \<Rightarrow> string list \<Rightarrow> bool \<times> string list" where
  "remove_file removable path files =
     (if path \<in> set files \<and> removable path then (True, removeAll path files) else (False, files))"

definition ReleaseManagedPath ::
  "task_env \<Rightarrow> (string \<Rightarrow> bool) \<Rightarrow> string \<Rightarrow> string \<Rightarrow> string \<Rightarrow> task_row list \<Rightarrow> string list \<Rightarrow> bool \<times> string list" where
  "ReleaseManagedPath env removable managed_dir filepath exclude rows files =
     (if managed_dir = [] \<or> filepath = [] then (False, files)
      else case te_canonical env managed_dir of None \<Rightarrow> (False, files)
        | Some dir \<Rightarrow> (case te_canonical env filepath of None \<Rightarrow> (False, files)
            | Some path \<Rightarrow>
                if parent_path path \<noteq> dir then (False, files)
                else (case ReleaseInputIfUnreferenced env rows path exclude (remove_file removable path) files of
                        (Inr b, files') \<Rightarrow> (b, files')
                      | (Inl s, files') \<Rightarrow> (False, files'))))"

definition ReleaseManagedInput ::
  "task_env \<Rightarrow> (string \<Rightarrow> bool) \<Rightarrow> string \<Rightarrow> TaskInfo \<Rightarrow> task_row list \<Rightarrow> string list \<Rightarrow> bool \<times> string list" where
  "ReleaseManagedInput env removable managed_dir task rows files =
     ReleaseManagedPath env removable managed_dir (ti_filepath task) (ti_task_id task) rows files"

section \<open>Scheduler\<close>

datatype EnqueueDisposition = Created | Merged | Refreshed

text \<open>
  A gap is what other threads do to the table in between.  Under the scheduler's mutex these are the calls the workers, the
  request handlers and the cleanup cron make; the four calls of the scheduler itself cannot interleave, and recovery runs
  before the workers start.
\<close>

type_synonym gap = "task_op list"

definition run_ops :: "gap \<Rightarrow> task_row list \<Rightarrow> task_row list" where
  "run_ops ops rows = fold task_apply ops rows"

fun concurrent_op :: "task_op \<Rightarrow> bool" where
  "concurrent_op (OpProgress env t) = True"
| "concurrent_op (OpCompleted env i doc) = True"
| "concurrent_op (OpFailed env i err msg data) = True"
| "concurrent_op (OpCancel env i) = True"
| "concurrent_op (OpCancelled env i) = True"
| "concurrent_op (OpDelete env now days) = True"
| "concurrent_op (OpZombies env now hours) = True"
| "concurrent_op (OpTimedOut env now secs) = True"
| "concurrent_op _ = False"

text \<open>
  The scheduler's part of the state: the reservations of in-flight documents.  \<open>releaser\<close> is the input releaser installed at
  startup, on the files \<open>'f\<close>; it is absent where none was installed.
\<close>

type_synonym 'f releaser = "(string \<Rightarrow> string \<Rightarrow> task_row list \<Rightarrow> 'f \<Rightarrow> 'f) option"

definition ReleaseUnadoptedInput :: "'f releaser \<Rightarrow> string \<Rightarrow> string \<Rightarrow> task_row list \<Rightarrow> 'f \<Rightarrow> 'f" where
  "ReleaseUnadoptedInput rel filepath owner rows files = (case rel of None \<Rightarrow> files | Some f \<Rightarrow> f filepath owner rows files)"

definition new_task :: "SubmitRequest \<Rightarrow> TaskInfo" where
  "new_task req = TaskInfo_default\<lparr>ti_namespace_id := sr_namespace_id req, ti_filename := sr_filename req,
     ti_filepath := sr_filepath req, ti_doc_id := sr_doc_id req, ti_content_hash := sr_content_hash req,
     ti_trace_id := sr_trace_id req, ti_metadata_json := sr_metadata_json req, ti_total_pages := sr_total_pages req,
     ti_task_type := sr_task_type req, ti_status := kQueued\<rparr>"

definition enqueue_new ::
  "task_env \<Rightarrow> SubmitRequest \<Rightarrow> task_row list \<Rightarrow> 'f \<Rightarrow> (Status + TaskInfo \<times> EnqueueDisposition) \<times> task_row list \<times> 'f" where
  "enqueue_new env req rows files = (case CreateTask env rows (new_task req) of
      (Inl s, rows') \<Rightarrow> (Inl s, rows', files)
    | (Inr t, rows') \<Rightarrow> (Inr (t, Created), rows', files))"

text \<open>
  \<open>g1\<close> runs between the lookup and the claim or refresh, \<open>g3\<close> inside a refresh, between its update and the query that reads the
  row back, and \<open>g2\<close> before the submission gets a task of its own.
\<close>

definition Enqueue ::
  "task_env \<Rightarrow> gap \<Rightarrow> gap \<Rightarrow> gap \<Rightarrow> config \<Rightarrow> 'f releaser \<Rightarrow> SubmitRequest \<Rightarrow> task_row list \<Rightarrow> 'f
     \<Rightarrow> (Status + TaskInfo \<times> EnqueueDisposition) \<times> task_row list \<times> 'f" where
  "Enqueue env g1 g3 g2 cfg rel req rows files =
     (if sr_doc_id req \<noteq> [] \<and> 0 < DebounceSeconds cfg then
        (case FindRecentTaskByDocId env rows (sr_namespace_id req) (sr_doc_id req) (sr_task_type req) (DebounceSeconds cfg) of
           Inl s \<Rightarrow> (Inl s, rows, files)
         | Inr None \<Rightarrow> enqueue_new env req (run_ops g2 rows) files
         | Inr (Some r) \<Rightarrow>
             if ti_content_hash r = sr_content_hash req then
               (case TryClaimDebounceMerge env (run_ops g1 rows) (ti_task_id r) of
                  (Inr claimed, rows') \<Rightarrow>
                    (Inr (claimed, Merged), rows',
                     if sr_filepath req \<noteq> [] \<and> sr_filepath req \<noteq> ti_filepath claimed
                     then ReleaseUnadoptedInput rel (sr_filepath req) (ti_task_id claimed) rows' files else files)
                | (Inl s, rows') \<Rightarrow> enqueue_new env req (run_ops g2 rows') files)
             else if ti_status r = kQueued then
               (case UpdateTaskForDebounce env (run_ops g3) (run_ops g1 rows) (ti_task_id r) req of
                  (Inr refreshed, rows') \<Rightarrow>
                    (Inr (refreshed, Refreshed), rows',
                     if ti_filepath r \<noteq> [] \<and> ti_filepath r \<noteq> sr_filepath req
                     then ReleaseUnadoptedInput rel (ti_filepath r) (ti_task_id r) rows' files else files)
                | (Inl s, rows') \<Rightarrow> enqueue_new env req (run_ops g2 rows') files)
             else enqueue_new env req (run_ops g2 rows) files)
      else enqueue_new env req (run_ops g2 rows) files)"

definition HasActiveTaskFor :: "task_env \<Rightarrow> task_row list \<Rightarrow> string \<Rightarrow> string \<Rightarrow> int \<Rightarrow> bool task_result" where
  "HasActiveTaskFor env rows ns doc ty = tm_HasActiveTask env rows ns doc ty"

record sched =
  sc_rows :: "task_row list"
  sc_active :: "(string \<times> string) list"

definition doc_key :: "TaskInfo \<Rightarrow> (string \<times> string) option" where
  "doc_key t = (if ti_doc_id t = [] then None else Some (ti_namespace_id t, ti_doc_id t))"

definition reserve :: "TaskInfo \<Rightarrow> (string \<times> string) list \<Rightarrow> (string \<times> string) list" where
  "reserve t active = (case doc_key t of None \<Rightarrow> active | Some k \<Rightarrow> List.insert k active)"

definition unreserve :: "TaskInfo \<Rightarrow> (string \<times> string) list \<Rightarrow> (string \<times> string) list" where
  "unreserve t active = (case doc_key t of None \<Rightarrow> active | Some k \<Rightarrow> removeAll k active)"

definition Dequeue :: "task_env \<Rightarrow> gap \<Rightarrow> int \<Rightarrow> sched \<Rightarrow> TaskInfo option task_result \<times> sched" where
  "Dequeue env g worker st =
     (case SelectOldestQueuedTaskExcluding env (sc_rows st) (sc_active st) of
        Inl s \<Rightarrow> (Inl s, st)
      | Inr None \<Rightarrow> (Inr None, st)
      | Inr (Some task) \<Rightarrow>
          (let active = reserve task (sc_active st) in
           case MarkProcessing env (run_ops g (sc_rows st)) (ti_task_id task) worker of
             (s, rows') \<Rightarrow>
               if \<not> ok s then
                 (if prefix (F42ErrorCodeString kDocProcessingInProgress) (message s) then Inr None else Inl s,
                  st\<lparr>sc_rows := rows', sc_active := unreserve task active\<rparr>)
               else (Inr (Some (task\<lparr>ti_status := kProcessing, ti_worker_id := worker\<rparr>)),
                     st\<lparr>sc_rows := rows', sc_active := active\<rparr>)))"

definition OnTaskCompleted :: "TaskInfo \<Rightarrow> sched \<Rightarrow> sched" where
  "OnTaskCompleted t st = st\<lparr>sc_active := unreserve t (sc_active st)\<rparr>"

definition ActiveDocCount :: "sched \<Rightarrow> nat" where
  "ActiveDocCount st = length (sc_active st)"

definition IsDocActive :: "sched \<Rightarrow> string \<Rightarrow> string \<Rightarrow> bool" where
  "IsDocActive st ns doc \<longleftrightarrow> (ns, doc) \<in> set (sc_active st)"

section \<open>Finalizer\<close>

definition release_if_ok ::
  "task_env \<Rightarrow> (string \<Rightarrow> bool) \<Rightarrow> string \<Rightarrow> TaskInfo \<Rightarrow> Status \<Rightarrow> task_row list \<Rightarrow> string list \<Rightarrow> string list" where
  "release_if_ok env removable dir task persisted rows files =
     (if ok persisted then snd (ReleaseManagedInput env removable dir task rows files) else files)"

definition finalizer_Complete ::
  "task_env \<Rightarrow> (string \<Rightarrow> bool) \<Rightarrow> string \<Rightarrow> TaskInfo \<Rightarrow> string \<Rightarrow> task_row list \<Rightarrow> string list
     \<Rightarrow> Status \<times> task_row list \<times> string list" where
  "finalizer_Complete env removable dir task doc rows files = (case MarkCompleted env rows (ti_task_id task) doc of
     (persisted, rows') \<Rightarrow> (Status_Ok, rows', release_if_ok env removable dir task persisted rows' files))"

definition finalizer_Fail ::
  "task_env \<Rightarrow> (string \<Rightarrow> bool) \<Rightarrow> string \<Rightarrow> TaskInfo \<Rightarrow> string \<Rightarrow> string \<Rightarrow> string \<Rightarrow> task_row list \<Rightarrow> string list
     \<Rightarrow> Status \<times> task_row list \<times> string list" where
  "finalizer_Fail env removable dir task err msg data rows files = (case MarkFailed env rows (ti_task_id task) err msg data of
     (persisted, rows') \<Rightarrow> (StatusOf kInternal (err @ '': '' @ msg), rows', release_if_ok env removable dir task persisted rows' files))"

definition finalizer_Cancel ::
  "task_env \<Rightarrow> (string \<Rightarrow> bool) \<Rightarrow> string \<Rightarrow> TaskInfo \<Rightarrow> task_row list \<Rightarrow> string list \<Rightarrow> Status \<times> task_row list \<times> string list" where
  "finalizer_Cancel env removable dir task rows files = (case MarkCancelled env rows (ti_task_id task) of
     (persisted, rows') \<Rightarrow> (F42Status kTaskCancelling (ti_task_id task), rows', release_if_ok env removable dir task persisted rows' files))"

section \<open>Document processor\<close>

text \<open>
  The parser reports pages through a callback and returns or throws; the later stages of the pipeline return a code and
  an error, or throw.  Both are arguments: a page event carries the environment of its two manager calls and the gaps before them.
  \<open>dump\<close> prints a JSON value.
\<close>

record page_event =
  pe_env :: task_env
  pe_g1 :: gap
  pe_g2 :: gap
  pe_page :: int
  pe_total :: int
  pe_ok :: bool

datatype parse_result = ParseOk | ParseError string "int list" | ParseThrows

text \<open>What the later stages do: there is no pipeline, or it returns a code, an error code and an error message, or it throws.\<close>

datatype spc_result = NoPipeline | SpcReturns int string string | SpcThrows

datatype handler_result = Returned Status | Threw

definition cancel_checker :: "task_env \<Rightarrow> task_row list \<Rightarrow> string \<Rightarrow> bool" where
  "cancel_checker env rows i = (case GetTask env rows i of Inr t \<Rightarrow> ti_cancel_requested t | Inl s \<Rightarrow> False)"

definition page_progress :: "page_event \<Rightarrow> TaskInfo \<Rightarrow> TaskInfo" where
  "page_progress e prog = prog\<lparr>ti_processed_pages := pe_page e, ti_total_pages := pe_total e,
     ti_failed_pages := (if pe_ok e then ti_failed_pages prog else ti_failed_pages prog @ [pe_page e]),
     ti_progress_pct := (if 0 < pe_total e then 100 * of_int (pe_page e) / of_int (pe_total e) else 0),
     ti_eta_seconds := -1\<rparr>"

text \<open>The callback over the pages; the flag tells that it threw \<open>CancellationException\<close>.\<close>

fun page_loop :: "page_event list \<Rightarrow> TaskInfo \<Rightarrow> task_row list \<Rightarrow> bool \<times> task_row list" where
  "page_loop [] prog rows = (False, rows)"
| "page_loop (e # es) prog rows =
     (let rows = run_ops (pe_g1 e) rows in
      if cancel_checker (pe_env e) rows (ti_task_id prog) then (True, rows)
      else let prog = page_progress e prog
           in page_loop es prog (snd (UpdateProgress (pe_env e) (run_ops (pe_g2 e) rows) prog)))"

definition page_number :: "int list \<Rightarrow> int" where
  "page_number failed = (case failed of [] \<Rightarrow> -1 | p # ps \<Rightarrow> p)"

definition ProcessTask ::
  "task_env \<Rightarrow> gap \<Rightarrow> gap \<Rightarrow> (string \<Rightarrow> bool) \<Rightarrow> string \<Rightarrow> (json \<Rightarrow> string) \<Rightarrow> page_event list \<Rightarrow> parse_result
     \<Rightarrow> spc_result \<Rightarrow> TaskInfo \<Rightarrow> task_row list \<Rightarrow> string list
     \<Rightarrow> handler_result \<times> task_row list \<times> string list" where
  "ProcessTask env g1 g2 removable dir dump pages result spc task rows files =
     (let prog = task\<lparr>ti_current_phase := ''parsing'', ti_failed_pages := []\<rparr>;
          returned = (\<lambda>(s, w). (Returned s, w))
      in case page_loop pages prog rows of
           (True, rows) \<Rightarrow> returned (finalizer_Cancel env removable dir task (run_ops g1 rows) files)
         | (False, rows) \<Rightarrow>
             (let rows = run_ops g1 rows in
              case result of
                ParseThrows \<Rightarrow> (Threw, rows, files)
              | ParseError msg failed \<Rightarrow>
                  returned (finalizer_Fail env removable dir task (F42ErrorCodeString kParseFailed) msg
                    (dump (JObj [(''task_id'', JStr (ti_task_id task)), (''page_number'', JInt (page_number failed)),
                                 (''parser_error'', JStr msg)])) rows files)
              | ParseOk \<Rightarrow>
                  if cancel_checker env rows (ti_task_id task)
                  then returned (finalizer_Cancel env removable dir task (run_ops g2 rows) files)
                  else
                    (let rows = run_ops g2 rows in
                     case spc of
                       SpcReturns rc err msg \<Rightarrow>
                         if rc \<noteq> 0
                         then returned (finalizer_Fail env removable dir task
                                (if err = [] then ''CX_ERR_SPC_PROCESS_FAILED'' else err) msg
                                (dump (JObj [(''doc_id'', JStr (ti_doc_id task))])) rows files)
                         else returned (finalizer_Complete env removable dir task (ti_doc_id task) rows files)
                     | SpcThrows \<Rightarrow> (Threw, rows, files)
                     | NoPipeline \<Rightarrow> returned (finalizer_Complete env removable dir task (ti_doc_id task) rows files))))"

section \<open>Worker pool\<close>

definition int_to_string :: "int \<Rightarrow> string" where
  "int_to_string n = (if n < 0 then ''-'' @ to_string (nat (- n)) else to_string (nat n))"

record worker_pool =
  wp_started :: bool
  wp_workers :: "int list"

definition WorkerPool_Start :: "config \<Rightarrow> worker_pool \<Rightarrow> Status \<times> worker_pool" where
  "WorkerPool_Start cfg p =
     (if wp_started p then (Status_Ok, p)
      else let size = ConfiguredPoolSize cfg; parser_max = ParserMaxConcurrent cfg in
        if parser_max < size
        then (F42Status kInvalidRequest (''f42.worker_pool_size ('' @ int_to_string size
               @ '') > f06.parser_max_concurrent ('' @ int_to_string parser_max @ '')''), p)
        else if size < 1 then (F42Status kInvalidRequest ''f42.worker_pool_size must be >= 1'', p)
        else (Status_Ok, p\<lparr>wp_started := True, wp_workers := map (\<lambda>i. int i + 1) [0..<nat size]\<rparr>))"

definition WorkerPool_Stop :: "worker_pool \<Rightarrow> worker_pool" where
  "WorkerPool_Stop p = (if wp_started p then p\<lparr>wp_workers := [], wp_started := False\<rparr> else p)"

text \<open>
  One turn of the worker loop.  \<open>handlers\<close> are the registered handlers, each a function on the table and the files; a
  handler that throws is caught, and the reservation is given back on every path.
\<close>

type_synonym handler = "TaskInfo \<Rightarrow> task_row list \<Rightarrow> string list \<Rightarrow> handler_result \<times> task_row list \<times> string list"

definition WorkerTurn ::
  "task_env \<Rightarrow> gap \<Rightarrow> (int \<Rightarrow> handler option) \<Rightarrow> int \<Rightarrow> sched \<Rightarrow> string list \<Rightarrow> TaskInfo option \<times> sched \<times> string list" where
  "WorkerTurn env g handlers worker st files =
     (case Dequeue env g worker st of
        (Inr (Some task), st') \<Rightarrow>
          (case handlers (ti_task_type task) of
             Some h \<Rightarrow> (case h task (sc_rows st') files of
                 (r, rows', files') \<Rightarrow> (Some task, OnTaskCompleted task (st'\<lparr>sc_rows := rows'\<rparr>), files'))
           | None \<Rightarrow> (Some task, OnTaskCompleted task st', files))
      | (_, st') \<Rightarrow> (None, st', files))"

section \<open>Cleanup cron\<close>

text \<open>\<open>%\<close> of C++ truncates towards zero.\<close>

definition cpp_rem :: "int \<Rightarrow> int \<Rightarrow> int" where
  "cpp_rem a b = sgn a * (\<bar>a\<bar> mod \<bar>b\<bar>)"

definition NextRunDelayMs :: "int \<Rightarrow> int" where
  "NextRunDelayMs now_unix_ms =
     (let kDayMs = 24 * 3600 * 1000; kTargetMs = 2 * 3600 * 1000;
          ms_into_day = cpp_rem (cpp_rem now_unix_ms kDayMs + kDayMs) kDayMs;
          delay = kTargetMs - ms_into_day
      in if delay \<le> 0 then delay + kDayMs else delay)"

definition RetentionDays :: "config \<Rightarrow> int" where
  "RetentionDays cfg = GetInt cfg ''f42.task_retention_days'' 30"

definition ZombieHours :: "config \<Rightarrow> int" where
  "ZombieHours cfg = GetInt cfg ''f42.zombie_task_threshold_hours'' 24"

definition TimeoutSeconds :: "config \<Rightarrow> int" where
  "TimeoutSeconds cfg = GetInt cfg ''f42.task_timeout_seconds'' 1800"

definition result_count :: "nat task_result \<Rightarrow> nat" where
  "result_count r = (case r of Inr n \<Rightarrow> n | Inl s \<Rightarrow> 0)"

text \<open>\<open>(deleted, zombies, timed_out)\<close> and the table.\<close>

definition RunCleanupNow :: "task_env \<Rightarrow> config \<Rightarrow> task_row list \<Rightarrow> (nat \<times> nat \<times> nat) \<times> task_row list" where
  "RunCleanupNow env cfg rows =
     (let now_secs = te_now_ms env div 1000;
          (z, rows) = SweepZombies env rows now_secs (ZombieHours cfg);
          (t, rows) = SweepTimedOut env rows now_secs (TimeoutSeconds cfg);
          (d, rows) = DeleteExpired env rows now_secs (RetentionDays cfg)
      in ((result_count d, result_count z, result_count t), rows))"

section \<open>What other threads keep of a row\<close>

definition payload :: "task_row \<Rightarrow> (string \<times> string \<times> string \<times> int \<times> string \<times> string option \<times> string option) \<times> string option \<times> string \<times> string option" where
  "payload r = (identity r, tr_content_hash r, tr_filepath r, tr_filepath_canonical r)"

lemma update_payload:
  assumes "\<And>r. payload (f r) = payload r" "r' \<in> set (snd (run_update env q what P f rows))"
  shows "\<exists>r \<in> set rows. payload r' = payload r"
  using assms by (auto simp: run_update_def set_update_rows split: sql_outcome.splits if_splits)

lemma cancel_payload:
  assumes "r' \<in> set (snd (RequestCancel env rows i))"
  shows "\<exists>r \<in> set rows. payload r' = payload r"
  using assms unfolding RequestCancel_def Let_def
  by (auto simp: set_update_rows payload_def identity_def split: if_splits option.splits)

lemma concurrent_payload:
  assumes "concurrent_op op" "r' \<in> set (task_apply op rows)"
  shows "\<exists>r \<in> set rows. payload r' = payload r"
proof (cases op)
  case (OpProgress env t)
  show ?thesis using assms(2) unfolding OpProgress task_apply.simps UpdateProgress_def snd_after_update
    by (rule update_payload[rotated]) (simp add: payload_def identity_def)
next
  case (OpCompleted env i doc)
  show ?thesis using assms(2) unfolding OpCompleted task_apply.simps MarkCompleted_def snd_after_update
    by (rule update_payload[rotated]) (simp add: payload_def identity_def)
next
  case (OpFailed env i err msg data)
  show ?thesis using assms(2) unfolding OpFailed task_apply.simps MarkFailed_def snd_after_update
    by (rule update_payload[rotated]) (simp add: payload_def identity_def)
next
  case (OpCancel env i)
  show ?thesis using assms(2) cancel_payload unfolding OpCancel task_apply.simps by blast
next
  case (OpCancelled env i)
  show ?thesis using assms(2) unfolding OpCancelled task_apply.simps MarkCancelled_def snd_after_update
    by (rule update_payload[rotated]) (simp add: payload_def identity_def)
next
  case (OpDelete env now days)
  show ?thesis using assms(2) unfolding OpDelete task_apply.simps DeleteExpired_def Let_def
    by (auto split: sql_outcome.splits)
next
  case (OpZombies env now hours)
  show ?thesis using assms(2) unfolding OpZombies task_apply.simps SweepZombies_def
    by (rule update_payload[rotated]) (simp add: payload_def identity_def fail_row_def)
next
  case (OpTimedOut env now secs)
  show ?thesis using assms(2) unfolding OpTimedOut task_apply.simps SweepTimedOut_def
    by (rule update_payload[rotated]) (simp add: payload_def identity_def fail_row_def)
qed (use assms(1) in auto)

lemma tasks_wf_run: "tasks_wf rows \<Longrightarrow> tasks_wf (run_ops ops rows)"
  unfolding run_ops_def by (induction ops arbitrary: rows) (auto simp: tasks_wf_op)

lemma run_payload:
  "\<forall>op \<in> set ops. concurrent_op op \<Longrightarrow> r' \<in> set (run_ops ops rows) \<Longrightarrow> \<exists>r \<in> set rows. payload r' = payload r"
proof (induction ops arbitrary: rows)
  case (Cons op ops)
  then obtain r where r: "r \<in> set (task_apply op rows)" "payload r' = payload r" by (auto simp: run_ops_def)
  then show ?case using concurrent_payload[of op r rows] Cons.prems by auto
qed (auto simp: run_ops_def)

section \<open>Submission\<close>

lemma newest_mem: "newest_row rs = Some r \<Longrightarrow> r \<in> set rs"
  by (induction rs arbitrary: r) (auto split: option.splits if_splits)

lemma oldest_spec: "oldest_row rs = Some r \<Longrightarrow> r \<in> set rs \<and> (\<forall>s \<in> set rs. tr_created_at r \<le> tr_created_at s)"
proof (induction rs arbitrary: r)
  case (Cons a rs)
  show ?case
  proof (cases "oldest_row rs")
    case None
    then have "rs = []" by (cases rs) (auto split: option.splits if_splits)
    then show ?thesis using Cons.prems None by simp
  next
    case (Some s)
    then show ?thesis using Cons.IH[of s] Cons.prems by (auto split: if_splits)
  qed
qed simp

lemma oldest_None: "oldest_row rs = None \<longleftrightarrow> rs = []"
  by (cases rs) (auto split: option.splits)

text \<open>What a successful \<open>Enqueue\<close> promises about the row of the task it returns, when it returns and when the row was written.\<close>

definition names :: "SubmitRequest \<Rightarrow> EnqueueDisposition \<Rightarrow> string \<Rightarrow> task_row \<Rightarrow> bool" where
  "names req d i r \<longleftrightarrow> tr_task_id r = i \<and> tr_namespace_id r = sr_namespace_id req
     \<and> tr_task_type r = sr_task_type req \<and> opt_text (tr_content_hash r) = sr_content_hash req
     \<and> (d \<noteq> Merged \<longrightarrow> tr_filepath r = sr_filepath req)"

definition carries :: "SubmitRequest \<Rightarrow> EnqueueDisposition \<Rightarrow> string \<Rightarrow> task_row list \<Rightarrow> bool" where
  "carries req d i rows \<longleftrightarrow> (\<exists>r \<in> set rows. names req d i r \<and>
     (if d = Merged then tr_status r \<in> {kQueued, kProcessing, kCompleted} else tr_status r = kQueued))"

lemma opt_text_Bind [simp]: "opt_text (BindNullableText t) = t"
  by (simp add: opt_text_def BindNullableText_def)

lemma create_carries:
  "CreateTask env rows (new_task req) = (Inr t, rows') \<Longrightarrow> carries req Created (ti_task_id t) rows'"
  unfolding CreateTask_def Let_def carries_def names_def
  by (auto simp: new_task_def row_of_def TaskInfo_default_def split: if_splits)

lemma enqueue_new_carries:
  "enqueue_new env req rows files = (Inr (t, d), rows', files') \<Longrightarrow> carries req d (ti_task_id t) rows' \<and> d = Created"
  using create_carries[of env rows req t rows'] by (auto simp: enqueue_new_def split: prod.splits sum.splits)

lemma claim_ok:
  assumes "TryClaimDebounceMerge env rows i = (Inr t, rows')" "tasks_wf rows"
  shows "ti_task_id t = i \<and> (\<exists>r \<in> set rows. tr_task_id r = i \<and> tr_status r \<in> {kQueued, kProcessing, kCompleted}
           \<and> r\<lparr>tr_updated_at := te_now env\<rparr> \<in> set rows')"
proof -
  let ?P = "\<lambda>r. by_id i r \<and> tr_status r \<noteq> kCancelled \<and> tr_status r \<noteq> kCancelling \<and> tr_status r \<noteq> kFailed"
  have rows': "rows' = update_rows ?P (\<lambda>r. r\<lparr>tr_updated_at := te_now env\<rparr>) rows" and "0 < changes ?P rows"
    and "\<exists>r. find (by_id i) rows' = Some r \<and> t = ReadRow r"
    using assms(1) unfolding TryClaimDebounceMerge_def run_update_def
    by (auto simp: select_row_def split: sql_outcome.splits if_splits option.splits)
  then have "ti_task_id t = i" by (auto simp: ReadRow_def dest: find_by_id)
  moreover obtain r where r: "r \<in> set rows" "?P r" using \<open>0 < changes ?P rows\<close> changes_pos_iff[of ?P rows] by auto
  moreover have "tr_status r \<in> set task_statuses" using r(1) assms(2) by (simp add: tasks_wf_def)
  moreover have "r\<lparr>tr_updated_at := te_now env\<rparr> \<in> set rows'" unfolding rows' set_update_rows using r by (intro bexI[of _ r]) simp_all
  ultimately show ?thesis by (auto simp: by_id_def task_statuses_def)
qed

lemma refresh_ok:
  assumes "UpdateTaskForDebounce env gap rows i req = (Inr t, rows')"
  shows "ti_task_id t = i \<and> (\<exists>q \<in> set rows'. t = ReadRow q) \<and>
    (\<exists>tab. rows' = gap tab \<and> tab = update_rows (\<lambda>r. by_id i r \<and> tr_status r = kQueued) (refresh_row env req) rows \<and>
      (\<exists>r \<in> set rows. tr_task_id r = i \<and> tr_status r = kQueued \<and> refresh_row env req r \<in> set tab))"
proof -
  let ?P = "\<lambda>r. by_id i r \<and> tr_status r = kQueued"
  let ?tab = "update_rows ?P (refresh_row env req) rows"
  have rows': "rows' = gap ?tab" and "0 < changes ?P rows" and f: "\<exists>r. find (by_id i) rows' = Some r \<and> t = ReadRow r"
    using assms(1) unfolding UpdateTaskForDebounce_def run_update_def Let_def
    by (auto simp: select_row_def GetTask_def split: sql_outcome.splits if_splits option.splits)
  then have "ti_task_id t = i \<and> (\<exists>q \<in> set rows'. t = ReadRow q)" by (auto simp: ReadRow_def dest: find_by_id)
  moreover obtain r where r: "r \<in> set rows" "?P r" using \<open>0 < changes ?P rows\<close> changes_pos_iff[of ?P rows] by auto
  moreover have "refresh_row env req r \<in> set ?tab" unfolding set_update_rows using r by (intro bexI[of _ r]) simp_all
  ultimately show ?thesis using rows' by (auto simp: by_id_def)
qed

lemma found_recent:
  assumes "FindRecentTaskByDocId env rows ns doc ty w = Inr (Some t)"
  shows "\<exists>r \<in> set rows. t = ReadRow r \<and> tr_namespace_id r = ns \<and> tr_task_type r = ty \<and> tr_doc_id r = Some doc"
  using assms newest_mem unfolding FindRecentTaskByDocId_def
  by (force simp: debounce_candidate_def split: if_splits)

lemma same_id_payload:
  assumes "tasks_wf rows" "r \<in> set rows" "\<forall>op \<in> set g. concurrent_op op" "r' \<in> set (run_ops g rows)"
    "tr_task_id r' = tr_task_id r"
  shows "payload r' = payload r"
proof -
  obtain s where s: "s \<in> set rows" "payload r' = payload s" using run_payload[OF assms(3,4)] by blast
  then have "tr_task_id s = tr_task_id r" using assms(5) by (simp add: payload_def identity_def)
  then show ?thesis using by_id_unique[OF assms(1,2) s(1)] s(2) by simp
qed

lemma refreshed_row_kept:
  assumes "tasks_wf rows" "\<forall>op \<in> set g. concurrent_op op" "r \<in> set rows" "tr_task_id r = i" "tr_status r = kQueued"
    and "q \<in> set (run_ops g (update_rows (\<lambda>r. by_id i r \<and> tr_status r = kQueued) (refresh_row env req) rows))" "tr_task_id q = i"
  shows "payload q = payload (refresh_row env req r)"
proof -
  obtain s where s: "s \<in> set (update_rows (\<lambda>r. by_id i r \<and> tr_status r = kQueued) (refresh_row env req) rows)" "payload q = payload s"
    using run_payload[OF assms(2,6)] by blast
  then obtain r2 where r2: "r2 \<in> set rows" "s = (if by_id i r2 \<and> tr_status r2 = kQueued then refresh_row env req r2 else r2)"
    by (auto simp: set_update_rows)
  have "tr_task_id s = i" using s(2) assms(7) by (simp add: payload_def identity_def)
  then have "tr_task_id r2 = tr_task_id r" using r2(2) assms(4) by (auto simp: refresh_row_def split: if_splits)
  then have "r2 = r" using by_id_unique[OF assms(1,3) r2(1)] by simp
  then show ?thesis using s(2) r2(2) assms(4,5) by (simp add: by_id_def)
qed

lemma carries_now:
  "carries req d i rows' \<Longrightarrow> d \<noteq> Refreshed \<Longrightarrow> (\<exists>r \<in> set rows'. names req d i r) \<and>
    (\<exists>tab. rows' = (if d = Refreshed then run_ops g3 tab else tab) \<and> carries req d i tab)"
  by (auto simp: carries_def)

lemma enqueue_carries:
  assumes "Enqueue env g1 g3 g2 cfg rel req rows files = (Inr (t, d), rows', files')"
    and wf: "tasks_wf rows" and g: "\<forall>op \<in> set (g1 @ g3). concurrent_op op"
  shows "(\<exists>r \<in> set rows'. names req d (ti_task_id t) r) \<and>
    (\<exists>tab. rows' = (if d = Refreshed then run_ops g3 tab else tab) \<and> carries req d (ti_task_id t) tab)"
proof (cases "sr_doc_id req \<noteq> [] \<and> 0 < DebounceSeconds cfg")
  case False
  then have "enqueue_new env req (run_ops g2 rows) files = (Inr (t, d), rows', files')"
    using assms(1) by (auto simp: Enqueue_def)
  from enqueue_new_carries[OF this] show ?thesis using carries_now by blast
next
  case True
  let ?find = "FindRecentTaskByDocId env rows (sr_namespace_id req) (sr_doc_id req) (sr_task_type req) (DebounceSeconds cfg)"
  consider s where "?find = Inl s" | "?find = Inr None" | u where "?find = Inr (Some u)"
    by (metis not_None_eq sum.exhaust)
  then show ?thesis
  proof cases
    case 1
    then show ?thesis using assms(1) True by (simp add: Enqueue_def)
  next
    case 2
    then have "enqueue_new env req (run_ops g2 rows) files = (Inr (t, d), rows', files')" using assms(1) True by (simp add: Enqueue_def)
    from enqueue_new_carries[OF this] show ?thesis using carries_now by blast
  next
    case (3 u)
    then obtain r0 where r0: "r0 \<in> set rows" "u = ReadRow r0" "tr_namespace_id r0 = sr_namespace_id req"
      "tr_task_type r0 = sr_task_type req" using found_recent by metis
    have g1: "\<forall>op \<in> set g1. concurrent_op op" and g3: "\<forall>op \<in> set g3. concurrent_op op" using g by auto
    have keep: "tr_namespace_id r = tr_namespace_id r0 \<and> tr_task_type r = tr_task_type r0 \<and> tr_content_hash r = tr_content_hash r0"
      if "r \<in> set (run_ops g1 rows)" "tr_task_id r = ti_task_id u" for r
      using same_id_payload[OF wf r0(1) g1 that(1)] that(2) r0(2) by (simp add: payload_def identity_def ReadRow_def)
    consider s where "enqueue_new env req s files = (Inr (t, d), rows', files')"
      | "d = Merged" "ti_content_hash u = sr_content_hash req" "TryClaimDebounceMerge env (run_ops g1 rows) (ti_task_id u) = (Inr t, rows')"
      | "d = Refreshed" "UpdateTaskForDebounce env (run_ops g3) (run_ops g1 rows) (ti_task_id u) req = (Inr t, rows')"
      using assms(1) True 3 unfolding Enqueue_def
      by (auto split: if_splits prod.splits sum.splits)
    then show ?thesis
    proof cases
      case 1
      from enqueue_new_carries[OF this] show ?thesis using carries_now by blast
    next
      case 2
      obtain r where r: "ti_task_id t = ti_task_id u" "r \<in> set (run_ops g1 rows)" "tr_task_id r = ti_task_id u"
        "tr_status r \<in> {kQueued, kProcessing, kCompleted}" "r\<lparr>tr_updated_at := te_now env\<rparr> \<in> set rows'"
        using claim_ok[OF 2(3) tasks_wf_run[OF wf]] by blast
      have "carries req d (ti_task_id t) rows'" using keep[OF r(2,3)] r0 2(1,2) r unfolding carries_def names_def
        by (intro bexI[OF _ r(5)]) (auto simp: ReadRow_def)
      then show ?thesis using carries_now 2(1) by blast
    next
      case 3
      let ?tab = "update_rows (\<lambda>r. by_id (ti_task_id u) r \<and> tr_status r = kQueued) (refresh_row env req) (run_ops g1 rows)"
      obtain q r where q: "ti_task_id t = ti_task_id u" "q \<in> set rows'" "t = ReadRow q" and tab: "rows' = run_ops g3 ?tab"
        and r: "r \<in> set (run_ops g1 rows)" "tr_task_id r = ti_task_id u" "tr_status r = kQueued" "refresh_row env req r \<in> set ?tab"
        using refresh_ok[OF 3(2)] by blast
      have qi: "tr_task_id q = ti_task_id u" using q by (simp add: ReadRow_def)
      have "payload q = payload (refresh_row env req r)"
        by (rule refreshed_row_kept[OF tasks_wf_run[OF wf] g3 r(1-3) q(2)[unfolded tab] qi])
      then have "\<exists>r \<in> set rows'. names req d (ti_task_id t) r" using keep[OF r(1,2)] r0 q(1) qi 3(1) unfolding names_def
        by (intro bexI[OF _ q(2)]) (auto simp: payload_def identity_def refresh_row_def)
      moreover have "carries req d (ti_task_id t) ?tab" using keep[OF r(1,2)] r0 r q(1) 3(1) unfolding carries_def names_def
        by (intro bexI[OF _ r(4)]) (auto simp: refresh_row_def)
      ultimately show ?thesis using 3(1) tab by (auto intro!: exI[of _ ?tab])
    qed
  qed
qed

text \<open>
  C28: a submission is never swallowed.  Whenever \<open>Enqueue\<close> succeeds, whatever other threads (workers, cancels, sweeps,
  deletions) do between its debounce lookup and its decision and inside a refresh, the table it leaves holds the row of the
  returned task with the namespace, type and content hash of the submission, and, unless the submission was merged, with the
  submitted file.  At the moment the submission was written (\<open>tab\<close>), the row of a new or refreshed task was \<open>queued\<close>, and a merge
  was into a row that was \<open>queued\<close>, \<open>processing\<close> or \<open>completed\<close>, never into one that was cancelled or failed in between.  After
  the update of a refresh, and before the call returns, other calls may still cancel the task, like any queued task.
\<close>
theorem submission_carried:
  assumes "tasks_wf rows" and "\<forall>op \<in> set (g1 @ g3). concurrent_op op"
    and "Enqueue env g1 g3 g2 cfg rel req rows files = (Inr (t, d), rows', files')"
  shows "(\<exists>r \<in> set rows'. names req d (ti_task_id t) r) \<and>
    (\<exists>tab. rows' = (if d = Refreshed then run_ops g3 tab else tab) \<and>
      (\<exists>r \<in> set tab. names req d (ti_task_id t) r \<and>
         (if d = Merged then tr_status r \<in> {kQueued, kProcessing, kCompleted} else tr_status r = kQueued)))"
  using enqueue_carries[OF assms(3,1,2)] unfolding carries_def .

definition sample_request :: "string \<Rightarrow> string \<Rightarrow> SubmitRequest" where
  "sample_request path hash = \<lparr>sr_namespace_id = ''ns'', sr_filename = ''f'', sr_filepath = path, sr_doc_id = ''doc'',
     sr_content_hash = hash, sr_trace_id = [], sr_metadata_json = [], sr_total_pages = 1, sr_task_type = 1\<rparr>"

lemma stamp_in_window: "UnixToIso8601 (- 4) \<le> NowIso8601 1000"
  unfolding UnixToIso8601_def NowIso8601_def by (subst iso_ms_le) (simp_all add: printable_day_def)

lemmas request_eval = plain_env_def sql_good_def sample_row_def sample_request_def select_row_def by_id_def ReadRow_def
  opt_text_def run_ops_def update_rows_def changes_def Let_def

lemma sample_recent:
  "FindRecentTaskByDocId (plain_env 1000 u) [sample_row ''a'' kQueued ''/d/x'' (NowIso8601 1000)] ''ns'' ''doc'' 1 5
     = Inr (Some (ReadRow (sample_row ''a'' kQueued ''/d/x'' (NowIso8601 1000))))"
  using stamp_in_window by (simp add: FindRecentTaskByDocId_def debounce_candidate_def plain_env_def sql_good_def sample_row_def)

text \<open>The candidate is cancelled between the lookup and the merge: the submission gets a row of its own.\<close>

lemma cancelled_candidate:
  "\<exists>t rows'. Enqueue (plain_env 1000 ''new'') [OpCancel (plain_env 1000 []) ''a''] [] [] None None (sample_request ''/d/y'' ''h'')
     [sample_row ''a'' kQueued ''/d/x'' (NowIso8601 1000)] () = (Inr (t, Created), rows', ())"
  unfolding Enqueue_def
  by (simp add: DebounceSeconds_def GetInt_def sample_request_def sample_recent)
     (simp add: request_eval TryClaimDebounceMerge_def run_update_def RequestCancel_def gone_or_moved_def probe_exists_def
        enqueue_new_def CreateTask_def new_task_def TaskInfo_default_def row_of_def insert_allowed_def task_statuses_def)

theorem submission_carried_witness:
  "\<exists>t rows'. Enqueue (plain_env 1000 ''new'') [OpCancel (plain_env 1000 []) ''a''] [] [] None None (sample_request ''/d/y'' ''h'')
     [sample_row ''a'' kQueued ''/d/x'' (NowIso8601 1000)] () = (Inr (t, Created), rows', ())
     \<and> (\<exists>r \<in> set rows'. tr_task_id r = ti_task_id t \<and> tr_status r = kQueued \<and> tr_filepath r = ''/d/y'')"
proof -
  obtain t rows' where e: "Enqueue (plain_env 1000 ''new'') [OpCancel (plain_env 1000 []) ''a''] [] [] None None
      (sample_request ''/d/y'' ''h'') [sample_row ''a'' kQueued ''/d/x'' (NowIso8601 1000)] () = (Inr (t, Created), rows', ())"
    using cancelled_candidate by blast
  have "tasks_wf [sample_row ''a'' kQueued ''/d/x'' (NowIso8601 1000)]"
    by (simp add: tasks_wf_def sample_row_def task_statuses_def)
  from submission_carried[OF this _ e] show ?thesis using e by (auto simp: sample_request_def names_def)
qed

end
