(* ===== verification/Task_Dispatch.thy ===== *)
theory Task_Dispatch
  imports Task_Service
begin

text \<open>
  Dispatch of tasks to workers: the oldest eligible task goes out, no two workers hold the same document, a dispatched task
  ends in a terminal status whatever other threads do, and the input file of a live task stays.
\<close>

section \<open>Dequeue\<close>

lemma mark_processing_ok:
  assumes "MarkProcessing env rows i w = (s, rows')" "ok s"
  shows "\<exists>r \<in> set rows. tr_task_id r = i \<and> tr_status r = kQueued
     \<and> r\<lparr>tr_status := kProcessing, tr_worker_id := Some w, tr_started_at := Some (te_now env), tr_updated_at := te_now env\<rparr> \<in> set rows'"
proof -
  let ?P = "\<lambda>r. by_id i r \<and> tr_status r = kQueued"
  have rows': "rows' = update_rows ?P (\<lambda>r. r\<lparr>tr_status := kProcessing, tr_worker_id := Some w,
      tr_started_at := Some (te_now env), tr_updated_at := te_now env\<rparr>) rows" and "0 < changes ?P rows"
    using assms unfolding MarkProcessing_def run_update_def gone_or_moved_def
    by (auto split: sql_outcome.splits if_splits)
  then obtain r where r: "r \<in> set rows" "?P r" using changes_pos_iff[of ?P rows] by auto
  then show ?thesis unfolding rows' set_update_rows by (intro bexI[of _ r]) (auto simp: by_id_def)
qed

lemma dequeue_some:
  assumes "Dequeue env g w st = (Inr (Some t), st')"
  shows "\<exists>r \<in> set (sc_rows st). eligible (sc_active st) r
      \<and> (\<forall>r' \<in> set (sc_rows st). eligible (sc_active st) r' \<longrightarrow> tr_created_at r \<le> tr_created_at r')
      \<and> t = (ReadRow r)\<lparr>ti_status := kProcessing, ti_worker_id := w\<rparr>
      \<and> sc_active st' = reserve (ReadRow r) (sc_active st)
      \<and> (\<exists>q \<in> set (run_ops g (sc_rows st)). tr_task_id q = tr_task_id r \<and> tr_status q = kQueued
           \<and> q\<lparr>tr_status := kProcessing, tr_worker_id := Some w, tr_started_at := Some (te_now env), tr_updated_at := te_now env\<rparr>
               \<in> set (sc_rows st'))"
proof -
  obtain r s where o: "oldest_row (filter (eligible (sc_active st)) (sc_rows st)) = Some r"
    and t: "t = (ReadRow r)\<lparr>ti_status := kProcessing, ti_worker_id := w\<rparr>"
    and m: "MarkProcessing env (run_ops g (sc_rows st)) (tr_task_id r) w = (s, sc_rows st')" "ok s"
    and a: "sc_active st' = reserve (ReadRow r) (sc_active st)"
  proof -
    obtain t0 where p: "SelectOldestQueuedTaskExcluding env (sc_rows st) (sc_active st) = Inr (Some t0)"
      using assms unfolding Dequeue_def by (auto split: sum.splits option.splits)
    then obtain r where r: "oldest_row (filter (eligible (sc_active st)) (sc_rows st)) = Some r" "t0 = ReadRow r"
      by (auto simp: SelectOldestQueuedTaskExcluding_def split: if_splits)
    then show thesis using assms p that[of r] unfolding Dequeue_def Let_def
      by (auto simp: ReadRow_def split: prod.splits if_splits)
  qed
  have "r \<in> set (sc_rows st)" "eligible (sc_active st) r"
    "\<forall>r' \<in> set (sc_rows st). eligible (sc_active st) r' \<longrightarrow> tr_created_at r \<le> tr_created_at r'"
    using oldest_spec[OF o] by auto
  then show ?thesis using t a mark_processing_ok[OF m] by blast
qed


lemma eligible_key: "eligible active r \<Longrightarrow> doc_key (ReadRow r) = Some k \<Longrightarrow> k \<notin> set active"
  by (cases "tr_doc_id r") (auto simp: eligible_def doc_key_def ReadRow_def opt_text_def split: if_splits)

lemma set_reserve: "set (reserve t active) = set active \<union> set_option (doc_key t)"
  by (simp add: reserve_def split: option.split)

lemma set_unreserve: "set (unreserve t active) = set active - set_option (doc_key t)"
  by (auto simp: unreserve_def split: option.split)

lemma dequeue_no_task:
  assumes "Dequeue env g w st = (res, st')" "\<forall>t. res \<noteq> Inr (Some t)"
  shows "set (sc_active st') = set (sc_active st)"
proof (cases "SelectOldestQueuedTaskExcluding env (sc_rows st) (sc_active st)")
  case (Inr picked)
  show ?thesis
  proof (cases picked)
    case (Some t)
    then obtain r where r: "oldest_row (filter (eligible (sc_active st)) (sc_rows st)) = Some r" "t = ReadRow r"
      using Inr by (auto simp: SelectOldestQueuedTaskExcluding_def split: if_splits)
    then have "set_option (doc_key t) \<inter> set (sc_active st) = {}"
      using eligible_key[of "sc_active st" r] oldest_spec[OF r(1)] by (cases "doc_key t") auto
    then show ?thesis using assms Inr Some unfolding Dequeue_def Let_def
      by (auto simp: set_unreserve set_reserve split: prod.splits if_splits)
  qed (use assms Inr in \<open>auto simp: Dequeue_def\<close>)
qed (use assms in \<open>auto simp: Dequeue_def\<close>)

section \<open>One worker per document\<close>

text \<open>
  What the worker pool relies on: taking work reserves its key, which was free, and giving it back frees it.  Under this
  contract the keys of the work held by different workers differ.
\<close>

definition exclusive :: "('t \<Rightarrow> 'k option) \<Rightarrow> 'k set \<Rightarrow> ('w \<Rightarrow> 't option) \<Rightarrow> bool" where
  "exclusive key R held \<longleftrightarrow> (\<forall>w t k. held w = Some t \<longrightarrow> key t = Some k \<longrightarrow>
     k \<in> R \<and> (\<forall>w' t'. held w' = Some t' \<longrightarrow> key t' = Some k \<longrightarrow> w' = w))"

locale reservations =
  fixes take_work :: "'e \<Rightarrow> 'st \<Rightarrow> 't option \<times> 'st"
    and give_back :: "'t \<Rightarrow> 'st \<Rightarrow> 'st"
    and reserved :: "'st \<Rightarrow> 'k set"
    and key :: "'t \<Rightarrow> 'k option"
  assumes take_some: "take_work e st = (Some t, st') \<Longrightarrow> reserved st' = reserved st \<union> set_option (key t)"
    and take_free: "take_work e st = (Some t, st') \<Longrightarrow> set_option (key t) \<inter> reserved st = {}"
    and take_none: "take_work e st = (None, st') \<Longrightarrow> reserved st' = reserved st"
    and give_back_frees: "reserved (give_back t st) = reserved st - set_option (key t)"
begin

lemma exclusive_take:
  assumes "exclusive key (reserved st) held" "take_work e st = (Some t, st')" "held w = None"
  shows "exclusive key (reserved st') (held(w \<mapsto> t))"
  using assms(1,3) take_some[OF assms(2)] take_free[OF assms(2)] unfolding exclusive_def
  by (fastforce split: if_splits)

lemma exclusive_idle:
  assumes "exclusive key (reserved st) held" "take_work e st = (None, st')"
  shows "exclusive key (reserved st') held"
  using assms(1) take_none[OF assms(2)] by simp

lemma exclusive_give_back:
  assumes "exclusive key (reserved st) held" "held w = Some t"
  shows "exclusive key (reserved (give_back t st)) (held(w := None))"
  using assms unfolding exclusive_def give_back_frees by (fastforce split: if_splits)

end

definition dequeue_task :: "task_env \<times> gap \<times> int \<Rightarrow> sched \<Rightarrow> TaskInfo option \<times> sched" where
  "dequeue_task e st = (case e of (env, g, w) \<Rightarrow> (case Dequeue env g w st of
     (Inr (Some t), st') \<Rightarrow> (Some t, st') | (_, st') \<Rightarrow> (None, st')))"

lemma dequeue_task_some: "dequeue_task (env, g, w) st = (Some t, st') \<longleftrightarrow> Dequeue env g w st = (Inr (Some t), st')"
  by (auto simp: dequeue_task_def split: prod.splits sum.splits option.splits)

lemma dequeue_task_none:
  "dequeue_task (env, g, w) st = (None, st') \<longleftrightarrow> (\<exists>res. Dequeue env g w st = (res, st') \<and> (\<forall>t. res \<noteq> Inr (Some t)))"
  by (auto simp: dequeue_task_def split: prod.splits sum.splits option.splits)

interpretation pool: reservations dequeue_task OnTaskCompleted "\<lambda>st. set (sc_active st)" doc_key
proof
  fix e :: "task_env \<times> gap \<times> int" and st t st'
  obtain env g w where e: "e = (env, g, w)" by (metis prod_cases3)
  {
    assume "dequeue_task e st = (Some t, st')"
    then obtain r where r: "r \<in> set (sc_rows st)" "eligible (sc_active st) r"
      "t = (ReadRow r)\<lparr>ti_status := kProcessing, ti_worker_id := w\<rparr>" "sc_active st' = reserve (ReadRow r) (sc_active st)"
      unfolding e dequeue_task_some using dequeue_some by blast
    have k: "doc_key t = doc_key (ReadRow r)" by (simp add: r(3) doc_key_def)
    show "set (sc_active st') = set (sc_active st) \<union> set_option (doc_key t)" by (simp add: r(4) set_reserve k)
    show "set_option (doc_key t) \<inter> set (sc_active st) = {}"
      using eligible_key[OF r(2)] by (cases "doc_key (ReadRow r)") (auto simp: k)
  }
  {
    assume "dequeue_task e st = (None, st')"
    then show "set (sc_active st') = set (sc_active st)" unfolding e dequeue_task_none using dequeue_no_task by blast
  }
  show "set (sc_active (OnTaskCompleted t st)) = set (sc_active st) - set_option (doc_key t)"
    by (simp add: OnTaskCompleted_def set_unreserve)
qed

text \<open>
  The pool: workers dequeue, hold a task while its handler runs (the table changes meanwhile) and give it back; every other
  thread may change the table at any time.
\<close>

inductive pool_step :: "sched \<times> (int \<Rightarrow> TaskInfo option) \<Rightarrow> sched \<times> (int \<Rightarrow> TaskInfo option) \<Rightarrow> bool" where
  take_task: "held w = None \<Longrightarrow> Dequeue env g w st = (Inr (Some t), st') \<Longrightarrow> pool_step (st, held) (st', held(w \<mapsto> t))"
| find_none: "Dequeue env g w st = (res, st') \<Longrightarrow> \<forall>t. res \<noteq> Inr (Some t) \<Longrightarrow> pool_step (st, held) (st', held)"
| finish_task: "held w = Some t \<Longrightarrow> pool_step (st, held) (OnTaskCompleted t st, held(w := None))"
| change_table: "pool_step (st, held) (st\<lparr>sc_rows := task_apply op (sc_rows st)\<rparr>, held)"

inductive pool_reachable :: "sched \<times> (int \<Rightarrow> TaskInfo option) \<Rightarrow> bool" where
  pool_start: "pool_reachable (\<lparr>sc_rows = rows, sc_active = []\<rparr>, \<lambda>w. None)"
| pool_next: "pool_reachable s \<Longrightarrow> pool_step s s' \<Longrightarrow> pool_reachable s'"

inductive_cases pool_stepE: "pool_step s s'"

lemma pool_step_exclusive:
  "pool_step s s' \<Longrightarrow> exclusive doc_key (set (sc_active (fst s))) (snd s) \<Longrightarrow> exclusive doc_key (set (sc_active (fst s'))) (snd s')"
proof (induction rule: pool_step.induct)
  case (take_task held w env g st t st')
  then show ?case using pool.exclusive_take[of st held "(env, g, w)" t st' w] by (simp add: dequeue_task_some del: fun_upd_apply)
next
  case (find_none env g w st res st' held)
  then show ?case using dequeue_no_task by simp
next
  case (finish_task held w t st)
  then show ?case using pool.exclusive_give_back by (simp del: fun_upd_apply)
qed simp

lemma pool_exclusive: "pool_reachable s \<Longrightarrow> exclusive doc_key (set (sc_active (fst s))) (snd s)"
  by (induction rule: pool_reachable.induct) (auto simp: exclusive_def[of doc_key "{}"] pool_step_exclusive)

section \<open>A dispatched task ends\<close>

text \<open>What every call but a deletion and the recovery does to a task that has left the queue.\<close>

definition advances :: "task_row \<Rightarrow> task_row \<Rightarrow> bool" where
  "advances r r' \<longleftrightarrow> tr_task_id r' = tr_task_id r \<and> (tr_status r \<noteq> kQueued \<longrightarrow>
     tr_status r' = tr_status r \<and> tr_cancel_requested r' = tr_cancel_requested r
     \<or> tr_status r' \<noteq> kQueued \<and> tr_status r' \<noteq> kProcessing)"

fun removes_or_requeues :: "task_op \<Rightarrow> bool" where
  "removes_or_requeues (OpDelete env now days) = True"
| "removes_or_requeues (OpRequeue env now hours) = True"
| "removes_or_requeues _ = False"

lemma advances_refl [simp]: "advances r r"
  by (simp add: advances_def)

lemma advances_stay: "r \<in> S \<Longrightarrow> \<exists>r' \<in> S. advances r r'"
  using advances_refl by blast

lemma advances_run_update:
  assumes "\<And>r. P r \<Longrightarrow> advances r (f r)" "r \<in> set rows"
  shows "\<exists>r' \<in> set (snd (run_update env q what P f rows)). advances r r'"
proof (cases "te_sql env q")
  case SqlOk
  let ?r = "if P r then f r else r"
  have "?r \<in> set (update_rows P f rows)" "advances r ?r" using assms by (auto simp: set_update_rows)
  then show ?thesis using SqlOk by (auto simp: run_update_def)
qed (use advances_stay[OF assms(2)] in \<open>auto simp: run_update_def\<close>)

lemma advances_cancel:
  assumes wf: "tasks_wf rows" and r: "r \<in> set rows"
  shows "\<exists>r' \<in> set (snd (RequestCancel env rows i)). advances r r'"
proof -
  note stay = advances_stay[OF r]
  have upd: "\<exists>r' \<in> set (update_rows (by_id i) f rows). advances r r'" if "by_id i r \<Longrightarrow> advances r (f r)" for f
    unfolding update_rows_def using r that by (cases "by_id i r") force+
  have "by_id i r \<Longrightarrow> find (by_id i) rows = Some x \<Longrightarrow> x = r" for x
    using find_by_id by_id_unique[OF wf r] by (metis by_id_def)
  then show ?thesis
    unfolding RequestCancel_def Let_def
    by (auto simp: select_row_def ReadRow_def advances_def stay[unfolded advances_def]
        intro!: upd[unfolded advances_def] split: option.split)
qed

lemma advances_op:
  assumes "tasks_wf rows" "r \<in> set rows" "\<not> removes_or_requeues op"
  shows "\<exists>r' \<in> set (task_apply op rows). advances r r'"
proof (cases op)
  case (OpInit env)
  let ?s = "tr_filepath_canonical_update (\<lambda>_. None)"
  have "?s r \<in> set (map ?s (BackfillCanonicalInputsLocked env rows))" using assms(2) by (simp add: backfill_strips)
  then obtain r' where r': "r' \<in> set (BackfillCanonicalInputsLocked env rows)" "?s r = ?s r'" by auto
  have "tr_task_id (?s x) = tr_task_id x" "tr_status (?s x) = tr_status x" "tr_cancel_requested (?s x) = tr_cancel_requested x" for x
    by simp_all
  then have "advances r r'" unfolding advances_def using r'(2) by metis
  then show ?thesis using r'(1) OpInit by auto
next
  case (OpCreate env t)
  then show ?thesis using advances_stay[OF assms(2)] by (auto simp: CreateTask_def Let_def)
next
  case (OpProgress env t)
  show ?thesis unfolding OpProgress task_apply.simps UpdateProgress_def snd_after_update
    by (rule advances_run_update[OF _ assms(2)]) (simp add: advances_def)
next
  case (OpProcessing env i w)
  show ?thesis unfolding OpProcessing task_apply.simps MarkProcessing_def snd_after_update
    by (rule advances_run_update[OF _ assms(2)]) (simp add: advances_def)
next
  case (OpCompleted env i doc)
  show ?thesis unfolding OpCompleted task_apply.simps MarkCompleted_def snd_after_update
    by (rule advances_run_update[OF _ assms(2)]) (simp add: advances_def)
next
  case (OpFailed env i err msg data)
  show ?thesis unfolding OpFailed task_apply.simps MarkFailed_def snd_after_update
    by (rule advances_run_update[OF _ assms(2)]) (simp add: advances_def)
next
  case (OpCancel env i)
  then show ?thesis using advances_cancel[OF assms(1,2)] by simp
next
  case (OpCancelled env i)
  show ?thesis unfolding OpCancelled task_apply.simps MarkCancelled_def snd_after_update
    by (rule advances_run_update[OF _ assms(2)]) (simp add: advances_def)
next
  case (OpClaim env i)
  have "\<exists>r' \<in> set (snd (run_update env QClaim ''TryClaimDebounceMerge''
      (\<lambda>r. by_id i r \<and> tr_status r \<noteq> kCancelled \<and> tr_status r \<noteq> kCancelling \<and> tr_status r \<noteq> kFailed)
      (\<lambda>r. r\<lparr>tr_updated_at := te_now env\<rparr>) rows)). advances r r'"
    by (rule advances_run_update[OF _ assms(2)]) (simp add: advances_def)
  then show ?thesis unfolding OpClaim task_apply.simps TryClaimDebounceMerge_def
    by (subst snd_case_update) (auto split: option.split)
next
  case (OpRefresh env i req)
  have "\<exists>r' \<in> set (snd (run_update env QDebounce ''UpdateTaskForDebounce'' (\<lambda>r. by_id i r \<and> tr_status r = kQueued)
      (refresh_row env req) rows)). advances r r'"
    by (rule advances_run_update[OF _ assms(2)]) (simp add: advances_def refresh_row_def)
  then show ?thesis unfolding OpRefresh task_apply.simps UpdateTaskForDebounce_def
    by (subst snd_case_update) auto
next
  case (OpZombies env now hours)
  show ?thesis unfolding OpZombies task_apply.simps SweepZombies_def
    by (rule advances_run_update[OF _ assms(2)]) (simp add: advances_def fail_row_def)
next
  case (OpTimedOut env now secs)
  show ?thesis unfolding OpTimedOut task_apply.simps SweepTimedOut_def
    by (rule advances_run_update[OF _ assms(2)]) (simp add: advances_def fail_row_def)
qed (use assms(3) in auto)

text \<open>
  A task in the hands of a worker: off the queue, a raised cancel flag meaning that it is no longer \<open>processing\<close>; and one
  whose cancel has been seen.
\<close>

definition dispatched :: "string \<Rightarrow> task_row list \<Rightarrow> bool" where
  "dispatched i rows \<longleftrightarrow> tasks_wf rows \<and> (\<exists>r \<in> set rows. tr_task_id r = i \<and> tr_status r \<noteq> kQueued
     \<and> (tr_cancel_requested r \<longrightarrow> tr_status r \<noteq> kProcessing))"

definition cancel_seen :: "string \<Rightarrow> task_row list \<Rightarrow> bool" where
  "cancel_seen i rows \<longleftrightarrow> tasks_wf rows \<and> (\<exists>r \<in> set rows. tr_task_id r = i \<and> tr_status r \<noteq> kQueued \<and> tr_status r \<noteq> kProcessing)"

definition ended :: "string \<Rightarrow> task_row list \<Rightarrow> bool" where
  "ended i rows \<longleftrightarrow> (\<exists>r \<in> set rows. tr_task_id r = i \<and> terminal (tr_status r))"

lemma dispatched_op:
  assumes "\<not> removes_or_requeues op"
  shows "dispatched i rows \<Longrightarrow> dispatched i (task_apply op rows)" "cancel_seen i rows \<Longrightarrow> cancel_seen i (task_apply op rows)"
proof -
  show "dispatched i (task_apply op rows)" if d: "dispatched i rows"
  proof -
    obtain r where r: "r \<in> set rows" "tr_task_id r = i" "tr_status r \<noteq> kQueued" "tr_cancel_requested r \<longrightarrow> tr_status r \<noteq> kProcessing"
      using d by (auto simp: dispatched_def)
    obtain r' where "r' \<in> set (task_apply op rows)" "advances r r'"
      using advances_op[OF _ r(1) assms] d by (auto simp: dispatched_def)
    then show ?thesis using r d tasks_wf_op[of rows op] unfolding dispatched_def advances_def by (intro conjI bexI[of _ r']) auto
  qed
  show "cancel_seen i (task_apply op rows)" if d: "cancel_seen i rows"
  proof -
    obtain r where r: "r \<in> set rows" "tr_task_id r = i" "tr_status r \<noteq> kQueued" "tr_status r \<noteq> kProcessing"
      using d by (auto simp: cancel_seen_def)
    obtain r' where "r' \<in> set (task_apply op rows)" "advances r r'"
      using advances_op[OF _ r(1) assms] d by (auto simp: cancel_seen_def)
    then show ?thesis using r d tasks_wf_op[of rows op] unfolding cancel_seen_def advances_def by (intro conjI bexI[of _ r']) auto
  qed
qed

lemma dispatched_run:
  assumes "\<forall>op \<in> set g. \<not> removes_or_requeues op"
  shows "dispatched i rows \<Longrightarrow> dispatched i (run_ops g rows)" "cancel_seen i rows \<Longrightarrow> cancel_seen i (run_ops g rows)"
  using assms unfolding run_ops_def by (induction g arbitrary: rows) (auto simp: dispatched_op)

lemma run_update_changes:
  "te_sql env q = SqlOk \<Longrightarrow> r \<in> set rows \<Longrightarrow> (if P r then f r else r) \<in> set (snd (run_update env q what P f rows))"
  by (auto simp: run_update_def set_update_rows)

lemma status_cases: "tasks_wf rows \<Longrightarrow> r \<in> set rows \<Longrightarrow> tr_status r \<noteq> kQueued \<Longrightarrow> \<not> terminal (tr_status r) \<Longrightarrow>
    tr_status r = kProcessing \<or> tr_status r = kCancelling"
  by (auto simp: tasks_wf_def task_statuses_def terminal_def)

lemma completed_ends:
  assumes "dispatched i rows" "te_sql env QMarkCompleted = SqlOk"
  shows "ended i (snd (MarkCompleted env rows i doc))"
proof -
  obtain r where r: "r \<in> set rows" "tr_task_id r = i" "tr_status r \<noteq> kQueued" and wf: "tasks_wf rows"
    using assms(1) by (auto simp: dispatched_def)
  note m = run_update_changes[OF assms(2) r(1)]
  show ?thesis unfolding MarkCompleted_def snd_after_update ended_def
    by (rule bexI[OF _ m]) (use r status_cases[OF wf r(1)] in \<open>auto simp: by_id_def terminal_def\<close>)
qed

lemma failed_ends:
  assumes "dispatched i rows" "te_sql env QMarkFailed = SqlOk"
  shows "ended i (snd (MarkFailed env rows i err msg data))"
proof -
  obtain r where r: "r \<in> set rows" "tr_task_id r = i" "tr_status r \<noteq> kQueued" and wf: "tasks_wf rows"
    using assms(1) by (auto simp: dispatched_def)
  note m = run_update_changes[OF assms(2) r(1)]
  show ?thesis unfolding MarkFailed_def snd_after_update ended_def
    by (rule bexI[OF _ m]) (use r status_cases[OF wf r(1)] in \<open>auto simp: by_id_def terminal_def\<close>)
qed

lemma cancelled_ends:
  assumes "cancel_seen i rows" "te_sql env QMarkCancelled = SqlOk"
  shows "ended i (snd (MarkCancelled env rows i))"
proof -
  obtain r where r: "r \<in> set rows" "tr_task_id r = i" "tr_status r \<noteq> kQueued" "tr_status r \<noteq> kProcessing" and wf: "tasks_wf rows"
    using assms(1) by (auto simp: cancel_seen_def)
  note m = run_update_changes[OF assms(2) r(1)]
  show ?thesis unfolding MarkCancelled_def snd_after_update ended_def
    by (rule bexI[OF _ m]) (use r status_cases[OF wf r(1)] in \<open>auto simp: by_id_def terminal_def\<close>)
qed

lemma checker_sees_cancel: "dispatched i rows \<Longrightarrow> cancel_checker env rows i \<Longrightarrow> cancel_seen i rows"
  unfolding cancel_checker_def GetTask_def select_row_def dispatched_def
  by (auto simp: cancel_seen_def ReadRow_def split: if_splits option.splits dest!: find_by_id dest: by_id_unique)

lemma page_loop_dispatched:
  assumes "\<forall>e \<in> set pages. (\<forall>op \<in> set (pe_g1 e). \<not> removes_or_requeues op) \<and> (\<forall>op \<in> set (pe_g2 e). \<not> removes_or_requeues op)"
    and "dispatched (ti_task_id prog) rows" "page_loop pages prog rows = (cancelled, rows')"
  shows "dispatched (ti_task_id prog) rows' \<and> (cancelled \<longrightarrow> cancel_seen (ti_task_id prog) rows')"
  using assms
proof (induction pages prog rows rule: page_loop.induct)
  case (2 e es prog rows)
  let ?r1 = "run_ops (pe_g1 e) rows" and ?p = "page_progress e prog"
  have d1: "dispatched (ti_task_id prog) ?r1" using 2 dispatched_run by simp
  show ?case
  proof (cases "cancel_checker (pe_env e) ?r1 (ti_task_id prog)")
    case True
    then show ?thesis using 2 d1 checker_sees_cancel by (auto simp: Let_def)
  next
    case False
    have i: "ti_task_id ?p = ti_task_id prog" by (simp add: page_progress_def)
    have "dispatched (ti_task_id prog) (run_ops (pe_g2 e) ?r1)" using 2 d1 dispatched_run by simp
    then have "dispatched (ti_task_id ?p) (snd (UpdateProgress (pe_env e) (run_ops (pe_g2 e) ?r1) ?p))"
      using dispatched_op(1)[of "OpProgress (pe_env e) ?p"] i by simp
    then show ?thesis using 2(1)[OF refl False refl] 2(2,4) False i by (simp add: Let_def)
  qed
qed simp

lemma finalizer_rows:
  "fst (snd (finalizer_Complete env removable dir task doc rows files)) = snd (MarkCompleted env rows (ti_task_id task) doc)"
  "fst (snd (finalizer_Fail env removable dir task err msg data rows files)) = snd (MarkFailed env rows (ti_task_id task) err msg data)"
  "fst (snd (finalizer_Cancel env removable dir task rows files)) = snd (MarkCancelled env rows (ti_task_id task))"
  by (simp_all add: finalizer_Complete_def finalizer_Fail_def finalizer_Cancel_def split: prod.split)

lemma returned_rows:
  "(case p of (s, w) \<Rightarrow> (Returned s, w)) = (res, rows', files') \<Longrightarrow> rows' = fst (snd p) \<and> res \<noteq> Threw"
  by (cases p) auto

lemma process_task_ends:
  assumes d: "dispatched (ti_task_id task) rows"
    and g: "\<forall>e \<in> set pages. (\<forall>op \<in> set (pe_g1 e). \<not> removes_or_requeues op) \<and> (\<forall>op \<in> set (pe_g2 e). \<not> removes_or_requeues op)"
    and g1: "\<forall>op \<in> set g1. \<not> removes_or_requeues op" and g2: "\<forall>op \<in> set g2. \<not> removes_or_requeues op"
    and sql: "te_sql env = sql_good" and "result \<noteq> ParseThrows" and "spc \<noteq> SpcThrows"
    and run: "ProcessTask env g1 g2 removable dir dump pages result spc task rows files = (res, rows', files')"
  shows "ended (ti_task_id task) rows' \<and> res \<noteq> Threw"
proof -
  let ?prog = "task\<lparr>ti_current_phase := ''parsing'', ti_failed_pages := []\<rparr>"
  have s: "te_sql env q = SqlOk" for q by (simp add: sql sql_good_def)
  obtain c rows1 where l: "page_loop pages ?prog rows = (c, rows1)" by (cases "page_loop pages ?prog rows")
  have i: "ti_task_id ?prog = ti_task_id task" by simp
  have p: "dispatched (ti_task_id task) rows1" "c \<longrightarrow> cancel_seen (ti_task_id task) rows1"
    using page_loop_dispatched[OF g _ l] d by simp_all
  have d1: "dispatched (ti_task_id task) (run_ops g1 rows1)" using dispatched_run(1)[OF g1 p(1)] .
  have d2: "dispatched (ti_task_id task) (run_ops g2 (run_ops g1 rows1))" using dispatched_run(1)[OF g2 d1] .
  have c2: "cancel_checker env (run_ops g1 rows1) (ti_task_id task) \<Longrightarrow> cancel_seen (ti_task_id task) (run_ops g2 (run_ops g1 rows1))"
    using checker_sees_cancel[OF d1] dispatched_run(2)[OF g2] by simp
  show ?thesis
  proof (cases c)
    case True
    have "ended (ti_task_id task) (snd (MarkCancelled env (run_ops g1 rows1) (ti_task_id task)))"
      using cancelled_ends[OF _ s] dispatched_run(2)[OF g1] p(2) True by simp
    moreover have "(case finalizer_Cancel env removable dir task (run_ops g1 rows1) files of (s, w) \<Rightarrow> (Returned s, w)) = (res, rows', files')"
      using run l True by (simp add: ProcessTask_def)
    ultimately show ?thesis using returned_rows finalizer_rows(3) by metis
  next
    case False
    have F: "c = False" using False by simp
    note run' = run[unfolded ProcessTask_def Let_def l F, simplified]
    show ?thesis
    proof (cases result)
      case (ParseError msg failed)
      then show ?thesis using run' failed_ends[OF d1 s] by (auto dest!: returned_rows simp: finalizer_rows)
    next
      case ParseOk
      show ?thesis
      proof (cases "cancel_checker env (run_ops g1 rows1) (ti_task_id task)")
        case True
        then show ?thesis using run' ParseOk cancelled_ends[OF c2[OF True] s] by (auto dest!: returned_rows simp: finalizer_rows)
      next
        case no: False
        show ?thesis
        proof (cases spc)
          case NoPipeline
          then show ?thesis using run' ParseOk no completed_ends[OF d2 s] by (auto dest!: returned_rows simp: finalizer_rows)
        next
          case (SpcReturns rc err msg)
          then show ?thesis using run' ParseOk no completed_ends[OF d2 s] failed_ends[OF d2 s]
            by (auto dest!: returned_rows simp: finalizer_rows split: if_splits)
        qed (use \<open>spc \<noteq> SpcThrows\<close> in simp)
      qed
    qed (use \<open>result \<noteq> ParseThrows\<close> in simp)
  qed
qed

section \<open>Properties of dispatch\<close>

lemma dequeue_empty:
  assumes sql: "te_sql env = sql_good" and none: "fst (Dequeue env [] w st) = Inr None"
  shows "\<forall>r \<in> set (sc_rows st). \<not> eligible (sc_active st) r"
proof (cases "oldest_row (filter (eligible (sc_active st)) (sc_rows st))")
  case None
  then show ?thesis by (simp add: oldest_None filter_empty_conv)
next
  case (Some r)
  then have "r \<in> set (sc_rows st)" "tr_status r = kQueued" using oldest_spec[OF Some] by (auto simp: eligible_def)
  then have "0 < changes (\<lambda>x. by_id (tr_task_id r) x \<and> tr_status x = kQueued) (sc_rows st)"
    by (auto simp: changes_pos_iff by_id_def)
  then have "ok (fst (MarkProcessing env (sc_rows st) (tr_task_id r) w))"
    by (simp add: MarkProcessing_def run_update_def sql sql_good_def)
  moreover have "SelectOldestQueuedTaskExcluding env (sc_rows st) (sc_active st) = Inr (Some (ReadRow r))"
    by (simp add: SelectOldestQueuedTaskExcluding_def sql sql_good_def Some)
  ultimately have "fst (Dequeue env [] w st) \<noteq> Inr None"
    by (simp add: Dequeue_def Let_def run_ops_def ReadRow_def case_prod_beta)
  then show ?thesis using none by simp
qed

text \<open>
  First in, first out, one document at a time.  When \<open>Dequeue\<close> hands out a task, its row was \<open>queued\<close> with a document
  that was not reserved, no other such row was created earlier, the row was still \<open>queued\<close> when it was marked, however
  other threads interleaved, and it is now \<open>processing\<close> for this worker, with the document reserved.  And when every
  statement succeeds and nobody interferes, \<open>Dequeue\<close> comes back empty only if no queued task is eligible.
\<close>
theorem dequeue_oldest_eligible:
  "(\<forall>t st'. Dequeue env g w st = (Inr (Some t), st') \<longrightarrow>
      (\<exists>r \<in> set (sc_rows st). eligible (sc_active st) r \<and> ti_task_id t = tr_task_id r
        \<and> (\<forall>r' \<in> set (sc_rows st). eligible (sc_active st) r' \<longrightarrow> tr_created_at r \<le> tr_created_at r')
        \<and> (\<exists>q \<in> set (run_ops g (sc_rows st)). tr_task_id q = tr_task_id r \<and> tr_status q = kQueued)
        \<and> (\<exists>p \<in> set (sc_rows st'). tr_task_id p = tr_task_id r \<and> tr_status p = kProcessing \<and> tr_worker_id p = Some w)
        \<and> (ti_doc_id t \<noteq> [] \<longrightarrow> \<not> IsDocActive st (ti_namespace_id t) (ti_doc_id t)
             \<and> IsDocActive st' (ti_namespace_id t) (ti_doc_id t))))
   \<and> (te_sql env = sql_good \<and> g = [] \<and> fst (Dequeue env g w st) = Inr None \<longrightarrow>
        (\<forall>r \<in> set (sc_rows st). \<not> eligible (sc_active st) r))"
proof (intro conjI allI impI)
  fix t st'
  assume "Dequeue env g w st = (Inr (Some t), st')"
  from dequeue_some[OF this] obtain r q where r: "r \<in> set (sc_rows st)" "eligible (sc_active st) r"
    "\<forall>r' \<in> set (sc_rows st). eligible (sc_active st) r' \<longrightarrow> tr_created_at r \<le> tr_created_at r'"
    "t = (ReadRow r)\<lparr>ti_status := kProcessing, ti_worker_id := w\<rparr>" "sc_active st' = reserve (ReadRow r) (sc_active st)"
    and q: "q \<in> set (run_ops g (sc_rows st))" "tr_task_id q = tr_task_id r" "tr_status q = kQueued"
      "q\<lparr>tr_status := kProcessing, tr_worker_id := Some w, tr_started_at := Some (te_now env), tr_updated_at := te_now env\<rparr> \<in> set (sc_rows st')"
    by blast
  have k: "ti_doc_id t \<noteq> [] \<Longrightarrow> doc_key (ReadRow r) = Some (ti_namespace_id t, ti_doc_id t)" by (simp add: r(4) doc_key_def)
  have "ti_doc_id t \<noteq> [] \<longrightarrow> \<not> IsDocActive st (ti_namespace_id t) (ti_doc_id t) \<and> IsDocActive st' (ti_namespace_id t) (ti_doc_id t)"
    using eligible_key[OF r(2) k] k set_reserve[of "ReadRow r" "sc_active st"] r(5) by (simp add: IsDocActive_def)
  moreover have "\<exists>p \<in> set (sc_rows st'). tr_task_id p = tr_task_id r \<and> tr_status p = kProcessing \<and> tr_worker_id p = Some w"
    by (rule bexI[OF _ q(4)]) (simp add: q(2))
  moreover have "ti_task_id t = tr_task_id r" by (simp add: r(4) ReadRow_def)
  ultimately show "\<exists>r \<in> set (sc_rows st). eligible (sc_active st) r \<and> ti_task_id t = tr_task_id r
        \<and> (\<forall>r' \<in> set (sc_rows st). eligible (sc_active st) r' \<longrightarrow> tr_created_at r \<le> tr_created_at r')
        \<and> (\<exists>q \<in> set (run_ops g (sc_rows st)). tr_task_id q = tr_task_id r \<and> tr_status q = kQueued)
        \<and> (\<exists>p \<in> set (sc_rows st'). tr_task_id p = tr_task_id r \<and> tr_status p = kProcessing \<and> tr_worker_id p = Some w)
        \<and> (ti_doc_id t \<noteq> [] \<longrightarrow> \<not> IsDocActive st (ti_namespace_id t) (ti_doc_id t)
             \<and> IsDocActive st' (ti_namespace_id t) (ti_doc_id t))"
    using r(1-3) q(1-3) by blast
next
  assume "te_sql env = sql_good \<and> g = [] \<and> fst (Dequeue env g w st) = Inr None"
  then show "\<forall>r \<in> set (sc_rows st). \<not> eligible (sc_active st) r" using dequeue_empty by blast
qed

theorem dequeue_oldest_eligible_witness:
  "\<exists>t st'. Dequeue (plain_env 1000 []) [] 1 \<lparr>sc_rows = [sample_row ''b'' kQueued ''/d/y'' ''2'', sample_row ''a'' kQueued ''/d/x'' ''1''], sc_active = []\<rparr>
      = (Inr (Some t), st') \<and> ti_task_id t = ''a'' \<and> IsDocActive st' ''ns'' ''doc''"
proof -
  let ?st = "\<lparr>sc_rows = [sample_row ''b'' kQueued ''/d/y'' ''2'', sample_row ''a'' kQueued ''/d/x'' ''1''], sc_active = []\<rparr>"
  have "\<exists>t st'. Dequeue (plain_env 1000 []) [] 1 ?st = (Inr (Some t), st') \<and> ti_task_id t = ''a'' \<and> ti_doc_id t = ''doc'' \<and> ti_namespace_id t = ''ns''"
    by (simp add: Dequeue_def SelectOldestQueuedTaskExcluding_def MarkProcessing_def run_update_def request_eval eligible_def)
  then obtain t st' where d: "Dequeue (plain_env 1000 []) [] 1 ?st = (Inr (Some t), st')" "ti_task_id t = ''a''" "ti_doc_id t = ''doc''" "ti_namespace_id t = ''ns''"
    by blast
  then have "IsDocActive st' ''ns'' ''doc''" using dequeue_oldest_eligible[of "plain_env 1000 []" "[]" 1 ?st] by auto
  then show ?thesis using d by blast
qed

text \<open>
  C26: two workers never work on the same document.  In every reachable state of the worker pool, under every interleaving of
  dequeues, completions and table changes by other threads and every outcome of the statements, the tasks that two
  different workers hold differ in namespace or document (unless they have none), and the document of every held task
  is reserved.
\<close>
theorem one_worker_per_document:
  assumes "pool_reachable (st, held)" "held w = Some t" "ti_doc_id t \<noteq> []"
  shows "IsDocActive st (ti_namespace_id t) (ti_doc_id t)
    \<and> (\<forall>w' t'. held w' = Some t' \<and> w' \<noteq> w \<longrightarrow> (ti_namespace_id t', ti_doc_id t') \<noteq> (ti_namespace_id t, ti_doc_id t))"
  using pool_exclusive[OF assms(1)] assms(2,3)
  unfolding exclusive_def IsDocActive_def doc_key_def by fastforce

theorem one_worker_per_document_witness:
  "\<exists>st held t. pool_reachable (st, held) \<and> held 1 = Some t \<and> IsDocActive st (ti_namespace_id t) (ti_doc_id t)"
proof -
  let ?st = "\<lparr>sc_rows = [sample_row ''a'' kQueued ''/d/x'' ''1''], sc_active = []\<rparr>"
  have "\<exists>t st'. Dequeue (plain_env 1000 []) [] 1 ?st = (Inr (Some t), st') \<and> ti_doc_id t = ''doc''"
    by (simp add: Dequeue_def SelectOldestQueuedTaskExcluding_def MarkProcessing_def run_update_def request_eval eligible_def)
  then obtain t st' where d: "Dequeue (plain_env 1000 []) [] 1 ?st = (Inr (Some t), st')" "ti_doc_id t = ''doc''" by blast
  have p: "pool_reachable (st', (\<lambda>w. None)(1 \<mapsto> t))"
    by (rule pool_next[OF pool_start take_task[OF _ d(1)]]) simp
  from one_worker_per_document[OF this, of 1 t] d(2) have "IsDocActive st' (ti_namespace_id t) (ti_doc_id t)" by simp
  then show ?thesis using p by (intro exI[of _ st'] exI[of _ "(\<lambda>w. None)(1 \<mapsto> t)"] exI[of _ t]) simp
qed

text \<open>
  C27: a dispatched task ends.  If a task is off the queue (and not flagged for cancel while \<open>processing\<close>), its statements
  succeed and neither the parser nor the pipeline throws, \<open>ProcessTask\<close> leaves its row \<open>completed\<close>, \<open>failed\<close> or \<open>cancelled\<close>: whether parsing and the later
  stages succeed or fail, however many pages are reported, and whatever other threads do between any two of its steps,
  cancel requests and sweeps at every point included, as long as nobody deletes or requeues tasks meanwhile.
\<close>
theorem dispatched_task_ends:
  assumes "tasks_wf rows" "r \<in> set rows" "tr_task_id r = ti_task_id task"
    and "tr_status r = kProcessing \<and> \<not> tr_cancel_requested r \<or> tr_status r = kCancelling"
    and "\<forall>e \<in> set pages. \<forall>op \<in> set (pe_g1 e @ pe_g2 e). \<not> removes_or_requeues op"
    and "\<forall>op \<in> set (g1 @ g2). \<not> removes_or_requeues op"
    and "te_sql env = sql_good" "result \<noteq> ParseThrows" "spc \<noteq> SpcThrows"
  shows "\<exists>s rows' files'. ProcessTask env g1 g2 removable dir dump pages result spc task rows files = (Returned s, rows', files')
     \<and> (\<exists>r' \<in> set rows'. tr_task_id r' = ti_task_id task \<and> tr_status r' \<in> {kCompleted, kFailed, kCancelled})"
proof -
  obtain res rows' files' where p: "ProcessTask env g1 g2 removable dir dump pages result spc task rows files = (res, rows', files')"
    by (metis prod_cases3)
  have "dispatched (ti_task_id task) rows" unfolding dispatched_def using assms(1-4) by (auto intro!: bexI[of _ r])
  from process_task_ends[OF this _ _ _ assms(7,8,9) p] assms(5,6)
  have "ended (ti_task_id task) rows'" "res \<noteq> Threw" by auto
  then show ?thesis using p by (cases res) (auto simp: ended_def terminal_def)
qed

theorem dispatched_task_ends_witness:
  "\<exists>s rows' files'. ProcessTask (plain_env 1000 []) [OpCancel (plain_env 1000 []) ''a''] [] (\<lambda>_. True) ''/d'' (\<lambda>_. []) [] ParseOk NoPipeline
      (ReadRow (sample_row ''a'' kProcessing ''/d/x'' ''1'')) [sample_row ''a'' kProcessing ''/d/x'' ''1''] [''/d/x''] = (Returned s, rows', files')
     \<and> (\<exists>r' \<in> set rows'. tr_task_id r' = ''a'' \<and> tr_status r' \<in> {kCompleted, kFailed, kCancelled})"
proof -
  let ?r = "sample_row ''a'' kProcessing ''/d/x'' ''1''"
  have "tasks_wf [?r]" "?r \<in> set [?r]" "tr_task_id ?r = ti_task_id (ReadRow ?r)"
    "tr_status ?r = kProcessing \<and> \<not> tr_cancel_requested ?r \<or> tr_status ?r = kCancelling"
    by (simp_all add: tasks_wf_def sample_row_def task_statuses_def ReadRow_def)
  from dispatched_task_ends[OF this, of "[]" "[OpCancel (plain_env 1000 []) ''a'']" "[]" "plain_env 1000 []" ParseOk NoPipeline]
  show ?thesis by (simp add: plain_env_def ReadRow_def sample_row_def)
qed

end
