(* ===== verification/Task_Inputs.thy ===== *)
theory Task_Inputs
  imports Task_Dispatch
begin

text \<open>
  The files tasks read.  The resolved path stored with a row answers the reference check of a release; it is right in every
  table the manager builds, except after a debounce refresh.  Also the sweep of orphaned inputs
  (\<^verbatim>\<open>src/server/batch_temp_store.cpp\<close>).
\<close>

section \<open>The resolved path column\<close>

definition input_known :: "(string \<Rightarrow> string option) \<Rightarrow> task_row list \<Rightarrow> bool" where
  "input_known canon rows \<longleftrightarrow> (\<forall>r \<in> set rows. tr_filepath_canonical r = None \<or> tr_filepath_canonical r = canon (tr_filepath r))"

text \<open>
  Resolving a path asks the file system and may fail at any call.  An environment \<open>resolves\<close> to \<open>canon\<close> when every answer it
  does give is that of \<open>canon\<close>: the file a path leads to does not change while the service runs.
\<close>

definition resolves :: "(string \<Rightarrow> string option) \<Rightarrow> task_env \<Rightarrow> bool" where
  "resolves canon env \<longleftrightarrow> (\<forall>p c. te_canonical env p = Some c \<longrightarrow> canon p = Some c)"

fun op_env :: "task_op \<Rightarrow> task_env" where
  "op_env (OpInit env) = env"
| "op_env (OpCreate env t) = env"
| "op_env (OpProgress env t) = env"
| "op_env (OpProcessing env i w) = env"
| "op_env (OpCompleted env i doc) = env"
| "op_env (OpFailed env i err msg data) = env"
| "op_env (OpCancel env i) = env"
| "op_env (OpCancelled env i) = env"
| "op_env (OpClaim env i) = env"
| "op_env (OpRefresh env i req) = env"
| "op_env (OpDelete env now days) = env"
| "op_env (OpZombies env now hours) = env"
| "op_env (OpTimedOut env now secs) = env"
| "op_env (OpRequeue env now hours) = env"

fun refreshes :: "task_op \<Rightarrow> bool" where
  "refreshes (OpRefresh env i req) = True"
| "refreshes _ = False"

lemma known_payload:
  "input_known canon rows \<Longrightarrow> (\<And>r'. r' \<in> set rows' \<Longrightarrow> \<exists>r \<in> set rows. payload r' = payload r) \<Longrightarrow> input_known canon rows'"
  unfolding input_known_def payload_def by (metis prod.inject)

lemma known_backfill:
  assumes "tasks_wf rows" "input_known canon rows" "resolves canon env"
  shows "input_known canon (BackfillCanonicalInputsLocked env rows)"
proof -
  have one: "input_known canon (backfill_one env p rs)"
    if "input_known canon rs" "\<forall>r \<in> set rs. tr_task_id r = fst p \<longrightarrow> tr_filepath r = snd p" for p rs
    using that assms(3) unfolding backfill_one_def input_known_def resolves_def
    by (auto simp: set_update_rows split: option.splits if_splits)
  have keep: "\<forall>r \<in> set (backfill_one env p rs). tr_task_id r = fst q \<longrightarrow> tr_filepath r = snd q"
    if "\<forall>r \<in> set rs. tr_task_id r = fst q \<longrightarrow> tr_filepath r = snd q" for p q rs
    using that unfolding backfill_one_def by (auto simp: set_update_rows split: option.splits if_splits)
  have all: "input_known canon rs \<Longrightarrow> \<forall>p \<in> set ps. \<forall>r \<in> set rs. tr_task_id r = fst p \<longrightarrow> tr_filepath r = snd p \<Longrightarrow>
      input_known canon (fold (backfill_one env) ps rs)" for ps rs
  proof (induction ps arbitrary: rs)
    case (Cons p ps)
    have "input_known canon (backfill_one env p rs)" using one Cons.prems by simp
    moreover have "\<forall>q \<in> set ps. \<forall>r \<in> set (backfill_one env p rs). tr_task_id r = fst q \<longrightarrow> tr_filepath r = snd q"
      using keep Cons.prems(2) by (meson list.set_intros(2))
    ultimately show ?case using Cons.IH by simp
  qed simp
  have "\<forall>p \<in> set (map (\<lambda>r. (tr_task_id r, tr_filepath r)) (filter needs_backfill rows)).
      \<forall>r \<in> set rows. tr_task_id r = fst p \<longrightarrow> tr_filepath r = snd p"
  proof (intro ballI impI)
    fix p r
    assume "p \<in> set (map (\<lambda>r. (tr_task_id r, tr_filepath r)) (filter needs_backfill rows))" "r \<in> set rows" "tr_task_id r = fst p"
    then obtain r' where "r' \<in> set rows" "p = (tr_task_id r', tr_filepath r')" by auto
    moreover have "r' = r" using by_id_unique[OF assms(1) \<open>r \<in> set rows\<close>] calculation \<open>tr_task_id r = fst p\<close> by simp
    ultimately show "tr_filepath r = snd p" by simp
  qed
  from all[OF assms(2) this] assms(2) show ?thesis unfolding BackfillCanonicalInputsLocked_def by (rule if_split[THEN iffD2, OF conjI, OF impI impI, rotated])
qed

lemma known_create:
  assumes "input_known canon rows" "resolves canon env"
  shows "input_known canon (snd (CreateTask env rows t))"
proof -
  have "canonical_column env p = None \<or> canonical_column env p = canon p" for p
    using assms(2) by (simp add: canonical_column_def BindNullableText_def resolves_def split: option.split)
  then have "input_known canon (rows @ [row_of env u])" for u
    using assms(1) by (auto simp: input_known_def row_of_def)
  then show ?thesis using assms(1) unfolding CreateTask_def Let_def by simp
qed

lemma other_payload:
  assumes "\<not> concurrent_op op" "\<not> refreshes op" "r' \<in> set (task_apply op rows)"
    "\<And>env. op \<noteq> OpInit env" "\<And>env t. op \<noteq> OpCreate env t"
  shows "\<exists>r \<in> set rows. payload r' = payload r"
proof (cases op)
  case (OpProcessing env i w)
  show ?thesis using assms(3) unfolding OpProcessing task_apply.simps MarkProcessing_def snd_after_update
    by (rule update_payload[rotated]) (simp add: payload_def identity_def)
next
  case (OpClaim env i)
  have "r' \<in> set (snd (run_update env QClaim ''TryClaimDebounceMerge''
      (\<lambda>r. by_id i r \<and> tr_status r \<noteq> kCancelled \<and> tr_status r \<noteq> kCancelling \<and> tr_status r \<noteq> kFailed)
      (\<lambda>r. r\<lparr>tr_updated_at := te_now env\<rparr>) rows))"
    using assms(3) unfolding OpClaim task_apply.simps TryClaimDebounceMerge_def
    by (subst (asm) snd_case_update) (auto split: option.split)
  then show ?thesis by (rule update_payload[rotated]) (simp add: payload_def identity_def)
next
  case (OpRequeue env now hours)
  show ?thesis using assms(3) unfolding OpRequeue task_apply.simps RequeueStaleProcessing_def
    by (rule update_payload[rotated]) (simp add: payload_def identity_def)
qed (use assms in auto)

lemma known_op:
  assumes "tasks_wf rows" "input_known canon rows" "resolves canon (op_env op)" "\<not> refreshes op"
  shows "input_known canon (task_apply op rows)"
proof -
  consider env where "op = OpInit env" | env t where "op = OpCreate env t"
    | "\<And>env. op \<noteq> OpInit env" "\<And>env t. op \<noteq> OpCreate env t" by (cases op) auto
  then show ?thesis
  proof cases
    case 3
    show ?thesis by (rule known_payload[OF assms(2)]) (use 3 assms concurrent_payload other_payload in blast)
  qed (use assms known_backfill known_create in auto)
qed

lemma known_run:
  assumes "\<forall>op \<in> set ops. resolves canon (op_env op) \<and> \<not> refreshes op" "tasks_wf rows" "input_known canon rows"
  shows "input_known canon (run_ops ops rows)"
  using assms unfolding run_ops_def by (induction ops arbitrary: rows) (auto simp: known_op tasks_wf_op)

section \<open>Release\<close>

lemma release_cases:
  assumes "ReleaseManagedPath env removable dir filepath exclude rows files = (b, files')"
  shows "(b = False \<and> files' = files) \<or>
    (\<exists>d path. te_canonical env dir = Some d \<and> te_canonical env filepath = Some path \<and> parent_path path = d
       \<and> b \<and> path \<in> set files \<and> files' = removeAll path files \<and> path \<noteq> []
       \<and> (\<forall>r \<in> set rows. \<not> references path exclude r \<and> \<not> unresolved exclude r))"
  using assms unfolding ReleaseManagedPath_def ReleaseInputIfUnreferenced_def remove_file_def
  by (auto simp: find_None_iff split: if_splits option.splits sql_outcome.splits)

lemma release_keeps:
  assumes "ReleaseManagedPath env removable dir filepath exclude rows files = (b, files')"
    and known: "input_known canon rows"
    and r: "r \<in> set rows" "\<not> terminal (tr_status r)" "tr_task_id r \<noteq> exclude" "tr_filepath r \<noteq> []"
    and c: "canon (tr_filepath r) = Some c" "c \<in> set files"
  shows "c \<in> set files'"
proof (rule ccontr)
  assume "c \<notin> set files'"
  then obtain path where p: "c = path" "\<not> references path exclude r" "\<not> unresolved exclude r"
    using release_cases[OF assms(1)] c(2) r(1) by auto
  then have "tr_filepath_canonical r \<noteq> None" "tr_filepath_canonical r \<noteq> Some c"
    using r by (auto simp: references_def unresolved_def)
  then show False using known r(1) c(1) by (auto simp: input_known_def)
qed

section \<open>Sweep of orphaned inputs\<close>

text \<open>
  An entry of the input directory: its path, whether it is a regular file, and its age in seconds where its time can be
  read.  \<open>keep_set\<close> resolves the paths of the live tasks; one that does not resolve is left out.
\<close>

record dir_entry =
  de_path :: string
  de_regular :: bool
  de_age :: "int option"

definition keep_set :: "task_env \<Rightarrow> (string \<times> string) list \<Rightarrow> string list" where
  "keep_set env live = List.map_filter (\<lambda>(i, fp). if fp = [] then None else te_canonical env fp) live"

definition orphan :: "task_env \<Rightarrow> string list \<Rightarrow> dir_entry \<Rightarrow> bool" where
  "orphan env keep e \<longleftrightarrow> de_regular e
     \<and> (case te_canonical env (de_path e) of Some c \<Rightarrow> c | None \<Rightarrow> de_path e) \<notin> set keep
     \<and> (case de_age e of Some a \<Rightarrow> \<not> a < 300 | None \<Rightarrow> True)"

definition SweepOrphanedBatchInputs ::
  "task_env \<Rightarrow> (string \<Rightarrow> bool) \<Rightarrow> string \<Rightarrow> bool \<Rightarrow> task_row list \<Rightarrow> dir_entry list \<Rightarrow> nat task_result \<times> dir_entry list" where
  "SweepOrphanedBatchInputs env removable dir dir_exists rows entries =
     (if dir = [] \<or> \<not> dir_exists then (Inr 0, entries)
      else case LiveTaskInputs env rows of
        Inl s \<Rightarrow> (Inl s, entries)
      | Inr live \<Rightarrow>
          (let gone = (\<lambda>e. orphan env (keep_set env live) e \<and> removable (de_path e))
           in (Inr (length (filter gone entries)), filter (\<lambda>e. \<not> gone e) entries)))"

lemma sweep_keeps:
  assumes "SweepOrphanedBatchInputs env removable dir dir_exists rows entries = (res, entries')"
    and "e \<in> set entries" "r \<in> set rows" "\<not> terminal (tr_status r)" "tr_filepath r \<noteq> []"
    and "te_canonical env (tr_filepath r) = Some c" "te_canonical env (de_path e) = Some c"
  shows "e \<in> set entries'"
proof -
  have "c \<in> set (keep_set env (map (\<lambda>r. (tr_task_id r, tr_filepath r)) (filter (\<lambda>r. \<not> terminal (tr_status r) \<and> tr_filepath r \<noteq> []) rows)))"
    unfolding keep_set_def using assms(3-6) by (force simp: List.map_filter_def)
  then show ?thesis using assms(1,2,7) unfolding SweepOrphanedBatchInputs_def LiveTaskInputs_def
    by (auto simp: orphan_def Let_def split: if_splits sql_outcome.splits)
qed

section \<open>Properties\<close>

text \<open>
  C29: releasing an input never takes a file a live task needs.  In every table the manager builds by any sequence of calls
  without a debounce refresh, where resolving a path may fail at any call but never gives two different answers, a release of any
  path for any task, under every outcome of its statements, keeps the file of every other live task, whichever way its row spells
  the path and whether or not the path could be resolved when the row was written; it removes at most the one file it was asked
  for, and only from the managed directory itself; and it reports a removal exactly when it made one.  (With a refresh the first
  part fails: refresh_loses_input.)
\<close>
theorem live_inputs_survive:
  assumes "\<forall>op \<in> set ops. resolves canon (op_env op) \<and> \<not> refreshes op" "resolves canon env"
    and "rows = run_ops ops []"
    and "ReleaseManagedPath env removable dir filepath exclude rows files = (b, files')"
  shows "(\<forall>r \<in> set rows. \<forall>c. \<not> terminal (tr_status r) \<and> tr_task_id r \<noteq> exclude \<and> tr_filepath r \<noteq> []
            \<and> canon (tr_filepath r) = Some c \<and> c \<in> set files \<longrightarrow> c \<in> set files')
       \<and> (\<forall>c \<in> set files. c \<notin> set files' \<longrightarrow> te_canonical env filepath = Some c \<and> te_canonical env dir = Some (parent_path c))
       \<and> (b = (\<exists>c \<in> set files. c \<notin> set files'))"
proof -
  have "tasks_wf ([] :: task_row list)" "input_known canon []" by (simp_all add: tasks_wf_def input_known_def)
  then have known: "input_known canon rows" using known_run[OF assms(1)] assms(3) by simp
  show ?thesis using release_keeps[OF assms(4) known] release_cases[OF assms(4)] by auto
qed

definition spelling :: "string \<Rightarrow> string option" where
  "spelling p = Some (if p = ''/d/./x'' then ''/d/x'' else p)"

definition spell_env :: task_env where
  "spell_env = (plain_env 1000 [])\<lparr>te_canonical := spelling\<rparr>"

text \<open>In the witness one row was written while its path could not be resolved, and the release spells that file otherwise.\<close>

theorem live_inputs_survive_witness:
  "\<exists>rows b files'. rows = run_ops [OpCreate (spell_env\<lparr>te_canonical := (\<lambda>_. None)\<rparr>)
       (TaskInfo_default\<lparr>ti_task_id := ''a'', ti_filepath := ''/d/./x''\<rparr>)] []
     \<and> rows \<noteq> [] \<and> ReleaseManagedPath spell_env (\<lambda>_. True) ''/d'' ''/d/x'' ''b'' rows [''/d/x''] = (b, files') \<and> ''/d/x'' \<in> set files'"
proof -
  let ?e = "spell_env\<lparr>te_canonical := (\<lambda>_. None)\<rparr>"
  let ?rows = "run_ops [OpCreate ?e (TaskInfo_default\<lparr>ti_task_id := ''a'', ti_filepath := ''/d/./x''\<rparr>)] []"
  obtain b files' where p: "ReleaseManagedPath spell_env (\<lambda>_. True) ''/d'' ''/d/x'' ''b'' ?rows [''/d/x''] = (b, files')"
    by (metis prod.exhaust)
  have r: "\<exists>r. ?rows = [r] \<and> \<not> terminal (tr_status r) \<and> tr_task_id r = ''a'' \<and> tr_filepath r = ''/d/./x''"
    by (simp add: run_ops_def spell_env_def CreateTask_def insert_allowed_def row_of_def task_statuses_def
        TaskInfo_default_def plain_env_def sql_good_def terminal_def Let_def)
  have s: "resolves spelling spell_env" "resolves spelling ?e" "spelling ''/d/./x'' = Some ''/d/x''"
    by (simp_all add: resolves_def spell_env_def spelling_def)
  have "''/d/x'' \<in> set files'" using live_inputs_survive[OF _ s(1) refl p] r s(2,3) by auto
  then show ?thesis using p r by (intro exI[of _ ?rows]) auto
qed

text \<open>
  The refresh stores the new path and keeps the resolved path of the old one.  Two tasks then read \<open>/d/y\<close>, the refreshed one
  is still queued, and the completion of the other removes the file.
\<close>

definition refreshed_table :: "task_row list" where
  "refreshed_table = snd (UpdateTaskForDebounce (plain_env 1000 []) (\<lambda>r. r)
     [sample_row ''a'' kQueued ''/d/x'' ''1'', sample_row ''b'' kProcessing ''/d/y'' ''2''] ''a'' (sample_request ''/d/y'' ''h2''))"

theorem refresh_loses_input:
  "(\<exists>r \<in> set refreshed_table. tr_task_id r = ''a'' \<and> tr_status r = kQueued \<and> tr_filepath r = ''/d/y''
       \<and> tr_filepath_canonical r = Some ''/d/x'')
   \<and> snd (snd (finalizer_Complete (plain_env 2000 []) (\<lambda>_. True) ''/d'' (ReadRow (sample_row ''b'' kProcessing ''/d/y'' ''2'')) ''doc''
        refreshed_table [''/d/y''])) = []"
proof
  show "\<exists>r \<in> set refreshed_table. tr_task_id r = ''a'' \<and> tr_status r = kQueued \<and> tr_filepath r = ''/d/y''
       \<and> tr_filepath_canonical r = Some ''/d/x''"
    by (simp add: refreshed_table_def UpdateTaskForDebounce_def run_update_def request_eval GetTask_def refresh_row_def)
  show "snd (snd (finalizer_Complete (plain_env 2000 []) (\<lambda>_. True) ''/d'' (ReadRow (sample_row ''b'' kProcessing ''/d/y'' ''2'')) ''doc''
        refreshed_table [''/d/y''])) = []"
    by (simp add: refreshed_table_def UpdateTaskForDebounce_def run_update_def request_eval GetTask_def refresh_row_def
        finalizer_Complete_def MarkCompleted_def release_if_ok_def ReleaseManagedInput_def ReleaseManagedPath_def
        ReleaseInputIfUnreferenced_def references_def unresolved_def remove_file_def parent_path_def terminal_def)
qed

text \<open>
  A merge compares the two paths as text, and the release it then asks for does not count the task it merged into: a
  resubmission that spells the same file differently removes the input of the queued task that carries it.
\<close>

definition startup_releaser :: "task_env \<Rightarrow> string \<Rightarrow> string list releaser" where
  "startup_releaser env dir = Some (\<lambda>path owner rows files. snd (ReleaseManagedPath env (\<lambda>_. True) dir path owner rows files))"

theorem merge_removes_own_input:
  "\<exists>t rows'. Enqueue spell_env [] [] [] None (startup_releaser spell_env ''/d'') (sample_request ''/d/./x'' ''h'')
       [sample_row ''a'' kQueued ''/d/x'' (NowIso8601 1000)] [''/d/x''] = (Inr (t, Merged), rows', [])
     \<and> (\<exists>r \<in> set rows'. tr_task_id r = ''a'' \<and> tr_status r = kQueued \<and> tr_filepath r = ''/d/x'')"
proof -
  have "FindRecentTaskByDocId spell_env [sample_row ''a'' kQueued ''/d/x'' (NowIso8601 1000)] ''ns'' ''doc'' 1 5
      = Inr (Some (ReadRow (sample_row ''a'' kQueued ''/d/x'' (NowIso8601 1000))))"
    using stamp_in_window
    by (simp add: FindRecentTaskByDocId_def debounce_candidate_def spell_env_def plain_env_def sql_good_def sample_row_def)
  then show ?thesis
    unfolding Enqueue_def
    by (simp add: DebounceSeconds_def GetInt_def sample_request_def)
       (simp add: request_eval TryClaimDebounceMerge_def run_update_def spell_env_def spelling_def ReleaseUnadoptedInput_def
          startup_releaser_def ReleaseManagedPath_def ReleaseInputIfUnreferenced_def references_def unresolved_def
          remove_file_def parent_path_def terminal_def)
qed

text \<open>The sweep deletes the input of a live task whose stored path does not resolve.\<close>

theorem sweep_takes_unresolved_input:
  "\<exists>env. snd (SweepOrphanedBatchInputs env (\<lambda>_. True) ''/d'' True [sample_row ''a'' kQueued ''/link/x'' ''1'']
       [\<lparr>de_path = ''/d/x'', de_regular = True, de_age = Some 1000\<rparr>]) = [] \<and> te_sql env = sql_good \<and> te_canonical env ''/link/x'' = None"
proof -
  let ?env = "(plain_env 1000 [])\<lparr>te_canonical := \<lambda>p. if p = ''/link/x'' then None else Some p\<rparr>"
  have "snd (SweepOrphanedBatchInputs ?env (\<lambda>_. True) ''/d'' True [sample_row ''a'' kQueued ''/link/x'' ''1'']
       [\<lparr>de_path = ''/d/x'', de_regular = True, de_age = Some 1000\<rparr>]) = []"
    by (simp add: SweepOrphanedBatchInputs_def LiveTaskInputs_def plain_env_def sql_good_def sample_row_def terminal_def
        keep_set_def orphan_def List.map_filter_def Let_def)
  then show ?thesis by (intro exI[of _ ?env]) (simp add: plain_env_def)
qed

section \<open>Tasks nobody ends\<close>

text \<open>
  The sweep of orphaned inputs keeps every entry that a live task needs.  Whatever the live rows, an entry of the input
  directory whose resolved path is the resolved path of a live task survives the sweep, however either is spelled and
  however old the file is; and when the live tasks cannot be read, nothing is removed.
\<close>

theorem sweep_keeps_live_inputs:
  assumes "SweepOrphanedBatchInputs env removable dir dir_exists rows entries = (res, entries')"
  shows "(\<forall>e \<in> set entries. \<forall>r \<in> set rows. \<forall>c. \<not> terminal (tr_status r) \<and> tr_filepath r \<noteq> []
            \<and> te_canonical env (tr_filepath r) = Some c \<and> te_canonical env (de_path e) = Some c \<longrightarrow> e \<in> set entries')
       \<and> (te_sql env QLiveInputs \<noteq> SqlOk \<longrightarrow> entries' = entries)"
proof -
  have "te_sql env QLiveInputs \<noteq> SqlOk \<Longrightarrow> entries' = entries"
    using assms by (cases "te_sql env QLiveInputs") (auto simp: SweepOrphanedBatchInputs_def LiveTaskInputs_def split: if_splits)
  then show ?thesis using sweep_keeps[OF assms] by blast
qed

theorem sweep_keeps_live_inputs_witness:
  "\<lparr>de_path = ''/d/x'', de_regular = True, de_age = Some 1000\<rparr> \<in> set (snd (SweepOrphanedBatchInputs spell_env (\<lambda>_. True) ''/d'' True
     [sample_row ''a'' kQueued ''/d/./x'' ''1''] [\<lparr>de_path = ''/d/x'', de_regular = True, de_age = Some 1000\<rparr>]))"
  using sweep_keeps_live_inputs[of spell_env "\<lambda>_. True" "''/d''" True "[sample_row ''a'' kQueued ''/d/./x'' ''1'']"
      "[\<lparr>de_path = ''/d/x'', de_regular = True, de_age = Some 1000\<rparr>]", OF prod.collapse[symmetric]]
  by (simp add: spell_env_def spelling_def sample_row_def terminal_def)

text \<open>What is left to run after a restart: the scheduler, the request handlers, recovery and the cleanup cron.\<close>

fun after_restart :: "task_op \<Rightarrow> bool" where
  "after_restart (OpCreate env t) = True"
| "after_restart (OpProcessing env i w) = True"
| "after_restart (OpCancel env i) = True"
| "after_restart (OpClaim env i) = True"
| "after_restart (OpRefresh env i req) = True"
| "after_restart (OpDelete env now days) = True"
| "after_restart (OpZombies env now hours) = True"
| "after_restart (OpTimedOut env now secs) = True"
| "after_restart (OpRequeue env now hours) = True"
| "after_restart _ = False"

lemma kept_by_run_update:
  "r \<in> set rows \<Longrightarrow> \<not> P r \<Longrightarrow> r \<in> set (snd (run_update env q what P f rows))"
  by (auto simp: run_update_def update_rows_def image_iff intro!: bexI[of _ r] split: sql_outcome.split)

lemma cancelling_kept:
  assumes wf: "tasks_wf rows" and r: "r \<in> set rows" "tr_status r = kCancelling" and "after_restart op"
  shows "r \<in> set (task_apply op rows)"
proof (cases op)
  case (OpProcessing env i w)
  show ?thesis unfolding OpProcessing task_apply.simps MarkProcessing_def snd_after_update by (rule kept_by_run_update) (simp_all add: r)
next
  case (OpCancel env i)
  have "find (by_id i) rows = Some x \<Longrightarrow> by_id i r \<Longrightarrow> x = r" for x
    using find_by_id_iff[OF wf] by_id_unique[OF wf r(1)] by (metis by_id_def)
  then have "by_id i r \<Longrightarrow> snd (RequestCancel env rows i) = rows"
    unfolding RequestCancel_def Let_def using r(2) by (auto simp: select_row_def ReadRow_def split: option.split)
  then show ?thesis using r(1) unfolding OpCancel task_apply.simps RequestCancel_def Let_def
    by (cases "by_id i r") (auto simp: update_rows_def image_iff intro!: bexI[of _ r] split: option.split)
next
  case (OpClaim env i)
  have "r \<in> set (snd (run_update env QClaim ''TryClaimDebounceMerge''
      (\<lambda>r. by_id i r \<and> tr_status r \<noteq> kCancelled \<and> tr_status r \<noteq> kCancelling \<and> tr_status r \<noteq> kFailed)
      (\<lambda>r. r\<lparr>tr_updated_at := te_now env\<rparr>) rows))"
    by (rule kept_by_run_update) (simp_all add: r)
  then show ?thesis unfolding OpClaim task_apply.simps TryClaimDebounceMerge_def
    by (subst snd_case_update) (auto split: option.split)
next
  case (OpRefresh env i req)
  have "r \<in> set (snd (run_update env QDebounce ''UpdateTaskForDebounce'' (\<lambda>r. by_id i r \<and> tr_status r = kQueued) (refresh_row env req) rows))"
    by (rule kept_by_run_update) (simp_all add: r)
  then show ?thesis unfolding OpRefresh task_apply.simps UpdateTaskForDebounce_def by (subst snd_case_update) auto
next
  case (OpDelete env now days)
  then show ?thesis using r by (auto simp: DeleteExpired_def Let_def terminal_def split: sql_outcome.split)
next
  case (OpZombies env now hours)
  show ?thesis unfolding OpZombies task_apply.simps SweepZombies_def by (rule kept_by_run_update) (simp_all add: r)
next
  case (OpTimedOut env now secs)
  show ?thesis unfolding OpTimedOut task_apply.simps SweepTimedOut_def by (rule kept_by_run_update) (simp_all add: r)
next
  case (OpRequeue env now hours)
  show ?thesis unfolding OpRequeue task_apply.simps RequeueStaleProcessing_def by (rule kept_by_run_update) (simp_all add: r)
qed (use assms in \<open>auto simp: CreateTask_def Let_def\<close>)

lemma cancelling_kept_run:
  "\<forall>op \<in> set ops. after_restart op \<Longrightarrow> tasks_wf rows \<Longrightarrow> r \<in> set rows \<Longrightarrow> tr_status r = kCancelling \<Longrightarrow> r \<in> set (run_ops ops rows)"
  unfolding run_ops_def
  by (induction ops arbitrary: rows) (auto simp: cancelling_kept tasks_wf_op)

text \<open>
  A task whose worker died while it was being cancelled never ends.  A row that is \<open>cancelling\<close> when the process restarts
  is left exactly as it is by crash recovery, both sweeps, the deletion of expired tasks, repeated cancels and the scheduler,
  in any order and for ever; the document counts as having an active task ever after, and the row's input is never
  released.
\<close>
theorem cancelling_task_never_ends:
  assumes "tasks_wf rows" "r \<in> set rows" "tr_status r = kCancelling" "tr_doc_id r = Some doc"
    and "\<forall>op \<in> set ops. after_restart op" and "te_sql env = sql_good"
  shows "r \<in> set (run_ops ops rows)
    \<and> tm_HasActiveTask env (run_ops ops rows) (tr_namespace_id r) doc (tr_task_type r) = Inr True"
proof -
  have m: "r \<in> set (run_ops ops rows)" using cancelling_kept_run[OF assms(5,1,2,3)] .
  then have "find (active_row (tr_namespace_id r) doc (tr_task_type r)) (run_ops ops rows) \<noteq> None"
    using assms(3,4) by (auto simp: find_None_iff active_row_def)
  then show ?thesis using m by (simp add: tm_HasActiveTask_def assms(6) sql_good_def)
qed

theorem cancelling_task_never_ends_witness:
  "tm_HasActiveTask (plain_env 1000 []) (run_ops [OpRequeue (plain_env 1000 []) 1000000 24, OpZombies (plain_env 1000 []) 1000000 24]
      [sample_row ''a'' kCancelling ''/d/x'' ''1'']) ''ns'' ''doc'' 1 = Inr True"
proof -
  let ?r = "sample_row ''a'' kCancelling ''/d/x'' ''1''"
  have "tasks_wf [?r]" "?r \<in> set [?r]" "tr_status ?r = kCancelling" "tr_doc_id ?r = Some ''doc''"
    by (simp_all add: tasks_wf_def sample_row_def task_statuses_def)
  from cancelling_task_never_ends[OF this, of "[OpRequeue (plain_env 1000 []) 1000000 24, OpZombies (plain_env 1000 []) 1000000 24]" "plain_env 1000 []"]
  show ?thesis by (simp add: plain_env_def sample_row_def)
qed

text \<open>A task without a registered handler is dispatched, left \<open>processing\<close>, and its document is released.\<close>

theorem unhandled_task_left_processing:
  "\<exists>t st'. WorkerTurn (plain_env 1000 []) [] (\<lambda>_. None) 1 \<lparr>sc_rows = [sample_row ''a'' kQueued ''/d/x'' ''1''], sc_active = []\<rparr> []
      = (Some t, st', []) \<and> map tr_status (sc_rows st') = [kProcessing] \<and> \<not> IsDocActive st' ''ns'' ''doc''"
  by (simp add: WorkerTurn_def Dequeue_def SelectOldestQueuedTaskExcluding_def MarkProcessing_def run_update_def request_eval
      eligible_def OnTaskCompleted_def IsDocActive_def unreserve_def reserve_def doc_key_def)

end
