(* ===== verification/Task_Requests.thy ===== *)
theory Task_Requests
  imports Task_Inputs
begin

text \<open>
  The request handlers of the task service (\<^verbatim>\<open>include/cortrix/async/document_task_handler.h\<close>,
  \<^verbatim>\<open>src/async/document_task_handler.cpp\<close>): submission, progress and cancel, with the bodies they answer; and the schedule
  of the cleanup cron.  \<open>parse\<close> is the JSON parser, which may fail.
\<close>

section \<open>Handlers\<close>

record HttpResult =
  hr_status :: int
  hr_body :: json

record SubmitParams =
  sp_namespace_id :: string
  sp_filename :: string
  sp_filepath :: string
  sp_doc_id :: string
  sp_content_hash :: string
  sp_trace_id :: string
  sp_page_count :: int
  sp_async_overflow :: bool

definition ErrorResult :: "F42ErrorCode \<Rightarrow> json \<Rightarrow> string \<Rightarrow> HttpResult" where
  "ErrorResult c sd m = \<lparr>hr_status = F42ErrorHttpStatus c, hr_body = JObj [(''error'', error_ToJson (MakeF42Error c sd m))]\<rparr>"

definition AsyncThresholdPages :: "config \<Rightarrow> int" where
  "AsyncThresholdPages cfg = GetInt cfg ''f42.async_threshold_pages'' 200"

definition AsyncMaxPages :: "config \<Rightarrow> int" where
  "AsyncMaxPages cfg = GetInt cfg ''f42.async_max_pages'' 2000"

definition text_or_null :: "bool \<Rightarrow> string \<Rightarrow> json" where
  "text_or_null shown t = (if shown \<and> t \<noteq> [] then JStr t else JNull)"

definition decision_hint :: "string \<Rightarrow> string" where
  "decision_hint st =
     (if st = kQueued \<or> st = kProcessing then ''poll_again_in_5s''
      else if st = kCompleted then ''done_fetch_doc''
      else if st = kCancelling then ''cancel_in_progress_poll''
      else if st = kCancelled then ''cancelled_stop''
      else ''inspect_error_code'')"

definition progress_meta :: "TaskInfo \<Rightarrow> json" where
  "progress_meta t = JObj
     [(''worker_id'', JInt (ti_worker_id t)), (''current_phase'', JStr (ti_current_phase t)),
      (''retryable_if_fail'', JBool (\<not> (ti_status t = kFailed \<and> ti_error_code t = ''CX_ERR_DOC_DELETED''))),
      (''agent_decision_hint'', JStr (decision_hint (ti_status t))), (''estimated_finish_at'', JNull)]"

definition BuildProgressBody :: "(string \<Rightarrow> json option) \<Rightarrow> TaskInfo \<Rightarrow> json" where
  "BuildProgressBody parse t =
     (let failed = (ti_status t = kFailed) in JObj
       [(''task_id'', JStr (ti_task_id t)), (''status'', JStr (ti_status t)), (''total_pages'', JInt (ti_total_pages t)),
        (''processed_pages'', JInt (ti_processed_pages t)), (''failed_pages'', JArr (map JInt (ti_failed_pages t))),
        (''progress_pct'', JNum (ti_progress_pct t)), (''eta_seconds'', JInt (ti_eta_seconds t)),
        (''started_at'', JStr (ti_started_at t)), (''updated_at'', JStr (ti_updated_at t)),
        (''doc_id'', text_or_null True (ti_doc_id t)), (''trace_id'', text_or_null True (ti_trace_id t)),
        (''error_code'', text_or_null failed (ti_error_code t)), (''error_msg'', text_or_null failed (ti_error_msg t)),
        (''structured_data'', if failed \<and> ti_structured_data t \<noteq> []
           then (case parse (ti_structured_data t) of Some j \<Rightarrow> j | None \<Rightarrow> JNull) else JNull),
        (''meta'', progress_meta t)])"

definition max_pages_data :: "int \<Rightarrow> SubmitParams \<Rightarrow> json" where
  "max_pages_data cap p = JObj [(''max_pages'', JInt cap), (''actual_pages'', JInt (sp_page_count p)),
     (''async_overflow'', JBool (sp_async_overflow p))]"

definition submit_request :: "SubmitParams \<Rightarrow> SubmitRequest" where
  "submit_request p = \<lparr>sr_namespace_id = sp_namespace_id p, sr_filename = sp_filename p, sr_filepath = sp_filepath p,
     sr_doc_id = sp_doc_id p, sr_content_hash = sp_content_hash p, sr_trace_id = sp_trace_id p, sr_metadata_json = [],
     sr_total_pages = sp_page_count p, sr_task_type = kTaskDocParse\<rparr>"

definition SubmitAsync ::
  "task_env \<Rightarrow> gap \<Rightarrow> gap \<Rightarrow> gap \<Rightarrow> config \<Rightarrow> 'f releaser \<Rightarrow> SubmitParams \<Rightarrow> task_row list \<Rightarrow> 'f \<Rightarrow> HttpResult \<times> task_row list \<times> 'f" where
  "SubmitAsync env g1 g3 g2 cfg rel p rows files =
     (if sp_namespace_id p = [] \<or> sp_filepath p = [] \<or> sp_filename p = []
      then (ErrorResult kInvalidRequest
              (JObj [(''rules_violated'', JArr [JStr ''namespace_id, filename and filepath are required''])])
              ''missing required submission fields'', rows, files)
      else if AsyncMaxPages cfg < sp_page_count p
      then (ErrorResult kMaxPagesExceeded (max_pages_data (AsyncMaxPages cfg) p)
              ''document exceeds the maximum page limit'', rows, files)
      else if sp_page_count p \<le> AsyncThresholdPages cfg
      then (\<lparr>hr_status = 200, hr_body = JObj [(''status'', JStr ''sync_required''),
              (''reason'', JStr ''page_count within sync threshold''),
              (''threshold_pages'', JInt (AsyncThresholdPages cfg))]\<rparr>, rows, files)
      else if \<not> sp_async_overflow p
      then (ErrorResult kMaxPagesExceeded (max_pages_data (AsyncThresholdPages cfg) p)
              ''document exceeds the synchronous page threshold'', rows, files)
      else (case Enqueue env g1 g3 g2 cfg rel (submit_request p) rows files of
              (Inl s, rows', files') \<Rightarrow>
                (ErrorResult kServiceUnavailable (JObj [(''component'', JStr ''tasks_db'')]) (message s), rows', files')
            | (Inr (t, d), rows', files') \<Rightarrow>
                (\<lparr>hr_status = 202, hr_body = JObj [(''status'', JStr ''processing''), (''task_id'', JStr (ti_task_id t)),
                   (''eta_seconds'', JInt (ti_eta_seconds t)), (''accepted_at'', JStr (ti_created_at t))]\<rparr>, rows', files')))"

definition GetProgress :: "task_env \<Rightarrow> (string \<Rightarrow> json option) \<Rightarrow> task_row list \<Rightarrow> string \<Rightarrow> HttpResult" where
  "GetProgress env parse rows i = (case GetTask env rows i of
      Inl s \<Rightarrow> ErrorResult kTaskNotFound (JObj []) (''no such task: '' @ i)
    | Inr t \<Rightarrow> \<lparr>hr_status = 200, hr_body = BuildProgressBody parse t\<rparr>)"

definition cancel_body :: "string \<Rightarrow> TaskInfo \<Rightarrow> json" where
  "cancel_body i out = JObj [(''task_id'', JStr i), (''cancel_requested'', JBool True),
     (''current_status'', JStr (ti_status out)),
     (''estimated_cancellation_in_seconds'', JInt (if ti_status out = kCancelling then 5 else 0)),
     (''message'', JStr ''Cancel signal sent. Poll GET /api/v1/documents/tasks/{id}/progress'')]"

text \<open>\<open>env2\<close> is the environment of the calls after \<open>RequestCancel\<close>.\<close>

definition CancelTask ::
  "task_env \<Rightarrow> task_env \<Rightarrow> (string \<Rightarrow> bool) \<Rightarrow> string \<Rightarrow> string \<Rightarrow> task_row list \<Rightarrow> string list
     \<Rightarrow> HttpResult \<times> task_row list \<times> string list" where
  "CancelTask env env2 removable dir i rows files =
     (case RequestCancel env rows i of
        (Inr out, rows') \<Rightarrow>
          (\<lparr>hr_status = 200, hr_body = cancel_body i out\<rparr>, rows',
           if ti_status out = kCancelled then snd (ReleaseManagedInput env2 removable dir out rows' files) else files)
      | (Inl s, rows') \<Rightarrow>
          if code s = kNotFound
          then (ErrorResult kTaskNotFound (JObj []) (''no such task: '' @ i), rows', files)
          else (ErrorResult kTaskCancelling
                  (JObj [(''task_id'', JStr i),
                         (''current_status'', JStr (case GetTask env2 rows' i of Inr t \<Rightarrow> ti_status t | Inl s \<Rightarrow> []))])
                  ''task is already cancelling or terminal'', rows', files))"

section \<open>What requests are answered\<close>

text \<open>
  A cancel is accepted or refused for the right reason.  When every statement succeeds, cancelling an existing queued
  task answers 200, ends it as \<open>cancelled\<close> at once; an existing \<open>processing\<close> task answers 200 and becomes
  \<open>cancelling\<close>; a task in any other status answers 423 and an unknown task 404, with the table and the files untouched.
\<close>
theorem cancel_request_answers:
  assumes "tasks_wf rows" "te_sql env = sql_good" "CancelTask env env2 removable dir i rows files = (res, rows', files')"
  shows "(i \<notin> tr_task_id ` set rows \<longrightarrow> hr_status res = 404 \<and> rows' = rows \<and> files' = files)
    \<and> (\<forall>r \<in> set rows. tr_task_id r = i \<longrightarrow>
         (if tr_status r = kQueued then hr_status res = 200 \<and> (\<exists>r' \<in> set rows'. tr_task_id r' = i \<and> tr_status r' = kCancelled)
          else if tr_status r = kProcessing then hr_status res = 200 \<and> files' = files
            \<and> (\<exists>r' \<in> set rows'. tr_task_id r' = i \<and> tr_status r' = kCancelling \<and> tr_cancel_requested r')
          else hr_status res = 423 \<and> rows' = rows \<and> files' = files))"
proof -
  have sql: "te_sql env q = SqlOk" for q by (simp add: assms(2) sql_good_def)
  have "hr_status res = 404 \<and> rows' = rows \<and> files' = files" if "i \<notin> tr_task_id ` set rows"
  proof -
    have "find (by_id i) rows = None" using that by (auto simp: find_None_iff by_id_def)
    then show ?thesis using assms(3)
      by (auto simp: CancelTask_def RequestCancel_def select_row_def sql ErrorResult_def F42ErrorHttpStatus_def info_def)
  qed
  moreover have "if tr_status r = kQueued then hr_status res = 200 \<and> (\<exists>r' \<in> set rows'. tr_task_id r' = i \<and> tr_status r' = kCancelled)
      else if tr_status r = kProcessing then hr_status res = 200 \<and> files' = files
        \<and> (\<exists>r' \<in> set rows'. tr_task_id r' = i \<and> tr_status r' = kCancelling \<and> tr_cancel_requested r')
      else hr_status res = 423 \<and> rows' = rows \<and> files' = files" if r: "r \<in> set rows" "tr_task_id r = i" for r
  proof -
    have f: "find (by_id i) rows = Some r" using find_by_id_iff[OF assms(1)] r by simp
    have u: "Q (h r) \<Longrightarrow> \<exists>r' \<in> set (update_rows (by_id (tr_task_id r)) h rows). Q r'" for h Q
      using r by (intro bexI[of _ "h r"]) (auto simp: set_update_rows by_id_def intro!: bexI[of _ r])
    consider "tr_status r = kQueued" | "tr_status r = kProcessing" | "tr_status r \<noteq> kQueued" "tr_status r \<noteq> kProcessing" by blast
    then show ?thesis
    proof cases
      case 1
      then show ?thesis using assms(3) r f
        by (auto simp: CancelTask_def RequestCancel_def select_row_def sql ReadRow_def Let_def) (rule u, simp)
    next
      case 2
      then show ?thesis using assms(3) r f
        by (auto simp: CancelTask_def RequestCancel_def select_row_def sql ReadRow_def Let_def) (rule u, simp)
    next
      case 3
      then show ?thesis using assms(3) r f
        by (auto simp: CancelTask_def RequestCancel_def select_row_def sql ReadRow_def Let_def ErrorResult_def F42ErrorHttpStatus_def info_def)
    qed
  qed
  ultimately show ?thesis by blast
qed

theorem cancel_request_answers_witness:
  "hr_status (fst (CancelTask (plain_env 1000 []) (plain_env 1000 []) (\<lambda>_. True) ''/d'' ''b'' witness_table [''/d/y''])) = 423"
proof -
  have "te_sql (plain_env 1000 []) = sql_good" by (simp add: plain_env_def)
  moreover obtain res rows' files' where c: "CancelTask (plain_env 1000 []) (plain_env 1000 []) (\<lambda>_. True) ''/d'' ''b'' witness_table [''/d/y''] = (res, rows', files')"
    by (metis prod_cases3)
  ultimately have "hr_status res = 423"
    using cancel_request_answers[OF witness_table_wf _ c] by (simp add: witness_table_def sample_row_def)
  then show ?thesis by (simp add: c)
qed

text \<open>A cancel that fails because the table cannot be read is reported as a task that is already cancelling.\<close>

theorem failed_cancel_reported_as_cancelling:
  "hr_status (fst (CancelTask ((plain_env 1000 [])\<lparr>te_sql := (\<lambda>_. PrepareFails)\<rparr>) (plain_env 1000 []) (\<lambda>_. True) ''/d'' ''a''
      [sample_row ''a'' kQueued ''/d/x'' ''1''] [])) = 423"
  by (simp add: CancelTask_def RequestCancel_def ErrorResult_def F42ErrorHttpStatus_def info_def)

text \<open>The body of the 403 lacks a key the registry requires.\<close>

theorem max_pages_body_incomplete: "\<not> HasRequiredStructuredData kMaxPagesExceeded (max_pages_data cap p)"
  by (simp add: HasRequiredStructuredData_def max_pages_data_def Let_def)

text \<open>A failure the registry calls permanent is reported as retryable.\<close>

theorem parse_failure_reported_retryable:
  "\<not> fi_retryable (GetF42ErrorInfo kParseFailed)
   \<and> (case progress_meta (TaskInfo_default\<lparr>ti_status := kFailed, ti_error_code := F42ErrorCodeString kParseFailed\<rparr>) of
        JObj kvs \<Rightarrow> map_of kvs ''retryable_if_fail'' | _ \<Rightarrow> None) = Some (JBool True)"
  by (simp add: progress_meta_def F42ErrorCodeString_def info_def)

section \<open>Schedule of the cleanup\<close>

lemma cpp_rem_nonneg: "0 \<le> a \<Longrightarrow> 0 < b \<Longrightarrow> cpp_rem a b = a mod b"
  by (cases "a = 0") (simp_all add: cpp_rem_def)

lemma cpp_rem_wrap: "0 < b \<Longrightarrow> cpp_rem (cpp_rem a b + b) b = a mod b"
proof -
  assume b: "0 < b"
  have "\<bar>cpp_rem a b\<bar> < b" using b by (simp add: cpp_rem_def abs_mult sgn_if)
  then have "cpp_rem (cpp_rem a b + b) b = cpp_rem a b mod b" using b by (simp add: cpp_rem_nonneg)
  also have "\<dots> = a mod b"
  proof (cases "0 \<le> a")
    case True
    then show ?thesis using b by (simp add: cpp_rem_nonneg)
  next
    case False
    then have "cpp_rem a b = - (- a mod b)" using b by (simp add: cpp_rem_def)
    then show ?thesis by (simp add: mod_minus_eq)
  qed
  finally show ?thesis .
qed

text \<open>
  The cleanup runs at 02:00 UTC.  From every instant, before 1970 included, the delay the cron waits is positive and at
  most a day, and it ends exactly two hours after a UTC midnight.
\<close>

theorem next_run_at_two:
  "0 < NextRunDelayMs now \<and> NextRunDelayMs now \<le> 86400000 \<and> (now + NextRunDelayMs now) mod 86400000 = 7200000"
proof -
  define m where "m = now mod 86400000"
  have m: "0 \<le> m" "m < 86400000" "now = 86400000 * (now div 86400000) + m" by (simp_all add: m_def)
  have d: "NextRunDelayMs now = (if 7200000 - m \<le> 0 then 7200000 - m + 86400000 else 7200000 - m)"
    unfolding NextRunDelayMs_def Let_def by (simp add: cpp_rem_wrap m_def)
  have "(now + NextRunDelayMs now) mod 86400000 = (m + NextRunDelayMs now) mod 86400000"
    by (simp add: m_def mod_add_left_eq)
  also have "\<dots> = 7200000" unfolding d by simp
  finally show ?thesis using m d by auto
qed

end
