(* ===== verification/Catalog_Errors.thy ===== *)
theory Catalog_Errors
  imports Task_Error
begin

text \<open>
  The error identities of the catalog (\<^verbatim>\<open>include/cortrix/catalog/catalog_error.h\<close>, \<^verbatim>\<open>src/catalog/catalog_error.cpp\<close>) and of
  the namespace pool (\<^verbatim>\<open>include/cortrix/resource/pool_error.h\<close>, \<^verbatim>\<open>src/resource/pool_error.cpp\<close>).  The error body is the one
  of \<open>Task_Error\<close>.  Three identities are shared between the registries.
\<close>

section \<open>The catalog registry\<close>

datatype CatalogErrorCode =
    cat_kNsNotFound | cat_kNsUnauthorized | cat_kNsIsolated | cat_kNsVisibilityDenied | cat_kNsAlreadyExists
  | cat_kUnitNotFound | cat_kUnitNotSealed | cat_kUnitArchived | cat_kUnitOwnerRemote | cat_kTenantNotFound
  | cat_kTenantQuotaExceeded | cat_kSchemaVersionMismatch | cat_kSchemaMigrationFailed | cat_kInvalidConfigJson
  | cat_kCatalogLocked | cat_kBloomFilterNotReady | cat_kTransactionRetry | cat_kContentHashMismatch
  | cat_kRefCountNegative | cat_kInternalError | cat_kNotImplemented | cat_kNsQuotaExceeded
  | cat_kNsResourceBudgetExceeded | cat_kNsPoolInternal

record CatalogErrorInfo =
  ci_cx_code :: string
  ci_category :: ErrorCategory
  ci_retryable :: bool
  ci_retry_after_ms :: "int option"

definition cat_info :: "string \<Rightarrow> ErrorCategory \<Rightarrow> bool \<Rightarrow> int option \<Rightarrow> CatalogErrorInfo" where
  "cat_info c g r a = \<lparr>ci_cx_code = c, ci_category = g, ci_retryable = r, ci_retry_after_ms = a\<rparr>"

fun GetCatalogErrorInfo :: "CatalogErrorCode \<Rightarrow> CatalogErrorInfo" where
  "GetCatalogErrorInfo cat_kNsNotFound = cat_info ''CX_ERR_NS_NOT_FOUND'' kPermanent False None"
| "GetCatalogErrorInfo cat_kNsUnauthorized = cat_info ''CX_ERR_NS_UNAUTHORIZED'' kAuth False None"
| "GetCatalogErrorInfo cat_kNsIsolated = cat_info ''CX_ERR_NS_ISOLATED'' kPermanent False None"
| "GetCatalogErrorInfo cat_kNsVisibilityDenied = cat_info ''CX_ERR_NS_VISIBILITY_DENIED'' kAuth False None"
| "GetCatalogErrorInfo cat_kNsAlreadyExists = cat_info ''CX_ERR_NS_ALREADY_EXISTS'' kPermanent False None"
| "GetCatalogErrorInfo cat_kUnitNotFound = cat_info ''CX_ERR_UNIT_NOT_FOUND'' kPermanent False None"
| "GetCatalogErrorInfo cat_kUnitNotSealed = cat_info ''CX_ERR_UNIT_NOT_SEALED'' kTransient True (Some 5000)"
| "GetCatalogErrorInfo cat_kUnitArchived = cat_info ''CX_ERR_UNIT_ARCHIVED'' kTransient True (Some 10000)"
| "GetCatalogErrorInfo cat_kUnitOwnerRemote = cat_info ''CX_ERR_UNIT_OWNER_REMOTE'' kPermanent False None"
| "GetCatalogErrorInfo cat_kTenantNotFound = cat_info ''CX_ERR_TENANT_NOT_FOUND'' kPermanent False None"
| "GetCatalogErrorInfo cat_kTenantQuotaExceeded = cat_info ''CX_ERR_TENANT_QUOTA_EXCEEDED'' kQuota False None"
| "GetCatalogErrorInfo cat_kSchemaVersionMismatch = cat_info ''CX_ERR_SCHEMA_VERSION_MISMATCH'' kPermanent False None"
| "GetCatalogErrorInfo cat_kSchemaMigrationFailed = cat_info ''CX_ERR_SCHEMA_MIGRATION_FAILED'' kPermanent False None"
| "GetCatalogErrorInfo cat_kInvalidConfigJson = cat_info ''CX_ERR_INVALID_CONFIG_JSON'' kPermanent False None"
| "GetCatalogErrorInfo cat_kCatalogLocked = cat_info ''CX_ERR_CATALOG_LOCKED'' kTransient True (Some 100)"
| "GetCatalogErrorInfo cat_kBloomFilterNotReady = cat_info ''CX_ERR_BLOOM_FILTER_NOT_READY'' kTransient True (Some 1000)"
| "GetCatalogErrorInfo cat_kTransactionRetry = cat_info ''CX_ERR_TRANSACTION_RETRY'' kTransient True (Some 50)"
| "GetCatalogErrorInfo cat_kContentHashMismatch = cat_info ''CX_ERR_CONTENT_HASH_MISMATCH'' kPermanent False None"
| "GetCatalogErrorInfo cat_kRefCountNegative = cat_info ''CX_ERR_REF_COUNT_NEGATIVE'' kPermanent False None"
| "GetCatalogErrorInfo cat_kInternalError = cat_info ''CX_ERR_INTERNAL_ERROR'' kPermanent False None"
| "GetCatalogErrorInfo cat_kNotImplemented = cat_info ''CX_ERR_NOT_IMPLEMENTED'' kPermanent False None"
| "GetCatalogErrorInfo cat_kNsQuotaExceeded = cat_info ''CX_ERR_NS_QUOTA_EXCEEDED'' kQuota False None"
| "GetCatalogErrorInfo cat_kNsResourceBudgetExceeded = cat_info ''CX_ERR_NS_RESOURCE_BUDGET_EXCEEDED'' kQuota False None"
| "GetCatalogErrorInfo cat_kNsPoolInternal = cat_info ''CX_ERR_NS_POOL_INTERNAL'' kTransient True (Some 5000)"

definition CatalogErrorCodeString :: "CatalogErrorCode \<Rightarrow> string" where
  "CatalogErrorCodeString c = ci_cx_code (GetCatalogErrorInfo c)"

fun catalog_RequiredStructuredDataKeys :: "CatalogErrorCode \<Rightarrow> string list" where
  "catalog_RequiredStructuredDataKeys cat_kNsNotFound = [''ns_id'']"
| "catalog_RequiredStructuredDataKeys cat_kNsUnauthorized = [''ns_id'', ''tenant_id'', ''user_id'', ''required_permission'']"
| "catalog_RequiredStructuredDataKeys cat_kNsIsolated = [''ns_id'', ''isolation_mode'']"
| "catalog_RequiredStructuredDataKeys cat_kNsVisibilityDenied = [''ns_id'', ''visibility'', ''required_visibility'']"
| "catalog_RequiredStructuredDataKeys cat_kNsAlreadyExists = [''ns_id'']"
| "catalog_RequiredStructuredDataKeys cat_kUnitNotFound = [''unit_id'', ''ns_id'']"
| "catalog_RequiredStructuredDataKeys cat_kUnitNotSealed = [''unit_id'', ''current_state'']"
| "catalog_RequiredStructuredDataKeys cat_kUnitArchived = [''unit_id'']"
| "catalog_RequiredStructuredDataKeys cat_kUnitOwnerRemote = [''unit_id'', ''owner_node_id'', ''current_node_id'']"
| "catalog_RequiredStructuredDataKeys cat_kTenantNotFound = [''tenant_id'']"
| "catalog_RequiredStructuredDataKeys cat_kTenantQuotaExceeded = [''tenant_id'', ''quota_type'', ''current_usage'', ''quota_limit'']"
| "catalog_RequiredStructuredDataKeys cat_kSchemaVersionMismatch = [''feature_name'', ''expected_version'', ''current_version'']"
| "catalog_RequiredStructuredDataKeys cat_kSchemaMigrationFailed = [''feature_name'', ''migration_step'', ''error_detail'']"
| "catalog_RequiredStructuredDataKeys cat_kInvalidConfigJson = [''ns_id'', ''config_field'', ''parse_error'']"
| "catalog_RequiredStructuredDataKeys cat_kCatalogLocked = [''lock_holder'', ''wait_timeout_ms'']"
| "catalog_RequiredStructuredDataKeys cat_kBloomFilterNotReady = [''load_progress'', ''estimated_ready_ms'']"
| "catalog_RequiredStructuredDataKeys cat_kTransactionRetry = [''sqlite_errcode'']"
| "catalog_RequiredStructuredDataKeys cat_kContentHashMismatch = [''file_hash'', ''catalog_hash'', ''block_hash'']"
| "catalog_RequiredStructuredDataKeys cat_kRefCountNegative = [''file_hash'', ''ns_id'', ''current_ref_count'']"
| "catalog_RequiredStructuredDataKeys cat_kInternalError = []"
| "catalog_RequiredStructuredDataKeys cat_kNotImplemented = [''feature'']"
| "catalog_RequiredStructuredDataKeys cat_kNsQuotaExceeded = [''current_count'', ''limit'', ''namespace_id'']"
| "catalog_RequiredStructuredDataKeys cat_kNsResourceBudgetExceeded = [''budget_used'', ''budget_limit'', ''estimated_size'', ''namespace_id'']"
| "catalog_RequiredStructuredDataKeys cat_kNsPoolInternal = [''namespace_id'', ''pool_error_detail'']"

definition catalog_HasRequiredStructuredData :: "CatalogErrorCode \<Rightarrow> json \<Rightarrow> bool" where
  "catalog_HasRequiredStructuredData c j =
     (let ks = catalog_RequiredStructuredDataKeys c in
      if \<not> is_object j then ks = [] else (\<forall>k \<in> set ks. json_contains j k))"

definition MakeCatalogError :: "CatalogErrorCode \<Rightarrow> json \<Rightarrow> string \<Rightarrow> AgentFriendlyError" where
  "MakeCatalogError c sd m = (let i = GetCatalogErrorInfo c in
     \<lparr>af_code = ci_cx_code i, af_message = (if m = [] then ci_cx_code i else m), af_retryable = ci_retryable i,
      af_category = ci_category i, af_retry_after_ms = ci_retry_after_ms i, af_structured_data = Some sd\<rparr>)"

fun CatalogErrorToStatusCode :: "CatalogErrorCode \<Rightarrow> StatusCode" where
  "CatalogErrorToStatusCode cat_kNsNotFound = kNotFound"
| "CatalogErrorToStatusCode cat_kNsUnauthorized = kPermissionDenied"
| "CatalogErrorToStatusCode cat_kNsIsolated = kInvalidArgument"
| "CatalogErrorToStatusCode cat_kNsVisibilityDenied = kPermissionDenied"
| "CatalogErrorToStatusCode cat_kNsAlreadyExists = kAlreadyExists"
| "CatalogErrorToStatusCode cat_kUnitNotFound = kNotFound"
| "CatalogErrorToStatusCode cat_kUnitNotSealed = kUnavailable"
| "CatalogErrorToStatusCode cat_kUnitArchived = kUnavailable"
| "CatalogErrorToStatusCode cat_kUnitOwnerRemote = kInvalidArgument"
| "CatalogErrorToStatusCode cat_kTenantNotFound = kNotFound"
| "CatalogErrorToStatusCode cat_kTenantQuotaExceeded = kPermissionDenied"
| "CatalogErrorToStatusCode cat_kSchemaVersionMismatch = kInvalidArgument"
| "CatalogErrorToStatusCode cat_kSchemaMigrationFailed = kInternal"
| "CatalogErrorToStatusCode cat_kInvalidConfigJson = kInvalidArgument"
| "CatalogErrorToStatusCode cat_kCatalogLocked = kUnavailable"
| "CatalogErrorToStatusCode cat_kBloomFilterNotReady = kUnavailable"
| "CatalogErrorToStatusCode cat_kTransactionRetry = kUnavailable"
| "CatalogErrorToStatusCode cat_kContentHashMismatch = kInvalidArgument"
| "CatalogErrorToStatusCode cat_kRefCountNegative = kInvalidArgument"
| "CatalogErrorToStatusCode cat_kInternalError = kInternal"
| "CatalogErrorToStatusCode cat_kNotImplemented = kInvalidArgument"
| "CatalogErrorToStatusCode cat_kNsQuotaExceeded = kPermissionDenied"
| "CatalogErrorToStatusCode cat_kNsResourceBudgetExceeded = kPermissionDenied"
| "CatalogErrorToStatusCode cat_kNsPoolInternal = kUnavailable"

definition CatalogStatus :: "CatalogErrorCode \<Rightarrow> string \<Rightarrow> Status" where
  "CatalogStatus c detail = StatusOf (CatalogErrorToStatusCode c)
     (if detail = [] then CatalogErrorCodeString c else CatalogErrorCodeString c @ '': '' @ detail)"

section \<open>The pool registry\<close>

datatype PoolErrorCode = pool_kNsQuotaExceeded | pool_kNsResourceBudgetExceeded | pool_kNsLoadFailed | pool_kNsNotFound

record PoolErrorInfo =
  pi_cx_code :: string
  pi_category :: ErrorCategory
  pi_retryable :: bool
  pi_retry_after_ms :: "int option"

definition pool_info :: "string \<Rightarrow> ErrorCategory \<Rightarrow> bool \<Rightarrow> int option \<Rightarrow> PoolErrorInfo" where
  "pool_info c g r a = \<lparr>pi_cx_code = c, pi_category = g, pi_retryable = r, pi_retry_after_ms = a\<rparr>"

fun GetPoolErrorInfo :: "PoolErrorCode \<Rightarrow> PoolErrorInfo" where
  "GetPoolErrorInfo pool_kNsQuotaExceeded = pool_info ''CX_ERR_NS_QUOTA_EXCEEDED'' kQuota False None"
| "GetPoolErrorInfo pool_kNsResourceBudgetExceeded = pool_info ''CX_ERR_NS_RESOURCE_BUDGET_EXCEEDED'' kQuota False None"
| "GetPoolErrorInfo pool_kNsLoadFailed = pool_info ''CX_ERR_NS_LOAD_FAILED'' kTransient True (Some 1000)"
| "GetPoolErrorInfo pool_kNsNotFound = pool_info ''CX_ERR_NS_NOT_FOUND'' kPermanent False None"

definition PoolErrorCodeString :: "PoolErrorCode \<Rightarrow> string" where
  "PoolErrorCodeString c = pi_cx_code (GetPoolErrorInfo c)"

fun pool_RequiredStructuredDataKeys :: "PoolErrorCode \<Rightarrow> string list" where
  "pool_RequiredStructuredDataKeys pool_kNsQuotaExceeded = [''current_count'', ''limit'', ''namespace_id'']"
| "pool_RequiredStructuredDataKeys pool_kNsResourceBudgetExceeded =
     [''budget_used'', ''budget_limit'', ''estimated_size'', ''namespace_id'']"
| "pool_RequiredStructuredDataKeys pool_kNsLoadFailed = [''namespace_id'', ''load_step'', ''error_detail'']"
| "pool_RequiredStructuredDataKeys pool_kNsNotFound = [''namespace_id'']"

definition pool_HasRequiredStructuredData :: "PoolErrorCode \<Rightarrow> json \<Rightarrow> bool" where
  "pool_HasRequiredStructuredData c j =
     (let ks = pool_RequiredStructuredDataKeys c in
      if \<not> is_object j then ks = [] else (\<forall>k \<in> set ks. json_contains j k))"

definition MakePoolError :: "PoolErrorCode \<Rightarrow> json \<Rightarrow> string \<Rightarrow> AgentFriendlyError" where
  "MakePoolError c sd m = (let i = GetPoolErrorInfo c in
     \<lparr>af_code = pi_cx_code i, af_message = (if m = [] then pi_cx_code i else m), af_retryable = pi_retryable i,
      af_category = pi_category i, af_retry_after_ms = pi_retry_after_ms i, af_structured_data = Some sd\<rparr>)"

fun PoolErrorToStatusCode :: "PoolErrorCode \<Rightarrow> StatusCode" where
  "PoolErrorToStatusCode pool_kNsQuotaExceeded = kPermissionDenied"
| "PoolErrorToStatusCode pool_kNsResourceBudgetExceeded = kPermissionDenied"
| "PoolErrorToStatusCode pool_kNsLoadFailed = kUnavailable"
| "PoolErrorToStatusCode pool_kNsNotFound = kNotFound"

definition PoolStatus :: "PoolErrorCode \<Rightarrow> string \<Rightarrow> Status" where
  "PoolStatus c detail = StatusOf (PoolErrorToStatusCode c)
     (if detail = [] then PoolErrorCodeString c else PoolErrorCodeString c @ '': '' @ detail)"

section \<open>What the identities promise\<close>

lemma CatalogErrorToStatusCode_not_ok [simp, status]: "CatalogErrorToStatusCode c \<noteq> kOk"
  by (cases c) simp_all

lemma CatalogStatus_not_ok [simp, status]: "\<not> ok (CatalogStatus c detail)"
  by (simp add: CatalogStatus_def)

lemma CatalogStatus_neq_Ok [simp]: "CatalogStatus c detail \<noteq> Status_Ok" "Status_Ok \<noteq> CatalogStatus c detail"
  using CatalogStatus_not_ok[of c detail] ok_Status_Ok by metis+

lemma code_CatalogStatus [simp]: "code (CatalogStatus c detail) = CatalogErrorToStatusCode c"
  by (simp add: CatalogStatus_def StatusOf_def)

lemma PoolErrorToStatusCode_not_ok [simp, status]: "PoolErrorToStatusCode c \<noteq> kOk"
  by (cases c) simp_all

lemma PoolStatus_not_ok [simp, status]: "\<not> ok (PoolStatus c detail)"
  by (simp add: PoolStatus_def)

lemma PoolStatus_neq_Ok [simp]: "PoolStatus c detail \<noteq> Status_Ok" "Status_Ok \<noteq> PoolStatus c detail"
  using PoolStatus_not_ok[of c detail] ok_Status_Ok by metis+

lemma code_PoolStatus [simp]: "code (PoolStatus c detail) = PoolErrorToStatusCode c"
  by (simp add: PoolStatus_def StatusOf_def)

text \<open>A delay is announced exactly for the retryable identities, and those are the transient ones.\<close>

lemma catalog_retry_after:
  "ci_retry_after_ms (GetCatalogErrorInfo c) \<noteq> None \<longleftrightarrow> ci_retryable (GetCatalogErrorInfo c)"
  "ci_retryable (GetCatalogErrorInfo c) \<longleftrightarrow> ci_category (GetCatalogErrorInfo c) = kTransient"
  "ci_retryable (GetCatalogErrorInfo c) \<longleftrightarrow> CatalogErrorToStatusCode c = kUnavailable"
  by (cases c; simp add: cat_info_def)+

text \<open>No catalog code string is a prefix of another, so the prefix test on a message identifies the code.\<close>

lemma catalog_codes_prefix_free: "prefix (CatalogErrorCodeString c) (CatalogErrorCodeString c' @ rest) \<longleftrightarrow> c = c'"
  by (cases c; cases c') (simp_all add: CatalogErrorCodeString_def cat_info_def)

lemma CatalogStatus_identifies: "prefix (CatalogErrorCodeString c) (message (CatalogStatus c' detail)) \<longleftrightarrow> c = c'"
  using catalog_codes_prefix_free[of c c' "if detail = [] then [] else '': '' @ detail"]
  by (simp add: CatalogStatus_def StatusOf_def split: if_splits)

text \<open>The identities the pool shares with the catalog are reported the same way by both.\<close>

fun pool_as_catalog :: "PoolErrorCode \<Rightarrow> CatalogErrorCode option" where
  "pool_as_catalog pool_kNsQuotaExceeded = Some cat_kNsQuotaExceeded"
| "pool_as_catalog pool_kNsResourceBudgetExceeded = Some cat_kNsResourceBudgetExceeded"
| "pool_as_catalog pool_kNsNotFound = Some cat_kNsNotFound"
| "pool_as_catalog pool_kNsLoadFailed = None"

lemma shared_identities:
  assumes "pool_as_catalog p = Some c"
  shows "PoolStatus p detail = CatalogStatus c detail"
    and "MakePoolError p sd m = MakeCatalogError c sd m"
  using assms by (cases p; force simp: PoolStatus_def CatalogStatus_def PoolErrorCodeString_def CatalogErrorCodeString_def
      MakePoolError_def MakeCatalogError_def pool_info_def cat_info_def)+

text \<open>
  The bodies are not interchangeable, though: the catalog requires the key \<open>ns_id\<close> of a not-found error and the pool
  \<open>namespace_id\<close>, for the same code.
\<close>

lemma not_found_bodies_differ:
  "pool_HasRequiredStructuredData pool_kNsNotFound (JObj [(''namespace_id'', JStr ns)])"
  "\<not> catalog_HasRequiredStructuredData cat_kNsNotFound (JObj [(''namespace_id'', JStr ns)])"
  by (simp_all add: pool_HasRequiredStructuredData_def catalog_HasRequiredStructuredData_def)

end
