(* ===== verification/Namespace_Pool.thy ===== *)
theory Namespace_Pool
  imports Catalog_Errors "HOL-Library.AList" "HOL-Library.Monad_Syntax"
begin

text \<open>
  The pool of namespace resources (\<^verbatim>\<open>include/cortrix/resource/namespace_pool.h\<close>, \<^verbatim>\<open>src/resource/namespace_pool.cpp\<close>,
  \<^verbatim>\<open>namespace_resource_bundle.cpp\<close>, \<^verbatim>\<open>namespace_facade.cpp\<close>): admission by number and memory, borrowing with reference
  counts, deferred eviction, startup and reload.  The objects a bundle owns are handles \<open>'i\<close> (index) and \<open>'c\<close>
  (coordinator); two loads never deliver the same handle.  \<open>sizes\<close> reads how large these objects are at the moment of a call.
  Loading a namespace is a function on the state \<open>'w\<close> of the world (\<open>None\<close>: it does not return), so the pool is verified for
  every loader; the map of slots is an association list whose order stands for the iteration order.
\<close>

section \<open>Bundles\<close>

record ('i, 'c) UnitResourceBundle =
  ub_unit_id :: string
  ub_data_dir :: string
  ub_index :: "'i option"
  ub_pwl :: "'c option"

record ('i, 'c) NamespaceResourceBundle =
  nb_namespace_id :: string
  nb_unit_bundles :: "('i, 'c) UnitResourceBundle list"

record ('i, 'c) sizes =
  footprint :: "'i \<Rightarrow> u64"
  pwl_size :: "'c \<Rightarrow> u64"

definition MemoryEstimateBytes :: "('i, 'c) sizes \<Rightarrow> ('i, 'c) UnitResourceBundle \<Rightarrow> u64" where
  "MemoryEstimateBytes z u = (case ub_index u of Some i \<Rightarrow> footprint z i | None \<Rightarrow> 0) +
     (case ub_pwl u of Some c \<Rightarrow> pwl_size z c | None \<Rightarrow> 0)"

definition TotalMemoryEstimateBytes :: "('i, 'c) sizes \<Rightarrow> ('i, 'c) NamespaceResourceBundle \<Rightarrow> u64" where
  "TotalMemoryEstimateBytes z b = sum_list (map (MemoryEstimateBytes z) (nb_unit_bundles b))"

section \<open>State of the pool\<close>

record F05Config =
  f5_max_namespaces_per_instance :: nat
  f5_memory_budget_bytes :: u64
  f5_startup_load_workers :: int
  f5_load_timeout_ms_per_ns :: int
  f5_data_root :: string

record RejectionEvent =
  re_timestamp_ms :: int
  re_namespace_id :: string
  re_reason :: string
  re_budget_used :: u64
  re_budget_limit :: u64
  re_estimated_size :: u64

record ('i, 'c) NamespaceSlot =
  sl_bundle :: "('i, 'c) NamespaceResourceBundle"
  sl_refcount :: int
  sl_pending_delete :: bool

record ('i, 'c) NamespacePool =
  np_bundles :: "(string \<times> ('i, 'c) NamespaceSlot) list"
  np_rejected_ns_count :: nat
  np_rejected_memory_count :: nat
  np_startup_load_failures :: nat
  np_recent_rejections :: "RejectionEvent list"
  np_startup_failed_namespaces :: "string list"
  np_size_gauge :: int
  np_memory_gauge :: int

type_synonym ('i, 'c, 'w) loader = "string \<Rightarrow> 'w \<Rightarrow> ((Status + ('i, 'c) NamespaceResourceBundle) \<times> 'w) option"

definition NamespacePool_new :: "('i, 'c) NamespacePool" where
  "NamespacePool_new = \<lparr>np_bundles = [], np_rejected_ns_count = 0, np_rejected_memory_count = 0,
     np_startup_load_failures = 0, np_recent_rejections = [], np_startup_failed_namespaces = [],
     np_size_gauge = 0, np_memory_gauge = 0\<rparr>"

definition kMaxRejectionLog :: nat where
  "kMaxRejectionLog = 50"

definition fresh_slot :: "('i, 'c) NamespaceResourceBundle \<Rightarrow> ('i, 'c) NamespaceSlot" where
  "fresh_slot b = \<lparr>sl_bundle = b, sl_refcount = 0, sl_pending_delete = False\<rparr>"

section \<open>Helpers\<close>

definition CurrentMemoryUsedLocked :: "('i, 'c) sizes \<Rightarrow> ('i, 'c) NamespacePool \<Rightarrow> u64" where
  "CurrentMemoryUsedLocked z p = sum_list (map (\<lambda>(ns, s). TotalMemoryEstimateBytes z (sl_bundle s)) (np_bundles p))"

definition RefreshPoolGauges :: "('i, 'c) sizes \<Rightarrow> ('i, 'c) NamespacePool \<Rightarrow> ('i, 'c) NamespacePool" where
  "RefreshPoolGauges z p = p\<lparr>np_size_gauge := int (length (np_bundles p)), np_memory_gauge := sint (CurrentMemoryUsedLocked z p)\<rparr>"

definition RecordRejection ::
  "int \<Rightarrow> string \<Rightarrow> string \<Rightarrow> u64 \<Rightarrow> u64 \<Rightarrow> u64 \<Rightarrow> ('i, 'c) NamespacePool \<Rightarrow> ('i, 'c) NamespacePool" where
  "RecordRejection now ns reason used limit est p =
     (let l = np_recent_rejections p @ [\<lparr>re_timestamp_ms = now, re_namespace_id = ns, re_reason = reason,
                re_budget_used = used, re_budget_limit = limit, re_estimated_size = est\<rparr>]
      in p\<lparr>np_recent_rejections := drop (length l - kMaxRejectionLog) l\<rparr>)"

text \<open>Assignment to the bundle field of the slot, which is created when it is missing.\<close>

definition assign_bundle :: "string \<Rightarrow> ('i, 'c) NamespaceResourceBundle \<Rightarrow> ('i, 'c) NamespacePool \<Rightarrow> ('i, 'c) NamespacePool" where
  "assign_bundle ns b p = p\<lparr>np_bundles := AList.update ns
     (case map_of (np_bundles p) ns of None \<Rightarrow> fresh_slot b | Some s \<Rightarrow> s\<lparr>sl_bundle := b\<rparr>) (np_bundles p)\<rparr>"

definition erase_slot :: "string \<Rightarrow> ('i, 'c) NamespacePool \<Rightarrow> ('i, 'c) NamespacePool" where
  "erase_slot ns p = p\<lparr>np_bundles := AList.delete ns (np_bundles p)\<rparr>"

text \<open>
  The wrapper with a deadline.  After a timeout the task goes on in the background; its effect on the world is taken at once.
\<close>

definition LoadOneNamespace ::
  "F05Config \<Rightarrow> ('i, 'c, 'w) loader \<Rightarrow> (string \<Rightarrow> bool) \<Rightarrow> string \<Rightarrow> 'w \<Rightarrow>
   ((Status + ('i, 'c) NamespaceResourceBundle) \<times> 'w) option" where
  "LoadOneNamespace cfg load timed_out ns w =
     (if f5_load_timeout_ms_per_ns cfg \<le> 0 then load ns w
      else if timed_out ns
      then Some (Inl (PoolStatus pool_kNsLoadFailed
                  (''load timed out after '' @ to_string (nat (f5_load_timeout_ms_per_ns cfg)) @ ''ms'')),
                 case load ns w of Some (_, w') \<Rightarrow> w' | None \<Rightarrow> w)
      else load ns w)"

section \<open>Admission\<close>

definition already_resident :: "string \<Rightarrow> ('i, 'c) NamespacePool \<Rightarrow> bool" where
  "already_resident ns p = (case map_of (np_bundles p) ns of None \<Rightarrow> False | Some s \<Rightarrow> \<not> sl_pending_delete s)"

definition AdmitCreate ::
  "F05Config \<Rightarrow> ('i, 'c) sizes \<Rightarrow> ('i, 'c, 'w) loader \<Rightarrow> int \<Rightarrow> string \<Rightarrow> u64 \<Rightarrow> ('i, 'c) NamespacePool \<Rightarrow> 'w \<Rightarrow>
   (Status \<times> ('i, 'c) NamespacePool \<times> 'w) option" where
  "AdmitCreate cfg z load now ns est p w =
     (if \<not> already_resident ns p \<and> length (np_bundles p) + 1 > f5_max_namespaces_per_instance cfg
      then Some (PoolStatus pool_kNsQuotaExceeded
                   (''namespace count '' @ to_string (f5_max_namespaces_per_instance cfg) @ '' reached''),
                 RecordRejection now ns ''ns_count_exceeded'' 0 0 est
                   (p\<lparr>np_rejected_ns_count := np_rejected_ns_count p + 1\<rparr>), w)
      else if f5_memory_budget_bytes cfg > 0 \<and> \<not> already_resident ns p \<and>
              CurrentMemoryUsedLocked z p + est > f5_memory_budget_bytes cfg
      then Some (PoolStatus pool_kNsResourceBudgetExceeded
                   (''memory budget '' @ to_string (unat (f5_memory_budget_bytes cfg)) @ '' bytes would be exceeded''),
                 RecordRejection now ns ''memory_exceeded'' (CurrentMemoryUsedLocked z p) (f5_memory_budget_bytes cfg) est
                   (p\<lparr>np_rejected_memory_count := np_rejected_memory_count p + 1\<rparr>), w)
      else if already_resident ns p then Some (Status_Ok, p, w)
      else do {
        (loaded, w') \<leftarrow> load ns w;
        Some (case loaded of
          Inl st \<Rightarrow> (st, p, w')
        | Inr b \<Rightarrow> (Status_Ok,
            RefreshPoolGauges z (p\<lparr>np_bundles := AList.update ns (fresh_slot b) (np_bundles p)\<rparr>), w')) })"

section \<open>Access and eviction\<close>

definition pool_Acquire ::
  "string \<Rightarrow> ('i, 'c) NamespacePool \<Rightarrow> (Status + ('i, 'c) NamespaceResourceBundle) \<times> ('i, 'c) NamespacePool" where
  "pool_Acquire ns p = (case map_of (np_bundles p) ns of
     None \<Rightarrow> (Inl (PoolStatus pool_kNsNotFound ns), p)
   | Some s \<Rightarrow>
       if sl_pending_delete s then (Inl (PoolStatus pool_kNsNotFound ns), p)
       else (Inr (sl_bundle s),
             p\<lparr>np_bundles := AList.update ns (s\<lparr>sl_refcount := sl_refcount s + 1\<rparr>) (np_bundles p)\<rparr>))"

text \<open>\<open>Release\<close> has two critical sections: the decrement under the shared lock, and the reaping under the exclusive one.\<close>

definition release_drop :: "string \<Rightarrow> ('i, 'c) NamespacePool \<Rightarrow> bool \<times> ('i, 'c) NamespacePool" where
  "release_drop ns p = (case map_of (np_bundles p) ns of
     None \<Rightarrow> (False, p)
   | Some s \<Rightarrow> (sl_refcount s = 1 \<and> sl_pending_delete s,
       p\<lparr>np_bundles := AList.update ns (s\<lparr>sl_refcount := sl_refcount s - 1\<rparr>) (np_bundles p)\<rparr>))"

definition release_reap :: "('i, 'c) sizes \<Rightarrow> string \<Rightarrow> ('i, 'c) NamespacePool \<Rightarrow> ('i, 'c) NamespacePool" where
  "release_reap z ns p = (case map_of (np_bundles p) ns of
     None \<Rightarrow> p
   | Some s \<Rightarrow> if sl_pending_delete s \<and> sl_refcount s = 0 then RefreshPoolGauges z (erase_slot ns p) else p)"

definition pool_Release :: "('i, 'c) sizes \<Rightarrow> string \<Rightarrow> ('i, 'c) NamespacePool \<Rightarrow> ('i, 'c) NamespacePool" where
  "pool_Release z ns p = (let (maybe_reap, p') = release_drop ns p in if maybe_reap then release_reap z ns p' else p')"

definition EvictForDelete :: "('i, 'c) sizes \<Rightarrow> string \<Rightarrow> ('i, 'c) NamespacePool \<Rightarrow> Status \<times> ('i, 'c) NamespacePool" where
  "EvictForDelete z ns p = (case map_of (np_bundles p) ns of
     None \<Rightarrow> (Status_Ok, p)
   | Some s \<Rightarrow>
       if sl_refcount s > 0
       then (Status_Ok, p\<lparr>np_bundles := AList.update ns (s\<lparr>sl_pending_delete := True\<rparr>) (np_bundles p)\<rparr>)
       else (Status_Ok, RefreshPoolGauges z (erase_slot ns p)))"

section \<open>Startup and reload\<close>

record StartupReport =
  sr_total_namespaces :: nat
  sr_loaded_successfully :: nat
  sr_failed :: nat
  sr_failed_namespaces :: "string list"
  sr_total_duration_ms :: int

definition startup_one ::
  "string \<Rightarrow> Status + ('i, 'c) NamespaceResourceBundle \<Rightarrow> StartupReport \<times> ('i, 'c) NamespacePool \<Rightarrow>
   StartupReport \<times> ('i, 'c) NamespacePool" where
  "startup_one ns loaded rp = (case rp of (r, p) \<Rightarrow> (case loaded of
     Inr b \<Rightarrow> (r\<lparr>sr_loaded_successfully := sr_loaded_successfully r + 1\<rparr>, assign_bundle ns b p)
   | Inl st \<Rightarrow> (r\<lparr>sr_failed := sr_failed r + 1, sr_failed_namespaces := sr_failed_namespaces r @ [ns]\<rparr>,
       p\<lparr>np_startup_load_failures := np_startup_load_failures p + 1,
         np_startup_failed_namespaces := np_startup_failed_namespaces p @ [ns]\<rparr>)))"

fun startup_load ::
  "(string \<Rightarrow> 'w \<Rightarrow> ((Status + ('i, 'c) NamespaceResourceBundle) \<times> 'w) option) \<Rightarrow> string list \<Rightarrow>
   StartupReport \<times> ('i, 'c) NamespacePool \<Rightarrow> 'w \<Rightarrow> ((StartupReport \<times> ('i, 'c) NamespacePool) \<times> 'w) option" where
  "startup_load ld [] rp w = Some (rp, w)"
| "startup_load ld (ns # nss) rp w = do { (loaded, w') \<leftarrow> ld ns w; startup_load ld nss (startup_one ns loaded rp) w' }"

definition StartupLoadAll ::
  "F05Config \<Rightarrow> ('i, 'c) sizes \<Rightarrow> ('i, 'c, 'w) loader \<Rightarrow> (string \<Rightarrow> bool) \<Rightarrow> int \<Rightarrow> Status + string list \<Rightarrow>
   ('i, 'c) NamespacePool \<Rightarrow> 'w \<Rightarrow> ((Status + StartupReport) \<times> ('i, 'c) NamespacePool \<times> 'w) option" where
  "StartupLoadAll cfg z load timed_out duration list_res p w = (case list_res of
     Inl st \<Rightarrow> Some (Inl st, p, w)
   | Inr catalog \<Rightarrow>
       let ns_list = take (f5_max_namespaces_per_instance cfg) catalog;
           report = \<lparr>sr_total_namespaces = length ns_list, sr_loaded_successfully = 0, sr_failed = 0,
                     sr_failed_namespaces = [], sr_total_duration_ms = 0\<rparr>
       in do {
         ((r, p'), w') \<leftarrow> startup_load (LoadOneNamespace cfg load timed_out) ns_list (report, p) w;
         Some (Inr (r\<lparr>sr_total_duration_ms := duration\<rparr>), RefreshPoolGauges z p', w') })"

definition ReloadNamespace ::
  "('i, 'c) sizes \<Rightarrow> ('i, 'c, 'w) loader \<Rightarrow> string \<Rightarrow> ('i, 'c) NamespacePool \<Rightarrow> 'w \<Rightarrow>
   (Status \<times> ('i, 'c) NamespacePool \<times> 'w) option" where
  "ReloadNamespace z load ns p w = do {
     (loaded, w') \<leftarrow> load ns w;
     Some (case loaded of
       Inl st \<Rightarrow> (st, p, w')
     | Inr b \<Rightarrow> (Status_Ok,
         RefreshPoolGauges z ((assign_bundle ns b p)
           \<lparr>np_startup_failed_namespaces := filter (\<lambda>n. n \<noteq> ns) (np_startup_failed_namespaces p)\<rparr>), w')) }"

section \<open>Queries\<close>

record PoolStats =
  st_pool_size_current :: nat
  st_pool_size_max :: nat
  st_memory_budget_used_bytes :: u64
  st_memory_budget_limit_bytes :: u64
  st_rejected_ns_count_exceeded :: nat
  st_rejected_memory_exceeded :: nat
  st_startup_load_failures :: nat

definition GetPoolStats :: "F05Config \<Rightarrow> ('i, 'c) sizes \<Rightarrow> ('i, 'c) NamespacePool \<Rightarrow> PoolStats" where
  "GetPoolStats cfg z p = \<lparr>st_pool_size_current = length (np_bundles p),
     st_pool_size_max = f5_max_namespaces_per_instance cfg, st_memory_budget_used_bytes = CurrentMemoryUsedLocked z p,
     st_memory_budget_limit_bytes = f5_memory_budget_bytes cfg, st_rejected_ns_count_exceeded = np_rejected_ns_count p,
     st_rejected_memory_exceeded = np_rejected_memory_count p, st_startup_load_failures = np_startup_load_failures p\<rparr>"

record ExplainState =
  ex_active_namespaces :: "string list"
  ex_memory_estimate_bytes :: u64
  ex_startup_failed_namespaces :: "string list"
  ex_recent_rejections :: "RejectionEvent list"

definition GetExplainState :: "('i, 'c) sizes \<Rightarrow> ('i, 'c) NamespacePool \<Rightarrow> ExplainState" where
  "GetExplainState z p = \<lparr>ex_active_namespaces = map fst (np_bundles p), ex_memory_estimate_bytes = CurrentMemoryUsedLocked z p,
     ex_startup_failed_namespaces = np_startup_failed_namespaces p, ex_recent_rejections = np_recent_rejections p\<rparr>"

section \<open>The facade\<close>

text \<open>
  A facade borrows a bundle for one request.  \<open>store_rc\<close> is the result of opening its private connection and \<open>mem\<close> that of
  opening the memory database; both windows are self-held.
\<close>

record ('i, 'c) NamespaceFacade =
  nf_namespace_id :: string
  nf_bundle :: "('i, 'c) NamespaceResourceBundle option"
  nf_acquired :: bool
  nf_store :: bool
  nf_blob :: bool
  nf_memory :: bool

definition NamespaceFacade_new :: "string \<Rightarrow> ('i, 'c) NamespaceFacade" where
  "NamespaceFacade_new ns = \<lparr>nf_namespace_id = ns, nf_bundle = None, nf_acquired = False, nf_store = False, nf_blob = False,
     nf_memory = False\<rparr>"

definition facade_Acquire ::
  "int \<Rightarrow> Status \<Rightarrow> ('i, 'c) NamespaceFacade \<Rightarrow> ('i, 'c) NamespacePool \<Rightarrow>
   Status \<times> ('i, 'c) NamespaceFacade \<times> ('i, 'c) NamespacePool" where
  "facade_Acquire store_rc mem f p = (case pool_Acquire (nf_namespace_id f) p of
     (Inl st, p') \<Rightarrow> (st, f, p')
   | (Inr b, p') \<Rightarrow>
       let f = f\<lparr>nf_bundle := Some b, nf_acquired := True, nf_store := True\<rparr> in
       if store_rc \<noteq> 0
       then (StatusOf kInternal (''namespace_facade: store Open() failed (ns='' @ nf_namespace_id f @ '')''), f, p')
       else let f = f\<lparr>nf_blob := True, nf_memory := True\<rparr> in
         if \<not> ok mem
         then (StatusOf kInternal
                 (''namespace_facade: memory Init() failed (ns='' @ nf_namespace_id f @ ''): '' @ message mem), f, p')
         else (Status_Ok, f, p'))"

definition facade_destroy :: "('i, 'c) sizes \<Rightarrow> ('i, 'c) NamespaceFacade \<Rightarrow> ('i, 'c) NamespacePool \<Rightarrow> ('i, 'c) NamespacePool" where
  "facade_destroy z f p = (if nf_acquired f then pool_Release z (nf_namespace_id f) p else p)"

end
