(* ===== verification/Namespace_Borrow.thy ===== *)
theory Namespace_Borrow
  imports Namespace_Pool
begin

text \<open>
  Borrowing from the pool while other threads evict, admit and reload: a borrowed bundle stays in place until it is released,
  a namespace deleted under a borrower is reaped when the last borrower leaves, and admission keeps the limits.  The two places
  where the code relies on its callers, recreating a namespace that is being deleted and reloading one that is in use, are
  guards of the step relation; what happens without them is shown at the end.
\<close>

section \<open>Threads\<close>

record ('i, 'c) pool_state =
  ps_pool :: "('i, 'c) NamespacePool"
  ps_borrows :: "(string \<times> ('i, 'c) NamespaceResourceBundle) list"
  ps_reaps :: "string list"

definition pool_init :: "('i, 'c) pool_state" where
  "pool_init = \<lparr>ps_pool = NamespacePool_new, ps_borrows = [], ps_reaps = []\<rparr>"

definition borrowed :: "string \<Rightarrow> ('i, 'c) pool_state \<Rightarrow> bool" where
  "borrowed ns s \<longleftrightarrow> (\<exists>b. (ns, b) \<in> set (ps_borrows s))"

definition being_deleted :: "string \<Rightarrow> ('i, 'c) NamespacePool \<Rightarrow> bool" where
  "being_deleted ns p \<longleftrightarrow> (\<exists>sl. map_of (np_bundles p) ns = Some sl \<and> sl_pending_delete sl)"

text \<open>
  One critical section of some thread.  \<open>ps_borrows\<close> holds the bundles handed out and not yet released, \<open>ps_reaps\<close> the
  releases that are between their two sections.
\<close>

inductive ns_step :: "F05Config \<Rightarrow> ('i, 'c) pool_state \<Rightarrow> ('i, 'c) pool_state \<Rightarrow> bool" for cfg where
  acquire: "pool_Acquire ns (ps_pool s) = (Inr b, p') \<Longrightarrow>
     ns_step cfg s (s\<lparr>ps_pool := p', ps_borrows := (ns, b) # ps_borrows s\<rparr>)"
| drop: "ps_borrows s = xs @ (ns, b) # ys \<Longrightarrow> release_drop ns (ps_pool s) = (r, p') \<Longrightarrow>
     ns_step cfg s (s\<lparr>ps_pool := p', ps_borrows := xs @ ys, ps_reaps := (if r then ns # ps_reaps s else ps_reaps s)\<rparr>)"
| reap: "ps_reaps s = xs @ ns # ys \<Longrightarrow>
     ns_step cfg s (s\<lparr>ps_pool := release_reap z ns (ps_pool s), ps_reaps := xs @ ys\<rparr>)"
| evict: "EvictForDelete z ns (ps_pool s) = (st, p') \<Longrightarrow> ns_step cfg s (s\<lparr>ps_pool := p'\<rparr>)"
| admit: "AdmitCreate cfg z load now ns est (ps_pool s) (w :: unit) = Some (st, p', w') \<Longrightarrow>
     \<not> (being_deleted ns (ps_pool s) \<and> borrowed ns s) \<Longrightarrow> ns_step cfg s (s\<lparr>ps_pool := p'\<rparr>)"
| reload: "ReloadNamespace z load ns (ps_pool s) (w :: unit) = Some (st, p', w') \<Longrightarrow>
     \<not> borrowed ns s \<Longrightarrow> ns_step cfg s (s\<lparr>ps_pool := p'\<rparr>)"
| startup: "StartupLoadAll cfg z load timed_out duration lst (ps_pool s) (w :: unit) = Some (res, p', w') \<Longrightarrow>
     ps_borrows s = [] \<Longrightarrow> ns_step cfg s (s\<lparr>ps_pool := p'\<rparr>)"

inductive ns_reach :: "F05Config \<Rightarrow> ('i, 'c) pool_state \<Rightarrow> bool" for cfg where
  init: "ns_reach cfg pool_init"
| step: "ns_reach cfg s \<Longrightarrow> ns_step cfg s s' \<Longrightarrow> ns_reach cfg s'"

section \<open>Invariant\<close>

definition borrow_count :: "string \<Rightarrow> (string \<times> 'b) list \<Rightarrow> nat" where
  "borrow_count ns bs = length (filter (\<lambda>x. fst x = ns) bs)"

definition slot_inv ::
  "(string \<times> ('i, 'c) NamespaceSlot) list \<Rightarrow> (string \<times> ('i, 'c) NamespaceResourceBundle) list \<Rightarrow> string list \<Rightarrow> string \<Rightarrow> bool" where
  "slot_inv bundles borrows reaps ns = (case map_of bundles ns of
     None \<Rightarrow> borrow_count ns borrows = 0
   | Some sl \<Rightarrow> (\<forall>b. (ns, b) \<in> set borrows \<longrightarrow> b = sl_bundle sl) \<and> sl_refcount sl = int (borrow_count ns borrows) \<and>
       (sl_pending_delete sl \<and> borrow_count ns borrows = 0 \<longrightarrow> ns \<in> set reaps))"

definition pool_inv :: "('i, 'c) pool_state \<Rightarrow> bool" where
  "pool_inv s \<longleftrightarrow> distinct (map fst (np_bundles (ps_pool s))) \<and>
     (\<forall>ns. slot_inv (np_bundles (ps_pool s)) (ps_borrows s) (ps_reaps s) ns)"

lemma borrow_count_simps [simp]:
  "borrow_count ns [] = 0"
  "borrow_count ns (x # bs) = (if fst x = ns then 1 else 0) + borrow_count ns bs"
  "borrow_count ns (as @ bs) = borrow_count ns as + borrow_count ns bs"
  by (simp_all add: borrow_count_def)

lemma borrow_count_0_iff: "borrow_count ns bs = 0 \<longleftrightarrow> (\<forall>b. (ns, b) \<notin> set bs)"
  by (induction bs) auto

lemma borrowed_iff: "borrowed ns s \<longleftrightarrow> borrow_count ns (ps_borrows s) \<noteq> 0"
  by (simp add: borrowed_def borrow_count_0_iff)

text \<open>An operation touches the slot and the borrows of one namespace, so only that one has to be looked at.\<close>

lemma pool_invI:
  assumes "pool_inv s" "distinct (map fst (np_bundles (ps_pool s')))"
    and "\<And>n. n \<noteq> ns \<Longrightarrow> map_of (np_bundles (ps_pool s')) n = map_of (np_bundles (ps_pool s)) n"
    and "\<And>n b. n \<noteq> ns \<Longrightarrow> (n, b) \<in> set (ps_borrows s') \<longleftrightarrow> (n, b) \<in> set (ps_borrows s)"
    and "\<And>n. n \<noteq> ns \<Longrightarrow> borrow_count n (ps_borrows s') = borrow_count n (ps_borrows s)"
    and "\<And>n. n \<noteq> ns \<Longrightarrow> n \<in> set (ps_reaps s) \<Longrightarrow> n \<in> set (ps_reaps s')"
    and "slot_inv (np_bundles (ps_pool s')) (ps_borrows s') (ps_reaps s') ns"
  shows "pool_inv s'"
proof -
  have "slot_inv (np_bundles (ps_pool s')) (ps_borrows s') (ps_reaps s') n" for n
  proof (cases "n = ns")
    case False
    moreover have "slot_inv (np_bundles (ps_pool s)) (ps_borrows s) (ps_reaps s) n" using assms(1) by (simp add: pool_inv_def)
    ultimately show ?thesis using assms(3,4,5,6)[of n] by (auto simp: slot_inv_def split: option.splits)
  qed (use assms(7) in simp)
  with assms(2) show ?thesis by (simp add: pool_inv_def)
qed

lemma pool_invD:
  assumes "pool_inv s"
  shows "distinct (map fst (np_bundles (ps_pool s)))" "slot_inv (np_bundles (ps_pool s)) (ps_borrows s) (ps_reaps s) ns"
  using assms by (auto simp: pool_inv_def)

lemmas slot_lookup = update_conv' delete_conv' map_of_delete

lemma np_bundles_RefreshPoolGauges [simp]: "np_bundles (RefreshPoolGauges z p) = np_bundles p"
  by (simp add: RefreshPoolGauges_def)

lemma np_bundles_RecordRejection [simp]: "np_bundles (RecordRejection now ns r u l e p) = np_bundles p"
  by (simp add: RecordRejection_def Let_def)

lemma np_bundles_erase_slot [simp]: "np_bundles (erase_slot ns p) = AList.delete ns (np_bundles p)"
  by (simp add: erase_slot_def)

lemma acquire_inv:
  assumes "pool_inv s" "pool_Acquire ns (ps_pool s) = (Inr b, p')"
  shows "pool_inv (s\<lparr>ps_pool := p', ps_borrows := (ns, b) # ps_borrows s\<rparr>)"
proof (rule pool_invI[OF assms(1), where ns = ns])
  obtain sl where sl: "map_of (np_bundles (ps_pool s)) ns = Some sl" "\<not> sl_pending_delete sl" "b = sl_bundle sl"
    "p' = (ps_pool s)\<lparr>np_bundles := AList.update ns (sl\<lparr>sl_refcount := sl_refcount sl + 1\<rparr>) (np_bundles (ps_pool s))\<rparr>"
    using assms(2) by (auto simp: pool_Acquire_def split: option.splits if_splits)
  show "distinct (map fst (np_bundles (ps_pool (s\<lparr>ps_pool := p', ps_borrows := (ns, b) # ps_borrows s\<rparr>))))"
    using pool_invD(1)[OF assms(1)] by (simp add: sl distinct_update)
  show "slot_inv (np_bundles (ps_pool (s\<lparr>ps_pool := p', ps_borrows := (ns, b) # ps_borrows s\<rparr>)))
     (ps_borrows (s\<lparr>ps_pool := p', ps_borrows := (ns, b) # ps_borrows s\<rparr>))
     (ps_reaps (s\<lparr>ps_pool := p', ps_borrows := (ns, b) # ps_borrows s\<rparr>)) ns"
    using pool_invD(2)[OF assms(1), of ns] sl by (auto simp: slot_inv_def slot_lookup)
  show "map_of (np_bundles (ps_pool (s\<lparr>ps_pool := p', ps_borrows := (ns, b) # ps_borrows s\<rparr>))) n = map_of (np_bundles (ps_pool s)) n"
    if "n \<noteq> ns" for n using that by (simp add: sl slot_lookup)
qed auto

lemma drop_inv:
  assumes "pool_inv s" "ps_borrows s = xs @ (ns, b) # ys" "release_drop ns (ps_pool s) = (r, p')"
  shows "pool_inv (s\<lparr>ps_pool := p', ps_borrows := xs @ ys, ps_reaps := (if r then ns # ps_reaps s else ps_reaps s)\<rparr>)"
    (is "pool_inv ?s'")
proof (rule pool_invI[OF assms(1), where ns = ns])
  note inv = pool_invD(2)[OF assms(1), of ns]
  obtain sl where sl: "map_of (np_bundles (ps_pool s)) ns = Some sl"
    using inv assms(2) by (auto simp: slot_inv_def split: option.splits)
  then have p': "p' = (ps_pool s)\<lparr>np_bundles := AList.update ns (sl\<lparr>sl_refcount := sl_refcount sl - 1\<rparr>) (np_bundles (ps_pool s))\<rparr>"
    "r = (sl_refcount sl = 1 \<and> sl_pending_delete sl)"
    using assms(3) by (auto simp: release_drop_def)
  show "distinct (map fst (np_bundles (ps_pool ?s')))" using pool_invD(1)[OF assms(1)] by (simp add: p' distinct_update)
  show "slot_inv (np_bundles (ps_pool ?s')) (ps_borrows ?s') (ps_reaps ?s') ns"
    using inv sl p' assms(2) by (auto simp: slot_inv_def slot_lookup)
  show "map_of (np_bundles (ps_pool ?s')) n = map_of (np_bundles (ps_pool s)) n" if "n \<noteq> ns" for n
    using that by (simp add: p' slot_lookup)
qed (use assms(2) in auto)

lemma reap_inv:
  assumes "pool_inv s" "ps_reaps s = xs @ ns # ys"
  shows "pool_inv (s\<lparr>ps_pool := release_reap z ns (ps_pool s), ps_reaps := xs @ ys\<rparr>)" (is "pool_inv ?s'")
proof (rule pool_invI[OF assms(1), where ns = ns])
  note inv = pool_invD(2)[OF assms(1), of ns]
  show "distinct (map fst (np_bundles (ps_pool ?s')))"
    using pool_invD(1)[OF assms(1)] by (simp add: release_reap_def distinct_delete split: option.splits)
  show "slot_inv (np_bundles (ps_pool ?s')) (ps_borrows ?s') (ps_reaps ?s') ns"
    using inv by (auto simp: slot_inv_def release_reap_def slot_lookup split: option.splits)
  show "map_of (np_bundles (ps_pool ?s')) n = map_of (np_bundles (ps_pool s)) n" if "n \<noteq> ns" for n
    using that by (simp add: release_reap_def slot_lookup split: option.splits)
qed (use assms(2) in auto)

lemma evict_inv:
  assumes "pool_inv s" "EvictForDelete z ns (ps_pool s) = (st, p')"
  shows "pool_inv (s\<lparr>ps_pool := p'\<rparr>)" (is "pool_inv ?s'")
proof (rule pool_invI[OF assms(1), where ns = ns])
  note inv = pool_invD(2)[OF assms(1), of ns]
  show "distinct (map fst (np_bundles (ps_pool ?s')))"
    using pool_invD(1)[OF assms(1)] assms(2)
    by (auto simp: EvictForDelete_def distinct_delete distinct_update split: option.splits if_splits)
  show "slot_inv (np_bundles (ps_pool ?s')) (ps_borrows ?s') (ps_reaps ?s') ns"
    using inv assms(2) by (auto simp: slot_inv_def EvictForDelete_def slot_lookup split: option.splits if_splits)
  show "map_of (np_bundles (ps_pool ?s')) n = map_of (np_bundles (ps_pool s)) n" if "n \<noteq> ns" for n
    using that assms(2) by (auto simp: EvictForDelete_def slot_lookup split: option.splits if_splits)
qed auto

text \<open>A bundle may be assigned to a slot that nobody borrows.\<close>

lemma assign_inv:
  assumes "pool_inv s" "\<not> borrowed ns s"
    and "np_bundles p' = AList.update ns sl (np_bundles (ps_pool s))" "sl_refcount sl = 0" "sl_pending_delete sl \<longrightarrow> being_deleted ns (ps_pool s)"
  shows "pool_inv (s\<lparr>ps_pool := p'\<rparr>)" (is "pool_inv ?s'")
proof (rule pool_invI[OF assms(1), where ns = ns])
  note inv = pool_invD(2)[OF assms(1), of ns]
  show "distinct (map fst (np_bundles (ps_pool ?s')))" using pool_invD(1)[OF assms(1)] by (simp add: assms(3) distinct_update)
  show "slot_inv (np_bundles (ps_pool ?s')) (ps_borrows ?s') (ps_reaps ?s') ns"
    using inv assms(2)[unfolded borrowed_iff] assms(2)[unfolded borrowed_def] assms(4,5)
    by (auto simp: slot_inv_def assms(3) slot_lookup being_deleted_def)
  show "map_of (np_bundles (ps_pool ?s')) n = map_of (np_bundles (ps_pool s)) n" if "n \<noteq> ns" for n
    using that by (simp add: assms(3) slot_lookup)
qed auto

lemma same_bundles_inv: "pool_inv s \<Longrightarrow> np_bundles p' = np_bundles (ps_pool s) \<Longrightarrow> pool_inv (s\<lparr>ps_pool := p'\<rparr>)"
  by (simp add: pool_inv_def)

lemma assign_bundle_inv:
  assumes "pool_inv s" "\<not> borrowed ns s"
  shows "pool_inv (s\<lparr>ps_pool := assign_bundle ns b (ps_pool s)\<rparr>)"
proof (rule assign_inv[OF assms])
  let ?sl = "case map_of (np_bundles (ps_pool s)) ns of None \<Rightarrow> fresh_slot b | Some s \<Rightarrow> s\<lparr>sl_bundle := b\<rparr>"
  show "np_bundles (assign_bundle ns b (ps_pool s)) = AList.update ns ?sl (np_bundles (ps_pool s))" by (simp add: assign_bundle_def)
  show "sl_refcount ?sl = 0" "sl_pending_delete ?sl \<longrightarrow> being_deleted ns (ps_pool s)"
    using pool_invD(2)[OF assms(1), of ns] assms(2)
    by (auto simp: slot_inv_def borrowed_iff being_deleted_def fresh_slot_def split: option.splits)
qed

lemma admit_cases:
  assumes "AdmitCreate cfg z load now ns est p w = Some (st, p', w')"
  obtains (same) "np_bundles p' = np_bundles p" "ok st \<longleftrightarrow> already_resident ns p"
  | (load) b where "\<not> already_resident ns p" "np_bundles p' = AList.update ns (fresh_slot b) (np_bundles p)" "st = Status_Ok"
      "length (np_bundles p) + 1 \<le> f5_max_namespaces_per_instance cfg"
      "f5_memory_budget_bytes cfg > 0 \<longrightarrow> CurrentMemoryUsedLocked z p + est \<le> f5_memory_budget_bytes cfg"
  | (failed) st' where "np_bundles p' = np_bundles p" "load ns w = Some (Inl st', w')" "st = st'" "p' = p"
proof (cases "already_resident ns p \<or> length (np_bundles p) + 1 > f5_max_namespaces_per_instance cfg \<or>
      (f5_memory_budget_bytes cfg > 0 \<and> CurrentMemoryUsedLocked z p + est > f5_memory_budget_bytes cfg)")
  case True
  show thesis by (rule same) (use True assms in \<open>auto simp: AdmitCreate_def split: if_splits\<close>)
next
  case False
  moreover obtain l w1 where l: "load ns w = Some (l, w1)"
    using False assms by (auto simp: AdmitCreate_def split: if_splits bind_splits)
  ultimately show thesis
    by (cases l) (use assms failed load in \<open>auto simp: AdmitCreate_def not_less split: if_splits\<close>)
qed

lemma admit_inv:
  assumes "pool_inv s" "AdmitCreate cfg z load now ns est (ps_pool s) w = Some (st, p', w')"
    and "\<not> (being_deleted ns (ps_pool s) \<and> borrowed ns s)"
  shows "pool_inv (s\<lparr>ps_pool := p'\<rparr>)"
  using assms(2)
proof (cases rule: admit_cases)
  case (load b)
  have "\<not> borrowed ns s"
    using load(1) assms(3) pool_invD(2)[OF assms(1), of ns]
    by (auto simp: already_resident_def being_deleted_def slot_inv_def borrowed_iff split: option.splits)
  from assign_inv[OF assms(1) this load(2)] show ?thesis by (simp add: fresh_slot_def)
next
  case same
  then show ?thesis using same_bundles_inv[OF assms(1)] by simp
next
  case failed
  then show ?thesis using same_bundles_inv[OF assms(1)] by blast
qed

lemma reload_cases:
  assumes "ReloadNamespace z load ns p w = Some (st, p', w')"
  obtains (failed) "load ns w = Some (Inl st, w')" "p' = p"
  | (load) b where "load ns w = Some (Inr b, w')" "st = Status_Ok" "np_bundles p' = np_bundles (assign_bundle ns b p)"
proof -
  obtain l w1 where l: "load ns w = Some (l, w1)" using assms by (auto simp: ReloadNamespace_def split: bind_splits)
  then show thesis by (cases l) (use assms failed load in \<open>auto simp: ReloadNamespace_def\<close>)
qed

lemma reload_inv:
  assumes "pool_inv s" "ReloadNamespace z load ns (ps_pool s) w = Some (st, p', w')" "\<not> borrowed ns s"
  shows "pool_inv (s\<lparr>ps_pool := p'\<rparr>)"
  using assms(2)
proof (cases rule: reload_cases)
  case (load b)
  show ?thesis using same_bundles_inv[OF assign_bundle_inv[OF assms(1,3)], of p' b] load(3) by simp
qed (use assms(1) in simp)

lemma startup_load_inv:
  assumes "startup_load ld nss (r, p) w = Some ((r', p'), w')" "pool_inv (s\<lparr>ps_pool := p\<rparr>)" "ps_borrows s = []"
  shows "pool_inv (s\<lparr>ps_pool := p'\<rparr>)"
  using assms(1,2)
proof (induction nss arbitrary: r p w)
  case (Cons ns nss)
  obtain l w1 where l: "ld ns w = Some (l, w1)" "startup_load ld nss (startup_one ns l (r, p)) w1 = Some ((r', p'), w')"
    using Cons.prems(1) by (auto simp: bind_eq_Some_conv)
  obtain r1 p1 where rp: "startup_one ns l (r, p) = (r1, p1)" by fastforce
  have nb: "\<not> borrowed ns (s\<lparr>ps_pool := p\<rparr>)" using assms(3) by (simp add: borrowed_def)
  have "pool_inv (s\<lparr>ps_pool := p1\<rparr>)"
    using rp same_bundles_inv[OF Cons.prems(2), of p1] same_bundles_inv[OF assign_bundle_inv[OF Cons.prems(2) nb], of p1]
    by (cases l) (auto simp: startup_one_def)
  from Cons.IH[OF l(2)[unfolded rp] this] show ?case .
qed simp

lemma startup_inv:
  assumes "pool_inv s" "StartupLoadAll cfg z load timed_out duration lst (ps_pool s) w = Some (res, p', w')" "ps_borrows s = []"
  shows "pool_inv (s\<lparr>ps_pool := p'\<rparr>)"
proof -
  have id: "s\<lparr>ps_pool := ps_pool s\<rparr> = s" by simp
  show ?thesis
    using assms(2) startup_load_inv[where s = s, unfolded id, OF _ _ assms(3)] assms(1) same_bundles_inv
    by (fastforce simp: StartupLoadAll_def Let_def bind_eq_Some_conv id split: sum.splits)
qed

lemma step_inv: "ns_step cfg s s' \<Longrightarrow> pool_inv s \<Longrightarrow> pool_inv s'"
proof (induction rule: ns_step.induct)
  case acquire then show ?case using acquire_inv by blast
next
  case drop then show ?case using drop_inv by blast
next
  case reap then show ?case using reap_inv by blast
next
  case evict then show ?case using evict_inv by blast
next
  case admit then show ?case using admit_inv[OF admit.prems admit.hyps] by simp
next
  case reload then show ?case using reload_inv[OF reload.prems reload.hyps] by simp
next
  case startup then show ?case using startup_inv[OF startup.prems startup.hyps] by simp
qed

lemma reach_inv: "ns_reach cfg s \<Longrightarrow> pool_inv s"
proof (induction rule: ns_reach.induct)
  case init
  show ?case by (simp add: pool_inv_def pool_init_def NamespacePool_new_def slot_inv_def)
next
  case step
  then show ?case using step_inv by blast
qed

section \<open>Properties\<close>

text \<open>
  Whatever threads borrow, release, evict, admit and reload, a bundle that was handed out and not yet released is
  still the bundle of its namespace, and its slot counts exactly the outstanding borrows.
\<close>
theorem borrowed_bundle_stays:
  assumes "ns_reach cfg s" "(ns, b) \<in> set (ps_borrows s)"
  shows "\<exists>sl. map_of (np_bundles (ps_pool s)) ns = Some sl \<and> sl_bundle sl = b \<and>
           sl_refcount sl = int (borrow_count ns (ps_borrows s))"
  using pool_invD(2)[OF reach_inv[OF assms(1)], of ns] assms(2)
  by (auto simp: slot_inv_def borrow_count_0_iff split: option.splits)

definition sample_bundle :: "string \<Rightarrow> (nat, nat) NamespaceResourceBundle" where
  "sample_bundle ns = \<lparr>nb_namespace_id = ns, nb_unit_bundles = []\<rparr>"

definition sample_config :: F05Config where
  "sample_config = \<lparr>f5_max_namespaces_per_instance = 2, f5_memory_budget_bytes = 0, f5_startup_load_workers = 8,
     f5_load_timeout_ms_per_ns = 0, f5_data_root = ''d''\<rparr>"

definition sample_sizes :: "(nat, nat) sizes" where
  "sample_sizes = \<lparr>footprint = of_nat, pwl_size = of_nat\<rparr>"

definition sample_state :: "(nat, nat) pool_state" where
  "sample_state = \<lparr>ps_pool = NamespacePool_new\<lparr>np_bundles := [(''a'', (fresh_slot (sample_bundle ''a''))\<lparr>sl_refcount := 1\<rparr>)],
     np_size_gauge := 1\<rparr>, ps_borrows = [(''a'', sample_bundle ''a'')], ps_reaps = []\<rparr>"

lemma sample_reach: "ns_reach sample_config sample_state"
proof -
  let ?load = "\<lambda>ns (w :: unit). Some (Inr (sample_bundle ns) :: Status + (nat, nat) NamespaceResourceBundle, w)"
  let ?s1 = "pool_init\<lparr>ps_pool := NamespacePool_new\<lparr>np_bundles := [(''a'', fresh_slot (sample_bundle ''a''))], np_size_gauge := 1\<rparr>\<rparr>"
  have "ns_step sample_config pool_init ?s1"
    by (rule ns_step.admit[of _ sample_sizes ?load 0 "''a''" 0 _ "()" Status_Ok _ "()"])
      (simp_all add: pool_init_def NamespacePool_new_def AdmitCreate_def already_resident_def sample_config_def RefreshPoolGauges_def
        CurrentMemoryUsedLocked_def TotalMemoryEstimateBytes_def fresh_slot_def sample_bundle_def being_deleted_def)
  moreover have "ns_step sample_config ?s1 sample_state"
    using ns_step.acquire[of "''a''" ?s1 "sample_bundle ''a''" _ sample_config]
    by (simp add: sample_state_def pool_init_def pool_Acquire_def fresh_slot_def NamespacePool_new_def)
  ultimately show ?thesis using ns_reach.intros by blast
qed

theorem borrowed_bundle_stays_witness:
  "\<exists>sl. map_of (np_bundles (ps_pool sample_state)) ''a'' = Some sl \<and> sl_bundle sl = sample_bundle ''a'' \<and>
     sl_refcount sl = int (borrow_count ''a'' (ps_borrows sample_state))"
  by (rule borrowed_bundle_stays[OF sample_reach]) (simp add: sample_state_def)

text \<open>
  A namespace that was deleted while it was in use is gone once every borrower has left and every release has run to its end.
\<close>

theorem deleted_namespaces_reaped:
  assumes "ns_reach cfg s" "ps_borrows s = []" "ps_reaps s = []"
  shows "\<not> being_deleted ns (ps_pool s)"
  using pool_invD(2)[OF reach_inv[OF assms(1)], of ns] assms(2,3) by (auto simp: slot_inv_def being_deleted_def)

text \<open>While it is being deleted nobody can borrow it.\<close>

lemma being_deleted_not_acquired: "being_deleted ns p \<Longrightarrow> pool_Acquire ns p = (Inl (PoolStatus pool_kNsNotFound ns), p)"
  by (auto simp: being_deleted_def pool_Acquire_def)

lemma length_update_le: "length (AList.update k v al) \<le> length al + 1"
  by (induction al) auto

lemma resident_after_update [simp]:
  "np_bundles p' = AList.update ns (fresh_slot b) l \<Longrightarrow> already_resident ns p'"
  by (simp add: already_resident_def slot_lookup fresh_slot_def)

text \<open>
  Admission changes the residents only by putting a freshly loaded bundle into the slot of the namespace, and then the
  number of residents and, if a budget is set, the memory in use plus the estimate are within their limits; a rejected or
  failed admission leaves the residents alone, a namespace that is already resident is admitted as it is, and after
  success the namespace is resident.
\<close>
theorem admission_gates:
  assumes "AdmitCreate cfg z load now ns est p w = Some (st, p', w')"
    and "\<And>e. load ns w = Some (Inl e, w') \<Longrightarrow> \<not> ok e"
  shows "(np_bundles p' \<noteq> np_bundles p \<longrightarrow>
           (\<exists>b. np_bundles p' = AList.update ns (fresh_slot b) (np_bundles p)) \<and> ok st \<and>
           length (np_bundles p') \<le> f5_max_namespaces_per_instance cfg \<and>
           (f5_memory_budget_bytes cfg > 0 \<longrightarrow> CurrentMemoryUsedLocked z p + est \<le> f5_memory_budget_bytes cfg)) \<and>
         (already_resident ns p \<longrightarrow> st = Status_Ok \<and> p' = p \<and> w' = w) \<and>
         (ok st \<longleftrightarrow> already_resident ns p')"
proof (intro conjI)
  show "already_resident ns p \<longrightarrow> st = Status_Ok \<and> p' = p \<and> w' = w"
    using assms(1) by (auto simp: AdmitCreate_def)
  show "np_bundles p' \<noteq> np_bundles p \<longrightarrow>
           (\<exists>b. np_bundles p' = AList.update ns (fresh_slot b) (np_bundles p)) \<and> ok st \<and>
           length (np_bundles p') \<le> f5_max_namespaces_per_instance cfg \<and>
           (f5_memory_budget_bytes cfg > 0 \<longrightarrow> CurrentMemoryUsedLocked z p + est \<le> f5_memory_budget_bytes cfg)"
    using assms(1)
  proof (cases rule: admit_cases)
    case (load b)
    then show ?thesis using length_update_le[of ns "fresh_slot b" "np_bundles p"] by auto
  qed auto
  show "ok st \<longleftrightarrow> already_resident ns p'"
    using assms(1)
  proof (cases rule: admit_cases)
    case same
    then show ?thesis by (simp add: already_resident_def)
  next
    case (failed st')
    moreover have "\<not> already_resident ns p" using failed(3) assms(1) assms(2)[OF failed(2)] by (auto simp: AdmitCreate_def split: if_splits)
    ultimately show ?thesis using assms(2) by simp
  qed simp
qed

theorem admission_gates_witness:
  "\<exists>p'. AdmitCreate sample_config sample_sizes (\<lambda>ns w. Some (Inr (sample_bundle ns), w)) 0 ''a'' 0 NamespacePool_new () =
     Some (Status_Ok, p', ()) \<and> length (np_bundles p') \<le> 2"
proof -
  let ?load = "\<lambda>ns (w :: unit). Some (Inr (sample_bundle ns) :: Status + (nat, nat) NamespaceResourceBundle, w)"
  obtain p' where p': "AdmitCreate sample_config sample_sizes ?load 0 ''a'' 0 NamespacePool_new () = Some (Status_Ok, p', ())"
    by (simp add: AdmitCreate_def NamespacePool_new_def already_resident_def sample_config_def)
  moreover have "\<not> (\<exists>e. ?load ''a'' () = Some (Inl e, ()))" by simp
  ultimately show ?thesis using admission_gates[OF p'] by (auto simp: NamespacePool_new_def sample_config_def)
qed

section \<open>The facade\<close>

text \<open>
  A facade gives back exactly what it took, also when opening its own windows failed half way.
\<close>

lemma update_same: "map_of l k = Some v \<Longrightarrow> AList.update k v l = l"
  by (induction l) (auto split: if_splits)

lemma length_update_same: "map_of l k = Some v \<Longrightarrow> length (AList.update k v' l) = length l"
  by (induction l) (auto split: if_splits)

theorem facade_balanced:
  assumes "facade_Acquire store_rc mem (NamespaceFacade_new ns) p = (st, f, p')"
  shows "np_bundles (facade_destroy z f p') = np_bundles p"
    and "ok st \<longrightarrow> nf_acquired f \<and> nf_store f \<and> nf_blob f \<and> nf_memory f"
proof -
  show "ok st \<longrightarrow> nf_acquired f \<and> nf_store f \<and> nf_blob f \<and> nf_memory f"
    using assms by (auto simp: facade_Acquire_def pool_Acquire_def Let_def NamespaceFacade_new_def split: option.splits if_splits)
  show "np_bundles (facade_destroy z f p') = np_bundles p"
  proof (cases "pool_Acquire ns p")
    case (Pair r p1)
    show ?thesis
    proof (cases r)
      case (Inl e)
      then show ?thesis
        using assms Pair by (auto simp: facade_Acquire_def NamespaceFacade_new_def facade_destroy_def pool_Acquire_def
            split: option.splits if_splits)
    next
      case (Inr b)
      then obtain sl where sl: "map_of (np_bundles p) ns = Some sl" "\<not> sl_pending_delete sl"
        "p1 = p\<lparr>np_bundles := AList.update ns (sl\<lparr>sl_refcount := sl_refcount sl + 1\<rparr>) (np_bundles p)\<rparr>"
        using Pair by (auto simp: pool_Acquire_def split: option.splits if_splits)
      have "p' = p1" "nf_acquired f" "nf_namespace_id f = ns"
        using assms Pair Inr by (auto simp: facade_Acquire_def NamespaceFacade_new_def Let_def split: if_splits)
      then show ?thesis
        using sl by (simp add: facade_destroy_def pool_Release_def release_drop_def slot_lookup update_same)
    qed
  qed
qed

section \<open>Where the pool relies on its callers\<close>

text \<open>
  \<open>ReloadNamespace\<close> of a namespace that is in use replaces the bundle under its borrower: the objects of the borrowed
  bundle are destroyed although it was never released.  The reload request passes any namespace to it.
\<close>
theorem reload_frees_borrowed_bundle:
  assumes "pool_Acquire ns p = (Inr b, p1)" "load ns w = Some (Inr b', w')"
  shows "\<exists>p2 s1. ReloadNamespace z load ns p1 w = Some (Status_Ok, p2, w') \<and> map_of (np_bundles p1) ns = Some s1 \<and>
           sl_bundle s1 = b \<and> map_of (np_bundles p2) ns = Some (s1\<lparr>sl_bundle := b'\<rparr>)"
  using assms by (auto simp: pool_Acquire_def ReloadNamespace_def assign_bundle_def slot_lookup split: option.splits if_splits)

theorem reload_frees_borrowed_bundle_witness:
  "\<exists>p2 sl. ReloadNamespace sample_sizes (\<lambda>ns w. Some (Inr (sample_bundle ''fresh''), w)) ''a'' (ps_pool sample_state) () =
       Some (Status_Ok, p2, ()) \<and> (''a'', sample_bundle ''a'') \<in> set (ps_borrows sample_state) \<and>
       map_of (np_bundles p2) ''a'' = Some sl \<and> sl_bundle sl \<noteq> sample_bundle ''a''"
proof -
  let ?p = "NamespacePool_new\<lparr>np_bundles := [(''a'', fresh_slot (sample_bundle ''a''))], np_size_gauge := 1\<rparr>"
  have "pool_Acquire ''a'' ?p = (Inr (sample_bundle ''a''), ps_pool sample_state)"
    by (simp add: pool_Acquire_def sample_state_def fresh_slot_def NamespacePool_new_def)
  from reload_frees_borrowed_bundle[OF this, of "\<lambda>ns w. Some (Inr (sample_bundle ''fresh''), w)" "()" "sample_bundle ''fresh''" "()" sample_sizes]
  show ?thesis by (auto simp: sample_bundle_def sample_state_def)
qed

text \<open>
  Recreating a namespace while a borrower of the deleted one is left takes the slot over with a count of zero.  The release
  of the old borrower then drives the count of the new bundle to minus one, and the next deletion erases the slot although
  the new bundle is borrowed.
\<close>

theorem recreate_frees_borrowed_bundle:
  assumes "map_of (np_bundles p) ns = Some (fresh_slot b)" "length (np_bundles p) < f5_max_namespaces_per_instance cfg"
    and "f5_memory_budget_bytes cfg = 0" "load ns w = Some (Inr b', w')"
    and "p1 = snd (pool_Acquire ns p)" "p2 = snd (EvictForDelete z ns p1)" "AdmitCreate cfg z load now ns est p2 w = Some (st, p3, w'')"
    and "p4 = pool_Release z ns p3" "p5 = snd (pool_Acquire ns p4)"
  shows "fst (pool_Acquire ns p) = Inr b" "st = Status_Ok" "fst (pool_Acquire ns p4) = Inr b'"
    "map_of (np_bundles (snd (EvictForDelete z ns p5))) ns = None"
proof -
  let ?l = "np_bundles p"
  have len: "length (AList.update ns v ?l) = length ?l" for v
    by (rule length_update_same[OF assms(1)])
  have p1: "fst (pool_Acquire ns p) = Inr b" "np_bundles p1 = AList.update ns ((fresh_slot b)\<lparr>sl_refcount := 1\<rparr>) ?l"
    using assms(1,5) by (simp_all add: pool_Acquire_def fresh_slot_def)
  have p2: "np_bundles p2 = AList.update ns ((fresh_slot b)\<lparr>sl_refcount := 1, sl_pending_delete := True\<rparr>) (np_bundles p1)"
    using assms(6) p1(2) by (simp add: EvictForDelete_def slot_lookup fresh_slot_def)
  have p3: "st = Status_Ok" "np_bundles p3 = AList.update ns (fresh_slot b') (np_bundles p2)"
    using assms(2,3,4,7) p1(2) p2 len
    by (auto simp: AdmitCreate_def already_resident_def slot_lookup split: if_splits)
  have p4: "np_bundles p4 = AList.update ns ((fresh_slot b')\<lparr>sl_refcount := -1\<rparr>) (np_bundles p3)"
    using assms(8) p3(2) by (simp add: pool_Release_def release_drop_def slot_lookup fresh_slot_def)
  have p5: "fst (pool_Acquire ns p4) = Inr b'" "np_bundles p5 = AList.update ns ((fresh_slot b')\<lparr>sl_refcount := 0\<rparr>) (np_bundles p4)"
    using assms(9) p4 by (simp_all add: pool_Acquire_def slot_lookup fresh_slot_def)
  show "fst (pool_Acquire ns p) = Inr b" "st = Status_Ok" "fst (pool_Acquire ns p4) = Inr b'" by fact+
  show "map_of (np_bundles (snd (EvictForDelete z ns p5))) ns = None"
    using p5(2) by (simp add: EvictForDelete_def slot_lookup fresh_slot_def)
qed

text \<open>A reload is not subject to the limit on the number of namespaces.\<close>

theorem reload_exceeds_limit:
  assumes "map_of (np_bundles p) ns = None" "length (np_bundles p) = f5_max_namespaces_per_instance cfg"
    and "load ns w = Some (Inr b, w')"
  shows "\<exists>p'. ReloadNamespace z load ns p w = Some (Status_Ok, p', w') \<and> length (np_bundles p') > f5_max_namespaces_per_instance cfg"
proof -
  have "length (AList.update ns v l) = length l + 1" if "map_of l ns = None" for v and l :: "(string \<times> ('a, 'b) NamespaceSlot) list"
    using that by (induction l) (auto split: if_splits)
  then show ?thesis using assms by (simp add: ReloadNamespace_def assign_bundle_def)
qed

text \<open>The sum of the memory gate wraps: an estimate large enough passes it whatever the budget.\<close>

theorem budget_gate_wraps:
  assumes "0 < f5_memory_budget_bytes cfg" "\<not> already_resident ns p" "length (np_bundles p) < f5_max_namespaces_per_instance cfg"
    and "load ns w = Some (Inr b, w')" "est = - CurrentMemoryUsedLocked z p"
  shows "\<exists>p'. AdmitCreate cfg z load now ns est p w = Some (Status_Ok, p', w')"
  using assms by (simp add: AdmitCreate_def)

end
