(* ===== verification/Catalog_Router.thy ===== *)
theory Catalog_Router
  imports Catalog_Errors Sqlite Text_Order Ttl_Lru_Cache
begin

text \<open>
  Namespaces and units in the catalog (\<^verbatim>\<open>include/cortrix/catalog/catalog_types.h\<close>, \<^verbatim>\<open>src/catalog/catalog_types.cpp\<close>,
  \<^verbatim>\<open>default_ns_router.cpp\<close>, \<^verbatim>\<open>default_unit_router.cpp\<close>).  The tables are those of \<^verbatim>\<open>catalog_schema.cpp\<close> with their primary and
  foreign keys; of \<open>file_locations\<close> only the reference to units matters.  A transaction keeps the tables it started from.
  Every operation holds the mutex of the router and is one step; the caches are those of \<open>Ttl_Lru_Cache\<close>, and an operation
  that inserts into one is partial because the eviction loop is.  Reads of the two clocks and the outcome of each statement are
  the environment of a call.
\<close>

section \<open>Types\<close>

datatype UnitState = us_kActive | us_kSealing | us_kSealed | us_kArchived | us_kMigrating

fun UnitState_ToString :: "UnitState \<Rightarrow> string" where
  "UnitState_ToString us_kActive = ''active''"
| "UnitState_ToString us_kSealing = ''sealing''"
| "UnitState_ToString us_kSealed = ''sealed''"
| "UnitState_ToString us_kArchived = ''archived''"
| "UnitState_ToString us_kMigrating = ''migrating''"

definition UnitStateFromString :: "string \<Rightarrow> UnitState" where
  "UnitStateFromString s =
     (if s = ''sealing'' then us_kSealing else if s = ''sealed'' then us_kSealed else if s = ''archived'' then us_kArchived
      else if s = ''migrating'' then us_kMigrating else us_kActive)"

datatype IndexType = it_kHnsw | it_kBruteForce | it_kQuantizedHnsw

fun IndexType_ToString :: "IndexType \<Rightarrow> string" where
  "IndexType_ToString it_kHnsw = ''hnsw''"
| "IndexType_ToString it_kBruteForce = ''bruteforce''"
| "IndexType_ToString it_kQuantizedHnsw = ''quantized_hnsw''"

definition IndexTypeFromString :: "string \<Rightarrow> IndexType" where
  "IndexTypeFromString s =
     (if s = ''bruteforce'' then it_kBruteForce else if s = ''quantized_hnsw'' then it_kQuantizedHnsw else it_kHnsw)"

record UnitDescriptor =
  ud_unit_id :: string
  ud_tenant_id :: string
  ud_state :: UnitState
  ud_index_type :: IndexType
  ud_sealed_at :: "int option"
  ud_archived_at :: "int option"
  ud_vector_count :: int
  ud_size_bytes :: int
  ud_last_write_at :: int
  ud_seal_threshold_vectors :: int
  ud_seal_threshold_bytes :: int
  ud_seal_idle_days :: int
  ud_owner_node_id :: string
  ud_created_at :: int

record UnitStats =
  us_vector_count :: int
  us_size_bytes :: int
  us_last_write_at :: int

record NSMetadata =
  nm_namespace_id :: string
  nm_name :: string
  nm_tenant_id :: string
  nm_isolation_mode :: string
  nm_visibility :: string
  nm_owner_user_id :: "string option"
  nm_cloned_from_ns_id :: "string option"
  nm_clone_type :: "string option"
  nm_cloned_at :: "int option"
  nm_status :: string
  nm_created_at :: int
  nm_reranker_config :: "string option"
  nm_enricher_config :: "string option"
  nm_parser_config :: "string option"
  nm_memory_config :: "string option"
  nm_watcher_config :: "string option"
  nm_cleaning_config :: "string option"
  nm_rag_fusion_config :: "string option"
  nm_crag_config :: "string option"
  nm_complexity_config :: "string option"
  nm_sparse_config :: "string option"
  nm_doc_summary_config :: "string option"

record ListNamespacesOptions =
  lo_tenant_id :: "string option"
  lo_include_deleted :: bool
  lo_limit :: int
  lo_offset :: int

section \<open>Tables\<close>

record unit_row =
  un_unit_id :: string
  un_tenant_id :: string
  un_state :: string
  un_index_type :: string
  un_sealed_at :: "int option"
  un_archived_at :: "int option"
  un_vector_count :: int
  un_size_bytes :: int
  un_last_write_at :: int
  un_seal_threshold_vectors :: int
  un_seal_threshold_bytes :: int
  un_seal_idle_days :: int
  un_owner_node_id :: string
  un_created_at :: int

record ns_unit =
  nu_ns_id :: string
  nu_unit_id :: string
  nu_is_primary :: int
  nu_created_at :: int

record catalog_tables =
  ct_namespaces :: "NSMetadata list"
  ct_units :: "unit_row list"
  ct_ns_units :: "ns_unit list"
  ct_tenants :: "string list"
  ct_file_units :: "string list"

record catalog_conn =
  cc_tables :: catalog_tables
  cc_txn :: "catalog_tables option"
  cc_foreign_keys :: bool

datatype cat_sql =
    QBegin | QInsertNs | QInsertUnit | QInsertNsUnit | QCommit | QRemoveUnits | QRemoveNsUnits | QRemoveNs
  | QSoftDelete | QGetNs | QGetUnit | QActiveUnit | QListNs | QUnitStats

record cat_env =
  ce_sql :: "cat_sql \<Rightarrow> sql_outcome"
  ce_errmsg :: "cat_sql \<Rightarrow> string"
  ce_rows_before_error :: nat
  ce_steady_ms :: int
  ce_wall_ms :: int

definition cat_good :: "cat_env \<Rightarrow> bool" where
  "cat_good e \<longleftrightarrow> ce_sql e = sql_good"

text \<open>Transactions.\<close>

definition sql_begin :: "cat_env \<Rightarrow> catalog_conn \<Rightarrow> catalog_conn option" where
  "sql_begin e c = (if ce_sql e QBegin = SqlOk \<and> cc_txn c = None then Some (c\<lparr>cc_txn := Some (cc_tables c)\<rparr>) else None)"

definition sql_rollback :: "catalog_conn \<Rightarrow> catalog_conn" where
  "sql_rollback c = (case cc_txn c of None \<Rightarrow> c | Some t \<Rightarrow> c\<lparr>cc_tables := t, cc_txn := None\<rparr>)"

definition sql_commit :: "cat_env \<Rightarrow> catalog_conn \<Rightarrow> catalog_conn option" where
  "sql_commit e c = (if ce_sql e QCommit = SqlOk then Some (c\<lparr>cc_txn := None\<rparr>) else None)"

text \<open>How stepping an \<open>INSERT\<close> or \<open>DELETE\<close> comes out; a violated constraint leaves the tables as they are.\<close>

datatype step_rc = RcDone | RcPrimaryKey | RcForeignKey | RcError

section \<open>Reading\<close>

definition unit_of_row :: "unit_row \<Rightarrow> UnitDescriptor" where
  "unit_of_row u = \<lparr>ud_unit_id = un_unit_id u, ud_tenant_id = un_tenant_id u, ud_state = UnitStateFromString (un_state u),
     ud_index_type = IndexTypeFromString (un_index_type u), ud_sealed_at = un_sealed_at u, ud_archived_at = un_archived_at u,
     ud_vector_count = un_vector_count u, ud_size_bytes = un_size_bytes u, ud_last_write_at = un_last_write_at u,
     ud_seal_threshold_vectors = un_seal_threshold_vectors u, ud_seal_threshold_bytes = un_seal_threshold_bytes u,
     ud_seal_idle_days = un_seal_idle_days u, ud_owner_node_id = un_owner_node_id u, ud_created_at = un_created_at u\<rparr>"

definition ReadNamespaceLocked :: "cat_env \<Rightarrow> catalog_conn \<Rightarrow> string \<Rightarrow> Status + NSMetadata" where
  "ReadNamespaceLocked e c ns =
     (if ce_sql e QGetNs = PrepareFails
      then Inl (CatalogStatus cat_kInternalError (''prepare GetNamespace: '' @ ce_errmsg e QGetNs))
      else case select_row (ce_sql e) QGetNs (\<lambda>r. nm_namespace_id r = ns) (ct_namespaces (cc_tables c)) of
        None \<Rightarrow> Inl (CatalogStatus cat_kNsNotFound (''namespace '' @ [CHR 39] @ ns @ [CHR 39]))
      | Some m \<Rightarrow> Inr m)"

definition ReadUnitLocked :: "cat_env \<Rightarrow> catalog_conn \<Rightarrow> string \<Rightarrow> Status + UnitDescriptor" where
  "ReadUnitLocked e c unit =
     (if ce_sql e QGetUnit = PrepareFails
      then Inl (CatalogStatus cat_kInternalError (''prepare GetUnit: '' @ ce_errmsg e QGetUnit))
      else case select_row (ce_sql e) QGetUnit (\<lambda>r. un_unit_id r = unit) (ct_units (cc_tables c)) of
        None \<Rightarrow> Inl (CatalogStatus cat_kUnitNotFound (''unit '' @ [CHR 39] @ unit @ [CHR 39]))
      | Some u \<Rightarrow> Inr (unit_of_row u))"

text \<open>\<open>ORDER BY is_primary DESC, created_at ASC LIMIT 1\<close>.\<close>

fun first_unit :: "ns_unit list \<Rightarrow> ns_unit option" where
  "first_unit [] = None"
| "first_unit (x # xs) = (case first_unit xs of
     None \<Rightarrow> Some x
   | Some y \<Rightarrow> if nu_is_primary y > nu_is_primary x \<or> nu_is_primary y = nu_is_primary x \<and> nu_created_at y < nu_created_at x
               then Some y else Some x)"

definition ActiveUnitIdLocked :: "cat_env \<Rightarrow> catalog_conn \<Rightarrow> string \<Rightarrow> Status + string" where
  "ActiveUnitIdLocked e c ns =
     (if ce_sql e QActiveUnit = PrepareFails
      then Inl (CatalogStatus cat_kInternalError (''prepare LookupUnits: '' @ ce_errmsg e QActiveUnit))
      else case (if ce_sql e QActiveUnit = SqlOk then first_unit (filter (\<lambda>r. nu_ns_id r = ns) (ct_ns_units (cc_tables c))) else None) of
        None \<Rightarrow> Inl (CatalogStatus cat_kNsNotFound (''namespace '' @ [CHR 39] @ ns @ [CHR 39]))
      | Some r \<Rightarrow> Inr (nu_unit_id r))"

section \<open>The router\<close>

record Router =
  ro_conn :: catalog_conn
  ro_ns_cache :: "(string, NSMetadata) cache"
  ro_unit_cache :: "(string, UnitDescriptor) cache"

definition kNsCacheCapacity :: nat where "kNsCacheCapacity = 10000"
definition kUnitCacheCapacity :: nat where "kUnitCacheCapacity = 1000"
definition kCacheTtlMs :: int where "kCacheTtlMs = 60000"

definition Router_new :: "catalog_conn \<Rightarrow> Router" where
  "Router_new c = \<lparr>ro_conn = c, ro_ns_cache = TtlLruCache_new kNsCacheCapacity kCacheTtlMs,
     ro_unit_cache = TtlLruCache_new kUnitCacheCapacity kCacheTtlMs\<rparr>"

definition GetNamespace :: "cat_env \<Rightarrow> string \<Rightarrow> Router \<Rightarrow> ((Status + NSMetadata) \<times> Router) option" where
  "GetNamespace e ns r = (case lru_Get ns (ce_steady_ms e) (ro_ns_cache r) of
     (Some hit, nc) \<Rightarrow> Some (Inr hit, r\<lparr>ro_ns_cache := nc\<rparr>)
   | (None, nc) \<Rightarrow>
       (case ReadNamespaceLocked e (ro_conn r) ns of
          Inl st \<Rightarrow> Some (Inl st, r\<lparr>ro_ns_cache := nc\<rparr>)
        | Inr m \<Rightarrow> do { nc' \<leftarrow> lru_Put ns m (ce_steady_ms e) nc; Some (Inr m, r\<lparr>ro_ns_cache := nc'\<rparr>) }))"

definition GetActiveUnit :: "cat_env \<Rightarrow> string \<Rightarrow> Router \<Rightarrow> ((Status + UnitDescriptor) \<times> Router) option" where
  "GetActiveUnit e ns r = (case ActiveUnitIdLocked e (ro_conn r) ns of
     Inl st \<Rightarrow> Some (Inl st, r)
   | Inr unit \<Rightarrow>
       (case lru_Get unit (ce_steady_ms e) (ro_unit_cache r) of
          (Some hit, uc) \<Rightarrow> Some (Inr hit, r\<lparr>ro_unit_cache := uc\<rparr>)
        | (None, uc) \<Rightarrow>
            (case ReadUnitLocked e (ro_conn r) unit of
               Inl st \<Rightarrow> Some (Inl st, r\<lparr>ro_unit_cache := uc\<rparr>)
             | Inr u \<Rightarrow> do { uc' \<leftarrow> lru_Put unit u (ce_steady_ms e) uc; Some (Inr u, r\<lparr>ro_unit_cache := uc'\<rparr>) })))"

definition LookupUnits :: "cat_env \<Rightarrow> string \<Rightarrow> Router \<Rightarrow> ((Status + UnitDescriptor list) \<times> Router) option" where
  "LookupUnits e ns r = do {
     (u, r') \<leftarrow> GetActiveUnit e ns r;
     Some (case u of Inl st \<Rightarrow> Inl st | Inr d \<Rightarrow> Inr [d], r') }"

text \<open>The fields of the batch answer that the listing sets; the others have their defaults.\<close>

record ns_batch =
  nb_results :: "string list"
  nb_succeeded_ids :: "string list"
  nb_coverage_ratio :: rat
  nb_timestamp_ms :: int
  nb_node_id :: "string option"

text \<open>
  The text of the statement grows with the options; an \<open>OFFSET\<close> without a \<open>LIMIT\<close> is not SQL, so preparing it fails.  The loop
  ends at the first step that does not deliver a row, whatever the reason.
\<close>

definition listed :: "ListNamespacesOptions \<Rightarrow> catalog_tables \<Rightarrow> string list" where
  "listed op t =
     (let ids = sort (map nm_namespace_id (filter (\<lambda>m.
            (case lo_tenant_id op of None \<Rightarrow> True | Some tn \<Rightarrow> nm_tenant_id m = tn) \<and>
            (lo_include_deleted op \<or> nm_status m \<noteq> ''deleted'')) (ct_namespaces t)));
          ids = (if lo_offset op > 0 then drop (nat (lo_offset op)) ids else ids)
      in if lo_limit op > 0 then take (nat (lo_limit op)) ids else ids)"

definition ListNamespaces :: "cat_env \<Rightarrow> ListNamespacesOptions \<Rightarrow> Router \<Rightarrow> Status + ns_batch" where
  "ListNamespaces e op r =
     (if ce_sql e QListNs = PrepareFails \<or> lo_offset op > 0 \<and> \<not> lo_limit op > 0
      then Inl (CatalogStatus cat_kInternalError (''prepare ListNamespaces: '' @ ce_errmsg e QListNs))
      else let ids = (if ce_sql e QListNs = StepFails
                      then take (ce_rows_before_error e) (listed op (cc_tables (ro_conn r)))
                      else listed op (cc_tables (ro_conn r)))
        in Inr \<lparr>nb_results = ids, nb_succeeded_ids = ids, nb_coverage_ratio = 1, nb_timestamp_ms = ce_wall_ms e,
               nb_node_id = Some ''local''\<rparr>)"

section \<open>Creating and deleting\<close>

definition new_ns_row :: "int \<Rightarrow> NSMetadata \<Rightarrow> NSMetadata" where
  "new_ns_row now m = \<lparr>nm_namespace_id = nm_namespace_id m, nm_name = nm_name m, nm_tenant_id = nm_tenant_id m,
     nm_isolation_mode = (if nm_isolation_mode m = [] then ''shared'' else nm_isolation_mode m),
     nm_visibility = (if nm_visibility m = [] then ''tenant'' else nm_visibility m),
     nm_owner_user_id = nm_owner_user_id m, nm_cloned_from_ns_id = None, nm_clone_type = None, nm_cloned_at = None,
     nm_status = (if nm_status m = [] then ''active'' else nm_status m), nm_created_at = now,
     nm_reranker_config = Some ''{}'', nm_enricher_config = Some ''{}'', nm_parser_config = Some ''{}'',
     nm_memory_config = Some ''{}'', nm_watcher_config = Some ''{}'', nm_cleaning_config = Some ''{}'',
     nm_rag_fusion_config = Some ''{}'', nm_crag_config = Some ''{}'', nm_complexity_config = Some ''{}'',
     nm_sparse_config = Some ''{}'', nm_doc_summary_config = Some ''{}''\<rparr>"

definition new_unit_row :: "int \<Rightarrow> string \<Rightarrow> string \<Rightarrow> unit_row" where
  "new_unit_row now unit tenant = \<lparr>un_unit_id = unit, un_tenant_id = tenant, un_state = ''active'', un_index_type = ''hnsw'',
     un_sealed_at = None, un_archived_at = None, un_vector_count = 0, un_size_bytes = 0, un_last_write_at = now,
     un_seal_threshold_vectors = 9223372036854775807, un_seal_threshold_bytes = 9223372036854775807,
     un_seal_idle_days = 2147483647, un_owner_node_id = ''local'', un_created_at = now\<rparr>"

text \<open>The identifier of the only unit of a namespace.\<close>

definition unit_id_of :: "string \<Rightarrow> string" where
  "unit_id_of ns = ''unit-'' @ ns"

lemma unit_id_of_eq [simp]: "unit_id_of a = unit_id_of b \<longleftrightarrow> a = b"
  by (simp add: unit_id_of_def)

definition insert_ns :: "cat_env \<Rightarrow> NSMetadata \<Rightarrow> catalog_conn \<Rightarrow> step_rc \<times> catalog_conn" where
  "insert_ns e m c = (let t = cc_tables c in
     if ce_sql e QInsertNs = StepFails then (RcError, c)
     else if nm_namespace_id m \<in> nm_namespace_id ` set (ct_namespaces t) then (RcPrimaryKey, c)
     else if cc_foreign_keys c \<and> nm_tenant_id m \<notin> set (ct_tenants t) then (RcForeignKey, c)
     else (RcDone, c\<lparr>cc_tables := t\<lparr>ct_namespaces := ct_namespaces t @ [new_ns_row (ce_wall_ms e) m]\<rparr>\<rparr>))"

definition insert_unit :: "cat_env \<Rightarrow> string \<Rightarrow> string \<Rightarrow> catalog_conn \<Rightarrow> step_rc \<times> catalog_conn" where
  "insert_unit e unit tenant c = (let t = cc_tables c in
     if ce_sql e QInsertUnit = StepFails then (RcError, c)
     else if unit \<in> un_unit_id ` set (ct_units t) then (RcPrimaryKey, c)
     else if cc_foreign_keys c \<and> tenant \<notin> set (ct_tenants t) then (RcForeignKey, c)
     else (RcDone, c\<lparr>cc_tables := t\<lparr>ct_units := ct_units t @ [new_unit_row (ce_wall_ms e) unit tenant]\<rparr>\<rparr>))"

definition insert_ns_unit :: "cat_env \<Rightarrow> string \<Rightarrow> string \<Rightarrow> catalog_conn \<Rightarrow> step_rc \<times> catalog_conn" where
  "insert_ns_unit e ns unit c = (let t = cc_tables c in
     if ce_sql e QInsertNsUnit = StepFails then (RcError, c)
     else if (\<exists>r \<in> set (ct_ns_units t). nu_ns_id r = ns \<and> nu_unit_id r = unit) then (RcPrimaryKey, c)
     else if cc_foreign_keys c \<and>
             (ns \<notin> nm_namespace_id ` set (ct_namespaces t) \<or> unit \<notin> un_unit_id ` set (ct_units t)) then (RcForeignKey, c)
     else (RcDone, c\<lparr>cc_tables := t\<lparr>ct_ns_units := ct_ns_units t @
             [\<lparr>nu_ns_id = ns, nu_unit_id = unit, nu_is_primary = 1, nu_created_at = ce_wall_ms e\<rparr>]\<rparr>\<rparr>))"

definition InsertNamespaceCatalog :: "cat_env \<Rightarrow> NSMetadata \<Rightarrow> catalog_conn \<Rightarrow> Status \<times> catalog_conn" where
  "InsertNamespaceCatalog e m c = (case sql_begin e c of
     None \<Rightarrow> (CatalogStatus cat_kTransactionRetry (ce_errmsg e QBegin), c)
   | Some c0 \<Rightarrow>
       if ce_sql e QInsertNs = PrepareFails
       then (CatalogStatus cat_kInternalError (''prepare insert ns: '' @ ce_errmsg e QInsertNs), sql_rollback c0)
       else (case insert_ns e m c0 of
         (RcPrimaryKey, c1) \<Rightarrow>
           (CatalogStatus cat_kNsAlreadyExists (''namespace '' @ [CHR 39] @ nm_namespace_id m @ [CHR 39]), sql_rollback c1)
       | (RcForeignKey, c1) \<Rightarrow>
           (CatalogStatus cat_kTenantNotFound (''tenant '' @ [CHR 39] @ nm_tenant_id m @ [CHR 39] @
              '' does not exist; check the tenant_id of the API key (single-tenant CE uses default_tenant)''), sql_rollback c1)
       | (RcError, c1) \<Rightarrow> (CatalogStatus cat_kInternalError ''insert ns failed'', sql_rollback c1)
       | (RcDone, c1) \<Rightarrow>
           let unit = unit_id_of (nm_namespace_id m) in
           if ce_sql e QInsertUnit = PrepareFails
           then (CatalogStatus cat_kInternalError (''prepare insert unit: '' @ ce_errmsg e QInsertUnit), sql_rollback c1)
           else (case insert_unit e unit (nm_tenant_id m) c1 of (rc2, c2) \<Rightarrow>
             if rc2 \<noteq> RcDone then (CatalogStatus cat_kInternalError ''insert unit failed'', sql_rollback c2)
             else if ce_sql e QInsertNsUnit = PrepareFails
             then (CatalogStatus cat_kInternalError (''prepare insert ns_units: '' @ ce_errmsg e QInsertNsUnit), sql_rollback c2)
             else (case insert_ns_unit e (nm_namespace_id m) unit c2 of (rc3, c3) \<Rightarrow>
               if rc3 \<noteq> RcDone then (CatalogStatus cat_kInternalError ''insert ns_units failed'', sql_rollback c3)
               else (case sql_commit e c3 of
                 None \<Rightarrow> (CatalogStatus cat_kTransactionRetry (ce_errmsg e QCommit), sql_rollback c3)
               | Some c4 \<Rightarrow> (Status_Ok, c4))))))"

text \<open>The three deletions of the compensation; a unit that is still referenced cannot be deleted.\<close>

definition delete_units_of :: "cat_env \<Rightarrow> string \<Rightarrow> catalog_conn \<Rightarrow> step_rc \<times> catalog_conn" where
  "delete_units_of e ns c = (let t = cc_tables c;
       gone = nu_unit_id ` set (filter (\<lambda>r. nu_ns_id r = ns) (ct_ns_units t)) in
     if ce_sql e QRemoveUnits \<noteq> SqlOk then (RcError, c)
     else if cc_foreign_keys c \<and> (\<exists>u \<in> set (ct_units t). un_unit_id u \<in> gone \<and>
                (un_unit_id u \<in> nu_unit_id ` set (ct_ns_units t) \<or> un_unit_id u \<in> set (ct_file_units t))) then (RcForeignKey, c)
     else (RcDone, c\<lparr>cc_tables := t\<lparr>ct_units := filter (\<lambda>u. un_unit_id u \<notin> gone) (ct_units t)\<rparr>\<rparr>))"

definition delete_ns_units_of :: "cat_env \<Rightarrow> string \<Rightarrow> catalog_conn \<Rightarrow> step_rc \<times> catalog_conn" where
  "delete_ns_units_of e ns c = (let t = cc_tables c in
     if ce_sql e QRemoveNsUnits \<noteq> SqlOk then (RcError, c)
     else (RcDone, c\<lparr>cc_tables := t\<lparr>ct_ns_units := filter (\<lambda>r. nu_ns_id r \<noteq> ns) (ct_ns_units t)\<rparr>\<rparr>))"

definition delete_ns :: "cat_env \<Rightarrow> string \<Rightarrow> catalog_conn \<Rightarrow> step_rc \<times> catalog_conn" where
  "delete_ns e ns c = (let t = cc_tables c in
     if ce_sql e QRemoveNs \<noteq> SqlOk then (RcError, c)
     else if cc_foreign_keys c \<and> ns \<in> nm_namespace_id ` set (ct_namespaces t) \<and> ns \<in> nu_ns_id ` set (ct_ns_units t)
     then (RcForeignKey, c)
     else (RcDone, c\<lparr>cc_tables := t\<lparr>ct_namespaces := filter (\<lambda>m. nm_namespace_id m \<noteq> ns) (ct_namespaces t)\<rparr>\<rparr>))"

definition RemoveNamespaceCatalogRows :: "cat_env \<Rightarrow> string \<Rightarrow> Router \<Rightarrow> Router" where
  "RemoveNamespaceCatalogRows e ns r = (case sql_begin e (ro_conn r) of
     None \<Rightarrow> r
   | Some c0 \<Rightarrow>
       let (rc1, c1) = delete_units_of e ns c0;
           (rc2, c2) = (if rc1 = RcDone then delete_ns_units_of e ns c1 else (rc1, c1));
           (rc3, c3) = (if rc2 = RcDone then delete_ns e ns c2 else (rc2, c2));
           c4 = (if rc3 = RcDone then (case sql_commit e c3 of None \<Rightarrow> c3 | Some c \<Rightarrow> c) else sql_rollback c3)
       in r\<lparr>ro_conn := c4, ro_ns_cache := Invalidate ns (ro_ns_cache r)\<rparr>)"

text \<open>
  \<open>admit\<close> is the admission hook (\<open>None\<close> when no pool is bound).  It may call back into the router, which it finds unlocked.
\<close>

definition CreateNamespace ::
  "cat_env \<Rightarrow> cat_env \<Rightarrow> (string \<Rightarrow> u64 \<Rightarrow> 'p \<Rightarrow> Router \<Rightarrow> (Status \<times> 'p \<times> Router) option) option \<Rightarrow> NSMetadata \<Rightarrow>
   'p \<Rightarrow> Router \<Rightarrow> (Status \<times> 'p \<times> Router) option" where
  "CreateNamespace e er admit m p r =
     (if nm_namespace_id m = [] then Some (CatalogStatus cat_kInvalidConfigJson ''ns_id is empty'', p, r)
      else case InsertNamespaceCatalog e m (ro_conn r) of (st, c) \<Rightarrow>
        let r1 = r\<lparr>ro_conn := c\<rparr> in
        if \<not> ok st then Some (st, p, r1)
        else case admit of
          None \<Rightarrow> Some (Status_Ok, p, r1)
        | Some f \<Rightarrow> do {
            (ast, p', r2) \<leftarrow> f (nm_namespace_id m) 0 p r1;
            Some (if \<not> ok ast then (ast, p', RemoveNamespaceCatalogRows er (nm_namespace_id m) r2) else (Status_Ok, p', r2)) })"

definition live_row :: "string \<Rightarrow> NSMetadata \<Rightarrow> bool" where
  "live_row ns m \<longleftrightarrow> nm_namespace_id m = ns \<and> nm_status m \<noteq> ''deleted''"

definition DeleteNamespace ::
  "cat_env \<Rightarrow> (string \<Rightarrow> 'p \<Rightarrow> Status \<times> 'p) option \<Rightarrow> string \<Rightarrow> 'p \<Rightarrow> Router \<Rightarrow> Status \<times> 'p \<times> Router" where
  "DeleteNamespace e evict ns p r = (let c = ro_conn r; t = cc_tables c in
     case ce_sql e QSoftDelete of
       PrepareFails \<Rightarrow> (CatalogStatus cat_kInternalError (''prepare DeleteNamespace: '' @ ce_errmsg e QSoftDelete), p, r)
     | StepFails \<Rightarrow> (CatalogStatus cat_kInternalError ''soft-delete ns failed'', p, r)
     | SqlOk \<Rightarrow>
         if changes (live_row ns) (ct_namespaces t) = 0
         then (CatalogStatus cat_kNsNotFound (''namespace '' @ [CHR 39] @ ns @ [CHR 39]), p, r)
         else (Status_Ok, (case evict of None \<Rightarrow> p | Some f \<Rightarrow> snd (f ns p)),
               r\<lparr>ro_conn := c\<lparr>cc_tables := t\<lparr>ct_namespaces :=
                   update_rows (live_row ns) (\<lambda>m. m\<lparr>nm_status := ''deleted''\<rparr>) (ct_namespaces t)\<rparr>\<rparr>,
                 ro_ns_cache := Invalidate ns (ro_ns_cache r)\<rparr>))"

section \<open>The unit router\<close>

text \<open>\<open>UpdateUnitState\<close>, \<open>UpdateUnitStats\<close> and the reads of \<^verbatim>\<open>default_unit_router.cpp\<close>, on the same tables.\<close>

definition GetUnit :: "cat_env \<Rightarrow> catalog_conn \<Rightarrow> string \<Rightarrow> Status + UnitDescriptor" where
  "GetUnit e c unit = ReadUnitLocked e c unit"

definition GetUnitState :: "cat_env \<Rightarrow> catalog_conn \<Rightarrow> string \<Rightarrow> Status + UnitState" where
  "GetUnitState e c unit = (case ReadUnitLocked e c unit of Inl st \<Rightarrow> Inl st | Inr u \<Rightarrow> Inr (ud_state u))"

definition UpdateUnitState :: "cat_env \<Rightarrow> catalog_conn \<Rightarrow> string \<Rightarrow> UnitState \<Rightarrow> Status" where
  "UpdateUnitState e c unit new = (case ReadUnitLocked e c unit of
     Inl st \<Rightarrow> st
   | Inr u \<Rightarrow>
       if \<not> (ud_state u = us_kActive \<and> new = us_kActive)
       then CatalogStatus cat_kNotImplemented (''Unit state machine is Phase 2 (requested '' @ UnitState_ToString new @ '')'')
       else Status_Ok)"

definition UpdateUnitStats :: "cat_env \<Rightarrow> string \<Rightarrow> UnitStats \<Rightarrow> catalog_conn \<Rightarrow> Status \<times> catalog_conn" where
  "UpdateUnitStats e unit s c = (let t = cc_tables c in
     case ce_sql e QUnitStats of
       PrepareFails \<Rightarrow> (CatalogStatus cat_kInternalError (''prepare UpdateUnitStats: '' @ ce_errmsg e QUnitStats), c)
     | StepFails \<Rightarrow> (CatalogStatus cat_kInternalError ''UpdateUnitStats failed'', c)
     | SqlOk \<Rightarrow>
         if changes (\<lambda>u. un_unit_id u = unit) (ct_units t) = 0
         then (CatalogStatus cat_kUnitNotFound (''unit '' @ [CHR 39] @ unit @ [CHR 39]), c)
         else (Status_Ok, c\<lparr>cc_tables := t\<lparr>ct_units := update_rows (\<lambda>u. un_unit_id u = unit)
                 (\<lambda>u. u\<lparr>un_vector_count := us_vector_count s, un_size_bytes := us_size_bytes s,
                        un_last_write_at := us_last_write_at s\<rparr>) (ct_units t)\<rparr>\<rparr>))"

definition ShouldSeal :: "cat_env \<Rightarrow> catalog_conn \<Rightarrow> string \<Rightarrow> Status + bool" where
  "ShouldSeal e c unit = (case ReadUnitLocked e c unit of
     Inl st \<Rightarrow> Inl st
   | Inr u \<Rightarrow> Inr (ud_vector_count u \<ge> ud_seal_threshold_vectors u \<or> ud_size_bytes u \<ge> ud_seal_threshold_bytes u))"

section \<open>Creation is all or nothing\<close>

definition with_namespace :: "int \<Rightarrow> NSMetadata \<Rightarrow> catalog_tables \<Rightarrow> catalog_tables" where
  "with_namespace now m t = t\<lparr>
     ct_namespaces := ct_namespaces t @ [new_ns_row now m],
     ct_units := ct_units t @ [new_unit_row now (unit_id_of (nm_namespace_id m)) (nm_tenant_id m)],
     ct_ns_units := ct_ns_units t @ [\<lparr>nu_ns_id = nm_namespace_id m, nu_unit_id = unit_id_of (nm_namespace_id m), nu_is_primary = 1,
       nu_created_at = now\<rparr>]\<rparr>"

lemma rollback_begun [simp]: "cc_txn c = Some t \<Longrightarrow> sql_rollback c = c\<lparr>cc_tables := t, cc_txn := None\<rparr>"
  by (simp add: sql_rollback_def)

lemma sql_begin_Some: "sql_begin e c = Some c0 \<longleftrightarrow> ce_sql e QBegin = SqlOk \<and> cc_txn c = None \<and> c0 = c\<lparr>cc_txn := Some (cc_tables c)\<rparr>"
  by (auto simp: sql_begin_def)

lemma undo_id: "cc_txn c = None \<Longrightarrow> c\<lparr>cc_tables := cc_tables c, cc_txn := None\<rparr> = c"
  by (cases c) simp

lemma insert_ns_cases:
  assumes "insert_ns e m c = (rc, c')"
  shows "rc \<noteq> RcDone \<Longrightarrow> c' = c"
    and "rc = RcDone \<Longrightarrow> nm_namespace_id m \<notin> nm_namespace_id ` set (ct_namespaces (cc_tables c)) \<and>
      c' = c\<lparr>cc_tables := (cc_tables c)\<lparr>ct_namespaces := ct_namespaces (cc_tables c) @ [new_ns_row (ce_wall_ms e) m]\<rparr>\<rparr>"
  using assms by (auto simp: insert_ns_def Let_def split: if_splits)

lemma insert_unit_cases:
  assumes "insert_unit e u tn c = (rc, c')"
  shows "rc \<noteq> RcDone \<Longrightarrow> c' = c"
    and "rc = RcDone \<Longrightarrow>
      c' = c\<lparr>cc_tables := (cc_tables c)\<lparr>ct_units := ct_units (cc_tables c) @ [new_unit_row (ce_wall_ms e) u tn]\<rparr>\<rparr>"
  using assms by (auto simp: insert_unit_def Let_def split: if_splits)

lemma insert_ns_unit_cases:
  assumes "insert_ns_unit e ns u c = (rc, c')"
  shows "rc \<noteq> RcDone \<Longrightarrow> c' = c"
    and "rc = RcDone \<Longrightarrow> c' = c\<lparr>cc_tables := (cc_tables c)\<lparr>ct_ns_units := ct_ns_units (cc_tables c) @
      [\<lparr>nu_ns_id = ns, nu_unit_id = u, nu_is_primary = 1, nu_created_at = ce_wall_ms e\<rparr>]\<rparr>\<rparr>"
  using assms by (auto simp: insert_ns_unit_def Let_def split: if_splits)

lemma insert_conn:
  "insert_ns e m c = (rc, c') \<Longrightarrow> cc_txn c' = cc_txn c \<and> cc_foreign_keys c' = cc_foreign_keys c"
  "insert_unit e u tn c = (rc, c') \<Longrightarrow> cc_txn c' = cc_txn c \<and> cc_foreign_keys c' = cc_foreign_keys c"
  "insert_ns_unit e ns u c = (rc, c') \<Longrightarrow> cc_txn c' = cc_txn c \<and> cc_foreign_keys c' = cc_foreign_keys c"
  by (auto simp: insert_ns_def insert_unit_def insert_ns_unit_def Let_def split: if_splits)

lemma insert_catalog_cases:
  assumes "InsertNamespaceCatalog e m c = (st, c')"
  obtains (failed) "\<not> ok st" "c' = c"
  | (inserted) "st = Status_Ok" "cc_txn c = None" "nm_namespace_id m \<notin> nm_namespace_id ` set (ct_namespaces (cc_tables c))"
      "c' = c\<lparr>cc_tables := with_namespace (ce_wall_ms e) m (cc_tables c)\<rparr>"
proof (cases "sql_begin e c")
  case None
  with assms show thesis by (intro failed) (auto simp: InsertNamespaceCatalog_def)
next
  case (Some c0)
  then have c0: "cc_txn c = None" "c0 = c\<lparr>cc_txn := Some (cc_tables c)\<rparr>" by (simp_all add: sql_begin_Some)
  have undo: "sql_rollback c0 = c" using undo_id[OF c0(1)] c0 by simp
  obtain rc1 c1 where 1: "insert_ns e m c0 = (rc1, c1)" by fastforce
  obtain rc2 c2 where 2: "insert_unit e (unit_id_of (nm_namespace_id m)) (nm_tenant_id m) c1 = (rc2, c2)" by fastforce
  obtain rc3 c3 where 3: "insert_ns_unit e (nm_namespace_id m) (unit_id_of (nm_namespace_id m)) c2 = (rc3, c3)" by fastforce
  show thesis
  proof (cases "ok st")
    case True
    then have rcs: "rc1 = RcDone" "rc2 = RcDone" "rc3 = RcDone" "sql_commit e c3 = Some c'" "st = Status_Ok"
      using assms Some 1 2 3
      by (auto simp: InsertNamespaceCatalog_def Let_def split: if_splits step_rc.splits option.splits)
    note c1 = insert_ns_cases(2)[OF 1 rcs(1)]
    note c2 = insert_unit_cases(2)[OF 2 rcs(2)]
    note c3 = insert_ns_unit_cases(2)[OF 3 rcs(3)]
    have "c' = c\<lparr>cc_tables := with_namespace (ce_wall_ms e) m (cc_tables c)\<rparr>"
      using rcs(4) c1 c2 c3 c0 by (cases c) (auto simp: sql_commit_def with_namespace_def split: if_splits)
    with rcs(5) c0(1) c1 show thesis using inserted by (simp add: c0(2))
  next
    case False
    have t: "cc_txn c1 = Some (cc_tables c)" "cc_txn c2 = Some (cc_tables c)" "cc_txn c3 = Some (cc_tables c)"
      "cc_foreign_keys c1 = cc_foreign_keys c" "cc_foreign_keys c2 = cc_foreign_keys c" "cc_foreign_keys c3 = cc_foreign_keys c"
      using c0 insert_conn(1)[OF 1] insert_conn(2)[OF 2] insert_conn(3)[OF 3] by simp_all
    have r: "sql_rollback d = c" if "cc_txn d = Some (cc_tables c)" "cc_foreign_keys d = cc_foreign_keys c" for d
      using that c0(1) by (cases c; cases d) simp
    have "sql_rollback c1 = c" "sql_rollback c2 = c" "sql_rollback c3 = c" using r t by blast+
    then have "c' = c" using assms Some 1 2 3 undo False
      by (auto simp: InsertNamespaceCatalog_def Let_def split: if_splits step_rc.splits option.splits)
    with False show thesis by (rule failed)
  qed
qed

section \<open>The tables stay together\<close>

text \<open>
  Every namespace has exactly one unit, named after it, and one mapping row: the three tables are parallel, in the order of
  creation.  Foreign keys that the connection enforces hold.
\<close>

definition catalog_wf :: "catalog_tables \<Rightarrow> bool" where
  "catalog_wf t \<longleftrightarrow> distinct (map nm_namespace_id (ct_namespaces t)) \<and>
     map nu_ns_id (ct_ns_units t) = map nm_namespace_id (ct_namespaces t) \<and>
     map nu_unit_id (ct_ns_units t) = map unit_id_of (map nm_namespace_id (ct_namespaces t)) \<and>
     map un_unit_id (ct_units t) = map unit_id_of (map nm_namespace_id (ct_namespaces t))"

lemma catalog_wf_rows:
  assumes "catalog_wf t"
  shows "distinct (map nm_namespace_id (ct_namespaces t))"
    and "r \<in> set (ct_ns_units t) \<Longrightarrow> nu_unit_id r = unit_id_of (nu_ns_id r) \<and> nu_ns_id r \<in> nm_namespace_id ` set (ct_namespaces t)"
    and "nu_ns_id ` set (ct_ns_units t) = nm_namespace_id ` set (ct_namespaces t)"
    and "un_unit_id ` set (ct_units t) = unit_id_of ` nm_namespace_id ` set (ct_namespaces t)"
proof -
  show "distinct (map nm_namespace_id (ct_namespaces t))" using assms unfolding catalog_wf_def by blast
  show ids: "nu_ns_id ` set (ct_ns_units t) = nm_namespace_id ` set (ct_namespaces t)"
    using assms by (metis catalog_wf_def list.set_map)
  show "un_unit_id ` set (ct_units t) = unit_id_of ` nm_namespace_id ` set (ct_namespaces t)"
    using assms by (metis catalog_wf_def list.set_map)
  assume r: "r \<in> set (ct_ns_units t)"
  have "map nu_unit_id (ct_ns_units t) = map unit_id_of (map nu_ns_id (ct_ns_units t))"
    using assms unfolding catalog_wf_def by metis
  then show "nu_unit_id r = unit_id_of (nu_ns_id r) \<and> nu_ns_id r \<in> nm_namespace_id ` set (ct_namespaces t)"
    using r ids by auto
qed

lemma catalog_wf_with_namespace:
  "catalog_wf t \<Longrightarrow> nm_namespace_id m \<notin> nm_namespace_id ` set (ct_namespaces t) \<Longrightarrow> catalog_wf (with_namespace now m t)"
  by (simp add: catalog_wf_def with_namespace_def new_ns_row_def new_unit_row_def)

lemma catalog_wf_soft_delete:
  "catalog_wf t \<Longrightarrow> catalog_wf (t\<lparr>ct_namespaces := update_rows (live_row ns) (\<lambda>m. m\<lparr>nm_status := ''deleted''\<rparr>) (ct_namespaces t)\<rparr>)"
  by (simp add: catalog_wf_def map_update_rows)

lemma catalog_wf_stats:
  "catalog_wf t \<Longrightarrow> catalog_wf (t\<lparr>ct_units := update_rows P (\<lambda>u. u\<lparr>un_vector_count := a, un_size_bytes := b, un_last_write_at := d\<rparr>) (ct_units t)\<rparr>)"
  by (simp add: catalog_wf_def map_update_rows)

text \<open>The mapping of a namespace leads to its unit.\<close>

lemma first_unit_in: "first_unit xs = Some y \<Longrightarrow> y \<in> set xs"
  by (induction xs arbitrary: y) (auto split: option.splits if_splits)

lemma first_unit_None: "first_unit xs = None \<longleftrightarrow> xs = []"
  by (cases xs) (auto split: option.splits)

lemma active_unit_id:
  assumes "catalog_wf (cc_tables c)" "ce_sql e QActiveUnit = SqlOk"
  shows "ActiveUnitIdLocked e c ns =
    (if ns \<in> nm_namespace_id ` set (ct_namespaces (cc_tables c)) then Inr (unit_id_of ns)
     else Inl (CatalogStatus cat_kNsNotFound (''namespace '' @ [CHR 39] @ ns @ [CHR 39])))"
proof -
  let ?rows = "filter (\<lambda>r. nu_ns_id r = ns) (ct_ns_units (cc_tables c))"
  have "ns \<in> nm_namespace_id ` set (ct_namespaces (cc_tables c)) \<longleftrightarrow> ?rows \<noteq> []"
    unfolding catalog_wf_rows(3)[OF assms(1), symmetric] by (auto simp: filter_empty_conv)
  moreover have "nu_unit_id y = unit_id_of ns" if "first_unit ?rows = Some y" for y
    using first_unit_in[OF that] catalog_wf_rows(2)[OF assms(1), of y] by auto
  ultimately show ?thesis
    using assms(2) first_unit_None[of ?rows] by (auto simp: ActiveUnitIdLocked_def split: option.splits)
qed

section \<open>Compensation\<close>

text \<open>With foreign keys enforced the first deletion of the compensation is refused, so it removes nothing.\<close>

lemma delete_units_refused:
  assumes "cc_foreign_keys c" "catalog_wf (cc_tables c)" "ns \<in> nm_namespace_id ` set (ct_namespaces (cc_tables c))"
  shows "\<exists>rc. rc \<noteq> RcDone \<and> delete_units_of e ns c = (rc, c)"
proof -
  obtain r where r: "r \<in> set (ct_ns_units (cc_tables c))" "nu_ns_id r = ns"
    using assms(3) catalog_wf_rows(3)[OF assms(2)] by (metis imageE)
  have "nu_unit_id r \<in> un_unit_id ` set (ct_units (cc_tables c))"
    using r catalog_wf_rows(2)[OF assms(2) r(1)] catalog_wf_rows(4)[OF assms(2)] by auto
  then obtain u where "u \<in> set (ct_units (cc_tables c))" "un_unit_id u = nu_unit_id r" by auto
  then show ?thesis using assms(1) r by (auto simp: delete_units_of_def Let_def)
qed

lemma remove_rows_refused:
  assumes "cc_foreign_keys (ro_conn r)" "catalog_wf (cc_tables (ro_conn r))"
    and "ns \<in> nm_namespace_id ` set (ct_namespaces (cc_tables (ro_conn r)))"
  shows "ro_conn (RemoveNamespaceCatalogRows e ns r) = ro_conn r"
proof (cases "sql_begin e (ro_conn r)")
  case (Some c0)
  then have c0: "cc_txn (ro_conn r) = None" "c0 = (ro_conn r)\<lparr>cc_txn := Some (cc_tables (ro_conn r))\<rparr>" by (auto simp: sql_begin_Some)
  obtain rc where "rc \<noteq> RcDone" "delete_units_of e ns c0 = (rc, c0)"
    using delete_units_refused[of c0 ns e] assms c0(2) by auto
  then show ?thesis using Some c0 undo_id[OF c0(1)] by (simp add: RemoveNamespaceCatalogRows_def)
qed (simp add: RemoveNamespaceCatalogRows_def)

text \<open>Without enforcement it undoes the insertion exactly.\<close>

lemma remove_rows_exact:
  assumes "\<not> cc_foreign_keys (ro_conn r)" "cc_txn (ro_conn r) = None" "catalog_wf t" "cat_good e"
    and "nm_namespace_id m \<notin> nm_namespace_id ` set (ct_namespaces t)" "cc_tables (ro_conn r) = with_namespace now m t"
  shows "ro_conn (RemoveNamespaceCatalogRows e (nm_namespace_id m) r) = (ro_conn r)\<lparr>cc_tables := t\<rparr>"
proof -
  let ?ns = "nm_namespace_id m"
  have u': "unit_id_of ?ns \<notin> un_unit_id ` set (ct_units t)" unfolding catalog_wf_rows(4)[OF assms(3)] using assms(5) by auto
  have n': "?ns \<notin> nu_ns_id ` set (ct_ns_units t)" unfolding catalog_wf_rows(3)[OF assms(3)] by (rule assms(5))
  have u: "filter (\<lambda>u. un_unit_id u \<noteq> unit_id_of ?ns) (ct_units t) = ct_units t" by (rule filter_True) (use u' in \<open>auto intro: rev_image_eqI\<close>)
  have n: "filter (\<lambda>r. nu_ns_id r \<noteq> ?ns) (ct_ns_units t) = ct_ns_units t" by (rule filter_True) (use n' in \<open>auto intro: rev_image_eqI\<close>)
  have m: "filter (\<lambda>x. nm_namespace_id x \<noteq> ?ns) (ct_namespaces t) = ct_namespaces t" by (rule filter_True) (use assms(5) in \<open>auto intro: rev_image_eqI\<close>)
  have "filter (\<lambda>r. nu_ns_id r = ?ns) (ct_ns_units t) = []" using n' by (auto simp: filter_empty_conv intro: rev_image_eqI)
  then have unit_gone: "nu_unit_id ` set (filter (\<lambda>r. nu_ns_id r = ?ns) (ct_ns_units (with_namespace now m t))) = {unit_id_of ?ns}"
    by (simp add: with_namespace_def)
  have "delete_units_of e ?ns ((ro_conn r)\<lparr>cc_txn := Some (cc_tables (ro_conn r))\<rparr>) =
      (RcDone, (ro_conn r)\<lparr>cc_txn := Some (cc_tables (ro_conn r)), cc_tables := (with_namespace now m t)\<lparr>ct_units := ct_units t\<rparr>\<rparr>)"
    using assms(1,4,6) unit_gone u by (simp add: delete_units_of_def Let_def cat_good_def sql_good_def) (simp add: with_namespace_def new_unit_row_def)
  then show ?thesis
    using assms(1,2,4) n m
    by (cases "ro_conn r") (simp add: RemoveNamespaceCatalogRows_def sql_begin_def cat_good_def sql_good_def delete_ns_units_of_def
        delete_ns_def sql_commit_def with_namespace_def new_ns_row_def Let_def)
qed

definition empty_catalog :: "bool \<Rightarrow> string list \<Rightarrow> catalog_conn" where
  "empty_catalog fk tenants = \<lparr>cc_tables = \<lparr>ct_namespaces = [], ct_units = [], ct_ns_units = [], ct_tenants = tenants, ct_file_units = []\<rparr>,
     cc_txn = None, cc_foreign_keys = fk\<rparr>"

definition good_env :: "int \<Rightarrow> cat_env" where
  "good_env now = \<lparr>ce_sql = sql_good, ce_errmsg = (\<lambda>_. []), ce_rows_before_error = 0, ce_steady_ms = now, ce_wall_ms = now\<rparr>"

lemma cat_good_good_env [simp]: "cat_good (good_env now)"
  by (simp add: cat_good_def good_env_def)

definition sample_metadata :: NSMetadata where
  "sample_metadata = \<lparr>nm_namespace_id = ''a'', nm_name = ''A'', nm_tenant_id = ''t'', nm_isolation_mode = [], nm_visibility = [],
     nm_owner_user_id = None, nm_cloned_from_ns_id = None, nm_clone_type = None, nm_cloned_at = None, nm_status = [],
     nm_created_at = 0, nm_reranker_config = None, nm_enricher_config = None,
     nm_parser_config = None, nm_memory_config = None, nm_watcher_config = None,
     nm_cleaning_config = None, nm_rag_fusion_config = None, nm_crag_config = None,
     nm_complexity_config = None, nm_sparse_config = None, nm_doc_summary_config = None\<rparr>"

lemma sample_insert: "\<exists>c. InsertNamespaceCatalog (good_env 5) sample_metadata (empty_catalog True [''t'']) = (Status_Ok, c)"
  by (simp add: InsertNamespaceCatalog_def sql_begin_def insert_ns_def insert_unit_def insert_ns_unit_def sql_commit_def good_env_def
      sql_good_def empty_catalog_def sample_metadata_def new_ns_row_def new_unit_row_def Let_def)

text \<open>
  When admission refuses a new namespace the compensation does not remove its catalog rows: with foreign keys enforced,
  as the catalog connection is configured, the deletion of the unit is refused while the mapping row refers to it.  The
  refused namespace stays listed as created, and every retry is answered that it already exists.
\<close>
theorem rejected_create_keeps_rows:
  assumes "cc_foreign_keys (ro_conn r)" "catalog_wf (cc_tables (ro_conn r))" "nm_namespace_id m \<noteq> []"
    and "InsertNamespaceCatalog e m (ro_conn r) = (Status_Ok, c1)"
    and "f (nm_namespace_id m) 0 p (r\<lparr>ro_conn := c1\<rparr>) = Some (ast, p', r2)" "\<not> ok ast" "ro_conn r2 = c1"
  shows "\<exists>r3. CreateNamespace e er (Some f) m p r = Some (ast, p', r3) \<and>
           new_ns_row (ce_wall_ms e) m \<in> set (ct_namespaces (cc_tables (ro_conn r3))) \<and>
           (\<forall>e' er' g q. cat_good e' \<longrightarrow> (\<exists>st. CreateNamespace e' er' g m q r3 = Some (st, q, r3) \<and> code st = kAlreadyExists))"
proof -
  let ?ns = "nm_namespace_id m"
  have c1: "cc_txn (ro_conn r) = None" "?ns \<notin> nm_namespace_id ` set (ct_namespaces (cc_tables (ro_conn r)))"
    "c1 = (ro_conn r)\<lparr>cc_tables := with_namespace (ce_wall_ms e) m (cc_tables (ro_conn r))\<rparr>"
    using assms(4) by (auto elim: insert_catalog_cases)
  let ?r3 = "RemoveNamespaceCatalogRows er ?ns r2"
  have row: "new_ns_row (ce_wall_ms e) m \<in> set (ct_namespaces (cc_tables c1))" "nm_namespace_id (new_ns_row (ce_wall_ms e) m) = ?ns"
    by (simp_all add: c1(3) with_namespace_def new_ns_row_def)
  then have mem: "?ns \<in> nm_namespace_id ` set (ct_namespaces (cc_tables c1))" by (metis imageI)
  have wf: "catalog_wf (cc_tables c1)" using catalog_wf_with_namespace[OF assms(2) c1(2)] by (simp add: c1(3))
  have conn: "ro_conn ?r3 = c1"
    using remove_rows_refused[of r2 ?ns er] assms(1,7) wf mem c1(3) by simp
  have "CreateNamespace e er (Some f) m p r = Some (ast, p', ?r3)"
    using assms(3-6) by (simp add: CreateNamespace_def)
  moreover have "\<exists>st. CreateNamespace e' er' g m q ?r3 = Some (st, q, ?r3) \<and> code st = kAlreadyExists" if "cat_good e'" for e' er' g q
  proof -
    have "c1\<lparr>cc_tables := cc_tables c1, cc_txn := None\<rparr> = c1" by (rule undo_id) (simp add: c1)
    then have "InsertNamespaceCatalog e' m c1 =
        (CatalogStatus cat_kNsAlreadyExists (''namespace '' @ [CHR 39] @ ?ns @ [CHR 39]), c1)"
      using that mem c1(1) by (simp add: InsertNamespaceCatalog_def sql_begin_def insert_ns_def cat_good_def sql_good_def c1(3) Let_def)
    then show ?thesis using conn assms(3) by (simp add: CreateNamespace_def Let_def)
  qed
  ultimately show ?thesis using row(1) conn by blast
qed

theorem rejected_create_keeps_rows_witness:
  "\<exists>r3. CreateNamespace (good_env 5) (good_env 6) (Some (\<lambda>ns est p r. Some (PoolStatus pool_kNsQuotaExceeded [], p, r))) sample_metadata ()
       (Router_new (empty_catalog True [''t''])) = Some (PoolStatus pool_kNsQuotaExceeded [], (), r3) \<and>
     new_ns_row 5 sample_metadata \<in> set (ct_namespaces (cc_tables (ro_conn r3)))"
proof -
  let ?r = "Router_new (empty_catalog True [''t''])"
  obtain c where c: "InsertNamespaceCatalog (good_env 5) sample_metadata (ro_conn ?r) = (Status_Ok, c)"
    using sample_insert by (auto simp: Router_new_def)
  have "cc_foreign_keys (ro_conn ?r)" "catalog_wf (cc_tables (ro_conn ?r))" "nm_namespace_id sample_metadata \<noteq> []"
    by (simp_all add: Router_new_def empty_catalog_def catalog_wf_def sample_metadata_def)
  from rejected_create_keeps_rows[OF this c, of "\<lambda>ns est p r. Some (PoolStatus pool_kNsQuotaExceeded [], p, r)" "()"
      "PoolStatus pool_kNsQuotaExceeded []" "()" "?r\<lparr>ro_conn := c\<rparr>" "good_env 6"]
  show ?thesis by (auto simp: good_env_def)
qed

text \<open>Where foreign keys are not enforced the same compensation leaves the catalog as it was before.\<close>

theorem compensation_exact_without_keys:
  assumes "\<not> cc_foreign_keys (ro_conn r)" "catalog_wf (cc_tables (ro_conn r))" "nm_namespace_id m \<noteq> []" "cat_good er"
    and "InsertNamespaceCatalog e m (ro_conn r) = (Status_Ok, c1)"
    and "f (nm_namespace_id m) 0 p (r\<lparr>ro_conn := c1\<rparr>) = Some (ast, p', r2)" "\<not> ok ast" "ro_conn r2 = c1"
  shows "\<exists>r3. CreateNamespace e er (Some f) m p r = Some (ast, p', r3) \<and> ro_conn r3 = ro_conn r"
proof -
  have c1: "cc_txn (ro_conn r) = None" "nm_namespace_id m \<notin> nm_namespace_id ` set (ct_namespaces (cc_tables (ro_conn r)))"
    "c1 = (ro_conn r)\<lparr>cc_tables := with_namespace (ce_wall_ms e) m (cc_tables (ro_conn r))\<rparr>"
    using assms(5) by (auto elim: insert_catalog_cases)
  have "ro_conn (RemoveNamespaceCatalogRows er (nm_namespace_id m) r2) = (ro_conn r2)\<lparr>cc_tables := cc_tables (ro_conn r)\<rparr>"
    by (rule remove_rows_exact[OF _ _ assms(2,4) c1(2), of _ "ce_wall_ms e"]) (use assms(1,8) c1 in simp_all)
  also have "\<dots> = ro_conn r" using assms(8) c1(3) by simp
  finally show ?thesis using assms(3,5-7) by (simp add: CreateNamespace_def)
qed

end
