(* ===== verification/Router_Steps.thy ===== *)
theory Router_Steps
  imports Catalog_Router
begin

text \<open>
  The critical sections of the namespace router in any order: the namespace and its unit stay together, the cache of
  namespaces never serves a row that is not the current one, and every call returns.
\<close>

section \<open>Steps\<close>

inductive router_step :: "Router \<Rightarrow> Router \<Rightarrow> bool" where
  insert: "InsertNamespaceCatalog e m (ro_conn r) = (st, c) \<Longrightarrow> router_step r (r\<lparr>ro_conn := c\<rparr>)"
| remove: "ce_sql e QCommit = SqlOk \<Longrightarrow> router_step r (RemoveNamespaceCatalogRows e ns r)"
| soft_delete: "DeleteNamespace e (None :: (string \<Rightarrow> unit \<Rightarrow> Status \<times> unit) option) ns () r = (st, p, r') \<Longrightarrow> router_step r r'"
| get_ns: "GetNamespace e ns r = Some (res, r') \<Longrightarrow> router_step r r'"
| get_unit: "GetActiveUnit e ns r = Some (u, r') \<Longrightarrow> router_step r r'"
| stats: "UpdateUnitStats e unit s (ro_conn r) = (st, c) \<Longrightarrow> router_step r (r\<lparr>ro_conn := c\<rparr>)"

inductive router_reach :: "Router \<Rightarrow> bool" where
  start: "catalog_wf (cc_tables c) \<Longrightarrow> cc_txn c = None \<Longrightarrow> router_reach (Router_new c)"
| step: "router_reach r \<Longrightarrow> router_step r r' \<Longrightarrow> router_reach r'"

section \<open>Invariant\<close>

definition ns_rows :: "Router \<Rightarrow> NSMetadata list" where
  "ns_rows r = ct_namespaces (cc_tables (ro_conn r))"

definition row_of_ns :: "string \<Rightarrow> Router \<Rightarrow> NSMetadata option" where
  "row_of_ns ns r = find (\<lambda>m. nm_namespace_id m = ns) (ns_rows r)"

definition cache_coherent :: "(string \<Rightarrow> NSMetadata option) \<Rightarrow> (string, NSMetadata) cache \<Rightarrow> bool" where
  "cache_coherent row nc \<longleftrightarrow>
     (\<exists>l. lru_reach kNsCacheCapacity kCacheTtlMs nc l \<and> (\<forall>k v t. l k = Some (v, t) \<longrightarrow> row k = Some v))"

text \<open>The descriptors in the other cache may be older than the rows, but each is one of its own unit.\<close>

definition units_named :: "(string, UnitDescriptor) cache \<Rightarrow> bool" where
  "units_named uc \<longleftrightarrow> (\<exists>l. lru_reach kUnitCacheCapacity kCacheTtlMs uc l \<and> (\<forall>k u t. l k = Some (u, t) \<longrightarrow> ud_unit_id u = k))"

definition router_inv :: "Router \<Rightarrow> bool" where
  "router_inv r \<longleftrightarrow> catalog_wf (cc_tables (ro_conn r)) \<and> cc_txn (ro_conn r) = None \<and>
     cache_coherent (\<lambda>ns. row_of_ns ns r) (ro_ns_cache r) \<and> units_named (ro_unit_cache r)"

lemma reach_tc_ok: "lru_reach cap ttl c l \<Longrightarrow> tc_ok c"
  using lru_reach_inv by (auto simp: tc_inv_def)

lemma reach_get_value:
  assumes "lru_reach cap ttl c l" "fst (lru_Get k now c) = Some v"
  shows "\<exists>t. l k = Some (v, t)"
proof -
  have "tc_inv cap ttl c l" by (rule lru_reach_inv[OF assms(1)])
  then have "map_of (cells_of c) k = Some (v, t) \<Longrightarrow> l k = Some (v, t)" for t
    by (auto simp: tc_inv_def dest!: map_of_SomeD)
  then show ?thesis using Get_refines(2)[OF reach_tc_ok[OF assms(1)], of k now] assms(2)
    by (auto simp: spec_get_def split: option.splits if_splits)
qed

lemma reach_put: "lru_reach cap ttl c l \<Longrightarrow> \<exists>c'. lru_Put k v now c = Some c' \<and> lru_reach cap ttl c' (l(k \<mapsto> (v, now)))"
proof -
  assume r: "lru_reach cap ttl c l"
  from Put_refines[OF reach_tc_ok[OF r], of k v now] obtain c' where c': "lru_Put k v now c = Some c'" by blast
  show ?thesis using c' lru_reach.put[OF r c'] by blast
qed

lemma coherent_get:
  assumes "cache_coherent row nc"
  shows "cache_coherent row (snd (lru_Get k now nc))"
    and "fst (lru_Get k now nc) = Some v \<Longrightarrow> row k = Some v"
  using assms lru_reach.get reach_get_value unfolding cache_coherent_def by meson+

lemma coherent_put:
  assumes "cache_coherent row nc" "row k = Some v"
  shows "\<exists>nc'. lru_Put k v now nc = Some nc' \<and> cache_coherent row nc'"
proof -
  obtain l where l: "lru_reach kNsCacheCapacity kCacheTtlMs nc l" "\<forall>k v t. l k = Some (v, t) \<longrightarrow> row k = Some v"
    using assms(1) by (auto simp: cache_coherent_def)
  from reach_put[OF l(1), of k v now] obtain nc' where nc': "lru_Put k v now nc = Some nc'"
    "lru_reach kNsCacheCapacity kCacheTtlMs nc' (l(k \<mapsto> (v, now)))" by blast
  moreover have "\<forall>j u t. (l(k \<mapsto> (v, now))) j = Some (u, t) \<longrightarrow> row j = Some u" using l(2) assms(2) by (auto split: if_splits)
  ultimately show ?thesis unfolding cache_coherent_def by blast
qed

lemma coherent_invalidate:
  assumes "cache_coherent row nc" "\<And>n. n \<noteq> k \<Longrightarrow> row' n = row n"
  shows "cache_coherent row' (Invalidate k nc)"
proof -
  obtain l where l: "lru_reach kNsCacheCapacity kCacheTtlMs nc l" "\<forall>k v t. l k = Some (v, t) \<longrightarrow> row k = Some v"
    using assms(1) by (auto simp: cache_coherent_def)
  have "\<forall>j u t. (l(k := None)) j = Some (u, t) \<longrightarrow> row' j = Some u" using l(2) assms(2) by (auto split: if_splits)
  then show ?thesis unfolding cache_coherent_def using lru_reach.invalidate[OF l(1)] by blast
qed

lemma coherent_mono:
  assumes "cache_coherent row nc" "\<And>k v. row k = Some v \<Longrightarrow> row' k = Some v"
  shows "cache_coherent row' nc"
  using assms unfolding cache_coherent_def by blast

text \<open>Reading a namespace through the cache returns, and answers as the table does.\<close>

lemma read_namespace_row:
  assumes "ReadNamespaceLocked e (ro_conn r) ns = Inr m"
  shows "row_of_ns ns r = Some m"
  using assms by (auto simp: ReadNamespaceLocked_def select_row_def row_of_ns_def ns_rows_def split: if_splits option.splits)

lemma read_namespace_good:
  "cat_good e \<Longrightarrow> ReadNamespaceLocked e (ro_conn r) ns = (case row_of_ns ns r of Some m \<Rightarrow> Inr m
      | None \<Rightarrow> Inl (CatalogStatus cat_kNsNotFound (''namespace '' @ [CHR 39] @ ns @ [CHR 39])))"
  by (simp add: ReadNamespaceLocked_def select_row_def cat_good_def sql_good_def row_of_ns_def ns_rows_def split: option.split)

lemma GetNamespace_returns:
  assumes "router_inv r"
  shows "\<exists>res r'. GetNamespace e ns r = Some (res, r') \<and> router_inv r' \<and> ro_conn r' = ro_conn r \<and>
    (case res of Inr m \<Rightarrow> row_of_ns ns r = Some m | Inl st \<Rightarrow> ReadNamespaceLocked e (ro_conn r) ns = Inl st)"
proof -
  have coh: "cache_coherent (\<lambda>ns. row_of_ns ns r) (ro_ns_cache r)" using assms by (simp add: router_inv_def)
  obtain hit nc where g: "lru_Get ns (ce_steady_ms e) (ro_ns_cache r) = (hit, nc)" by fastforce
  note cg = coherent_get[OF coh, of ns "ce_steady_ms e", unfolded g, simplified]
  have inv: "router_inv (r\<lparr>ro_ns_cache := c\<rparr>)" if "cache_coherent (\<lambda>ns. row_of_ns ns r) c" for c
    using assms that by (simp add: router_inv_def row_of_ns_def ns_rows_def)
  show ?thesis
  proof (cases hit)
    case (Some m)
    then show ?thesis using g cg inv by (simp add: GetNamespace_def)
  next
    case None
    show ?thesis
    proof (cases "ReadNamespaceLocked e (ro_conn r) ns")
      case (Inl st)
      then show ?thesis using None g cg(1) inv by (simp add: GetNamespace_def)
    next
      case (Inr m)
      from coherent_put[OF cg(1) read_namespace_row[OF Inr], of "ce_steady_ms e"] obtain nc' where
        "lru_Put ns m (ce_steady_ms e) nc = Some nc'" "cache_coherent (\<lambda>ns. row_of_ns ns r) nc'" by blast
      then show ?thesis using None Inr g inv read_namespace_row[OF Inr] by (simp add: GetNamespace_def)
    qed
  qed
qed

lemma GetActiveUnit_returns:
  assumes "router_inv r"
  shows "\<exists>res r'. GetActiveUnit e ns r = Some (res, r') \<and> router_inv r' \<and> ro_conn r' = ro_conn r \<and>
    (case res of Inl st \<Rightarrow> \<not> ok st | Inr u \<Rightarrow> row_of_ns ns r \<noteq> None \<and> ud_unit_id u = unit_id_of ns)"
proof (cases "ActiveUnitIdLocked e (ro_conn r) ns")
  case (Inl st)
  moreover have "\<not> ok st" using Inl by (auto simp: ActiveUnitIdLocked_def split: if_splits option.splits)
  ultimately show ?thesis using assms by (simp add: GetActiveUnit_def)
next
  case (Inr unit)
  have "ce_sql e QActiveUnit = SqlOk" using Inr by (auto simp: ActiveUnitIdLocked_def split: if_splits)
  moreover have "catalog_wf (cc_tables (ro_conn r))" using assms by (simp add: router_inv_def)
  ultimately have unit: "unit = unit_id_of ns" "row_of_ns ns r \<noteq> None"
    using active_unit_id[of "ro_conn r" e ns] Inr by (auto simp: row_of_ns_def ns_rows_def find_None_iff split: if_splits)
  obtain l where l: "lru_reach kUnitCacheCapacity kCacheTtlMs (ro_unit_cache r) l" "\<forall>k u t. l k = Some (u, t) \<longrightarrow> ud_unit_id u = k"
    using assms by (auto simp: router_inv_def units_named_def)
  obtain hit uc where g: "lru_Get unit (ce_steady_ms e) (ro_unit_cache r) = (hit, uc)" by fastforce
  then have uc: "lru_reach kUnitCacheCapacity kCacheTtlMs uc l" using lru_reach.get[OF l(1), of unit "ce_steady_ms e"] by simp
  have inv: "router_inv (r\<lparr>ro_unit_cache := c\<rparr>)" if "units_named c" for c
    using assms that by (auto simp: router_inv_def row_of_ns_def ns_rows_def)
  have named: "units_named uc" using uc l(2) by (auto simp: units_named_def)
  show ?thesis
  proof (cases hit)
    case (Some d)
    then have "ud_unit_id d = unit" using reach_get_value[OF l(1), of unit "ce_steady_ms e" d] g l(2) by auto
    then show ?thesis using Some Inr g inv[OF named] unit by (simp add: GetActiveUnit_def)
  next
    case None
    show ?thesis
    proof (cases "ReadUnitLocked e (ro_conn r) unit")
      case (Inl st)
      moreover have "\<not> ok st" using Inl by (auto simp: ReadUnitLocked_def split: if_splits option.splits)
      ultimately show ?thesis using Inr None g inv[OF named] by (simp add: GetActiveUnit_def)
    next
      case u: (Inr d)
      then have d: "ud_unit_id d = unit"
        by (auto simp: ReadUnitLocked_def select_row_def unit_of_row_def find_Some_iff split: if_splits option.splits)
      from reach_put[OF uc, of unit d "ce_steady_ms e"] obtain uc' where
        uc': "lru_Put unit d (ce_steady_ms e) uc = Some uc'" "lru_reach kUnitCacheCapacity kCacheTtlMs uc' (l(unit \<mapsto> (d, ce_steady_ms e)))" by blast
      have "units_named uc'"
        unfolding units_named_def using uc'(2) l(2) d by (intro exI[of _ "l(unit \<mapsto> (d, ce_steady_ms e))"]) auto
      then show ?thesis using Inr None u g inv uc'(1) d unit by (simp add: GetActiveUnit_def)
    qed
  qed
qed

text \<open>With working statements every namespace leads to its unit.\<close>

lemma GetActiveUnit_found:
  assumes "router_inv r" "cat_good e" "row_of_ns ns r \<noteq> None"
  shows "\<exists>u r'. GetActiveUnit e ns r = Some (Inr u, r') \<and> router_inv r' \<and> ro_conn r' = ro_conn r"
proof -
  have wf: "catalog_wf (cc_tables (ro_conn r))" using assms(1) by (simp add: router_inv_def)
  have mem: "ns \<in> nm_namespace_id ` set (ct_namespaces (cc_tables (ro_conn r)))"
    using assms(3) unfolding row_of_ns_def ns_rows_def find_None_iff by (auto intro: rev_image_eqI)
  then have a: "ActiveUnitIdLocked e (ro_conn r) ns = Inr (unit_id_of ns)"
    using active_unit_id[OF wf, of e ns] assms(2) by (simp add: cat_good_def sql_good_def)
  have "unit_id_of ns \<in> un_unit_id ` set (ct_units (cc_tables (ro_conn r)))"
    unfolding catalog_wf_rows(4)[OF wf] using mem by (rule imageI)
  then obtain x where "x \<in> set (ct_units (cc_tables (ro_conn r)))" "un_unit_id x = unit_id_of ns" by auto
  then have "find (\<lambda>u. un_unit_id u = unit_id_of ns) (ct_units (cc_tables (ro_conn r))) \<noteq> None" unfolding find_None_iff by blast
  then obtain d where d: "ReadUnitLocked e (ro_conn r) (unit_id_of ns) = Inr d"
    using assms(2) by (auto simp: ReadUnitLocked_def select_row_def cat_good_def sql_good_def)
  obtain res r' where g: "GetActiveUnit e ns r = Some (res, r')" "router_inv r'" "ro_conn r' = ro_conn r"
    using GetActiveUnit_returns[OF assms(1), of e ns] by blast
  have "\<exists>u. res = Inr u" using g(1) a d by (auto simp: GetActiveUnit_def bind_eq_Some_conv split: prod.splits option.splits)
  with g show ?thesis by blast
qed

section \<open>Every step keeps the invariant\<close>

lemma find_append: "find P xs = Some v \<Longrightarrow> find P (xs @ ys) = Some v"
  by (induction xs) auto

lemma find_other:
  assumes "n \<noteq> ns"
  shows "find (\<lambda>m. nm_namespace_id m = n) (filter (\<lambda>m. nm_namespace_id m \<noteq> ns) rows) = find (\<lambda>m. nm_namespace_id m = n) rows"
    and "find (\<lambda>m. nm_namespace_id m = n) (update_rows (live_row ns) (\<lambda>m. m\<lparr>nm_status := s\<rparr>) rows) =
      find (\<lambda>m. nm_namespace_id m = n) rows"
  using assms by (induction rows) (auto simp: update_rows_def live_row_def)

lemma insert_router_inv:
  assumes "router_inv r" "InsertNamespaceCatalog e m (ro_conn r) = (st, c)"
  shows "router_inv (r\<lparr>ro_conn := c\<rparr>)"
  using assms(2)
proof (cases rule: insert_catalog_cases)
  case inserted
  have "cache_coherent (\<lambda>ns. row_of_ns ns (r\<lparr>ro_conn := c\<rparr>)) (ro_ns_cache r)"
    by (rule coherent_mono[where row = "\<lambda>ns. row_of_ns ns r"])
      (use assms(1) inserted(4) in \<open>auto simp: router_inv_def row_of_ns_def ns_rows_def with_namespace_def find_append split: option.split\<close>)
  then show ?thesis
    using assms(1) inserted catalog_wf_with_namespace[of "cc_tables (ro_conn r)" m "ce_wall_ms e"] by (simp add: router_inv_def)
qed (use assms(1) in simp)

lemma filter_mapped: "map f xs = map g ys \<Longrightarrow> map f (filter (\<lambda>x. P (f x)) xs) = map g (filter (\<lambda>y. P (g y)) ys)"
  using filter_map[of P f xs] filter_map[of P g ys] by (simp add: comp_def)

definition without_namespace :: "string \<Rightarrow> catalog_tables \<Rightarrow> catalog_tables" where
  "without_namespace ns t = t\<lparr>ct_namespaces := filter (\<lambda>m. nm_namespace_id m \<noteq> ns) (ct_namespaces t),
     ct_units := filter (\<lambda>u. un_unit_id u \<noteq> unit_id_of ns) (ct_units t),
     ct_ns_units := filter (\<lambda>r. nu_ns_id r \<noteq> ns) (ct_ns_units t)\<rparr>"

lemma catalog_wf_without:
  assumes "catalog_wf t"
  shows "catalog_wf (without_namespace ns t)"
proof -
  have ids: "map nm_namespace_id (filter (\<lambda>m. nm_namespace_id m \<noteq> ns) (ct_namespaces t)) =
      filter (\<lambda>n. n \<noteq> ns) (map nm_namespace_id (ct_namespaces t))" by (simp add: filter_map comp_def)
  have u: "map un_unit_id (filter (\<lambda>u. un_unit_id u \<noteq> unit_id_of ns) (ct_units t)) =
      map unit_id_of (filter (\<lambda>n. n \<noteq> ns) (map nm_namespace_id (ct_namespaces t)))"
    using assms filter_mapped[of un_unit_id "ct_units t" unit_id_of "map nm_namespace_id (ct_namespaces t)" "\<lambda>x. x \<noteq> unit_id_of ns"]
    by (simp add: catalog_wf_def)
  have n: "map nu_ns_id (filter (\<lambda>r. nu_ns_id r \<noteq> ns) (ct_ns_units t)) =
      map nm_namespace_id (filter (\<lambda>m. nm_namespace_id m \<noteq> ns) (ct_namespaces t))"
    using assms filter_mapped[of nu_ns_id "ct_ns_units t" nm_namespace_id "ct_namespaces t" "\<lambda>x. x \<noteq> ns"] by (simp add: catalog_wf_def)
  have "nu_unit_id r = unit_id_of (nu_ns_id r)" if "r \<in> set (ct_ns_units t)" for r
    using catalog_wf_rows(2)[OF assms that] by simp
  then have "map nu_unit_id (filter (\<lambda>r. nu_ns_id r \<noteq> ns) (ct_ns_units t)) =
      map unit_id_of (map nu_ns_id (filter (\<lambda>r. nu_ns_id r \<noteq> ns) (ct_ns_units t)))" by simp
  then have v: "map nu_unit_id (filter (\<lambda>r. nu_ns_id r \<noteq> ns) (ct_ns_units t)) =
      map unit_id_of (map nm_namespace_id (filter (\<lambda>m. nm_namespace_id m \<noteq> ns) (ct_namespaces t)))" by (simp only: n)
  show ?thesis
    using catalog_wf_rows(1)[OF assms] n v u ids unfolding catalog_wf_def without_namespace_def by simp
qed

lemma gone_units:
  assumes "catalog_wf t"
  shows "filter (\<lambda>u. un_unit_id u \<notin> nu_unit_id ` set (filter (\<lambda>r. nu_ns_id r = ns) (ct_ns_units t))) (ct_units t) =
    filter (\<lambda>u. un_unit_id u \<noteq> unit_id_of ns) (ct_units t)"
proof (rule filter_cong[OF refl])
  fix u assume u: "u \<in> set (ct_units t)"
  then obtain n where n: "n \<in> nu_ns_id ` set (ct_ns_units t)" "un_unit_id u = unit_id_of n"
    using catalog_wf_rows(3,4)[OF assms] by (metis (no_types, lifting) imageE imageI)
  have "nu_unit_id r = unit_id_of (nu_ns_id r)" if "r \<in> set (ct_ns_units t)" for r
    using catalog_wf_rows(2)[OF assms that] by simp
  then show "un_unit_id u \<notin> nu_unit_id ` set (filter (\<lambda>r. nu_ns_id r = ns) (ct_ns_units t)) \<longleftrightarrow> un_unit_id u \<noteq> unit_id_of ns"
    using n by force
qed

lemma remove_cases:
  assumes "catalog_wf (cc_tables (ro_conn r))" "cc_txn (ro_conn r) = None" "ce_sql e QCommit = SqlOk"
  obtains (same) "ro_conn (RemoveNamespaceCatalogRows e ns r) = ro_conn r"
  | (removed) "ro_conn (RemoveNamespaceCatalogRows e ns r) =
      (ro_conn r)\<lparr>cc_tables := without_namespace ns (cc_tables (ro_conn r))\<rparr>"
proof (cases "sql_begin e (ro_conn r)")
  case None
  then show thesis by (intro same) (simp add: RemoveNamespaceCatalogRows_def)
next
  case (Some c0)
  then have c0: "c0 = (ro_conn r)\<lparr>cc_txn := Some (cc_tables (ro_conn r))\<rparr>" by (auto simp: sql_begin_Some)
  obtain rc1 c1 where 1: "delete_units_of e ns c0 = (rc1, c1)" by fastforce
  obtain rc2 c2 where 2: "(if rc1 = RcDone then delete_ns_units_of e ns c1 else (rc1, c1)) = (rc2, c2)" by fastforce
  obtain rc3 c3 where 3: "(if rc2 = RcDone then delete_ns e ns c2 else (rc2, c2)) = (rc3, c3)" by fastforce
  have conn: "ro_conn (RemoveNamespaceCatalogRows e ns r) = (if rc3 = RcDone then c3\<lparr>cc_txn := None\<rparr> else sql_rollback c3)"
    using Some 1 2 3 assms(3) by (simp add: RemoveNamespaceCatalogRows_def sql_commit_def)
  have keep: "cc_txn c3 = Some (cc_tables (ro_conn r))" "cc_foreign_keys c3 = cc_foreign_keys (ro_conn r)"
    using 1 2 3 c0 by (auto simp: delete_units_of_def delete_ns_units_of_def delete_ns_def Let_def split: if_splits)
  show thesis
  proof (cases "rc3 = RcDone")
    case True
    then have "cc_tables c3 = without_namespace ns (cc_tables (ro_conn r))"
      using 1 2 3 c0 gone_units[OF assms(1), of ns]
      by (auto simp: delete_units_of_def delete_ns_units_of_def delete_ns_def Let_def without_namespace_def split: if_splits)
    then have "ro_conn (RemoveNamespaceCatalogRows e ns r) = (ro_conn r)\<lparr>cc_tables := without_namespace ns (cc_tables (ro_conn r))\<rparr>"
      unfolding conn using True keep assms(2) by (cases "ro_conn r"; cases c3) simp
    then show thesis by (rule removed)
  next
    case False
    then have "ro_conn (RemoveNamespaceCatalogRows e ns r) = ro_conn r"
      unfolding conn using keep assms(2) by (cases "ro_conn r"; cases c3) simp
    then show thesis by (rule same)
  qed
qed

lemma remove_router_inv:
  assumes "router_inv r" "ce_sql e QCommit = SqlOk"
  shows "router_inv (RemoveNamespaceCatalogRows e ns r)"
proof -
  let ?r = "RemoveNamespaceCatalogRows e ns r"
  have inv: "catalog_wf (cc_tables (ro_conn r))" "cc_txn (ro_conn r) = None" "cache_coherent (\<lambda>ns. row_of_ns ns r) (ro_ns_cache r)"
    "units_named (ro_unit_cache r)"
    using assms(1) by (auto simp: router_inv_def)
  have unit: "ro_unit_cache ?r = ro_unit_cache r" by (auto simp: RemoveNamespaceCatalogRows_def Let_def case_prod_beta split: option.split)
  have cache: "?r = r \<or> ro_ns_cache ?r = Invalidate ns (ro_ns_cache r)"
    by (auto simp: RemoveNamespaceCatalogRows_def Let_def case_prod_beta split: option.split)
  have other: "row_of_ns n ?r = row_of_ns n r" if "n \<noteq> ns" for n
    by (rule remove_cases[OF inv(1,2) assms(2), of ns])
      (use that find_other(1)[OF that] in \<open>simp_all add: row_of_ns_def ns_rows_def without_namespace_def\<close>)
  have coh: "cache_coherent (\<lambda>ns. row_of_ns ns ?r) (ro_ns_cache ?r)"
    using cache inv(3) coherent_invalidate[OF inv(3) other] by metis
  show ?thesis
    by (rule remove_cases[OF inv(1,2) assms(2), of ns])
      (use inv unit coh catalog_wf_without[OF inv(1)] in \<open>simp_all add: router_inv_def\<close>)
qed

lemma delete_router_inv:
  assumes "router_inv r" "DeleteNamespace e ev ns p r = (st, p', r')"
  shows "router_inv r'"
proof (cases "ok st")
  case False
  then have "r' = r" using assms(2) by (auto simp: DeleteNamespace_def Let_def split: sql_outcome.splits if_splits)
  with assms(1) show ?thesis by simp
next
  case True
  let ?c = "(ro_conn r)\<lparr>cc_tables := (cc_tables (ro_conn r))\<lparr>ct_namespaces :=
    update_rows (live_row ns) (\<lambda>m. m\<lparr>nm_status := ''deleted''\<rparr>) (ct_namespaces (cc_tables (ro_conn r)))\<rparr>\<rparr>"
  have r': "r' = r\<lparr>ro_conn := ?c, ro_ns_cache := Invalidate ns (ro_ns_cache r)\<rparr>"
    using True assms(2) by (auto simp: DeleteNamespace_def Let_def split: sql_outcome.splits if_splits)
  have "cache_coherent (\<lambda>n. row_of_ns n r') (Invalidate ns (ro_ns_cache r))"
    by (rule coherent_invalidate[where row = "\<lambda>n. row_of_ns n r"])
      (use assms(1) find_other(2) in \<open>auto simp: router_inv_def r' row_of_ns_def ns_rows_def\<close>)
  then show ?thesis
    using assms(1) catalog_wf_soft_delete[of "cc_tables (ro_conn r)" ns] by (simp add: router_inv_def r')
qed

lemma stats_router_inv:
  assumes "router_inv r" "UpdateUnitStats e unit s (ro_conn r) = (st, c)"
  shows "router_inv (r\<lparr>ro_conn := c\<rparr>)"
  using assms catalog_wf_stats[of "cc_tables (ro_conn r)"]
  by (auto simp: UpdateUnitStats_def Let_def router_inv_def row_of_ns_def ns_rows_def split: sql_outcome.splits if_splits)

lemma router_step_inv: "router_step r r' \<Longrightarrow> router_inv r \<Longrightarrow> router_inv r'"
proof (induction rule: router_step.induct)
  case insert then show ?case using insert_router_inv by blast
next
  case remove then show ?case using remove_router_inv by blast
next
  case (soft_delete e ns r st p r') then show ?case using delete_router_inv[of r e None ns "()" st p r'] by simp
next
  case (get_ns e ns r res r') then show ?case using GetNamespace_returns[of r e ns] by auto
next
  case (get_unit e ns r u r') then show ?case using GetActiveUnit_returns[of r e ns] by auto
next
  case stats then show ?case using stats_router_inv by blast
qed

lemma router_reach_inv: "router_reach r \<Longrightarrow> router_inv r"
proof (induction rule: router_reach.induct)
  case (start c)
  have "cache_coherent (\<lambda>ns. row_of_ns ns (Router_new c)) (TtlLruCache_new kNsCacheCapacity kCacheTtlMs)"
    unfolding cache_coherent_def using lru_reach.fresh by (metis option.distinct(1))
  moreover have "units_named (TtlLruCache_new kUnitCacheCapacity kCacheTtlMs)"
    unfolding units_named_def using lru_reach.fresh by (metis option.distinct(1))
  ultimately show ?case using start by (simp add: router_inv_def Router_new_def)
next
  case step
  then show ?case using router_step_inv by blast
qed

section \<open>Properties\<close>

text \<open>
  C19: In every reachable state of the router a lookup of a namespace returns, and what it returns is the current row of
  the namespace, or not found when there is none: the cache in front of the table never serves a row that was changed or removed.
\<close>
theorem namespace_reads_exact:
  assumes "router_reach r" "cat_good e"
  shows "\<exists>r'. GetNamespace e ns r = Some (case row_of_ns ns r of
      Some m \<Rightarrow> Inr m | None \<Rightarrow> Inl (CatalogStatus cat_kNsNotFound (''namespace '' @ [CHR 39] @ ns @ [CHR 39])), r') \<and>
    ro_conn r' = ro_conn r"
proof -
  obtain res r' where g: "GetNamespace e ns r = Some (res, r')" "ro_conn r' = ro_conn r"
    "case res of Inr m \<Rightarrow> row_of_ns ns r = Some m | Inl st \<Rightarrow> ReadNamespaceLocked e (ro_conn r) ns = Inl st"
    using GetNamespace_returns[OF router_reach_inv[OF assms(1)], of e ns] by blast
  have "res = (case row_of_ns ns r of Some m \<Rightarrow> Inr m
      | None \<Rightarrow> Inl (CatalogStatus cat_kNsNotFound (''namespace '' @ [CHR 39] @ ns @ [CHR 39])))"
    using g(3) read_namespace_good[OF assms(2), of r ns] by (cases res) (auto split: option.splits)
  with g(1,2) show ?thesis by blast
qed

theorem namespace_reads_exact_witness:
  "\<exists>r'. GetNamespace (good_env 5) ''a'' (Router_new (empty_catalog True [''t''])) =
     Some (Inl (CatalogStatus cat_kNsNotFound (''namespace '' @ [CHR 39] @ ''a'' @ [CHR 39])), r')"
proof -
  have "router_reach (Router_new (empty_catalog True [''t'']))"
    by (rule router_reach.start) (simp_all add: empty_catalog_def catalog_wf_def)
  from namespace_reads_exact[OF this cat_good_good_env, of 5 "''a''"]
  show ?thesis by (auto simp: row_of_ns_def ns_rows_def Router_new_def empty_catalog_def)
qed

text \<open>Every namespace of a reachable router has one unit, which its lookup finds, and every lookup of a unit returns.\<close>

theorem active_unit_of_namespace:
  assumes "router_reach r" "ce_sql e QActiveUnit = SqlOk"
  shows "ActiveUnitIdLocked e (ro_conn r) ns = (if row_of_ns ns r \<noteq> None then Inr (unit_id_of ns)
      else Inl (CatalogStatus cat_kNsNotFound (''namespace '' @ [CHR 39] @ ns @ [CHR 39])))"
    and "\<exists>res r'. GetActiveUnit e' ns r = Some (res, r')"
proof -
  have wf: "catalog_wf (cc_tables (ro_conn r))" using router_reach_inv[OF assms(1)] by (simp add: router_inv_def)
  have "row_of_ns ns r \<noteq> None \<longleftrightarrow> ns \<in> nm_namespace_id ` set (ct_namespaces (cc_tables (ro_conn r)))"
    by (auto simp: row_of_ns_def ns_rows_def find_None_iff)
  then show "ActiveUnitIdLocked e (ro_conn r) ns = (if row_of_ns ns r \<noteq> None then Inr (unit_id_of ns)
      else Inl (CatalogStatus cat_kNsNotFound (''namespace '' @ [CHR 39] @ ns @ [CHR 39])))"
    using active_unit_id[OF wf assms(2), of ns] by simp
  show "\<exists>res r'. GetActiveUnit e' ns r = Some (res, r')" using GetActiveUnit_returns[OF router_reach_inv[OF assms(1)]] by blast
qed

section \<open>Where the answers are not what they seem\<close>

text \<open>A deleted namespace is still found, with its status; only listings leave it out.\<close>

lemma find_soft_deleted:
  "find (\<lambda>m. nm_namespace_id m = ns) (update_rows (live_row ns) (\<lambda>m. m\<lparr>nm_status := ''deleted''\<rparr>) rows) =
   map_option (\<lambda>m. m\<lparr>nm_status := ''deleted''\<rparr>) (find (\<lambda>m. nm_namespace_id m = ns) rows)"
proof (induction rows)
  case (Cons m rows)
  have "m\<lparr>nm_status := ''deleted''\<rparr> = m" if "nm_status m = ''deleted''" using that by (cases m) simp
  with Cons show ?case by (auto simp: update_rows_def live_row_def)
qed (simp add: update_rows_def)

theorem deleted_namespace_still_found:
  assumes "router_reach r" "DeleteNamespace e ev ns p r = (Status_Ok, p', r')" "cat_good e'"
  shows "\<exists>m r''. GetNamespace e' ns r' = Some (Inr m, r'') \<and> nm_status m = ''deleted''"
    and "ns \<notin> set (listed \<lparr>lo_tenant_id = None, lo_include_deleted = False, lo_limit = 0, lo_offset = 0\<rparr> (cc_tables (ro_conn r')))"
proof -
  have inv: "router_inv r'" by (rule delete_router_inv[OF router_reach_inv[OF assms(1)] assms(2)])
  have rows: "ns_rows r' = update_rows (live_row ns) (\<lambda>m. m\<lparr>nm_status := ''deleted''\<rparr>) (ns_rows r)"
    "\<exists>m \<in> set (ns_rows r). live_row ns m"
    using assms(2) changes_0_iff[of "live_row ns" "ns_rows r"]
    by (auto simp: DeleteNamespace_def Let_def ns_rows_def split: sql_outcome.splits if_splits)
  then obtain m where "find (\<lambda>m. nm_namespace_id m = ns) (ns_rows r) = Some m"
    by (metis (mono_tags, lifting) find_None_iff live_row_def not_None_eq)
  then have row: "row_of_ns ns r' = Some (m\<lparr>nm_status := ''deleted''\<rparr>)" by (simp add: row_of_ns_def rows(1) find_soft_deleted)
  obtain res r'' where g: "GetNamespace e' ns r' = Some (res, r'')"
    "case res of Inr m \<Rightarrow> row_of_ns ns r' = Some m | Inl st \<Rightarrow> ReadNamespaceLocked e' (ro_conn r') ns = Inl st"
    using GetNamespace_returns[OF inv, of e' ns] by blast
  have "res = Inr (m\<lparr>nm_status := ''deleted''\<rparr>)"
    using g(2) row read_namespace_good[OF assms(3), of r' ns] by (cases res) simp_all
  then show "\<exists>m r''. GetNamespace e' ns r' = Some (Inr m, r'') \<and> nm_status m = ''deleted''" using g(1) by auto
  show "ns \<notin> set (listed \<lparr>lo_tenant_id = None, lo_include_deleted = False, lo_limit = 0, lo_offset = 0\<rparr> (cc_tables (ro_conn r')))"
  proof -
    have "nm_status x = ''deleted''" if x: "x \<in> set (ns_rows r')" "nm_namespace_id x = ns" for x
    proof -
      obtain y where "y \<in> set (ns_rows r)" "x = (if live_row ns y then y\<lparr>nm_status := ''deleted''\<rparr> else y)"
        using x(1) unfolding rows(1) set_update_rows by blast
      then show ?thesis using x(2) by (auto simp: live_row_def split: if_splits)
    qed
    then show ?thesis by (auto simp: listed_def ns_rows_def)
  qed
qed

text \<open>An offset without a limit is never answered, since the statement is not SQL.\<close>

theorem offset_needs_limit:
  "lo_offset op > 0 \<Longrightarrow> lo_limit op \<le> 0 \<Longrightarrow> \<exists>st. ListNamespaces e op r = Inl st \<and> code st = kInternal"
  by (simp add: ListNamespaces_def)

text \<open>A listing that breaks off is answered as complete.\<close>

theorem broken_listing_reported_complete:
  assumes "ce_sql e QListNs = StepFails" "lo_offset op \<le> 0"
  shows "\<exists>b. ListNamespaces e op r = Inr b \<and> nb_coverage_ratio b = 1 \<and>
    nb_results b = take (ce_rows_before_error e) (listed op (cc_tables (ro_conn r)))"
  using assms by (simp add: ListNamespaces_def Let_def)

text \<open>
  The descriptors of units are cached without regard to the statistics: after an update the router still hands out the old
  numbers, until the entry expires.
\<close>

theorem unit_stats_stale:
  assumes "router_reach r" "cat_good e" "cat_good e'" "ActiveUnitIdLocked e (ro_conn r) ns = Inr unit"
    and "fst (lru_Get unit (ce_steady_ms e) (ro_unit_cache r)) = None"
    and "GetActiveUnit e ns r = Some (Inr u, r1)" "UpdateUnitStats e2 unit s (ro_conn r1) = (st, c)"
    and "ce_steady_ms e' - ce_steady_ms e < kCacheTtlMs"
  shows "\<exists>r2. GetActiveUnit e' ns (r1\<lparr>ro_conn := c\<rparr>) = Some (Inr u, r2)"
proof -
  obtain l where l: "lru_reach kUnitCacheCapacity kCacheTtlMs (ro_unit_cache r) l"
    using router_reach_inv[OF assms(1)] by (auto simp: router_inv_def units_named_def)
  obtain uc where g: "lru_Get unit (ce_steady_ms e) (ro_unit_cache r) = (None, uc)" using assms(5) by (metis prod.collapse)
  have uc: "lru_reach kUnitCacheCapacity kCacheTtlMs uc l" using lru_reach.get[OF l, of unit "ce_steady_ms e"] g by simp
  obtain uc' where r1: "lru_Put unit u (ce_steady_ms e) uc = Some uc'" "r1 = r\<lparr>ro_unit_cache := uc'\<rparr>"
    using assms(4,6) g by (auto simp: GetActiveUnit_def bind_eq_Some_conv split: sum.splits)
  have "fst (lru_Get unit (ce_steady_ms e') uc') = Some u"
    using lru_serves_last_put[OF uc, where k = unit and v = u and t = "ce_steady_ms e" and now = "ce_steady_ms e'"] r1(1) assms(8)
    by (auto simp: kUnitCacheCapacity_def)
  then obtain uc2 where "lru_Get unit (ce_steady_ms e') uc' = (Some u, uc2)" by (metis prod.collapse)
  moreover have "ct_ns_units (cc_tables c) = ct_ns_units (cc_tables (ro_conn r))"
    using assms(7) r1(2) by (auto simp: UpdateUnitStats_def Let_def split: sql_outcome.splits if_splits)
  then have "ActiveUnitIdLocked e' c ns = Inr unit"
    using assms(2,3,4) by (simp add: ActiveUnitIdLocked_def cat_good_def sql_good_def)
  ultimately show ?thesis using r1(2) by (simp add: GetActiveUnit_def)
qed

end
