(* ===== verification/Namespace_Service.thy ===== *)
theory Namespace_Service
  imports Namespace_Borrow Router_Steps
begin

text \<open>
  The namespace pool behind the catalog router: loading a namespace (\<open>LoadOneNamespaceInner\<close> of
  \<^verbatim>\<open>src/resource/namespace_pool.cpp\<close>), and the life of a namespace from its creation in the catalog over admission and use to
  its deletion, by any number of threads.  The stages of a load that open files are parameters over a state \<open>'u\<close> of the disk.
\<close>

section \<open>Loading a namespace\<close>

definition UnitDataDir :: "string \<Rightarrow> string \<Rightarrow> string" where
  "UnitDataDir droot unit = (if droot = [] then unit else if last droot = CHR ''/'' then droot @ unit else droot @ ''/'' @ unit)"

definition StoreDbPath :: "string \<Rightarrow> string" where
  "StoreDbPath dir = dir @ ''/store.db''"

definition UnitBlobDir :: "string \<Rightarrow> string" where
  "UnitBlobDir dir = dir @ ''/blob''"

text \<open>
  \<open>le_recover\<close> is the recovery of the coordinator with the rollback callback, \<open>le_doc_recovery\<close> the document recovery and the
  opening of the memory database, whose failures are tolerated.
\<close>

record ('i, 'c, 'u) load_env =
  le_cat :: cat_env
  le_open_index :: "string \<Rightarrow> 'u \<Rightarrow> (Status + 'i) \<times> 'u"
  le_open_store :: "string \<Rightarrow> 'u \<Rightarrow> Status \<times> 'u"
  le_migrate :: "string \<Rightarrow> 'u \<Rightarrow> Status \<times> 'u"
  le_is_vector_store :: "'i \<Rightarrow> bool"
  le_open_coord :: "string \<Rightarrow> 'i \<Rightarrow> 'u \<Rightarrow> (Status + 'c option) \<times> 'u"
  le_recover :: "string \<Rightarrow> 'c \<Rightarrow> 'i \<Rightarrow> 'u \<Rightarrow> Status \<times> 'u"
  le_doc_recovery :: "string \<Rightarrow> 'i \<Rightarrow> 'u \<Rightarrow> 'u"

definition load_failed :: "string \<Rightarrow> Status + 'b" where
  "load_failed detail = Inl (PoolStatus pool_kNsLoadFailed detail)"

definition unit_assemble ::
  "('i, 'c, 'u) load_env \<Rightarrow> string \<Rightarrow> string \<Rightarrow> UnitDescriptor \<Rightarrow> 'u \<Rightarrow> (Status + ('i, 'c) NamespaceResourceBundle) \<times> 'u" where
  "unit_assemble env droot ns d u =
     (let dir = UnitDataDir droot (ud_unit_id d) in
      case le_open_index env dir u of
        (Inl st, u) \<Rightarrow> (load_failed (''open_index: '' @ message st), u)
      | (Inr index, u) \<Rightarrow>
          (case le_open_store env (StoreDbPath dir) u of (opened, u) \<Rightarrow>
             if \<not> ok opened then (load_failed (''open_store_db: '' @ message opened), u)
             else (case le_migrate env (ud_unit_id d) u of (migrated, u) \<Rightarrow>
               if \<not> ok migrated then (load_failed (''migrate_unit: '' @ message migrated), u)
               else if \<not> le_is_vector_store env index then (load_failed ''index_not_ivector_store'', u)
               else (case le_open_coord env dir index u of
                 (Inl st, u) \<Rightarrow> (load_failed (''open_pwl: '' @ message st), u)
               | (Inr coord, u) \<Rightarrow>
                   (case (case coord of None \<Rightarrow> (Status_Ok, u) | Some c \<Rightarrow> le_recover env dir c index u) of (recovered, u) \<Rightarrow>
                      if \<not> ok recovered then (load_failed (''recover_pwl: '' @ message recovered), u)
                      else (Inr \<lparr>nb_namespace_id = ns, nb_unit_bundles =
                              [\<lparr>ub_unit_id = ud_unit_id d, ub_data_dir = dir, ub_index = Some index, ub_pwl = coord\<rparr>]\<rparr>,
                            le_doc_recovery env dir index u))))))"

definition LoadOneNamespaceInner ::
  "('i, 'c, 'u) load_env \<Rightarrow> string \<Rightarrow> string \<Rightarrow> Router \<times> 'u \<Rightarrow>
   ((Status + ('i, 'c) NamespaceResourceBundle) \<times> (Router \<times> 'u)) option" where
  "LoadOneNamespaceInner env droot ns w = do {
     (res, r) \<leftarrow> GetActiveUnit (le_cat env) ns (fst w);
     Some (case res of
       Inl st \<Rightarrow> (load_failed (''get_active_unit: '' @ message st), (r, snd w))
     | Inr d \<Rightarrow> (case unit_assemble env droot ns d (snd w) of (b, u) \<Rightarrow> (b, (r, u)))) }"

section \<open>What a load delivers\<close>

lemma UnitDataDir_inj: "UnitDataDir droot a = UnitDataDir droot b \<longleftrightarrow> a = b"
  by (simp add: UnitDataDir_def)

definition bundle_of :: "string \<Rightarrow> string \<Rightarrow> ('i, 'c) NamespaceResourceBundle \<Rightarrow> bool" where
  "bundle_of droot ns b \<longleftrightarrow> nb_namespace_id b = ns \<and>
     (\<exists>u. nb_unit_bundles b = [u] \<and> ub_unit_id u = unit_id_of ns \<and> ub_data_dir u = UnitDataDir droot (unit_id_of ns))"

lemma unit_assemble_cases:
  assumes "unit_assemble env droot ns d u = (res, u')"
  shows "case res of Inl st \<Rightarrow> \<exists>detail. st = PoolStatus pool_kNsLoadFailed detail
    | Inr b \<Rightarrow> nb_namespace_id b = ns \<and> (\<exists>x. nb_unit_bundles b = [x] \<and> ub_unit_id x = ud_unit_id d \<and>
        ub_data_dir x = UnitDataDir droot (ud_unit_id d))"
  using assms
  by (auto simp: unit_assemble_def load_failed_def Let_def split: prod.splits sum.splits if_splits option.splits)

lemma load_returns:
  assumes "router_inv (fst w)"
  shows "\<exists>res r u. LoadOneNamespaceInner env droot ns w = Some (res, (r, u)) \<and> router_inv r \<and> ro_conn r = ro_conn (fst w) \<and>
    (case res of Inl st \<Rightarrow> \<not> ok st | Inr b \<Rightarrow> row_of_ns ns (fst w) \<noteq> None \<and> bundle_of droot ns b)"
proof -
  obtain res r where g: "GetActiveUnit (le_cat env) ns (fst w) = Some (res, r)" "router_inv r" "ro_conn r = ro_conn (fst w)"
    "case res of Inl st \<Rightarrow> \<not> ok st | Inr u \<Rightarrow> row_of_ns ns (fst w) \<noteq> None \<and> ud_unit_id u = unit_id_of ns"
    using GetActiveUnit_returns[OF assms, of "le_cat env" ns] by blast
  show ?thesis
  proof (cases res)
    case (Inl st)
    then show ?thesis using g by (simp add: LoadOneNamespaceInner_def load_failed_def)
  next
    case (Inr d)
    obtain b u where bu: "unit_assemble env droot ns d (snd w) = (b, u)" by fastforce
    show ?thesis
      using g Inr bu unit_assemble_cases[OF bu] by (cases b) (auto simp: LoadOneNamespaceInner_def bundle_of_def)
  qed
qed

section \<open>Router and pool together\<close>

text \<open>
  \<open>sy_creating\<close> holds the namespaces whose rows are inserted and whose admission is outstanding, \<open>sy_rejected\<close> those that
  admission refused and whose compensation is outstanding: between its critical sections a creation lets other threads run.
\<close>

record ('i, 'c, 'u) ns_system =
  sy_router :: Router
  sy_disk :: 'u
  sy_pool :: "('i, 'c) pool_state"
  sy_creating :: "string list"
  sy_rejected :: "string list"

definition all_namespaces :: ListNamespacesOptions where
  "all_namespaces = \<lparr>lo_tenant_id = None, lo_include_deleted = False, lo_limit = 0, lo_offset = 0\<rparr>"

definition startup_list :: "cat_env \<Rightarrow> Router \<Rightarrow> Status + string list" where
  "startup_list e r = (case ListNamespaces e all_namespaces r of Inl st \<Rightarrow> Inl st | Inr b \<Rightarrow> Inr (nb_results b))"

definition set_pool :: "('i, 'c) NamespacePool \<Rightarrow> ('i, 'c, 'u) ns_system \<Rightarrow> ('i, 'c, 'u) ns_system" where
  "set_pool p s = s\<lparr>sy_pool := (sy_pool s)\<lparr>ps_pool := p\<rparr>\<rparr>"

abbreviation the_pool :: "('i, 'c, 'u) ns_system \<Rightarrow> ('i, 'c) NamespacePool" where
  "the_pool s \<equiv> ps_pool (sy_pool s)"

inductive sys_step :: "F05Config \<Rightarrow> ('i, 'c, 'u) ns_system \<Rightarrow> ('i, 'c, 'u) ns_system \<Rightarrow> bool" for cfg where
  startup: "StartupLoadAll cfg z (LoadOneNamespaceInner env (f5_data_root cfg)) timed_out duration (startup_list e (sy_router s))
        (the_pool s) (sy_router s, sy_disk s) = Some (res, p', (r', u')) \<Longrightarrow>
      ps_borrows (sy_pool s) = [] \<Longrightarrow> sy_creating s = [] \<Longrightarrow> sy_rejected s = [] \<Longrightarrow>
      sys_step cfg s (set_pool p' s\<lparr>sy_router := r', sy_disk := u'\<rparr>)"
| create_insert: "nm_namespace_id m \<noteq> [] \<Longrightarrow> InsertNamespaceCatalog e m (ro_conn (sy_router s)) = (Status_Ok, c) \<Longrightarrow>
      sys_step cfg s (s\<lparr>sy_router := (sy_router s)\<lparr>ro_conn := c\<rparr>, sy_creating := nm_namespace_id m # sy_creating s\<rparr>)"
| create_admit: "sy_creating s = xs @ ns # ys \<Longrightarrow>
      AdmitCreate cfg z (LoadOneNamespaceInner env (f5_data_root cfg)) now ns 0 (the_pool s) (sy_router s, sy_disk s) =
        Some (st, p', (r', u')) \<Longrightarrow>
      sys_step cfg s (set_pool p' s\<lparr>sy_router := r', sy_disk := u', sy_creating := xs @ ys,
        sy_rejected := (if ok st then sy_rejected s else ns # sy_rejected s)\<rparr>)"
| create_undo: "sy_rejected s = xs @ ns # ys \<Longrightarrow> ce_sql e QCommit = SqlOk \<Longrightarrow>
      sys_step cfg s (s\<lparr>sy_router := RemoveNamespaceCatalogRows e ns (sy_router s), sy_rejected := xs @ ys\<rparr>)"
| delete: "DeleteNamespace e (Some (EvictForDelete z)) ns (the_pool s) (sy_router s) = (st, p', r') \<Longrightarrow>
      sys_step cfg s (set_pool p' s\<lparr>sy_router := r'\<rparr>)"
| acquire: "pool_Acquire ns (the_pool s) = (Inr b, p') \<Longrightarrow>
      sys_step cfg s (s\<lparr>sy_pool := (sy_pool s)\<lparr>ps_pool := p', ps_borrows := (ns, b) # ps_borrows (sy_pool s)\<rparr>\<rparr>)"
| drop: "ps_borrows (sy_pool s) = xs @ (ns, b) # ys \<Longrightarrow> release_drop ns (the_pool s) = (r, p') \<Longrightarrow>
      sys_step cfg s (s\<lparr>sy_pool := (sy_pool s)\<lparr>ps_pool := p', ps_borrows := xs @ ys,
        ps_reaps := (if r then ns # ps_reaps (sy_pool s) else ps_reaps (sy_pool s))\<rparr>\<rparr>)"
| reap: "ps_reaps (sy_pool s) = xs @ ns # ys \<Longrightarrow>
      sys_step cfg s (s\<lparr>sy_pool := (sy_pool s)\<lparr>ps_pool := release_reap z ns (the_pool s), ps_reaps := xs @ ys\<rparr>\<rparr>)"
| get_ns: "GetNamespace e ns (sy_router s) = Some (res, r') \<Longrightarrow> sys_step cfg s (s\<lparr>sy_router := r'\<rparr>)"
| get_unit: "GetActiveUnit e ns (sy_router s) = Some (ures, r') \<Longrightarrow> sys_step cfg s (s\<lparr>sy_router := r'\<rparr>)"
| stats: "UpdateUnitStats e unit us (ro_conn (sy_router s)) = (st, c) \<Longrightarrow>
      sys_step cfg s (s\<lparr>sy_router := (sy_router s)\<lparr>ro_conn := c\<rparr>\<rparr>)"

definition sys_init :: "catalog_conn \<Rightarrow> 'u \<Rightarrow> ('i, 'c, 'u) ns_system" where
  "sys_init c u = \<lparr>sy_router = Router_new c, sy_disk = u, sy_pool = pool_init, sy_creating = [], sy_rejected = []\<rparr>"

inductive sys_reach :: "F05Config \<Rightarrow> ('i, 'c, 'u) ns_system \<Rightarrow> bool" for cfg where
  init: "catalog_wf (cc_tables c) \<Longrightarrow> cc_txn c = None \<Longrightarrow> sys_reach cfg (sys_init c u)"
| step: "sys_reach cfg s \<Longrightarrow> sys_step cfg s s' \<Longrightarrow> sys_reach cfg s'"

section \<open>Invariant\<close>

definition resident_ok :: "string \<Rightarrow> Router \<Rightarrow> ('i, 'c) NamespacePool \<Rightarrow> bool" where
  "resident_ok droot r p \<longleftrightarrow> (\<forall>ns sl. map_of (np_bundles p) ns = Some sl \<longrightarrow> row_of_ns ns r \<noteq> None \<and> bundle_of droot ns (sl_bundle sl))"

definition sys_inv :: "F05Config \<Rightarrow> ('i, 'c, 'u) ns_system \<Rightarrow> bool" where
  "sys_inv cfg s \<longleftrightarrow> router_inv (sy_router s) \<and> pool_inv (sy_pool s) \<and> resident_ok (f5_data_root cfg) (sy_router s) (the_pool s) \<and>
     distinct (sy_creating s @ sy_rejected s) \<and>
     (\<forall>ns \<in> set (sy_creating s @ sy_rejected s). map_of (np_bundles (the_pool s)) ns = None \<and> row_of_ns ns (sy_router s) \<noteq> None)"

lemma ns_row_conn: "ro_conn r' = ro_conn r \<Longrightarrow> row_of_ns ns r' = row_of_ns ns r"
  by (simp add: row_of_ns_def ns_rows_def)

lemma resident_ok_sub:
  assumes "resident_ok droot r p" "\<And>n. row_of_ns n r \<noteq> None \<Longrightarrow> map_of (np_bundles p') n \<noteq> None \<Longrightarrow> row_of_ns n r' \<noteq> None"
    and "\<And>n sl. map_of (np_bundles p') n = Some sl \<Longrightarrow> \<exists>s0. map_of (np_bundles p) n = Some s0 \<and> sl_bundle sl = sl_bundle s0"
  shows "resident_ok droot r' p'"
  unfolding resident_ok_def
proof (intro allI impI)
  fix n sl assume sl: "map_of (np_bundles p') n = Some sl"
  then obtain s0 where "map_of (np_bundles p) n = Some s0" "sl_bundle sl = sl_bundle s0" using assms(3) by blast
  then show "row_of_ns n r' \<noteq> None \<and> bundle_of droot n (sl_bundle sl)" using assms(1,2) sl by (auto simp: resident_ok_def)
qed

lemma resident_ok_update:
  assumes "resident_ok droot r p" "ro_conn r' = ro_conn r" "row_of_ns ns r \<noteq> None" "bundle_of droot ns (sl_bundle sl)"
    and "np_bundles p' = AList.update ns sl (np_bundles p)"
  shows "resident_ok droot r' p'"
  using assms by (auto simp: resident_ok_def ns_row_conn[OF assms(2)] slot_lookup)

lemma startup_load_resident:
  assumes "startup_load (LoadOneNamespace cfg (LoadOneNamespaceInner env droot) timed_out) nss (rep, p) w = Some ((rep', p'), w')"
    and "router_inv (fst w)" "resident_ok droot (fst w) p"
  shows "router_inv (fst w') \<and> ro_conn (fst w') = ro_conn (fst w) \<and> resident_ok droot (fst w') p'"
  using assms
proof (induction nss arbitrary: rep p w)
  case (Cons ns nss)
  obtain l w1 where l: "LoadOneNamespace cfg (LoadOneNamespaceInner env droot) timed_out ns w = Some (l, w1)"
    "startup_load (LoadOneNamespace cfg (LoadOneNamespaceInner env droot) timed_out) nss (startup_one ns l (rep, p)) w1 = Some ((rep', p'), w')"
    using Cons.prems(1) by (auto simp: bind_eq_Some_conv)
  have w1: "router_inv (fst w1)" "ro_conn (fst w1) = ro_conn (fst w)"
    "\<forall>b. l = Inr b \<longrightarrow> row_of_ns ns (fst w) \<noteq> None \<and> bundle_of droot ns b"
    using l(1) load_returns[OF Cons.prems(2), of env droot ns] by (auto simp: LoadOneNamespace_def split: if_splits)
  obtain rep1 p1 where rp: "startup_one ns l (rep, p) = (rep1, p1)" by fastforce
  have "resident_ok droot (fst w1) p1"
  proof (cases l)
    case (Inl st)
    then have "np_bundles p1 = np_bundles p" using rp by (auto simp: startup_one_def)
    then show ?thesis using Cons.prems(3) by (simp add: resident_ok_def ns_row_conn[OF w1(2)])
  next
    case (Inr b)
    then have "p1 = assign_bundle ns b p" using rp by (simp add: startup_one_def)
    then show ?thesis
      using resident_ok_update[OF Cons.prems(3) w1(2), of ns
          "case map_of (np_bundles p) ns of None \<Rightarrow> fresh_slot b | Some s \<Rightarrow> s\<lparr>sl_bundle := b\<rparr>" p1] w1(3) Inr
      by (auto simp: assign_bundle_def fresh_slot_def split: option.splits)
  qed
  with Cons.IH[OF l(2)[unfolded rp] w1(1)] w1(2) show ?case by simp
qed simp

lemma startup_resident:
  assumes "StartupLoadAll cfg z (LoadOneNamespaceInner env droot) timed_out duration lst p w = Some (res, p', w')"
    and "router_inv (fst w)" "resident_ok droot (fst w) p"
  shows "router_inv (fst w') \<and> ro_conn (fst w') = ro_conn (fst w) \<and> resident_ok droot (fst w') p'"
proof (cases lst)
  case (Inr nss)
  obtain rep q where q: "startup_load (LoadOneNamespace cfg (LoadOneNamespaceInner env droot) timed_out)
      (take (f5_max_namespaces_per_instance cfg) nss)
      (\<lparr>sr_total_namespaces = length (take (f5_max_namespaces_per_instance cfg) nss), sr_loaded_successfully = 0, sr_failed = 0,
        sr_failed_namespaces = [], sr_total_duration_ms = 0\<rparr>, p) w = Some ((rep, q), w')" "p' = RefreshPoolGauges z q"
    using assms(1) Inr by (auto simp: StartupLoadAll_def Let_def bind_eq_Some_conv)
  then show ?thesis using startup_load_resident[OF q(1) assms(2,3)] by (simp add: resident_ok_def)
qed (use assms in \<open>simp add: StartupLoadAll_def\<close>)

lemma sys_invD:
  assumes "sys_inv cfg s"
  shows "router_inv (sy_router s)" "pool_inv (sy_pool s)" "resident_ok (f5_data_root cfg) (sy_router s) (the_pool s)"
    "distinct (sy_creating s @ sy_rejected s)"
    "ns \<in> set (sy_creating s) \<union> set (sy_rejected s) \<Longrightarrow> map_of (np_bundles (the_pool s)) ns = None"
    "ns \<in> set (sy_creating s) \<union> set (sy_rejected s) \<Longrightarrow> row_of_ns ns (sy_router s) \<noteq> None"
  using assms unfolding sys_inv_def by auto

text \<open>A step that leaves the slots alone, or shrinks them, and keeps the rows of the catalog.\<close>

lemma sys_inv_pool:
  assumes "sys_inv cfg s" "pool_inv ps" "router_inv r"
    and "\<And>n. row_of_ns n (sy_router s) \<noteq> None \<Longrightarrow> row_of_ns n r \<noteq> None"
    and "\<And>n sl. map_of (np_bundles (ps_pool ps)) n = Some sl \<Longrightarrow>
      \<exists>s0. map_of (np_bundles (the_pool s)) n = Some s0 \<and> sl_bundle sl = sl_bundle s0"
  shows "sys_inv cfg (s\<lparr>sy_router := r, sy_pool := ps\<rparr>)"
proof -
  note inv = sys_invD[OF assms(1)]
  have "resident_ok (f5_data_root cfg) r (ps_pool ps)"
    by (rule resident_ok_sub[OF inv(3)]) (use assms(4,5) in auto)
  moreover have "map_of (np_bundles (ps_pool ps)) n = None" if "map_of (np_bundles (the_pool s)) n = None" for n
    using assms(5)[of n] that by (cases "map_of (np_bundles (ps_pool ps)) n") auto
  ultimately show ?thesis using assms(1-4) by (simp add: sys_inv_def)
qed

lemma sys_startup_inv:
  assumes "sys_inv cfg s"
    and "StartupLoadAll cfg z (LoadOneNamespaceInner env (f5_data_root cfg)) timed_out duration lst (the_pool s) (sy_router s, sy_disk s) =
      Some (res, p', (r', u'))"
    and "ps_borrows (sy_pool s) = []" "sy_creating s = []" "sy_rejected s = []"
  shows "sys_inv cfg (set_pool p' s\<lparr>sy_router := r', sy_disk := u'\<rparr>)"
  using startup_resident[OF assms(2)] startup_inv[OF sys_invD(2)[OF assms(1)] assms(2,3)] sys_invD(1,3)[OF assms(1)] assms(4,5)
  by (simp add: sys_inv_def set_pool_def)

lemma sys_insert_inv:
  assumes "sys_inv cfg s" "InsertNamespaceCatalog e m (ro_conn (sy_router s)) = (Status_Ok, c)"
  shows "sys_inv cfg (s\<lparr>sy_router := (sy_router s)\<lparr>ro_conn := c\<rparr>, sy_creating := nm_namespace_id m # sy_creating s\<rparr>)"
proof -
  let ?ns = "nm_namespace_id m" let ?r = "(sy_router s)\<lparr>ro_conn := c\<rparr>"
  note inv = sys_invD[OF assms(1)]
  have c: "?ns \<notin> nm_namespace_id ` set (ns_rows (sy_router s))"
    "c = (ro_conn (sy_router s))\<lparr>cc_tables := with_namespace (ce_wall_ms e) m (cc_tables (ro_conn (sy_router s)))\<rparr>"
    using assms(2) by (auto simp: ns_rows_def elim: insert_catalog_cases)
  have absent: "row_of_ns ?ns (sy_router s) = None" using c(1) by (auto simp: row_of_ns_def find_None_iff intro: rev_image_eqI)
  have rows: "row_of_ns n ?r \<noteq> None" if a: "row_of_ns n (sy_router s) \<noteq> None" for n
  proof -
    obtain x where "find (\<lambda>m. nm_namespace_id m = n) (ns_rows (sy_router s)) = Some x" using a by (auto simp: row_of_ns_def)
    from find_append[OF this] show ?thesis by (simp add: row_of_ns_def ns_rows_def c(2) with_namespace_def)
  qed
  have new: "row_of_ns ?ns ?r \<noteq> None"
  proof -
    have "new_ns_row (ce_wall_ms e) m \<in> set (ns_rows ?r)" "nm_namespace_id (new_ns_row (ce_wall_ms e) m) = ?ns"
      by (simp_all add: ns_rows_def c(2) with_namespace_def) (simp add: new_ns_row_def)
    then show ?thesis unfolding row_of_ns_def find_None_iff by blast
  qed
  have slot: "map_of (np_bundles (the_pool s)) ?ns = None"
    using inv(3) absent unfolding resident_ok_def by (metis not_None_eq)
  have "resident_ok (f5_data_root cfg) ?r (the_pool s)" by (rule resident_ok_sub[OF inv(3)]) (use rows in auto)
  moreover have "?ns \<notin> set (sy_creating s) \<union> set (sy_rejected s)" using inv(6) absent by metis
  ultimately show ?thesis
    using assms(1) insert_router_inv[OF inv(1) assms(2)] rows new slot by (auto simp: sys_inv_def)
qed

lemma fresh_update_inj: "AList.update k (fresh_slot a) l = AList.update k (fresh_slot b) l \<Longrightarrow> a = b"
  by (drule arg_cong[where f = "\<lambda>x. map_of x k"]) (simp add: slot_lookup fresh_slot_def)

lemma sys_admit_inv:
  assumes "sys_inv cfg s" "sy_creating s = xs @ ns # ys"
    and "AdmitCreate cfg z (LoadOneNamespaceInner env (f5_data_root cfg)) now ns 0 (the_pool s) (sy_router s, sy_disk s) =
      Some (st, p', (r', u'))"
  shows "sys_inv cfg (set_pool p' s\<lparr>sy_router := r', sy_disk := u', sy_creating := xs @ ys,
    sy_rejected := (if ok st then sy_rejected s else ns # sy_rejected s)\<rparr>)"
proof -
  note inv = sys_invD[OF assms(1)]
  have ns: "map_of (np_bundles (the_pool s)) ns = None" "row_of_ns ns (sy_router s) \<noteq> None" using inv(5,6)[of ns] assms(2) by auto
  obtain res w where ld: "LoadOneNamespaceInner env (f5_data_root cfg) ns (sy_router s, sy_disk s) = Some (res, w)"
    "router_inv (fst w)" "ro_conn (fst w) = ro_conn (sy_router s)"
    "case res of Inl st \<Rightarrow> \<not> ok st | Inr b \<Rightarrow> row_of_ns ns (sy_router s) \<noteq> None \<and> bundle_of (f5_data_root cfg) ns b"
    using load_returns[of "(sy_router s, sy_disk s)" env "f5_data_root cfg" ns, unfolded fst_conv, OF inv(1)] by auto
  have r': "router_inv r'" "ro_conn r' = ro_conn (sy_router s)"
    using assms(3) ld(1-3) inv(1) by (auto simp: AdmitCreate_def split: if_splits sum.splits)
  have pinv: "pool_inv ((sy_pool s)\<lparr>ps_pool := p'\<rparr>)"
    by (rule admit_inv[OF inv(2) assms(3)]) (use ns(1) in \<open>simp add: being_deleted_def\<close>)
  have rows: "row_of_ns n r' = row_of_ns n (sy_router s)" for n by (rule ns_row_conn[OF r'(2)])
  from assms(3) have slots: "resident_ok (f5_data_root cfg) r' p' \<and> (\<not> ok st \<longrightarrow> np_bundles p' = np_bundles (the_pool s)) \<and>
      (\<forall>n. n \<noteq> ns \<longrightarrow> map_of (np_bundles p') n = map_of (np_bundles (the_pool s)) n)"
  proof (cases rule: admit_cases)
    case same
    then show ?thesis using inv(3) by (simp add: resident_ok_def rows)
  next
    case (load b)
    have "bundle_of (f5_data_root cfg) ns b" if "res = Inr b'" for b'
    proof -
      have "np_bundles p' = AList.update ns (fresh_slot b') (np_bundles (the_pool s))"
        using assms(3) ld(1) that load(1,4,5) by (auto simp: AdmitCreate_def split: if_splits)
      with load(2) have "AList.update ns (fresh_slot b) (np_bundles (the_pool s)) = AList.update ns (fresh_slot b') (np_bundles (the_pool s))"
        by (rule subst[where P = "\<lambda>x. x = _"])
      from fresh_update_inj[OF this] show ?thesis using ld(4) that by simp
    qed
    moreover have "\<exists>b'. res = Inr b'"
      using assms(3) ld(1,4) load(1,3,4,5) by (cases res) (auto simp: AdmitCreate_def split: if_splits)
    ultimately have "bundle_of (f5_data_root cfg) ns b" by blast
    then show ?thesis
      using load resident_ok_update[OF inv(3) r'(2) ns(2), of "fresh_slot b" p'] by (simp add: fresh_slot_def slot_lookup)
  next
    case failed
    then show ?thesis using inv(3) by (simp add: resident_ok_def rows)
  qed
  have fresh: "ns \<notin> set (xs @ ys) \<union> set (sy_rejected s)" using inv(4) assms(2) by auto
  have none: "map_of (np_bundles p') n = None" if n: "n \<in> set (xs @ ys) \<union> set (sy_rejected s)" for n
  proof -
    have "n \<noteq> ns" using n fresh by auto
    moreover have "map_of (np_bundles (the_pool s)) n = None" by (rule inv(5)) (use n assms(2) in auto)
    ultimately show ?thesis using slots by metis
  qed
  have some: "row_of_ns n r' \<noteq> None" if n: "n \<in> set (xs @ ns # ys) \<union> set (sy_rejected s)" for n
    unfolding rows by (rule inv(6)) (use n assms(2) in auto)
  have dist: "distinct ((xs @ ys) @ (if ok st then sy_rejected s else ns # sy_rejected s))" using inv(4) assms(2) by auto
  have "map_of (np_bundles p') n = None \<and> row_of_ns n r' \<noteq> None"
    if n: "n \<in> set ((xs @ ys) @ (if ok st then sy_rejected s else ns # sy_rejected s))" for n
  proof (cases "n = ns")
    case True
    then have "\<not> ok st" using n fresh by (auto split: if_splits)
    then show ?thesis using True slots ns(1) some[of ns] by simp
  next
    case False
    then have "n \<in> set (xs @ ys) \<union> set (sy_rejected s)" using n by (auto split: if_splits)
    then show ?thesis using none[of n] some[of n] by auto
  qed
  with slots dist r'(1) pinv show ?thesis by (simp add: sys_inv_def set_pool_def)
qed

lemma sys_undo_inv:
  assumes "sys_inv cfg s" "sy_rejected s = xs @ ns # ys" "ce_sql e QCommit = SqlOk"
  shows "sys_inv cfg (s\<lparr>sy_router := RemoveNamespaceCatalogRows e ns (sy_router s), sy_rejected := xs @ ys\<rparr>)"
proof -
  let ?r = "RemoveNamespaceCatalogRows e ns (sy_router s)"
  note inv = sys_invD[OF assms(1)]
  have wf: "catalog_wf (cc_tables (ro_conn (sy_router s)))" "cc_txn (ro_conn (sy_router s)) = None"
    using inv(1) by (auto simp: router_inv_def)
  have other: "row_of_ns n ?r = row_of_ns n (sy_router s)" if "n \<noteq> ns" for n
    by (rule remove_cases[OF wf assms(3), of ns])
      (use find_other(1)[OF that] in \<open>simp_all add: row_of_ns_def ns_rows_def without_namespace_def\<close>)
  have slot: "map_of (np_bundles (the_pool s)) ns = None" using inv(5)[of ns] assms(2) by auto
  have "row_of_ns n ?r \<noteq> None" if "row_of_ns n (sy_router s) \<noteq> None" "map_of (np_bundles (the_pool s)) n \<noteq> None" for n
    using that slot other[of n] by (cases "n = ns") auto
  then have "resident_ok (f5_data_root cfg) ?r (the_pool s)" by (intro resident_ok_sub[OF inv(3)]) auto
  moreover have "row_of_ns n ?r \<noteq> None" if "n \<in> set (sy_creating s) \<union> set (xs @ ys)" for n
  proof -
    have "n \<noteq> ns" using that inv(4) assms(2) by auto
    then show ?thesis using other[of n] inv(6)[of n] that assms(2) by auto
  qed
  ultimately show ?thesis
    using remove_router_inv[OF inv(1) assms(3)] inv(2,4,5) assms(2) by (auto simp: sys_inv_def)
qed

lemma delete_keeps_rows:
  assumes "DeleteNamespace e ev ns p r = (st, p', r')"
  shows "row_of_ns n r \<noteq> None \<Longrightarrow> row_of_ns n r' \<noteq> None"
proof -
  have "map nm_namespace_id (ns_rows r') = map nm_namespace_id (ns_rows r)"
    using assms by (auto simp: DeleteNamespace_def Let_def ns_rows_def map_update_rows split: sql_outcome.splits if_splits)
  then have "nm_namespace_id ` set (ns_rows r') = nm_namespace_id ` set (ns_rows r)" by (metis list.set_map)
  then show "row_of_ns n r \<noteq> None \<Longrightarrow> row_of_ns n r' \<noteq> None" unfolding row_of_ns_def find_None_iff by (metis (no_types, lifting) imageE imageI)
qed

lemma sys_delete_inv:
  assumes "sys_inv cfg s" "DeleteNamespace e (Some (EvictForDelete z)) ns (the_pool s) (sy_router s) = (st, p', r')"
  shows "sys_inv cfg (set_pool p' s\<lparr>sy_router := r'\<rparr>)"
proof -
  note inv = sys_invD[OF assms(1)]
  have p': "p' = the_pool s \<or> p' = snd (EvictForDelete z ns (the_pool s))"
    using assms(2) by (auto simp: DeleteNamespace_def Let_def split: sql_outcome.splits if_splits)
  have "pool_inv ((sy_pool s)\<lparr>ps_pool := p'\<rparr>)"
    using p' inv(2) evict_inv[OF inv(2), of z ns "fst (EvictForDelete z ns (the_pool s))" "snd (EvictForDelete z ns (the_pool s))"] by auto
  moreover have "\<exists>s0. map_of (np_bundles (the_pool s)) n = Some s0 \<and> sl_bundle sl = sl_bundle s0" if "map_of (np_bundles p') n = Some sl" for n sl
    using that p' by (auto simp: EvictForDelete_def slot_lookup split: option.splits if_splits)
  ultimately have "sys_inv cfg (s\<lparr>sy_router := r', sy_pool := (sy_pool s)\<lparr>ps_pool := p'\<rparr>\<rparr>)"
    by (intro sys_inv_pool[OF assms(1)] delete_router_inv[OF inv(1) assms(2)] delete_keeps_rows[OF assms(2)]) simp_all
  then show ?thesis by (cases s) (simp add: set_pool_def)
qed

lemma sys_pool_step_inv:
  assumes "sys_inv cfg s" "pool_inv ps"
    and "\<And>n sl. map_of (np_bundles (ps_pool ps)) n = Some sl \<Longrightarrow>
      \<exists>s0. map_of (np_bundles (the_pool s)) n = Some s0 \<and> sl_bundle sl = sl_bundle s0"
  shows "sys_inv cfg (s\<lparr>sy_pool := ps\<rparr>)"
  using sys_inv_pool[OF assms(1,2) sys_invD(1)[OF assms(1)] _ assms(3)] by simp

lemma sys_router_step_inv:
  assumes "sys_inv cfg s" "router_inv r" "\<And>n. row_of_ns n (sy_router s) \<noteq> None \<Longrightarrow> row_of_ns n r \<noteq> None"
  shows "sys_inv cfg (s\<lparr>sy_router := r\<rparr>)"
  using sys_inv_pool[OF assms(1) sys_invD(2)[OF assms(1)] assms(2,3)] by simp

lemma sys_step_inv: "sys_step cfg s s' \<Longrightarrow> sys_inv cfg s \<Longrightarrow> sys_inv cfg s'"
proof (induction rule: sys_step.induct)
  case startup
  then show ?case using sys_startup_inv by metis
next
  case create_insert
  then show ?case using sys_insert_inv by metis
next
  case create_admit
  then show ?case using sys_admit_inv by metis
next
  case create_undo
  then show ?case using sys_undo_inv by metis
next
  case delete
  then show ?case using sys_delete_inv by metis
next
  case (acquire ns s b p')
  show ?case
    by (rule sys_pool_step_inv[OF acquire.prems acquire_inv[OF sys_invD(2)[OF acquire.prems] acquire.hyps]])
      (use acquire.hyps in \<open>auto simp: pool_Acquire_def slot_lookup split: option.splits if_splits\<close>)
next
  case (drop s xs ns b ys r p')
  show ?case
    by (rule sys_pool_step_inv[OF drop.prems drop_inv[OF sys_invD(2)[OF drop.prems] drop.hyps]])
      (use drop.hyps in \<open>auto simp: release_drop_def slot_lookup split: option.splits if_splits\<close>)
next
  case (reap s xs ns ys z)
  show ?case
    by (rule sys_pool_step_inv[OF reap.prems reap_inv[OF sys_invD(2)[OF reap.prems] reap.hyps]])
      (auto simp: release_reap_def slot_lookup split: option.splits if_splits)
next
  case (get_ns e ns s res r')
  then show ?case using GetNamespace_returns[OF sys_invD(1)[OF get_ns.prems], of e ns] ns_row_conn[of r' "sy_router s"]
    by (intro sys_router_step_inv) auto
next
  case (get_unit e ns s ures r')
  then show ?case using GetActiveUnit_returns[OF sys_invD(1)[OF get_unit.prems], of e ns] ns_row_conn[of r' "sy_router s"]
    by (intro sys_router_step_inv) auto
next
  case (stats e unit us s st c)
  then show ?case
    using stats_router_inv[OF sys_invD(1)[OF stats.prems] stats.hyps]
    by (intro sys_router_step_inv) (auto simp: UpdateUnitStats_def Let_def row_of_ns_def ns_rows_def split: sql_outcome.splits if_splits)
qed

lemma sys_reach_inv: "sys_reach cfg s \<Longrightarrow> sys_inv cfg s"
proof (induction rule: sys_reach.induct)
  case (init c u)
  then have "router_inv (Router_new c)" by (intro router_reach_inv router_reach.start)
  then show ?case
    by (simp add: sys_inv_def sys_init_def pool_init_def pool_inv_def NamespacePool_new_def slot_inv_def resident_ok_def)
next
  case step
  then show ?case using sys_step_inv by blast
qed

section \<open>Properties\<close>

text \<open>
  C4: In every state that creations, admissions, compensations whose COMMIT succeeds, deletions, borrows, releases and lookups
  can reach in any interleaving, after a startup load that ran before anything was borrowed or created, and without
  \<open>ReloadNamespace\<close>, a bundle that was handed out is still the bundle of its namespace and counted; the namespace has a row in
  the catalog, and its bundle lies in the directory of its own unit, which no other namespace shares.  (A reload breaks this:
  reload_frees_borrowed_bundle.)
\<close>
theorem namespaces_in_use_stay:
  assumes "sys_reach cfg s" "(ns, b) \<in> set (ps_borrows (sy_pool s))"
  shows "(\<exists>sl. map_of (np_bundles (the_pool s)) ns = Some sl \<and> sl_bundle sl = b \<and>
            sl_refcount sl = int (borrow_count ns (ps_borrows (sy_pool s)))) \<and>
         row_of_ns ns (sy_router s) \<noteq> None \<and>
         (\<exists>u. nb_unit_bundles b = [u] \<and> ub_data_dir u = UnitDataDir (f5_data_root cfg) (unit_id_of ns)) \<and>
         (\<forall>ns'. UnitDataDir (f5_data_root cfg) (unit_id_of ns') = UnitDataDir (f5_data_root cfg) (unit_id_of ns) \<longleftrightarrow> ns' = ns)"
proof -
  note inv = sys_invD[OF sys_reach_inv[OF assms(1)]]
  obtain sl where sl: "map_of (np_bundles (the_pool s)) ns = Some sl" "sl_bundle sl = b"
    "sl_refcount sl = int (borrow_count ns (ps_borrows (sy_pool s)))"
    using pool_invD(2)[OF inv(2), of ns] assms(2) by (auto simp: slot_inv_def borrow_count_0_iff split: option.splits)
  have "row_of_ns ns (sy_router s) \<noteq> None \<and> bundle_of (f5_data_root cfg) ns b" using inv(3) sl by (auto simp: resident_ok_def)
  with sl show ?thesis by (auto simp: bundle_of_def UnitDataDir_inj)
qed










section \<open>A sample run\<close>

definition sample_load :: "(nat, nat, unit) load_env" where
  "sample_load = \<lparr>le_cat = good_env 7, le_open_index = (\<lambda>_ u. (Inr 1, u)), le_open_store = (\<lambda>_ u. (Status_Ok, u)),
     le_migrate = (\<lambda>_ u. (Status_Ok, u)), le_is_vector_store = (\<lambda>_. True), le_open_coord = (\<lambda>_ _ u. (Inr (Some 2), u)),
     le_recover = (\<lambda>_ _ _ u. (Status_Ok, u)), le_doc_recovery = (\<lambda>_ _ u. u)\<rparr>"

abbreviation sample_router :: Router where
  "sample_router \<equiv> Router_new (empty_catalog True [''t''])"


lemma sample_load_succeeds:
  assumes "router_inv r" "row_of_ns ns r \<noteq> None"
  shows "\<exists>b w'. LoadOneNamespaceInner sample_load droot ns (r, ()) = Some (Inr b, w')"
proof -
  obtain d r' where "GetActiveUnit (good_env 7) ns r = Some (Inr d, r')" using GetActiveUnit_found[OF assms(1) _ assms(2)] cat_good_good_env by blast
  then show ?thesis by (simp add: LoadOneNamespaceInner_def unit_assemble_def sample_load_def Let_def)
qed

lemma sample_run: "\<exists>s b. sys_reach sample_config (s :: (nat, nat, unit) ns_system) \<and> (''a'', b) \<in> set (ps_borrows (sy_pool s))"
proof -
  let ?s0 = "sys_init (empty_catalog True [''t'']) () :: (nat, nat, unit) ns_system"
  have r0: "sys_reach sample_config ?s0" by (rule sys_reach.init) (simp_all add: empty_catalog_def catalog_wf_def)
  obtain c where c: "InsertNamespaceCatalog (good_env 5) sample_metadata (ro_conn sample_router) = (Status_Ok, c)"
    using sample_insert by (auto simp: Router_new_def)
  let ?s1 = "?s0\<lparr>sy_router := sample_router\<lparr>ro_conn := c\<rparr>, sy_creating := [''a'']\<rparr>"
  have "sys_step sample_config ?s0 ?s1"
    using sys_step.create_insert[of sample_metadata "good_env 5" ?s0 c sample_config] c by (simp add: sys_init_def sample_metadata_def)
  with r0 have r1: "sys_reach sample_config ?s1" by (rule sys_reach.step)
  have row: "row_of_ns ''a'' (sy_router ?s1) \<noteq> None" by (rule sys_invD(6)[OF sys_reach_inv[OF r1]]) simp
  obtain b r2 u2 where ld: "LoadOneNamespaceInner sample_load (f5_data_root sample_config) ''a'' (sy_router ?s1, ()) = Some (Inr b, (r2, u2))"
    using sample_load_succeeds[OF sys_invD(1)[OF sys_reach_inv[OF r1]] row] by (metis prod.collapse)
  let ?p = "RefreshPoolGauges sample_sizes (NamespacePool_new\<lparr>np_bundles := [(''a'', fresh_slot b)]\<rparr>)"
  have adm: "AdmitCreate sample_config sample_sizes (LoadOneNamespaceInner sample_load (f5_data_root sample_config)) 0 ''a'' 0
      (the_pool ?s1) (sy_router ?s1, sy_disk ?s1) = Some (Status_Ok, ?p, (r2, u2))"
    using ld by (simp add: AdmitCreate_def sys_init_def pool_init_def NamespacePool_new_def already_resident_def sample_config_def)
  have creating: "sy_creating ?s1 = [] @ ''a'' # []" by simp
  let ?s2 = "set_pool ?p ?s1\<lparr>sy_router := r2, sy_disk := u2, sy_creating := [] @ [],
    sy_rejected := (if ok Status_Ok then sy_rejected ?s1 else ''a'' # sy_rejected ?s1)\<rparr>"
  have "sys_step sample_config ?s1 ?s2" by (rule sys_step.create_admit[OF creating adm])
  then have reach2: "sys_reach sample_config ?s2" by (rule sys_reach.step[OF r1])
  have "pool_Acquire ''a'' (the_pool ?s2) = (Inr b, snd (pool_Acquire ''a'' (the_pool ?s2)))"
    by (simp add: pool_Acquire_def RefreshPoolGauges_def fresh_slot_def set_pool_def)
  note fin = sys_reach.step[OF reach2 sys_step.acquire[OF this]]
  show ?thesis by (rule exI, rule exI[of _ b], rule conjI[OF fin]) simp
qed

theorem namespaces_in_use_stay_witness:
  "\<exists>(s :: (nat, nat, unit) ns_system) b sl. (''a'', b) \<in> set (ps_borrows (sy_pool s)) \<and>
     map_of (np_bundles (the_pool s)) ''a'' = Some sl \<and> sl_bundle sl = b \<and> row_of_ns ''a'' (sy_router s) \<noteq> None"
proof -
  obtain s :: "(nat, nat, unit) ns_system" and b where s: "sys_reach sample_config s" "(''a'', b) \<in> set (ps_borrows (sy_pool s))"
    using sample_run by blast
  from namespaces_in_use_stay[OF s] obtain sl where "map_of (np_bundles (the_pool s)) ''a'' = Some sl" "sl_bundle sl = b"
    "row_of_ns ''a'' (sy_router s) \<noteq> None" by metis
  with s(2) show ?thesis by blast
qed



end
