(* ===== verification/Lock_Order.thy ===== *)
theory Lock_Order
  imports Main
begin

text \<open>
  The two locks of the namespace service: the mutex \<open>mu_\<close> of the router (\<^verbatim>\<open>src/catalog/default_ns_router.cpp\<close>) and the shared
  mutex \<open>pool_mutex_\<close> of the pool (\<^verbatim>\<open>src/resource/namespace_pool.cpp\<close>).  An operation is the sequence of its lock actions on the
  path that reaches furthest; threads interleave.  Without deletions the locks are always taken in the same order and some thread
  can go on; a deletion takes them in the other order.
\<close>

section \<open>Lock programs\<close>

datatype lock = RouterMutex | PoolMutex

datatype lock_act = Lock lock | LockShared lock | Unlock lock

datatype ns_op =
    OpGetNamespace | OpGetActiveUnit | OpListNamespaces | OpCreateNamespace | OpDeleteNamespace
  | OpAcquire | OpRelease | OpReload | OpStats | OpExplain

definition locks_GetActiveUnit :: "lock_act list" where
  "locks_GetActiveUnit = [Lock RouterMutex, Unlock RouterMutex]"

text \<open>\<open>AdmitCreate\<close> loads under the exclusive lock of the pool, and the load asks the router for the unit.\<close>

definition locks_AdmitCreate :: "lock_act list" where
  "locks_AdmitCreate = [Lock PoolMutex] @ locks_GetActiveUnit @ [Unlock PoolMutex]"

definition locks_EvictForDelete :: "lock_act list" where
  "locks_EvictForDelete = [Lock PoolMutex, Unlock PoolMutex]"

text \<open>The insertion, the admission and, when that is refused, the compensation.\<close>

definition locks_CreateNamespace :: "lock_act list" where
  "locks_CreateNamespace = [Lock RouterMutex, Unlock RouterMutex] @ locks_AdmitCreate @ [Lock RouterMutex, Unlock RouterMutex]"

text \<open>The eviction is called while the mutex of the router is held.\<close>

definition locks_DeleteNamespace :: "lock_act list" where
  "locks_DeleteNamespace = [Lock RouterMutex] @ locks_EvictForDelete @ [Unlock RouterMutex]"

definition locks_Reload :: "lock_act list" where
  "locks_Reload = locks_GetActiveUnit @ [Lock PoolMutex, Unlock PoolMutex]"

fun lock_program :: "ns_op \<Rightarrow> lock_act list" where
  "lock_program OpGetNamespace = [Lock RouterMutex, Unlock RouterMutex]"
| "lock_program OpGetActiveUnit = locks_GetActiveUnit"
| "lock_program OpListNamespaces = [Lock RouterMutex, Unlock RouterMutex]"
| "lock_program OpCreateNamespace = locks_CreateNamespace"
| "lock_program OpDeleteNamespace = locks_DeleteNamespace"
| "lock_program OpAcquire = [LockShared PoolMutex, Unlock PoolMutex]"
| "lock_program OpRelease = [LockShared PoolMutex, Unlock PoolMutex, Lock PoolMutex, Unlock PoolMutex]"
| "lock_program OpReload = locks_Reload"
| "lock_program OpStats = [LockShared PoolMutex, Unlock PoolMutex]"
| "lock_program OpExplain = [LockShared PoolMutex, Unlock PoolMutex]"

section \<open>Threads\<close>

text \<open>A thread holds locks, each exclusively or not, and has a rest of its program.\<close>

record thread =
  th_held :: "(lock \<times> bool) list"
  th_rest :: "lock_act list"

definition start :: "ns_op \<Rightarrow> thread" where
  "start oper = \<lparr>th_held = [], th_rest = lock_program oper\<rparr>"

definition held_by_some :: "thread list \<Rightarrow> lock \<Rightarrow> bool" where
  "held_by_some ts l \<longleftrightarrow> (\<exists>t \<in> set ts. l \<in> fst ` set (th_held t))"

definition exclusively_held :: "thread list \<Rightarrow> lock \<Rightarrow> bool" where
  "exclusively_held ts l \<longleftrightarrow> (\<exists>t \<in> set ts. (l, True) \<in> set (th_held t))"

fun act :: "thread list \<Rightarrow> thread \<Rightarrow> thread option" where
  "act ts t = (case th_rest t of
     [] \<Rightarrow> None
   | Lock l # p \<Rightarrow> if held_by_some ts l then None else Some \<lparr>th_held = (l, True) # th_held t, th_rest = p\<rparr>
   | LockShared l # p \<Rightarrow> if exclusively_held ts l then None else Some \<lparr>th_held = (l, False) # th_held t, th_rest = p\<rparr>
   | Unlock l # p \<Rightarrow> Some \<lparr>th_held = filter (\<lambda>(k, x). k \<noteq> l) (th_held t), th_rest = p\<rparr>)"

declare act.simps [simp del]

inductive threads_step :: "thread list \<Rightarrow> thread list \<Rightarrow> bool" where
  "i < length ts \<Longrightarrow> act ts (ts ! i) = Some t' \<Longrightarrow> threads_step ts (ts[i := t'])"

inductive threads_reach :: "ns_op list \<Rightarrow> thread list \<Rightarrow> bool" for ops where
  begin_ops: "threads_reach ops (map start ops)"
| next_step: "threads_reach ops ts \<Longrightarrow> threads_step ts ts' \<Longrightarrow> threads_reach ops ts'"

definition some_unfinished :: "thread list \<Rightarrow> bool" where
  "some_unfinished ts \<longleftrightarrow> (\<exists>t \<in> set ts. th_rest t \<noteq> [])"

section \<open>Locks in order\<close>

fun rank :: "lock \<Rightarrow> nat" where
  "rank PoolMutex = 0"
| "rank RouterMutex = 1"

text \<open>A lock is taken only above the ones held, and what is held is released in the end.\<close>

fun ascending :: "lock set \<Rightarrow> lock_act list \<Rightarrow> bool" where
  "ascending held [] = (held = {})"
| "ascending held (Lock l # p) = ((\<forall>h \<in> held. rank h < rank l) \<and> ascending (insert l held) p)"
| "ascending held (LockShared l # p) = ((\<forall>h \<in> held. rank h < rank l) \<and> ascending (insert l held) p)"
| "ascending held (Unlock l # p) = ascending (held - {l}) p"

definition thread_in_order :: "thread \<Rightarrow> bool" where
  "thread_in_order t \<longleftrightarrow> ascending (fst ` set (th_held t)) (th_rest t)"

lemma programs_in_order: "oper \<noteq> OpDeleteNamespace \<Longrightarrow> ascending {} (lock_program oper)"
  by (cases oper) (simp_all add: locks_GetActiveUnit_def locks_CreateNamespace_def locks_AdmitCreate_def locks_Reload_def)

lemma held_filter: "fst ` set (filter (\<lambda>(k, x). k \<noteq> l) hs) = fst ` set hs - {l}"
  by force

lemma act_in_order: "thread_in_order t \<Longrightarrow> act ts t = Some t' \<Longrightarrow> thread_in_order t'"
  by (auto simp: thread_in_order_def act.simps held_filter simp del: set_filter split: list.splits lock_act.splits if_splits)

lemma reach_in_order:
  assumes "threads_reach ops ts" "OpDeleteNamespace \<notin> set ops"
  shows "\<forall>t \<in> set ts. thread_in_order t"
  using assms(1)
proof (induction rule: threads_reach.induct)
  case begin_ops
  show ?case
  proof
    fix t assume "t \<in> set (map start ops)"
    then obtain oper where "oper \<in> set ops" "t = start oper" by auto
    then show "thread_in_order t" using programs_in_order[of oper] assms(2) by (auto simp: thread_in_order_def start_def)
  qed
next
  case (next_step ts ts')
  from next_step.hyps(2) obtain i t' where ts': "ts' = ts[i := t']" "i < length ts" "act ts (ts ! i) = Some t'"
    by (auto elim: threads_step.cases)
  have "thread_in_order t'" by (rule act_in_order[OF _ ts'(3)]) (use next_step.IH ts'(2) in simp)
  then show ?case using next_step.IH set_update_subset_insert[of ts i t'] unfolding ts'(1) by blast
qed

lemma exclusively_held_held: "exclusively_held ts l \<Longrightarrow> held_by_some ts l"
  by (force simp: exclusively_held_def held_by_some_def)

lemma wants_higher:
  assumes "thread_in_order t" "th_rest t \<noteq> []" "act ts t = None"
  obtains l where "held_by_some ts l" "\<forall>h \<in> fst ` set (th_held t). rank h < rank l"
  using assms
  by (auto simp: thread_in_order_def act.simps dest: exclusively_held_held split: list.splits lock_act.splits if_splits)

lemma exists_highest:
  assumes "held_by_some ts l"
  obtains t h where "t \<in> set ts" "h \<in> fst ` set (th_held t)" "\<And>k. held_by_some ts k \<Longrightarrow> rank k \<le> rank h"
proof -
  have bound: "\<forall>k. held_by_some ts k \<longrightarrow> rank k \<le> 1"
  proof (intro allI impI)
    fix k show "rank k \<le> 1" by (cases k) simp_all
  qed
  obtain h where h: "held_by_some ts h" "\<And>k. held_by_some ts k \<Longrightarrow> rank k \<le> rank h"
    using assms bound ex_has_greatest_nat[of "held_by_some ts" l rank 2] by (metis le_imp_less_Suc numeral_2_eq_2 One_nat_def)
  then show thesis using that unfolding held_by_some_def by blast
qed

section \<open>Properties\<close>

text \<open>
  C16: As long as no namespace is deleted, the operations of the router and the pool that serve requests cannot block each other: in every reachable
  state in which some thread has not finished, some thread can go on.
\<close>
theorem no_deadlock_without_delete:
  assumes "threads_reach ops ts" "OpDeleteNamespace \<notin> set ops" "some_unfinished ts"
  shows "\<exists>ts'. threads_step ts ts'"
proof (rule ccontr)
  assume "\<nexists>ts'. threads_step ts ts'"
  then have blocked: "act ts t = None" if "t \<in> set ts" for t
    using that by (metis in_set_conv_nth not_None_eq threads_step.intros)
  have ord: "thread_in_order t" if "t \<in> set ts" for t using reach_in_order[OF assms(1,2)] that by blast
  obtain t where t: "t \<in> set ts" "th_rest t \<noteq> []" using assms(3) by (auto simp: some_unfinished_def)
  obtain l where "held_by_some ts l" using wants_higher[OF ord[OF t(1)] t(2) blocked[OF t(1)]] by blast
  then obtain u h where u: "u \<in> set ts" "h \<in> fst ` set (th_held u)" "\<And>k. held_by_some ts k \<Longrightarrow> rank k \<le> rank h"
    using exists_highest by blast
  have "th_rest u \<noteq> []" using ord[OF u(1)] u(2) by (auto simp: thread_in_order_def)
  then obtain k where "held_by_some ts k" "rank h < rank k" using wants_higher[OF ord[OF u(1)] _ blocked[OF u(1)]] u(2) by metis
  with u(3) show False by fastforce
qed

theorem no_deadlock_without_delete_witness:
  "\<exists>ts'. threads_step (map start [OpCreateNamespace, OpRelease]) ts'"
  by (rule no_deadlock_without_delete[OF threads_reach.begin_ops]) (simp_all add: some_unfinished_def start_def locks_CreateNamespace_def)

text \<open>
  C17: A creation and a deletion can block each other for good: the deletion holds the mutex of the router and waits for the
  pool, the admission holds the pool and waits for the router.
\<close>
theorem create_delete_deadlock:
  "\<exists>ts. threads_reach [OpCreateNamespace, OpDeleteNamespace] ts \<and> list_all (\<lambda>t. th_rest t \<noteq> []) ts \<and> \<not> (\<exists>ts'. threads_step ts ts')"
proof -
  let ?ops = "[OpCreateNamespace, OpDeleteNamespace]"
  let ?del = "\<lparr>th_held = [], th_rest = [Lock RouterMutex, Lock PoolMutex, Unlock PoolMutex, Unlock RouterMutex]\<rparr>"
  let ?tail = "[Lock PoolMutex, Lock RouterMutex, Unlock RouterMutex, Unlock PoolMutex, Lock RouterMutex, Unlock RouterMutex]"
  let ?t0 = "\<lparr>th_held = [], th_rest = Lock RouterMutex # Unlock RouterMutex # ?tail\<rparr>"
  let ?t1 = "\<lparr>th_held = [(RouterMutex, True)], th_rest = Unlock RouterMutex # ?tail\<rparr>"
  let ?t2 = "\<lparr>th_held = [], th_rest = ?tail\<rparr>"
  let ?t3 = "\<lparr>th_held = [(PoolMutex, True)], th_rest = tl ?tail\<rparr>"
  let ?d = "\<lparr>th_held = [(RouterMutex, True)], th_rest = [Lock PoolMutex, Unlock PoolMutex, Unlock RouterMutex]\<rparr>"
  note eval = act.simps held_by_some_def exclusively_held_def
  have "threads_reach ?ops [?t0, ?del]"
    using threads_reach.begin_ops[of ?ops]
    by (simp add: start_def locks_CreateNamespace_def locks_AdmitCreate_def locks_GetActiveUnit_def locks_DeleteNamespace_def locks_EvictForDelete_def)
  moreover have "threads_step [?t0, ?del] [?t1, ?del]" using threads_step.intros[of 0 "[?t0, ?del]" ?t1] by (simp add: eval)
  moreover have "threads_step [?t1, ?del] [?t2, ?del]" using threads_step.intros[of 0 "[?t1, ?del]" ?t2] by (simp add: eval)
  moreover have "threads_step [?t2, ?del] [?t3, ?del]" using threads_step.intros[of 0 "[?t2, ?del]" ?t3] by (simp add: eval)
  moreover have "threads_step [?t3, ?del] [?t3, ?d]" using threads_step.intros[of 1 "[?t3, ?del]" ?d] by (simp add: eval)
  ultimately have "threads_reach ?ops [?t3, ?d]" by (meson threads_reach.next_step)
  moreover have "\<not> threads_step [?t3, ?d] ts'" for ts'
  proof
    assume "threads_step [?t3, ?d] ts'"
    then show False
    proof cases
      case (1 i t')
      then have "i = 0 \<or> i = 1" by auto
      with 1 show False by (auto simp: eval)
    qed
  qed
  ultimately show ?thesis by (intro exI[of _ "[?t3, ?d]"]) auto
qed

end
