(* ===== verification/Document_Store.thy ===== *)
theory Document_Store
  imports Prelude Sqlite Text_Order "HOL-Library.Sublist"
begin

text \<open>
  The store of a unit (\<^verbatim>\<open>src/store/cortrix_store_sqlite.cpp\<close>, \<^verbatim>\<open>doc_status_lookup.cpp\<close>, the tables of
  \<^verbatim>\<open>include/cortrix/store/per_unit_schema_ddl.h\<close>): documents, their versions and soft deletion, blocks and parents.  A
  connection holds the tables and, inside a transaction, what they were when it began.  The integer results are those of the
  code: 0 done, -1 error, -2 not found, -3 already there.  The testing seam \<open>SetFailNextOps\<close> is disarmed, texts carry no NUL,
  the score columns of a block and the full-text index itself are left out; \<open>search_fulltext\<close> takes what the index answers.
\<close>

section \<open>Documents\<close>

datatype DocStatus = ds_kPending | ds_kProcessing | ds_kReady | ds_kError | ds_kStale | ds_kDeleting | ds_kDeleted

fun DocStatusStr :: "DocStatus \<Rightarrow> string" where
  "DocStatusStr ds_kPending = ''pending''"
| "DocStatusStr ds_kProcessing = ''processing''"
| "DocStatusStr ds_kReady = ''ready''"
| "DocStatusStr ds_kError = ''error''"
| "DocStatusStr ds_kStale = ''stale''"
| "DocStatusStr ds_kDeleting = ''deleting''"
| "DocStatusStr ds_kDeleted = ''deleted''"

definition DocStatusFromStr :: "string \<Rightarrow> DocStatus" where
  "DocStatusFromStr s =
     (if s = ''processing'' then ds_kProcessing else if s = ''ready'' then ds_kReady else if s = ''error'' then ds_kError
      else if s = ''stale'' then ds_kStale else if s = ''deleting'' then ds_kDeleting
      else if s = ''deleted'' then ds_kDeleted else ds_kPending)"

record CortrixDoc =
  cd_doc_id :: string
  cd_source_type :: string
  cd_source_path :: string
  cd_source_ref :: string
  cd_content_hash :: string
  cd_file_size :: int
  cd_mime_type :: string
  cd_status :: DocStatus
  cd_error_message :: string
  cd_processing_level :: int
  cd_block_count :: int
  cd_chunk_strategy :: string
  cd_created_at :: string
  cd_updated_at :: string
  cd_processed_at :: string
  cd_cdc_schema :: string
  cd_cdc_position :: string
  cd_cdc_last_sync :: string
  cd_title :: string
  cd_language :: string
  cd_metadata_json :: string

text \<open>A row of \<open>documents\<close>; the optional columns are those the code binds \<open>NULL\<close> to.\<close>

record doc_row =
  dr_doc_id :: string
  dr_source_type :: string
  dr_source_path :: string
  dr_source_ref :: string
  dr_content_hash :: string
  dr_file_size :: int
  dr_mime_type :: string
  dr_status :: string
  dr_error_message :: string
  dr_processing_level :: int
  dr_block_count :: int
  dr_chunk_strategy :: string
  dr_created_at :: string
  dr_updated_at :: string
  dr_processed_at :: "string option"
  dr_cdc_schema :: "string option"
  dr_cdc_position :: "string option"
  dr_cdc_last_sync :: "string option"
  dr_title :: string
  dr_language :: string
  dr_metadata_json :: string
  dr_deleted_at :: "int option"
  dr_deleted_from_status :: "string option"

definition col_text :: "string option \<Rightarrow> string" where
  "col_text c = (case c of Some t \<Rightarrow> t | None \<Rightarrow> '''')"

definition text_or_null_col :: "string \<Rightarrow> string option" where
  "text_or_null_col t = (if t = '''' then None else Some t)"

definition ReadDocFromStmt :: "doc_row \<Rightarrow> CortrixDoc" where
  "ReadDocFromStmt r = \<lparr>cd_doc_id = dr_doc_id r, cd_source_type = dr_source_type r, cd_source_path = dr_source_path r,
     cd_source_ref = dr_source_ref r, cd_content_hash = dr_content_hash r, cd_file_size = dr_file_size r,
     cd_mime_type = dr_mime_type r, cd_status = DocStatusFromStr (dr_status r), cd_error_message = dr_error_message r,
     cd_processing_level = dr_processing_level r, cd_block_count = dr_block_count r, cd_chunk_strategy = dr_chunk_strategy r,
     cd_created_at = dr_created_at r, cd_updated_at = dr_updated_at r, cd_processed_at = col_text (dr_processed_at r),
     cd_cdc_schema = col_text (dr_cdc_schema r), cd_cdc_position = col_text (dr_cdc_position r),
     cd_cdc_last_sync = col_text (dr_cdc_last_sync r), cd_title = dr_title r, cd_language = dr_language r,
     cd_metadata_json = dr_metadata_json r\<rparr>"

section \<open>Blocks and parents\<close>

record CortrixBlock =
  bk_block_id :: u64
  bk_doc_id :: string
  bk_chunk_index :: int
  bk_block_type :: int
  bk_processing_level :: int
  bk_hnsw_node_id :: int
  bk_content_hash :: string
  bk_data :: bytes
  bk_content_text :: string
  bk_child_id :: string
  bk_parent_id :: string
  bk_token_count :: int
  bk_parent_offset :: int
  bk_metadata_json :: string

record block_row =
  br_block_id :: u64
  br_doc_id :: string
  br_chunk_index :: int
  br_block_type :: int
  br_processing_level :: int
  br_hnsw_node_id :: "int option"
  br_content_hash :: "string option"
  br_data :: bytes
  br_content_text :: "string option"
  br_child_id :: "string option"
  br_parent_id :: "string option"
  br_token_count :: "int option"
  br_parent_offset :: "int option"
  br_metadata_json :: "string option"

definition nonneg_or_null :: "int \<Rightarrow> int option" where
  "nonneg_or_null i = (if i \<ge> 0 then Some i else None)"

definition null_as_minus_one :: "int option \<Rightarrow> int" where
  "null_as_minus_one c = (case c of Some i \<Rightarrow> i | None \<Rightarrow> - 1)"

text \<open>The caller's block is overwritten; the hash and the data only when the column is not empty.\<close>

definition read_block :: "block_row \<Rightarrow> CortrixBlock \<Rightarrow> CortrixBlock" where
  "read_block r b = \<lparr>bk_block_id = br_block_id r, bk_doc_id = br_doc_id r, bk_chunk_index = br_chunk_index r,
     bk_block_type = br_block_type r, bk_processing_level = br_processing_level r,
     bk_hnsw_node_id = null_as_minus_one (br_hnsw_node_id r),
     bk_content_hash = (if col_text (br_content_hash r) \<noteq> '''' then col_text (br_content_hash r) else bk_content_hash b),
     bk_data = (if br_data r \<noteq> [] then br_data r else bk_data b), bk_content_text = col_text (br_content_text r),
     bk_child_id = col_text (br_child_id r), bk_parent_id = col_text (br_parent_id r),
     bk_token_count = null_as_minus_one (br_token_count r), bk_parent_offset = null_as_minus_one (br_parent_offset r),
     bk_metadata_json = col_text (br_metadata_json r)\<rparr>"

definition CortrixBlock_default :: CortrixBlock where
  "CortrixBlock_default = \<lparr>bk_block_id = 0, bk_doc_id = '''', bk_chunk_index = 0, bk_block_type = 0, bk_processing_level = 0,
     bk_hnsw_node_id = - 1, bk_content_hash = '''', bk_data = [], bk_content_text = '''', bk_child_id = '''',
     bk_parent_id = '''', bk_token_count = - 1, bk_parent_offset = - 1, bk_metadata_json = ''''\<rparr>"

record CortrixParent =
  pa_parent_id :: string
  pa_doc_id :: string
  pa_namespace_id :: string
  pa_parent_text :: string
  pa_token_count :: int
  pa_page_start :: int
  pa_page_end :: int
  pa_byte_offset_start :: int
  pa_byte_offset_end :: int
  pa_metadata_json :: string
  pa_created_at :: int

section \<open>The connection\<close>

text \<open>
  \<open>ut_labels\<close> is \<open>contextual_vec_labels\<close> (label, block), \<open>ut_doc_fts\<close> the documents with a row in \<open>doc_fts5_index\<close>;
  \<open>ut_marker\<close> says whether the table has the column \<open>deleted_from_status\<close>.
\<close>

record unit_tables =
  ut_documents :: "doc_row list"
  ut_blocks :: "block_row list"
  ut_parents :: "CortrixParent list"
  ut_labels :: "(u64 \<times> u64) list"
  ut_doc_fts :: "string list"
  ut_marker :: bool

record store_conn =
  sc_tables :: unit_tables
  sc_txn :: "unit_tables option"
  sc_has_marker :: "bool option"
  sc_foreign_keys :: bool

datatype doc_sql =
    DBegin | DCommit | DTableInfo | DUpdateStatus | DRetire | DWithdraw | DRestoreIf | DGetFrom | DGetDeletedAt | DCreate
  | DReadBack | DGet | DDelBlocks | DDelDoc | DCountPrefix | DDelBlocksPrefix | DDelDocsPrefix | DSoftDelete | DRestore
  | DListDeleted | DListStatus | DFindSource | DFindHash | DCountDocs | DBlockInsert | DBlockGet | DBlockByDoc | DBlockDelete
  | DBlockCount | DBlockCountDoc | DChildCount | DParentInsert | DParentGet | DSearch | DHidden nat | DFindProcessing
  | DDropBlocks string | DReset | DFindDeleting | DDropDeleting string | DDropDocument string

text \<open>
  \<open>se_rows\<close> is how many rows a query delivers before its step fails, \<open>se_ulid\<close> a freshly minted identifier, \<open>se_rowid\<close> the
  row id SQLite chooses, \<open>se_null_data\<close> whether the pointer of an empty vector is null.
\<close>

record store_env =
  se_sql :: "doc_sql \<Rightarrow> sql_outcome"
  se_rows :: nat
  se_now :: string
  se_ulid :: string
  se_rowid :: u64
  se_null_data :: bool

definition set_tables :: "unit_tables \<Rightarrow> store_conn \<Rightarrow> store_conn" where
  "set_tables t s = s\<lparr>sc_tables := t\<rparr>"

definition store_begin :: "store_env \<Rightarrow> store_conn \<Rightarrow> store_conn option" where
  "store_begin env s = (if se_sql env DBegin = SqlOk \<and> sc_txn s = None then Some (s\<lparr>sc_txn := Some (sc_tables s)\<rparr>) else None)"

definition store_rollback :: "store_conn \<Rightarrow> store_conn" where
  "store_rollback s = (case sc_txn s of Some t \<Rightarrow> s\<lparr>sc_tables := t, sc_txn := None\<rparr> | None \<Rightarrow> s)"

definition store_commit :: "store_env \<Rightarrow> store_conn \<Rightarrow> store_conn option" where
  "store_commit env s = (if se_sql env DCommit = SqlOk then Some (s\<lparr>sc_txn := None\<rparr>) else None)"

definition delivered :: "store_env \<Rightarrow> doc_sql \<Rightarrow> 'r list \<Rightarrow> 'r list" where
  "delivered env q rows = (if se_sql env q = SqlOk then rows else take (se_rows env) rows)"

section \<open>Statuses and versions\<close>

datatype ColumnProbe = cp_kPresent | cp_kAbsent | cp_kUnknown

definition DeletedFromStatusColumnLocked :: "store_env \<Rightarrow> store_conn \<Rightarrow> ColumnProbe \<times> store_conn" where
  "DeletedFromStatusColumnLocked env s = (case sc_has_marker s of
     Some b \<Rightarrow> (if b then cp_kPresent else cp_kAbsent, s)
   | None \<Rightarrow>
       if se_sql env DTableInfo \<noteq> SqlOk then (cp_kUnknown, s)
       else (if ut_marker (sc_tables s) then cp_kPresent else cp_kAbsent, s\<lparr>sc_has_marker := Some (ut_marker (sc_tables s))\<rparr>))"

definition versioned :: "string \<Rightarrow> bool" where
  "versioned ty \<longleftrightarrow> ty = ''http_upload'' \<or> ty = ''watch_dir''"

text \<open>The order of the source lookup: by creation time, then by identifier.\<close>

definition older :: "doc_row \<Rightarrow> doc_row \<Rightarrow> bool" where
  "older d k \<longleftrightarrow> dr_created_at d < dr_created_at k \<or> (dr_created_at d = dr_created_at k \<and> dr_doc_id d < dr_doc_id k)"

definition same_source :: "doc_row \<Rightarrow> doc_row \<Rightarrow> bool" where
  "same_source d k \<longleftrightarrow> dr_source_type d = dr_source_type k \<and> dr_source_path d = dr_source_path k"

definition live_doc :: "doc_row \<Rightarrow> bool" where
  "live_doc d \<longleftrightarrow> dr_status d \<noteq> ''deleted''"

text \<open>An \<open>UPDATE documents SET f WHERE P ... RETURNING\<close>: the number of rows, or the failure of the statement.\<close>

definition update_docs :: "store_env \<Rightarrow> doc_sql \<Rightarrow> (doc_row \<Rightarrow> bool) \<Rightarrow> (doc_row \<Rightarrow> doc_row) \<Rightarrow> store_conn \<Rightarrow> nat option \<times> store_conn" where
  "update_docs env q P f s =
     (if se_sql env q \<noteq> SqlOk then (None, s)
      else (Some (changes P (ut_documents (sc_tables s))),
            s\<lparr>sc_tables := (sc_tables s)\<lparr>ut_documents := update_rows P f (ut_documents (sc_tables s))\<rparr>\<rparr>))"

definition rc_of :: "nat option \<Rightarrow> int" where
  "rc_of n = (case n of None \<Rightarrow> - 1 | Some k \<Rightarrow> if k = 0 then - 2 else 0)"

definition UpdateStatusLocked :: "store_env \<Rightarrow> string \<Rightarrow> DocStatus \<Rightarrow> string \<Rightarrow> store_conn \<Rightarrow> int \<times> store_conn" where
  "UpdateStatusLocked env doc st msg s =
     (let (n, s') = update_docs env DUpdateStatus (\<lambda>d. dr_doc_id d = doc \<and> live_doc d)
            (\<lambda>d. d\<lparr>dr_status := DocStatusStr st, dr_error_message := msg, dr_updated_at := se_now env\<rparr>) s
      in (rc_of n, s'))"

definition doc_update_status :: "store_env \<Rightarrow> string \<Rightarrow> DocStatus \<Rightarrow> string \<Rightarrow> store_conn \<Rightarrow> int \<times> store_conn" where
  "doc_update_status = UpdateStatusLocked"

text \<open>Marking a row deleted, with the status it had when the column exists.\<close>

definition bury :: "store_env \<Rightarrow> bool \<Rightarrow> int \<Rightarrow> doc_row \<Rightarrow> doc_row" where
  "bury env marker now d = d\<lparr>dr_deleted_from_status := (if marker then Some (dr_status d) else dr_deleted_from_status d),
     dr_status := ''deleted'', dr_deleted_at := Some now, dr_updated_at := se_now env\<rparr>"

definition retires :: "string \<Rightarrow> doc_row list \<Rightarrow> doc_row \<Rightarrow> bool" where
  "retires keep docs d \<longleftrightarrow> (\<exists>k \<in> set docs. dr_doc_id k = keep \<and> versioned (dr_source_type k) \<and> same_source d k \<and>
     live_doc d \<and> older d k)"

definition RetireOlderVersionsLocked :: "store_env \<Rightarrow> string \<Rightarrow> int \<Rightarrow> store_conn \<Rightarrow> int \<times> int \<times> store_conn" where
  "RetireOlderVersionsLocked env keep now s =
     (let (probe, s1) = DeletedFromStatusColumnLocked env s;
          (n, s2) = update_docs env DRetire (retires keep (ut_documents (sc_tables s1))) (bury env (probe = cp_kPresent) now) s1
      in (case n of None \<Rightarrow> (- 1, 0, s2) | Some k \<Rightarrow> (0, int k, s2)))"

definition doc_retire_older_versions :: "store_env \<Rightarrow> string \<Rightarrow> int \<Rightarrow> store_conn \<Rightarrow> int \<times> int \<times> store_conn" where
  "doc_retire_older_versions = RetireOlderVersionsLocked"

definition doc_publish_version :: "store_env \<Rightarrow> string \<Rightarrow> int \<Rightarrow> store_conn \<Rightarrow> int \<times> int \<times> store_conn" where
  "doc_publish_version env doc now s =
     (case store_begin env s of
        None \<Rightarrow> (- 1, 0, s)
      | Some s1 \<Rightarrow>
          (case UpdateStatusLocked env doc ds_kReady '''' s1 of (urc, s2) \<Rightarrow>
             if urc \<noteq> 0 then (urc, 0, store_rollback s2)
             else (case RetireOlderVersionsLocked env doc now s2 of (rrc, n, s3) \<Rightarrow>
               if rrc \<noteq> 0 then (- 1, 0, store_rollback s3)
               else (case store_commit env s3 of None \<Rightarrow> (- 1, 0, store_rollback s3) | Some s4 \<Rightarrow> (0, n, s4)))))"

definition withdrawable :: "string \<Rightarrow> doc_row list \<Rightarrow> doc_row \<Rightarrow> bool" where
  "withdrawable doc docs d \<longleftrightarrow> dr_doc_id d = doc \<and> dr_status d \<noteq> ''deleted'' \<and> dr_status d \<noteq> ''ready'' \<and>
     versioned (dr_source_type d) \<and>
     (\<exists>v \<in> set docs. same_source v d \<and> dr_doc_id v \<noteq> dr_doc_id d \<and> live_doc v \<and> older v d)"

definition doc_withdraw_version :: "store_env \<Rightarrow> string \<Rightarrow> int \<Rightarrow> string \<Rightarrow> store_conn \<Rightarrow> int \<times> store_conn" where
  "doc_withdraw_version env doc now msg s =
     (if sc_txn s \<noteq> None then (- 1, s)
      else let (probe, s1) = DeletedFromStatusColumnLocked env s;
               (n, s2) = update_docs env DWithdraw (withdrawable doc (ut_documents (sc_tables s1)))
                 (\<lambda>d. (bury env (probe = cp_kPresent) now d)\<lparr>dr_error_message := msg\<rparr>) s1
           in (rc_of n, s2))"

definition revive :: "store_env \<Rightarrow> bool \<Rightarrow> doc_row \<Rightarrow> doc_row" where
  "revive env marker d = d\<lparr>dr_status := ''ready'', dr_deleted_at := None,
     dr_deleted_from_status := (if marker then None else dr_deleted_from_status d), dr_updated_at := se_now env\<rparr>"

definition unsuperseded :: "string \<Rightarrow> doc_row list \<Rightarrow> doc_row \<Rightarrow> bool" where
  "unsuperseded doc docs d \<longleftrightarrow> dr_doc_id d = doc \<and> dr_status d = ''deleted'' \<and>
     \<not> (\<exists>v \<in> set docs. same_source v d \<and> dr_doc_id v \<noteq> dr_doc_id d \<and> live_doc v)"

definition doc_restore_unless_superseded :: "store_env \<Rightarrow> string \<Rightarrow> store_conn \<Rightarrow> int \<times> store_conn" where
  "doc_restore_unless_superseded env doc s =
     (let (probe, s1) = DeletedFromStatusColumnLocked env s;
          (n, s2) = update_docs env DRestoreIf (unsuperseded doc (ut_documents (sc_tables s1))) (revive env (probe = cp_kPresent)) s1
      in (rc_of n, s2))"

definition doc_restore :: "store_env \<Rightarrow> string \<Rightarrow> store_conn \<Rightarrow> int \<times> store_conn" where
  "doc_restore env doc s =
     (let (probe, s1) = DeletedFromStatusColumnLocked env s;
          (n, s2) = update_docs env DRestore (\<lambda>d. dr_doc_id d = doc \<and> dr_status d = ''deleted'') (revive env (probe = cp_kPresent)) s1
      in (rc_of n, s2))"

definition doc_soft_delete :: "store_env \<Rightarrow> string \<Rightarrow> int \<Rightarrow> store_conn \<Rightarrow> int \<times> store_conn" where
  "doc_soft_delete env doc now s =
     (let (probe, s1) = DeletedFromStatusColumnLocked env s;
          (n, s2) = update_docs env DSoftDelete (\<lambda>d. dr_doc_id d = doc)
            (\<lambda>d. bury env (probe = cp_kPresent \<and> live_doc d) now d) s1
      in (rc_of n, s2))"

definition doc_by_id :: "string \<Rightarrow> unit_tables \<Rightarrow> doc_row option" where
  "doc_by_id doc t = find (\<lambda>d. dr_doc_id d = doc) (ut_documents t)"

definition doc_get_deleted_from_status :: "store_env \<Rightarrow> string \<Rightarrow> store_conn \<Rightarrow> int \<times> string option \<times> store_conn" where
  "doc_get_deleted_from_status env doc s = (case DeletedFromStatusColumnLocked env s of
     (cp_kUnknown, s1) \<Rightarrow> (- 1, None, s1)
   | (cp_kAbsent, s1) \<Rightarrow> (0, None, s1)
   | (cp_kPresent, s1) \<Rightarrow>
       if se_sql env DGetFrom \<noteq> SqlOk then (- 1, None, s1)
       else (case doc_by_id doc (sc_tables s1) of None \<Rightarrow> (- 2, None, s1) | Some d \<Rightarrow> (0, dr_deleted_from_status d, s1)))"

definition doc_get_deleted_at :: "store_env \<Rightarrow> string \<Rightarrow> store_conn \<Rightarrow> int \<times> int option" where
  "doc_get_deleted_at env doc s =
     (if se_sql env DGetDeletedAt \<noteq> SqlOk then (- 1, None)
      else (case doc_by_id doc (sc_tables s) of None \<Rightarrow> (- 2, None) | Some d \<Rightarrow> (0, dr_deleted_at d)))"

section \<open>Document rows\<close>

definition row_of_doc :: "string \<Rightarrow> CortrixDoc \<Rightarrow> doc_row" where
  "row_of_doc now d = \<lparr>dr_doc_id = cd_doc_id d, dr_source_type = cd_source_type d, dr_source_path = cd_source_path d,
     dr_source_ref = cd_source_ref d, dr_content_hash = cd_content_hash d, dr_file_size = cd_file_size d,
     dr_mime_type = cd_mime_type d, dr_status = DocStatusStr (cd_status d), dr_error_message = cd_error_message d,
     dr_processing_level = cd_processing_level d, dr_block_count = cd_block_count d, dr_chunk_strategy = cd_chunk_strategy d,
     dr_created_at = now, dr_updated_at = now, dr_processed_at = text_or_null_col (cd_processed_at d),
     dr_cdc_schema = text_or_null_col (cd_cdc_schema d), dr_cdc_position = text_or_null_col (cd_cdc_position d),
     dr_cdc_last_sync = text_or_null_col (cd_cdc_last_sync d), dr_title = cd_title d, dr_language = cd_language d,
     dr_metadata_json = cd_metadata_json d, dr_deleted_at = None, dr_deleted_from_status = None\<rparr>"

text \<open>The document of the caller gets a minted identifier and, when they can be read back, its timestamps.\<close>

definition doc_create :: "store_env \<Rightarrow> CortrixDoc \<Rightarrow> store_conn \<Rightarrow> int \<times> CortrixDoc \<times> store_conn" where
  "doc_create env doc s =
     (let d = (if cd_doc_id doc = '''' then doc\<lparr>cd_doc_id := se_ulid env\<rparr> else doc); t = sc_tables s in
      if se_sql env DCreate \<noteq> SqlOk \<or> doc_by_id (cd_doc_id d) t \<noteq> None then (- 1, d, s)
      else (0, if se_sql env DReadBack = SqlOk then d\<lparr>cd_created_at := se_now env, cd_updated_at := se_now env\<rparr> else d,
            s\<lparr>sc_tables := t\<lparr>ut_documents := ut_documents t @ [row_of_doc (se_now env) d]\<rparr>\<rparr>))"

text \<open>A query that fails when stepped is answered like one without a row.\<close>

definition get_row :: "store_env \<Rightarrow> doc_sql \<Rightarrow> 'r option \<Rightarrow> int \<times> 'r option" where
  "get_row env q r = (case se_sql env q of
     PrepareFails \<Rightarrow> (- 1, None)
   | StepFails \<Rightarrow> (- 2, None)
   | SqlOk \<Rightarrow> (case r of None \<Rightarrow> (- 2, None) | Some x \<Rightarrow> (0, Some x)))"

definition doc_get :: "store_env \<Rightarrow> string \<Rightarrow> store_conn \<Rightarrow> int \<times> CortrixDoc option" where
  "doc_get env doc s = get_row env DGet (map_option ReadDocFromStmt (doc_by_id doc (sc_tables s)))"

definition list_docs :: "store_env \<Rightarrow> doc_sql \<Rightarrow> (doc_row \<Rightarrow> bool) \<Rightarrow> store_conn \<Rightarrow> int \<times> CortrixDoc list" where
  "list_docs env q P s =
     (if se_sql env q = PrepareFails then (- 1, [])
      else (0, map ReadDocFromStmt (delivered env q (filter P (ut_documents (sc_tables s))))))"

definition doc_list_deleted_before :: "store_env \<Rightarrow> int \<Rightarrow> store_conn \<Rightarrow> int \<times> CortrixDoc list" where
  "doc_list_deleted_before env cutoff = list_docs env DListDeleted
     (\<lambda>d. dr_status d = ''deleted'' \<and> (case dr_deleted_at d of None \<Rightarrow> False | Some t \<Rightarrow> t \<le> cutoff))"

definition doc_list_by_status :: "store_env \<Rightarrow> DocStatus \<Rightarrow> store_conn \<Rightarrow> int \<times> CortrixDoc list" where
  "doc_list_by_status env st = list_docs env DListStatus (\<lambda>d. dr_status d = DocStatusStr st)"

fun newest_doc :: "doc_row list \<Rightarrow> doc_row option" where
  "newest_doc [] = None"
| "newest_doc (r # rs) = (case newest_doc rs of None \<Rightarrow> Some r | Some v \<Rightarrow> if older v r then Some r else Some v)"

definition doc_find_by_source :: "store_env \<Rightarrow> string \<Rightarrow> string \<Rightarrow> store_conn \<Rightarrow> int \<times> CortrixDoc option" where
  "doc_find_by_source env ty path s = get_row env DFindSource (map_option ReadDocFromStmt
     (newest_doc (filter (\<lambda>d. dr_source_type d = ty \<and> dr_source_path d = path \<and> live_doc d) (ut_documents (sc_tables s)))))"

definition doc_find_by_hash :: "store_env \<Rightarrow> string \<Rightarrow> store_conn \<Rightarrow> int \<times> CortrixDoc option" where
  "doc_find_by_hash env h s = (if h = '''' then (- 2, None)
     else get_row env DFindHash (map_option ReadDocFromStmt (find (\<lambda>d. dr_content_hash d = h) (ut_documents (sc_tables s)))))"

definition count_rows :: "store_env \<Rightarrow> doc_sql \<Rightarrow> 'r list \<Rightarrow> int \<times> int option" where
  "count_rows env q rows = (if se_sql env q = SqlOk then (0, Some (int (length rows))) else (- 1, None))"

definition doc_count :: "store_env \<Rightarrow> store_conn \<Rightarrow> int \<times> int option" where
  "doc_count env s = count_rows env DCountDocs (ut_documents (sc_tables s))"

section \<open>Hard deletion\<close>

definition drop_blocks_of :: "(string \<Rightarrow> bool) \<Rightarrow> unit_tables \<Rightarrow> unit_tables" where
  "drop_blocks_of P t = t\<lparr>ut_blocks := filter (\<lambda>b. \<not> P (br_doc_id b)) (ut_blocks t)\<rparr>"

definition drop_docs :: "(doc_row \<Rightarrow> bool) \<Rightarrow> unit_tables \<Rightarrow> unit_tables" where
  "drop_docs P t = t\<lparr>ut_documents := filter (\<lambda>d. \<not> P d) (ut_documents t)\<rparr>"

text \<open>With foreign keys on, a document whose blocks are still there cannot be deleted.\<close>

definition doc_referenced :: "(doc_row \<Rightarrow> bool) \<Rightarrow> store_conn \<Rightarrow> bool" where
  "doc_referenced P s \<longleftrightarrow> sc_foreign_keys s \<and>
     (\<exists>d \<in> set (ut_documents (sc_tables s)). P d \<and> (\<exists>b \<in> set (ut_blocks (sc_tables s)). br_doc_id b = dr_doc_id d))"

definition doc_delete :: "store_env \<Rightarrow> string \<Rightarrow> store_conn \<Rightarrow> int \<times> store_conn" where
  "doc_delete env doc s =
     (case store_begin env s of
        None \<Rightarrow> (- 1, s)
      | Some s1 \<Rightarrow>
          if se_sql env DDelBlocks \<noteq> SqlOk then (- 1, store_rollback s1)
          else let s2 = set_tables (drop_blocks_of (\<lambda>i. i = doc) (sc_tables s1)) s1 in
            if se_sql env DDelDoc \<noteq> SqlOk \<or> doc_referenced (\<lambda>d. dr_doc_id d = doc) s2 then (- 1, store_rollback s2)
            else let n = changes (\<lambda>d. dr_doc_id d = doc) (ut_documents (sc_tables s2));
                     s3 = set_tables (drop_docs (\<lambda>d. dr_doc_id d = doc) (sc_tables s2)) s2
                 in (case store_commit env s3 of
                       None \<Rightarrow> (- 1, store_rollback s3)
                     | Some s4 \<Rightarrow> (if n = 0 then - 2 else 0, s4)))"

text \<open>
  \<open>LIKE\<close> with the escape character backslash: percent stands for any text, underscore for one character, and letters of
  ASCII are compared without case, which is the default of SQLite and which no pragma of the sources changes.
\<close>

definition ascii_lower :: "char \<Rightarrow> char" where
  "ascii_lower c = (if CHR ''A'' \<le> c \<and> c \<le> CHR ''Z'' then char_of (of_char c + 32 :: nat) else c)"

fun like :: "string \<Rightarrow> string \<Rightarrow> bool" where
  "like [] t \<longleftrightarrow> t = []"
| "like (p # ps) t \<longleftrightarrow>
     (if p = CHR ''%'' then like ps t \<or> (case t of [] \<Rightarrow> False | c # cs \<Rightarrow> like (p # ps) cs)
      else if p = CHR ''_'' then (case t of [] \<Rightarrow> False | c # cs \<Rightarrow> like ps cs)
      else if p = CHR 0x5C then (case ps of [] \<Rightarrow> False
        | q # qs \<Rightarrow> (case t of [] \<Rightarrow> False | c # cs \<Rightarrow> ascii_lower q = ascii_lower c \<and> like qs cs))
      else (case t of [] \<Rightarrow> False | c # cs \<Rightarrow> ascii_lower p = ascii_lower c \<and> like ps cs))"

declare like.simps(2) [simp del]

definition like_escape :: "string \<Rightarrow> string" where
  "like_escape p = concat (map (\<lambda>c. if c = CHR ''%'' \<or> c = CHR ''_'' \<or> c = CHR 0x5C then [CHR 0x5C, c] else [c]) p)"

text \<open>
  Every statement that can be prepared counts as done, whatever its step returned; a failed commit is reported without a
  rollback.
\<close>

definition under_prefix :: "string \<Rightarrow> doc_row \<Rightarrow> bool" where
  "under_prefix pre d \<longleftrightarrow> like (like_escape pre @ ''%'') (dr_source_path d)"

definition docs_under :: "string \<Rightarrow> unit_tables \<Rightarrow> string \<Rightarrow> bool" where
  "docs_under pre t i \<longleftrightarrow> (\<exists>d \<in> set (ut_documents t). under_prefix pre d \<and> dr_doc_id d = i)"

definition doc_delete_by_source_prefix :: "store_env \<Rightarrow> string \<Rightarrow> store_conn \<Rightarrow> int \<times> int \<times> store_conn" where
  "doc_delete_by_source_prefix env pre s =
     (if pre = '''' then (0, 0, s)
      else (case store_begin env s of
          None \<Rightarrow> (- 1, 0, s)
        | Some s1 \<Rightarrow>
            if se_sql env DCountPrefix = PrepareFails \<or> se_sql env DDelBlocksPrefix = PrepareFails \<or>
               se_sql env DDelDocsPrefix = PrepareFails
            then (- 1, 0, store_rollback s1)
            else let hit = docs_under pre (sc_tables s1);
                     n = (if se_sql env DCountPrefix = SqlOk
                          then length (filter (\<lambda>b. hit (br_doc_id b)) (ut_blocks (sc_tables s1))) else 0);
                     s2 = (if se_sql env DDelBlocksPrefix = SqlOk then set_tables (drop_blocks_of hit (sc_tables s1)) s1 else s1);
                     s3 = (if se_sql env DDelDocsPrefix = SqlOk \<and> \<not> doc_referenced (under_prefix pre) s2
                           then set_tables (drop_docs (under_prefix pre) (sc_tables s2)) s2 else s2)
                 in (case store_commit env s3 of None \<Rightarrow> (- 1, 0, s3) | Some s4 \<Rightarrow> (0, int n, s4))))"

section \<open>Block and parent rows\<close>

definition row_of_block :: "CortrixBlock \<Rightarrow> block_row" where
  "row_of_block b = \<lparr>br_block_id = bk_block_id b, br_doc_id = bk_doc_id b, br_chunk_index = bk_chunk_index b,
     br_block_type = bk_block_type b, br_processing_level = bk_processing_level b,
     br_hnsw_node_id = nonneg_or_null (bk_hnsw_node_id b), br_content_hash = text_or_null_col (bk_content_hash b),
     br_data = bk_data b, br_content_text = text_or_null_col (bk_content_text b), br_child_id = text_or_null_col (bk_child_id b),
     br_parent_id = text_or_null_col (bk_parent_id b), br_token_count = nonneg_or_null (bk_token_count b),
     br_parent_offset = nonneg_or_null (bk_parent_offset b), br_metadata_json = text_or_null_col (bk_metadata_json b)\<rparr>"

text \<open>
  The constraints of the table: the primary key, the child identifiers, one metadata block (type 8) per document, data that is
  not \<open>NULL\<close> and, with foreign keys on, an existing document.
\<close>

definition block_fits :: "store_env \<Rightarrow> block_row \<Rightarrow> store_conn \<Rightarrow> bool" where
  "block_fits env r s \<longleftrightarrow>
     (\<forall>b \<in> set (ut_blocks (sc_tables s)). br_block_id b \<noteq> br_block_id r \<and>
        \<not> (br_child_id r \<noteq> None \<and> br_child_id b = br_child_id r) \<and>
        \<not> (br_block_type r = 8 \<and> br_block_type b = 8 \<and> br_doc_id b = br_doc_id r)) \<and>
     \<not> (br_data r = [] \<and> se_null_data env) \<and> (sc_foreign_keys s \<longrightarrow> doc_by_id (br_doc_id r) (sc_tables s) \<noteq> None)"

definition block_insert :: "store_env \<Rightarrow> CortrixBlock \<Rightarrow> store_conn \<Rightarrow> int \<times> CortrixBlock \<times> store_conn" where
  "block_insert env b s =
     (let b' = (if bk_block_id b = 0 then b\<lparr>bk_block_id := se_rowid env\<rparr> else b); t = sc_tables s in
      if se_sql env DBlockInsert \<noteq> SqlOk \<or> \<not> block_fits env (row_of_block b') s then (- 1, b, s)
      else (0, b', s\<lparr>sc_tables := t\<lparr>ut_blocks := ut_blocks t @ [row_of_block b']\<rparr>\<rparr>))"

definition block_get :: "store_env \<Rightarrow> u64 \<Rightarrow> CortrixBlock \<Rightarrow> store_conn \<Rightarrow> int \<times> CortrixBlock" where
  "block_get env i b s = (case get_row env DBlockGet (find (\<lambda>r. br_block_id r = i) (ut_blocks (sc_tables s))) of
     (rc, None) \<Rightarrow> (rc, b)
   | (rc, Some r) \<Rightarrow> (rc, read_block r b))"

definition block_get_by_doc :: "store_env \<Rightarrow> string \<Rightarrow> store_conn \<Rightarrow> int \<times> CortrixBlock list" where
  "block_get_by_doc env doc s =
     (if se_sql env DBlockByDoc = PrepareFails then (- 1, [])
      else (0, map (\<lambda>r. read_block r CortrixBlock_default) (delivered env DBlockByDoc
              (sort_key br_chunk_index (filter (\<lambda>r. br_doc_id r = doc) (ut_blocks (sc_tables s)))))))"

definition block_delete_by_doc :: "store_env \<Rightarrow> string \<Rightarrow> store_conn \<Rightarrow> int \<times> store_conn" where
  "block_delete_by_doc env doc s =
     (if se_sql env DBlockDelete \<noteq> SqlOk then (- 1, s) else (0, set_tables (drop_blocks_of (\<lambda>i. i = doc) (sc_tables s)) s))"

definition block_count :: "store_env \<Rightarrow> store_conn \<Rightarrow> int \<times> int option" where
  "block_count env s = count_rows env DBlockCount (ut_blocks (sc_tables s))"

definition block_count_by_doc :: "store_env \<Rightarrow> string \<Rightarrow> store_conn \<Rightarrow> int \<times> int option" where
  "block_count_by_doc env doc s = count_rows env DBlockCountDoc (filter (\<lambda>r. br_doc_id r = doc) (ut_blocks (sc_tables s)))"

definition child_block_count_by_doc :: "store_env \<Rightarrow> string \<Rightarrow> store_conn \<Rightarrow> int \<times> int option" where
  "child_block_count_by_doc env doc s = count_rows env DChildCount
     (filter (\<lambda>r. br_doc_id r = doc \<and> br_child_id r \<noteq> None \<and> br_child_id r \<noteq> Some '''') (ut_blocks (sc_tables s)))"

definition parent_insert :: "store_env \<Rightarrow> CortrixParent \<Rightarrow> store_conn \<Rightarrow> int \<times> store_conn" where
  "parent_insert env p s =
     (let t = sc_tables s in
      if se_sql env DParentInsert \<noteq> SqlOk then (- 1, s)
      else if \<exists>q \<in> set (ut_parents t). pa_parent_id q = pa_parent_id p then (- 3, s)
      else (0, s\<lparr>sc_tables := t\<lparr>ut_parents := ut_parents t @ [p]\<rparr>\<rparr>))"

definition parent_get :: "store_env \<Rightarrow> string \<Rightarrow> store_conn \<Rightarrow> int \<times> CortrixParent option" where
  "parent_get env i s = get_row env DParentGet (find (\<lambda>p. pa_parent_id p = i) (ut_parents (sc_tables s)))"

section \<open>Crash recovery of documents\<close>

text \<open>Every deletion of a document's blocks is its own statement, and a failed one is passed over.\<close>

definition drop_blocks_stmt :: "store_env \<Rightarrow> doc_sql \<Rightarrow> string \<Rightarrow> store_conn \<Rightarrow> store_conn" where
  "drop_blocks_stmt env q doc s =
     (if se_sql env q = SqlOk then set_tables (drop_blocks_of (\<lambda>i. i = doc) (sc_tables s)) s else s)"

definition drop_doc_stmt :: "store_env \<Rightarrow> doc_sql \<Rightarrow> string \<Rightarrow> store_conn \<Rightarrow> store_conn" where
  "drop_doc_stmt env q doc s =
     (if se_sql env q = SqlOk \<and> \<not> doc_referenced (\<lambda>d. dr_doc_id d = doc) s
      then set_tables (drop_docs (\<lambda>d. dr_doc_id d = doc) (sc_tables s)) s else s)"

definition docs_in :: "string \<Rightarrow> unit_tables \<Rightarrow> string list" where
  "docs_in st t = map dr_doc_id (filter (\<lambda>d. dr_status d = st) (ut_documents t))"

definition RecoverCrashedDocs :: "store_env \<Rightarrow> store_conn \<Rightarrow> int \<times> store_conn" where
  "RecoverCrashedDocs env s =
     (if se_sql env DFindProcessing = PrepareFails then (- 1, s)
      else let processing = delivered env DFindProcessing (docs_in ''processing'' (sc_tables s));
               s1 = fold (\<lambda>i. drop_blocks_stmt env (DDropBlocks i) i) processing s;
               s2 = (if processing = [] then s1
                     else snd (update_docs env DReset (\<lambda>d. dr_status d = ''processing'')
                                 (\<lambda>d. d\<lparr>dr_status := ''pending'', dr_updated_at := se_now env\<rparr>) s1))
           in if se_sql env DFindDeleting = PrepareFails then (- 1, s2)
              else let deleting = delivered env DFindDeleting (docs_in ''deleting'' (sc_tables s2))
                   in (0, fold (\<lambda>i s. drop_doc_stmt env (DDropDocument i) i (drop_blocks_stmt env (DDropDeleting i) i s)) deleting s2))"

section \<open>Visibility and search\<close>

definition HiddenDocPredicate :: "doc_row list \<Rightarrow> doc_row \<Rightarrow> bool" where
  "HiddenDocPredicate docs d \<longleftrightarrow> dr_status d = ''deleted'' \<or>
     (versioned (dr_source_type d) \<and> dr_status d \<noteq> ''ready'' \<and>
      (\<exists>v \<in> set docs. same_source v d \<and> dr_doc_id v \<noteq> dr_doc_id d \<and> live_doc v \<and> (dr_status v = ''ready'' \<or> older v d)))"

definition kMaxIdsPerStatement :: nat where
  "kMaxIdsPerStatement = 500"

text \<open>The distinct identifiers that are not empty, in the order of their first occurrence.\<close>

definition distinct_ids :: "string list \<Rightarrow> string list" where
  "distinct_ids ids = rev (remdups (rev (filter (\<lambda>i. i \<noteq> '''') ids)))"

function hidden_chunks :: "store_env \<Rightarrow> doc_row list \<Rightarrow> nat \<Rightarrow> string list \<Rightarrow> string list \<Rightarrow> Status + string list" where
  "hidden_chunks env docs i ids acc =
     (if ids = [] then Inr acc
      else (case se_sql env (DHidden i) of
        PrepareFails \<Rightarrow> Inl (StatusOf kInternal ''LoadHiddenDocIds prepare'')
      | StepFails \<Rightarrow> Inl (StatusOf kInternal ''LoadHiddenDocIds step'')
      | SqlOk \<Rightarrow> hidden_chunks env docs (Suc i) (drop kMaxIdsPerStatement ids)
          (acc @ map dr_doc_id (filter (\<lambda>d. dr_doc_id d \<in> set (take kMaxIdsPerStatement ids) \<and> HiddenDocPredicate docs d) docs))))"
  by pat_completeness auto
termination
  by (relation "measure (\<lambda>(env, docs, i, ids, acc). length ids)") (auto simp: kMaxIdsPerStatement_def)

declare hidden_chunks.simps [simp del]

definition LoadHiddenDocIds :: "store_env \<Rightarrow> store_conn \<Rightarrow> string list \<Rightarrow> Status + string list" where
  "LoadHiddenDocIds env s ids = hidden_chunks env (ut_documents (sc_tables s)) 0 (distinct_ids ids) []"

record SearchResult =
  se_block_id :: u64
  se_doc_id :: string
  se_score :: int
  se_content_text :: string

definition fts_space :: "char \<Rightarrow> bool" where
  "fts_space c \<longleftrightarrow> c = CHR '' '' \<or> c = CHR 0x09 \<or> c = CHR 0x0A \<or> c = CHR 0x0D"

fun fts_words :: "string \<Rightarrow> string \<Rightarrow> string list" where
  "fts_words w [] = (if w = [] then [] else [w])"
| "fts_words w (c # cs) = (if fts_space c then (if w = [] then fts_words [] cs else w # fts_words [] cs) else fts_words (w @ [c]) cs)"

definition fts_content :: "char \<Rightarrow> bool" where
  "fts_content c \<longleftrightarrow> (CHR ''0'' \<le> c \<and> c \<le> CHR ''9'') \<or> (CHR ''A'' \<le> c \<and> c \<le> CHR ''Z'') \<or> (CHR ''a'' \<le> c \<and> c \<le> CHR ''z'') \<or>
     (of_char c :: nat) > 127"

definition fts_quote :: "string \<Rightarrow> string" where
  "fts_quote w = CHR 0x22 # concat (map (\<lambda>c. if c = CHR 0x22 then [CHR 0x22, c] else [c]) w) @ [CHR 0x22]"

fun fts_join :: "string list \<Rightarrow> string" where
  "fts_join [] = []"
| "fts_join [w] = fts_quote w"
| "fts_join (w # v # ws) = fts_quote w @ '' OR '' @ fts_join (v # ws)"

definition SanitizeFts5Query :: "string \<Rightarrow> string" where
  "SanitizeFts5Query q = fts_join (filter (list_ex fts_content) (fts_words [] q))"

text \<open>\<open>rank\<close> is what the index answers for a query: the score of a text that matches.\<close>

definition found_block :: "(string \<Rightarrow> string \<Rightarrow> int option) \<Rightarrow> string \<Rightarrow> unit_tables \<Rightarrow> block_row \<Rightarrow> SearchResult option" where
  "found_block rank q t b = (case br_content_text b of
     None \<Rightarrow> None
   | Some txt' \<Rightarrow> (case doc_by_id (br_doc_id b) t of
       None \<Rightarrow> None
     | Some d \<Rightarrow> if HiddenDocPredicate (ut_documents t) d then None
         else map_option (\<lambda>r. \<lparr>se_block_id = br_block_id b, se_doc_id = br_doc_id b, se_score = r, se_content_text = txt'\<rparr>)
                (rank q txt')))"

definition search_fulltext :: "store_env \<Rightarrow> (string \<Rightarrow> string \<Rightarrow> int option) \<Rightarrow> string \<Rightarrow> int \<Rightarrow> store_conn \<Rightarrow> int \<times> SearchResult list" where
  "search_fulltext env rank query top_k s =
     (let q = SanitizeFts5Query query; rows = sort_key se_score (List.map_filter (found_block rank q (sc_tables s)) (ut_blocks (sc_tables s)))
      in if q = '''' then (0, [])
         else if se_sql env DSearch = PrepareFails then (- 1, [])
         else (0, delivered env DSearch (if top_k < 0 then rows else take (nat top_k) rows)))"

end
