(* ===== verification/Document_Versions.thy ===== *)
theory Document_Versions
  imports Document_Store "HOL-Library.Product_Lexorder"
begin

text \<open>
  The life of a document version.  Every upload or change of a watched file is a new row of the same source; the row that is
  published retires the older ones, and retrieval shows what \<open>HiddenDocPredicate\<close> does not hide.  \<open>store_step\<close> is one call of the
  store with any outcome of its statements, as the sources call it; the invariant \<open>version_inv\<close> is kept by every step and gives
  that a source with a live version is served by exactly one.
\<close>

section \<open>Order of versions\<close>

definition age :: "doc_row \<Rightarrow> string \<times> string" where
  "age d = (dr_created_at d, dr_doc_id d)"

lemma older_age: "older d k \<longleftrightarrow> age d < age k"
  by (auto simp: older_def age_def less_prod_def' less_le)

lemma older_irrefl: "\<not> older d d"
  by (simp add: older_age)

lemma older_asym: "older d k \<Longrightarrow> \<not> older k d"
  by (simp add: older_age)

lemma older_total: "dr_doc_id d \<noteq> dr_doc_id k \<Longrightarrow> older d k \<or> older k d"
  by (auto simp: older_age age_def less_prod_def' not_le)

lemma exists_oldest:
  assumes "d \<in> set docs" "P d"
  shows "\<exists>v \<in> set docs. P v \<and> (\<forall>u \<in> set docs. P u \<longrightarrow> \<not> older u v)"
proof -
  let ?S = "{v \<in> set docs. P v}"
  have "finite ?S" "?S \<noteq> {}" using assms by auto
  from arg_min_if_finite[OF this, of age] show ?thesis by (auto simp: older_age intro!: bexI[of _ "arg_min_on age ?S"])
qed

section \<open>The invariant\<close>

definition version_inv :: "doc_row list \<Rightarrow> bool" where
  "version_inv docs \<longleftrightarrow> distinct (map dr_doc_id docs) \<and>
     (\<forall>k \<in> set docs. \<forall>d \<in> set docs. versioned (dr_source_type k) \<and> dr_status k = ''ready'' \<and> same_source d k \<and> older d k \<longrightarrow>
        \<not> live_doc d)"

definition keeps_identity :: "(doc_row \<Rightarrow> doc_row) \<Rightarrow> bool" where
  "keeps_identity f \<longleftrightarrow> (\<forall>d. dr_doc_id (f d) = dr_doc_id d \<and> dr_source_type (f d) = dr_source_type d \<and>
     dr_source_path (f d) = dr_source_path d \<and> dr_created_at (f d) = dr_created_at d)"

lemma keeps_identity_simps:
  assumes "keeps_identity f"
  shows "dr_doc_id (f d) = dr_doc_id d" "dr_source_type (f d) = dr_source_type d" "same_source (f d) (f k) = same_source d k"
    "older (f d) (f k) = older d k"
  using assms by (auto simp: keeps_identity_def same_source_def older_def)

lemma version_inv_mapI:
  assumes "distinct (map dr_doc_id docs)" "keeps_identity f"
    and "\<And>k d. k \<in> set docs \<Longrightarrow> d \<in> set docs \<Longrightarrow> versioned (dr_source_type k) \<Longrightarrow> dr_status (f k) = ''ready'' \<Longrightarrow>
      same_source d k \<Longrightarrow> older d k \<Longrightarrow> \<not> live_doc (f d)"
  shows "version_inv (map f docs)"
proof -
  note ki = keeps_identity_simps[OF assms(2)]
  have ids: "map dr_doc_id (map f docs) = map dr_doc_id docs" by (simp add: ki)
  have "\<not> live_doc (f d)"
    if "k \<in> set docs" "d \<in> set docs" "versioned (dr_source_type (f k)) \<and> dr_status (f k) = ''ready'' \<and> same_source (f d) (f k) \<and>
      older (f d) (f k)" for d k
    using that assms(3) unfolding ki by blast
  then show ?thesis using assms(1) unfolding version_inv_def ids set_map by blast
qed

lemma version_inv_map:
  assumes "version_inv docs" "keeps_identity f"
    and "\<And>d. d \<in> set docs \<Longrightarrow> live_doc (f d) \<Longrightarrow> live_doc d"
    and "\<And>d. d \<in> set docs \<Longrightarrow> dr_status (f d) = ''ready'' \<Longrightarrow> dr_status d = ''ready''"
  shows "version_inv (map f docs)"
proof (rule version_inv_mapI[OF _ assms(2)])
  show "distinct (map dr_doc_id docs)" using assms(1) by (simp add: version_inv_def)
qed (use assms(1,3,4) in \<open>unfold version_inv_def, blast\<close>)

lemma version_inv_filter: "version_inv docs \<Longrightarrow> version_inv (filter P docs)"
  by (auto simp: version_inv_def distinct_map inj_on_def)

lemma version_inv_snoc:
  assumes "version_inv docs" "dr_doc_id r \<notin> dr_doc_id ` set docs" "versioned (dr_source_type r) \<Longrightarrow> dr_status r \<noteq> ''ready''"
    and "\<And>k. k \<in> set docs \<Longrightarrow> versioned (dr_source_type k) \<Longrightarrow> same_source r k \<Longrightarrow> \<not> older r k"
  shows "version_inv (docs @ [r])"
proof -
  have "\<not> live_doc d" if "k \<in> set docs \<or> k = r" "d \<in> set docs \<or> d = r" "versioned (dr_source_type k)" "dr_status k = ''ready''"
    "same_source d k" "older d k" for d k
  proof -
    have "k \<in> set docs" using that(1,3,4) assms(3) by blast
    moreover have "d \<in> set docs" using that \<open>k \<in> set docs\<close> assms(4) by blast
    ultimately show ?thesis using assms(1) that unfolding version_inv_def by blast
  qed
  then show ?thesis using assms(1,2) unfolding version_inv_def by simp blast
qed

lemma version_inv_update:
  assumes "version_inv docs" "keeps_identity f"
    and "\<And>d. P d \<Longrightarrow> live_doc (f d) \<Longrightarrow> live_doc d" "\<And>d. P d \<Longrightarrow> dr_status (f d) = ''ready'' \<Longrightarrow> dr_status d = ''ready''"
  shows "version_inv (update_rows P f docs)"
  unfolding update_rows_def
  by (rule version_inv_map[OF assms(1)]) (use assms(2-4) in \<open>auto simp: keeps_identity_def split: if_splits\<close>)

lemma identity_bury [simp]: "keeps_identity (bury env m now)"
  by (simp add: keeps_identity_def bury_def)

lemma bury_dead [simp]: "\<not> live_doc (bury env m now d)" "dr_status (bury env m now d) = ''deleted''"
  by (simp_all add: live_doc_def bury_def)

section \<open>What an operation does to the documents\<close>

abbreviation docs_of :: "store_conn \<Rightarrow> doc_row list" where
  "docs_of s \<equiv> ut_documents (sc_tables s)"

lemma probe_keeps:
  "DeletedFromStatusColumnLocked env s = (p, s') \<Longrightarrow> sc_tables s' = sc_tables s \<and> sc_txn s' = sc_txn s \<and> sc_foreign_keys s' = sc_foreign_keys s"
  by (auto simp: DeletedFromStatusColumnLocked_def split: option.splits if_splits)

lemma update_docs_cases:
  assumes "update_docs env q P f s = (n, s')"
  shows "sc_txn s' = sc_txn s \<and> (n = None \<and> sc_tables s' = sc_tables s \<or>
    n = Some (changes P (docs_of s)) \<and> sc_tables s' = (sc_tables s)\<lparr>ut_documents := update_rows P f (docs_of s)\<rparr>)"
  using assms by (auto simp: update_docs_def split: if_splits)

lemma unit_tables_docs_id [simp]: "t\<lparr>ut_documents := ut_documents t\<rparr> = t"
  by simp

lemma unit_tables_eq_docs: "ut_documents t = ds \<Longrightarrow> t\<lparr>ut_documents := ds\<rparr> = t"
  by simp

lemma rc_of_0: "rc_of n = 0 \<longleftrightarrow> (\<exists>k. n = Some k \<and> k \<noteq> 0)"
  by (auto simp: rc_of_def split: option.splits)

lemma rc_of_neq_0:
  assumes "update_docs env q P f s = (n, s')" "rc_of n \<noteq> 0"
  shows "sc_tables s' = sc_tables s"
proof -
  consider "n = None" | "n = Some 0" using assms(2) by (auto simp: rc_of_def split: option.splits if_splits)
  then show ?thesis
  proof cases
    case 2
    then have "changes P (docs_of s) = 0" using update_docs_cases[OF assms(1)] by auto
    then have "update_rows P f (docs_of s) = docs_of s" by (intro update_rows_id) (simp add: changes_0_iff)
    then show ?thesis using update_docs_cases[OF assms(1)] by auto
  qed (use update_docs_cases[OF assms(1)] in auto)
qed

lemma UpdateStatusLocked_cases:
  assumes "UpdateStatusLocked env doc st msg s = (rc, s')"
  shows "sc_txn s' = sc_txn s \<and>
    (rc \<noteq> 0 \<longrightarrow> sc_tables s' = sc_tables s) \<and>
    (rc = 0 \<longrightarrow> (\<exists>d \<in> set (docs_of s). dr_doc_id d = doc \<and> live_doc d) \<and>
      sc_tables s' = (sc_tables s)\<lparr>ut_documents := update_rows (\<lambda>d. dr_doc_id d = doc \<and> live_doc d)
        (\<lambda>d. d\<lparr>dr_status := DocStatusStr st, dr_error_message := msg, dr_updated_at := se_now env\<rparr>) (docs_of s)\<rparr>)"
proof -
  let ?P = "\<lambda>d. dr_doc_id d = doc \<and> live_doc d"
  let ?f = "\<lambda>d. d\<lparr>dr_status := DocStatusStr st, dr_error_message := msg, dr_updated_at := se_now env\<rparr>"
  obtain n where u: "update_docs env DUpdateStatus ?P ?f s = (n, s')" "rc = rc_of n"
    using assms by (auto simp: UpdateStatusLocked_def Let_def split: prod.splits)
  show ?thesis using update_docs_cases[OF u(1)] rc_of_neq_0[OF u(1)] u(2) by (auto simp: rc_of_0 changes_pos_iff)
qed

lemma RetireOlderVersionsLocked_cases:
  assumes "RetireOlderVersionsLocked env keep now s = (rc, n, s')"
  shows "sc_txn s' = sc_txn s \<and> (rc \<noteq> 0 \<longrightarrow> sc_tables s' = sc_tables s) \<and>
    (rc = 0 \<longrightarrow> n = int (changes (retires keep (docs_of s)) (docs_of s)) \<and>
      (\<exists>m. sc_tables s' = (sc_tables s)\<lparr>ut_documents := update_rows (retires keep (docs_of s)) (bury env m now) (docs_of s)\<rparr>))"
proof -
  obtain p s1 where p: "DeletedFromStatusColumnLocked env s = (p, s1)" by fastforce
  obtain k where u: "update_docs env DRetire (retires keep (docs_of s1)) (bury env (p = cp_kPresent) now) s1 = (k, s')"
    "(rc, n) = (case k of None \<Rightarrow> (- 1, 0) | Some k \<Rightarrow> (0, int k))"
    using assms p by (auto simp: RetireOlderVersionsLocked_def Let_def split: prod.splits option.splits)
  show ?thesis using update_docs_cases[OF u(1)] u(2) probe_keeps[OF p] by (cases k) auto
qed

section \<open>Publication\<close>

text \<open>What a publication makes of the rows: the published one is ready, the older live ones of its source are buried.\<close>

definition publish_row :: "store_env \<Rightarrow> bool \<Rightarrow> int \<Rightarrow> string \<Rightarrow> doc_row list \<Rightarrow> doc_row \<Rightarrow> doc_row" where
  "publish_row env m now doc docs d =
     (if dr_doc_id d = doc then d\<lparr>dr_status := ''ready'', dr_error_message := '''', dr_updated_at := se_now env\<rparr>
      else if retires doc docs d then bury env m now d else d)"

lemma publish_rows:
  assumes "distinct (map dr_doc_id docs)" "k \<in> set docs" "dr_doc_id k = doc" "live_doc k"
    and "docs' = update_rows (\<lambda>d. dr_doc_id d = doc \<and> live_doc d)
      (\<lambda>d. d\<lparr>dr_status := ''ready'', dr_error_message := '''', dr_updated_at := se_now env\<rparr>) docs"
  shows "update_rows (retires doc docs') (bury env m now) docs' = map (publish_row env m now doc docs) docs"
proof -
  let ?g = "\<lambda>d. if dr_doc_id d = doc \<and> live_doc d then d\<lparr>dr_status := ''ready'', dr_error_message := '''', dr_updated_at := se_now env\<rparr> else d"
  have only: "d = k" if "d \<in> set docs" "dr_doc_id d = doc" for d
    using assms(1-3) that by (auto simp: distinct_map inj_on_def)
  have docs': "docs' = map ?g docs" by (simp add: assms(5) update_rows_def)
  have old: "retires doc docs d \<longleftrightarrow> versioned (dr_source_type k) \<and> same_source d k \<and> live_doc d \<and> older d k" for d
    unfolding retires_def using assms(2,3) only by blast
  define k' where "k' = ?g k"
  have only': "v = k'" if "v \<in> set docs'" "dr_doc_id v = doc" for v
  proof -
    obtain u where "u \<in> set docs" "v = ?g u" using \<open>v \<in> set docs'\<close> unfolding docs' by auto
    then show ?thesis using only[of u] \<open>dr_doc_id v = doc\<close> by (simp add: k'_def split: if_splits)
  qed
  have k': "k' \<in> set docs'" "dr_doc_id k' = doc" "dr_source_type k' = dr_source_type k"
    using assms(2,3) by (simp_all add: docs' k'_def)
  have same: "same_source d k' = same_source d k" "older d k' = older d k" for d
    by (simp_all add: k'_def same_source_def older_def)
  have "retires doc docs' d \<longleftrightarrow> versioned (dr_source_type k') \<and> same_source d k' \<and> live_doc d \<and> older d k'" for d
    unfolding retires_def using k'(1,2) only' by blast
  then have new: "retires doc docs' d \<longleftrightarrow> versioned (dr_source_type k) \<and> same_source d k \<and> live_doc d \<and> older d k" for d
    by (simp add: k'(3) same)
  have "(if retires doc docs' (?g d) then bury env m now (?g d) else ?g d) = publish_row env m now doc docs d" if "d \<in> set docs" for d
  proof (cases "dr_doc_id d = doc")
    case True
    then have [simp]: "d = k" using only that by simp
    have "\<not> older (?g k) k" using older_irrefl[of k] by (simp add: older_def)
    then show ?thesis using assms(3,4) by (auto simp: new publish_row_def)
  qed (simp add: new old publish_row_def)
  then show ?thesis by (simp add: docs' update_rows_def)
qed

lemma publish_cases:
  assumes "doc_publish_version env doc now s = (rc, n, s')" "distinct (map dr_doc_id (docs_of s))"
  shows "sc_txn s' = sc_txn s \<and> (rc \<noteq> 0 \<longrightarrow> sc_tables s' = sc_tables s) \<and>
    (rc = 0 \<longrightarrow> (\<exists>d \<in> set (docs_of s). dr_doc_id d = doc \<and> live_doc d) \<and>
      (\<exists>m. sc_tables s' = (sc_tables s)\<lparr>ut_documents := map (publish_row env m now doc (docs_of s)) (docs_of s)\<rparr>))"
proof (cases "store_begin env s")
  case None
  then show ?thesis using assms by (simp add: doc_publish_version_def)
next
  case (Some s1)
  then have s1: "s1 = s\<lparr>sc_txn := Some (sc_tables s)\<rparr>" "sc_txn s = None" by (auto simp: store_begin_def split: if_splits)
  obtain urc s2 where u: "UpdateStatusLocked env doc ds_kReady '''' s1 = (urc, s2)" by fastforce
  note uc = UpdateStatusLocked_cases[OF u]
  obtain rrc k s3 where r: "RetireOlderVersionsLocked env doc now s2 = (rrc, k, s3)" by (metis surj_pair)
  note rc = RetireOlderVersionsLocked_cases[OF r]
  have rolled: "sc_tables (store_rollback x) = sc_tables s" "sc_txn (store_rollback x) = None" if "sc_txn x = Some (sc_tables s)" for x
    using that by (simp_all add: store_rollback_def)
  show ?thesis
  proof (cases "urc = 0 \<and> rrc = 0 \<and> se_sql env DCommit = SqlOk")
    case True
    then have s': "rc = 0" "s' = s3\<lparr>sc_txn := None\<rparr>"
      using assms(1) Some u r by (auto simp: doc_publish_version_def store_commit_def)
    obtain d where d: "d \<in> set (docs_of s)" "dr_doc_id d = doc" "live_doc d" using uc True s1 by auto
    define docs2 where "docs2 = update_rows (\<lambda>d. dr_doc_id d = doc \<and> live_doc d)
      (\<lambda>d. d\<lparr>dr_status := ''ready'', dr_error_message := '''', dr_updated_at := se_now env\<rparr>) (docs_of s)"
    have t2: "sc_tables s2 = (sc_tables s)\<lparr>ut_documents := docs2\<rparr>" using uc True s1 by (simp add: docs2_def)
    obtain m where "sc_tables s3 = (sc_tables s2)\<lparr>ut_documents := update_rows (retires doc (docs_of s2)) (bury env m now) (docs_of s2)\<rparr>"
      using rc True by auto
    then have "sc_tables s3 = (sc_tables s)\<lparr>ut_documents := map (publish_row env m now doc (docs_of s)) (docs_of s)\<rparr>"
      by (simp add: t2 publish_rows[OF assms(2) d docs2_def])
    then show ?thesis using s' s1 d by auto
  next
    case False
    then have "s' = store_rollback s2 \<or> s' = store_rollback s3" "rc \<noteq> 0"
      using assms(1) Some u r by (auto simp: doc_publish_version_def store_commit_def split: if_splits)
    moreover have "sc_txn s2 = Some (sc_tables s)" "sc_txn s3 = Some (sc_tables s)" using uc rc s1 by auto
    ultimately show ?thesis using rolled s1(2) by auto
  qed
qed

section \<open>Calls of the store\<close>

text \<open>
  A new version is stamped later than the rows of its source and is not created ready; the status of a version becomes ready
  by publication only; \<open>doc_restore\<close> is used for sources that have no versions.  A connection that is closed loses its open
  transaction.
\<close>

definition comes_last :: "store_env \<Rightarrow> CortrixDoc \<Rightarrow> store_conn \<Rightarrow> bool" where
  "comes_last env d s \<longleftrightarrow> (versioned (cd_source_type d) \<longrightarrow> cd_status d \<noteq> ds_kReady \<and>
     (\<forall>r \<in> set (docs_of s). same_source r (row_of_doc (se_now env) d) \<longrightarrow> older r (row_of_doc (se_now env) d)))"

inductive store_step :: "store_conn \<Rightarrow> store_conn \<Rightarrow> bool" where
  created: "doc_create env doc s = (rc, d, s') \<Longrightarrow> comes_last env d s \<Longrightarrow> store_step s s'"
| status_written: "doc_update_status env i st msg s = (rc, s') \<Longrightarrow> st \<noteq> ds_kReady \<Longrightarrow> store_step s s'"
| published: "doc_publish_version env i now s = (rc, n, s') \<Longrightarrow> store_step s s'"
| retired: "doc_retire_older_versions env i now s = (rc, n, s') \<Longrightarrow> store_step s s'"
| withdrawn: "doc_withdraw_version env i now msg s = (rc, s') \<Longrightarrow> store_step s s'"
| soft_deleted: "doc_soft_delete env i now s = (rc, s') \<Longrightarrow> store_step s s'"
| restored_if: "doc_restore_unless_superseded env i s = (rc, s') \<Longrightarrow> store_step s s'"
| restored: "doc_restore env i s = (rc, s') \<Longrightarrow> \<forall>d \<in> set (docs_of s). dr_doc_id d = i \<longrightarrow> \<not> versioned (dr_source_type d) \<Longrightarrow> store_step s s'"
| hard_deleted: "doc_delete env i s = (rc, s') \<Longrightarrow> store_step s s'"
| prefix_cleared: "doc_delete_by_source_prefix env p s = (rc, n, s') \<Longrightarrow> store_step s s'"
| block_inserted: "block_insert env b s = (rc, b', s') \<Longrightarrow> store_step s s'"
| blocks_deleted: "block_delete_by_doc env i s = (rc, s') \<Longrightarrow> store_step s s'"
| parent_inserted: "parent_insert env p s = (rc, s') \<Longrightarrow> store_step s s'"
| recovered: "RecoverCrashedDocs env s = (rc, s') \<Longrightarrow> store_step s s'"
| reopened: "s' = (store_rollback s)\<lparr>sc_has_marker := None, sc_foreign_keys := fk\<rparr> \<Longrightarrow> store_step s s'"

definition empty_store :: "bool \<Rightarrow> bool \<Rightarrow> store_conn" where
  "empty_store marker fk = \<lparr>sc_tables = \<lparr>ut_documents = [], ut_blocks = [], ut_parents = [], ut_labels = [], ut_doc_fts = [],
     ut_marker = marker\<rparr>, sc_txn = None, sc_has_marker = None, sc_foreign_keys = fk\<rparr>"

inductive store_reach :: "store_conn \<Rightarrow> bool" where
  fresh: "store_reach (empty_store marker fk)"
| later: "store_reach s \<Longrightarrow> store_step s s' \<Longrightarrow> store_reach s'"

definition conn_inv :: "store_conn \<Rightarrow> bool" where
  "conn_inv s \<longleftrightarrow> version_inv (docs_of s) \<and> (\<forall>t. sc_txn s = Some t \<longrightarrow> version_inv (ut_documents t))"

lemma conn_inv_docs: "conn_inv s \<Longrightarrow> sc_txn s' = sc_txn s \<Longrightarrow> version_inv (docs_of s') \<Longrightarrow> conn_inv s'"
  by (simp add: conn_inv_def)

lemma conn_inv_same: "conn_inv s \<Longrightarrow> sc_txn s' = sc_txn s \<Longrightarrow> docs_of s' = docs_of s \<Longrightarrow> conn_inv s'"
  by (simp add: conn_inv_def)

lemma conn_inv_filter:
  assumes "conn_inv s" "sc_txn s' = sc_txn s \<or> sc_txn s' = None \<or> sc_txn s' = Some (sc_tables s)" "docs_of s' = filter P (docs_of s)"
  shows "conn_inv s'"
  using assms version_inv_filter by (auto simp: conn_inv_def)

lemma filter_True_docs: "filter (\<lambda>_. True) docs = docs"
  by simp

lemma update_keeps_inv:
  assumes "conn_inv s" "update_docs env q P f s0 = (n, s')" "sc_tables s0 = sc_tables s" "sc_txn s0 = sc_txn s" "keeps_identity f"
    and "\<And>d. P d \<Longrightarrow> live_doc (f d) \<Longrightarrow> live_doc d" "\<And>d. P d \<Longrightarrow> dr_status (f d) = ''ready'' \<Longrightarrow> dr_status d = ''ready''"
  shows "conn_inv s'"
proof (rule conn_inv_docs[OF assms(1)])
  show "sc_txn s' = sc_txn s" using update_docs_cases[OF assms(2)] assms(4) by simp
  have inv: "version_inv (docs_of s)" using assms(1) by (simp add: conn_inv_def)
  have "docs_of s' = docs_of s \<or> docs_of s' = update_rows P f (docs_of s)" using update_docs_cases[OF assms(2)] assms(3) by auto
  then show "version_inv (docs_of s')"
  proof
    assume "docs_of s' = update_rows P f (docs_of s)"
    then show ?thesis by (simp only:) (rule version_inv_update[OF inv assms(5-7)])
  qed (simp add: inv)
qed

section \<open>Every call keeps the invariant\<close>

lemma create_keeps:
  assumes "doc_create env doc s = (rc, d, s')" "comes_last env d s" "conn_inv s"
  shows "conn_inv s'"
proof (cases "docs_of s' = docs_of s")
  case True
  then show ?thesis using assms(1,3) conn_inv_same by (auto simp: doc_create_def Let_def split: if_splits)
next
  case False
  let ?r = "row_of_doc (se_now env) d"
  have new: "docs_of s' = docs_of s @ [?r]" "sc_txn s' = sc_txn s" "doc_by_id (cd_doc_id d) (sc_tables s) = None"
    using assms(1) False by (auto simp: doc_create_def Let_def row_of_doc_def split: if_splits)
  have sel: "dr_doc_id ?r = cd_doc_id d" "dr_source_type ?r = cd_source_type d" "dr_status ?r = DocStatusStr (cd_status d)"
    by (simp_all add: row_of_doc_def)
  have fresh: "cd_doc_id d \<notin> dr_doc_id ` set (docs_of s)" using new(3) by (auto simp: doc_by_id_def find_None_iff)
  have notready: "versioned (cd_source_type d) \<Longrightarrow> dr_status ?r \<noteq> ''ready''"
    using assms(2) by (cases "cd_status d") (auto simp: comes_last_def sel)
  have last: "\<not> older ?r k" if "k \<in> set (docs_of s)" "versioned (dr_source_type k)" "same_source ?r k" for k
  proof -
    have "same_source k ?r" "versioned (cd_source_type d)" using that(2,3) by (simp_all add: same_source_def sel)
    then have "older k ?r" using assms(2) that(1) unfolding comes_last_def by blast
    then show ?thesis by (rule older_asym)
  qed
  have "version_inv (docs_of s @ [?r])"
    using assms(3) fresh notready last by (intro version_inv_snoc) (simp_all add: conn_inv_def sel)
  then show ?thesis using conn_inv_docs[OF assms(3) new(2)] new(1) by simp
qed

lemma publish_keeps:
  assumes "doc_publish_version env i now s = (rc, n, s')" "conn_inv s"
  shows "conn_inv s'"
proof -
  have inv: "version_inv (docs_of s)" using assms(2) by (simp add: conn_inv_def)
  then have dist: "distinct (map dr_doc_id (docs_of s))" by (simp add: version_inv_def)
  note c = publish_cases[OF assms(1) dist]
  show ?thesis
  proof (cases "rc = 0")
    case True
    then obtain m where "sc_tables s' = (sc_tables s)\<lparr>ut_documents := map (publish_row env m now i (docs_of s)) (docs_of s)\<rparr>"
      using c by blast
    then have t: "docs_of s' = map (publish_row env m now i (docs_of s)) (docs_of s)" by simp
    let ?f = "publish_row env m now i (docs_of s)"
    have ki: "keeps_identity ?f" by (auto simp: keeps_identity_def publish_row_def bury_def)
    have "\<not> live_doc (?f d)"
      if a: "k \<in> set (docs_of s)" "d \<in> set (docs_of s)" "versioned (dr_source_type k)" "dr_status (?f k) = ''ready''" "same_source d k" "older d k" for d k
    proof (cases "dr_doc_id k = i")
      case True
      then have "dr_doc_id d \<noteq> i" using a dist older_irrefl by (auto simp: distinct_map inj_on_def)
      moreover have "retires i (docs_of s) d \<or> \<not> live_doc d" using a True by (auto simp: retires_def)
      ultimately show ?thesis by (auto simp: publish_row_def)
    next
      case False
      then have k: "dr_status k = ''ready''" using a(4) by (auto simp: publish_row_def bury_def split: if_splits)
      then have dead: "\<not> live_doc d" using inv a unfolding version_inv_def by blast
      have "dr_doc_id d \<noteq> i"
      proof
        assume "dr_doc_id d = i"
        moreover obtain v where "v \<in> set (docs_of s)" "dr_doc_id v = i" "live_doc v" using c \<open>rc = 0\<close> by auto
        ultimately show False using dead dist a(2) by (auto simp: distinct_map inj_on_def)
      qed
      then show ?thesis using dead by (auto simp: publish_row_def)
    qed
    then have "version_inv (docs_of s')" unfolding t by (rule version_inv_mapI[OF dist ki])
    then show ?thesis using conn_inv_docs[OF assms(2)] c by blast
  qed (use c assms(2) conn_inv_same in auto)
qed

lemma restore_if_keeps:
  assumes "doc_restore_unless_superseded env i s = (rc, s')" "conn_inv s"
  shows "conn_inv s'"
proof -
  obtain p s1 where p: "DeletedFromStatusColumnLocked env s = (p, s1)" by fastforce
  have s1: "sc_tables s1 = sc_tables s" "sc_txn s1 = sc_txn s" using probe_keeps[OF p] by auto
  let ?P = "unsuperseded i (docs_of s)"
  let ?f = "revive env (p = cp_kPresent)"
  obtain n where u: "update_docs env DRestoreIf ?P ?f s1 = (n, s')"
    using assms(1) p s1 by (auto simp: doc_restore_unless_superseded_def Let_def split: prod.splits)
  have inv: "version_inv (docs_of s)" using assms(2) by (simp add: conn_inv_def)
  then have dist: "distinct (map dr_doc_id (docs_of s))" by (simp add: version_inv_def)
  let ?g = "\<lambda>d. if ?P d then ?f d else d"
  have ki: "keeps_identity ?g" by (auto simp: keeps_identity_def revive_def)
  have "\<not> live_doc (?g d)"
    if a: "k \<in> set (docs_of s)" "d \<in> set (docs_of s)" "versioned (dr_source_type k)" "dr_status (?g k) = ''ready''" "same_source d k" "older d k" for d k
  proof -
    have neq: "dr_doc_id d \<noteq> dr_doc_id k" using a dist older_irrefl by (auto simp: distinct_map inj_on_def)
    consider "?P k" | "\<not> ?P k" by blast
    then show ?thesis
    proof cases
      case 1
      then have "\<not> live_doc d" "dr_doc_id k = i" using a(2,5) neq by (auto simp: unsuperseded_def)
      then show ?thesis using neq by (auto simp: unsuperseded_def)
    next
      case 2
      then have "dr_status k = ''ready''" using a(4) by simp
      moreover from this have "\<not> live_doc d" using inv a unfolding version_inv_def by blast
      moreover have "same_source k d" "live_doc k" using a(5) \<open>dr_status k = ''ready''\<close> by (simp_all add: same_source_def live_doc_def)
      then have "\<not> ?P d" using a(1) neq[symmetric] unfolding unsuperseded_def by blast
      ultimately show ?thesis using \<open>\<not> ?P d\<close> by simp
    qed
  qed
  then have upd: "version_inv (update_rows ?P ?f (docs_of s))"
    unfolding update_rows_def by (rule version_inv_mapI[OF dist ki])
  have "docs_of s' = docs_of s \<or> docs_of s' = update_rows ?P ?f (docs_of s)" using update_docs_cases[OF u] s1 by auto
  then have "version_inv (docs_of s')" by (elim disjE) (simp_all only: inv upd)
  moreover have "sc_txn s' = sc_txn s" using update_docs_cases[OF u] s1 by simp
  ultimately show ?thesis by (rule conn_inv_docs[OF assms(2), rotated])
qed

lemma withdraw_keeps:
  assumes "doc_withdraw_version env i now msg s = (rc, s')" "conn_inv s"
  shows "conn_inv s'"
proof (cases "sc_txn s = None")
  case False
  then show ?thesis using assms by (simp add: doc_withdraw_version_def)
next
  case True
  obtain p s1 where p: "DeletedFromStatusColumnLocked env s = (p, s1)" by fastforce
  obtain n where u: "update_docs env DWithdraw (withdrawable i (docs_of s1))
      (\<lambda>d. (bury env (p = cp_kPresent) now d)\<lparr>dr_error_message := msg\<rparr>) s1 = (n, s')"
    using assms(1) True p by (auto simp: doc_withdraw_version_def Let_def split: prod.splits)
  show ?thesis
    by (rule update_keeps_inv[OF assms(2) u]) (use probe_keeps[OF p] in \<open>auto simp: keeps_identity_def bury_def live_doc_def\<close>)
qed

lemma soft_delete_keeps:
  assumes "doc_soft_delete env i now s = (rc, s')" "conn_inv s"
  shows "conn_inv s'"
proof -
  obtain p s1 where p: "DeletedFromStatusColumnLocked env s = (p, s1)" by fastforce
  obtain n where u: "update_docs env DSoftDelete (\<lambda>d. dr_doc_id d = i) (\<lambda>d. bury env (p = cp_kPresent \<and> live_doc d) now d) s1 = (n, s')"
    using assms(1) p by (auto simp: doc_soft_delete_def Let_def split: prod.splits)
  show ?thesis
    by (rule update_keeps_inv[OF assms(2) u]) (use probe_keeps[OF p] in \<open>auto simp: keeps_identity_def bury_def live_doc_def\<close>)
qed

lemma status_keeps:
  assumes "doc_update_status env i st msg s = (rc, s')" "st \<noteq> ds_kReady" "conn_inv s"
  shows "conn_inv s'"
proof -
  obtain n where u: "update_docs env DUpdateStatus (\<lambda>d. dr_doc_id d = i \<and> live_doc d)
      (\<lambda>d. d\<lparr>dr_status := DocStatusStr st, dr_error_message := msg, dr_updated_at := se_now env\<rparr>) s = (n, s')"
    using assms(1) by (auto simp: doc_update_status_def UpdateStatusLocked_def Let_def split: prod.splits)
  have "DocStatusStr st \<noteq> ''ready''" using assms(2) by (cases st) simp_all
  then show ?thesis by (intro update_keeps_inv[OF assms(3) u]) (auto simp: keeps_identity_def)
qed

lemma retire_keeps:
  assumes "doc_retire_older_versions env i now s = (rc, n, s')" "conn_inv s"
  shows "conn_inv s'"
proof -
  obtain p s1 where p: "DeletedFromStatusColumnLocked env s = (p, s1)" by fastforce
  obtain n where u: "update_docs env DRetire (retires i (docs_of s1)) (bury env (p = cp_kPresent) now) s1 = (n, s')"
    using assms(1) p by (auto simp: doc_retire_older_versions_def RetireOlderVersionsLocked_def Let_def split: prod.splits option.splits)
  show ?thesis
    by (rule update_keeps_inv[OF assms(2) u]) (use probe_keeps[OF p] in \<open>auto simp: retires_def\<close>)
qed

lemma restore_keeps:
  assumes "doc_restore env i s = (rc, s')" "\<forall>d \<in> set (docs_of s). dr_doc_id d = i \<longrightarrow> \<not> versioned (dr_source_type d)" "conn_inv s"
  shows "conn_inv s'"
proof -
  obtain p s1 where p: "DeletedFromStatusColumnLocked env s = (p, s1)" by fastforce
  have s1: "sc_tables s1 = sc_tables s" "sc_txn s1 = sc_txn s" using probe_keeps[OF p] by auto
  let ?P = "\<lambda>d. dr_doc_id d = i \<and> dr_status d = ''deleted''"
  let ?f = "revive env (p = cp_kPresent)"
  obtain n where u: "update_docs env DRestore ?P ?f s1 = (n, s')"
    using assms(1) p by (auto simp: doc_restore_def Let_def split: prod.splits)
  have inv: "version_inv (docs_of s)" using assms(3) by (simp add: conn_inv_def)
  have ki: "keeps_identity (\<lambda>d. if ?P d then ?f d else d)" by (auto simp: keeps_identity_def revive_def)
  have upd: "version_inv (update_rows ?P ?f (docs_of s))"
    unfolding update_rows_def
  proof (rule version_inv_mapI[OF _ ki])
    fix k d assume a: "k \<in> set (docs_of s)" "d \<in> set (docs_of s)" "versioned (dr_source_type k)" "same_source d k" "older d k"
      "dr_status (if ?P k then ?f k else k) = ''ready''"
    then have "dr_doc_id k \<noteq> i" "dr_doc_id d \<noteq> i" using assms(2) by (auto simp: same_source_def)
    then show "\<not> live_doc (if ?P d then ?f d else d)" using a inv unfolding version_inv_def by auto
  qed (use inv in \<open>simp add: version_inv_def\<close>)
  have "docs_of s' = docs_of s \<or> docs_of s' = update_rows ?P ?f (docs_of s)" using update_docs_cases[OF u] s1 by auto
  then have "version_inv (docs_of s')" by (elim disjE) (simp_all only: inv upd)
  moreover have "sc_txn s' = sc_txn s" using update_docs_cases[OF u] s1 by simp
  ultimately show ?thesis by (rule conn_inv_docs[OF assms(3), rotated])
qed

text \<open>The calls that remove rows or touch other tables leave a part of the documents as they are.\<close>

definition shrinks :: "store_conn \<Rightarrow> store_conn \<Rightarrow> bool" where
  "shrinks s s' \<longleftrightarrow> (sc_txn s' = sc_txn s \<or> sc_txn s' = None \<or> sc_txn s' = Some (sc_tables s)) \<and> (\<exists>P. docs_of s' = filter P (docs_of s))"

lemma shrinks_keeps: "shrinks s s' \<Longrightarrow> conn_inv s \<Longrightarrow> conn_inv s'"
  unfolding shrinks_def using conn_inv_filter by blast

lemma shrinks_same: "sc_txn s' = sc_txn s \<Longrightarrow> docs_of s' = docs_of s \<Longrightarrow> shrinks s s'"
  unfolding shrinks_def using filter_True_docs by metis

lemma docs_drop [simp]: "ut_documents (drop_blocks_of P t) = ut_documents t" "sc_txn (set_tables t s) = sc_txn s"
  "sc_tables (set_tables t s) = t" "ut_documents (drop_docs Q t) = filter (\<lambda>d. \<not> Q d) (ut_documents t)"
  by (simp_all add: drop_blocks_of_def set_tables_def drop_docs_def)

lemma delete_shrinks: "doc_delete env i s = (rc, s') \<Longrightarrow> shrinks s s'"
  unfolding shrinks_def doc_delete_def Let_def store_begin_def store_rollback_def store_commit_def
  by (force split: if_splits simp: filter_True_docs intro: exI[of _ "\<lambda>_. True"])

lemma prefix_shrinks: "doc_delete_by_source_prefix env p s = (rc, n, s') \<Longrightarrow> shrinks s s'"
  unfolding shrinks_def doc_delete_by_source_prefix_def Let_def store_begin_def store_rollback_def store_commit_def
  by (force split: if_splits intro: exI[of _ "\<lambda>_. True"])

lemma stmts_keep [simp]:
  "sc_txn (drop_blocks_stmt env q i s) = sc_txn s" "docs_of (drop_blocks_stmt env q i s) = docs_of s"
  "sc_txn (drop_doc_stmt env q i s) = sc_txn s"
  by (simp_all add: drop_blocks_stmt_def drop_doc_stmt_def)

lemma fold_drop_blocks: "sc_txn (fold (\<lambda>i. drop_blocks_stmt env (q i) i) is s) = sc_txn s \<and> docs_of (fold (\<lambda>i. drop_blocks_stmt env (q i) i) is s) = docs_of s"
  by (induction "is" arbitrary: s) simp_all

lemma fold_drop_docs:
  "conn_inv s \<Longrightarrow> conn_inv (fold (\<lambda>i s. drop_doc_stmt env (q i) i (drop_blocks_stmt env (q' i) i s)) is s)"
proof (induction "is" arbitrary: s)
  case (Cons i "is")
  have "shrinks s (drop_doc_stmt env (q i) i (drop_blocks_stmt env (q' i) i s))"
    by (auto simp: shrinks_def drop_doc_stmt_def intro: exI[of _ "\<lambda>_. True"])
  then show ?case using Cons by (simp add: shrinks_keeps)
qed simp

lemma recover_keeps:
  assumes "RecoverCrashedDocs env s = (rc, s')" "conn_inv s"
  shows "conn_inv s'"
proof -
  let ?ps = "delivered env DFindProcessing (docs_in ''processing'' (sc_tables s))"
  let ?s1 = "fold (\<lambda>i. drop_blocks_stmt env (DDropBlocks i) i) ?ps s"
  let ?u = "update_docs env DReset (\<lambda>d. dr_status d = ''processing'') (\<lambda>d. d\<lparr>dr_status := ''pending'', dr_updated_at := se_now env\<rparr>) ?s1"
  have s1: "conn_inv ?s1" using fold_drop_blocks[of env DDropBlocks ?ps s] assms(2) conn_inv_same by blast
  obtain n s2 where u: "?u = (n, s2)" by fastforce
  have s2: "conn_inv s2" by (rule update_keeps_inv[OF s1 u]) (auto simp: keeps_identity_def live_doc_def)
  show ?thesis
    using assms s1 s2 u fold_drop_docs[OF s1] fold_drop_docs[OF s2] by (auto simp: RecoverCrashedDocs_def Let_def split: if_splits)
qed

lemma step_keeps:
  assumes "store_step s s'" "conn_inv s"
  shows "conn_inv s'"
  using assms
proof (cases rule: store_step.cases)
  case (reopened fk)
  then show ?thesis using assms(2) by (auto simp: conn_inv_def store_rollback_def split: option.splits)
next
  case (block_inserted env b rc b')
  then have "sc_txn s' = sc_txn s" "docs_of s' = docs_of s" by (auto simp: block_insert_def Let_def split: if_splits)
  then show ?thesis by (rule conn_inv_same[OF assms(2)])
next
  case (blocks_deleted env i rc)
  then have "sc_txn s' = sc_txn s" "docs_of s' = docs_of s" by (auto simp: block_delete_by_doc_def split: if_splits)
  then show ?thesis by (rule conn_inv_same[OF assms(2)])
next
  case (parent_inserted env p rc)
  then have "sc_txn s' = sc_txn s" "docs_of s' = docs_of s" by (auto simp: parent_insert_def Let_def split: if_splits)
  then show ?thesis by (rule conn_inv_same[OF assms(2)])
next
  case (created env doc rc d)
  show ?thesis by (rule create_keeps[OF created assms(2)])
next
  case (status_written env i st msg rc)
  show ?thesis by (rule status_keeps[OF status_written assms(2)])
next
  case (published env i now rc n)
  show ?thesis by (rule publish_keeps[OF published assms(2)])
next
  case (retired env i now rc n)
  show ?thesis by (rule retire_keeps[OF retired assms(2)])
next
  case (withdrawn env i now msg rc)
  show ?thesis by (rule withdraw_keeps[OF withdrawn assms(2)])
next
  case (soft_deleted env i now rc)
  show ?thesis by (rule soft_delete_keeps[OF soft_deleted assms(2)])
next
  case (restored_if env i rc)
  show ?thesis by (rule restore_if_keeps[OF restored_if assms(2)])
next
  case (restored env i rc)
  show ?thesis by (rule restore_keeps[OF restored assms(2)])
next
  case (hard_deleted env i rc)
  show ?thesis by (rule shrinks_keeps[OF delete_shrinks[OF hard_deleted] assms(2)])
next
  case (prefix_cleared env p rc n)
  show ?thesis by (rule shrinks_keeps[OF prefix_shrinks[OF prefix_cleared] assms(2)])
next
  case (recovered env rc)
  show ?thesis by (rule recover_keeps[OF recovered assms(2)])
qed

lemma store_reach_inv: "store_reach s \<Longrightarrow> conn_inv s"
proof (induction rule: store_reach.induct)
  case (fresh marker fk)
  show ?case by (simp add: conn_inv_def empty_store_def version_inv_def)
qed (rule step_keeps)

section \<open>Properties\<close>

lemma served_exactly_one:
  assumes "version_inv docs" "d \<in> set docs" "versioned (dr_source_type d)" "live_doc d"
  shows "\<exists>!v. v \<in> set docs \<and> same_source v d \<and> \<not> HiddenDocPredicate docs v"
proof -
  let ?S = "\<lambda>v. v \<in> set docs \<and> same_source v d"
  have dist: "u = v" if "u \<in> set docs" "v \<in> set docs" "dr_doc_id u = dr_doc_id v" for u v
    using assms(1) that by (auto simp: version_inv_def distinct_map inj_on_def)
  have ver: "versioned (dr_source_type v)" if "same_source v d" for v using that assms(3) by (simp add: same_source_def)
  have same: "same_source u v" if "same_source u d" "same_source v d" for u v using that by (simp add: same_source_def)
  show ?thesis
  proof (cases "\<exists>r. ?S r \<and> dr_status r = ''ready''")
    case True
    then obtain r where r: "?S r" "dr_status r = ''ready''" by blast
    have "v = r" if v: "?S v" "\<not> HiddenDocPredicate docs v" for v
    proof (rule ccontr)
      assume "v \<noteq> r"
      then have ids: "dr_doc_id r \<noteq> dr_doc_id v" using dist v r by blast
      have "live_doc v" "live_doc r" using v(2) r(2) by (simp_all add: HiddenDocPredicate_def live_doc_def)
      moreover have "dr_status v = ''ready''"
        using v ids r ver same \<open>live_doc r\<close> unfolding HiddenDocPredicate_def by blast
      ultimately show False using older_total[OF ids] assms(1) v(1) r same ver unfolding version_inv_def by blast
    qed
    moreover have "\<not> HiddenDocPredicate docs r" using r(2) by (simp add: HiddenDocPredicate_def)
    ultimately show ?thesis using r(1) by blast
  next
    case False
    obtain r where r: "r \<in> set docs" "same_source r d \<and> live_doc r" "\<forall>u \<in> set docs. same_source u d \<and> live_doc u \<longrightarrow> \<not> older u r"
      using exists_oldest[of d docs "\<lambda>v. same_source v d \<and> live_doc v"] assms(2,4) by (auto simp: same_source_def)
    have sr: "same_source v d" if "same_source v r" for v using that r(2) by (simp add: same_source_def)
    have "v = r" if v: "?S v" "\<not> HiddenDocPredicate docs v" for v
    proof (rule ccontr)
      assume "v \<noteq> r"
      then have ids: "dr_doc_id r \<noteq> dr_doc_id v" using dist v r by blast
      have "live_doc v" using v(2) by (simp add: HiddenDocPredicate_def live_doc_def)
      moreover have "dr_status v \<noteq> ''ready''" using False v(1) by blast
      ultimately have "\<not> older r v" using v ids r(1,2) ver same unfolding HiddenDocPredicate_def by blast
      then show False using older_total[OF ids] r(3) v(1) \<open>live_doc v\<close> by blast
    qed
    moreover have "\<not> HiddenDocPredicate docs r"
      using r False sr unfolding HiddenDocPredicate_def live_doc_def by blast
    ultimately show ?thesis using r(1,2) by blast
  qed
qed

text \<open>
  C5: In every state the calls of the store lead to, whatever statements fail in between, a source with a live version is served
  by exactly one of its versions: all others are hidden from retrieval.  The calls are those of \<^const>\<open>store_step\<close>: a new version
  is stamped later than the rows of its source and is not created ready, a version becomes ready by publication only, and the
  unconditional restore is for sources without versions.  (With a clock that was set back two versions are served:
  late_stamp_serves_both.)
\<close>
theorem one_version_served:
  assumes "store_reach s" "d \<in> set (ut_documents (sc_tables s))" "versioned (dr_source_type d)" "live_doc d"
  shows "\<exists>!v. v \<in> set (ut_documents (sc_tables s)) \<and> same_source v d \<and> \<not> HiddenDocPredicate (ut_documents (sc_tables s)) v"
  by (rule served_exactly_one[OF _ assms(2-4)]) (use store_reach_inv[OF assms(1)] in \<open>simp add: conn_inv_def\<close>)

definition upload :: "string \<Rightarrow> CortrixDoc" where
  "upload i = \<lparr>cd_doc_id = i, cd_source_type = ''http_upload'', cd_source_path = ''a.txt'', cd_source_ref = '''', cd_content_hash = '''',
     cd_file_size = 0, cd_mime_type = '''', cd_status = ds_kPending, cd_error_message = '''', cd_processing_level = 3,
     cd_block_count = 0, cd_chunk_strategy = '''', cd_created_at = '''', cd_updated_at = '''', cd_processed_at = '''', cd_cdc_schema = '''',
     cd_cdc_position = '''', cd_cdc_last_sync = '''', cd_title = '''', cd_language = '''', cd_metadata_json = ''''\<rparr>"

definition good_store_env :: "string \<Rightarrow> store_env" where
  "good_store_env now = \<lparr>se_sql = sql_good, se_rows = 0, se_now = now, se_ulid = ''u'', se_rowid = 1, se_null_data = True\<rparr>"

lemma upload_row:
  "cd_doc_id (upload i) = i" "cd_source_type (upload i) = ''http_upload''" "cd_status (upload i) = ds_kPending"
  "dr_doc_id (row_of_doc t (upload i)) = i" "dr_source_type (row_of_doc t (upload i)) = ''http_upload''"
  "dr_source_path (row_of_doc t (upload i)) = ''a.txt''" "dr_status (row_of_doc t (upload i)) = ''pending''"
  "dr_created_at (row_of_doc t (upload i)) = t"
  by (simp_all add: upload_def row_of_doc_def)

lemma row_stamps [simp]: "row_of_doc t (d\<lparr>cd_created_at := x, cd_updated_at := y\<rparr>) = row_of_doc t d"
  by (simp add: row_of_doc_def)

lemma create_good:
  assumes "cd_doc_id d \<noteq> []" "doc_by_id (cd_doc_id d) (sc_tables s) = None"
  shows "doc_create (good_store_env now) d s = (0, d\<lparr>cd_created_at := now, cd_updated_at := now\<rparr>,
    s\<lparr>sc_tables := (sc_tables s)\<lparr>ut_documents := ut_documents (sc_tables s) @ [row_of_doc now d]\<rparr>\<rparr>)"
  using assms by (simp add: doc_create_def good_store_env_def sql_good_def Let_def)

definition two_uploads :: "string \<Rightarrow> string \<Rightarrow> store_conn" where
  "two_uploads t1 t2 = (empty_store True True)\<lparr>sc_tables := (sc_tables (empty_store True True))
     \<lparr>ut_documents := [row_of_doc t1 (upload ''1''), row_of_doc t2 (upload ''2'')]\<rparr>\<rparr>"

lemma two_uploads_reach: "store_reach (two_uploads ''09:00'' ''10:00'')"
proof -
  let ?s0 = "empty_store True True"
  let ?s1 = "?s0\<lparr>sc_tables := (sc_tables ?s0)\<lparr>ut_documents := [row_of_doc ''09:00'' (upload ''1'')]\<rparr>\<rparr>"
  have docs0: "docs_of ?s0 = []" by (simp add: empty_store_def)
  have none: "doc_by_id (cd_doc_id (upload ''1'')) (sc_tables ?s0) = None" "doc_by_id (cd_doc_id (upload ''2'')) (sc_tables ?s1) = None"
    by (simp_all add: doc_by_id_def upload_row docs0)
  have now: "se_now (good_store_env t) = t" for t by (simp add: good_store_env_def)
  have "store_step ?s0 ?s1"
    using store_step.created[OF create_good[OF _ none(1), of "''09:00''"]] by (simp add: upload_row docs0 comes_last_def)
  moreover have "store_step ?s1 (two_uploads ''09:00'' ''10:00'')"
    using store_step.created[OF create_good[OF _ none(2), of "''10:00''"]]
    by (simp add: upload_row docs0 comes_last_def two_uploads_def now older_def same_source_def)
  ultimately show ?thesis by (blast intro: store_reach.intros)
qed

theorem one_version_served_witness:
  "\<exists>!v. v \<in> set (ut_documents (sc_tables (two_uploads ''09:00'' ''10:00''))) \<and> same_source v (row_of_doc ''10:00'' (upload ''2'')) \<and>
     \<not> HiddenDocPredicate (ut_documents (sc_tables (two_uploads ''09:00'' ''10:00''))) v"
  by (rule one_version_served[OF two_uploads_reach]) (simp_all add: two_uploads_def upload_row versioned_def live_doc_def)

text \<open>
  C6: A publication is all or nothing.  When it returns 0 the version is ready, the older live versions of its source are deleted
  and nothing else has changed; with any other result the tables are what they were.
\<close>
theorem publication_atomic:
  assumes "store_reach s" "doc_publish_version env i now s = (rc, n, s')"
  shows "(rc \<noteq> 0 \<longrightarrow> sc_tables s' = sc_tables s) \<and>
    (rc = 0 \<longrightarrow> (\<exists>m. sc_tables s' = (sc_tables s)\<lparr>ut_documents := map (\<lambda>d.
        if dr_doc_id d = i then d\<lparr>dr_status := ''ready'', dr_error_message := [], dr_updated_at := se_now env\<rparr>
        else if retires i (ut_documents (sc_tables s)) d then bury env m now d else d) (ut_documents (sc_tables s))\<rparr>))"
proof -
  have "distinct (map dr_doc_id (docs_of s))" using store_reach_inv[OF assms(1)] by (simp add: conn_inv_def version_inv_def)
  then show ?thesis using publish_cases[OF assms(2)] unfolding publish_row_def by blast
qed

theorem publication_atomic_witness:
  "\<exists>n s'. doc_publish_version (good_store_env ''11:00'') ''3'' 5 (two_uploads ''09:00'' ''10:00'') = (- 2, n, s') \<and>
     sc_tables s' = sc_tables (two_uploads ''09:00'' ''10:00'')"
proof -
  let ?s = "two_uploads ''09:00'' ''10:00''"
  obtain n s' where p: "doc_publish_version (good_store_env ''11:00'') ''3'' 5 ?s = (- 2, n, s')"
    by (simp add: doc_publish_version_def store_begin_def good_store_env_def sql_good_def two_uploads_def empty_store_def UpdateStatusLocked_def
        update_docs_def changes_def upload_row rc_of_def)
  show ?thesis using publication_atomic[OF two_uploads_reach p] p by auto
qed

text \<open>
  The order of the versions is the order of their stamps.  A version that is stamped before the ready one, because the clock was
  set back between the uploads, retires nothing when it is published: both are served.
\<close>
theorem late_stamp_serves_both:
  assumes "distinct (map dr_doc_id (docs_of s))" "r \<in> set (docs_of s)" "k \<in> set (docs_of s)" "dr_status r = ''ready''"
    and "same_source k r" "older k r" "doc_publish_version env (dr_doc_id k) now s = (0, n, s')"
  shows "\<exists>u \<in> set (docs_of s'). \<exists>v \<in> set (docs_of s'). dr_doc_id u = dr_doc_id k \<and> dr_doc_id v = dr_doc_id r \<and> dr_doc_id u \<noteq> dr_doc_id v \<and>
    \<not> HiddenDocPredicate (docs_of s') u \<and> \<not> HiddenDocPredicate (docs_of s') v"
proof -
  obtain m where "sc_tables s' = (sc_tables s)\<lparr>ut_documents := map (publish_row env m now (dr_doc_id k) (docs_of s)) (docs_of s)\<rparr>"
    using publish_cases[OF assms(7,1)] by blast
  then have t: "docs_of s' = map (publish_row env m now (dr_doc_id k) (docs_of s)) (docs_of s)" by simp
  let ?f = "publish_row env m now (dr_doc_id k) (docs_of s)"
  have neq: "dr_doc_id k \<noteq> dr_doc_id r" using assms(1-3,6) older_irrefl by (auto simp: distinct_map inj_on_def)
  have "\<not> retires (dr_doc_id k) (docs_of s) r"
    using assms(1,3,6) older_asym unfolding retires_def by (auto simp: distinct_map inj_on_def)
  then have "?f r = r" "dr_status (?f k) = ''ready''" "dr_doc_id (?f k) = dr_doc_id k" using neq by (simp_all add: publish_row_def)
  then have "\<not> HiddenDocPredicate (docs_of s') (?f k)" "\<not> HiddenDocPredicate (docs_of s') r" "dr_doc_id (?f k) = dr_doc_id k"
    using assms(4) by (simp_all add: HiddenDocPredicate_def)
  moreover have "?f k \<in> set (docs_of s')" "r \<in> set (docs_of s')" using assms(2,3) \<open>?f r = r\<close> unfolding t by force+
  ultimately show ?thesis using neq by metis
qed

end
