(* ===== verification/Document_Queries.thy ===== *)
theory Document_Queries
  imports Document_Versions
begin

text \<open>
  What the queries of the store answer: rows read back as they were written, the hidden documents among given ones, the
  full-text query an input is turned into, and which documents a cleanup by source prefix removes.
\<close>

section \<open>Rows\<close>

lemma nonneg_roundtrip: "null_as_minus_one (nonneg_or_null i) = max (- 1) i"
  by (simp add: null_as_minus_one_def nonneg_or_null_def max_def)

lemma text_roundtrip: "col_text (text_or_null_col t) = t"
  by (simp add: col_text_def text_or_null_col_def)

lemma find_append_last: "find P xs = None \<Longrightarrow> find P (xs @ [x]) = (if P x then Some x else None)"
  by (induction xs) (auto split: if_splits)

lemma read_block_row:
  "read_block (row_of_block b) CortrixBlock_default = b\<lparr>bk_hnsw_node_id := max (- 1) (bk_hnsw_node_id b),
     bk_token_count := max (- 1) (bk_token_count b), bk_parent_offset := max (- 1) (bk_parent_offset b)\<rparr>"
  by (cases b) (simp add: read_block_def row_of_block_def CortrixBlock_default_def nonneg_roundtrip text_roundtrip)

text \<open>
  A block that was inserted is read back as it was given, with its row id when it had none; negative numbers of the index
  node, the tokens and the offset come back as -1.
\<close>
theorem block_insert_get:
  assumes "block_insert env b s = (0, b', s')" "se_sql env' DBlockGet = SqlOk"
  shows "b' = (if bk_block_id b = 0 then b\<lparr>bk_block_id := se_rowid env\<rparr> else b) \<and>
    block_get env' (bk_block_id b') CortrixBlock_default s' = (0, b'\<lparr>bk_hnsw_node_id := max (- 1) (bk_hnsw_node_id b),
      bk_token_count := max (- 1) (bk_token_count b), bk_parent_offset := max (- 1) (bk_parent_offset b)\<rparr>)"
proof -
  have b': "b' = (if bk_block_id b = 0 then b\<lparr>bk_block_id := se_rowid env\<rparr> else b)" "block_fits env (row_of_block b') s"
    "ut_blocks (sc_tables s') = ut_blocks (sc_tables s) @ [row_of_block b']"
    using assms(1) by (auto simp: block_insert_def Let_def split: if_splits)
  have sel: "br_block_id (row_of_block b') = bk_block_id b'" by (simp add: row_of_block_def)
  have "find (\<lambda>r. br_block_id r = bk_block_id b') (ut_blocks (sc_tables s)) = None"
    using b'(2) by (auto simp: block_fits_def find_None_iff sel)
  then have "find (\<lambda>r. br_block_id r = bk_block_id b') (ut_blocks (sc_tables s')) = Some (row_of_block b')"
    unfolding b'(3) by (simp add: find_append_last sel)
  then have "block_get env' (bk_block_id b') CortrixBlock_default s' = (0, read_block (row_of_block b') CortrixBlock_default)"
    using assms(2) by (simp add: block_get_def get_row_def)
  moreover have "bk_hnsw_node_id b' = bk_hnsw_node_id b" "bk_token_count b' = bk_token_count b" "bk_parent_offset b' = bk_parent_offset b"
    by (simp_all add: b'(1))
  ultimately show ?thesis using b'(1) by (simp add: read_block_row)
qed

theorem block_insert_get_witness:
  "\<exists>b' s'. block_insert (good_store_env ''t'') (CortrixBlock_default\<lparr>bk_doc_id := ''1'', bk_data := [7]\<rparr>) (two_uploads ''09:00'' ''10:00'') = (0, b', s') \<and>
     block_get (good_store_env ''t'') 1 CortrixBlock_default s' = (0, CortrixBlock_default\<lparr>bk_block_id := 1, bk_doc_id := ''1'', bk_data := [7]\<rparr>)"
proof -
  let ?b = "CortrixBlock_default\<lparr>bk_doc_id := ''1'', bk_data := [7]\<rparr>"
  obtain b' s' where i: "block_insert (good_store_env ''t'') ?b (two_uploads ''09:00'' ''10:00'') = (0, b', s')"
    by (simp add: block_insert_def block_fits_def two_uploads_def empty_store_def doc_by_id_def upload_row good_store_env_def sql_good_def
        CortrixBlock_default_def row_of_block_def Let_def)
  have "se_sql (good_store_env ''t'') DBlockGet = SqlOk" by (simp add: good_store_env_def sql_good_def)
  from block_insert_get[OF i this] show ?thesis using i by (auto simp: CortrixBlock_default_def good_store_env_def)
qed

section \<open>Hidden documents\<close>

lemma hidden_chunks_good:
  assumes "\<And>i. se_sql env (DHidden i) = SqlOk"
  shows "\<exists>out. hidden_chunks env docs i ids acc = Inr out \<and>
    set out = set acc \<union> {dr_doc_id d |d. d \<in> set docs \<and> dr_doc_id d \<in> set ids \<and> HiddenDocPredicate docs d}"
  using assms
proof (induction env docs i ids acc rule: hidden_chunks.induct)
  case (1 env docs i ids acc)
  show ?case
  proof (cases "ids = []")
    case True
    then show ?thesis by (simp add: hidden_chunks.simps)
  next
    case False
    let ?acc = "acc @ map dr_doc_id (filter (\<lambda>d. dr_doc_id d \<in> set (take kMaxIdsPerStatement ids) \<and> HiddenDocPredicate docs d) docs)"
    obtain out where out: "hidden_chunks env docs (Suc i) (drop kMaxIdsPerStatement ids) ?acc = Inr out"
      "set out = set ?acc \<union> {dr_doc_id d |d. d \<in> set docs \<and> dr_doc_id d \<in> set (drop kMaxIdsPerStatement ids) \<and> HiddenDocPredicate docs d}"
      using 1(1)[OF False 1(2) 1(2)] by blast
    have ids: "set ids = set (take kMaxIdsPerStatement ids) \<union> set (drop kMaxIdsPerStatement ids)"
      by (metis append_take_drop_id set_append)
    have "set out = set acc \<union> {dr_doc_id d |d. d \<in> set docs \<and> dr_doc_id d \<in> set ids \<and> HiddenDocPredicate docs d}"
      unfolding out(2) ids by auto
    then show ?thesis using out(1) False 1(2)[of i] by (subst hidden_chunks.simps) simp
  qed
qed

text \<open>
  When no statement fails \<open>LoadHiddenDocIds\<close> returns, however many identifiers it is given, exactly the identifiers among
  them that name a row which retrieval hides.
\<close>
theorem hidden_ids_exact:
  assumes "\<And>i. se_sql env (DHidden i) = SqlOk"
  shows "\<exists>out. LoadHiddenDocIds env s ids = Inr out \<and>
    set out = {i. i \<in> set ids \<and> i \<noteq> [] \<and> (\<exists>d \<in> set (ut_documents (sc_tables s)). dr_doc_id d = i \<and> HiddenDocPredicate (ut_documents (sc_tables s)) d)}"
proof -
  have "set (distinct_ids ids) = {i \<in> set ids. i \<noteq> []}" by (auto simp: distinct_ids_def)
  then show ?thesis
    using hidden_chunks_good[OF assms, where docs = "ut_documents (sc_tables s)" and i = 0 and ids = "distinct_ids ids" and acc = "[]"]
    unfolding LoadHiddenDocIds_def by auto
qed

theorem hidden_ids_exact_witness:
  "\<exists>out. LoadHiddenDocIds (good_store_env ''t'') (two_uploads ''09:00'' ''10:00'') [''1'', ''2'', ''3''] = Inr out \<and> set out = {''2''}"
proof -
  let ?s = "two_uploads ''09:00'' ''10:00''"
  have docs: "ut_documents (sc_tables ?s) = [row_of_doc ''09:00'' (upload ''1''), row_of_doc ''10:00'' (upload ''2'')]"
    by (simp add: two_uploads_def)
  have "\<exists>out. LoadHiddenDocIds (good_store_env ''t'') ?s [''1'', ''2'', ''3''] = Inr out \<and>
    set out = {i. i \<in> set [''1'', ''2'', ''3''] \<and> i \<noteq> [] \<and> (\<exists>d \<in> set (ut_documents (sc_tables ?s)). dr_doc_id d = i \<and> HiddenDocPredicate (ut_documents (sc_tables ?s)) d)}"
    by (rule hidden_ids_exact) (simp add: good_store_env_def sql_good_def)
  moreover have "{i. i \<in> set [''1'', ''2'', ''3''] \<and> i \<noteq> [] \<and> (\<exists>d \<in> set (ut_documents (sc_tables ?s)). dr_doc_id d = i \<and> HiddenDocPredicate (ut_documents (sc_tables ?s)) d)} = {''2''}"
    by (auto simp: docs HiddenDocPredicate_def upload_row versioned_def same_source_def live_doc_def older_def)
  ultimately show ?thesis by simp
qed

section \<open>Full-text queries\<close>

text \<open>
  How FTS5 reads a query made of strings and \<open>OR\<close>: a string is in double quotes, a quote inside it is doubled.
\<close>

fun fts_string :: "string \<Rightarrow> (string \<times> string) option" where
  "fts_string [] = None"
| "fts_string [c] = (if c = CHR 0x22 then Some ([], []) else None)"
| "fts_string (c # d # cs) =
     (if c = CHR 0x22 then (if d = CHR 0x22 then map_option (\<lambda>(w, r). (c # w, r)) (fts_string cs) else Some ([], d # cs))
      else map_option (\<lambda>(w, r). (c # w, r)) (fts_string (d # cs)))"

lemma fts_string_quote:
  assumes "r = [] \<or> hd r \<noteq> CHR 0x22"
  shows "fts_string (concat (map (\<lambda>c. if c = CHR 0x22 then [CHR 0x22, c] else [c]) w) @ [CHR 0x22] @ r) = Some (w, r)"
proof (induction w)
  case Nil
  then show ?case using assms by (cases r) auto
next
  case (Cons c w)
  obtain d rest where cons: "concat (map (\<lambda>c. if c = CHR 0x22 then [CHR 0x22, c] else [c]) w) @ [CHR 0x22] @ r = d # rest"
    by (cases "concat (map (\<lambda>c. if c = CHR 0x22 then [CHR 0x22, c] else [c]) w) @ [CHR 0x22] @ r") auto
  show ?case
  proof (cases "c = CHR 0x22")
    case True
    then show ?thesis using Cons cons by simp
  next
    case False
    then show ?thesis using Cons cons by simp
  qed
qed

inductive fts_reads :: "string \<Rightarrow> string list \<Rightarrow> bool" where
  one_string: "fts_string q = Some (w, []) \<Longrightarrow> fts_reads (CHR 0x22 # q) [w]"
| or_string: "fts_string q = Some (w, '' OR '' @ r) \<Longrightarrow> fts_reads r ws \<Longrightarrow> fts_reads (CHR 0x22 # q) (w # ws)"

lemma fts_reads_join: "ws \<noteq> [] \<Longrightarrow> fts_reads (fts_join ws) ws"
proof (induction ws rule: fts_join.induct)
  case (2 w)
  then show ?case using fts_string_quote[of "[]" w] by (simp add: fts_quote_def fts_reads.one_string)
next
  case (3 w v ws)
  have "fts_string (concat (map (\<lambda>c. if c = CHR 0x22 then [CHR 0x22, c] else [c]) w) @ [CHR 0x22] @ '' OR '' @ fts_join (v # ws)) =
      Some (w, '' OR '' @ fts_join (v # ws))"
    by (rule fts_string_quote) simp
  from fts_reads.or_string[OF this] 3 show ?case by (simp add: fts_quote_def)
qed simp

lemma fts_words_clean: "\<forall>c \<in> set w. \<not> fts_space c \<Longrightarrow> v \<in> set (fts_words w q) \<Longrightarrow> v \<noteq> [] \<and> (\<forall>c \<in> set v. \<not> fts_space c)"
proof (induction q arbitrary: w)
  case (Cons a q)
  consider "v = w" "w \<noteq> []" | "v \<in> set (fts_words [] q)" | "v \<in> set (fts_words (w @ [a]) q)" "\<not> fts_space a"
    using Cons.prems(2) by (auto split: if_splits)
  then show ?case
  proof cases
    case 1
    then show ?thesis using Cons.prems(1) by simp
  next
    case 2
    then show ?thesis by (intro Cons.IH[of "[]"]) simp_all
  next
    case 3
    then show ?thesis using Cons.prems(1) by (intro Cons.IH[of "w @ [a]"]) simp_all
  qed
qed (auto split: if_splits)

text \<open>
  C20: Whatever the input, the query handed to the full-text index is either empty or read by it as a disjunction of literal
  strings: the words of the input that hold a letter, a digit or a byte above 127.  No operator of the input survives.
\<close>
theorem sanitized_query_is_literal:
  "SanitizeFts5Query q = [] \<and> filter (list_ex fts_content) (fts_words [] q) = [] \<or>
   fts_reads (SanitizeFts5Query q) (filter (list_ex fts_content) (fts_words [] q))"
  unfolding SanitizeFts5Query_def using fts_reads_join by (metis fts_join.simps(1))

section \<open>Deletion by source\<close>

lemma like_percent: "like [CHR ''%''] t"
  by (induction t) (simp_all add: like.simps)

lemma like_escape_Cons:
  "like_escape (c # p) = (if c = CHR ''%'' \<or> c = CHR ''_'' \<or> c = CHR 0x5C then [CHR 0x5C, c] else [c]) @ like_escape p"
  by (simp add: like_escape_def)

lemma like_prefix: "like (like_escape p @ ''%'') t \<longleftrightarrow> prefix (map ascii_lower p) (map ascii_lower t)"
proof (induction p arbitrary: t)
  case Nil
  then show ?case by (simp add: like_escape_def like_percent)
next
  case (Cons c p)
  then show ?case by (cases t) (auto simp: like_escape_Cons like.simps)
qed

lemma under_prefix_iff: "under_prefix p d \<longleftrightarrow> prefix (map ascii_lower p) (map ascii_lower (dr_source_path d))"
  by (simp add: under_prefix_def like_prefix)

text \<open>
  C21: When no transaction is open and no statement fails, a cleanup by a non-empty prefix removes exactly the documents whose
  source begins with the prefix, letters of ASCII compared without case, and their blocks; wildcards in the prefix stand for
  themselves.  The empty prefix, with which every source begins, is refused: the call succeeds and removes nothing.
\<close>
theorem prefix_cleanup_exact:
  assumes "sc_txn s = None" "\<And>q. se_sql env q = SqlOk" "doc_delete_by_source_prefix env p s = (rc, n, s')"
  shows "rc = 0 \<and> sc_txn s' = None \<and>
    (if p = [] then s' = s else
    ut_documents (sc_tables s') = filter (\<lambda>d. \<not> prefix (map ascii_lower p) (map ascii_lower (dr_source_path d))) (ut_documents (sc_tables s)) \<and>
    ut_blocks (sc_tables s') = filter (\<lambda>b. \<not> (\<exists>d \<in> set (ut_documents (sc_tables s)). dr_doc_id d = br_doc_id b \<and>
       prefix (map ascii_lower p) (map ascii_lower (dr_source_path d)))) (ut_blocks (sc_tables s))) \<and>
    n = int (length (ut_blocks (sc_tables s)) - length (ut_blocks (sc_tables s')))"
proof (cases "p = []")
  case True
  then show ?thesis using assms by (simp add: doc_delete_by_source_prefix_def)
next
  case False
  let ?hit = "docs_under p (sc_tables s)"
  have nref: "\<not> doc_referenced (under_prefix p) (set_tables (drop_blocks_of ?hit (sc_tables s)) (s\<lparr>sc_txn := Some (sc_tables s)\<rparr>))"
    by (auto simp: doc_referenced_def drop_blocks_of_def set_tables_def docs_under_def)
  have hit: "?hit i \<longleftrightarrow> (\<exists>d \<in> set (ut_documents (sc_tables s)). dr_doc_id d = i \<and> prefix (map ascii_lower p) (map ascii_lower (dr_source_path d)))" for i
    by (auto simp: docs_under_def under_prefix_iff)
  have len: "length (filter (\<lambda>b. ?hit (br_doc_id b)) bs) = length bs - length (filter (\<lambda>b. \<not> ?hit (br_doc_id b)) bs)" for bs
    using sum_length_filter_compl[of "\<lambda>b. ?hit (br_doc_id b)" bs] by simp
  have s': "rc = 0" "n = int (length (filter (\<lambda>b. ?hit (br_doc_id b)) (ut_blocks (sc_tables s))))" "sc_txn s' = None"
    "sc_tables s' = drop_docs (under_prefix p) (drop_blocks_of ?hit (sc_tables s))"
    using assms False nref by (auto simp: doc_delete_by_source_prefix_def store_begin_def store_commit_def Let_def set_tables_def)
  show ?thesis
    unfolding s' len using False by (simp add: drop_docs_def drop_blocks_of_def hit under_prefix_iff)
qed

theorem prefix_cleanup_exact_witness:
  "\<exists>n s'. doc_delete_by_source_prefix (good_store_env ''t'') ''A.TX'' (two_uploads ''09:00'' ''10:00'') = (0, n, s') \<and>
     ut_documents (sc_tables s') = []"
proof -
  let ?s = "two_uploads ''09:00'' ''10:00''"
  obtain rc n s' where d: "doc_delete_by_source_prefix (good_store_env ''t'') ''A.TX'' ?s = (rc, n, s')" by (metis surj_pair)
  have low: "ascii_lower CHR ''T'' = ascii_lower CHR ''t''" "ascii_lower CHR ''A'' = ascii_lower CHR ''a''" "ascii_lower CHR ''X'' = ascii_lower CHR ''x''"
    by code_simp+
  have "sc_txn ?s = None" "\<And>q. se_sql (good_store_env ''t'') q = SqlOk"
    by (simp_all add: two_uploads_def empty_store_def good_store_env_def sql_good_def)
  note e = prefix_cleanup_exact[OF this d]
  show ?thesis using d e by (simp add: two_uploads_def upload_row low)
qed

text \<open>
  A statement of the cleanup that fails when stepped is passed over: the call reports success, and with foreign keys on the
  documents whose blocks could not be deleted are all still there.
\<close>
theorem failed_cleanup_reported_done:
  assumes "p \<noteq> []" "sc_txn s = None" "sc_foreign_keys s" "se_sql env = (sql_good)(DDelBlocksPrefix := StepFails)"
    and "d \<in> set (docs_of s)" "under_prefix p d" "b \<in> set (ut_blocks (sc_tables s))" "br_doc_id b = dr_doc_id d"
  shows "\<exists>n s'. doc_delete_by_source_prefix env p s = (0, n, s') \<and> n > 0 \<and> sc_tables s' = sc_tables s"
proof -
  have ref: "doc_referenced (under_prefix p) (s\<lparr>sc_txn := Some (sc_tables s)\<rparr>)"
    using assms(3,5-8) by (auto simp: doc_referenced_def)
  have "b \<in> set (filter (\<lambda>b. docs_under p (sc_tables s) (br_doc_id b)) (ut_blocks (sc_tables s)))"
    using assms(5-8) by (auto simp: docs_under_def)
  then have "0 < length (filter (\<lambda>b. docs_under p (sc_tables s) (br_doc_id b)) (ut_blocks (sc_tables s)))" by (rule length_pos_if_in_set)
  then show ?thesis
    using assms(1,2,4) ref by (auto simp: doc_delete_by_source_prefix_def store_begin_def store_commit_def sql_good_def Let_def)
qed

text \<open>
  A failed commit of the cleanup leaves the transaction open on the connection, and from then on every publication on it fails.
\<close>
theorem failed_cleanup_blocks_publication:
  assumes "p \<noteq> []" "sc_txn s = None" "se_sql env = (sql_good)(DCommit := StepFails)" "doc_delete_by_source_prefix env p s = (rc, n, s')"
  shows "rc = - 1 \<and> sc_txn s' = Some (sc_tables s) \<and> doc_publish_version env' i now s' = (- 1, 0, s')"
proof -
  have "rc = - 1" "sc_txn s' = Some (sc_tables s)"
    using assms by (auto simp: doc_delete_by_source_prefix_def store_begin_def store_commit_def sql_good_def Let_def set_tables_def split: if_splits)
  then show ?thesis by (simp add: doc_publish_version_def store_begin_def)
qed

end
