(* ===== verification/Unit_Recovery.thy ===== *)
theory Unit_Recovery
  imports Document_Versions Write_Coordinator
begin

text \<open>
  How a unit is brought back after a crash (\<^verbatim>\<open>src/resource/namespace_pool.cpp\<close>): the probes the coordinator's recovery asks, the
  rollback callback it runs, and the recovery of documents behind it.  The world is the connection to the unit's store, the set of
  points of its vector index and the files below its blob directory.  A point is deleted when \<open>MarkDelete\<close> returns \<open>Ok\<close> and
  stays otherwise.
\<close>

section \<open>The world of a unit\<close>

record unit_world =
  uw_conn :: store_conn
  uw_points :: "u64 set"
  uw_blob_files :: "string list"

datatype rec_sql =
    RBlockExists | RSelectLabels | RDeleteLabels | RDeleteLabel u64 | RDeleteBlocks | RDeleteParents | RDeleteFts
  | RCollectBlocks | RCollectLabels | RCollectOrphans | RDropParents

record rec_env =
  re_sql :: "rec_sql \<Rightarrow> sql_outcome"
  re_rows :: nat
  re_mark_ok :: "u64 \<Rightarrow> bool"

definition rec_good :: "rec_env \<Rightarrow> bool" where
  "rec_good e \<longleftrightarrow> re_sql e = sql_good \<and> re_mark_ok e = (\<lambda>_. True)"

abbreviation tables :: "unit_world \<Rightarrow> unit_tables" where
  "tables w \<equiv> sc_tables (uw_conn w)"

definition put_tables :: "unit_tables \<Rightarrow> unit_world \<Rightarrow> unit_world" where
  "put_tables t w = w\<lparr>uw_conn := set_tables t (uw_conn w)\<rparr>"

lemma put_tables_sel [simp]: "tables (put_tables t w) = t" "uw_points (put_tables t w) = uw_points w"
  "uw_blob_files (put_tables t w) = uw_blob_files w" "sc_txn (uw_conn (put_tables t w)) = sc_txn (uw_conn w)"
  "sc_foreign_keys (uw_conn (put_tables t w)) = sc_foreign_keys (uw_conn w)"
  by (simp_all add: put_tables_def set_tables_def)

definition MarkDelete_point :: "rec_env \<Rightarrow> u64 \<Rightarrow> unit_world \<Rightarrow> bool \<times> unit_world" where
  "MarkDelete_point e i w = (if re_mark_ok e i then (True, w\<lparr>uw_points := uw_points w - {i}\<rparr>) else (False, w))"

text \<open>The loops over identifiers: which deletions succeeded, and the world afterwards.\<close>

fun mark_all :: "rec_env \<Rightarrow> u64 list \<Rightarrow> unit_world \<Rightarrow> u64 list \<times> unit_world" where
  "mark_all e [] w = ([], w)"
| "mark_all e (i # is) w = (let (done', w1) = MarkDelete_point e i w; (rest, w2) = mark_all e is w1
     in (if done' then i # rest else rest, w2))"

section \<open>Probes\<close>

definition BlockExists :: "rec_env \<Rightarrow> unit_world \<Rightarrow> u64 list \<Rightarrow> bool" where
  "BlockExists e w ids \<longleftrightarrow> ids = [] \<or>
     (re_sql e RBlockExists = SqlOk \<and> length (filter (\<lambda>b. br_block_id b \<in> set ids) (ut_blocks (tables w))) = length ids)"

definition BlobExists :: "unit_world \<Rightarrow> string \<Rightarrow> bool" where
  "BlobExists w doc \<longleftrightarrow> doc \<in> set (uw_blob_files w)"

definition recover_stores :: "rec_env \<Rightarrow> unit_world stores" where
  "recover_stores e = \<lparr>vector_exists = Some (\<lambda>w i. i \<in> uw_points w), block_exists = Some (BlockExists e),
     blob_exists = Some (\<lambda>w doc. BlobExists w (chars doc))\<rparr>"

section \<open>Rollback\<close>

definition DeleteLabelRows :: "rec_env \<Rightarrow> u64 list \<Rightarrow> unit_world \<Rightarrow> unit_world" where
  "DeleteLabelRows e labels w =
     (if labels = [] \<or> re_sql e RDeleteLabels = PrepareFails then w
      else put_tables ((tables w)\<lparr>ut_labels := filter (\<lambda>(l, b). \<not> (l \<in> set labels \<and> re_sql e (RDeleteLabel l) = SqlOk))
             (ut_labels (tables w))\<rparr>) w)"

definition collect_rows :: "rec_env \<Rightarrow> rec_sql \<Rightarrow> 'r list \<Rightarrow> 'r list" where
  "collect_rows e q rows = (case re_sql e q of SqlOk \<Rightarrow> rows | StepFails \<Rightarrow> take (re_rows e) rows | PrepareFails \<Rightarrow> [])"

definition labels_of :: "u64 list \<Rightarrow> unit_tables \<Rightarrow> u64 list" where
  "labels_of ids t = map fst (filter (\<lambda>(l, b). b \<in> set ids) (ut_labels t))"

definition DropContextualPointsOf :: "rec_env \<Rightarrow> u64 list \<Rightarrow> unit_world \<Rightarrow> nat \<times> unit_world" where
  "DropContextualPointsOf e ids w =
     (if ids = [] then (0, w)
      else let labels = collect_rows e RSelectLabels (labels_of ids (tables w));
               (dropped, w1) = mark_all e labels w
           in (length labels - length dropped, DeleteLabelRows e dropped w1))"

definition delete_rows :: "rec_env \<Rightarrow> rec_sql \<Rightarrow> (unit_tables \<Rightarrow> unit_tables) \<Rightarrow> unit_world \<Rightarrow> unit_world" where
  "delete_rows e q f w = (if re_sql e q = SqlOk then put_tables (f (tables w)) w else w)"

definition rollback_callback :: "(PendingEntry \<Rightarrow> rec_env) \<Rightarrow> unit_world callback" where
  "rollback_callback envs p w =
     (let e = envs p; doc = chars (pe_doc_id p); ids = pe_block_ids p;
          w1 = snd (mark_all e ids w);
          w2 = snd (DropContextualPointsOf e ids w1);
          w3 = (if ids = [] then w2
                else delete_rows e RDeleteBlocks (\<lambda>t. t\<lparr>ut_blocks := filter (\<lambda>b. br_block_id b \<notin> set ids) (ut_blocks t)\<rparr>) w2);
          doc_scoped = (pe_scope p = kDocument);
          w4 = (if doc_scoped \<and> doc \<noteq> [] then delete_rows e RDeleteParents (\<lambda>t. t\<lparr>ut_parents := filter (\<lambda>q. pa_doc_id q \<noteq> doc) (ut_parents t)\<rparr>) w3
                else w3);
          w5 = (if doc_scoped \<and> doc \<noteq> [] then delete_rows e RDeleteFts (\<lambda>t. t\<lparr>ut_doc_fts := filter (\<lambda>d. d \<noteq> doc) (ut_doc_fts t)\<rparr>) w4
                else w4)
      in (Status_Ok, w5))"

section \<open>Documents a crash left behind\<close>

definition crashed_doc :: "unit_tables \<Rightarrow> string \<Rightarrow> bool" where
  "crashed_doc t i \<longleftrightarrow> (\<exists>d \<in> set (ut_documents t). dr_doc_id d = i \<and> (dr_status d = ''processing'' \<or> dr_status d = ''deleting''))"

definition crashed_blocks :: "unit_tables \<Rightarrow> u64 list" where
  "crashed_blocks t = map br_block_id (filter (\<lambda>b. crashed_doc t (br_doc_id b)) (ut_blocks t))"

definition crashed_labels :: "unit_tables \<Rightarrow> u64 list" where
  "crashed_labels t = map fst (filter (\<lambda>(l, b). \<exists>r \<in> set (ut_blocks t). br_block_id r = b \<and> crashed_doc t (br_doc_id r)) (ut_labels t))"

definition orphan_labels :: "unit_tables \<Rightarrow> u64 list" where
  "orphan_labels t = map fst (filter (\<lambda>(l, b). \<not> (\<exists>r \<in> set (ut_blocks t). br_block_id r = b)) (ut_labels t))"

definition DropCrashedDocVectors :: "rec_env \<Rightarrow> unit_world \<Rightarrow> nat \<times> unit_world" where
  "DropCrashedDocVectors e w =
     (let t = tables w;
          block_ids = collect_rows e RCollectBlocks (crashed_blocks t);
          labels = collect_rows e RCollectLabels (crashed_labels t) @ collect_rows e RCollectOrphans (orphan_labels t);
          (marked, w1) = mark_all e block_ids w;
          (dropped, w2) = mark_all e labels w1;
          w3 = DeleteLabelRows e dropped w2;
          w4 = delete_rows e RDropParents (\<lambda>t. t\<lparr>ut_parents := filter (\<lambda>q. \<not> (\<exists>d \<in> set (ut_documents t).
                 dr_doc_id d = pa_doc_id q \<and> dr_status d = ''processing'')) (ut_parents t)\<rparr>) w3
      in ((length block_ids - length marked) + (length labels - length dropped), w4))"

text \<open>Step 8b of the loading of a namespace; the results are only logged.\<close>

definition doc_recovery :: "rec_env \<Rightarrow> store_env \<Rightarrow> unit_world \<Rightarrow> unit_world" where
  "doc_recovery e env w = (let w1 = snd (DropCrashedDocVectors e w) in w1\<lparr>uw_conn := snd (RecoverCrashedDocs env (uw_conn w1))\<rparr>)"

section \<open>Deleting points\<close>

lemma mark_all_sel:
  "uw_conn (snd (mark_all e is w)) = uw_conn w" "uw_blob_files (snd (mark_all e is w)) = uw_blob_files w"
  "uw_points (snd (mark_all e is w)) = uw_points w - {i \<in> set is. re_mark_ok e i}" "set (fst (mark_all e is w)) = {i \<in> set is. re_mark_ok e i}"
proof (induction "is" arbitrary: w)
  case (Cons i "is")
  { case 1 show ?case using Cons(1) by (simp add: MarkDelete_point_def case_prod_beta Let_def) }
  { case 2 show ?case using Cons(2) by (simp add: MarkDelete_point_def case_prod_beta Let_def) }
  { case 3 show ?case by (cases "re_mark_ok e i") (auto simp: MarkDelete_point_def case_prod_beta Let_def Cons(3)) }
  { case 4 show ?case by (cases "re_mark_ok e i") (auto simp: MarkDelete_point_def case_prod_beta Let_def Cons(4)) }
qed simp_all

lemma label_rows_world:
  "uw_points (DeleteLabelRows e ls w) = uw_points w" "uw_blob_files (DeleteLabelRows e ls w) = uw_blob_files w"
  "ut_blocks (tables (DeleteLabelRows e ls w)) = ut_blocks (tables w)" "ut_documents (tables (DeleteLabelRows e ls w)) = ut_documents (tables w)"
  "ut_parents (tables (DeleteLabelRows e ls w)) = ut_parents (tables w)" "ut_doc_fts (tables (DeleteLabelRows e ls w)) = ut_doc_fts (tables w)"
  "ut_marker (tables (DeleteLabelRows e ls w)) = ut_marker (tables w)"
  "sc_foreign_keys (uw_conn (DeleteLabelRows e ls w)) = sc_foreign_keys (uw_conn w)" "sc_txn (uw_conn (DeleteLabelRows e ls w)) = sc_txn (uw_conn w)"
  by (simp_all add: DeleteLabelRows_def)

lemma label_rows_good: "rec_good e \<Longrightarrow> ut_labels (tables (DeleteLabelRows e ls w)) = filter (\<lambda>(l, b). l \<notin> set ls) (ut_labels (tables w))"
  by (cases "ls = []") (auto simp: DeleteLabelRows_def rec_good_def sql_good_def filter_True)

lemma delete_rows_world: "uw_points (delete_rows e q f w) = uw_points w" "uw_blob_files (delete_rows e q f w) = uw_blob_files w"
  "tables (delete_rows e q f w) = (if re_sql e q = SqlOk then f (tables w) else tables w)"
  "sc_foreign_keys (uw_conn (delete_rows e q f w)) = sc_foreign_keys (uw_conn w)"
  by (simp_all add: delete_rows_def)

lemmas world_sel = mark_all_sel label_rows_world delete_rows_world

lemma drop_contextual_world:
  "uw_blob_files (snd (DropContextualPointsOf e ids w)) = uw_blob_files w"
  "ut_blocks (tables (snd (DropContextualPointsOf e ids w))) = ut_blocks (tables w)"
  "ut_documents (tables (snd (DropContextualPointsOf e ids w))) = ut_documents (tables w)"
  "ut_parents (tables (snd (DropContextualPointsOf e ids w))) = ut_parents (tables w)"
  "ut_doc_fts (tables (snd (DropContextualPointsOf e ids w))) = ut_doc_fts (tables w)"
  by (simp_all add: DropContextualPointsOf_def Let_def world_sel case_prod_beta)

lemma drop_contextual_points:
  "uw_points w - set (labels_of ids (tables w)) \<subseteq> uw_points (snd (DropContextualPointsOf e ids w))"
  "uw_points (snd (DropContextualPointsOf e ids w)) \<subseteq> uw_points w"
proof -
  have "set (collect_rows e RSelectLabels (labels_of ids (tables w))) \<subseteq> set (labels_of ids (tables w))"
    by (auto simp: collect_rows_def split: sql_outcome.splits dest: in_set_takeD)
  then show "uw_points w - set (labels_of ids (tables w)) \<subseteq> uw_points (snd (DropContextualPointsOf e ids w))"
    "uw_points (snd (DropContextualPointsOf e ids w)) \<subseteq> uw_points w"
    by (auto simp: DropContextualPointsOf_def Let_def world_sel case_prod_beta)
qed

lemma drop_contextual_good:
  assumes "rec_good e"
  shows "uw_points (snd (DropContextualPointsOf e ids w)) = uw_points w - set (labels_of ids (tables w))"
    "ut_labels (tables (snd (DropContextualPointsOf e ids w))) = filter (\<lambda>(l, b). l \<notin> set (labels_of ids (tables w))) (ut_labels (tables w))"
proof -
  have g: "re_sql e q = SqlOk" "re_mark_ok e i" for q i using assms by (simp_all add: rec_good_def sql_good_def)
  have "labels_of [] t = []" for t by (simp add: labels_of_def case_prod_beta)
  then show "uw_points (snd (DropContextualPointsOf e ids w)) = uw_points w - set (labels_of ids (tables w))"
    "ut_labels (tables (snd (DropContextualPointsOf e ids w))) = filter (\<lambda>(l, b). l \<notin> set (labels_of ids (tables w))) (ut_labels (tables w))"
    by (simp_all add: DropContextualPointsOf_def Let_def world_sel case_prod_beta collect_rows_def g label_rows_good[OF assms])
qed

section \<open>The rollback of a transaction\<close>


lemma not_in_labels: "p \<in> set ls \<Longrightarrow> fst p \<notin> set (map fst (filter Q ls)) \<Longrightarrow> \<not> Q p"
  by force

text \<open>
  C9: The rollback of a transaction undoes the transaction and nothing else.  When no statement and no deletion fails, the points
  left are those that are neither under one of its block identifiers nor under a label recorded for one, the rows left in blocks
  are the others', the label rows left are those whose label is not recorded for one of its blocks, so that no label row of its
  blocks remains, the documents are as they were, and the parents and the full-text row go only for the transaction of an ingest.
  What a failing statement leaves is rollback_keeps_others below.
\<close>
theorem rollback_undoes_exactly:
  assumes "rec_good (envs p)" "rollback_callback envs p w = (st, w')"
  shows "ok st \<and> uw_points w' = uw_points w - set (pe_block_ids p) - set (labels_of (pe_block_ids p) (tables w)) \<and>
    ut_blocks (tables w') = filter (\<lambda>b. br_block_id b \<notin> set (pe_block_ids p)) (ut_blocks (tables w)) \<and>
    ut_labels (tables w') = filter (\<lambda>(l, b). l \<notin> set (labels_of (pe_block_ids p) (tables w))) (ut_labels (tables w)) \<and>
    labels_of (pe_block_ids p) (tables w') = [] \<and> ut_documents (tables w') = ut_documents (tables w) \<and>
    (if pe_scope p = kDocument \<and> chars (pe_doc_id p) \<noteq> []
     then ut_parents (tables w') = filter (\<lambda>q. pa_doc_id q \<noteq> chars (pe_doc_id p)) (ut_parents (tables w)) \<and>
          ut_doc_fts (tables w') = filter (\<lambda>d. d \<noteq> chars (pe_doc_id p)) (ut_doc_fts (tables w))
     else ut_parents (tables w') = ut_parents (tables w) \<and> ut_doc_fts (tables w') = ut_doc_fts (tables w))"
proof -
  let ?ids = "pe_block_ids p" and ?e = "envs p"
  have g: "re_sql ?e q = SqlOk" "re_mark_ok ?e i" for q i using assms(1) by (simp_all add: rec_good_def sql_good_def)
  have st: "st = Status_Ok" and w: "w' = snd (rollback_callback envs p w)" using assms(2) by (simp_all add: rollback_callback_def Let_def)
  have l: "ut_labels (tables w') = filter (\<lambda>(l, b). l \<notin> set (labels_of ?ids (tables w))) (ut_labels (tables w))"
    unfolding w by (simp add: rollback_callback_def Let_def world_sel g drop_contextual_good[OF assms(1)])
  have "labels_of ?ids (tables w') = []"
    using not_in_labels[of _ "ut_labels (tables w)" "\<lambda>(l, b). b \<in> set ?ids"] unfolding labels_of_def l filter_empty_conv map_is_Nil_conv
    by (simp add: labels_of_def case_prod_unfold)
  moreover have "uw_points w' = uw_points w - set ?ids - set (labels_of ?ids (tables w))"
    unfolding w by (simp add: rollback_callback_def Let_def world_sel g drop_contextual_good[OF assms(1)])
  moreover have "ut_blocks (tables w') = filter (\<lambda>b. br_block_id b \<notin> set ?ids) (ut_blocks (tables w))"
    unfolding w by (simp add: rollback_callback_def Let_def world_sel g drop_contextual_world)
  moreover have "ut_documents (tables w') = ut_documents (tables w)"
    unfolding w by (simp add: rollback_callback_def Let_def world_sel g drop_contextual_world)
  moreover have "if pe_scope p = kDocument \<and> chars (pe_doc_id p) \<noteq> []
     then ut_parents (tables w') = filter (\<lambda>q. pa_doc_id q \<noteq> chars (pe_doc_id p)) (ut_parents (tables w)) \<and>
          ut_doc_fts (tables w') = filter (\<lambda>d. d \<noteq> chars (pe_doc_id p)) (ut_doc_fts (tables w))
     else ut_parents (tables w') = ut_parents (tables w) \<and> ut_doc_fts (tables w') = ut_doc_fts (tables w)"
    unfolding w by (simp add: rollback_callback_def Let_def world_sel g drop_contextual_world)
  ultimately show ?thesis using st l by simp
qed

text \<open>A unit with two uploads, a block of the first and a point under a contextual label of block 4.\<close>

definition good_rec :: rec_env where
  "good_rec = \<lparr>re_sql = sql_good, re_rows = 0, re_mark_ok = (\<lambda>_. True)\<rparr>"

definition sample_unit :: unit_world where
  "sample_unit = (let s = two_uploads ''09:00'' ''10:00'' in
     \<lparr>uw_conn = set_tables ((sc_tables s)\<lparr>ut_blocks := [row_of_block (CortrixBlock_default\<lparr>bk_block_id := 4, bk_doc_id := ''1''\<rparr>)],
        ut_labels := [(7, 4)]\<rparr>) s, uw_points = {4, 5, 7, 9}, uw_blob_files = []\<rparr>)"

lemma sample_unit_sel:
  "rec_good good_rec" "uw_points sample_unit = {4, 5, 7, 9}" "labels_of is (tables sample_unit) = (if 4 \<in> set is then [7] else [])"
  "ut_blocks (tables sample_unit) = [row_of_block (CortrixBlock_default\<lparr>bk_block_id := 4, bk_doc_id := ''1''\<rparr>)]"
  by (simp_all add: rec_good_def good_rec_def sample_unit_def set_tables_def labels_of_def Let_def)

theorem rollback_undoes_exactly_witness:
  "\<exists>w'. rollback_callback (\<lambda>_. good_rec) (pending_record 1 7 [0x64] [4, 5] False kDocument) sample_unit = (Status_Ok, w') \<and>
     uw_points w' = {9} \<and> ut_blocks (tables w') = []"
proof -
  let ?p = "pending_record 1 7 [0x64] [4, 5] False kDocument"
  obtain w' where r: "rollback_callback (\<lambda>_. good_rec) ?p sample_unit = (Status_Ok, w')" by (simp add: rollback_callback_def Let_def)
  have ids: "pe_block_ids ?p = [4, 5]" "br_block_id (row_of_block (CortrixBlock_default\<lparr>bk_block_id := 4, bk_doc_id := ''1''\<rparr>)) = 4"
    by (simp_all add: pending_record_def row_of_block_def)
  have "uw_points w' = {4, 5, 7, 9} - {4, 5} - {7}" "ut_blocks (tables w') = []"
    using rollback_undoes_exactly[OF sample_unit_sel(1) r] by (simp_all add: ids sample_unit_sel)
  then show ?thesis using r by auto
qed

text \<open>Whatever fails, a rollback touches no block and no document of another transaction.\<close>

lemma rollback_keeps_others:
  "ut_documents (tables (snd (rollback_callback envs p w))) = ut_documents (tables w)"
  "b \<in> set (ut_blocks (tables w)) \<Longrightarrow> br_block_id b \<notin> set (pe_block_ids p) \<Longrightarrow> b \<in> set (ut_blocks (tables (snd (rollback_callback envs p w))))"
  by (simp_all add: rollback_callback_def Let_def world_sel drop_contextual_world)

text \<open>
  C8: A recovery keeps what was committed.  A block of a transaction with a committed record in the log, whose identifier no other
  transaction of the log uses, is still a row after the recovery, whatever statements fail on the way and in whatever order the
  transactions are resolved.
\<close>
theorem committed_blocks_survive:
  assumes "Recover cfg (recover_stores e) (Some (rollback_callback envs)) renv ios cenv now order c w = Some (st, c', w')"
    and "wc_wal c = Some wal" "pwl_ReadAll renv wal = Some (Inr es, wal1)"
    and "b \<in> set (ut_blocks (tables w))"
    and "\<forall>p \<in> set es. br_block_id b \<in> set (pe_block_ids p) \<longrightarrow> has_record es (pe_txn_id p) kCommitted"
  shows "b \<in> set (ut_blocks (tables w'))"
proof (rule Recover_keeps[where P = "\<lambda>v. b \<in> set (ut_blocks (tables v))", OF assms(1,4,2,3)])
  fix f v x p
  assume f: "Some (rollback_callback envs) = Some f" and b: "b \<in> set (ut_blocks (tables v))"
    and u: "undone (AllStoresHave (\<lambda>w i. i \<in> uw_points w) (BlockExists e) (\<lambda>w doc. BlobExists w (chars doc))) es v x p"
  have "br_block_id b \<notin> set (pe_block_ids p)" using u assms(5) unfolding undone_def by force
  then show "b \<in> set (ut_blocks (tables (snd (f p v))))" using f rollback_keeps_others(2)[OF b, of p envs] by simp
qed (simp_all add: recover_stores_def)

theorem committed_blocks_survive_witness:
  "\<exists>c c' w'. Recover default_config (recover_stores good_rec) (Some (rollback_callback (\<lambda>_. good_rec))) io_good (\<lambda>_. io_good) io_good 9 [1] c
      sample_unit = Some (Status_Ok, c', w') \<and> row_of_block (CortrixBlock_default\<lparr>bk_block_id := 4, bk_doc_id := ''1''\<rparr>) \<in> set (ut_blocks (tables w'))"
proof -
  let ?es = "[pending_record 1 7 [0x64] [4, 5] False kDocument, terminal_record kCommitted 1 8]"
  obtain wal0 where w0: "wc_wal one_pending = Some wal0" "clean wal0 [pending_record 1 7 [0x64] [4, 5] False kDocument]" "writable wal0"
    by (rule one_pending_clean)
  obtain wal where w: "clean wal ?es" "writable wal"
    using Append_good_clean[OF w0(2,3), of "terminal_record kCommitted 1 8"]
    by (auto simp: entry_fits_def carried_def terminal_record_def PendingEntry_default_def)
  let ?c = "one_pending\<lparr>wc_wal := Some wal\<rparr>"
  obtain c' w' where r: "Recover default_config (recover_stores good_rec) (Some (rollback_callback (\<lambda>_. good_rec))) io_good (\<lambda>_. io_good) io_good 9 [1]
      ?c sample_unit = Some (Status_Ok, c', w')"
  proof -
    have "\<exists>c' w' wal'. Recover default_config (recover_stores good_rec) (Some (rollback_callback (\<lambda>_. good_rec))) io_good (\<lambda>_. io_good) io_good 9 [1]
        ?c sample_unit = Some (Status_Ok, c', w') \<and> wc_wal c' = Some wal' \<and> clean wal' [] \<and> pl_synced wal' = length (log_image []) \<and>
      wc_active_txns c' = Map.empty \<and> wc_active_docs c' = Map.empty \<and> wc_committed_since_compact c' = 0 \<and> wc_next_txn_id c' = max_txn_id ?es + 1"
      by (rule Recover_good[OF _ w]) (simp_all add: default_config_def pending_record_def terminal_record_def recover_stores_def)
    then show thesis using that by blast
  qed
  have rd: "pwl_ReadAll io_good wal = Some (Inr ?es, wal)" by (rule ReadAll_clean[OF w(1)]) simp_all
  have "row_of_block (CortrixBlock_default\<lparr>bk_block_id := 4, bk_doc_id := ''1''\<rparr>) \<in> set (ut_blocks (tables w'))"
    by (rule committed_blocks_survive[OF r _ rd]) (simp_all add: sample_unit_sel pending_record_def terminal_record_def has_record_def)
  with r show ?thesis by blast
qed

section \<open>Documents after a crash\<close>

lemma fold_blocks_good:
  assumes "se_sql env = sql_good"
  shows "fold (\<lambda>i. drop_blocks_stmt env (q i) i) is s = set_tables (drop_blocks_of (\<lambda>i. i \<in> set is) (sc_tables s)) s"
proof (induction "is" arbitrary: s)
  case Nil
  show ?case by (simp add: drop_blocks_of_def set_tables_def)
next
  case (Cons i "is")
  have "drop_blocks_stmt env (q i) i s = set_tables (drop_blocks_of (\<lambda>j. j = i) (sc_tables s)) s"
    using assms by (simp add: drop_blocks_stmt_def sql_good_def)
  then show ?case by (simp add: Cons) (simp add: drop_blocks_of_def set_tables_def conj_commute)
qed

lemma not_referenced: "\<not> doc_referenced (\<lambda>d. dr_doc_id d = i) (set_tables (drop_blocks_of (\<lambda>j. j = i) t) s)"
  by (simp add: doc_referenced_def set_tables_def drop_blocks_of_def)

lemma fold_docs_good:
  assumes "se_sql env = sql_good"
  shows "fold (\<lambda>i s. drop_doc_stmt env (q i) i (drop_blocks_stmt env (r i) i s)) is s =
    set_tables (drop_docs (\<lambda>d. dr_doc_id d \<in> set is) (drop_blocks_of (\<lambda>i. i \<in> set is) (sc_tables s))) s"
proof (induction "is" arbitrary: s)
  case Nil
  show ?case by (simp add: drop_blocks_of_def drop_docs_def set_tables_def)
next
  case (Cons i "is")
  have "drop_doc_stmt env (q i) i (drop_blocks_stmt env (r i) i s) =
      set_tables (drop_docs (\<lambda>d. dr_doc_id d = i) (drop_blocks_of (\<lambda>j. j = i) (sc_tables s))) s"
    using assms not_referenced by (simp add: drop_blocks_stmt_def drop_doc_stmt_def sql_good_def set_tables_def)
  then show ?case by (simp add: Cons) (simp add: drop_blocks_of_def drop_docs_def set_tables_def conj_commute)
qed

definition reset_doc :: "store_env \<Rightarrow> doc_row \<Rightarrow> doc_row" where
  "reset_doc env d = (if dr_status d = ''processing'' then d\<lparr>dr_status := ''pending'', dr_updated_at := se_now env\<rparr> else d)"

lemma reset_doc_sel [simp]: "dr_doc_id (reset_doc env d) = dr_doc_id d" "dr_status (reset_doc env d) \<noteq> ''processing''"
  "dr_status (reset_doc env d) = ''deleting'' \<longleftrightarrow> dr_status d = ''deleting''"
  by (simp_all add: reset_doc_def)

lemma docs_in_reset: "docs_in ''deleting'' (t\<lparr>ut_documents := map (reset_doc env) ds\<rparr>) = docs_in ''deleting'' (t\<lparr>ut_documents := ds\<rparr>)"
  by (simp add: docs_in_def filter_map comp_def)

lemma set_docs_in: "i \<in> set (docs_in st t) \<longleftrightarrow> (\<exists>d \<in> set (ut_documents t). dr_doc_id d = i \<and> dr_status d = st)"
  by (auto simp: docs_in_def)

lemma crashed_doc_in: "crashed_doc t i \<longleftrightarrow> i \<in> set (docs_in ''processing'' t) \<or> i \<in> set (docs_in ''deleting'' t)"
  unfolding crashed_doc_def set_docs_in by blast

lemma recover_docs_good:
  assumes "se_sql env = sql_good"
  shows "RecoverCrashedDocs env s = (0, set_tables ((sc_tables s)\<lparr>
      ut_documents := map (reset_doc env) (filter (\<lambda>d. dr_doc_id d \<notin> set (docs_in ''deleting'' (sc_tables s))) (docs_of s)),
      ut_blocks := filter (\<lambda>b. \<not> crashed_doc (sc_tables s) (br_doc_id b)) (ut_blocks (sc_tables s))\<rparr>) s)"
proof -
  let ?t = "sc_tables s" and ?ps = "docs_in ''processing'' (sc_tables s)"
  have g: "se_sql env q = SqlOk" for q using assms by (simp add: sql_good_def)
  have id: "map (reset_doc env) (docs_of s) = docs_of s" if "?ps = []"
    using that by (auto simp: docs_in_def filter_empty_conv reset_doc_def intro: map_idI)
  have s2: "(if ?ps = [] then fold (\<lambda>i. drop_blocks_stmt env (DDropBlocks i) i) ?ps s
        else snd (update_docs env DReset (\<lambda>d. dr_status d = ''processing'') (\<lambda>d. d\<lparr>dr_status := ''pending'', dr_updated_at := se_now env\<rparr>)
          (fold (\<lambda>i. drop_blocks_stmt env (DDropBlocks i) i) ?ps s))) =
      set_tables ((drop_blocks_of (\<lambda>i. i \<in> set ?ps) ?t)\<lparr>ut_documents := map (reset_doc env) (docs_of s)\<rparr>) s"
    using id unfolding fold_blocks_good[OF assms]
    by (auto simp: update_docs_def g update_rows_def reset_doc_def[abs_def] set_tables_def drop_blocks_of_def)
  have same: "docs_in st (t\<lparr>ut_blocks := bs\<rparr>) = docs_in st t" for st t bs by (simp add: docs_in_def)
  have "docs_in ''deleting'' ((drop_blocks_of (\<lambda>i. i \<in> set ?ps) ?t)\<lparr>ut_documents := map (reset_doc env) (docs_of s)\<rparr>) = docs_in ''deleting'' ?t"
    by (simp add: docs_in_def filter_map comp_def)
  then show ?thesis
    unfolding RecoverCrashedDocs_def Let_def delivered_def
    by (simp only: g s2 sql_outcome.distinct simp_thms if_True if_False fold_docs_good[OF assms])
      (simp add: set_tables_def drop_blocks_of_def drop_docs_def filter_map comp_def crashed_doc_in same docs_in_reset)
qed

lemma drop_crashed_good:
  fixes w :: unit_world
  assumes "rec_good e"
  defines "w' \<equiv> snd (DropCrashedDocVectors e w)" and "t \<equiv> tables w"
  shows "uw_points w' = uw_points w - set (crashed_blocks t) - set (crashed_labels t @ orphan_labels t)"
    and "ut_labels (tables w') = filter (\<lambda>(l, b). l \<notin> set (crashed_labels t @ orphan_labels t)) (ut_labels t)"
    and "ut_documents (tables w') = ut_documents t" and "ut_blocks (tables w') = ut_blocks t"
    and "ut_parents (tables w') = filter (\<lambda>q. pa_doc_id q \<notin> set (docs_in ''processing'' t)) (ut_parents t)"
proof -
  have g: "re_sql e q = SqlOk" "re_mark_ok e i" for q i using assms(1) by (simp_all add: rec_good_def sql_good_def)
  note d = w'_def t_def DropCrashedDocVectors_def Let_def case_prod_beta collect_rows_def
  show "uw_points w' = uw_points w - set (crashed_blocks t) - set (crashed_labels t @ orphan_labels t)"
    unfolding d by (auto simp: world_sel g)
  show "ut_labels (tables w') = filter (\<lambda>(l, b). l \<notin> set (crashed_labels t @ orphan_labels t)) (ut_labels t)"
    unfolding d by (simp add: world_sel g label_rows_good[OF assms(1)] case_prod_unfold)
  show "ut_documents (tables w') = ut_documents t" "ut_blocks (tables w') = ut_blocks t"
    unfolding d by (simp_all add: world_sel g)
  show "ut_parents (tables w') = filter (\<lambda>q. pa_doc_id q \<notin> set (docs_in ''processing'' t)) (ut_parents t)"
    unfolding d set_docs_in by (simp add: world_sel g Bex_def conj_commute)
qed

lemma doc_recovery_good:
  assumes "rec_good e" "se_sql env = sql_good"
  shows "tables (doc_recovery e env w) = (tables (snd (DropCrashedDocVectors e w)))\<lparr>
      ut_documents := map (reset_doc env) (filter (\<lambda>d. dr_doc_id d \<notin> set (docs_in ''deleting'' (tables w))) (ut_documents (tables w))),
      ut_blocks := filter (\<lambda>b. \<not> crashed_doc (tables w) (br_doc_id b)) (ut_blocks (tables w))\<rparr>"
    "uw_points (doc_recovery e env w) = uw_points (snd (DropCrashedDocVectors e w))"
proof -
  note v = drop_crashed_good[OF assms(1), of w]
  have same: "docs_in st (tables (snd (DropCrashedDocVectors e w))) = docs_in st (tables w)" for st by (simp add: docs_in_def v(3))
  show "tables (doc_recovery e env w) = (tables (snd (DropCrashedDocVectors e w)))\<lparr>
      ut_documents := map (reset_doc env) (filter (\<lambda>d. dr_doc_id d \<notin> set (docs_in ''deleting'' (tables w))) (ut_documents (tables w))),
      ut_blocks := filter (\<lambda>b. \<not> crashed_doc (tables w) (br_doc_id b)) (ut_blocks (tables w))\<rparr>"
    "uw_points (doc_recovery e env w) = uw_points (snd (DropCrashedDocVectors e w))"
    by (simp_all add: doc_recovery_def Let_def recover_docs_good[OF assms(2)] same v(3,4) crashed_doc_in)
qed




section \<open>What a crash costs\<close>

lemma processing_crashed:
  assumes "doc_update_status env i ds_kProcessing msg s = (0, s')"
  shows "crashed_doc (sc_tables s') i"
proof -
  obtain n where u: "update_docs env DUpdateStatus (\<lambda>d. dr_doc_id d = i \<and> live_doc d)
      (\<lambda>d. d\<lparr>dr_status := ''processing'', dr_error_message := msg, dr_updated_at := se_now env\<rparr>) s = (n, s')" and "rc_of n = 0"
    using assms by (auto simp: doc_update_status_def UpdateStatusLocked_def Let_def split: prod.splits)
  then obtain d where d: "d \<in> set (docs_of s)" "dr_doc_id d = i" "live_doc d"
    by (auto simp: update_docs_def rc_of_0 changes_def filter_empty_conv split: if_splits)
  have docs: "docs_of s' = update_rows (\<lambda>d. dr_doc_id d = i \<and> live_doc d)
      (\<lambda>d. d\<lparr>dr_status := ''processing'', dr_error_message := msg, dr_updated_at := se_now env\<rparr>) (docs_of s)"
    using u \<open>rc_of n = 0\<close> by (auto simp: update_docs_def rc_of_0 split: if_splits)
  have "d\<lparr>dr_status := ''processing'', dr_error_message := msg, dr_updated_at := se_now env\<rparr> \<in> set (docs_of s')"
    unfolding docs update_rows_def set_map by (rule image_eqI[where x = d]) (use d in simp_all)
  then show ?thesis unfolding crashed_doc_def using d(2) by (intro bexI) simp_all
qed

text \<open>
  A crash erases what earlier transactions of the document committed.  A document that is set to processing again, as the document
  of a memory session is for each turn, loses all its blocks in the recovery, those of turns whose transactions were committed
  long before as well.
\<close>
theorem recovery_erases_committed_turns:
  assumes "rec_good e" "se_sql env = sql_good" "doc_update_status env' i ds_kProcessing msg (uw_conn w) = (0, s')"
  shows "\<forall>b \<in> set (ut_blocks (tables (doc_recovery e env (w\<lparr>uw_conn := s'\<rparr>)))). br_doc_id b \<noteq> i"
  using processing_crashed[OF assms(3)] by (auto simp: doc_recovery_good(1)[OF assms(1,2)])

lemma collect_rows_subset: "set (collect_rows e q rows) \<subseteq> set rows"
  by (auto simp: collect_rows_def split: sql_outcome.splits dest: in_set_takeD)

lemma unmarked_stays:
  "\<not> re_mark_ok e i \<Longrightarrow> i \<in> uw_points w \<Longrightarrow> i \<in> uw_points (snd (DropContextualPointsOf e ids w))"
  by (simp add: DropContextualPointsOf_def Let_def world_sel case_prod_beta)

lemma unnamed_stays:
  assumes "i \<in> uw_points w" "i \<notin> br_block_id ` set (ut_blocks (tables w))" "i \<notin> fst ` set (ut_labels (tables w))"
  shows "i \<in> uw_points (doc_recovery e env w)"
proof -
  have "set (crashed_blocks (tables w)) \<subseteq> br_block_id ` set (ut_blocks (tables w))"
    "set (crashed_labels (tables w)) \<subseteq> fst ` set (ut_labels (tables w))" "set (orphan_labels (tables w)) \<subseteq> fst ` set (ut_labels (tables w))"
    unfolding crashed_blocks_def crashed_labels_def orphan_labels_def set_map by (intro image_mono filter_is_subset)+
  then have "i \<notin> set (collect_rows e RCollectBlocks (crashed_blocks (tables w)))" "i \<notin> set (collect_rows e RCollectLabels (crashed_labels (tables w)))"
    "i \<notin> set (collect_rows e RCollectOrphans (orphan_labels (tables w)))" using assms(2,3) by (meson collect_rows_subset subsetD)+
  then show ?thesis using assms(1) by (simp add: doc_recovery_def DropCrashedDocVectors_def Let_def case_prod_beta world_sel)
qed

text \<open>
  A vector whose deletion fails in a rollback is never found again: its block row is deleted all the same, and recovery looks for
  vectors through the rows.
\<close>
theorem failed_mark_orphans_vector:
  assumes "i \<in> set (pe_block_ids p)" "i \<in> uw_points w" "\<not> re_mark_ok (envs p) i" "re_sql (envs p) RDeleteBlocks = SqlOk"
    and "rollback_callback envs p w = (st, w')" "i \<notin> fst ` set (ut_labels (tables w'))"
  shows "ok st \<and> i \<notin> br_block_id ` set (ut_blocks (tables w')) \<and> (\<forall>e env. i \<in> uw_points (doc_recovery e env w'))"
proof -
  have w: "st = Status_Ok" "w' = snd (rollback_callback envs p w)" using assms(5) by (simp_all add: rollback_callback_def Let_def)
  have "i \<in> uw_points (snd (mark_all (envs p) (pe_block_ids p) w))" using assms(2,3) by (simp add: world_sel)
  then have "i \<in> uw_points w'" unfolding w(2) using unmarked_stays[OF assms(3)] by (simp add: rollback_callback_def Let_def world_sel)
  moreover have "i \<notin> br_block_id ` set (ut_blocks (tables w'))"
    unfolding w(2) using assms(1,4) by (auto simp: rollback_callback_def Let_def world_sel)
  ultimately show ?thesis using unnamed_stays assms(6) w(1) by simp
qed

end
