(* ===== verification/Blob_Store.thy ===== *)
theory Blob_Store
  imports Prelude
begin

text \<open>
  The blob store (\<^verbatim>\<open>src/store/cortrix_blob_local.cpp\<close>): the original bytes of a document, one file each.  The files are a map
  from paths to contents.  \<open>std::hash\<close> is the library's choice and a parameter.  The outcome of each call on the file system
  is a field of the environment; \<open>be_flushed\<close> is how much of the stream reaches the file when its buffer is flushed and the
  stream is closed, whose errors the code does not ask for.
\<close>

section \<open>Paths\<close>

type_synonym blob_files = "string \<rightharpoonup> bytes"

definition MakePath :: "(string \<Rightarrow> nat) \<Rightarrow> string \<Rightarrow> string \<Rightarrow> string \<Rightarrow> string" where
  "MakePath hash base_dir ns doc_id =
     base_dir @ ''/ns_'' @ ns @ ''/blobs/'' @ to_string (hash doc_id mod 256) @ ''/'' @ doc_id @ ''.raw''"

definition tmp_path :: "string \<Rightarrow> string" where
  "tmp_path path = path @ ''.tmp''"

section \<open>Operations\<close>

record blob_env =
  be_mkdir :: bool
  be_open :: bool
  be_write :: bool
  be_flushed :: "nat option"
  be_rename :: bool
  be_remove :: bool
  be_exists :: bool
  be_size_known :: bool
  be_read :: bool

definition reaches_disk :: "blob_env \<Rightarrow> bytes \<Rightarrow> bytes" where
  "reaches_disk env data = (case be_flushed env of None \<Rightarrow> data | Some n \<Rightarrow> take n data)"

text \<open>\<open>std::remove\<close> of the temporary file; its result is not used.\<close>

definition remove_tmp :: "blob_env \<Rightarrow> string \<Rightarrow> blob_files \<Rightarrow> blob_files" where
  "remove_tmp env path fs = (if be_remove env then fs(tmp_path path := None) else fs)"

definition blob_store :: "blob_env \<Rightarrow> string \<Rightarrow> bytes \<Rightarrow> blob_files \<Rightarrow> int \<times> blob_files" where
  "blob_store env path data fs =
     (if \<not> be_mkdir env then (- 1, fs)
      else if \<not> be_open env then (- 1, fs)
      else let fs1 = fs(tmp_path path \<mapsto> reaches_disk env data) in
        if \<not> be_write env then (- 1, remove_tmp env path fs1)
        else if \<not> be_rename env then (- 1, remove_tmp env path fs1)
        else (0, fs1(tmp_path path := None, path \<mapsto> reaches_disk env data)))"

definition blob_load :: "blob_env \<Rightarrow> string \<Rightarrow> blob_files \<Rightarrow> int \<times> bytes option" where
  "blob_load env path fs =
     (case fs path of
        None \<Rightarrow> (- 2, None)
      | Some c \<Rightarrow>
          if \<not> be_open env then (- 2, None)
          else if \<not> be_size_known env \<or> c = [] then (0, Some [])
          else if \<not> be_read env then (- 1, None)
          else (0, Some c))"

definition blob_del :: "blob_env \<Rightarrow> string \<Rightarrow> blob_files \<Rightarrow> int \<times> blob_files" where
  "blob_del env path fs =
     (if fs path = None \<or> \<not> be_exists env then (- 2, fs)
      else if \<not> be_remove env then (- 1, fs)
      else (0, fs(path := None)))"

definition blob_good :: blob_env where
  "blob_good = \<lparr>be_mkdir = True, be_open = True, be_write = True, be_flushed = None, be_rename = True, be_remove = True, be_exists = True,
     be_size_known = True, be_read = True\<rparr>"

section \<open>Paths do not collide\<close>

lemma to_string_no_slash: "CHR ''/'' \<notin> set (to_string n)"
proof (induction n rule: to_string.induct)
  case (1 n)
  have "CHR ''/'' \<noteq> char_of (48 + k)" if "k < 10" for k :: nat
  proof -
    have "of_char (char_of (48 + k) :: char) = (48 + k) mod 256" by simp
    also have "\<dots> \<noteq> of_char (CHR ''/'')" using that by simp
    finally show ?thesis by metis
  qed
  then have "CHR ''/'' \<noteq> char_of (48 + n mod 10)" "n < 10 \<Longrightarrow> CHR ''/'' \<noteq> char_of (48 + n)" by auto
  then show ?case using 1 by (subst to_string.simps) simp
qed

lemma split_at_slash:
  assumes "a @ CHR ''/'' # b = a' @ CHR ''/'' # b'" "CHR ''/'' \<notin> set a" "CHR ''/'' \<notin> set a'"
  shows "b = b'"
  using assms by (auto simp: append_eq_append_conv2 Cons_eq_append_conv append_eq_Cons_conv)

text \<open>
  Two documents of a namespace never share a file, whatever the hash: the path determines the identifier.  The temporary file of
  one document is not the file of another.
\<close>

lemma MakePath_inj [simp]: "MakePath hash base ns d = MakePath hash base ns d' \<longleftrightarrow> d = d'"
  using split_at_slash[OF _ to_string_no_slash to_string_no_slash, of "hash d mod 256" "d @ ''.raw''" "hash d' mod 256" "d' @ ''.raw''"]
  by (auto simp: MakePath_def)

lemma MakePath_not_tmp: "MakePath hash base ns d' \<noteq> tmp_path (MakePath hash base ns d)"
proof -
  have "last (tmp_path (MakePath hash base ns d)) = CHR ''p''" "last (MakePath hash base ns d') = CHR ''w''"
    by (simp_all add: tmp_path_def MakePath_def)
  then show ?thesis by auto
qed

section \<open>Storing is atomic\<close>

lemma tmp_neq [simp]: "tmp_path p \<noteq> p" "p \<noteq> tmp_path p"
  by (simp_all add: tmp_path_def)

lemma blob_store_cases:
  assumes "blob_store env path data fs = (rc, fs')"
  shows "(rc = 0 \<and> fs' path = Some (reaches_disk env data) \<or> rc = - 1 \<and> fs' path = fs path) \<and> (\<forall>q. q \<noteq> path \<longrightarrow> q \<noteq> tmp_path path \<longrightarrow> fs' q = fs q)"
  using assms by (auto simp: blob_store_def remove_tmp_def Let_def split: if_splits)

text \<open>
  C24: A store is all or nothing for the readers.  If it returns 0 and the stream reached the file, the blob that is read back is
  the one that was stored; if it returns an error the old blob, or its absence, is what a reader still finds; and no other blob
  changes in either case.
\<close>
theorem blob_store_atomic:
  assumes "blob_store env (MakePath hash base ns d) data fs = (rc, fs')"
    and "be_open env'" "be_size_known env'" "be_read env'"
  shows "(rc = 0 \<longrightarrow> be_flushed env = None \<longrightarrow> blob_load env' (MakePath hash base ns d) fs' = (0, Some data)) \<and>
    (rc \<noteq> 0 \<longrightarrow> blob_load env' (MakePath hash base ns d) fs' = blob_load env' (MakePath hash base ns d) fs) \<and>
    (\<forall>d'. d' \<noteq> d \<longrightarrow> blob_load env' (MakePath hash base ns d') fs' = blob_load env' (MakePath hash base ns d') fs)"
proof -
  note c = blob_store_cases[OF assms(1)]
  have "fs' (MakePath hash base ns d') = fs (MakePath hash base ns d')" if "d' \<noteq> d" for d' using c that MakePath_not_tmp by simp
  then show ?thesis using c assms(2-4) by (auto simp: blob_load_def reaches_disk_def)
qed

theorem blob_store_atomic_witness:
  "blob_load blob_good (MakePath length ''u'' ''n'' ''1'') (snd (blob_store blob_good (MakePath length ''u'' ''n'' ''1'') [1, 2] Map.empty)) = (0, Some [1, 2])"
proof -
  obtain fs' where s: "blob_store blob_good (MakePath length ''u'' ''n'' ''1'') [1, 2] Map.empty = (0, fs')"
    by (simp add: blob_store_def blob_good_def Let_def)
  show ?thesis using blob_store_atomic[OF s, of blob_good] s by (simp add: blob_good_def)
qed

text \<open>
  The flush at the end of the write is not checked, and neither is the close of the stream.  When the disk is full at that moment
  the short file is renamed into place and the store is acknowledged.
\<close>
theorem short_blob_acknowledged:
  "\<exists>fs'. blob_store (blob_good\<lparr>be_flushed := Some 1\<rparr>) p [1, 2] fs = (0, fs') \<and> blob_load blob_good p fs' = (0, Some [1])"
  by (simp add: blob_store_def blob_load_def blob_good_def reaches_disk_def Let_def)

text \<open>A deleted blob is not found any more, and a second deletion says so.\<close>

lemma blob_del_load: "blob_del env p fs = (0, fs') \<Longrightarrow> fst (blob_load env' p fs') = - 2 \<and> fst (blob_del env'' p fs') = - 2"
  by (auto simp: blob_del_def blob_load_def split: if_splits)

end
