(* ===== verification/Document_Gc.thy ===== *)
theory Document_Gc
  imports Document_Versions Blob_Store
begin

text \<open>
  The collection of deleted documents and their restore (\<^verbatim>\<open>src/catalog/gc/document_gc_sweeper.cpp\<close>).  A namespace is
  its store, the points of its vector index and its blobs; the world gives one to each namespace.  The list of namespaces and
  the outcome of \<open>Acquire\<close> come from the router and the pool and are fields of the environment, as are the clock and the
  outcomes of the statements, one environment of the store for each document of a namespace.  The mutex of the sweeper makes a
  run one step; requests that use the stores meanwhile are not part of it.  \<open>GcConfig\<close> has the fields the sweeper reads, and the
  messages and the namespace of a failed restore are left out.
\<close>

section \<open>The world of the sweeper\<close>

record gc_unit =
  gu_conn :: store_conn
  gu_points :: "u64 set"
  gu_files :: blob_files

record GcConfig =
  gc_soft_delete_retention_days :: int
  gc_max_purge_per_run :: int
  gc_dry_run :: bool

record SweepReport =
  sr_docs_hard_deleted :: int
  sr_blocks_deleted :: int
  sr_blobs_deleted :: int
  sr_hit_run_cap :: bool

record gc_env =
  ge_now :: int
  ge_list :: "Status + string list"
  ge_acquire :: "string \<Rightarrow> bool"
  ge_listing :: "string \<Rightarrow> store_env"
  ge_store :: "string \<Rightarrow> string \<Rightarrow> store_env"
  ge_mark :: "string \<Rightarrow> u64 \<Rightarrow> bool"
  ge_blob :: "string \<Rightarrow> string \<Rightarrow> blob_env"
  ge_path :: "string \<Rightarrow> string \<Rightarrow> string"

definition DaysToMs :: "int \<Rightarrow> int" where
  "DaysToMs days = days * 24 * 3600 * 1000"

definition int64_max :: int where
  "int64_max = 2 ^ 63 - 1"

section \<open>The sweep\<close>

definition no_report :: SweepReport where
  "no_report = \<lparr>sr_docs_hard_deleted = 0, sr_blocks_deleted = 0, sr_blobs_deleted = 0, sr_hit_run_cap = False\<rparr>"

definition sweep_doc :: "gc_env \<Rightarrow> string \<Rightarrow> string \<Rightarrow> gc_unit \<Rightarrow> SweepReport \<Rightarrow> gc_unit \<times> SweepReport" where
  "sweep_doc env ns doc u rep =
     (let e = ge_store env ns doc;
          blocks = snd (block_get_by_doc e doc (gu_conn u));
          points = gu_points u - set (filter (ge_mark env ns) (map bk_block_id blocks));
          files = snd (blob_del (ge_blob env ns doc) (ge_path env ns doc) (gu_files u));
          conn1 = snd (block_delete_by_doc e doc (gu_conn u));
          conn2 = snd (doc_delete e doc conn1)
      in (\<lparr>gu_conn = conn2, gu_points = points, gu_files = files\<rparr>,
          rep\<lparr>sr_docs_hard_deleted := sr_docs_hard_deleted rep + 1, sr_blocks_deleted := sr_blocks_deleted rep + int (length blocks),
              sr_blobs_deleted := sr_blobs_deleted rep + 1\<rparr>))"

fun sweep_docs :: "GcConfig \<Rightarrow> gc_env \<Rightarrow> string \<Rightarrow> string list \<Rightarrow> gc_unit \<Rightarrow> SweepReport \<Rightarrow> gc_unit \<times> SweepReport" where
  "sweep_docs cfg env ns [] u rep = (u, rep)"
| "sweep_docs cfg env ns (doc # docs) u rep =
     (if sr_docs_hard_deleted rep \<ge> gc_max_purge_per_run cfg then (u, rep\<lparr>sr_hit_run_cap := True\<rparr>)
      else if gc_dry_run cfg then sweep_docs cfg env ns docs u (rep\<lparr>sr_docs_hard_deleted := sr_docs_hard_deleted rep + 1\<rparr>)
      else case sweep_doc env ns doc u rep of (u', rep') \<Rightarrow> sweep_docs cfg env ns docs u' rep')"

definition sweep_namespace :: "GcConfig \<Rightarrow> gc_env \<Rightarrow> int \<Rightarrow> string \<Rightarrow> gc_unit \<Rightarrow> SweepReport \<Rightarrow> gc_unit \<times> SweepReport" where
  "sweep_namespace cfg env cutoff ns u rep =
     (if \<not> ge_acquire env ns then (u, rep)
      else case doc_list_deleted_before (ge_listing env ns) cutoff (gu_conn u) of
        (rc, expired) \<Rightarrow> if rc \<noteq> 0 then (u, rep) else sweep_docs cfg env ns (map cd_doc_id expired) u rep)"

fun sweep_all :: "GcConfig \<Rightarrow> gc_env \<Rightarrow> int \<Rightarrow> string list \<Rightarrow> (string \<Rightarrow> gc_unit) \<Rightarrow> SweepReport \<Rightarrow> (string \<Rightarrow> gc_unit) \<times> SweepReport" where
  "sweep_all cfg env cutoff [] w rep = (w, rep)"
| "sweep_all cfg env cutoff (ns # nss) w rep =
     (if sr_docs_hard_deleted rep \<ge> gc_max_purge_per_run cfg then (w, rep\<lparr>sr_hit_run_cap := True\<rparr>)
      else case sweep_namespace cfg env cutoff ns (w ns) rep of (u', rep') \<Rightarrow> sweep_all cfg env cutoff nss (w(ns := u')) rep')"

definition sweep_cutoff :: "GcConfig \<Rightarrow> gc_env \<Rightarrow> bool \<Rightarrow> int" where
  "sweep_cutoff cfg env bypass_windows = (if bypass_windows then int64_max else ge_now env - DaysToMs (gc_soft_delete_retention_days cfg))"

definition RunLocked :: "GcConfig \<Rightarrow> gc_env \<Rightarrow> bool \<Rightarrow> (string \<Rightarrow> gc_unit) \<Rightarrow> (Status + SweepReport) \<times> (string \<Rightarrow> gc_unit)" where
  "RunLocked cfg env bypass_windows w = (case ge_list env of
     Inl st \<Rightarrow> (Inl st, w)
   | Inr nss \<Rightarrow> (case sweep_all cfg env (sweep_cutoff cfg env bypass_windows) nss w no_report of (w', rep) \<Rightarrow> (Inr rep, w')))"

section \<open>The restore\<close>

datatype RestoreDecision = rd_kNotHere | rd_kRestored | rd_kRefused string string

text \<open>The refusal carries the code and the identifier of the live version, which is empty except for a superseded document.\<close>

definition CheckFailed :: RestoreDecision where
  "CheckFailed = rd_kRefused ''CX_ERR_GC_RESTORE_CHECK_FAILED'' ''''"

text \<open>Why an update of the restore found no row: \<open>env'\<close> is the environment of the reads behind it.\<close>

definition explain_superseded :: "store_env \<Rightarrow> string \<Rightarrow> store_conn \<Rightarrow> RestoreDecision" where
  "explain_superseded env doc s = (case doc_get env doc s of
     (rc, row) \<Rightarrow>
       if rc = - 2 then rd_kNotHere
       else (case row of
          None \<Rightarrow> CheckFailed
        | Some current \<Rightarrow>
            if cd_status current \<noteq> ds_kDeleted then rd_kNotHere
            else (case doc_find_by_source env (cd_source_type current) (cd_source_path current) s of
                    (frc, Some live) \<Rightarrow> rd_kRefused ''CX_ERR_GC_RESTORE_SUPERSEDED'' (cd_doc_id live)
                  | (frc, None) \<Rightarrow> CheckFailed)))"

definition restore_row :: "store_env \<Rightarrow> store_env \<Rightarrow> string \<Rightarrow> CortrixDoc \<Rightarrow> store_conn \<Rightarrow> RestoreDecision \<times> store_conn" where
  "restore_row env env' doc row s =
     (if versioned (cd_source_type row)
      then case doc_restore_unless_superseded env doc s of
        (rrc, s1) \<Rightarrow> if rrc = 0 then (rd_kRestored, s1) else if rrc \<noteq> - 2 then (CheckFailed, s1) else (explain_superseded env' doc s1, s1)
      else case doc_restore env doc s of
        (rrc, s1) \<Rightarrow> if rrc = 0 then (rd_kRestored, s1) else if rrc = - 2 then (rd_kNotHere, s1) else (CheckFailed, s1))"

definition restore_complete :: "store_env \<Rightarrow> store_env \<Rightarrow> string \<Rightarrow> CortrixDoc \<Rightarrow> store_conn \<Rightarrow> RestoreDecision \<times> store_conn" where
  "restore_complete env env' doc row s =
     (if cd_source_type row = ''memory_session'' then restore_row env env' doc row s
      else case doc_get_deleted_from_status env doc s of
        (mrc, deleted_from, s1) \<Rightarrow>
          if mrc = - 2 then (rd_kNotHere, s1) else if mrc \<noteq> 0 then (CheckFailed, s1)
          else if deleted_from \<noteq> None \<and> deleted_from \<noteq> Some ''ready'' then (rd_kRefused ''CX_ERR_GC_RESTORE_INCOMPLETE'' '''', s1)
          else restore_row env env' doc row s1)"

definition DecideRestore :: "store_env \<Rightarrow> store_env \<Rightarrow> string \<Rightarrow> int \<Rightarrow> store_conn \<Rightarrow> RestoreDecision \<times> store_conn" where
  "DecideRestore env env' doc cutoff s = (case doc_get env doc s of
     (got, row) \<Rightarrow>
       if got = - 2 then (rd_kNotHere, s)
       else (case row of
          None \<Rightarrow> (CheckFailed, s)
        | Some row \<Rightarrow>
            if cd_status row \<noteq> ds_kDeleted then (rd_kNotHere, s)
            else (case doc_get_deleted_at env doc s of
               (drc, deleted_at) \<Rightarrow>
                 if drc = - 2 then (rd_kNotHere, s) else if drc \<noteq> 0 then (CheckFailed, s)
                 else if (case deleted_at of Some t \<Rightarrow> t \<le> cutoff | None \<Rightarrow> False)
                 then (rd_kRefused ''CX_ERR_GC_RESTORE_EXPIRED'' '''', s)
                 else restore_complete env env' doc row s)))"

record RestoreFailure =
  rf_id :: string
  rf_code :: string
  rf_live_doc_id :: string

record RestoreOutcome =
  ro_succeeded :: "string list"
  ro_failed :: "RestoreFailure list"

definition restore_cutoff :: "GcConfig \<Rightarrow> gc_env \<Rightarrow> int" where
  "restore_cutoff cfg env =
     (if gc_soft_delete_retention_days cfg = 0 then int64_max else ge_now env - DaysToMs (gc_soft_delete_retention_days cfg))"

text \<open>The search for one identifier; \<open>Inl\<close> is a failure.\<close>

fun restore_one :: "gc_env \<Rightarrow> gc_env \<Rightarrow> int \<Rightarrow> string \<Rightarrow> string list \<Rightarrow> (string \<Rightarrow> gc_unit) \<Rightarrow> (RestoreFailure + unit) \<times> (string \<Rightarrow> gc_unit)" where
  "restore_one env env' cutoff doc [] w = (Inl \<lparr>rf_id = doc, rf_code = ''CX_ERR_GC_DOC_NOT_FOUND'', rf_live_doc_id = ''''\<rparr>, w)"
| "restore_one env env' cutoff doc (ns # nss) w =
     (if \<not> ge_acquire env ns then restore_one env env' cutoff doc nss w
      else case DecideRestore (ge_store env ns doc) (ge_store env' ns doc) doc cutoff (gu_conn (w ns)) of
        (d, s) \<Rightarrow> let w1 = w(ns := (w ns)\<lparr>gu_conn := s\<rparr>) in
          (case d of
             rd_kNotHere \<Rightarrow> restore_one env env' cutoff doc nss w1
           | rd_kRestored \<Rightarrow> (Inr (), w1)
           | rd_kRefused c live \<Rightarrow> (Inl \<lparr>rf_id = doc, rf_code = c, rf_live_doc_id = live\<rparr>, w1)))"

fun restore_all :: "gc_env \<Rightarrow> gc_env \<Rightarrow> int \<Rightarrow> string list \<Rightarrow> string list \<Rightarrow> (string \<Rightarrow> gc_unit) \<Rightarrow> RestoreOutcome \<Rightarrow> RestoreOutcome \<times> (string \<Rightarrow> gc_unit)" where
  "restore_all env env' cutoff nss [] w out = (out, w)"
| "restore_all env env' cutoff nss (doc # docs) w out =
     (case restore_one env env' cutoff doc nss w of
        (Inl f, w1) \<Rightarrow> restore_all env env' cutoff nss docs w1 (out\<lparr>ro_failed := ro_failed out @ [f]\<rparr>)
      | (Inr _, w1) \<Rightarrow> restore_all env env' cutoff nss docs w1 (out\<lparr>ro_succeeded := ro_succeeded out @ [doc]\<rparr>))"

definition Restore :: "GcConfig \<Rightarrow> gc_env \<Rightarrow> gc_env \<Rightarrow> string list \<Rightarrow> (string \<Rightarrow> gc_unit) \<Rightarrow> (Status + RestoreOutcome) \<times> (string \<Rightarrow> gc_unit)" where
  "Restore cfg env env' doc_ids w = (case ge_list env of
     Inl st \<Rightarrow> (Inl st, w)
   | Inr nss \<Rightarrow> (case restore_all env env' (restore_cutoff cfg env) nss doc_ids w \<lparr>ro_succeeded = [], ro_failed = []\<rparr> of (out, w') \<Rightarrow> (Inr out, w')))"

definition CountSoftDeleted :: "gc_env \<Rightarrow> (string \<Rightarrow> gc_unit) \<Rightarrow> Status + int" where
  "CountSoftDeleted env w = (case ge_list env of
     Inl st \<Rightarrow> Inl st
   | Inr nss \<Rightarrow> Inr (sum_list (map (\<lambda>ns.
       if \<not> ge_acquire env ns then 0
       else case doc_list_deleted_before (ge_listing env ns) int64_max (gu_conn (w ns)) of
         (rc, deleted) \<Rightarrow> if rc = 0 then int (length deleted) else 0) nss)))"

section \<open>What a sweep touches\<close>

definition gc_expired :: "int \<Rightarrow> doc_row \<Rightarrow> bool" where
  "gc_expired cutoff d \<longleftrightarrow> dr_status d = ''deleted'' \<and> (case dr_deleted_at d of None \<Rightarrow> False | Some t \<Rightarrow> t \<le> cutoff)"

abbreviation unit_docs :: "gc_unit \<Rightarrow> doc_row list" where
  "unit_docs u \<equiv> ut_documents (sc_tables (gu_conn u))"

abbreviation unit_blocks :: "gc_unit \<Rightarrow> block_row list" where
  "unit_blocks u \<equiv> ut_blocks (sc_tables (gu_conn u))"

text \<open>Nothing but what belongs to the documents \<open>S\<close> went away, and nothing was added.\<close>

definition spares :: "(string \<Rightarrow> string) \<Rightarrow> string set \<Rightarrow> gc_unit \<Rightarrow> gc_unit \<Rightarrow> bool" where
  "spares path S u u' \<longleftrightarrow>
     set (unit_docs u') \<subseteq> set (unit_docs u) \<and> (\<forall>d \<in> set (unit_docs u). dr_doc_id d \<notin> S \<longrightarrow> d \<in> set (unit_docs u')) \<and>
     set (unit_blocks u') \<subseteq> set (unit_blocks u) \<and> (\<forall>b \<in> set (unit_blocks u). br_doc_id b \<notin> S \<longrightarrow> b \<in> set (unit_blocks u')) \<and>
     (\<forall>p \<in> gu_points u. (\<forall>b \<in> set (unit_blocks u). br_block_id b = p \<longrightarrow> br_doc_id b \<notin> S) \<longrightarrow> p \<in> gu_points u') \<and>
     (\<forall>q. q \<notin> path ` S \<longrightarrow> gu_files u' q = gu_files u q)"

lemma spares_refl [simp]: "spares path S u u"
  by (simp add: spares_def)

lemma spares_trans: "spares path S u v \<Longrightarrow> spares path S v x \<Longrightarrow> spares path S u x"
  unfolding spares_def by (intro conjI; (elim conjE)) (blast | metis subset_trans subsetD)+

lemma spares_mono: "spares path S u v \<Longrightarrow> S \<subseteq> T \<Longrightarrow> spares path T u v"
  unfolding spares_def by (intro conjI; (elim conjE)) (blast | metis subsetD image_mono)+

lemma doc_delete_tables:
  assumes "doc_delete env i s = (rc, s')"
  shows "sc_txn s' = sc_txn s \<and> (sc_tables s' = sc_tables s \<or>
    sc_tables s' = drop_docs (\<lambda>d. dr_doc_id d = i) (drop_blocks_of (\<lambda>j. j = i) (sc_tables s)))"
  using assms by (auto simp: doc_delete_def store_begin_def store_rollback_def store_commit_def set_tables_def Let_def split: if_splits)

lemma block_delete_tables:
  "sc_txn (snd (block_delete_by_doc env i s)) = sc_txn s"
  "sc_tables (snd (block_delete_by_doc env i s)) = sc_tables s \<or> sc_tables (snd (block_delete_by_doc env i s)) = drop_blocks_of (\<lambda>j. j = i) (sc_tables s)"
  by (simp_all add: block_delete_by_doc_def)

lemma delivered_subset: "set (delivered env q rows) \<subseteq> set rows"
  by (auto simp: delivered_def dest: in_set_takeD)

lemma listed_blocks: "b \<in> set (snd (block_get_by_doc env i s)) \<Longrightarrow> \<exists>r \<in> set (ut_blocks (sc_tables s)). br_doc_id r = i \<and> br_block_id r = bk_block_id b"
proof -
  assume "b \<in> set (snd (block_get_by_doc env i s))"
  then obtain r where r: "b = read_block r CortrixBlock_default"
    "r \<in> set (delivered env DBlockByDoc (sort_key br_chunk_index (filter (\<lambda>r. br_doc_id r = i) (ut_blocks (sc_tables s)))))"
    by (auto simp: block_get_by_doc_def split: if_splits)
  then show ?thesis using subsetD[OF delivered_subset r(2)] by (auto simp: read_block_def)
qed

lemma sweep_doc_conn:
  assumes "sweep_doc env ns i u rep = (u', rep')"
  shows "sc_txn (gu_conn u') = sc_txn (gu_conn u)"
    and "set (unit_docs u') \<subseteq> set (unit_docs u)" "\<forall>d \<in> set (unit_docs u). dr_doc_id d \<noteq> i \<longrightarrow> d \<in> set (unit_docs u')"
    and "set (unit_blocks u') \<subseteq> set (unit_blocks u)" "\<forall>b \<in> set (unit_blocks u). br_doc_id b \<noteq> i \<longrightarrow> b \<in> set (unit_blocks u')"
proof -
  let ?c = "snd (block_delete_by_doc (ge_store env ns i) i (gu_conn u))"
  have u': "gu_conn u' = snd (doc_delete (ge_store env ns i) i ?c)" using assms by (auto simp: sweep_doc_def Let_def)
  note d = doc_delete_tables[of "ge_store env ns i" i ?c "fst (doc_delete (ge_store env ns i) i ?c)", OF prod.collapse[symmetric], folded u']
  note t = d block_delete_tables[of "ge_store env ns i" i "gu_conn u"]
  show "sc_txn (gu_conn u') = sc_txn (gu_conn u)" using t by simp
  show "set (unit_docs u') \<subseteq> set (unit_docs u)" "\<forall>d \<in> set (unit_docs u). dr_doc_id d \<noteq> i \<longrightarrow> d \<in> set (unit_docs u')"
    "set (unit_blocks u') \<subseteq> set (unit_blocks u)" "\<forall>b \<in> set (unit_blocks u). br_doc_id b \<noteq> i \<longrightarrow> b \<in> set (unit_blocks u')"
    using t by (elim conjE disjE; simp add: drop_docs_def drop_blocks_of_def; fastforce)+
qed

lemma sweep_doc_spares:
  assumes "sweep_doc env ns i u rep = (u', rep')"
  shows "spares (ge_path env ns) {i} u u'"
proof -
  have p: "gu_points u' = gu_points u - set (filter (ge_mark env ns) (map bk_block_id (snd (block_get_by_doc (ge_store env ns i) i (gu_conn u)))))"
    and f: "gu_files u' = snd (blob_del (ge_blob env ns i) (ge_path env ns i) (gu_files u))"
    using assms by (auto simp: sweep_doc_def Let_def)
  have "p \<in> gu_points u'" if "p \<in> gu_points u" "\<forall>b \<in> set (unit_blocks u). br_block_id b = p \<longrightarrow> br_doc_id b \<noteq> i" for p
  proof -
    have "p \<notin> bk_block_id ` set (snd (block_get_by_doc (ge_store env ns i) i (gu_conn u)))"
      using listed_blocks[of _ "ge_store env ns i" i "gu_conn u"] that(2) by fastforce
    then show ?thesis using that(1) unfolding p by simp
  qed
  moreover have "gu_files u' q = gu_files u q" if "q \<noteq> ge_path env ns i" for q
    using that unfolding f by (simp add: blob_del_def)
  ultimately show ?thesis using sweep_doc_conn[OF assms] unfolding spares_def by simp
qed

lemma sweep_docs_spares: "sweep_docs cfg env ns docs u rep = (u', rep') \<Longrightarrow> spares (ge_path env ns) (set docs) u u'"
proof (induction docs arbitrary: u rep)
  case (Cons i docs)
  obtain v r where v: "sweep_doc env ns i u rep = (v, r)" by fastforce
  have "spares (ge_path env ns) (set (i # docs)) u v" using sweep_doc_spares[OF v] by (rule spares_mono) simp
  moreover have "spares (ge_path env ns) (set (i # docs)) x u'" if "spares (ge_path env ns) (set docs) x u'" for x
    using that by (rule spares_mono) auto
  ultimately show ?case using Cons v by (auto split: if_splits intro: spares_trans)
qed simp

definition expired_ids :: "int \<Rightarrow> gc_unit \<Rightarrow> string set" where
  "expired_ids cutoff u = dr_doc_id ` set (filter (gc_expired cutoff) (unit_docs u))"

lemma list_deleted:
  assumes "doc_list_deleted_before env cutoff (gu_conn u) = (0, docs)"
  shows "set (map cd_doc_id docs) \<subseteq> expired_ids cutoff u"
    and "se_sql env = sql_good \<Longrightarrow> set (map cd_doc_id docs) = expired_ids cutoff u"
proof -
  have "doc_list_deleted_before env cutoff = list_docs env DListDeleted (gc_expired cutoff)"
    by (simp add: doc_list_deleted_before_def gc_expired_def[abs_def])
  then have docs: "docs = map ReadDocFromStmt (delivered env DListDeleted (filter (gc_expired cutoff) (unit_docs u)))"
    using assms by (auto simp: list_docs_def split: if_splits)
  have ids: "set (map cd_doc_id docs) = dr_doc_id ` set (delivered env DListDeleted (filter (gc_expired cutoff) (unit_docs u)))"
    unfolding docs by (simp add: ReadDocFromStmt_def image_image)
  show "set (map cd_doc_id docs) \<subseteq> expired_ids cutoff u" unfolding ids expired_ids_def by (intro image_mono delivered_subset)
  show "set (map cd_doc_id docs) = expired_ids cutoff u" if "se_sql env = sql_good"
    unfolding ids expired_ids_def using that by (simp add: delivered_def sql_good_def)
qed

lemma sweep_namespace_spares:
  assumes "sweep_namespace cfg env cutoff ns u rep = (u', rep')"
  shows "spares (ge_path env ns) (expired_ids cutoff u) u u'"
proof -
  obtain rc docs where l: "doc_list_deleted_before (ge_listing env ns) cutoff (gu_conn u) = (rc, docs)" by fastforce
  show ?thesis
  proof (cases "ge_acquire env ns \<and> rc = 0")
    case True
    then have "sweep_docs cfg env ns (map cd_doc_id docs) u rep = (u', rep')" using assms l by (simp add: sweep_namespace_def)
    then have "spares (ge_path env ns) (set (map cd_doc_id docs)) u u'" by (rule sweep_docs_spares)
    then show ?thesis by (rule spares_mono) (use list_deleted(1) l True in blast)
  next
    case False
    then show ?thesis using assms l by (auto simp: sweep_namespace_def split: if_splits)
  qed
qed

lemma expired_ids_mono: "spares path S u u' \<Longrightarrow> expired_ids cutoff u' \<subseteq> expired_ids cutoff u"
  unfolding spares_def expired_ids_def by (auto simp: image_iff)

lemma sweep_all_spares:
  "sweep_all cfg env cutoff nss w rep = (w', rep') \<Longrightarrow> spares (ge_path env ns) (expired_ids cutoff (w ns)) (w ns) (w' ns)"
proof (induction nss arbitrary: w rep)
  case (Cons m nss)
  show ?case
  proof (cases "sr_docs_hard_deleted rep \<ge> gc_max_purge_per_run cfg")
    case False
    obtain v r where v: "sweep_namespace cfg env cutoff m (w m) rep = (v, r)" by fastforce
    then have all: "sweep_all cfg env cutoff nss (w(m := v)) r = (w', rep')" using Cons.prems False by simp
    note rest = Cons.IH[OF all]
    show ?thesis
    proof (cases "m = ns")
      case True
      have s: "spares (ge_path env ns) (expired_ids cutoff (w ns)) (w ns) v" using sweep_namespace_spares[OF v] True by simp
      have "spares (ge_path env ns) (expired_ids cutoff (w ns)) v (w' ns)"
        using rest unfolding True fun_upd_same by (rule spares_mono) (rule expired_ids_mono[OF s])
      with s show ?thesis by (rule spares_trans)
    qed (use rest in simp)
  qed (use Cons.prems in simp)
qed simp

section \<open>Documents inside the window stay\<close>

text \<open>
  C22: A sweep takes nothing that is not due.  Whatever fails during a sweep or a purge, a document that is live, or was deleted
  after the cutoff, keeps its row, its blocks, the points of its blocks and its blob, in every namespace.
\<close>
theorem sweep_keeps_window:
  assumes "RunLocked cfg env bypass w = (Inr rep, w')"
    and "d \<in> set (unit_docs (w ns))" "\<not> gc_expired (sweep_cutoff cfg env bypass) d"
    and "distinct (map dr_doc_id (unit_docs (w ns)))" "distinct (map br_block_id (unit_blocks (w ns)))" "inj (ge_path env ns)"
  shows "d \<in> set (unit_docs (w' ns)) \<and> gu_files (w' ns) (ge_path env ns (dr_doc_id d)) = gu_files (w ns) (ge_path env ns (dr_doc_id d)) \<and>
    (\<forall>b \<in> set (unit_blocks (w ns)). br_doc_id b = dr_doc_id d \<longrightarrow> b \<in> set (unit_blocks (w' ns)) \<and>
       (br_block_id b \<in> gu_points (w ns) \<longrightarrow> br_block_id b \<in> gu_points (w' ns)))"
proof -
  let ?S = "expired_ids (sweep_cutoff cfg env bypass) (w ns)"
  obtain nss where "sweep_all cfg env (sweep_cutoff cfg env bypass) nss w no_report = (w', rep)"
    using assms(1) by (auto simp: RunLocked_def split: sum.splits prod.splits)
  then have sp: "spares (ge_path env ns) ?S (w ns) (w' ns)" by (rule sweep_all_spares)
  have d: "dr_doc_id d \<notin> ?S" using assms(2-4) by (auto simp: expired_ids_def distinct_map inj_on_def)
  then have "ge_path env ns (dr_doc_id d) \<notin> ge_path env ns ` ?S" using assms(6) by (simp add: inj_image_mem_iff)
  then have f: "gu_files (w' ns) (ge_path env ns (dr_doc_id d)) = gu_files (w ns) (ge_path env ns (dr_doc_id d))"
    and m: "d \<in> set (unit_docs (w' ns))" using sp assms(2) d unfolding spares_def by blast+
  have "b \<in> set (unit_blocks (w' ns)) \<and> (br_block_id b \<in> gu_points (w ns) \<longrightarrow> br_block_id b \<in> gu_points (w' ns))"
    if b: "b \<in> set (unit_blocks (w ns))" "br_doc_id b = dr_doc_id d" for b
  proof -
    have "c = b" if "c \<in> set (unit_blocks (w ns))" "br_block_id c = br_block_id b" for c
      using that b(1) assms(5) unfolding distinct_map inj_on_def by blast
    then have "\<forall>c \<in> set (unit_blocks (w ns)). br_block_id c = br_block_id b \<longrightarrow> br_doc_id c \<notin> ?S" using d b(2) by metis
    then show ?thesis using sp b d unfolding spares_def by metis
  qed
  then show ?thesis using f m by blast
qed

section \<open>Due documents go\<close>

lemma doc_delete_good:
  assumes "se_sql env = sql_good" "sc_txn s = None"
  shows "sc_tables (snd (doc_delete env i s)) = drop_docs (\<lambda>d. dr_doc_id d = i) (drop_blocks_of (\<lambda>j. j = i) (sc_tables s))"
    and "sc_txn (snd (doc_delete env i s)) = None"
proof -
  have "\<not> doc_referenced (\<lambda>d. dr_doc_id d = i) (set_tables (drop_blocks_of (\<lambda>j. j = i) t) c)" for t c
    by (simp add: doc_referenced_def set_tables_def drop_blocks_of_def)
  then show "sc_tables (snd (doc_delete env i s)) = drop_docs (\<lambda>d. dr_doc_id d = i) (drop_blocks_of (\<lambda>j. j = i) (sc_tables s))"
    and "sc_txn (snd (doc_delete env i s)) = None"
    using assms by (simp_all add: doc_delete_def store_begin_def store_commit_def sql_good_def Let_def set_tables_def)
qed

lemma sweep_doc_removes:
  assumes "sweep_doc env ns i u rep = (u', rep')" "se_sql (ge_store env ns i) = sql_good" "sc_txn (gu_conn u) = None"
  shows "\<forall>d \<in> set (unit_docs u'). dr_doc_id d \<noteq> i" "\<forall>b \<in> set (unit_blocks u'). br_doc_id b \<noteq> i" "sr_hit_run_cap rep' = sr_hit_run_cap rep"
proof -
  let ?c = "snd (block_delete_by_doc (ge_store env ns i) i (gu_conn u))"
  have c: "sc_txn ?c = None" using block_delete_tables(1) assms(3) by simp
  have u': "gu_conn u' = snd (doc_delete (ge_store env ns i) i ?c)" and "sr_hit_run_cap rep' = sr_hit_run_cap rep"
    using assms(1) by (auto simp: sweep_doc_def Let_def)
  then show "\<forall>d \<in> set (unit_docs u'). dr_doc_id d \<noteq> i" "\<forall>b \<in> set (unit_blocks u'). br_doc_id b \<noteq> i" "sr_hit_run_cap rep' = sr_hit_run_cap rep"
    unfolding u' doc_delete_good(1)[OF assms(2) c] by (simp_all add: drop_docs_def drop_blocks_of_def)
qed

lemma hit_cap_stays: "sweep_docs cfg env ns docs u rep = (u', rep') \<Longrightarrow> sr_hit_run_cap rep \<Longrightarrow> sr_hit_run_cap rep'"
  by (induction docs arbitrary: u rep) (auto simp: sweep_doc_def Let_def split: if_splits)

lemma sweep_docs_removes:
  assumes "sweep_docs cfg env ns docs u rep = (u', rep')" "\<not> gc_dry_run cfg" "\<not> sr_hit_run_cap rep'"
    and "\<And>i. se_sql (ge_store env ns i) = sql_good" "sc_txn (gu_conn u) = None"
  shows "(\<forall>d \<in> set (unit_docs u'). dr_doc_id d \<notin> set docs) \<and> (\<forall>b \<in> set (unit_blocks u'). br_doc_id b \<notin> set docs) \<and>
    sc_txn (gu_conn u') = None \<and> \<not> sr_hit_run_cap rep"
  using assms(1,5)
proof (induction docs arbitrary: u rep)
  case Nil
  then show ?case using assms(3) by simp
next
  case (Cons i docs)
  obtain v r where v: "sweep_doc env ns i u rep = (v, r)" by fastforce
  have rest: "sweep_docs cfg env ns docs v r = (u', rep')" using Cons.prems(1) assms(2,3) v by (auto split: if_splits)
  have "sc_txn (gu_conn v) = None" using sweep_doc_conn(1)[OF v] Cons.prems(2) by simp
  note ih = Cons.IH[OF rest this]
  have "set (unit_docs u') \<subseteq> set (unit_docs v)" "set (unit_blocks u') \<subseteq> set (unit_blocks v)"
    using sweep_docs_spares[OF rest] unfolding spares_def by blast+
  then show ?case using ih sweep_doc_removes[OF v assms(4) Cons.prems(2)] by auto
qed

lemma sweep_namespace_removes:
  assumes "sweep_namespace cfg env cutoff ns u rep = (u', rep')" "\<not> gc_dry_run cfg" "\<not> sr_hit_run_cap rep'" "ge_acquire env ns"
    and "se_sql (ge_listing env ns) = sql_good" "\<And>i. se_sql (ge_store env ns i) = sql_good" "sc_txn (gu_conn u) = None"
  shows "expired_ids cutoff u' = {} \<and> (\<forall>b \<in> set (unit_blocks u'). br_doc_id b \<notin> expired_ids cutoff u) \<and> sc_txn (gu_conn u') = None"
proof -
  obtain docs where l: "doc_list_deleted_before (ge_listing env ns) cutoff (gu_conn u) = (0, docs)"
    using assms(5) by (simp add: doc_list_deleted_before_def list_docs_def sql_good_def)
  then have sw: "sweep_docs cfg env ns (map cd_doc_id docs) u rep = (u', rep')" using assms(1,4) by (simp add: sweep_namespace_def)
  have ids: "set (map cd_doc_id docs) = expired_ids cutoff u" by (rule list_deleted(2)[OF l assms(5)])
  note r = sweep_docs_removes[OF sw assms(2,3,6,7), unfolded ids]
  have "expired_ids cutoff u' \<subseteq> expired_ids cutoff u" by (rule expired_ids_mono[OF sweep_docs_spares[OF sw]])
  moreover have "i \<notin> expired_ids cutoff u" if "i \<in> expired_ids cutoff u'" for i using that r by (auto simp: expired_ids_def[of cutoff u'])
  ultimately show ?thesis using r by blast
qed

lemma hit_cap_stays_all: "sweep_all cfg env cutoff nss w rep = (w', rep') \<Longrightarrow> sr_hit_run_cap rep \<Longrightarrow> sr_hit_run_cap rep'"
proof (induction nss arbitrary: w rep)
  case (Cons ns nss)
  obtain v r where v: "sweep_namespace cfg env cutoff ns (w ns) rep = (v, r)" by fastforce
  have "sr_hit_run_cap r" using v Cons.prems(2) hit_cap_stays by (auto simp: sweep_namespace_def split: if_splits prod.splits)
  then show ?case using Cons v by (auto split: if_splits)
qed simp

lemma sweep_all_removes:
  assumes "sweep_all cfg env cutoff nss w rep = (w', rep')" "\<not> gc_dry_run cfg" "\<not> sr_hit_run_cap rep'" "ns \<in> set nss" "ge_acquire env ns"
    and "se_sql (ge_listing env ns) = sql_good" "\<And>i. se_sql (ge_store env ns i) = sql_good" "sc_txn (gu_conn (w ns)) = None"
  shows "expired_ids cutoff (w' ns) = {}"
  using assms(1,4,8)
proof (induction nss arbitrary: w rep)
  case (Cons m nss)
  obtain v r where v: "sweep_namespace cfg env cutoff m (w m) rep = (v, r)" by fastforce
  have rest: "sweep_all cfg env cutoff nss (w(m := v)) r = (w', rep')" using Cons.prems(1) assms(3) v by (auto split: if_splits)
  have nr: "\<not> sr_hit_run_cap r" using hit_cap_stays_all[OF rest] assms(3) by blast
  show ?case
  proof (cases "m = ns")
    case True
    have "expired_ids cutoff v = {}" using sweep_namespace_removes[OF v assms(2) nr, unfolded True, OF assms(5-7)] Cons.prems(3) by blast
    then show ?thesis using expired_ids_mono[OF sweep_all_spares[OF rest, of ns], of cutoff] True by simp
  next
    case False
    then show ?thesis using Cons.IH[OF rest] Cons.prems(2,3) by simp
  qed
qed simp

text \<open>
  A sweep takes everything that is due.  When the statements of a namespace that can be acquired succeed, the sweep is not a
  dry run and it was not stopped by its cap, no document of the namespace is left whose deletion lies at or before the cutoff.
\<close>
theorem sweep_takes_due:
  assumes "RunLocked cfg env bypass w = (Inr rep, w')" "\<not> gc_dry_run cfg" "\<not> sr_hit_run_cap rep"
    and "ge_list env = Inr nss" "ns \<in> set nss" "ge_acquire env ns"
    and "se_sql (ge_listing env ns) = sql_good" "\<And>i. se_sql (ge_store env ns i) = sql_good" "sc_txn (gu_conn (w ns)) = None"
  shows "\<not> (\<exists>d \<in> set (unit_docs (w' ns)). gc_expired (sweep_cutoff cfg env bypass) d)"
proof -
  have sw: "sweep_all cfg env (sweep_cutoff cfg env bypass) nss w no_report = (w', rep)" using assms(1,4) by (auto simp: RunLocked_def split: prod.splits)
  show ?thesis using sweep_all_removes[OF sw assms(2,3,5-9)] by (auto simp: expired_ids_def filter_empty_conv)
qed

text \<open>A namespace with two uploads, the first of which is deleted, and a sweep in which nothing fails.\<close>

definition gc_sample_conn :: store_conn where
  "gc_sample_conn = (empty_store True True)\<lparr>sc_tables := (sc_tables (empty_store True True))\<lparr>ut_documents :=
     [bury (good_store_env ''11:00'') True 5 (row_of_doc ''09:00'' (upload ''1'')), row_of_doc ''10:00'' (upload ''2'')]\<rparr>\<rparr>"

definition gc_sample :: "string \<Rightarrow> gc_unit" where
  "gc_sample ns = \<lparr>gu_conn = gc_sample_conn, gu_points = {}, gu_files = Map.empty\<rparr>"

definition gc_sample_env :: gc_env where
  "gc_sample_env = \<lparr>ge_now = 100, ge_list = Inr [''n''], ge_acquire = (\<lambda>_. True), ge_listing = (\<lambda>_. good_store_env ''12:00''),
     ge_store = (\<lambda>_ _. good_store_env ''12:00''), ge_mark = (\<lambda>_ _. True), ge_blob = (\<lambda>_ _. blob_good), ge_path = MakePath length ''u''\<rparr>"

definition gc_sample_config :: GcConfig where
  "gc_sample_config = \<lparr>gc_soft_delete_retention_days = 30, gc_max_purge_per_run = 10000, gc_dry_run = False\<rparr>"

lemma gc_sample_docs:
  "unit_docs (gc_sample ns) = [bury (good_store_env ''11:00'') True 5 (row_of_doc ''09:00'' (upload ''1'')), row_of_doc ''10:00'' (upload ''2'')]"
  "unit_blocks (gc_sample ns) = []" "sc_txn (gu_conn (gc_sample ns)) = None"
  by (simp_all add: gc_sample_def gc_sample_conn_def empty_store_def)

lemma gc_sample_row:
  "dr_doc_id (bury e m now d) = dr_doc_id d" "dr_status (bury e m now d) = ''deleted''" "dr_deleted_at (bury e m now d) = Some now"
  by (simp_all add: bury_def)

lemma gc_sample_listed: "\<exists>d. doc_list_deleted_before (good_store_env ''12:00'') int64_max (gu_conn (gc_sample ns)) = (0, [d])"
  by (simp add: doc_list_deleted_before_def list_docs_def delivered_def good_store_env_def sql_good_def gc_sample_docs gc_sample_row upload_row int64_max_def)

lemma gc_sample_run: "\<exists>rep w'. RunLocked gc_sample_config gc_sample_env True gc_sample = (Inr rep, w') \<and> \<not> sr_hit_run_cap rep"
proof -
  obtain d where d: "doc_list_deleted_before (good_store_env ''12:00'') int64_max (gu_conn (gc_sample ''n'')) = (0, [d])" using gc_sample_listed by blast
  obtain u r where u: "sweep_doc gc_sample_env ''n'' (cd_doc_id d) (gc_sample ''n'') no_report = (u, r)" by fastforce
  have "\<not> sr_hit_run_cap r" using u by (auto simp: sweep_doc_def Let_def no_report_def)
  moreover have "sweep_namespace gc_sample_config gc_sample_env int64_max ''n'' (gc_sample ''n'') no_report = (u, r)"
    by (simp add: sweep_namespace_def d u gc_sample_env_def[THEN arg_cong[where f = ge_acquire]] gc_sample_env_def[THEN arg_cong[where f = ge_listing]]
        gc_sample_config_def no_report_def[THEN arg_cong[where f = sr_docs_hard_deleted]])
  ultimately show ?thesis
    by (simp add: RunLocked_def sweep_cutoff_def gc_sample_env_def[THEN arg_cong[where f = ge_list]] gc_sample_config_def
        no_report_def[THEN arg_cong[where f = sr_docs_hard_deleted]])
qed

theorem sweep_takes_due_witness:
  "\<exists>rep w'. RunLocked gc_sample_config gc_sample_env True gc_sample = (Inr rep, w') \<and>
     \<not> (\<exists>d \<in> set (unit_docs (w' ''n'')). gc_expired (sweep_cutoff gc_sample_config gc_sample_env True) d)"
proof -
  obtain rep w' where r: "RunLocked gc_sample_config gc_sample_env True gc_sample = (Inr rep, w')" "\<not> sr_hit_run_cap rep" using gc_sample_run by blast
  have "\<not> (\<exists>d \<in> set (unit_docs (w' ''n'')). gc_expired (sweep_cutoff gc_sample_config gc_sample_env True) d)"
    by (rule sweep_takes_due[OF r(1) _ r(2), where nss = "[''n'']"]) (simp_all add: gc_sample_config_def gc_sample_env_def good_store_env_def gc_sample_docs)
  with r show ?thesis by blast
qed

theorem sweep_keeps_window_witness:
  "\<exists>rep w'. RunLocked gc_sample_config gc_sample_env True gc_sample = (Inr rep, w') \<and> row_of_doc ''10:00'' (upload ''2'') \<in> set (unit_docs (w' ''n''))"
proof -
  obtain rep w' where r: "RunLocked gc_sample_config gc_sample_env True gc_sample = (Inr rep, w')" using gc_sample_run by blast
  have "inj (ge_path gc_sample_env ''n'')" by (simp add: gc_sample_env_def inj_def)
  then show ?thesis
    using sweep_keeps_window[OF r, of "row_of_doc ''10:00'' (upload ''2'')" "''n''"] r
    by (simp add: gc_sample_docs gc_sample_row upload_row gc_expired_def)
qed

section \<open>Restoring\<close>

lemma same_id: "distinct (map dr_doc_id docs) \<Longrightarrow> d \<in> set docs \<Longrightarrow> e \<in> set docs \<Longrightarrow> dr_doc_id d = dr_doc_id e \<Longrightarrow> d = e"
  by (auto simp: distinct_map inj_on_def)

lemma restore_update:
  assumes "update_docs env q P (revive env m) s = (n, s')" "sc_tables s = t" "\<And>d. P d \<Longrightarrow> dr_doc_id d = doc \<and> dr_status d = ''deleted''"
    and "distinct (map dr_doc_id (ut_documents t))"
  shows "(rc_of n \<noteq> 0 \<longrightarrow> sc_tables s' = t) \<and> (rc_of n = 0 \<longrightarrow> (\<exists>d \<in> set (ut_documents t). P d) \<and>
    sc_tables s' = t\<lparr>ut_documents := update_rows (\<lambda>d. dr_doc_id d = doc \<and> dr_status d = ''deleted'') (revive env m) (ut_documents t)\<rparr>)"
proof (cases "rc_of n = 0")
  case True
  then have c: "changes P (ut_documents t) \<noteq> 0" and s': "sc_tables s' = t\<lparr>ut_documents := update_rows P (revive env m) (ut_documents t)\<rparr>"
    using update_docs_cases[OF assms(1)] assms(2) by (auto simp: rc_of_0)
  then obtain d where d: "d \<in> set (ut_documents t)" "P d" by (auto simp: changes_def filter_empty_conv)
  have "P e \<longleftrightarrow> dr_doc_id e = doc \<and> dr_status e = ''deleted''" if "e \<in> set (ut_documents t)" for e
    using same_id[OF assms(4) that d(1)] assms(3) d(2) by metis
  then have "update_rows P (revive env m) (ut_documents t) =
      update_rows (\<lambda>d. dr_doc_id d = doc \<and> dr_status d = ''deleted'') (revive env m) (ut_documents t)"
    unfolding update_rows_def by (intro map_cong) simp_all
  then show ?thesis using True s' d by auto
next
  case False
  then show ?thesis using rc_of_neq_0[OF assms(1)] assms(2) by simp
qed

text \<open>The rows after a restore of \<open>doc\<close>.\<close>

definition restored :: "store_env \<Rightarrow> bool \<Rightarrow> string \<Rightarrow> unit_tables \<Rightarrow> unit_tables" where
  "restored env m doc t = t\<lparr>ut_documents := update_rows (\<lambda>d. dr_doc_id d = doc \<and> dr_status d = ''deleted'') (revive env m) (ut_documents t)\<rparr>"

lemma restore_row_cases:
  assumes "restore_row env env' doc row s = (dec, s')" "distinct (map dr_doc_id (docs_of s))"
  shows "(dec \<noteq> rd_kRestored \<longrightarrow> sc_tables s' = sc_tables s) \<and>
    (dec = rd_kRestored \<longrightarrow> (\<exists>d \<in> set (docs_of s). if versioned (cd_source_type row) then unsuperseded doc (docs_of s) d else dr_doc_id d = doc \<and> dr_status d = ''deleted'') \<and>
      (\<exists>m. sc_tables s' = restored env m doc (sc_tables s)))"
proof -
  obtain p s1 where p: "DeletedFromStatusColumnLocked env s = (p, s1)" by fastforce
  have s1: "sc_tables s1 = sc_tables s" using probe_keeps[OF p] by simp
  show ?thesis
  proof (cases "versioned (cd_source_type row)")
    case True
    obtain n s2 where u: "update_docs env DRestoreIf (unsuperseded doc (docs_of s)) (revive env (p = cp_kPresent)) s1 = (n, s2)" by fastforce
    then have r: "doc_restore_unless_superseded env doc s = (rc_of n, s2)" by (simp add: doc_restore_unless_superseded_def p s1)
    have x: "explain_superseded env' doc c \<noteq> rd_kRestored" for c
      by (auto simp: explain_superseded_def CheckFailed_def split: prod.splits option.splits)
    have "s' = s2" "dec = rd_kRestored \<longleftrightarrow> rc_of n = 0"
      using assms(1) True r x by (auto simp: restore_row_def CheckFailed_def split: if_splits)
    then show ?thesis
      using restore_update[OF u s1 _ assms(2), of doc] True unfolding restored_def by (auto simp: unsuperseded_def)
  next
    case False
    obtain n s2 where u: "update_docs env DRestore (\<lambda>d. dr_doc_id d = doc \<and> dr_status d = ''deleted'') (revive env (p = cp_kPresent)) s1 = (n, s2)" by fastforce
    then have r: "doc_restore env doc s = (rc_of n, s2)" by (simp add: doc_restore_def p)
    have "s' = s2" "dec = rd_kRestored \<longleftrightarrow> rc_of n = 0"
      using assms(1) False r by (auto simp: restore_row_def CheckFailed_def split: if_splits)
    then show ?thesis using restore_update[OF u s1 _ assms(2), of doc] False unfolding restored_def by auto
  qed
qed

text \<open>What the check of the status before the deletion lets through.\<close>

definition was_complete :: "store_env \<Rightarrow> store_conn \<Rightarrow> doc_row \<Rightarrow> bool" where
  "was_complete env s d \<longleftrightarrow> dr_source_type d = ''memory_session'' \<or> fst (DeletedFromStatusColumnLocked env s) = cp_kAbsent \<or>
     dr_deleted_from_status d = None \<or> dr_deleted_from_status d = Some ''ready''"

lemma restore_complete_cases:
  assumes "restore_complete env env' doc row s = (dec, s')" "distinct (map dr_doc_id (docs_of s))"
    and "doc_by_id doc (sc_tables s) = Some d" "row = ReadDocFromStmt d"
  shows "(dec \<noteq> rd_kRestored \<longrightarrow> sc_tables s' = sc_tables s) \<and>
    (dec = rd_kRestored \<longrightarrow> was_complete env s d \<and>
      (\<exists>e \<in> set (docs_of s). if versioned (dr_source_type d) then unsuperseded doc (docs_of s) e else dr_doc_id e = doc \<and> dr_status e = ''deleted'') \<and>
      (\<exists>m. sc_tables s' = restored env m doc (sc_tables s)))"
proof -
  have ty: "cd_source_type row = dr_source_type d" by (simp add: assms(4) ReadDocFromStmt_def)
  show ?thesis
  proof (cases "dr_source_type d = ''memory_session''")
    case True
    then show ?thesis using assms(1) restore_row_cases[OF _ assms(2), of env env' doc row dec s'] ty
      by (simp add: restore_complete_def was_complete_def)
  next
    case False
    obtain p s1 where p: "DeletedFromStatusColumnLocked env s = (p, s1)" by fastforce
    have s1: "sc_tables s1 = sc_tables s" using probe_keeps[OF p] by simp
    obtain mrc from_st s2 where g: "doc_get_deleted_from_status env doc s = (mrc, from_st, s2)" using prod_cases3 by blast
    have s2: "s2 = s1" and ok: "mrc = 0 \<Longrightarrow> p = cp_kAbsent \<or> from_st = dr_deleted_from_status d"
      using g assms(3) by (auto simp: doc_get_deleted_from_status_def p s1 split: ColumnProbe.splits if_splits)
    show ?thesis
    proof (cases "mrc = 0 \<and> (from_st = None \<or> from_st = Some ''ready'')")
      case c: True
      then have "restore_row env env' doc row s1 = (dec, s')" using assms(1) False g ty s2 by (auto simp: restore_complete_def split: if_splits)
      note r = restore_row_cases[OF this, unfolded s1, OF assms(2)]
      have "was_complete env s d" using c ok by (auto simp: was_complete_def p)
      then show ?thesis using r ty by simp
    next
      case c: False
      then have "dec \<noteq> rd_kRestored" "s' = s1" using assms(1) False g ty s2 by (auto simp: restore_complete_def CheckFailed_def split: if_splits)
      then show ?thesis using s1 by simp
    qed
  qed
qed

text \<open>
  C23: A restore brings back only what can be served.  When \<open>DecideRestore\<close> restores a document, the document was deleted; the
  time of its deletion, if one is recorded, is inside the retention window; the status it was deleted from, unless it is a memory
  session, the store has no column for it or none is recorded, was ready; and, if its source has versions (an upload or a
  watched file), no other version of the source is live.  Its row is revived and nothing else changes.  In every other case,
  whatever failed, the tables are as they were.
\<close>
theorem restore_only_recoverable:
  assumes "DecideRestore env env' doc cutoff s = (dec, s')" "distinct (map dr_doc_id (ut_documents (sc_tables s)))"
  shows "(dec \<noteq> rd_kRestored \<longrightarrow> sc_tables s' = sc_tables s) \<and>
    (dec = rd_kRestored \<longrightarrow> (\<exists>d \<in> set (ut_documents (sc_tables s)). dr_doc_id d = doc \<and> dr_status d = ''deleted'' \<and>
       (\<forall>t. dr_deleted_at d = Some t \<longrightarrow> cutoff < t) \<and> was_complete env s d \<and>
       (versioned (dr_source_type d) \<longrightarrow> unsuperseded doc (ut_documents (sc_tables s)) d) \<and>
       (\<exists>m. sc_tables s' = restored env m doc (sc_tables s))))"
proof (cases "doc_by_id doc (sc_tables s)")
  case None
  then show ?thesis using assms(1)
    by (auto simp: DecideRestore_def doc_get_def get_row_def CheckFailed_def split: sql_outcome.splits)
next
  case (Some d)
  then have d: "d \<in> set (docs_of s)" "dr_doc_id d = doc" by (auto simp: doc_by_id_def find_Some_iff)
  consider "dec \<noteq> rd_kRestored" "s' = s"
    | "dr_status d = ''deleted''" "\<forall>t. dr_deleted_at d = Some t \<longrightarrow> cutoff < t" "restore_complete env env' doc (ReadDocFromStmt d) s = (dec, s')"
  proof -
    have st: "cd_status (ReadDocFromStmt d) = ds_kDeleted \<longleftrightarrow> dr_status d = ''deleted''" by (simp add: ReadDocFromStmt_def DocStatusFromStr_def)
    show thesis using assms(1) Some that st
      by (auto simp: DecideRestore_def doc_get_def get_row_def doc_get_deleted_at_def CheckFailed_def
          split: sql_outcome.splits if_splits option.splits)
  qed
  then show ?thesis
  proof cases
    case 2
    note r = restore_complete_cases[OF 2(3) assms(2) Some refl]
    have "e = d" if "e \<in> set (docs_of s)" "dr_doc_id e = doc" for e using same_id[OF assms(2) that(1) d(1)] that(2) d(2) by simp
    then have "unsuperseded doc (docs_of s) d" if "versioned (dr_source_type d)" "dec = rd_kRestored"
      using r that by (auto simp: unsuperseded_def)
    then show ?thesis using r 2(1,2) d by blast
  qed simp
qed

text \<open>A store whose only document was ready when it was deleted.\<close>

definition one_deleted :: store_conn where
  "one_deleted = (empty_store True True)\<lparr>sc_tables := (sc_tables (empty_store True True))\<lparr>ut_documents :=
     [bury (good_store_env ''11:00'') True 5 ((row_of_doc ''09:00'' (upload ''1''))\<lparr>dr_status := ''ready''\<rparr>)]\<rparr>\<rparr>"

lemma restore_lone:
  assumes "docs_of s = [d]" "dr_doc_id d = i" "dr_status d = ''deleted''" "dr_deleted_at d = Some t" "cutoff < t" "dr_deleted_from_status d = Some ''ready''"
    and "se_sql env = sql_good"
  shows "\<exists>s'. DecideRestore env env' i cutoff s = (rd_kRestored, s') \<and> (\<exists>m. sc_tables s' = restored env m i (sc_tables s))"
proof -
  obtain p s1 where p: "DeletedFromStatusColumnLocked env s = (p, s1)" by fastforce
  have s1: "sc_tables s1 = sc_tables s" using probe_keeps[OF p] by simp
  have g: "se_sql env q = SqlOk" for q using assms(7) by (simp add: sql_good_def)
  have "fst (DeletedFromStatusColumnLocked env s) \<noteq> cp_kUnknown" by (cases "sc_has_marker s") (simp_all add: DeletedFromStatusColumnLocked_def g)
  then have pk: "p \<noteq> cp_kUnknown" unfolding p by simp
  have by_id: "doc_by_id i (sc_tables s) = Some d" using assms(1,2) by (simp add: doc_by_id_def)
  have st: "cd_status (ReadDocFromStmt d) = ds_kDeleted" using assms(3) by (simp add: ReadDocFromStmt_def DocStatusFromStr_def)
  have row: "\<exists>s'. restore_row env env' i (ReadDocFromStmt d) c = (rd_kRestored, s')" if "sc_tables c = sc_tables s" for c
  proof -
    obtain q c1 where q: "DeletedFromStatusColumnLocked env c = (q, c1)" by fastforce
    have c1: "sc_tables c1 = sc_tables s" using probe_keeps[OF q] that by simp
    have "unsuperseded i [d] d" using assms(2,3) by (simp add: unsuperseded_def)
    then show ?thesis
      using assms(1-3) by (simp add: restore_row_def doc_restore_unless_superseded_def doc_restore_def q c1 update_docs_def g changes_def rc_of_def)
  qed
  have "\<exists>s'. restore_complete env env' i (ReadDocFromStmt d) s = (rd_kRestored, s')"
    using row[OF refl] row[OF s1] pk assms(6)
    by (cases p) (auto simp: restore_complete_def doc_get_deleted_from_status_def p s1 g by_id)
  then obtain s' where r: "restore_complete env env' i (ReadDocFromStmt d) s = (rd_kRestored, s')" by blast
  then have "DecideRestore env env' i cutoff s = (rd_kRestored, s')"
    using assms(4,5) by (simp add: DecideRestore_def doc_get_def get_row_def doc_get_deleted_at_def g by_id st)
  moreover have "\<exists>m. sc_tables s' = restored env m i (sc_tables s)" using restore_complete_cases[OF r _ by_id refl] assms(1) by simp
  ultimately show ?thesis by blast
qed

theorem restore_only_recoverable_witness:
  "\<exists>s'. DecideRestore (good_store_env ''12:00'') (good_store_env ''12:00'') ''1'' 0 one_deleted = (rd_kRestored, s') \<and>
     (\<exists>m. sc_tables s' = restored (good_store_env ''12:00'') m ''1'' (sc_tables one_deleted))"
proof -
  let ?d = "bury (good_store_env ''11:00'') True 5 ((row_of_doc ''09:00'' (upload ''1''))\<lparr>dr_status := ''ready''\<rparr>)"
  have d: "docs_of one_deleted = [?d]" by (simp add: one_deleted_def)
  have f: "dr_doc_id ?d = ''1''" "dr_status ?d = ''deleted''" "dr_deleted_at ?d = Some 5" "dr_deleted_from_status ?d = Some ''ready''"
    by (simp_all add: bury_def upload_row)
  have g: "se_sql (good_store_env ''12:00'') = sql_good" and zero: "(0 :: int) < 5" by (simp_all add: good_store_env_def)
  obtain s' where r: "DecideRestore (good_store_env ''12:00'') (good_store_env ''12:00'') ''1'' 0 one_deleted = (rd_kRestored, s')"
    using restore_lone[OF d f(1-3) _ f(4) g, of 0 "good_store_env ''12:00''"] zero by blast
  have "distinct (map dr_doc_id (docs_of one_deleted))" by (simp add: d)
  from restore_only_recoverable[OF r this] show ?thesis using r by blast
qed

section \<open>An interrupted purge\<close>

text \<open>
  The steps of a sweep are not one transaction and their results are not looked at.  When the deletion of the row fails behind
  the deletion of blocks and blob, the document counts as deleted; and since it is still a deleted row, a restore inside the
  window answers that it was restored: it is ready, without a single block.
\<close>
theorem purged_document_restored_empty:
  assumes "sweep_doc env ns i u rep = (u', rep')" "se_sql (ge_store env ns i) = (\<lambda>q. if q = DDelDoc then StepFails else SqlOk)"
    and "unit_docs u = [d]" "dr_doc_id d = i" "dr_status d = ''deleted''" "dr_deleted_at d = Some t" "cutoff < t" "dr_deleted_from_status d = Some ''ready''"
    and "sc_txn (gu_conn u) = None" "se_sql e = sql_good"
  shows "sr_docs_hard_deleted rep' = sr_docs_hard_deleted rep + 1 \<and>
    (\<exists>s'. DecideRestore e e' i cutoff (gu_conn u') = (rd_kRestored, s') \<and> (\<exists>k \<in> set (docs_of s'). dr_doc_id k = i \<and> dr_status k = ''ready'') \<and>
       \<not> (\<exists>b \<in> set (ut_blocks (sc_tables s')). br_doc_id b = i))"
proof -
  have t: "sc_tables (gu_conn u') = drop_blocks_of (\<lambda>j. j = i) (sc_tables (gu_conn u))" and r: "sr_docs_hard_deleted rep' = sr_docs_hard_deleted rep + 1"
    using assms(1,2,9) by (auto simp: sweep_doc_def Let_def block_delete_by_doc_def doc_delete_def store_begin_def store_rollback_def set_tables_def)
  then have d: "docs_of (gu_conn u') = [d]" using assms(3) by simp
  obtain s' m where s': "DecideRestore e e' i cutoff (gu_conn u') = (rd_kRestored, s')" "sc_tables s' = restored e m i (sc_tables (gu_conn u'))"
    using restore_lone[OF d assms(4-8,10)] by blast
  have "docs_of s' = [revive e m d]" using s'(2) d assms(4,5) by (simp add: restored_def update_rows_def)
  moreover have "ut_blocks (sc_tables s') = filter (\<lambda>b. br_doc_id b \<noteq> i) (unit_blocks u)" using s'(2) t by (simp add: restored_def drop_blocks_of_def)
  ultimately show ?thesis using s'(1) r assms(4) by (simp add: revive_def)
qed

text \<open>
  A sweep removes neither the parents of a document nor its row in the document-level full-text index: the text of a purged
  document stays in the store.
\<close>
theorem purge_keeps_parent_text:
  assumes "sweep_doc env ns i u rep = (u', rep')"
  shows "ut_parents (sc_tables (gu_conn u')) = ut_parents (sc_tables (gu_conn u)) \<and> ut_doc_fts (sc_tables (gu_conn u')) = ut_doc_fts (sc_tables (gu_conn u))"
proof -
  let ?c = "snd (block_delete_by_doc (ge_store env ns i) i (gu_conn u))"
  have u': "gu_conn u' = snd (doc_delete (ge_store env ns i) i ?c)" using assms by (auto simp: sweep_doc_def Let_def)
  note t = doc_delete_tables[of "ge_store env ns i" i ?c "fst (doc_delete (ge_store env ns i) i ?c)", OF prod.collapse[symmetric], folded u']
    block_delete_tables(2)[of "ge_store env ns i" i "gu_conn u"]
  show ?thesis using t by (elim conjE disjE) (simp_all add: drop_docs_def drop_blocks_of_def)
qed

end
